(* ===== verification/Prelude.thy ===== *)
theory Prelude
  imports Main "HOL-Library.Monad_Syntax" "HOL-Library.Word" "HOL-Library.AList"
    "HOL-Library.Multiset"
begin

text \<open>
  The part of Go that the components of RedisGO use: 64-bit integers with wrap-around,
  byte slices (nil or a byte string), \<open>strconv\<close> and \<open>strings\<close>, maps with an iteration
  order chosen by the runtime, indexing that panics out of range, and the record of
  everything a command reads from its environment (clock, iteration order, the rounding
  operations on floats).

  A command is a function into an option type: \<open>None\<close> is a Go run-time panic (or a loop
  that never ends), \<open>Some\<close> is a normal return.
\<close>

named_theorems go_simps \<open>evaluation of the Go primitives on concrete data\<close>

section \<open>Machine integers\<close>

text \<open>
  Go's \<open>int\<close> and \<open>int64\<close> are 64-bit two's complement. They are kept as \<open>int\<close>, with the
  wrap-around written out at every operation that can leave the range.
\<close>

abbreviation MinInt64 :: int where "MinInt64 \<equiv> - (2 ^ 63)"
abbreviation MaxInt64 :: int where "MaxInt64 \<equiv> 2 ^ 63 - 1"

definition wrap64 :: "int \<Rightarrow> int" where
  "wrap64 i = (i + 2 ^ 63) mod 2 ^ 64 - 2 ^ 63"

definition in64 :: "int \<Rightarrow> bool" where
  "in64 i \<longleftrightarrow> MinInt64 \<le> i \<and> i \<le> MaxInt64"

lemma wrap64_id [simp]: "in64 i \<Longrightarrow> wrap64 i = i"
  by (simp add: wrap64_def in64_def)

lemma wrap64_range [simp]: "in64 (wrap64 i)"
proof -
  have "0 \<le> (i + 2 ^ 63) mod 2 ^ 64" "(i + 2 ^ 63) mod 2 ^ 64 < (2 ^ 64 :: int)"
    by simp_all
  then show ?thesis by (simp add: wrap64_def in64_def)
qed

lemma wrap64_MinInt64: "wrap64 (- MinInt64) = MinInt64"
  by (simp add: wrap64_def)

section \<open>Slices, strings and indexing\<close>

text \<open>
  A byte string is a \<open>string\<close>; HOL's \<open>char\<close> is an 8-bit byte. A value of type \<open>[]byte\<close>
  is nil (\<open>None\<close>) or a byte string. Converting it to a Go string forgets the difference.
\<close>

type_synonym slice = "string option"
type_synonym cmdBytes = "slice list"

definition str :: "slice \<Rightarrow> string" where
  "str s = (case s of None \<Rightarrow> [] | Some b \<Rightarrow> b)"

lemma str_simps [simp]: "str None = []" "str (Some b) = b"
  by (simp_all add: str_def)

text \<open>\<open>bytes.Equal\<close>: nil equals the empty slice.\<close>

definition bytes_Equal :: "slice \<Rightarrow> slice \<Rightarrow> bool" where
  "bytes_Equal a b \<longleftrightarrow> str a = str b"

text \<open>\<open>append(s, x...)\<close>: a nil slice stays nil when nothing is appended.\<close>

definition slice_append :: "slice \<Rightarrow> string \<Rightarrow> slice" where
  "slice_append s x = (if x = [] then s else Some (str s @ x))"

lemma str_slice_append [simp]: "str (slice_append s x) = str s @ x"
  by (simp add: slice_append_def)

text \<open>Reading an element of a slice; out of range is a panic.\<close>

definition nth_opt :: "'a list \<Rightarrow> nat \<Rightarrow> 'a option" where
  "nth_opt xs i = (if i < length xs then Some (xs ! i) else None)"

lemma nth_opt_Nil [simp]: "nth_opt [] i = None"
  by (simp add: nth_opt_def)

lemma nth_opt_0 [simp]: "nth_opt (x # xs) 0 = Some x"
  by (simp add: nth_opt_def)

lemma nth_opt_Suc [simp]: "nth_opt (x # xs) (Suc i) = nth_opt xs i"
  by (simp add: nth_opt_def)

lemma nth_opt_numeral [simp]: "nth_opt (x # xs) (numeral v) = nth_opt xs (pred_numeral v)"
  by (simp add: numeral_eq_Suc)

lemma nth_opt_lt [simp]: "i < length xs \<Longrightarrow> nth_opt xs i = Some (xs ! i)"
  by (simp add: nth_opt_def)

lemma nth_opt_ge: "length xs \<le> i \<Longrightarrow> nth_opt xs i = None"
  by (simp add: nth_opt_def)

lemma nth_opt_Some_iff: "nth_opt xs i = Some x \<longleftrightarrow> i < length xs \<and> xs ! i = x"
  by (auto simp: nth_opt_def)

text \<open>The argument \<open>string(cmd[i])\<close> of a command.\<close>

definition arg :: "cmdBytes \<Rightarrow> nat \<Rightarrow> string option" where
  "arg cmd i = map_option str (nth_opt cmd i)"

lemma arg_simps [simp]:
  "arg [] i = None" "arg (c # cmd) 0 = Some (str c)"
  "arg (c # cmd) (Suc i) = arg cmd i"
  "arg (c # cmd) (numeral v) = arg cmd (pred_numeral v)"
  by (simp_all add: arg_def)

lemma arg_lt [simp]: "i < length cmd \<Longrightarrow> arg cmd i = Some (str (cmd ! i))"
  by (simp add: arg_def)

lemma arg_Some_iff: "arg cmd i = Some s \<longleftrightarrow> i < length cmd \<and> str (cmd ! i) = s"
  by (auto simp: arg_def nth_opt_def)

text \<open>Sequencing lists of outputs.\<close>

lemma map_option_append_Nil [simp]: "map_option ((@) []) x = x"
  by (cases x) simp_all

lemma map_option_append_single [simp]: "map_option ((@) [y]) x = map_option ((#) y) x"
  by (cases x) simp_all

section \<open>Decimal numbers: strconv\<close>

definition is_digit :: "char \<Rightarrow> bool" where
  "is_digit c \<longleftrightarrow> 48 \<le> (of_char c :: nat) \<and> (of_char c :: nat) \<le> 57"

definition digit_val :: "char \<Rightarrow> nat" where
  "digit_val c = of_char c - 48"

definition digit_char :: "nat \<Rightarrow> char" where
  "digit_char d = char_of (48 + d)"

fun parse_digits :: "nat \<Rightarrow> string \<Rightarrow> nat option" where
  "parse_digits acc [] = Some acc"
| "parse_digits acc (c # cs) =
     (if is_digit c then parse_digits (10 * acc + digit_val c) cs else None)"

definition parse_nat :: "string \<Rightarrow> nat option" where
  "parse_nat s = (if s = [] then None else parse_digits 0 s)"

text \<open>
  \<open>strconv.ParseInt(s, 10, 64)\<close> and \<open>strconv.Atoi\<close>: an optional sign, at least one
  decimal digit, a value that fits in 64 bits; \<open>None\<close> is the error return.
\<close>

definition ParseInt :: "string \<Rightarrow> int option" where
  "ParseInt s =
     (let (neg, ds) = (case s of [] \<Rightarrow> (False, [])
                       | c # cs \<Rightarrow> if c = CHR ''-'' then (True, cs)
                                  else if c = CHR ''+'' then (False, cs) else (False, s))
      in case parse_nat ds of None \<Rightarrow> None
         | Some n \<Rightarrow> let v = (if neg then - int n else int n)
                    in if in64 v then Some v else None)"

abbreviation Atoi :: "string \<Rightarrow> int option" where "Atoi \<equiv> ParseInt"

fun fmt_nat :: "nat \<Rightarrow> string" where
  "fmt_nat n = (if n < 10 then [digit_char n] else fmt_nat (n div 10) @ [digit_char (n mod 10)])"

declare fmt_nat.simps [simp del]

text \<open>\<open>strconv.FormatInt(i, 10)\<close> and \<open>strconv.Itoa\<close>.\<close>

definition FormatInt :: "int \<Rightarrow> string" where
  "FormatInt i = (if i < 0 then CHR ''-'' # fmt_nat (nat (- i)) else fmt_nat (nat i))"

abbreviation Itoa :: "int \<Rightarrow> string" where "Itoa \<equiv> FormatInt"

lemma of_char_digit_char: "d < 10 \<Longrightarrow> (of_char (digit_char d) :: nat) = 48 + d"
  by (simp add: digit_char_def)

lemma is_digit_digit_char [simp]: "d < 10 \<Longrightarrow> is_digit (digit_char d)"
  by (simp add: is_digit_def of_char_digit_char)

lemma digit_val_digit_char [simp]: "d < 10 \<Longrightarrow> digit_val (digit_char d) = d"
  by (simp add: digit_val_def of_char_digit_char)

lemma parse_digits_append:
  "parse_digits acc (xs @ ys) = (case parse_digits acc xs of None \<Rightarrow> None | Some a \<Rightarrow> parse_digits a ys)"
  by (induction xs arbitrary: acc) auto

lemma parse_digits_fmt_nat: "parse_digits 0 (fmt_nat n) = Some n"
proof (induction n rule: fmt_nat.induct)
  case (1 n)
  show ?case
  proof (cases "n < 10")
    case True
    then show ?thesis by (simp add: fmt_nat.simps [of n])
  next
    case False
    with "1.IH" have "parse_digits 0 (fmt_nat (n div 10)) = Some (n div 10)" by simp
    with False show ?thesis by (simp add: fmt_nat.simps [of n] parse_digits_append)
  qed
qed

lemma fmt_nat_not_Nil [simp]: "fmt_nat n \<noteq> []"
  by (subst fmt_nat.simps) simp

lemma fmt_nat_digits: "c \<in> set (fmt_nat n) \<Longrightarrow> is_digit c"
proof (induction n rule: fmt_nat.induct)
  case (1 n)
  then show ?case
    by (cases "n < 10") (auto simp: fmt_nat.simps [of n])
qed

lemma is_digit_not [simp]:
  "\<not> is_digit (CHR ''-'')" "\<not> is_digit (CHR ''+'')" "\<not> is_digit (CHR 0x0A)" "\<not> is_digit (CHR 0x0D)"
  by (simp_all add: is_digit_def)

lemma parse_nat_fmt_nat [simp]: "parse_nat (fmt_nat n) = Some n"
  by (simp add: parse_nat_def parse_digits_fmt_nat)

lemma fmt_nat_hd: "fmt_nat n = c # cs \<Longrightarrow> is_digit c"
  by (rule fmt_nat_digits [of c n]) simp

theorem ParseInt_FormatInt [simp]: "in64 i \<Longrightarrow> ParseInt (FormatInt i) = Some i"
proof (cases "i < 0")
  case True
  moreover assume "in64 i"
  ultimately show ?thesis by (simp add: ParseInt_def FormatInt_def)
next
  case False
  assume r: "in64 i"
  obtain c cs where s: "fmt_nat (nat i) = c # cs"
    by (cases "fmt_nat (nat i)") auto
  then have "is_digit c" by (rule fmt_nat_hd)
  then have "c \<noteq> CHR ''-''" "c \<noteq> CHR ''+''" by auto
  moreover from s have "parse_nat (c # cs) = Some (nat i)"
    using parse_nat_fmt_nat [of "nat i"] by simp
  ultimately show ?thesis using False r s by (simp add: ParseInt_def FormatInt_def)
qed

lemma ParseInt_in64: "ParseInt s = Some i \<Longrightarrow> in64 i"
  by (auto simp: ParseInt_def Let_def split: list.splits option.splits if_splits prod.splits)

section \<open>strings\<close>

text \<open>
  \<open>strings.ToLower\<close>: bytes A to Z are lowered when the string is ASCII; any other string is
  mapped through the Unicode tables of the Go library, which are a parameter.
\<close>

definition is_ascii :: "char \<Rightarrow> bool" where
  "is_ascii c \<longleftrightarrow> (of_char c :: nat) < 128"

definition lower_char :: "char \<Rightarrow> char" where
  "lower_char c = (let n = (of_char c :: nat) in if 65 \<le> n \<and> n \<le> 90 then char_of (n + 32) else c)"

definition ToLower :: "(string \<Rightarrow> string) \<Rightarrow> string \<Rightarrow> string" where
  "ToLower uni s = (if list_all is_ascii s then map lower_char s else uni s)"

lemma lower_char_idem [simp]: "lower_char (lower_char c) = lower_char c"
  by (simp add: lower_char_def Let_def)

lemma is_ascii_lower_char: "is_ascii c \<Longrightarrow> is_ascii (lower_char c)"
  by (simp add: is_ascii_def lower_char_def Let_def)

lemma ToLower_idem: "list_all is_ascii s \<Longrightarrow> ToLower uni (ToLower uni s) = ToLower uni s"
  by (auto simp: ToLower_def list_all_iff is_ascii_lower_char)

lemmas ToLower_eval = ToLower_def is_ascii_def lower_char_def char_of_def bit_0
lemmas FormatInt_eval = FormatInt_def fmt_nat.simps digit_char_def char_of_def bit_0

text \<open>\<open>strings.Split(s, sep)\<close> and \<open>strings.Join(ss, sep)\<close> for a one-byte separator.\<close>

fun Split :: "char \<Rightarrow> string \<Rightarrow> string list" where
  "Split sep [] = [[]]"
| "Split sep (c # cs) =
     (if c = sep then [] # Split sep cs
      else case Split sep cs of [] \<Rightarrow> [[c]] | w # ws \<Rightarrow> (c # w) # ws)"

fun Join :: "char \<Rightarrow> string list \<Rightarrow> string" where
  "Join sep [] = []"
| "Join sep [w] = w"
| "Join sep (w # ws) = w @ sep # Join sep ws"

lemma Split_not_Nil [simp]: "Split sep s \<noteq> []"
  by (induction sep s rule: Split.induct) (auto split: list.splits)

lemma Split_no_sep: "sep \<notin> set s \<Longrightarrow> Split sep s = [s]"
  by (induction s) auto

lemma Split_append_sep: "sep \<notin> set w \<Longrightarrow> Split sep (w @ sep # s) = w # Split sep s"
  by (induction w) auto

lemma Split_Join:
  "ws \<noteq> [] \<Longrightarrow> \<forall>w\<in>set ws. sep \<notin> set w \<Longrightarrow> Split sep (Join sep ws) = ws"
  by (induction sep ws rule: Join.induct) (auto simp: Split_no_sep Split_append_sep)

lemma Join_Split: "Join sep (Split sep s) = s"
proof (induction sep s rule: Split.induct)
  case (2 sep c cs)
  obtain w ws where "Split sep cs = w # ws" by (cases "Split sep cs") auto
  with 2 show ?case by (cases ws; auto)
qed simp

section \<open>Maps\<close>

text \<open>
  A Go map is an association list with distinct keys; \<open>AList.update\<close> and
  \<open>AList.delete\<close> are assignment and \<open>delete\<close>, \<open>map_of\<close> is lookup and the length is
  \<open>len\<close>. The order of the list carries no meaning: a \<open>range\<close> statement visits the keys in
  an order chosen by the environment (below).
\<close>

definition gm_ok :: "('k \<times> 'v) list \<Rightarrow> bool" where
  "gm_ok al \<longleftrightarrow> distinct (map fst al)"

lemma gm_ok_Nil [simp]: "gm_ok []"
  by (simp add: gm_ok_def)

lemma gm_ok_update [simp]: "gm_ok al \<Longrightarrow> gm_ok (AList.update k v al)"
  by (simp add: gm_ok_def distinct_update)

lemma gm_ok_delete [simp]: "gm_ok al \<Longrightarrow> gm_ok (AList.delete k al)"
  by (simp add: gm_ok_def distinct_delete)

lemma map_of_update [simp]: "map_of (AList.update k v al) = (map_of al)(k \<mapsto> v)"
  by (simp add: update_conv')

lemma map_of_delete [simp]: "map_of (AList.delete k al) = (map_of al)(k := None)"
  by (simp add: delete_conv')

lemma length_gm: "gm_ok al \<Longrightarrow> length al = card (dom (map_of al))"
  by (metis card_image distinct_card distinct_map dom_map_of_conv_image_fst gm_ok_def
      length_map set_map)

lemma length_update_gm:
  "gm_ok al \<Longrightarrow> length (AList.update k v al) = length al + (if map_of al k = None then 1 else 0)"
  by (auto simp: length_gm card_insert_if domIff insert_absorb finite_dom_map_of)

lemma length_delete_gm:
  "gm_ok al \<Longrightarrow> length (AList.delete k al) + (if map_of al k = None then 0 else 1) = length al"
  by (auto simp: length_gm finite_dom_map_of domIff card_gt_0_iff intro!: Suc_pred)

section \<open>Floating point\<close>

text \<open>
  A \<open>float64\<close> is its IEEE 754 bit pattern. Comparison is exact on the patterns: a NaN
  compares false with everything, the two zeros are equal, and all other values are
  ordered by their sign and magnitude. Addition, parsing and formatting round; they are
  library operations and parameters (below).
\<close>

type_synonym f64 = "64 word"

definition f_mag :: "f64 \<Rightarrow> nat" where
  "f_mag x = unat x mod 2 ^ 63"

definition f_nan :: "f64 \<Rightarrow> bool" where
  "f_nan x \<longleftrightarrow> 2047 * 2 ^ 52 < f_mag x"

definition f_key :: "f64 \<Rightarrow> int" where
  "f_key x = (if unat x < 2 ^ 63 then int (f_mag x) else - int (f_mag x))"

definition f_lt :: "f64 \<Rightarrow> f64 \<Rightarrow> bool" where
  "f_lt x y \<longleftrightarrow> \<not> f_nan x \<and> \<not> f_nan y \<and> f_key x < f_key y"

definition f_eq :: "f64 \<Rightarrow> f64 \<Rightarrow> bool" where
  "f_eq x y \<longleftrightarrow> \<not> f_nan x \<and> \<not> f_nan y \<and> f_key x = f_key y"

definition f_le :: "f64 \<Rightarrow> f64 \<Rightarrow> bool" where
  "f_le x y \<longleftrightarrow> f_lt x y \<or> f_eq x y"

section \<open>The environment of a command\<close>

text \<open>
  What a command reads besides its arguments and the database: the clock (one reading per
  command, in seconds and in milliseconds), the order in which a \<open>range\<close> over a map visits
  the keys (one order per \<open>range\<close> statement executed, numbered), the Unicode lower-case
  table, the bytes that lie between the length and the capacity of a stored slice, the
  rounding operations on floats, the unique identifiers made during the command (numbered),
  the connection of the client that sent it, which connections a write succeeds on, and
  whether the context of the command carries the channel for configuration changes.
\<close>

record env =
  now :: int
  now_ms :: int
  iter :: "nat \<Rightarrow> string list \<Rightarrow> string list"
  uni_lower :: "string \<Rightarrow> string"
  spare :: "string \<Rightarrow> string"
  f_parse :: "string \<Rightarrow> f64 option"
  f_add :: "f64 \<Rightarrow> f64 \<Rightarrow> f64"
  f_fmt :: "f64 \<Rightarrow> string"
  f_fmt6 :: "f64 \<Rightarrow> string"
  uuid :: "nat \<Rightarrow> string"
  conn_id :: nat
  conn_ok :: "nat \<Rightarrow> bool"
  in_cluster :: bool

abbreviation lower :: "env \<Rightarrow> string \<Rightarrow> string" where
  "lower e \<equiv> ToLower (uni_lower e)"

text \<open>A \<open>range\<close> statement visits every key exactly once.\<close>

definition iter_ok :: "env \<Rightarrow> bool" where
  "iter_ok e \<longleftrightarrow> (\<forall>k xs. mset (iter e k xs) = mset xs)"

lemma iter_ok_set: "iter_ok e \<Longrightarrow> set (iter e k xs) = set xs"
  by (metis iter_ok_def mset_eq_setD)

lemma iter_ok_length: "iter_ok e \<Longrightarrow> length (iter e k xs) = length xs"
  by (metis iter_ok_def mset_eq_length)

lemma iter_ok_distinct: "iter_ok e \<Longrightarrow> distinct (iter e k xs) = distinct xs"
  by (metis iter_ok_def mset_eq_imp_distinct_iff)

text \<open>An environment for concrete runs: the clock at \<open>t\<close>, keys visited in the stored order.\<close>

definition env_at :: "int \<Rightarrow> env" where
  "env_at t = \<lparr>now = t, now_ms = 1000 * t, iter = (\<lambda>_ xs. xs), uni_lower = (\<lambda>s. s),
     spare = (\<lambda>_. []), f_parse = (\<lambda>_. None), f_add = (\<lambda>x _. x), f_fmt = (\<lambda>_. []),
     f_fmt6 = (\<lambda>_. []), uuid = (\<lambda>k. replicate k (CHR ''u'')), conn_id = 0, conn_ok = (\<lambda>_. True), in_cluster = False\<rparr>"

lemma env_at_simps [simp]:
  "now (env_at t) = t" "now_ms (env_at t) = 1000 * t" "iter (env_at t) k xs = xs"
  "uni_lower (env_at t) = (\<lambda>s. s)" "spare (env_at t) s = []" "conn_id (env_at t) = 0" "conn_ok (env_at t) c"
  "\<not> in_cluster (env_at t)"
  by (simp_all add: env_at_def)

lemma iter_ok_env_at [simp]: "iter_ok (env_at t)"
  by (simp add: iter_ok_def)

end
