(* ===== verification/Raft_Types.thy ===== *)
theory Raft_Types
  imports Prelude
begin

text \<open>
  The data of the raft library: the messages of \<open>src/etcd/raft/raftpb/raft.pb.go\<close> and the small
  functions on them in \<open>raftpb/confchange.go\<close>, \<open>raftpb/confstate.go\<close>, \<open>util.go\<close> and \<open>node.go\<close>
  of \<open>src/etcd/raft\<close>.

  Node ids, terms and log indices have the Go type \<open>uint64\<close>. They are natural numbers here. A term
  or an index grows by one for every election or entry, so additions are taken not to reach
  \<open>2 ^ 64\<close>; where a subtraction can go below zero the wrap-around is written out (\<open>sub64\<close>). A
  numeric value that is no constant of an enumeration is the last constructor of its datatype. A
  call of the panic functions of the logger is a panic, the result \<open>None\<close>.
\<close>

section \<open>Words of 64 bits\<close>

definition MaxUint64 :: nat where "MaxUint64 = 2 ^ 64 - 1"

definition sub64 :: "nat \<Rightarrow> nat \<Rightarrow> nat" where
  "sub64 a b = (if b \<le> a then a - b else a + 2 ^ 64 - b)"

lemma sub64_le [simp]: "b \<le> a \<Longrightarrow> sub64 a b = a - b"
  by (simp add: sub64_def)

section \<open>Messages\<close>

datatype EntryType = EntryNormal | EntryConfChange | EntryConfChangeV2 | EntryTypeUnknown int

record Entry =
  eTerm :: nat
  eIndex :: nat
  eType :: EntryType
  eData :: slice

record ConfState =
  csVoters :: "nat list"
  csLearners :: "nat list"
  csVotersOutgoing :: "nat list"
  csLearnersNext :: "nat list"
  csAutoLeave :: bool

record SnapshotMetadata =
  smConfState :: ConfState
  smIndex :: nat
  smTerm :: nat

record Snapshot =
  snData :: slice
  snMetadata :: SnapshotMetadata

datatype MessageType =
    MsgHup | MsgBeat | MsgProp | MsgApp | MsgAppResp | MsgVote | MsgVoteResp | MsgSnap | MsgHeartbeat
  | MsgHeartbeatResp | MsgUnreachable | MsgSnapStatus | MsgCheckQuorum | MsgTransferLeader | MsgTimeoutNow
  | MsgReadIndex | MsgReadIndexResp | MsgPreVote | MsgPreVoteResp | MessageTypeUnknown int

record Message =
  mType :: MessageType
  mTo :: nat
  mFrom :: nat
  mTerm :: nat
  mLogTerm :: nat
  mIndex :: nat
  mEntries :: "Entry list"
  mCommit :: nat
  mSnapshot :: Snapshot
  mReject :: bool
  mRejectHint :: nat
  mContext :: slice

record HardState =
  hTerm :: nat
  hVote :: nat
  hCommit :: nat

datatype ConfChangeTransition =
    ConfChangeTransitionAuto | ConfChangeTransitionJointImplicit | ConfChangeTransitionJointExplicit
  | ConfChangeTransitionUnknown int

datatype ConfChangeType =
    ConfChangeAddNode | ConfChangeRemoveNode | ConfChangeUpdateNode | ConfChangeAddLearnerNode
  | ConfChangeTypeUnknown int

record ConfChange =
  ccType :: ConfChangeType
  ccNodeID :: nat
  ccContext :: slice
  ccID :: nat

record ConfChangeSingle =
  csType :: ConfChangeType
  csNodeID :: nat

record ConfChangeV2 =
  c2Transition :: ConfChangeTransition
  c2Changes :: "ConfChangeSingle list"
  c2Context :: slice

text \<open>The zero values of the Go types.\<close>

definition emptyEntry :: Entry where
  "emptyEntry = \<lparr>eTerm = 0, eIndex = 0, eType = EntryNormal, eData = None\<rparr>"

definition emptyConfState :: ConfState where
  "emptyConfState = \<lparr>csVoters = [], csLearners = [], csVotersOutgoing = [], csLearnersNext = [], csAutoLeave = False\<rparr>"

definition emptySnapshot :: Snapshot where
  "emptySnapshot = \<lparr>snData = None, snMetadata = \<lparr>smConfState = emptyConfState, smIndex = 0, smTerm = 0\<rparr>\<rparr>"

definition emptyMessage :: Message where
  "emptyMessage = \<lparr>mType = MsgHup, mTo = 0, mFrom = 0, mTerm = 0, mLogTerm = 0, mIndex = 0, mEntries = [],
     mCommit = 0, mSnapshot = emptySnapshot, mReject = False, mRejectHint = 0, mContext = None\<rparr>"

definition emptyState :: HardState where
  "emptyState = \<lparr>hTerm = 0, hVote = 0, hCommit = 0\<rparr>"

definition emptyConfChange :: ConfChange where
  "emptyConfChange = \<lparr>ccType = ConfChangeAddNode, ccNodeID = 0, ccContext = None, ccID = 0\<rparr>"

definition emptyConfChangeV2 :: ConfChangeV2 where
  "emptyConfChangeV2 = \<lparr>c2Transition = ConfChangeTransitionAuto, c2Changes = [], c2Context = None\<rparr>"

abbreviation snIndex :: "Snapshot \<Rightarrow> nat" where "snIndex s \<equiv> smIndex (snMetadata s)"
abbreviation snTerm :: "Snapshot \<Rightarrow> nat" where "snTerm s \<equiv> smTerm (snMetadata s)"

definition isHardStateEqual :: "HardState \<Rightarrow> HardState \<Rightarrow> bool" where
  "isHardStateEqual a b \<longleftrightarrow> hTerm a = hTerm b \<and> hVote a = hVote b \<and> hCommit a = hCommit b"

definition IsEmptyHardState :: "HardState \<Rightarrow> bool" where
  "IsEmptyHardState st = isHardStateEqual st emptyState"

definition IsEmptySnap :: "Snapshot \<Rightarrow> bool" where
  "IsEmptySnap sp \<longleftrightarrow> snIndex sp = 0"

section \<open>Kinds of messages\<close>

definition IsLocalMsg :: "MessageType \<Rightarrow> bool" where
  "IsLocalMsg t \<longleftrightarrow> t \<in> {MsgHup, MsgBeat, MsgUnreachable, MsgSnapStatus, MsgCheckQuorum}"

definition IsResponseMsg :: "MessageType \<Rightarrow> bool" where
  "IsResponseMsg t \<longleftrightarrow> t \<in> {MsgAppResp, MsgVoteResp, MsgHeartbeatResp, MsgUnreachable, MsgPreVoteResp}"

definition voteRespMsgType :: "MessageType \<Rightarrow> MessageType option" where
  "voteRespMsgType t = (case t of MsgVote \<Rightarrow> Some MsgVoteResp | MsgPreVote \<Rightarrow> Some MsgPreVoteResp | _ \<Rightarrow> None)"

section \<open>Sizes\<close>

text \<open>The number of bits of a word (\<open>bits.Len64\<close>) and of the bytes of its encoding.\<close>

fun Len64 :: "nat \<Rightarrow> nat" where
  "Len64 x = (if x = 0 then 0 else Suc (Len64 (x div 2)))"

declare Len64.simps [simp del]

definition sovRaft :: "nat \<Rightarrow> nat" where
  "sovRaft x = (Len64 (or x 1) + 6) div 7"

definition EntryType_num :: "EntryType \<Rightarrow> int" where
  "EntryType_num t = (case t of EntryNormal \<Rightarrow> 0 | EntryConfChange \<Rightarrow> 1 | EntryConfChangeV2 \<Rightarrow> 2 | EntryTypeUnknown i \<Rightarrow> i)"

definition uint64_of :: "int \<Rightarrow> nat" where
  "uint64_of i = nat (i mod 2 ^ 64)"

definition bytes_Size :: "slice \<Rightarrow> nat" where
  "bytes_Size d = (case d of None \<Rightarrow> 0 | Some b \<Rightarrow> 1 + length b + sovRaft (length b))"

definition Entry_Size :: "Entry \<Rightarrow> nat" where
  "Entry_Size m =
     (1 + sovRaft (uint64_of (EntryType_num (eType m)))) + (1 + sovRaft (eTerm m)) + (1 + sovRaft (eIndex m)) + bytes_Size (eData m)"

definition PayloadSize :: "Entry \<Rightarrow> nat" where
  "PayloadSize e = length (str (eData e))"

text \<open>The first entries whose sizes add up to at most \<open>maxSize\<close>, and always the first one.\<close>

fun limit_loop :: "Entry list \<Rightarrow> nat \<Rightarrow> nat \<Rightarrow> Entry list" where
  "limit_loop [] sz maxSize = []"
| "limit_loop (e # es) sz maxSize =
     (let sz = sz + Entry_Size e in if sz > maxSize then [] else e # limit_loop es sz maxSize)"

definition limitSize :: "Entry list \<Rightarrow> nat \<Rightarrow> Entry list" where
  "limitSize ents maxSize =
     (case ents of [] \<Rightarrow> [] | e # es \<Rightarrow> e # limit_loop es (Entry_Size e) maxSize)"

section \<open>Configuration changes\<close>

definition ConfChange_AsV2 :: "ConfChange \<Rightarrow> ConfChangeV2" where
  "ConfChange_AsV2 c =
     \<lparr>c2Transition = ConfChangeTransitionAuto, c2Changes = [\<lparr>csType = ccType c, csNodeID = ccNodeID c\<rparr>], c2Context = ccContext c\<rparr>"

text \<open>The interface \<open>ConfChangeI\<close> has two implementations.\<close>

datatype ConfChangeI = V1 ConfChange | V2 ConfChangeV2

definition AsV2 :: "ConfChangeI \<Rightarrow> ConfChangeV2" where
  "AsV2 c = (case c of V1 c \<Rightarrow> ConfChange_AsV2 c | V2 c \<Rightarrow> c)"

definition AsV1 :: "ConfChangeI \<Rightarrow> ConfChange \<times> bool" where
  "AsV1 c = (case c of V1 c \<Rightarrow> (c, True) | V2 c \<Rightarrow> (emptyConfChange, False))"

definition EnterJoint :: "ConfChangeV2 \<Rightarrow> (bool \<times> bool) option" where
  "EnterJoint c =
     (if c2Transition c \<noteq> ConfChangeTransitionAuto \<or> length (c2Changes c) > 1 then
        (case c2Transition c of
           ConfChangeTransitionAuto \<Rightarrow> Some (True, True)
         | ConfChangeTransitionJointImplicit \<Rightarrow> Some (True, True)
         | ConfChangeTransitionJointExplicit \<Rightarrow> Some (False, True)
         | ConfChangeTransitionUnknown _ \<Rightarrow> None)
      else Some (False, False))"

definition LeaveJoint :: "ConfChangeV2 \<Rightarrow> bool" where
  "LeaveJoint c \<longleftrightarrow> c\<lparr>c2Context := None\<rparr> = emptyConfChangeV2"

text \<open>\<open>Equivalent\<close> returns no error when the configurations agree up to the order of their ids.\<close>

definition Equivalent :: "ConfState \<Rightarrow> ConfState \<Rightarrow> bool" where
  "Equivalent cs1 cs2 \<longleftrightarrow>
     sort (csVoters cs1) = sort (csVoters cs2) \<and> sort (csLearners cs1) = sort (csLearners cs2)
     \<and> sort (csVotersOutgoing cs1) = sort (csVotersOutgoing cs2) \<and> sort (csLearnersNext cs1) = sort (csLearnersNext cs2)
     \<and> csAutoLeave cs1 = csAutoLeave cs2"

section \<open>Facts about sizes\<close>

lemma limit_loop_take: "limit_loop es sz mx = take (length (limit_loop es sz mx)) es"
  by (induction es sz mx rule: limit_loop.induct) (auto simp: Let_def)

lemma limitSize_prefix: "\<exists>k. limitSize es mx = take k es \<and> (es \<noteq> [] \<longrightarrow> 0 < k)"
proof (cases es)
  case (Cons e es')
  then show ?thesis using limit_loop_take [of es' "Entry_Size e" mx]
    by (auto simp: limitSize_def intro!: exI [of _ "Suc (length (limit_loop es' (Entry_Size e) mx))"])
qed (simp add: limitSize_def)

lemma limit_loop_bound: "limit_loop es sz mx = [] \<or> sz + sum_list (map Entry_Size (limit_loop es sz mx)) \<le> mx"
proof (induction es arbitrary: sz)
  case (Cons a es)
  show ?case using Cons [of "sz + Entry_Size a"] by (auto simp: Let_def)
qed simp

lemma limitSize_bound: "length (limitSize es mx) \<le> 1 \<or> sum_list (map Entry_Size (limitSize es mx)) \<le> mx"
  using limit_loop_bound [of "tl es" "Entry_Size (hd es)" mx] by (cases es) (auto simp: limitSize_def)

lemma limit_loop_same: "sz + sum_list (map Entry_Size es) \<le> mx \<Longrightarrow> limit_loop es sz mx = es"
  by (induction es arbitrary: sz) (auto simp: Let_def)

lemma limitSize_same: "sum_list (map Entry_Size es) \<le> mx \<Longrightarrow> limitSize es mx = es"
  by (cases es) (auto simp: limitSize_def intro: limit_loop_same)

text \<open>Limiting the first part of a list is enough when something of that part is left out.\<close>

lemma limit_loop_append: "length (limit_loop a sz mx) < length a \<Longrightarrow> limit_loop (a @ b) sz mx = limit_loop a sz mx"
  by (induction a arbitrary: sz) (auto simp: Let_def)

lemma limitSize_append: "length (limitSize a mx) < length a \<Longrightarrow> limitSize (a @ b) mx = limitSize a mx"
  by (cases a) (auto simp: limitSize_def limit_loop_append)

lemma limitSize_all: "length (limitSize a mx) \<ge> length a \<Longrightarrow> limitSize a mx = a"
  using limitSize_prefix [of a mx] by auto

lemma length_limitSize: "length (limitSize a mx) \<le> length a"
  using limitSize_prefix [of a mx] by auto

end
