(* ===== verification/Raft_Quorum.thy ===== *)
theory Raft_Quorum
  imports Raft_Types
begin

text \<open>
  Quorums of the raft library in \<open>src/etcd/raft/quorum\<close>: majorities of one set of voters, and
  joint configurations, in which two majorities have to agree. Indices, terms and node ids
  (\<open>uint64\<close>) are natural numbers; \<open>MaxUint64\<close> is the largest. A Go map with empty
  values is the list of its keys, without repetition, in the order of iteration; a nil map is \<open>None\<close>.
\<close>

section \<open>Majorities\<close>

type_synonym idset = "nat list option"

type_synonym MajorityConfig = idset

fun ids :: "idset \<Rightarrow> nat list" where
  "ids None = []"
| "ids (Some l) = l"

definition Slice :: "MajorityConfig \<Rightarrow> nat list" where
  "Slice c = sort (ids c)"

text \<open>The inner loop of \<open>insertionSort\<close> moves the element at position \<open>j\<close> to the left.\<close>

fun sink :: "nat list \<Rightarrow> nat \<Rightarrow> nat list" where
  "sink sl 0 = sl"
| "sink sl (Suc j) = (if sl ! Suc j < sl ! j then sink (sl[Suc j := sl ! j, j := sl ! Suc j]) j else sl)"

definition insertionSort :: "nat list \<Rightarrow> nat list" where
  "insertionSort sl = fold (\<lambda>i sl. sink sl i) [1..<length sl] sl"

text \<open>The indices are filled in from the right; \<open>i\<close> is the number of slots that are left.\<close>

fun fill :: "(nat \<Rightarrow> nat option) \<Rightarrow> nat list \<Rightarrow> nat list \<Rightarrow> nat \<Rightarrow> nat list" where
  "fill l [] srt i = srt"
| "fill l (k # ks) srt i = (case l k of None \<Rightarrow> fill l ks srt i | Some idx \<Rightarrow> fill l ks (srt[i - 1 := idx]) (i - 1))"

definition CommittedIndex :: "MajorityConfig \<Rightarrow> (nat \<Rightarrow> nat option) \<Rightarrow> nat" where
  "CommittedIndex c l =
     (let n = length (ids c) in
      if n = 0 then MaxUint64
      else insertionSort (fill l (ids c) (replicate n 0) n) ! (n - (n div 2 + 1)))"

datatype VoteResult = VotePending | VoteLost | VoteWon

definition MajorityVoteResult :: "MajorityConfig \<Rightarrow> (nat \<rightharpoonup> bool) \<Rightarrow> VoteResult" where
  "MajorityVoteResult c votes =
     (if ids c = [] then VoteWon
      else
        let votedCnt = length (filter (\<lambda>k. votes k = Some True) (ids c));
            missing = length (filter (\<lambda>k. votes k = None) (ids c));
            q = length (ids c) div 2 + 1
        in if votedCnt \<ge> q then VoteWon else if votedCnt + missing \<ge> q then VotePending else VoteLost)"

section \<open>Joint configurations\<close>

type_synonym JointConfig = "MajorityConfig \<times> MajorityConfig"

definition IDs :: "JointConfig \<Rightarrow> nat list" where
  "IDs c = remdups (ids (fst c) @ ids (snd c))"

definition JointCommittedIndex :: "JointConfig \<Rightarrow> (nat \<Rightarrow> nat option) \<Rightarrow> nat" where
  "JointCommittedIndex c l =
     (let idx0 = CommittedIndex (fst c) l; idx1 = CommittedIndex (snd c) l
      in if idx0 < idx1 then idx0 else idx1)"

definition JointVoteResult :: "JointConfig \<Rightarrow> (nat \<rightharpoonup> bool) \<Rightarrow> VoteResult" where
  "JointVoteResult c votes =
     (let r1 = MajorityVoteResult (fst c) votes; r2 = MajorityVoteResult (snd c) votes in
      if r1 = r2 then r1
      else if r1 = VoteLost \<or> r2 = VoteLost then VoteLost
      else VotePending)"

section \<open>The sort and the committed index\<close>

lemma sink_sorted: "sorted xs \<Longrightarrow> sink (xs @ x # ys) (length xs) = sort (xs @ [x]) @ ys"
proof (induction xs arbitrary: ys rule: rev_induct)
  case (snoc z zs)
  show ?case
  proof (cases "x < z")
    case True
    have "sink ((zs @ [z]) @ x # ys) (length (zs @ [z])) = sink (zs @ x # z # ys) (length zs)"
      using True by (simp add: nth_append list_update_append)
    also have "\<dots> = sort (zs @ [x]) @ z # ys" using snoc by (simp add: sorted_append)
    also have "sort (zs @ [x]) @ z # ys = (sort (zs @ [x]) @ [z]) @ ys" by simp
    also have "sort (zs @ [x]) @ [z] = sort (zs @ [z, x])"
      using snoc.prems True by (intro properties_for_sort [symmetric]) (auto simp: sorted_append)
    finally show ?thesis by simp
  next
    case False
    then have "sorted (zs @ [z, x])" using snoc.prems by (auto simp: sorted_append)
    then have "sort (zs @ [z, x]) = zs @ [z, x]" by (rule sorted_sort_id)
    then show ?thesis using False by (simp add: nth_append)
  qed
qed simp

lemma insertionSort_sort: "insertionSort sl = sort sl"
proof -
  have "k \<le> length sl \<Longrightarrow> 0 < k \<Longrightarrow> fold (\<lambda>i sl. sink sl i) [1..<k] sl = sort (take k sl) @ drop k sl" for k
  proof (induction k)
    case (Suc k)
    show ?case
    proof (cases k)
      case 0
      then show ?thesis by (cases sl) (use Suc in auto)
    next
      case (Suc k')
      with Suc.prems have "fold (\<lambda>i sl. sink sl i) [1..<Suc k] sl = sink (sort (take k sl) @ drop k sl) k"
        using Suc.IH by simp
      also have "drop k sl = sl ! k # drop (Suc k) sl" using Suc.prems by (simp add: Cons_nth_drop_Suc)
      also have "sink (sort (take k sl) @ sl ! k # drop (Suc k) sl) k = sort (sort (take k sl) @ [sl ! k]) @ drop (Suc k) sl"
        using sink_sorted [of "sort (take k sl)" "sl ! k" "drop (Suc k) sl"] Suc.prems by (simp add: min_def)
      also have "sort (sort (take k sl) @ [sl ! k]) = sort (take (Suc k) sl)"
        using Suc.prems by (intro properties_for_sort) (simp_all add: take_Suc_conv_app_nth)
      finally show ?thesis .
    qed
  qed simp
  from this [of "length sl"] show ?thesis by (cases sl) (simp_all add: insertionSort_def)
qed

definition acked :: "(nat \<Rightarrow> nat option) \<Rightarrow> nat \<Rightarrow> nat" where
  "acked l k = (case l k of None \<Rightarrow> 0 | Some idx \<Rightarrow> idx)"

text \<open>The filled slice holds the acknowledged indices and zeroes for the voters that are silent.\<close>

lemma fill_mset:
  "length ks \<le> i \<Longrightarrow> mset (fill l ks (replicate i 0 @ zs) i) = mset (map (acked l) ks @ replicate (i - length ks) 0 @ zs)"
proof (induction ks arbitrary: i zs)
  case (Cons k ks)
  then obtain j where i: "i = Suc j" by (cases i) auto
  show ?case
  proof (cases "l k")
    case None
    have "mset (fill l (k # ks) (replicate i 0 @ zs) i) = mset (map (acked l) ks @ replicate (i - length ks) 0 @ zs)"
      using None Cons by simp
    also have "i - length ks = Suc (i - length (k # ks))" using Cons.prems by simp
    finally show ?thesis using None by (simp add: acked_def)
  next
    case (Some idx)
    have "(replicate i 0 @ zs)[i - 1 := idx] = replicate j 0 @ idx # zs"
      by (simp add: i replicate_append_same [symmetric] list_update_append)
    then show ?thesis using Some Cons.IH [of j "idx # zs"] Cons.prems i by (simp add: acked_def)
  qed
qed simp

lemma fill_all: "mset (fill l ks (replicate (length ks) 0) (length ks)) = mset (map (acked l) ks)"
  using fill_mset [of ks "length ks" l "[]"] by simp

lemma sorted_count_ge:
  assumes "sorted xs" and "k < length xs"
  shows "i \<le> xs ! k \<longleftrightarrow> length xs - k \<le> length (filter (\<lambda>x. i \<le> x) xs)"
proof
  assume i: "i \<le> xs ! k"
  have "\<forall>x \<in> set (drop k xs). i \<le> x"
  proof
    fix x assume "x \<in> set (drop k xs)"
    then obtain j where "j < length (drop k xs)" "x = drop k xs ! j" by (auto simp: in_set_conv_nth)
    then show "i \<le> x" using sorted_nth_mono [OF assms(1), of k "k + j"] i by (simp add: less_diff_conv add.commute)
  qed
  then have "length (filter (\<lambda>x. i \<le> x) (drop k xs)) = length xs - k" by simp
  then show "length xs - k \<le> length (filter (\<lambda>x. i \<le> x) xs)"
    using filter_append [of "\<lambda>x. i \<le> x" "take k xs" "drop k xs"] by simp
next
  assume le: "length xs - k \<le> length (filter (\<lambda>x. i \<le> x) xs)"
  show "i \<le> xs ! k"
  proof (rule ccontr)
    assume i: "\<not> i \<le> xs ! k"
    have "\<not> i \<le> x" if "x \<in> set (take (Suc k) xs)" for x
    proof -
      obtain j where "j \<le> k" "x = xs ! j" using \<open>x \<in> set (take (Suc k) xs)\<close> by (auto simp: in_set_conv_nth less_Suc_eq_le)
      then show ?thesis using sorted_nth_mono [OF assms(1), of j k] assms(2) i by simp
    qed
    then have "filter (\<lambda>x. i \<le> x) (take (Suc k) xs) = []" by simp
    then have "length (filter (\<lambda>x. i \<le> x) xs) \<le> length (drop (Suc k) xs)"
      using filter_append [of "\<lambda>x. i \<le> x" "take (Suc k) xs" "drop (Suc k) xs"] length_filter_le [of "\<lambda>x. i \<le> x" "drop (Suc k) xs"]
      by simp
    then show False using le assms(2) by simp
  qed
qed

definition majority :: "nat list \<Rightarrow> (nat \<Rightarrow> bool) \<Rightarrow> bool" where
  "majority ks P \<longleftrightarrow> length ks < 2 * length (filter P ks)"

lemma CommittedIndex_majority:
  assumes "ids c \<noteq> []"
  shows "i \<le> CommittedIndex c l \<longleftrightarrow> majority (ids c) (\<lambda>k. i \<le> acked l k)"
proof -
  let ?ks = "ids c" and ?n = "length (ids c)"
  let ?srt = "sort (fill l ?ks (replicate ?n 0) ?n)"
  have m: "mset ?srt = mset (map (acked l) ?ks)" by (simp add: fill_all)
  have len: "length ?srt = ?n" using mset_eq_length [OF m] by simp
  have "length (filter (\<lambda>x. i \<le> x) ?srt) = size (filter_mset (\<lambda>x. i \<le> x) (mset ?srt))" by (metis mset_filter size_mset)
  also have "\<dots> = size (mset (filter (\<lambda>x. i \<le> x) (map (acked l) ?ks)))" unfolding m mset_filter ..
  also have "\<dots> = length (filter (\<lambda>k. i \<le> acked l k) ?ks)" by (simp only: size_mset filter_map length_map comp_def)
  finally have count: "length (filter (\<lambda>x. i \<le> x) ?srt) = length (filter (\<lambda>k. i \<le> acked l k) ?ks)" .
  have "i \<le> CommittedIndex c l \<longleftrightarrow> i \<le> ?srt ! (?n - (?n div 2 + 1))"
    using assms by (simp add: CommittedIndex_def insertionSort_sort Let_def)
  also have "\<dots> \<longleftrightarrow> ?n - (?n - (?n div 2 + 1)) \<le> length (filter (\<lambda>k. i \<le> acked l k) ?ks)"
    using sorted_count_ge [of ?srt "?n - (?n div 2 + 1)" i] assms len count by simp
  also have "\<dots> \<longleftrightarrow> majority ?ks (\<lambda>k. i \<le> acked l k)"
    using assms length_filter_le [of "\<lambda>k. i \<le> acked l k" ?ks] by (cases ?ks) (auto simp: majority_def)
  finally show ?thesis .
qed

lemma CommittedIndex_order: "mset (ids c) = mset (ids d) \<Longrightarrow> CommittedIndex c l = CommittedIndex d l"
proof (cases "ids c = []")
  case False
  assume m: "mset (ids c) = mset (ids d)"
  have "length (filter P (ids c)) = length (filter P (ids d))" for P using m by (metis mset_filter size_mset)
  moreover have "length (ids c) = length (ids d)" using m by (rule mset_eq_length)
  ultimately have "majority (ids c) P = majority (ids d) P" for P by (simp add: majority_def)
  moreover have "ids d \<noteq> []" using m False by auto
  ultimately have "i \<le> CommittedIndex c l \<longleftrightarrow> i \<le> CommittedIndex d l" for i
    using False CommittedIndex_majority by metis
  then show ?thesis by (meson le_antisym order_refl)
qed (simp add: CommittedIndex_def)

section \<open>Votes\<close>

lemma MajorityVoteResult_won:
  "MajorityVoteResult c votes = VoteWon \<longleftrightarrow> ids c = [] \<or> majority (ids c) (\<lambda>k. votes k = Some True)"
  by (auto simp: MajorityVoteResult_def majority_def Let_def)

lemma more_yes: "length (filter (\<lambda>k. (v ++ votes) k = Some True) ks) \<le>
    length (filter (\<lambda>k. votes k = Some True) ks) + length (filter (\<lambda>k. votes k = None) ks)"
  by (induction ks) (auto simp: map_add_Some_iff)

lemma all_yes: "length (filter (\<lambda>k. ((\<lambda>_. Some True) ++ votes) k = Some True) ks) =
    length (filter (\<lambda>k. votes k = Some True) ks) + length (filter (\<lambda>k. votes k = None) ks)"
  by (induction ks) (auto simp: map_add_Some_iff)

text \<open>A vote is lost when it cannot be won any more, whatever the silent voters answer.\<close>

lemma MajorityVoteResult_lost:
  shows "MajorityVoteResult c votes = VoteLost \<Longrightarrow> MajorityVoteResult c (v ++ votes) \<noteq> VoteWon"
    and "MajorityVoteResult c votes \<noteq> VoteLost \<Longrightarrow> MajorityVoteResult c ((\<lambda>_. Some True) ++ votes) = VoteWon"
proof -
  let ?ks = "ids c"
  have lost: "MajorityVoteResult c votes = VoteLost \<longleftrightarrow> ?ks \<noteq> [] \<and>
      \<not> length ?ks < 2 * (length (filter (\<lambda>k. votes k = Some True) ?ks) + length (filter (\<lambda>k. votes k = None) ?ks))"
    by (auto simp: MajorityVoteResult_def Let_def)
  show "MajorityVoteResult c votes \<noteq> VoteLost \<Longrightarrow> MajorityVoteResult c ((\<lambda>_. Some True) ++ votes) = VoteWon"
    unfolding lost MajorityVoteResult_won majority_def all_yes by blast
  assume l: "MajorityVoteResult c votes = VoteLost"
  then have "\<not> length ?ks < 2 * length (filter (\<lambda>k. (v ++ votes) k = Some True) ?ks)"
    unfolding lost using mult_le_mono2 [OF more_yes [of v votes ?ks], of 2] by (meson less_le_trans)
  then show "MajorityVoteResult c (v ++ votes) \<noteq> VoteWon"
    using l unfolding lost MajorityVoteResult_won majority_def by blast
qed

lemma JointVoteResult_won:
  "JointVoteResult c votes = VoteWon \<longleftrightarrow> MajorityVoteResult (fst c) votes = VoteWon \<and> MajorityVoteResult (snd c) votes = VoteWon"
  by (auto simp: JointVoteResult_def Let_def)

lemma JointVoteResult_lost:
  "JointVoteResult c votes = VoteLost \<longleftrightarrow> MajorityVoteResult (fst c) votes = VoteLost \<or> MajorityVoteResult (snd c) votes = VoteLost"
  by (cases "MajorityVoteResult (fst c) votes"; cases "MajorityVoteResult (snd c) votes") (auto simp: JointVoteResult_def Let_def)

section \<open>Quorums intersect\<close>

lemma majorities_intersect:
  assumes "majority ks P" and "majority ks Q"
  shows "\<exists>k \<in> set ks. P k \<and> Q k"
proof (rule ccontr)
  assume "\<not> (\<exists>k \<in> set ks. P k \<and> Q k)"
  then have "length (filter P ks) + length (filter Q ks) \<le> length ks" by (induction ks) auto
  then show False using assms by (simp add: majority_def)
qed

text \<open>The contract of a quorum system and what it gives to its clients: two choices by quorums agree.\<close>

locale quorum_system =
  fixes quorum :: "nat set \<Rightarrow> bool"
  assumes intersect: "quorum Q \<Longrightarrow> quorum R \<Longrightarrow> Q \<inter> R \<noteq> {}"
    and superset: "quorum Q \<Longrightarrow> Q \<subseteq> R \<Longrightarrow> quorum R"
begin

lemma same_choice:
  assumes "quorum Q" and "quorum R" and "\<And>q. q \<in> Q \<Longrightarrow> choice q = v" and "\<And>q. q \<in> R \<Longrightarrow> choice q = w"
  shows "v = w"
proof -
  obtain q where "q \<in> Q" "q \<in> R" using intersect [OF assms(1,2)] by blast
  then show ?thesis using assms(3,4) by metis
qed

end

definition joint_quorum :: "JointConfig \<Rightarrow> nat set \<Rightarrow> bool" where
  "joint_quorum c Q \<longleftrightarrow> ids (fst c) \<noteq> [] \<and> JointVoteResult c (\<lambda>k. if k \<in> Q then Some True else None) = VoteWon"

lemma joint_quorum_iff:
  "joint_quorum c Q \<longleftrightarrow> ids (fst c) \<noteq> [] \<and> majority (ids (fst c)) (\<lambda>k. k \<in> Q)
     \<and> (ids (snd c) = [] \<or> majority (ids (snd c)) (\<lambda>k. k \<in> Q))"
  by (auto simp: joint_quorum_def JointVoteResult_won MajorityVoteResult_won if_distrib [where f = "\<lambda>x. x = Some True"] cong: if_cong)

lemma majority_mono:
  assumes "majority ks P" and "\<And>k. k \<in> set ks \<Longrightarrow> P k \<Longrightarrow> Q k"
  shows "majority ks Q"
proof -
  have "length (filter P ks) \<le> length (filter Q ks)" using assms(2) by (induction ks) auto
  then show ?thesis using assms(1) by (simp add: majority_def)
qed

interpretation jq: quorum_system "joint_quorum c" for c
proof
  fix Q R
  assume "joint_quorum c Q" "joint_quorum c R"
  then show "Q \<inter> R \<noteq> {}" unfolding joint_quorum_iff using majorities_intersect by blast
next
  fix Q R :: "nat set"
  assume "joint_quorum c Q" "Q \<subseteq> R"
  then show "joint_quorum c R" unfolding joint_quorum_iff by (meson majority_mono subsetD)
qed

lemma won_quorum: "ids (fst c) \<noteq> [] \<Longrightarrow> JointVoteResult c votes = VoteWon \<longleftrightarrow> joint_quorum c {k. votes k = Some True}"
  by (auto simp: joint_quorum_iff JointVoteResult_won MajorityVoteResult_won)

lemma JointCommittedIndex_quorum:
  assumes "ids (fst c) \<noteq> []" and "i \<le> MaxUint64"
  shows "i \<le> JointCommittedIndex c l \<longleftrightarrow> joint_quorum c {k. i \<le> acked l k}"
proof -
  have "i \<le> JointCommittedIndex c l \<longleftrightarrow> i \<le> CommittedIndex (fst c) l \<and> i \<le> CommittedIndex (snd c) l"
    by (auto simp: JointCommittedIndex_def Let_def)
  moreover have "ids (snd c) = [] \<Longrightarrow> CommittedIndex (snd c) l = MaxUint64" by (simp add: CommittedIndex_def)
  ultimately show ?thesis
    using assms CommittedIndex_majority [of "fst c" i l] CommittedIndex_majority [of "snd c" i l]
    by (cases "ids (snd c) = []") (simp_all add: joint_quorum_iff)
qed



text \<open>
  C25. The commit index of a joint configuration is the largest index that a quorum has
  acknowledged: the voters whose acknowledged index reaches it are a majority of both halves,
  and no larger index has that property. In particular the insertion sort, the slots left at
  zero and the iteration order of the map make no difference.
\<close>

theorem committed_index_correct:
  assumes "ids (fst c) \<noteq> []" and "\<forall>k. acked l k \<le> MaxUint64"
  shows "joint_quorum c {k. JointCommittedIndex c l \<le> acked l k}
    \<and> (\<forall>i \<le> MaxUint64. joint_quorum c {k. i \<le> acked l k} \<longrightarrow> i \<le> JointCommittedIndex c l)"
proof -
  have maj: "majority (ids (fst c)) (\<lambda>k. CommittedIndex (fst c) l \<le> acked l k)"
    using CommittedIndex_majority [OF assms(1), of "CommittedIndex (fst c) l" l] by simp
  obtain k where "CommittedIndex (fst c) l \<le> acked l k" using majorities_intersect [OF maj maj] by blast
  moreover have "JointCommittedIndex c l \<le> CommittedIndex (fst c) l" by (simp add: JointCommittedIndex_def Let_def)
  ultimately have "JointCommittedIndex c l \<le> MaxUint64" using assms(2) [rule_format, of k] by linarith
  then show ?thesis by (simp add: JointCommittedIndex_quorum [OF assms(1), symmetric])
qed

theorem committed_index_correct_witness:
  "JointCommittedIndex (Some [3, 1, 2], None) (\<lambda>k. if k = 1 then Some 7 else if k = 2 then Some 5 else None) = 5
   \<and> joint_quorum (Some [3, 1, 2], None) {k. 5 \<le> acked (\<lambda>k. if k = 1 then Some 7 else if k = 2 then Some 5 else None) k}"
proof -
  let ?l = "\<lambda>k::nat. if k = 1 then Some (7::nat) else if k = 2 then Some 5 else None"
  have "CommittedIndex (Some [3, 1, 2]) ?l = 5" by (simp add: CommittedIndex_def insertionSort_sort numeral_2_eq_2 numeral_3_eq_3 div_Suc mod_Suc)
  then have "JointCommittedIndex (Some [3, 1, 2], None) ?l = 5"
    by (simp add: JointCommittedIndex_def) (simp add: CommittedIndex_def MaxUint64_def)
  then show ?thesis using committed_index_correct [of "(Some [3, 1, 2], None)" ?l] by (simp add: acked_def MaxUint64_def)
qed

end
