(* ===== verification/Raft_Inflights.thy ===== *)
theory Raft_Inflights
  imports Raft_Types
begin

text \<open>
  The window of append messages that a leader has sent to a follower and that are not yet
  acknowledged: \<open>src/etcd/raft/tracker/inflights.go\<close>, a ring buffer that grows on demand. It is
  shown to implement a bounded queue. The fields \<open>start\<close>, \<open>count\<close> and \<open>size\<close> (Go \<open>int\<close>) are natural
  numbers: the code only raises them from zero and subtracts below their value.
\<close>

section \<open>The ring buffer\<close>

record Inflights =
  inf_start :: nat
  inf_count :: nat
  inf_size :: nat
  inf_buffer :: "nat list"

definition NewInflights :: "nat \<Rightarrow> Inflights" where
  "NewInflights sz = \<lparr>inf_start = 0, inf_count = 0, inf_size = sz, inf_buffer = []\<rparr>"

definition Inflights_Clone :: "Inflights \<Rightarrow> Inflights" where
  "Inflights_Clone i = i\<lparr>inf_buffer := [] @ inf_buffer i\<rparr>"

definition Full :: "Inflights \<Rightarrow> bool" where
  "Full i \<longleftrightarrow> inf_count i = inf_size i"

definition Inflights_Count :: "Inflights \<Rightarrow> nat" where
  "Inflights_Count i = inf_count i"

definition grow :: "Inflights \<Rightarrow> Inflights" where
  "grow i =
     (let n = length (inf_buffer i) * 2;
          newSize = (if n = 0 then 1 else if n > inf_size i then inf_size i else n)
      in i\<lparr>inf_buffer := take newSize (inf_buffer i) @ replicate (newSize - length (inf_buffer i)) 0\<rparr>)"

definition Inflights_Add :: "Inflights \<Rightarrow> nat \<Rightarrow> Inflights option" where
  "Inflights_Add i inflight =
     (if Full i then None
      else
        let n = inf_start i + inf_count i;
            pos = (if n \<ge> inf_size i then n - inf_size i else n);
            i = (if pos \<ge> length (inf_buffer i) then grow i else i)
        in if pos \<ge> length (inf_buffer i) then None
           else Some (i\<lparr>inf_buffer := (inf_buffer i)[pos := inflight], inf_count := inf_count i + 1\<rparr>))"

text \<open>
  The loop of \<open>FreeLE\<close>: \<open>n\<close> messages are left to look at; the result is the number that is freed
  and the position after them.
\<close>

fun free_loop :: "Inflights \<Rightarrow> nat \<Rightarrow> nat \<Rightarrow> nat \<Rightarrow> (nat \<times> nat) option" where
  "free_loop i to 0 idx = Some (0, idx)"
| "free_loop i to (Suc n) idx = do {
     b \<leftarrow> nth_opt (inf_buffer i) idx;
     if to < b then Some (0, idx)
     else map_option (\<lambda>(k, idx). (Suc k, idx))
       (free_loop i to n (if idx + 1 \<ge> inf_size i then idx + 1 - inf_size i else idx + 1)) }"

definition FreeLE :: "Inflights \<Rightarrow> nat \<Rightarrow> Inflights option" where
  "FreeLE i to =
     (if inf_count i = 0 then Some i
      else do {
        b \<leftarrow> nth_opt (inf_buffer i) (inf_start i);
        if to < b then Some i
        else do {
          (k, idx) \<leftarrow> free_loop i to (inf_count i) (inf_start i);
          let i = i\<lparr>inf_count := inf_count i - k, inf_start := idx\<rparr>;
          Some (if inf_count i = 0 then i\<lparr>inf_start := 0\<rparr> else i) } })"

definition FreeFirstOne :: "Inflights \<Rightarrow> Inflights option" where
  "FreeFirstOne i = do { b \<leftarrow> nth_opt (inf_buffer i) (inf_start i); FreeLE i b }"

definition Inflights_reset :: "Inflights \<Rightarrow> Inflights" where
  "Inflights_reset i = i\<lparr>inf_count := 0, inf_start := 0\<rparr>"

section \<open>The window as a queue\<close>

text \<open>
  The buffer is filled from the left: it is either as long as the window allows, or long enough for
  the messages in flight, which then do not wrap around.
\<close>

definition inf_ok :: "Inflights \<Rightarrow> bool" where
  "inf_ok i \<longleftrightarrow> 0 < inf_size i \<and> inf_start i < inf_size i \<and> inf_count i \<le> inf_size i \<and> length (inf_buffer i) \<le> inf_size i
     \<and> (length (inf_buffer i) = inf_size i \<or> inf_start i + inf_count i \<le> length (inf_buffer i))"

definition wrapped :: "nat \<Rightarrow> nat \<Rightarrow> nat" where
  "wrapped sz n = (if n \<ge> sz then n - sz else n)"

definition inflight :: "Inflights \<Rightarrow> nat list" where
  "inflight i = map (\<lambda>k. inf_buffer i ! wrapped (inf_size i) (inf_start i + k)) [0..<inf_count i]"

lemma length_inflight [simp]: "length (inflight i) = inf_count i"
  by (simp add: inflight_def)

lemma wrapped_used: "inf_ok i \<Longrightarrow> k < inf_count i \<Longrightarrow> wrapped (inf_size i) (inf_start i + k) < length (inf_buffer i)"
  by (auto simp: inf_ok_def wrapped_def)

lemma inf_ok_New: "0 < sz \<Longrightarrow> inf_ok (NewInflights sz) \<and> inflight (NewInflights sz) = []"
  by (simp add: inf_ok_def NewInflights_def inflight_def)

lemma inf_ok_reset: "inf_ok i \<Longrightarrow> inf_ok (Inflights_reset i) \<and> inflight (Inflights_reset i) = []"
  by (auto simp: inf_ok_def Inflights_reset_def inflight_def)

lemma Full_iff: "Full i \<longleftrightarrow> length (inflight i) = inf_size i"
  by (simp add: Full_def)

text \<open>Growing keeps the messages and makes room for the next one.\<close>

lemma grow_room:
  assumes "inf_ok i" and "length (inf_buffer i) < inf_size i"
  shows "inf_ok (grow i) \<and> length (inf_buffer i) < length (inf_buffer (grow i))
    \<and> (\<forall>p < length (inf_buffer i). inf_buffer (grow i) ! p = inf_buffer i ! p)"
  using assms by (auto simp: inf_ok_def grow_def Let_def nth_append)

lemma grow_inflight:
  assumes "inf_ok i" and "length (inf_buffer i) < inf_size i"
  shows "inflight (grow i) = inflight i"
proof -
  have "inf_start (grow i) = inf_start i" "inf_count (grow i) = inf_count i" "inf_size (grow i) = inf_size i"
    by (simp_all add: grow_def Let_def)
  then show ?thesis using grow_room [OF assms] wrapped_used [OF assms(1)] by (simp add: inflight_def)
qed

lemma put_inflight:
  fixes x :: nat
  assumes ok: "inf_ok i" and nf: "\<not> Full i" and pos: "wrapped (inf_size i) (inf_start i + inf_count i) < length (inf_buffer i)"
  defines "i' \<equiv> i\<lparr>inf_buffer := (inf_buffer i)[wrapped (inf_size i) (inf_start i + inf_count i) := x], inf_count := inf_count i + 1\<rparr>"
  shows "inf_ok i' \<and> inflight i' = inflight i @ [x]"
proof -
  have "inf_ok i'" using ok nf pos by (auto simp: i'_def inf_ok_def Full_def wrapped_def split: if_splits)
  moreover have "wrapped (inf_size i) (inf_start i + inf_count i) \<noteq> wrapped (inf_size i) (inf_start i + k)" if "k < inf_count i" for k
    using that ok nf by (auto simp: wrapped_def inf_ok_def Full_def)
  then have "inflight i' = inflight i @ [x]" using pos by (simp add: i'_def inflight_def)
  ultimately show ?thesis by blast
qed

lemma Add_queue:
  assumes ok: "inf_ok i" and nf: "\<not> Full i"
  shows "\<exists>i'. Inflights_Add i x = Some i' \<and> inf_ok i' \<and> inflight i' = inflight i @ [x] \<and> inf_size i' = inf_size i"
proof -
  let ?pos = "wrapped (inf_size i) (inf_start i + inf_count i)"
  define j where "j = (if ?pos \<ge> length (inf_buffer i) then grow i else i)"
  have g: "length (inf_buffer i) < inf_size i \<and> ?pos = length (inf_buffer i)" if "?pos \<ge> length (inf_buffer i)"
    using that ok nf by (auto simp: inf_ok_def wrapped_def Full_def split: if_splits)
  have j: "inf_ok j" "?pos < length (inf_buffer j)" "inflight j = inflight i"
    using g grow_room [OF ok] grow_inflight [OF ok] ok by (auto simp: j_def)
  have same: "inf_start j = inf_start i" "inf_count j = inf_count i" "inf_size j = inf_size i" by (simp_all add: j_def grow_def Let_def)
  have "Inflights_Add i x = Some (j\<lparr>inf_buffer := (inf_buffer j)[?pos := x], inf_count := inf_count j + 1\<rparr>)"
    using nf j(2) by (simp add: Inflights_Add_def Let_def wrapped_def [symmetric] j_def [symmetric])
  moreover have "\<not> Full j" using nf same by (simp add: Full_def)
  ultimately show ?thesis using put_inflight [of j x] j same by auto
qed

lemma free_loop_queue:
  assumes ok: "inf_ok i" and "m + n = inf_count i"
  shows "\<exists>k idx. free_loop i to n (wrapped (inf_size i) (inf_start i + m)) = Some (k, idx) \<and> k \<le> n
    \<and> idx = wrapped (inf_size i) (inf_start i + (m + k)) \<and> drop k (drop m (inflight i)) = dropWhile (\<lambda>x. x \<le> to) (drop m (inflight i))"
  using assms(2)
proof (induction n arbitrary: m)
  case (Suc n)
  let ?b = "inf_buffer i ! wrapped (inf_size i) (inf_start i + m)"
  have m: "m < inf_count i" using Suc.prems by simp
  have d: "drop m (inflight i) = ?b # drop (Suc m) (inflight i)"
    using m by (simp add: Cons_nth_drop_Suc [symmetric]) (simp add: inflight_def)
  have b: "nth_opt (inf_buffer i) (wrapped (inf_size i) (inf_start i + m)) = Some ?b"
    using wrapped_used [OF ok m] by (simp add: nth_opt_def)
  have s: "(if wrapped (inf_size i) (inf_start i + m) + 1 \<ge> inf_size i then wrapped (inf_size i) (inf_start i + m) + 1 - inf_size i
      else wrapped (inf_size i) (inf_start i + m) + 1) = wrapped (inf_size i) (inf_start i + Suc m)"
    using ok m by (auto simp: wrapped_def inf_ok_def)
  show ?case
  proof (cases "to < ?b")
    case True
    then show ?thesis by (intro exI [of _ 0] exI [of _ "wrapped (inf_size i) (inf_start i + m)"]) (simp add: b d)
  next
    case False
    obtain k idx where k: "free_loop i to n (wrapped (inf_size i) (inf_start i + Suc m)) = Some (k, idx)" "k \<le> n"
        "idx = wrapped (inf_size i) (inf_start i + (Suc m + k))" "drop k (drop (Suc m) (inflight i)) = dropWhile (\<lambda>x. x \<le> to) (drop (Suc m) (inflight i))"
      using Suc.IH [of "Suc m"] Suc.prems by auto
    have "free_loop i to (Suc n) (wrapped (inf_size i) (inf_start i + m)) = Some (Suc k, idx)"
      using False b k(1) s by simp
    moreover have "drop (Suc k) (drop m (inflight i)) = dropWhile (\<lambda>x. x \<le> to) (drop m (inflight i))"
      using False k(4) by (simp add: d)
    ultimately show ?thesis using k(2,3) by (intro exI [of _ "Suc k"] exI [of _ idx]) simp
  qed
qed (simp add: inflight_def)

text \<open>Moving the start past \<open>k\<close> messages drops them from the queue.\<close>

lemma moved_window:
  assumes ok: "inf_ok i" and k: "k < inf_count i"
  shows "inf_ok (i\<lparr>inf_count := inf_count i - k, inf_start := wrapped (inf_size i) (inf_start i + k)\<rparr>)
    \<and> inflight (i\<lparr>inf_count := inf_count i - k, inf_start := wrapped (inf_size i) (inf_start i + k)\<rparr>) = drop k (inflight i)"
proof -
  let ?i = "i\<lparr>inf_count := inf_count i - k, inf_start := wrapped (inf_size i) (inf_start i + k)\<rparr>"
  have "inf_ok ?i" using ok k by (auto simp: inf_ok_def wrapped_def split: if_splits)
  moreover have "wrapped (inf_size ?i) (wrapped (inf_size i) (inf_start i + k) + l) = wrapped (inf_size i) (inf_start i + (k + l))" if "l < inf_count i - k" for l
    using ok k that by (auto simp: inf_ok_def wrapped_def split: if_splits)
  then have "inflight ?i = drop k (inflight i)"
    using k by (intro nth_equalityI) (auto simp: inflight_def)
  ultimately show ?thesis by blast
qed

lemma FreeLE_queue:
  assumes ok: "inf_ok i"
  shows "\<exists>i'. FreeLE i to = Some i' \<and> inf_ok i' \<and> inflight i' = dropWhile (\<lambda>x. x \<le> to) (inflight i) \<and> inf_size i' = inf_size i"
proof (cases "inf_count i = 0")
  case True
  then show ?thesis using ok by (auto simp: FreeLE_def inflight_def)
next
  case False
  let ?b = "inf_buffer i ! inf_start i"
  have w0: "wrapped (inf_size i) (inf_start i + 0) = inf_start i" using ok by (simp add: wrapped_def inf_ok_def)
  have b: "nth_opt (inf_buffer i) (inf_start i) = Some ?b"
    using wrapped_used [OF ok, of 0] False w0 by (simp add: nth_opt_def)
  have hd: "inflight i = ?b # drop 1 (inflight i)"
    using False w0 by (cases "inflight i") (auto simp: inflight_def upt_conv_Cons)
  obtain k idx where k: "free_loop i to (inf_count i) (inf_start i) = Some (k, idx)" "k \<le> inf_count i"
      "idx = wrapped (inf_size i) (inf_start i + k)" "drop k (inflight i) = dropWhile (\<lambda>x. x \<le> to) (inflight i)"
    using free_loop_queue [OF ok, of 0 "inf_count i" to] w0 by auto
  show ?thesis
  proof (cases "to < ?b")
    case True
    then have "dropWhile (\<lambda>x. x \<le> to) (inflight i) = inflight i" by (subst (1 2) hd) simp
    then show ?thesis using True False b ok by (simp add: FreeLE_def)
  next
    case old: False
    let ?i = "i\<lparr>inf_count := inf_count i - k, inf_start := idx\<rparr>"
    have f: "FreeLE i to = Some (if inf_count i - k = 0 then ?i\<lparr>inf_start := 0\<rparr> else ?i)"
      using False old b k(1) by (simp add: FreeLE_def Let_def)
    show ?thesis
    proof (cases "inf_count i - k = 0")
      case True
      then have "drop k (inflight i) = []" by simp
      then show ?thesis using True f k(4) ok by (auto simp: inf_ok_def inflight_def)
    next
      case False
      then show ?thesis using f moved_window [OF ok, of k] k(3,4) by (auto simp: not_le)
    qed
  qed
qed

lemma FreeFirstOne_queue:
  assumes "inf_ok i" and "0 < inf_count i"
  shows "FreeFirstOne i = FreeLE i (hd (inflight i))"
proof -
  have "wrapped (inf_size i) (inf_start i) = inf_start i" using assms(1) by (simp add: wrapped_def inf_ok_def)
  then show ?thesis using wrapped_used [OF assms, simplified] assms(2)
    by (simp add: FreeFirstOne_def nth_opt_def inflight_def hd_map)
qed

section \<open>What the leader does with a window\<close>

text \<open>
  The leader adds a message when there is room, frees the messages up to an acknowledged index,
  frees the first message when the window is full, and resets the window. The contract of a window
  is that of a bounded queue.
\<close>

datatype win_op = Send nat | Acked nat | FirstOne | Forget

fun perform :: "('w \<Rightarrow> bool) \<Rightarrow> ('w \<Rightarrow> nat \<Rightarrow> 'w option) \<Rightarrow> ('w \<Rightarrow> nat \<Rightarrow> 'w option) \<Rightarrow> ('w \<Rightarrow> 'w option) \<Rightarrow> ('w \<Rightarrow> 'w) \<Rightarrow>
    win_op \<Rightarrow> 'w \<Rightarrow> 'w option" where
  "perform full add free first forget (Send x) w = (if full w then Some w else add w x)"
| "perform full add free first forget (Acked n) w = free w n"
| "perform full add free first forget FirstOne w = (if full w then first w else Some w)"
| "perform full add free first forget Forget w = Some (forget w)"

fun queue :: "nat \<Rightarrow> win_op \<Rightarrow> nat list \<Rightarrow> nat list" where
  "queue n (Send x) q = (if length q = n then q else q @ [x])"
| "queue n (Acked k) q = dropWhile (\<lambda>x. x \<le> k) q"
| "queue n FirstOne q = (if length q = n then dropWhile (\<lambda>x. x \<le> hd q) q else q)"
| "queue n Forget q = []"

definition on_window :: "win_op list \<Rightarrow> Inflights \<Rightarrow> Inflights option" where
  "on_window ops i =
     fold (\<lambda>op r. Option.bind r (perform Full Inflights_Add FreeLE FreeFirstOne Inflights_reset op)) ops (Some i)"

locale window =
  fixes ok :: "'w \<Rightarrow> bool" and items :: "'w \<Rightarrow> nat list" and cap :: "'w \<Rightarrow> nat"
    and full :: "'w \<Rightarrow> bool" and add :: "'w \<Rightarrow> nat \<Rightarrow> 'w option" and free :: "'w \<Rightarrow> nat \<Rightarrow> 'w option"
    and first :: "'w \<Rightarrow> 'w option" and forget :: "'w \<Rightarrow> 'w"
  assumes cap_pos: "ok w \<Longrightarrow> 0 < cap w"
    and bounded: "ok w \<Longrightarrow> length (items w) \<le> cap w"
    and full: "ok w \<Longrightarrow> full w \<longleftrightarrow> length (items w) = cap w"
    and add: "ok w \<Longrightarrow> \<not> full w \<Longrightarrow> \<exists>w'. add w x = Some w' \<and> ok w' \<and> items w' = items w @ [x] \<and> cap w' = cap w"
    and free: "ok w \<Longrightarrow> \<exists>w'. free w n = Some w' \<and> ok w' \<and> items w' = dropWhile (\<lambda>x. x \<le> n) (items w) \<and> cap w' = cap w"
    and first: "ok w \<Longrightarrow> items w \<noteq> [] \<Longrightarrow> first w = free w (hd (items w))"
    and forget: "ok w \<Longrightarrow> ok (forget w) \<and> items (forget w) = [] \<and> cap (forget w) = cap w"
begin

lemma perform_queue: "ok w \<Longrightarrow> \<exists>w'. perform full add free first forget op w = Some w' \<and> ok w' \<and> items w' = queue (cap w) op (items w) \<and> cap w' = cap w"
proof (cases op)
  case FirstOne
  assume ok: "ok w"
  show ?thesis
  proof (cases "full w")
    case True
    then have "items w \<noteq> []" using full [OF ok] cap_pos [OF ok] by auto
    then show ?thesis using FirstOne True full [OF ok] first [OF ok] free [OF ok] by auto
  qed (use FirstOne ok full in auto)
qed (use full add free forget in auto)

lemma run_queue: "ok w \<Longrightarrow> \<exists>w'. fold (\<lambda>op r. Option.bind r (perform full add free first forget op)) ops (Some w) = Some w' \<and> ok w'
    \<and> items w' = fold (queue (cap w)) ops (items w) \<and> cap w' = cap w"
proof (induction ops arbitrary: w)
  case (Cons op ops)
  then show ?case using perform_queue [OF Cons.prems, of op] by fastforce
qed simp

end

interpretation iw: window inf_ok inflight inf_size Full Inflights_Add FreeLE FreeFirstOne Inflights_reset
proof
  show "inf_ok w \<Longrightarrow> inflight w \<noteq> [] \<Longrightarrow> FreeFirstOne w = FreeLE w (hd (inflight w))" for w
    using FreeFirstOne_queue by (metis length_0_conv length_inflight not_gr_zero)
qed (use Add_queue FreeLE_queue inf_ok_reset in \<open>auto simp: inf_ok_def Full_def Inflights_reset_def\<close>)



end
