(* ===== verification/Raft_Tracker.thy ===== *)
theory Raft_Tracker
  imports Raft_Quorum Raft_Inflights
begin

text \<open>
  What a leader knows about its followers: \<open>src/etcd/raft/tracker/progress.go\<close>, \<open>state.go\<close> and
  \<open>tracker.go\<close>. The progress of all nodes is a Go map from ids to pointers; it is the association
  list of the ids and the structures pointed to, in the order of iteration.
\<close>

section \<open>The progress of a follower\<close>

datatype StateType = StateProbe | StateReplicate | StateSnapshot

record Progress =
  prMatch :: nat
  prNext :: nat
  prState :: StateType
  prPendingSnapshot :: nat
  prRecentActive :: bool
  prProbeSent :: bool
  prInflights :: Inflights
  prIsLearner :: bool

definition ResetState :: "Progress \<Rightarrow> StateType \<Rightarrow> Progress" where
  "ResetState pr st =
     pr\<lparr>prProbeSent := False, prPendingSnapshot := 0, prState := st, prInflights := Inflights_reset (prInflights pr)\<rparr>"

definition ProbeAcked :: "Progress \<Rightarrow> Progress" where
  "ProbeAcked pr = pr\<lparr>prProbeSent := False\<rparr>"

definition BecomeProbe :: "Progress \<Rightarrow> Progress" where
  "BecomeProbe pr =
     (if prState pr = StateSnapshot then
        let pendingSnapshot = prPendingSnapshot pr; pr = ResetState pr StateProbe
        in pr\<lparr>prNext := max (prMatch pr + 1) (pendingSnapshot + 1)\<rparr>
      else
        let pr = ResetState pr StateProbe
        in pr\<lparr>prNext := prMatch pr + 1\<rparr>)"

definition BecomeReplicate :: "Progress \<Rightarrow> Progress" where
  "BecomeReplicate pr = (let pr = ResetState pr StateReplicate in pr\<lparr>prNext := prMatch pr + 1\<rparr>)"

definition BecomeSnapshot :: "Progress \<Rightarrow> nat \<Rightarrow> Progress" where
  "BecomeSnapshot pr snapshoti = (ResetState pr StateSnapshot)\<lparr>prPendingSnapshot := snapshoti\<rparr>"

definition MaybeUpdate :: "Progress \<Rightarrow> nat \<Rightarrow> Progress \<times> bool" where
  "MaybeUpdate pr n =
     (let (pr, updated) = (if prMatch pr < n then (ProbeAcked (pr\<lparr>prMatch := n\<rparr>), True) else (pr, False))
      in (pr\<lparr>prNext := max (prNext pr) (n + 1)\<rparr>, updated))"

definition OptimisticUpdate :: "Progress \<Rightarrow> nat \<Rightarrow> Progress" where
  "OptimisticUpdate pr n = pr\<lparr>prNext := n + 1\<rparr>"

definition MaybeDecrTo :: "Progress \<Rightarrow> nat \<Rightarrow> nat \<Rightarrow> Progress \<times> bool" where
  "MaybeDecrTo pr rejected matchHint =
     (if prState pr = StateReplicate then
        if rejected \<le> prMatch pr then (pr, False) else (pr\<lparr>prNext := prMatch pr + 1\<rparr>, True)
      else if sub64 (prNext pr) 1 \<noteq> rejected then (pr, False)
      else (pr\<lparr>prNext := max (min rejected (matchHint + 1)) 1, prProbeSent := False\<rparr>, True))"

definition IsPaused :: "Progress \<Rightarrow> bool" where
  "IsPaused pr =
     (case prState pr of StateProbe \<Rightarrow> prProbeSent pr | StateReplicate \<Rightarrow> Full (prInflights pr) | StateSnapshot \<Rightarrow> True)"

section \<open>The configuration and its tracker\<close>

type_synonym ProgressMap = "(nat \<times> Progress) list"

record Config =
  cVoters :: JointConfig
  cAutoLeave :: bool
  cLearners :: idset
  cLearnersNext :: idset

record ProgressTracker =
  tConfig :: Config
  tProgress :: ProgressMap
  tVotes :: "nat \<rightharpoonup> bool"
  tMaxInflight :: nat

abbreviation tVoters :: "ProgressTracker \<Rightarrow> JointConfig" where "tVoters p \<equiv> cVoters (tConfig p)"

text \<open>A clone has the same ids; the field \<open>AutoLeave\<close> is not copied and is false in the clone.\<close>

definition Config_Clone :: "Config \<Rightarrow> Config" where
  "Config_Clone c = \<lparr>cVoters = cVoters c, cAutoLeave = False, cLearners = cLearners c, cLearnersNext = cLearnersNext c\<rparr>"

definition MakeProgressTracker :: "nat \<Rightarrow> ProgressTracker" where
  "MakeProgressTracker maxInflight =
     \<lparr>tConfig = \<lparr>cVoters = (Some [], None), cAutoLeave = False, cLearners = None, cLearnersNext = None\<rparr>,
      tProgress = [], tVotes = Map.empty, tMaxInflight = maxInflight\<rparr>"

definition tConfState :: "ProgressTracker \<Rightarrow> ConfState" where
  "tConfState p =
     \<lparr>csVoters = Slice (fst (tVoters p)), csLearners = Slice (cLearners (tConfig p)), csVotersOutgoing = Slice (snd (tVoters p)),
      csLearnersNext = Slice (cLearnersNext (tConfig p)), csAutoLeave = cAutoLeave (tConfig p)\<rparr>"

definition IsSingleton :: "ProgressTracker \<Rightarrow> bool" where
  "IsSingleton p \<longleftrightarrow> length (ids (fst (tVoters p))) = 1 \<and> length (ids (snd (tVoters p))) = 0"

definition AckedIndex :: "ProgressMap \<Rightarrow> nat \<Rightarrow> nat option" where
  "AckedIndex l i = map_option prMatch (map_of l i)"

definition Committed :: "ProgressTracker \<Rightarrow> nat" where
  "Committed p = JointCommittedIndex (tVoters p) (AckedIndex (tProgress p))"

text \<open>\<open>Visit\<close> fills the ids in from the right, sorts them and calls the closure for each.\<close>

definition visit_ids :: "ProgressTracker \<Rightarrow> nat list" where
  "visit_ids p = insertionSort (rev (map fst (tProgress p)))"

definition QuorumActive :: "ProgressTracker \<Rightarrow> bool" where
  "QuorumActive p =
     (let votes = fold (\<lambda>i votes. case map_of (tProgress p) i of None \<Rightarrow> votes
                          | Some pr \<Rightarrow> if prIsLearner pr then votes else votes(i \<mapsto> prRecentActive pr))
                    (visit_ids p) Map.empty
      in JointVoteResult (tVoters p) votes = VoteWon)"

definition VoterNodes :: "ProgressTracker \<Rightarrow> nat list" where
  "VoterNodes p = sort (IDs (tVoters p))"

definition LearnerNodes :: "ProgressTracker \<Rightarrow> nat list" where
  "LearnerNodes p = sort (ids (cLearners (tConfig p)))"

definition ResetVotes :: "ProgressTracker \<Rightarrow> ProgressTracker" where
  "ResetVotes p = p\<lparr>tVotes := Map.empty\<rparr>"

definition RecordVote :: "ProgressTracker \<Rightarrow> nat \<Rightarrow> bool \<Rightarrow> ProgressTracker" where
  "RecordVote p i v = (case tVotes p i of None \<Rightarrow> p\<lparr>tVotes := (tVotes p)(i \<mapsto> v)\<rparr> | Some _ \<Rightarrow> p)"

fun tally_loop :: "(nat \<rightharpoonup> bool) \<Rightarrow> ProgressMap \<Rightarrow> nat \<times> nat \<Rightarrow> nat \<times> nat" where
  "tally_loop votes [] n = n"
| "tally_loop votes ((i, pr) # m) (granted, rejected) =
     (if prIsLearner pr then tally_loop votes m (granted, rejected)
      else case votes i of None \<Rightarrow> tally_loop votes m (granted, rejected)
        | Some v \<Rightarrow> if v then tally_loop votes m (granted + 1, rejected) else tally_loop votes m (granted, rejected + 1))"

definition TallyVotes :: "ProgressTracker \<Rightarrow> nat \<times> nat \<times> VoteResult" where
  "TallyVotes p =
     (let (granted, rejected) = tally_loop (tVotes p) (tProgress p) (0, 0)
      in (granted, rejected, JointVoteResult (tVoters p) (tVotes p)))"

section \<open>Facts\<close>

lemma visit_ids_sort [simp]: "visit_ids p = sort (map fst (tProgress p))"
  by (simp add: visit_ids_def insertionSort_sort) (metis mset_map mset_rev properties_for_sort sorted_sort mset_sort)

lemma TallyVotes_result: "snd (snd (TallyVotes p)) = JointVoteResult (tVoters p) (tVotes p)"
  by (simp add: TallyVotes_def split: prod.splits)

text \<open>A vote once recorded does not change.\<close>

lemma RecordVote_votes: "tVotes (RecordVote p i v) = (tVotes p)(i \<mapsto> (case tVotes p i of None \<Rightarrow> v | Some w \<Rightarrow> w))"
  by (auto simp: RecordVote_def split: option.splits)

lemma RecordVote_same [simp]: "tConfig (RecordVote p i v) = tConfig p" "tProgress (RecordVote p i v) = tProgress p"
  by (auto simp: RecordVote_def split: option.splits)

lemma QuorumActive_quorum:
  assumes "ids (fst (tVoters p)) \<noteq> []"
  shows "QuorumActive p \<longleftrightarrow> joint_quorum (tVoters p) {i. \<exists>pr. map_of (tProgress p) i = Some pr \<and> \<not> prIsLearner pr \<and> prRecentActive pr}"
proof -
  have "fold (\<lambda>i votes. case map_of (tProgress p) i of None \<Rightarrow> votes
      | Some pr \<Rightarrow> if prIsLearner pr then votes else votes(i \<mapsto> prRecentActive pr)) is v k
    = (if k \<in> set is then case map_of (tProgress p) k of None \<Rightarrow> v k | Some pr \<Rightarrow> if prIsLearner pr then v k else Some (prRecentActive pr) else v k)"
    for "is" v k
    by (induction "is" arbitrary: v) (auto split: option.splits)
  then have v: "fold (\<lambda>i votes. case map_of (tProgress p) i of None \<Rightarrow> votes
      | Some pr \<Rightarrow> if prIsLearner pr then votes else votes(i \<mapsto> prRecentActive pr)) (visit_ids p) Map.empty k
    = (case map_of (tProgress p) k of None \<Rightarrow> None | Some pr \<Rightarrow> if prIsLearner pr then None else Some (prRecentActive pr))" for k
    by (cases "map_of (tProgress p) k") (auto dest: map_of_SomeD intro: rev_image_eqI)
  show ?thesis unfolding QuorumActive_def Let_def won_quorum [OF assms] v
    by (rule arg_cong [of _ _ "joint_quorum (tVoters p)"]) (auto split: option.splits if_splits)
qed

text \<open>The index of a follower that is known to match never goes down, and updates raise it to the largest one.\<close>

lemma MaybeUpdate_match [simp]: "prMatch (fst (MaybeUpdate pr n)) = max (prMatch pr) n"
  "snd (MaybeUpdate pr n) \<longleftrightarrow> prMatch pr < n"
  by (auto simp: MaybeUpdate_def ProbeAcked_def)

lemma MaybeDecrTo_match [simp]: "prMatch (fst (MaybeDecrTo pr r h)) = prMatch pr"
  by (simp add: MaybeDecrTo_def)

text \<open>A rejection that is not stale lowers the next index of a follower that is probed, so probing ends.\<close>

lemma MaybeDecrTo_lowers:
  assumes "MaybeDecrTo pr r h = (pr', True)" and "prState pr \<noteq> StateReplicate" and "1 < prNext pr"
  shows "0 < prNext pr' \<and> prNext pr' < prNext pr \<and> \<not> IsPaused (pr'\<lparr>prState := StateProbe\<rparr>)"
  using assms by (auto simp: MaybeDecrTo_def IsPaused_def sub64_def split: if_splits)

end
