(* ===== verification/Raft_Confchange.thy ===== *)
theory Raft_Confchange
  imports Raft_Tracker "HOL-Library.AList"
begin

text \<open>
  Changes of the configuration of a raft group: \<open>src/etcd/raft/confchange/confchange.go\<close> and
  \<open>restore.go\<close>. The code works on copies of the configuration and of the progress map, so the
  operations take and return them. An error is a value of \<open>ConfErr\<close>, one constructor for each
  message; \<open>None\<close> is a panic, the assignment to an entry of a nil map or the use of a nil
  pointer.
\<close>

section \<open>Sets of ids\<close>

text \<open>\<open>m[id] = struct{}{}\<close>, which panics on a nil map, and \<open>delete(m, id)\<close>.\<close>

definition idset_put :: "idset \<Rightarrow> nat \<Rightarrow> idset option" where
  "idset_put m i = (case m of None \<Rightarrow> None | Some l \<Rightarrow> Some (Some (if i \<in> set l then l else l @ [i])))"

definition idset_delete :: "idset \<Rightarrow> nat \<Rightarrow> idset" where
  "idset_delete m i = map_option (filter (\<lambda>j. j \<noteq> i)) m"

definition nilAwareAdd :: "idset \<Rightarrow> nat \<Rightarrow> idset" where
  "nilAwareAdd m i = (let l = (case m of None \<Rightarrow> [] | Some l \<Rightarrow> l) in Some (if i \<in> set l then l else l @ [i]))"

definition nilAwareDelete :: "idset \<Rightarrow> nat \<Rightarrow> idset" where
  "nilAwareDelete m i =
     (case m of None \<Rightarrow> None | Some l \<Rightarrow> let l = filter (\<lambda>j. j \<noteq> i) l in if length l = 0 then None else Some l)"

definition symdiff :: "idset \<Rightarrow> idset \<Rightarrow> nat" where
  "symdiff l r = length (filter (\<lambda>i. i \<notin> set (ids r)) (ids l)) + length (filter (\<lambda>i. i \<notin> set (ids l)) (ids r))"

section \<open>The operations\<close>

datatype ConfErr =
    NoProgress nat | NextNotOutgoing nat | NextMarkedLearner nat | LearnerInOutgoing nat | LearnerInIncoming nat
  | NotMarkedLearner nat | OutgoingNotNil | LearnersNextNotNil | AutoLeaveNotJoint
  | AlreadyJoint | ZeroVoters | NotJoint | InJoint | RemovedAllVoters | UnexpectedConfType int | MoreThanOneVoter

record Changer =
  chTracker :: ProgressTracker
  chLastIndex :: nat

type_synonym conf = "Config \<times> ProgressMap"

definition joint :: "Config \<Rightarrow> bool" where
  "joint cfg \<longleftrightarrow> length (ids (snd (cVoters cfg))) > 0"

definition initProgress :: "Changer \<Rightarrow> conf \<Rightarrow> nat \<Rightarrow> bool \<Rightarrow> conf option" where
  "initProgress c cp i isLearner = do {
     let (cfg, prs) = cp;
     cfg \<leftarrow> (if \<not> isLearner
             then map_option (\<lambda>v. cfg\<lparr>cVoters := (v, snd (cVoters cfg))\<rparr>) (idset_put (fst (cVoters cfg)) i)
             else Some (cfg\<lparr>cLearners := nilAwareAdd (cLearners cfg) i\<rparr>));
     Some (cfg, AList.update i
       \<lparr>prMatch = 0, prNext = chLastIndex c, prState = StateProbe, prPendingSnapshot = 0, prRecentActive = True, prProbeSent = False,
        prInflights = NewInflights (tMaxInflight (chTracker c)), prIsLearner = isLearner\<rparr> prs) }"

definition makeVoter :: "Changer \<Rightarrow> conf \<Rightarrow> nat \<Rightarrow> conf option" where
  "makeVoter c cp i = do {
     let (cfg, prs) = cp;
     case map_of prs i of
       None \<Rightarrow> initProgress c cp i False
     | Some pr \<Rightarrow> do {
         v \<leftarrow> idset_put (fst (cVoters cfg)) i;
         Some (cfg\<lparr>cLearners := nilAwareDelete (cLearners cfg) i, cLearnersNext := nilAwareDelete (cLearnersNext cfg) i,
                   cVoters := (v, snd (cVoters cfg))\<rparr>,
               AList.update i (pr\<lparr>prIsLearner := False\<rparr>) prs) } }"

definition conf_remove :: "conf \<Rightarrow> nat \<Rightarrow> conf" where
  "conf_remove cp i =
     (let (cfg, prs) = cp in
      case map_of prs i of None \<Rightarrow> cp
      | Some _ \<Rightarrow>
          (cfg\<lparr>cVoters := (idset_delete (fst (cVoters cfg)) i, snd (cVoters cfg)), cLearners := nilAwareDelete (cLearners cfg) i,
               cLearnersNext := nilAwareDelete (cLearnersNext cfg) i\<rparr>,
           if i \<in> set (ids (snd (cVoters cfg))) then prs else AList.delete i prs))"

definition makeLearner :: "Changer \<Rightarrow> conf \<Rightarrow> nat \<Rightarrow> conf option" where
  "makeLearner c cp i =
     (case map_of (snd cp) i of
        None \<Rightarrow> initProgress c cp i True
      | Some pr \<Rightarrow>
          if prIsLearner pr then Some cp
          else
            let (cfg, prs) = conf_remove cp i;
                prs = AList.update i pr prs
            in if i \<in> set (ids (snd (cVoters cfg))) then Some (cfg\<lparr>cLearnersNext := nilAwareAdd (cLearnersNext cfg) i\<rparr>, prs)
               else Some (cfg\<lparr>cLearners := nilAwareAdd (cLearners cfg) i\<rparr>, AList.update i (pr\<lparr>prIsLearner := True\<rparr>) prs))"

definition change_one :: "Changer \<Rightarrow> conf \<Rightarrow> ConfChangeSingle \<Rightarrow> (ConfErr + conf) option" where
  "change_one c cp cc =
     (if csNodeID cc = 0 then Some (Inr cp)
      else case csType cc of
        ConfChangeAddNode \<Rightarrow> map_option Inr (makeVoter c cp (csNodeID cc))
      | ConfChangeAddLearnerNode \<Rightarrow> map_option Inr (makeLearner c cp (csNodeID cc))
      | ConfChangeRemoveNode \<Rightarrow> Some (Inr (conf_remove cp (csNodeID cc)))
      | ConfChangeUpdateNode \<Rightarrow> Some (Inr cp)
      | ConfChangeTypeUnknown t \<Rightarrow> Some (Inl (UnexpectedConfType t)))"

fun conf_apply :: "Changer \<Rightarrow> conf \<Rightarrow> ConfChangeSingle list \<Rightarrow> (ConfErr + conf) option" where
  "conf_apply c cp [] = Some (if length (ids (fst (cVoters (fst cp)))) = 0 then Inl RemovedAllVoters else Inr cp)"
| "conf_apply c cp (cc # ccs) = do {
     r \<leftarrow> change_one c cp cc;
     case r of Inl err \<Rightarrow> Some (Inl err) | Inr cp \<Rightarrow> conf_apply c cp ccs }"

text \<open>
  \<open>checkInvariants\<close> returns the first violation. That an id has a progress is checked before its
  progress is used; the use of a missing one is written as no violation and does not occur.
\<close>

definition first_err :: "(nat \<Rightarrow> ConfErr option) \<Rightarrow> nat list \<Rightarrow> ConfErr option" where
  "first_err f is = (case List.map_filter f is of [] \<Rightarrow> None | e # _ \<Rightarrow> Some e)"

definition or_else :: "ConfErr option \<Rightarrow> ConfErr option \<Rightarrow> ConfErr option" where
  "or_else a b = (case a of None \<Rightarrow> b | Some e \<Rightarrow> Some e)"

definition marked :: "ProgressMap \<Rightarrow> nat \<Rightarrow> bool" where
  "marked prs i = (case map_of prs i of None \<Rightarrow> False | Some pr \<Rightarrow> prIsLearner pr)"

definition checkInvariants :: "Config \<Rightarrow> ProgressMap \<Rightarrow> ConfErr option" where
  "checkInvariants cfg prs =
     (let out = set (ids (snd (cVoters cfg))); inc = set (ids (fst (cVoters cfg)));
          progress = (\<lambda>i. if map_of prs i = None then Some (NoProgress i) else None)
      in or_else (first_err progress (IDs (cVoters cfg)))
        (or_else (first_err progress (ids (cLearners cfg)))
        (or_else (first_err progress (ids (cLearnersNext cfg)))
        (or_else (first_err (\<lambda>i. if i \<notin> out then Some (NextNotOutgoing i)
                              else if marked prs i then Some (NextMarkedLearner i) else None) (ids (cLearnersNext cfg)))
        (or_else (first_err (\<lambda>i. if i \<in> out then Some (LearnerInOutgoing i)
                              else if i \<in> inc then Some (LearnerInIncoming i)
                              else if \<not> marked prs i then Some (NotMarkedLearner i) else None) (ids (cLearners cfg)))
         (if \<not> joint cfg then
            if snd (cVoters cfg) \<noteq> None then Some OutgoingNotNil
            else if cLearnersNext cfg \<noteq> None then Some LearnersNextNotNil
            else if cAutoLeave cfg then Some AutoLeaveNotJoint else None
          else None))))))"

definition checkAndReturn :: "conf \<Rightarrow> ConfErr + conf" where
  "checkAndReturn cp = (case checkInvariants (fst cp) (snd cp) of Some err \<Rightarrow> Inl err | None \<Rightarrow> Inr cp)"

definition checkAndCopy :: "Changer \<Rightarrow> ConfErr + conf" where
  "checkAndCopy c = checkAndReturn (Config_Clone (tConfig (chTracker c)), tProgress (chTracker c))"

definition Changer_EnterJoint :: "Changer \<Rightarrow> bool \<Rightarrow> ConfChangeSingle list \<Rightarrow> (ConfErr + conf) option" where
  "Changer_EnterJoint c autoLeave ccs =
     (case checkAndCopy c of Inl err \<Rightarrow> Some (Inl err)
      | Inr (cfg, prs) \<Rightarrow>
          if joint cfg then Some (Inl AlreadyJoint)
          else if length (ids (fst (cVoters cfg))) = 0 then Some (Inl ZeroVoters)
          else do {
            let cfg = cfg\<lparr>cVoters := (fst (cVoters cfg), Some (ids (fst (cVoters cfg))))\<rparr>;
            r \<leftarrow> conf_apply c (cfg, prs) ccs;
            case r of Inl err \<Rightarrow> Some (Inl err)
            | Inr (cfg, prs) \<Rightarrow> Some (checkAndReturn (cfg\<lparr>cAutoLeave := autoLeave\<rparr>, prs)) })"

fun stage_learners :: "nat list \<Rightarrow> conf \<Rightarrow> conf option" where
  "stage_learners [] cp = Some cp"
| "stage_learners (i # is) cp = do {
     let (cfg, prs) = cp;
     pr \<leftarrow> map_of prs i;
     stage_learners is (cfg\<lparr>cLearners := nilAwareAdd (cLearners cfg) i\<rparr>, AList.update i (pr\<lparr>prIsLearner := True\<rparr>) prs) }"

definition Changer_LeaveJoint :: "Changer \<Rightarrow> (ConfErr + conf) option" where
  "Changer_LeaveJoint c =
     (case checkAndCopy c of Inl err \<Rightarrow> Some (Inl err)
      | Inr (cfg, prs) \<Rightarrow>
          if \<not> joint cfg then Some (Inl NotJoint)
          else do {
            (cfg, prs) \<leftarrow> stage_learners (ids (cLearnersNext cfg)) (cfg, prs);
            let cfg = cfg\<lparr>cLearnersNext := None\<rparr>;
            let prs = fold (\<lambda>i prs. if i \<notin> set (ids (fst (cVoters cfg))) \<and> i \<notin> set (ids (cLearners cfg)) then AList.delete i prs else prs)
                        (ids (snd (cVoters cfg))) prs;
            Some (checkAndReturn (cfg\<lparr>cVoters := (fst (cVoters cfg), None), cAutoLeave := False\<rparr>, prs)) })"

definition Simple :: "Changer \<Rightarrow> ConfChangeSingle list \<Rightarrow> (ConfErr + conf) option" where
  "Simple c ccs =
     (case checkAndCopy c of Inl err \<Rightarrow> Some (Inl err)
      | Inr (cfg, prs) \<Rightarrow>
          if joint cfg then Some (Inl InJoint)
          else do {
            r \<leftarrow> conf_apply c (cfg, prs) ccs;
            case r of Inl err \<Rightarrow> Some (Inl err)
            | Inr (cfg, prs) \<Rightarrow>
                Some (if symdiff (fst (tVoters (chTracker c))) (fst (cVoters cfg)) > 1 then Inl MoreThanOneVoter
                      else checkAndReturn (cfg, prs)) })"

section \<open>Restoring a configuration\<close>

definition toConfChangeSingle :: "ConfState \<Rightarrow> ConfChangeSingle list \<times> ConfChangeSingle list" where
  "toConfChangeSingle cs =
     (let change = (\<lambda>t is. map (\<lambda>i. \<lparr>csType = t, csNodeID = i\<rparr>) is) in
      (change ConfChangeAddNode (csVotersOutgoing cs),
       change ConfChangeRemoveNode (csVotersOutgoing cs) @ change ConfChangeAddNode (csVoters cs)
         @ change ConfChangeAddLearnerNode (csLearners cs) @ change ConfChangeAddLearnerNode (csLearnersNext cs)))"

fun chain :: "Changer \<Rightarrow> (Changer \<Rightarrow> (ConfErr + conf) option) list \<Rightarrow> (ConfErr + conf) option" where
  "chain chg [] = Some (Inr (tConfig (chTracker chg), tProgress (chTracker chg)))"
| "chain chg (f # fs) = do {
     r \<leftarrow> f chg;
     case r of Inl err \<Rightarrow> Some (Inl err)
     | Inr (cfg, prs) \<Rightarrow> chain (chg\<lparr>chTracker := (chTracker chg)\<lparr>tConfig := cfg, tProgress := prs\<rparr>\<rparr>) fs }"

definition Restore :: "Changer \<Rightarrow> ConfState \<Rightarrow> (ConfErr + conf) option" where
  "Restore chg cs =
     (let (out, inc) = toConfChangeSingle cs in
      if length out = 0 then chain chg (map (\<lambda>cc chg. Simple chg [cc]) inc)
      else chain chg (map (\<lambda>cc chg. Simple chg [cc]) out @ [\<lambda>chg. Changer_EnterJoint chg (csAutoLeave cs) inc]))"

section \<open>The invariants\<close>

lemma idset_sets [simp]:
  "set (ids (nilAwareAdd m i)) = insert i (set (ids m))"
  "set (ids (nilAwareDelete m i)) = set (ids m) - {i}"
  "set (ids (idset_delete m i)) = set (ids m) - {i}"
  by (cases m; auto simp: nilAwareAdd_def nilAwareDelete_def idset_delete_def Let_def filter_empty_conv)+

lemma idset_distinct [simp]:
  "distinct (ids (nilAwareAdd m i)) = distinct (ids m)"
  "distinct (ids m) \<Longrightarrow> distinct (ids (nilAwareDelete m i))"
  "distinct (ids m) \<Longrightarrow> distinct (ids (idset_delete m i))"
  by (cases m; auto simp: nilAwareAdd_def nilAwareDelete_def idset_delete_def Let_def)+

lemma idset_nil [simp]: "nilAwareAdd m i \<noteq> Some []" "nilAwareDelete m i \<noteq> Some []" "idset_delete m i = None \<longleftrightarrow> m = None"
  by (auto simp: nilAwareAdd_def nilAwareDelete_def idset_delete_def Let_def split: option.splits)

lemma idset_put_ok:
  assumes "m \<noteq> None"
  shows "\<exists>m'. idset_put m i = Some (Some m') \<and> set m' = insert i (set (ids m)) \<and> (distinct (ids m) \<longrightarrow> distinct m')"
  using assms by (cases m) (auto simp: idset_put_def)

lemma first_err_None [simp]: "first_err f is = None \<longleftrightarrow> (\<forall>i \<in> set is. f i = None)"
proof -
  have "List.map_filter f is = [] \<longleftrightarrow> (\<forall>i \<in> set is. f i = None)" by (induction "is") (auto simp: List.map_filter_def)
  then show ?thesis by (auto simp: first_err_def split: list.splits)
qed

lemma or_else_None [simp]: "or_else a b = None \<longleftrightarrow> a = None \<and> b = None"
  by (simp add: or_else_def split: option.splits)

abbreviation inc :: "Config \<Rightarrow> nat set" where "inc cfg \<equiv> set (ids (fst (cVoters cfg)))"
abbreviation out :: "Config \<Rightarrow> nat set" where "out cfg \<equiv> set (ids (snd (cVoters cfg)))"
abbreviation lrn :: "Config \<Rightarrow> nat set" where "lrn cfg \<equiv> set (ids (cLearners cfg))"
abbreviation nxt :: "Config \<Rightarrow> nat set" where "nxt cfg \<equiv> set (ids (cLearnersNext cfg))"

text \<open>
  The invariant that the changes really keep is stronger than the one that the code checks: every
  progress belongs to a member, the marked ones are the learners, and no staged learner is a voter.
\<close>

definition conf_ok :: "conf \<Rightarrow> bool" where
  "conf_ok cp \<longleftrightarrow>
     (let (cfg, prs) = cp in
      fst (cVoters cfg) \<noteq> None \<and> dom (map_of prs) = inc cfg \<union> out cfg \<union> lrn cfg \<and> (\<forall>i. marked prs i \<longleftrightarrow> i \<in> lrn cfg)
      \<and> nxt cfg \<subseteq> out cfg - inc cfg \<and> lrn cfg \<inter> (inc cfg \<union> out cfg) = {} \<and> cLearners cfg \<noteq> Some [] \<and> cLearnersNext cfg \<noteq> Some []
      \<and> snd (cVoters cfg) \<noteq> Some []
      \<and> distinct (ids (fst (cVoters cfg))) \<and> distinct (ids (snd (cVoters cfg))) \<and> distinct (ids (cLearners cfg)) \<and> distinct (ids (cLearnersNext cfg)))"

lemma joint_out: "joint cfg \<longleftrightarrow> out cfg \<noteq> {}"
  by (simp add: joint_def)

lemma ids_Nil: "m \<noteq> Some [] \<Longrightarrow> set (ids m) = {} \<longleftrightarrow> m = None"
  by (cases m) auto

lemma checkInvariants_ok:
  assumes "conf_ok (cfg, prs)" and "\<not> joint cfg \<Longrightarrow> \<not> cAutoLeave cfg"
  shows "checkInvariants cfg prs = None"
proof -
  have dom: "map_of prs i \<noteq> None \<longleftrightarrow> i \<in> inc cfg \<union> out cfg \<union> lrn cfg" for i
    using assms(1) by (auto simp: conf_ok_def dom_def)
  have nil: "snd (cVoters cfg) = None \<and> cLearnersNext cfg = None" if "\<not> joint cfg"
  proof -
    have "out cfg = {}" using that by (simp add: joint_out)
    moreover then have "nxt cfg = {}" using assms(1) by (simp add: conf_ok_def)
    ultimately show ?thesis using ids_Nil assms(1) by (simp add: conf_ok_def)
  qed
  have "set (IDs (cVoters cfg)) = inc cfg \<union> out cfg" by (simp add: IDs_def)
  then show ?thesis using assms nil dom
    by (auto simp: checkInvariants_def Let_def conf_ok_def)
qed

section \<open>Changes as operations on sets\<close>

text \<open>What one change does to the incoming voters, the learners and the staged learners.\<close>

type_synonym members = "nat set \<times> nat set \<times> nat set"

fun change :: "nat set \<Rightarrow> ConfChangeSingle \<Rightarrow> members \<Rightarrow> members" where
  "change ou cc (v, l, n) =
     (let i = csNodeID cc in
      if i = 0 then (v, l, n)
      else case csType cc of
        ConfChangeAddNode \<Rightarrow> (insert i v, l - {i}, n - {i})
      | ConfChangeRemoveNode \<Rightarrow> (v - {i}, l - {i}, n - {i})
      | ConfChangeAddLearnerNode \<Rightarrow> if i \<in> ou then (v - {i}, l, insert i n) else (v - {i}, insert i l, n)
      | _ \<Rightarrow> (v, l, n))"

definition members :: "Config \<Rightarrow> members" where
  "members cfg = (inc cfg, lrn cfg, nxt cfg)"

definition known :: "ConfChangeSingle \<Rightarrow> bool" where
  "known cc \<longleftrightarrow> csNodeID cc = 0 \<or> (\<forall>t. csType cc \<noteq> ConfChangeTypeUnknown t)"

lemma marked_update [simp]: "marked (AList.update i pr prs) j = (if j = i then prIsLearner pr else marked prs j)"
  by (simp add: marked_def update_conv')

lemma marked_delete [simp]: "marked (AList.delete i prs) j = (j \<noteq> i \<and> marked prs j)"
  by (simp add: marked_def delete_conv')

lemma dom_update [simp]: "dom (map_of (AList.update i pr prs)) = insert i (dom (map_of prs))"
  by (simp add: update_conv')

lemma dom_delete [simp]: "dom (map_of (AList.delete i prs)) = dom (map_of prs) - {i}"
  by (auto simp: delete_conv' dom_def)

text \<open>The parts of the invariant.\<close>

lemma conf_okD:
  assumes "conf_ok (cfg, prs)"
  shows "fst (cVoters cfg) \<noteq> None" and "\<And>i. map_of prs i = None \<longleftrightarrow> i \<notin> inc cfg \<and> i \<notin> out cfg \<and> i \<notin> lrn cfg"
    and "\<And>i pr. map_of prs i = Some pr \<Longrightarrow> prIsLearner pr \<longleftrightarrow> i \<in> lrn cfg"
    and "\<And>i. i \<in> nxt cfg \<Longrightarrow> i \<in> out cfg \<and> i \<notin> inc cfg" and "\<And>i. i \<in> lrn cfg \<Longrightarrow> i \<notin> inc cfg \<and> i \<notin> out cfg"
proof -
  note a = assms [unfolded conf_ok_def Let_def prod.case]
  show "fst (cVoters cfg) \<noteq> None" using a by blast
  show "map_of prs i = None \<longleftrightarrow> i \<notin> inc cfg \<and> i \<notin> out cfg \<and> i \<notin> lrn cfg" for i using a unfolding dom_def by blast
  show "prIsLearner pr \<longleftrightarrow> i \<in> lrn cfg" if "map_of prs i = Some pr" for i pr
  proof -
    have "marked prs i \<longleftrightarrow> i \<in> lrn cfg" using a by blast
    then show ?thesis using that by (simp add: marked_def)
  qed
  show "i \<in> out cfg \<and> i \<notin> inc cfg" if "i \<in> nxt cfg" for i using a that by blast
  show "i \<notin> inc cfg \<and> i \<notin> out cfg" if "i \<in> lrn cfg" for i using a that by blast
qed

lemma makeVoter_ok:
  assumes ok: "conf_ok (cfg, prs)"
  shows "\<exists>cfg' prs'. makeVoter c (cfg, prs) i = Some (cfg', prs') \<and> conf_ok (cfg', prs') \<and> snd (cVoters cfg') = snd (cVoters cfg)
    \<and> cAutoLeave cfg' = cAutoLeave cfg \<and> members cfg' = (insert i (inc cfg), lrn cfg - {i}, nxt cfg - {i})"
proof -
  note d = conf_okD [OF ok]
  obtain v where v: "idset_put (fst (cVoters cfg)) i = Some (Some v)" "set v = insert i (inc cfg)" "distinct v"
    using idset_put_ok [OF d(1), of i] ok by (auto simp: conf_ok_def)
  show ?thesis
  proof (cases "map_of prs i")
    case None
    then have "i \<notin> lrn cfg" "i \<notin> nxt cfg" "i \<notin> out cfg" using d(2,4) by auto
    then show ?thesis using ok v None by (auto simp: makeVoter_def initProgress_def members_def conf_ok_def)
  next
    case (Some pr)
    then have "i \<in> dom (map_of prs)" by auto
    then show ?thesis using ok v Some by (auto simp: makeVoter_def members_def conf_ok_def)
  qed
qed

lemma conf_remove_ok:
  assumes ok: "conf_ok (cfg, prs)"
  shows "\<exists>cfg' prs'. conf_remove (cfg, prs) i = (cfg', prs') \<and> conf_ok (cfg', prs') \<and> snd (cVoters cfg') = snd (cVoters cfg)
    \<and> cAutoLeave cfg' = cAutoLeave cfg \<and> members cfg' = (inc cfg - {i}, lrn cfg - {i}, nxt cfg - {i})
    \<and> map_of prs' = (if i \<in> out cfg then map_of prs else (map_of prs)(i := None))"
proof (cases "map_of prs i")
  case None
  then have "i \<notin> inc cfg" "i \<notin> lrn cfg" "i \<notin> nxt cfg" "i \<notin> out cfg" using conf_okD(2,4) [OF ok] by auto
  then show ?thesis using ok None by (auto simp: conf_remove_def members_def)
next
  case (Some pr)
  then show ?thesis using ok conf_okD(2) [OF ok, of i]
    by (auto simp: conf_remove_def members_def conf_ok_def delete_conv')
qed

lemma makeLearner_ok:
  assumes ok: "conf_ok (cfg, prs)"
  shows "\<exists>cfg' prs'. makeLearner c (cfg, prs) i = Some (cfg', prs') \<and> conf_ok (cfg', prs') \<and> snd (cVoters cfg') = snd (cVoters cfg)
    \<and> cAutoLeave cfg' = cAutoLeave cfg
    \<and> members cfg' = (if i \<in> out cfg then (inc cfg - {i}, lrn cfg, insert i (nxt cfg)) else (inc cfg - {i}, insert i (lrn cfg), nxt cfg))"
proof (cases "map_of prs i")
  case None
  then have "i \<notin> inc cfg" "i \<notin> lrn cfg" "i \<notin> nxt cfg" "i \<notin> out cfg" using conf_okD(2,4) [OF ok] by auto
  then show ?thesis using ok None by (auto simp: makeLearner_def initProgress_def members_def conf_ok_def)
next
  case (Some pr)
  note d = conf_okD [OF ok]
  show ?thesis
  proof (cases "prIsLearner pr")
    case True
    then have "i \<in> lrn cfg" "i \<notin> inc cfg" "i \<notin> out cfg" using d(3) [OF Some] d(5) by auto
    then show ?thesis using ok Some True by (auto simp: makeLearner_def members_def)
  next
    case False
    then have l: "i \<notin> lrn cfg" using d(3) [OF Some] by simp
    obtain cfg' prs' where r: "conf_remove (cfg, prs) i = (cfg', prs')" "conf_ok (cfg', prs')" "snd (cVoters cfg') = snd (cVoters cfg)"
        "cAutoLeave cfg' = cAutoLeave cfg" "members cfg' = (inc cfg - {i}, lrn cfg - {i}, nxt cfg - {i})"
      using conf_remove_ok [OF ok, of i] by auto
    then have m: "inc cfg' = inc cfg - {i}" "lrn cfg' = lrn cfg" "nxt cfg' = nxt cfg - {i}" using l by (auto simp: members_def)
    show ?thesis
    proof (cases "i \<in> out cfg")
      case True
      then show ?thesis using r(1-4) m l False Some by (auto simp: makeLearner_def members_def conf_ok_def)
    next
      case out: False
      then have "i \<notin> nxt cfg" using d(4) by auto
      then show ?thesis using r(1-4) m l False out Some by (auto simp: makeLearner_def members_def conf_ok_def)
    qed
  qed
qed

lemma change_one_ok:
  assumes ok: "conf_ok (cfg, prs)" and k: "known cc"
  shows "\<exists>cfg' prs'. change_one c (cfg, prs) cc = Some (Inr (cfg', prs')) \<and> conf_ok (cfg', prs') \<and> snd (cVoters cfg') = snd (cVoters cfg)
    \<and> cAutoLeave cfg' = cAutoLeave cfg \<and> members cfg' = change (out cfg) cc (members cfg)"
proof (cases "csNodeID cc = 0")
  case False
  then show ?thesis
    using k makeVoter_ok [OF ok, of c "csNodeID cc"] makeLearner_ok [OF ok, of c "csNodeID cc"] conf_remove_ok [OF ok, of "csNodeID cc"] ok
    by (cases "csType cc") (fastforce simp: change_one_def known_def members_def Let_def)+
qed (use ok in \<open>simp add: change_one_def members_def\<close>)

lemma conf_apply_ok:
  assumes "conf_ok (cfg, prs)" and "\<forall>cc \<in> set ccs. known cc"
  shows "\<exists>cfg' prs'. conf_apply c (cfg, prs) ccs = Some (if inc cfg' = {} then Inl RemovedAllVoters else Inr (cfg', prs'))
    \<and> conf_ok (cfg', prs') \<and> snd (cVoters cfg') = snd (cVoters cfg) \<and> cAutoLeave cfg' = cAutoLeave cfg
    \<and> members cfg' = fold (change (out cfg)) ccs (members cfg)"
  using assms
proof (induction ccs arbitrary: cfg prs)
  case (Cons cc ccs)
  obtain cfg1 prs1 where 1: "change_one c (cfg, prs) cc = Some (Inr (cfg1, prs1))" "conf_ok (cfg1, prs1)" "snd (cVoters cfg1) = snd (cVoters cfg)"
      "cAutoLeave cfg1 = cAutoLeave cfg" "members cfg1 = change (out cfg) cc (members cfg)"
    using change_one_ok [OF Cons.prems(1), of cc c] Cons.prems(2) by auto
  show ?case using Cons.IH [OF 1(2)] Cons.prems(2) 1 by auto
qed auto

lemma conf_apply_unknown: "\<not> (\<forall>cc \<in> set ccs. known cc) \<Longrightarrow> conf_ok (cfg, prs) \<Longrightarrow> \<exists>t. conf_apply c (cfg, prs) ccs = Some (Inl (UnexpectedConfType t))"
proof (induction ccs arbitrary: cfg prs)
  case (Cons cc ccs)
  show ?case
  proof (cases "known cc")
    case True
    then obtain cfg1 prs1 where "change_one c (cfg, prs) cc = Some (Inr (cfg1, prs1))" "conf_ok (cfg1, prs1)"
      using change_one_ok [OF Cons.prems(2), of cc c] by auto
    then show ?thesis using Cons.IH [of cfg1 prs1] Cons.prems(1) True by auto
  next
    case False
    then show ?thesis by (auto simp: known_def change_one_def)
  qed
qed simp

section \<open>The three kinds of change\<close>

abbreviation tracked :: "ProgressTracker \<Rightarrow> conf" where "tracked t \<equiv> (tConfig t, tProgress t)"

lemma conf_ok_flag: "conf_ok (cfg\<lparr>cAutoLeave := a\<rparr>, prs) = conf_ok (cfg, prs)"
  by (simp add: conf_ok_def)

lemma checkAndReturn_ok: "conf_ok (cfg, prs) \<Longrightarrow> (\<not> joint cfg \<Longrightarrow> \<not> cAutoLeave cfg) \<Longrightarrow> checkAndReturn (cfg, prs) = Inr (cfg, prs)"
  by (simp add: checkAndReturn_def checkInvariants_ok)

lemma checkAndCopy_ok:
  assumes "conf_ok (tracked (chTracker c))"
  shows "checkAndCopy c = Inr ((tConfig (chTracker c))\<lparr>cAutoLeave := False\<rparr>, tProgress (chTracker c))"
proof -
  have "Config_Clone cfg = cfg\<lparr>cAutoLeave := False\<rparr>" for cfg by (simp add: Config_Clone_def)
  then show ?thesis using assms by (simp add: checkAndCopy_def checkAndReturn_ok conf_ok_flag)
qed

lemma symdiff_card:
  assumes "distinct (ids l)" and "distinct (ids r)"
  shows "symdiff l r = card (set (ids l) - set (ids r)) + card (set (ids r) - set (ids l))"
proof -
  have "length (filter (\<lambda>i. i \<notin> B) xs) = card (set xs - B)" if "distinct xs" for xs and B :: "nat set"
    using that distinct_card [of "filter (\<lambda>i. i \<notin> B) xs"] by (simp add: set_diff_eq)
  then show ?thesis using assms by (simp add: symdiff_def)
qed

text \<open>What a change of a configuration that is not joint gives: an error or the members that the changes describe.\<close>

definition simple_spec :: "Config \<Rightarrow> ConfChangeSingle list \<Rightarrow> ConfErr + members" where
  "simple_spec cfg ccs =
     (let (v, l, n) = fold (change {}) ccs (members cfg) in
      if v = {} then Inl RemovedAllVoters
      else if card (inc cfg - v) + card (v - inc cfg) > 1 then Inl MoreThanOneVoter
      else Inr (v, l, n))"

lemma Simple_ok:
  assumes ok: "conf_ok (tracked (chTracker c))" and nj: "\<not> joint (tConfig (chTracker c))" and k: "\<forall>cc \<in> set ccs. known cc"
  shows "(\<exists>err. Simple c ccs = Some (Inl err) \<and> simple_spec (tConfig (chTracker c)) ccs = Inl err)
    \<or> (\<exists>cfg prs. Simple c ccs = Some (Inr (cfg, prs)) \<and> conf_ok (cfg, prs) \<and> snd (cVoters cfg) = None
         \<and> \<not> cAutoLeave cfg \<and> simple_spec (tConfig (chTracker c)) ccs = Inr (members cfg))"
proof -
  let ?cfg = "tConfig (chTracker c)" and ?prs = "tProgress (chTracker c)"
  let ?copy = "?cfg\<lparr>cAutoLeave := False\<rparr>"
  have nil: "snd (cVoters ?cfg) = None" using nj ok ids_Nil by (auto simp: joint_out conf_ok_def)
  have ok0: "conf_ok (?copy, ?prs)" using ok by (simp add: conf_ok_flag)
  obtain cfg prs where a: "conf_apply c (?copy, ?prs) ccs = Some (if inc cfg = {} then Inl RemovedAllVoters else Inr (cfg, prs))"
      "conf_ok (cfg, prs)" "snd (cVoters cfg) = None" "\<not> cAutoLeave cfg" "members cfg = fold (change {}) ccs (members ?cfg)"
    using conf_apply_ok [OF ok0 k, of c] nil by (auto simp: members_def)
  have sd: "symdiff (fst (cVoters ?cfg)) (fst (cVoters cfg)) = card (inc ?cfg - inc cfg) + card (inc cfg - inc ?cfg)"
    using ok a(2) by (intro symdiff_card) (auto simp: conf_ok_def)
  have j: "\<not> joint ?copy" using nj by (simp add: joint_def)
  have ret: "checkAndReturn (cfg, prs) = Inr (cfg, prs)" using a(2,4) by (intro checkAndReturn_ok) auto
  have "Simple c ccs = Some (if inc cfg = {} then Inl RemovedAllVoters
      else if card (inc ?cfg - inc cfg) + card (inc cfg - inc ?cfg) > 1 then Inl MoreThanOneVoter else Inr (cfg, prs))"
    unfolding Simple_def checkAndCopy_ok [OF ok] using j a(1) sd ret by simp
  moreover have "simple_spec ?cfg ccs = (if inc cfg = {} then Inl RemovedAllVoters
      else if card (inc ?cfg - inc cfg) + card (inc cfg - inc ?cfg) > 1 then Inl MoreThanOneVoter else Inr (members cfg))"
    unfolding simple_spec_def by (subst a(5) [symmetric]) (simp add: members_def)
  ultimately show ?thesis using a(2-4) by auto
qed

lemma EnterJoint_ok:
  assumes ok: "conf_ok (tracked (chTracker c))" and nj: "\<not> joint (tConfig (chTracker c))" and ne: "inc (tConfig (chTracker c)) \<noteq> {}"
    and k: "\<forall>cc \<in> set ccs. known cc"
  defines "old \<equiv> inc (tConfig (chTracker c))" and "new \<equiv> fold (change (inc (tConfig (chTracker c)))) ccs (members (tConfig (chTracker c)))"
  shows "(Changer_EnterJoint c autoLeave ccs = Some (Inl RemovedAllVoters) \<and> fst new = {})
    \<or> (\<exists>cfg prs. Changer_EnterJoint c autoLeave ccs = Some (Inr (cfg, prs)) \<and> conf_ok (cfg, prs) \<and> out cfg = old
         \<and> cAutoLeave cfg = autoLeave \<and> members cfg = new \<and> fst new \<noteq> {})"
proof -
  let ?cfg = "tConfig (chTracker c)" and ?prs = "tProgress (chTracker c)"
  let ?start = "?cfg\<lparr>cAutoLeave := False, cVoters := (fst (cVoters ?cfg), Some (ids (fst (cVoters ?cfg))))\<rparr>"
  have nil: "snd (cVoters ?cfg) = None" using nj ok ids_Nil by (auto simp: joint_out conf_ok_def)
  have ok1: "conf_ok (?start, ?prs)" using ok nil ne by (auto simp: conf_ok_def)
  obtain cfg prs where a: "conf_apply c (?start, ?prs) ccs = Some (if inc cfg = {} then Inl RemovedAllVoters else Inr (cfg, prs))"
      "conf_ok (cfg, prs)" "snd (cVoters cfg) = Some (ids (fst (cVoters ?cfg)))" "members cfg = new"
    using conf_apply_ok [OF ok1 k, of c] by (auto simp: members_def new_def)
  have o: "out cfg = old" using a(3) by (simp add: old_def)
  have ret: "checkAndReturn (cfg\<lparr>cAutoLeave := autoLeave\<rparr>, prs) = Inr (cfg\<lparr>cAutoLeave := autoLeave\<rparr>, prs)"
    using a(2) o ne by (intro checkAndReturn_ok) (auto simp: conf_ok_flag joint_out old_def)
  have j: "\<not> joint (?cfg\<lparr>cAutoLeave := False\<rparr>)" using nj by (simp add: joint_def)
  have "Changer_EnterJoint c autoLeave ccs = Some (if inc cfg = {} then Inl RemovedAllVoters else Inr (cfg\<lparr>cAutoLeave := autoLeave\<rparr>, prs))"
    unfolding Changer_EnterJoint_def checkAndCopy_ok [OF ok] using j ne a(1) ret by (simp add: Let_def)
  moreover have "members (cfg\<lparr>cAutoLeave := autoLeave\<rparr>) = new" "fst new = inc cfg" using a(4) by (auto simp: members_def)
  ultimately show ?thesis using a(2) o by (auto simp: conf_ok_flag)
qed

lemma stage_learners_ok:
  assumes "set is \<subseteq> dom (map_of prs)"
  shows "\<exists>cfg' prs'. stage_learners is (cfg, prs) = Some (cfg', prs') \<and> cVoters cfg' = cVoters cfg \<and> cLearnersNext cfg' = cLearnersNext cfg
    \<and> lrn cfg' = lrn cfg \<union> set is \<and> (cLearners cfg \<noteq> Some [] \<longrightarrow> cLearners cfg' \<noteq> Some []) \<and> (distinct (ids (cLearners cfg)) \<longrightarrow> distinct (ids (cLearners cfg')))
    \<and> dom (map_of prs') = dom (map_of prs) \<and> (\<forall>i. marked prs' i \<longleftrightarrow> i \<in> set is \<or> marked prs i)"
  using assms
proof (induction "is" arbitrary: cfg prs)
  case (Cons i "is")
  then obtain pr where pr: "map_of prs i = Some pr" by auto
  let ?cfg = "cfg\<lparr>cLearners := nilAwareAdd (cLearners cfg) i\<rparr>" and ?prs = "AList.update i (pr\<lparr>prIsLearner := True\<rparr>) prs"
  have D: "dom (map_of ?prs) = dom (map_of prs)" using pr by (auto simp: update_conv')
  have sub: "set is \<subseteq> dom (map_of prs)" using Cons.prems by simp
  obtain cfg' prs' where "stage_learners is (?cfg, ?prs) = Some (cfg', prs')" "cVoters cfg' = cVoters cfg" "cLearnersNext cfg' = cLearnersNext cfg"
      "lrn cfg' = insert i (lrn cfg \<union> set is)" "cLearners cfg' \<noteq> Some []" "distinct (ids (cLearners cfg)) \<longrightarrow> distinct (ids (cLearners cfg'))"
      "dom (map_of prs') = dom (map_of prs)" "\<forall>j. marked prs' j \<longleftrightarrow> j \<in> set is \<or> marked ?prs j"
    using Cons.IH [of ?prs ?cfg, unfolded D, OF sub] by auto
  then show ?case using pr by auto
qed simp

lemma fold_delete:
  "dom (map_of (fold (\<lambda>i prs. if P i then AList.delete i prs else prs) is prs)) = dom (map_of prs) - {i \<in> set is. P i}"
  "marked (fold (\<lambda>i prs. if P i then AList.delete i prs else prs) is prs) j \<longleftrightarrow> marked prs j \<and> \<not> (j \<in> set is \<and> P j)"
  by (induction "is" arbitrary: prs) auto

lemma LeaveJoint_ok:
  assumes ok: "conf_ok (tracked (chTracker c))" and j: "joint (tConfig (chTracker c))"
  shows "\<exists>cfg prs. Changer_LeaveJoint c = Some (Inr (cfg, prs)) \<and> conf_ok (cfg, prs) \<and> snd (cVoters cfg) = None \<and> \<not> cAutoLeave cfg
    \<and> members cfg = (inc (tConfig (chTracker c)), lrn (tConfig (chTracker c)) \<union> nxt (tConfig (chTracker c)), {})"
proof -
  let ?copy = "(tConfig (chTracker c))\<lparr>cAutoLeave := False\<rparr>" and ?prc = "tProgress (chTracker c)"
  have ok0: "conf_ok (?copy, ?prc)" and j0: "joint ?copy" using ok j by (simp_all add: conf_ok_flag joint_def)
  note o = ok0 [unfolded conf_ok_def Let_def prod.case]
  have "set (ids (cLearnersNext ?copy)) \<subseteq> dom (map_of ?prc)" using o by blast
  then obtain cfg prs where s: "stage_learners (ids (cLearnersNext ?copy)) (?copy, ?prc) = Some (cfg, prs)" "cVoters cfg = cVoters ?copy"
      "lrn cfg = lrn ?copy \<union> nxt ?copy" "cLearners cfg \<noteq> Some []" "distinct (ids (cLearners cfg))"
      "dom (map_of prs) = dom (map_of ?prc)" "\<forall>i. marked prs i \<longleftrightarrow> i \<in> nxt ?copy \<or> marked ?prc i"
    using stage_learners_ok [of "ids (cLearnersNext ?copy)" ?prc ?copy] o by auto
  let ?P = "\<lambda>i. i \<notin> inc cfg \<and> i \<notin> lrn cfg"
  let ?cfg = "cfg\<lparr>cLearnersNext := None, cVoters := (fst (cVoters cfg), None), cAutoLeave := False\<rparr>"
  let ?prs = "fold (\<lambda>i prs. if ?P i then AList.delete i prs else prs) (ids (snd (cVoters cfg))) prs"
  have fin: "conf_ok (?cfg, ?prs)" using o s(2-7) by (auto simp: conf_ok_def fold_delete)
  then have ret: "checkAndReturn (?cfg, ?prs) = Inr (?cfg, ?prs)" by (intro checkAndReturn_ok) simp_all
  have "Changer_LeaveJoint c = Some (Inr (?cfg, ?prs))"
    unfolding Changer_LeaveJoint_def checkAndCopy_ok [OF ok] using j0 s(1) ret by (simp add: Let_def)
  then show ?thesis using fin s(2,3) by (auto simp: members_def)
qed

text \<open>The three kinds of change, and what they promise.\<close>

datatype conf_change = OpSimple "ConfChangeSingle list" | OpEnterJoint bool "ConfChangeSingle list" | OpLeaveJoint

fun perform_change :: "Changer \<Rightarrow> conf_change \<Rightarrow> (ConfErr + conf) option" where
  "perform_change c (OpSimple ccs) = Simple c ccs"
| "perform_change c (OpEnterJoint autoLeave ccs) = Changer_EnterJoint c autoLeave ccs"
| "perform_change c OpLeaveJoint = Changer_LeaveJoint c"

fun changes_of :: "conf_change \<Rightarrow> ConfChangeSingle list" where
  "changes_of (OpSimple ccs) = ccs"
| "changes_of (OpEnterJoint autoLeave ccs) = ccs"
| "changes_of OpLeaveJoint = []"

text \<open>The members, the outgoing voters and the flag after a change.\<close>

fun change_spec :: "Config \<Rightarrow> conf_change \<Rightarrow> ConfErr + members \<times> nat set \<times> bool" where
  "change_spec cfg (OpSimple ccs) =
     (if joint cfg then Inl InJoint
      else case simple_spec cfg ccs of Inl err \<Rightarrow> Inl err | Inr m \<Rightarrow> Inr (m, {}, False))"
| "change_spec cfg (OpEnterJoint autoLeave ccs) =
     (if joint cfg then Inl AlreadyJoint
      else if inc cfg = {} then Inl ZeroVoters
      else let m = fold (change (inc cfg)) ccs (members cfg) in
           if fst m = {} then Inl RemovedAllVoters else Inr (m, inc cfg, autoLeave))"
| "change_spec cfg OpLeaveJoint =
     (if joint cfg then Inr ((inc cfg, lrn cfg \<union> nxt cfg, {}), {}, False) else Inl NotJoint)"

lemma conf_change_result:
  assumes ok: "conf_ok (tracked (chTracker c))" and k: "\<forall>cc \<in> set (changes_of chg). known cc"
  shows "\<exists>r. perform_change c chg = Some r
    \<and> (case r of Inl err \<Rightarrow> change_spec (tConfig (chTracker c)) chg = Inl err
       | Inr (cfg, prs) \<Rightarrow> conf_ok (cfg, prs) \<and> checkInvariants cfg prs = None
           \<and> change_spec (tConfig (chTracker c)) chg = Inr (members cfg, out cfg, cAutoLeave cfg))"
proof -
  let ?old = "tConfig (chTracker c)"
  have j: "joint (?old\<lparr>cAutoLeave := False\<rparr>) = joint ?old" by (simp add: joint_def)
  have chk: "checkInvariants cfg prs = None" if "conf_ok (cfg, prs)" "\<not> cAutoLeave cfg \<or> out cfg \<noteq> {}" for cfg prs
    using checkInvariants_ok that by (auto simp: joint_out)
  show ?thesis
  proof (cases chg)
    case (OpSimple ccs)
    show ?thesis
    proof (cases "joint ?old")
      case True
      then show ?thesis using OpSimple j by (simp add: Simple_def checkAndCopy_ok [OF ok])
    next
      case False
      have "\<forall>cc \<in> set ccs. known cc" using k OpSimple by simp
      from Simple_ok [OF ok False this] show ?thesis
      proof (elim disjE exE conjE)
        fix cfg prs
        assume "Simple c ccs = Some (Inr (cfg, prs))" "conf_ok (cfg, prs)" "snd (cVoters cfg) = None" "\<not> cAutoLeave cfg"
          "simple_spec ?old ccs = Inr (members cfg)"
        then show ?thesis using OpSimple False chk [of cfg prs] by simp
      qed (use OpSimple False in simp)
    qed
  next
    case (OpEnterJoint a ccs)
    show ?thesis
    proof (cases "joint ?old \<or> inc ?old = {}")
      case True
      then show ?thesis using OpEnterJoint j by (auto simp: Changer_EnterJoint_def checkAndCopy_ok [OF ok])
    next
      case False
      then have nj: "\<not> joint ?old" "inc ?old \<noteq> {}" by auto
      have "\<forall>cc \<in> set ccs. known cc" using k OpEnterJoint by simp
      from EnterJoint_ok [OF ok nj this, of a] show ?thesis
      proof (elim disjE exE conjE)
        fix cfg prs
        assume e: "Changer_EnterJoint c a ccs = Some (Inr (cfg, prs))" "conf_ok (cfg, prs)" "out cfg = inc ?old" "cAutoLeave cfg = a"
          "members cfg = fold (change (inc ?old)) ccs (members ?old)" "fst (fold (change (inc ?old)) ccs (members ?old)) \<noteq> {}"
        have "checkInvariants cfg prs = None" using chk [OF e(2)] nj(2) e(3) by simp
        then show ?thesis using OpEnterJoint nj e by (simp add: Let_def)
      qed (use OpEnterJoint nj in \<open>simp add: Let_def\<close>)
    qed
  next
    case OpLeaveJoint
    show ?thesis
    proof (cases "joint ?old")
      case True
      from LeaveJoint_ok [OF ok True] show ?thesis
      proof (elim exE conjE)
        fix cfg prs
        assume l: "Changer_LeaveJoint c = Some (Inr (cfg, prs))" "conf_ok (cfg, prs)" "snd (cVoters cfg) = None" "\<not> cAutoLeave cfg"
          "members cfg = (inc ?old, lrn ?old \<union> nxt ?old, {})"
        have "checkInvariants cfg prs = None" using chk [OF l(2)] l(4) by simp
        then show ?thesis using OpLeaveJoint True l by simp
      qed
    next
      case False
      then show ?thesis using OpLeaveJoint j by (simp add: Changer_LeaveJoint_def checkAndCopy_ok [OF ok])
    qed
  qed
qed

text \<open>
  C19. Configuration changes: on a tracker that satisfies the invariant no change panics. A simple
  change, entering and leaving a joint configuration return exactly the error or the voters, the
  learners, the staged learners, the outgoing voters and the flag that the set-level description
  says, and the result satisfies the invariant again and passes the check of the code.
\<close>

theorem conf_changes_refine:
  assumes ok: "conf_ok (tracked (chTracker c))" and k: "\<forall>cc \<in> set (changes_of chg). known cc"
  shows "\<exists>r. perform_change c chg = Some r
    \<and> (case r of Inl err \<Rightarrow> change_spec (tConfig (chTracker c)) chg = Inl err
       | Inr (cfg, prs) \<Rightarrow> conf_ok (cfg, prs) \<and> checkInvariants cfg prs = None
           \<and> change_spec (tConfig (chTracker c)) chg = Inr (members cfg, out cfg, cAutoLeave cfg))"
  by (rule conf_change_result [OF assms])

theorem conf_changes_refine_witness:
  "\<exists>cfg prs. perform_change \<lparr>chTracker = MakeProgressTracker 4, chLastIndex = 1\<rparr>
       (OpSimple [\<lparr>csType = ConfChangeAddNode, csNodeID = 7\<rparr>]) = Some (Inr (cfg, prs)) \<and> conf_ok (cfg, prs) \<and> members cfg = ({7}, {}, {})"
proof -
  let ?c = "\<lparr>chTracker = MakeProgressTracker 4, chLastIndex = 1\<rparr>" and ?o = "OpSimple [\<lparr>csType = ConfChangeAddNode, csNodeID = 7\<rparr>]"
  have spec: "change_spec (tConfig (chTracker ?c)) ?o = Inr (({7}, {}, {}), {}, False)"
    by (simp add: MakeProgressTracker_def joint_def simple_spec_def members_def)
  have "conf_ok (tracked (chTracker ?c))" by (simp add: conf_ok_def MakeProgressTracker_def marked_def)
  from conf_changes_refine [OF this, of ?o] obtain r where r: "perform_change ?c ?o = Some r"
    "case r of Inl err \<Rightarrow> change_spec (tConfig (chTracker ?c)) ?o = Inl err
     | Inr (cfg, prs) \<Rightarrow> conf_ok (cfg, prs) \<and> checkInvariants cfg prs = None
         \<and> change_spec (tConfig (chTracker ?c)) ?o = Inr (members cfg, out cfg, cAutoLeave cfg)" by (auto simp: known_def)
  then show ?thesis using spec by (cases r) auto
qed

section \<open>Quorums overlap across a change\<close>

lemma majority_card: "distinct ks \<Longrightarrow> majority ks (\<lambda>k. k \<in> Q) \<longleftrightarrow> card (set ks) < 2 * card (set ks \<inter> Q)"
proof -
  assume "distinct ks"
  then have "length (filter (\<lambda>k. k \<in> Q) ks) = card (set ks \<inter> Q)" "length ks = card (set ks)"
    using distinct_card [of "filter (\<lambda>k. k \<in> Q) ks"] distinct_card [of ks] by (auto simp: Int_def)
  then show ?thesis by (simp add: majority_def)
qed

lemma near_majorities:
  assumes fin: "finite V" "finite W" and near: "card (V - W) + card (W - V) \<le> 1"
    and maj: "card V < 2 * card (V \<inter> Q)" "card W < 2 * card (W \<inter> R)"
  shows "Q \<inter> R \<noteq> {}"
proof
  assume d: "Q \<inter> R = {}"
  have "card (V \<inter> Q) + card (W \<inter> R) = card (V \<inter> Q \<union> W \<inter> R)"
    using fin d by (intro card_Un_disjoint [symmetric]) auto
  also have "\<dots> \<le> card (V \<union> W)" using fin by (intro card_mono) auto
  finally have sum: "card (V \<inter> Q) + card (W \<inter> R) \<le> card (V \<union> W)" .
  have "card (V \<union> W) = card V + card (W - V)" "card (V \<union> W) = card W + card (V - W)"
    using fin card_Un_disjoint [of V "W - V"] card_Un_disjoint [of W "V - W"] by (auto simp: Un_commute)
  then show False using sum near maj by linarith
qed

text \<open>
  C18. Quorums overlap across every configuration change: whenever a simple change, entering or
  leaving a joint configuration succeeds, every quorum of the old configuration and every quorum
  of the new one have a common voter, so that no two of them can decide differently.
\<close>

theorem conf_change_quorums:
  assumes ok: "conf_ok (tracked (chTracker c))" and k: "\<forall>cc \<in> set (changes_of chg). known cc"
    and r: "perform_change c chg = Some (Inr (cfg, prs))"
    and q: "joint_quorum (tVoters (chTracker c)) Q" "joint_quorum (cVoters cfg) R"
  shows "Q \<inter> R \<noteq> {}"
proof -
  let ?old = "tConfig (chTracker c)"
  have spec: "conf_ok (cfg, prs)" "change_spec ?old chg = Inr (members cfg, out cfg, cAutoLeave cfg)"
    using conf_change_result [OF ok k] r by auto
  have d: "distinct (ids (fst (cVoters ?old)))" "distinct (ids (snd (cVoters ?old)))" "distinct (ids (fst (cVoters cfg)))" "distinct (ids (snd (cVoters cfg)))"
    using ok spec(1) by (auto simp: conf_ok_def)
  have m: "card (inc ?old) < 2 * card (inc ?old \<inter> Q)" "card (inc cfg) < 2 * card (inc cfg \<inter> R)"
      "out ?old \<noteq> {} \<Longrightarrow> card (out ?old) < 2 * card (out ?old \<inter> Q)" "out cfg \<noteq> {} \<Longrightarrow> card (out cfg) < 2 * card (out cfg \<inter> R)"
    using q d by (auto simp: joint_quorum_iff majority_card)
  show ?thesis
  proof (cases chg)
    case (OpSimple ccs)
    then have "card (inc ?old - inc cfg) + card (inc cfg - inc ?old) \<le> 1"
      using spec(2) by (auto simp: simple_spec_def members_def split: if_splits sum.splits prod.splits)
    then show ?thesis using near_majorities [OF _ _ _ m(1,2)] by simp
  next
    case (OpEnterJoint a ccs)
    then have "out cfg = inc ?old" "out cfg \<noteq> {}" using spec(2) by (auto simp: Let_def split: if_splits)
    then show ?thesis using near_majorities [of "inc ?old" "inc ?old" Q R] m(1,4) by simp
  next
    case OpLeaveJoint
    then have "inc cfg = inc ?old" using spec(2) by (auto simp: members_def split: if_splits)
    then show ?thesis using near_majorities [of "inc ?old" "inc ?old" Q R] m(1,2) by simp
  qed
qed

text \<open>A tracker with one voter, for examples.\<close>

definition one_voter :: "nat \<Rightarrow> ProgressTracker" where
  "one_voter i = (MakeProgressTracker 4)\<lparr>tConfig := \<lparr>cVoters = (Some [i], None), cAutoLeave = False, cLearners = None, cLearnersNext = None\<rparr>,
     tProgress := [(i, \<lparr>prMatch = 0, prNext = 1, prState = StateProbe, prPendingSnapshot = 0, prRecentActive = True, prProbeSent = False,
       prInflights = NewInflights 4, prIsLearner = False\<rparr>)]\<rparr>"

lemma one_voter_ok: "conf_ok (tracked (one_voter i))"
  by (auto simp: conf_ok_def one_voter_def marked_def)

theorem conf_change_quorums_witness:
  "\<exists>cfg prs. perform_change \<lparr>chTracker = one_voter 1, chLastIndex = 1\<rparr> (OpSimple [\<lparr>csType = ConfChangeAddNode, csNodeID = 2\<rparr>]) = Some (Inr (cfg, prs))
     \<and> joint_quorum (tVoters (one_voter 1)) {1} \<and> joint_quorum (cVoters cfg) {1, 2} \<and> {1} \<inter> {1, 2} \<noteq> ({} :: nat set)"
proof -
  let ?c = "\<lparr>chTracker = one_voter 1, chLastIndex = 1\<rparr>" and ?o = "OpSimple [\<lparr>csType = ConfChangeAddNode, csNodeID = 2\<rparr>]"
  have ok: "conf_ok (tracked (chTracker ?c))" using one_voter_ok by simp
  have k: "\<forall>cc \<in> set (changes_of ?o). known cc" by (simp add: known_def)
  have spec: "change_spec (tConfig (chTracker ?c)) ?o = Inr (({1, 2}, {}, {}), {}, False)"
    by (auto simp: one_voter_def joint_def simple_spec_def members_def)
  from conf_change_result [OF ok k] obtain r where r: "perform_change ?c ?o = Some r"
    "case r of Inl err \<Rightarrow> change_spec (tConfig (chTracker ?c)) ?o = Inl err
     | Inr (cfg, prs) \<Rightarrow> conf_ok (cfg, prs) \<and> checkInvariants cfg prs = None
         \<and> change_spec (tConfig (chTracker ?c)) ?o = Inr (members cfg, out cfg, cAutoLeave cfg)" by blast
  then obtain cfg prs where c: "perform_change ?c ?o = Some (Inr (cfg, prs))" "conf_ok (cfg, prs)" "inc cfg = {1, 2}" "out cfg = {}"
    using spec by (cases r) (auto simp: members_def)
  have q: "joint_quorum (tVoters (chTracker ?c)) {1}" by (simp add: one_voter_def joint_quorum_iff majority_def)
  have q': "joint_quorum (cVoters cfg) {1, 2}"
  proof -
    have "distinct (ids (fst (cVoters cfg)))" using c(2) by (simp add: conf_ok_def)
    from majority_card [OF this, of "{1, 2}"] c(3,4) show ?thesis unfolding joint_quorum_iff by auto
  qed
  from conf_change_quorums [OF ok k c(1) q q'] c q q' show ?thesis by auto
qed

section \<open>Restoring a configuration\<close>

text \<open>A sequence of single changes of which each leaves a voter and changes at most one.\<close>

fun steps_ok :: "members \<Rightarrow> ConfChangeSingle list \<Rightarrow> bool" where
  "steps_ok m [] \<longleftrightarrow> True"
| "steps_ok m (cc # ccs) \<longleftrightarrow>
     (let m' = change {} cc m in
      known cc \<and> fst m' \<noteq> {} \<and> card (fst m - fst m') + card (fst m' - fst m) \<le> 1 \<and> steps_ok m' ccs)"

definition with_conf :: "Changer \<Rightarrow> conf \<Rightarrow> Changer" where
  "with_conf chg cp = chg\<lparr>chTracker := (chTracker chg)\<lparr>tConfig := fst cp, tProgress := snd cp\<rparr>\<rparr>"

lemma chain_simple:
  assumes "conf_ok (tracked (chTracker c))" and "snd (cVoters (tConfig (chTracker c))) = None" and "steps_ok (members (tConfig (chTracker c))) ccs"
  shows "\<exists>cp. chain c (map (\<lambda>cc chg. Simple chg [cc]) ccs @ fs) = chain (with_conf c cp) fs \<and> conf_ok cp
    \<and> snd (cVoters (fst cp)) = None \<and> (\<not> cAutoLeave (fst cp) \<or> ccs = [] \<and> fst cp = tConfig (chTracker c))
    \<and> members (fst cp) = fold (change {}) ccs (members (tConfig (chTracker c)))"
  using assms
proof (induction ccs arbitrary: c)
  case Nil
  have "with_conf c (tracked (chTracker c)) = c" by (simp add: with_conf_def)
  then show ?case using Nil by (intro exI [of _ "tracked (chTracker c)"]) simp
next
  case (Cons cc ccs)
  let ?m = "members (tConfig (chTracker c))" and ?n = "change {} cc (members (tConfig (chTracker c)))"
  have s: "known cc" "fst ?n \<noteq> {}" "card (fst ?m - fst ?n) + card (fst ?n - fst ?m) \<le> 1" "steps_ok ?n ccs"
    using Cons.prems(3) by (simp_all add: Let_def)
  have "\<not> joint (tConfig (chTracker c))" using Cons.prems(2) by (simp add: joint_def)
  from Simple_ok [OF Cons.prems(1) this, of "[cc]"] s(1)
  consider err where "simple_spec (tConfig (chTracker c)) [cc] = Inl err"
    | cfg prs where "Simple c [cc] = Some (Inr (cfg, prs))" "conf_ok (cfg, prs)" "snd (cVoters cfg) = None" "\<not> cAutoLeave cfg"
        "simple_spec (tConfig (chTracker c)) [cc] = Inr (members cfg)" by auto
  then show ?case
  proof cases
    case 1
    then show ?thesis using s(2,3) by (auto simp: simple_spec_def members_def split: prod.splits if_splits)
  next
    case 2
    have n: "members cfg = ?n" using 2(5) by (auto simp: simple_spec_def split: prod.splits if_splits)
    let ?c = "with_conf c (cfg, prs)"
    have w: "tConfig (chTracker ?c) = cfg" "tProgress (chTracker ?c) = prs" "with_conf ?c cp = with_conf c cp" for cp
      by (simp_all add: with_conf_def)
    obtain cp where cp: "chain ?c (map (\<lambda>cc chg. Simple chg [cc]) ccs @ fs) = chain (with_conf c cp) fs" "conf_ok cp"
        "snd (cVoters (fst cp)) = None" "\<not> cAutoLeave (fst cp) \<or> ccs = [] \<and> fst cp = cfg" "members (fst cp) = fold (change {}) ccs ?n"
      using Cons.IH [of ?c] 2(2,3) s(4) n w by auto
    have "chain c (map (\<lambda>cc chg. Simple chg [cc]) (cc # ccs) @ fs) = chain ?c (map (\<lambda>cc chg. Simple chg [cc]) ccs @ fs)"
      using 2(1) by (simp add: with_conf_def)
    then show ?thesis using cp 2(4) by (intro exI [of _ cp]) auto
  qed
qed

abbreviation each :: "ConfChangeType \<Rightarrow> nat list \<Rightarrow> ConfChangeSingle list" where
  "each t is \<equiv> map (\<lambda>i. \<lparr>csType = t, csNodeID = i\<rparr>) is"

text \<open>What a list of changes of one kind does.\<close>

lemma fold_each:
  assumes "0 \<notin> set is"
  shows "fold (change ou) (each ConfChangeAddNode is) (v, l, n) = (v \<union> set is, l - set is, n - set is)"
    and "fold (change ou) (each ConfChangeRemoveNode is) (v, l, n) = (v - set is, l - set is, n - set is)"
    and "set is \<inter> ou = {} \<Longrightarrow> fold (change ou) (each ConfChangeAddLearnerNode is) (v, l, n) = (v - set is, l \<union> set is, n)"
    and "set is \<subseteq> ou \<Longrightarrow> fold (change ou) (each ConfChangeAddLearnerNode is) (v, l, n) = (v - set is, l, n \<union> set is)"
  using assms by (induction "is" arbitrary: v l n) auto

lemma steps_add:
  assumes "0 \<notin> set is" and "steps_ok (v \<union> set is, l - set is, n - set is) ccs"
  shows "steps_ok (v, l, n) (each ConfChangeAddNode is @ ccs)"
  using assms
proof (induction "is" arbitrary: v l n)
  case (Cons i "is")
  have "card (v - insert i v) + card (insert i v - v) \<le> 1"
  proof -
    have "insert i v - v \<subseteq> {i}" by auto
    then have "card (insert i v - v) \<le> 1" using card_mono [of "{i}" "insert i v - v"] by simp
    moreover have "v - insert i v = {}" by blast
    then have "card (v - insert i v) = 0" by (simp only: card.empty)
    ultimately show ?thesis by linarith
  qed
  moreover have "insert i v \<union> set is = v \<union> set (i # is)" "l - {i} - set is = l - set (i # is)" "n - {i} - set is = n - set (i # is)" by auto
  ultimately show ?case using Cons.IH [of "insert i v" "l - {i}" "n - {i}"] Cons.prems by (simp add: known_def)
qed simp

lemma steps_learn:
  assumes "0 \<notin> set is" and "set is \<inter> v = {}" and "v \<noteq> {}"
  shows "steps_ok (v, l, n) (each ConfChangeAddLearnerNode is)"
  using assms by (induction "is" arbitrary: l) (auto simp: known_def)

lemma Slice_eq: "distinct (ids a) \<Longrightarrow> distinct (ids b) \<Longrightarrow> set (ids a) = set (ids b) \<Longrightarrow> Slice a = Slice b"
  by (simp add: Slice_def sorted_distinct_set_unique)

lemma set_Slice [simp]: "set (Slice a) = set (ids a)"
  by (simp add: Slice_def)

lemma Slice_Nil [simp]: "Slice a = [] \<longleftrightarrow> ids a = []"
  by (metis set_Slice set_empty)

lemma Restore_members:
  fixes k li :: nat
  assumes ok: "conf_ok (tracked t)" and v: "inc (tConfig t) \<noteq> {}" and z: "0 \<notin> dom (map_of (tProgress t))" and a: "cAutoLeave (tConfig t) \<longrightarrow> joint (tConfig t)"
  defines "c \<equiv> \<lparr>chTracker = MakeProgressTracker k, chLastIndex = li\<rparr>"
  shows "\<exists>cfg prs. Restore c (tConfState t) = Some (Inr (cfg, prs)) \<and> conf_ok (cfg, prs) \<and> members cfg = members (tConfig t)
    \<and> out cfg = out (tConfig t) \<and> cAutoLeave cfg = cAutoLeave (tConfig t)"
proof -
  let ?cfg = "tConfig t"
  have c: "conf_ok (tracked (chTracker c))" "snd (tVoters (chTracker c)) = None" "members (tConfig (chTracker c)) = ({}, {}, {})"
    by (simp_all add: c_def conf_ok_def MakeProgressTracker_def marked_def members_def)
  note o = ok [unfolded conf_ok_def Let_def prod.case]
  have zz: "0 \<notin> inc ?cfg" "0 \<notin> out ?cfg" "0 \<notin> lrn ?cfg" "0 \<notin> nxt ?cfg" using o z by auto
  let ?V = "Slice (fst (cVoters ?cfg))" and ?O = "Slice (snd (cVoters ?cfg))" and ?L = "Slice (cLearners ?cfg)" and ?N = "Slice (cLearnersNext ?cfg)"
  let ?in = "each ConfChangeRemoveNode ?O @ each ConfChangeAddNode ?V @ each ConfChangeAddLearnerNode ?L @ each ConfChangeAddLearnerNode ?N"
  have r: "Restore c (tConfState t) = (if ?O = [] then chain c (map (\<lambda>cc chg. Simple chg [cc]) ?in)
      else chain c (map (\<lambda>cc chg. Simple chg [cc]) (each ConfChangeAddNode ?O) @ [\<lambda>chg. Changer_EnterJoint chg (cAutoLeave ?cfg) ?in]))"
    by (simp add: Restore_def toConfChangeSingle_def tConfState_def Let_def)
  have lv: "lrn ?cfg - inc ?cfg = lrn ?cfg" "inc ?cfg - lrn ?cfg = inc ?cfg" "inc ?cfg - nxt ?cfg = inc ?cfg" "set ?L \<inter> out ?cfg = {}" "nxt ?cfg \<subseteq> out ?cfg" using o by auto
  show ?thesis
  proof (cases "out ?cfg = {}")
    case True
    then have n: "nxt ?cfg = {}" "\<not> cAutoLeave ?cfg" using o a by (auto simp: joint_out)
    have i: "?in = each ConfChangeAddNode ?V @ each ConfChangeAddLearnerNode ?L" using True n by (simp add: Slice_def)
    have st: "steps_ok (members (tConfig (chTracker c))) ?in"
      unfolding i c(3) by (rule steps_add [OF _ steps_learn]) (use zz lv(2) v in auto)
    have f: "fold (change {}) ?in (members (tConfig (chTracker c))) = members ?cfg"
      unfolding i c(3) using zz lv n by (simp add: fold_each members_def)
    obtain cp where cp: "chain c (map (\<lambda>cc chg. Simple chg [cc]) ?in) = chain (with_conf c cp) []" "conf_ok cp" "snd (cVoters (fst cp)) = None"
        "\<not> cAutoLeave (fst cp)" "members (fst cp) = members ?cfg"
      using chain_simple [OF c(1,2) st, of "[]"] f v unfolding i by auto
    have "chain (with_conf c cp) [] = Some (Inr cp)" by (simp add: with_conf_def)
    then show ?thesis using cp r True n by (cases cp) auto
  next
    case False
    have st: "steps_ok (members (tConfig (chTracker c))) (each ConfChangeAddNode ?O)"
      using steps_add [of ?O "{}" "{}" "{}" "[]"] zz c(3) by simp
    obtain cp where cp: "chain c (map (\<lambda>cc chg. Simple chg [cc]) (each ConfChangeAddNode ?O) @ [\<lambda>chg. Changer_EnterJoint chg (cAutoLeave ?cfg) ?in])
          = chain (with_conf c cp) [\<lambda>chg. Changer_EnterJoint chg (cAutoLeave ?cfg) ?in]" "conf_ok cp" "snd (cVoters (fst cp)) = None"
        "members (fst cp) = (out ?cfg, {}, {})"
      using chain_simple [OF c(1,2) st, of "[\<lambda>chg. Changer_EnterJoint chg (cAutoLeave ?cfg) ?in]"] zz c(3) by (auto simp: fold_each)
    let ?c = "with_conf c cp"
    have w: "tracked (chTracker ?c) = cp" by (simp add: with_conf_def)
    have inc: "inc (tConfig (chTracker ?c)) = out ?cfg" using cp(4) by (simp add: with_conf_def members_def)
    have kn: "\<forall>cc \<in> set ?in. known cc" by (auto simp: known_def)
    have f: "fold (change (inc (tConfig (chTracker ?c)))) ?in (members (tConfig (chTracker ?c))) = members ?cfg"
      using zz lv cp(4) inc by (simp add: fold_each with_conf_def members_def)
    have "\<not> joint (tConfig (chTracker ?c))" using cp(3) by (simp add: joint_def with_conf_def)
    from EnterJoint_ok [OF _ this _ kn, of "cAutoLeave ?cfg"] obtain cfg prs
      where e: "Changer_EnterJoint ?c (cAutoLeave ?cfg) ?in = Some (Inr (cfg, prs))" "conf_ok (cfg, prs)" "out cfg = out ?cfg"
        "cAutoLeave cfg = cAutoLeave ?cfg" "members cfg = members ?cfg"
      using cp(2) w inc False v unfolding f by (auto simp: members_def)
    have "chain ?c [\<lambda>chg. Changer_EnterJoint chg (cAutoLeave ?cfg) ?in] = Some (Inr (cfg, prs))" using e(1) by simp
    then show ?thesis using r cp(1) False e by auto
  qed
qed

text \<open>
  C20. Restoring a configuration: the description that a tracker gives of its configuration,
  joint or not, restored on an empty tracker succeeds and gives a configuration with the same
  description, which satisfies the invariant.
\<close>

theorem restore_conf_state:
  assumes "conf_ok (tracked t)" and "inc (tConfig t) \<noteq> {}" and "0 \<notin> dom (map_of (tProgress t))" and "cAutoLeave (tConfig t) \<longrightarrow> joint (tConfig t)"
  shows "\<exists>cfg prs. Restore \<lparr>chTracker = MakeProgressTracker k, chLastIndex = li\<rparr> (tConfState t) = Some (Inr (cfg, prs)) \<and> conf_ok (cfg, prs)
    \<and> tConfState (t\<lparr>tConfig := cfg, tProgress := prs\<rparr>) = tConfState t"
proof -
  obtain cfg prs where r: "Restore \<lparr>chTracker = MakeProgressTracker k, chLastIndex = li\<rparr> (tConfState t) = Some (Inr (cfg, prs))" "conf_ok (cfg, prs)"
      "members cfg = members (tConfig t)" "out cfg = out (tConfig t)" "cAutoLeave cfg = cAutoLeave (tConfig t)"
    using Restore_members [OF assms] by blast
  then have "tConfState (t\<lparr>tConfig := cfg, tProgress := prs\<rparr>) = tConfState t"
    using assms(1) by (auto simp: tConfState_def members_def conf_ok_def intro!: Slice_eq)
  then show ?thesis using r by blast
qed

theorem restore_conf_state_witness:
  "\<exists>cfg prs. Restore \<lparr>chTracker = MakeProgressTracker 4, chLastIndex = 9\<rparr> (tConfState (one_voter 3)) = Some (Inr (cfg, prs)) \<and> conf_ok (cfg, prs)
     \<and> csVoters (tConfState ((one_voter 3)\<lparr>tConfig := cfg, tProgress := prs\<rparr>)) = [3]"
proof -
  have "csVoters (tConfState (one_voter 3)) = [3]" by (simp add: tConfState_def one_voter_def Slice_def)
  then show ?thesis using restore_conf_state [OF one_voter_ok, of 3 4 9] by (auto simp: one_voter_def)
qed

end
