(* ===== verification/Raft_Storage.thy ===== *)
theory Raft_Storage
  imports Raft_Types
begin

text \<open>
  The storage of stable log entries, \<open>src/etcd/raft/storage.go\<close>: the interface \<open>Storage\<close> in its
  implementation \<open>MemoryStorage\<close>, which the server uses. The first element of \<open>ents\<close> is a
  placeholder with the index and the term of the last entry that was compacted. Each operation
  runs under the mutex of the storage and is one step; the call counters, which only tests read, are
  left out.
\<close>

section \<open>The operations\<close>

datatype StorageErr = ErrCompacted | ErrUnavailable | ErrSnapOutOfDate | ErrSnapshotTemporarilyUnavailable

record MemoryStorage =
  msHardState :: HardState
  msSnapshot :: Snapshot
  msEnts :: "Entry list"

definition NewMemoryStorage :: MemoryStorage where
  "NewMemoryStorage = \<lparr>msHardState = emptyState, msSnapshot = emptySnapshot, msEnts = [emptyEntry]\<rparr>"

definition InitialState :: "MemoryStorage \<Rightarrow> HardState \<times> ConfState" where
  "InitialState ms = (msHardState ms, smConfState (snMetadata (msSnapshot ms)))"

definition SetHardState :: "MemoryStorage \<Rightarrow> HardState \<Rightarrow> MemoryStorage" where
  "SetHardState ms st = ms\<lparr>msHardState := st\<rparr>"

definition LastIndex :: "MemoryStorage \<Rightarrow> nat option" where
  "LastIndex ms = do { e0 \<leftarrow> nth_opt (msEnts ms) 0; Some (eIndex e0 + length (msEnts ms) - 1) }"

definition FirstIndex :: "MemoryStorage \<Rightarrow> nat option" where
  "FirstIndex ms = do { e0 \<leftarrow> nth_opt (msEnts ms) 0; Some (eIndex e0 + 1) }"

text \<open>\<open>xs[a:b]\<close>, which panics out of range.\<close>

definition go_slice :: "'a list \<Rightarrow> nat \<Rightarrow> nat \<Rightarrow> 'a list option" where
  "go_slice xs a b = (if a \<le> b \<and> b \<le> length xs then Some (take (b - a) (drop a xs)) else None)"

definition Entries :: "MemoryStorage \<Rightarrow> nat \<Rightarrow> nat \<Rightarrow> nat \<Rightarrow> (StorageErr + Entry list) option" where
  "Entries ms lo hi maxSize = do {
     e0 \<leftarrow> nth_opt (msEnts ms) 0;
     let offset = eIndex e0;
     if lo \<le> offset then Some (Inl ErrCompacted)
     else do {
       last \<leftarrow> LastIndex ms;
       if hi > last + 1 then None
       else if length (msEnts ms) = 1 then Some (Inl ErrUnavailable)
       else map_option (\<lambda>ents. Inr (limitSize ents maxSize)) (go_slice (msEnts ms) (sub64 lo offset) (sub64 hi offset)) } }"

definition Term :: "MemoryStorage \<Rightarrow> nat \<Rightarrow> (StorageErr + nat) option" where
  "Term ms i = do {
     e0 \<leftarrow> nth_opt (msEnts ms) 0;
     let offset = eIndex e0;
     if i < offset then Some (Inl ErrCompacted)
     else if wrap64 (int (i - offset)) \<ge> int (length (msEnts ms)) then Some (Inl ErrUnavailable)
     else map_option (\<lambda>e. Inr (eTerm e)) (nth_opt (msEnts ms) (i - offset)) }"

definition storage_Snapshot :: "MemoryStorage \<Rightarrow> StorageErr + Snapshot" where
  "storage_Snapshot ms = Inr (msSnapshot ms)"

definition ApplySnapshot :: "MemoryStorage \<Rightarrow> Snapshot \<Rightarrow> StorageErr + MemoryStorage" where
  "ApplySnapshot ms snap =
     (if snIndex (msSnapshot ms) \<ge> snIndex snap then Inl ErrSnapOutOfDate
      else Inr (ms\<lparr>msSnapshot := snap, msEnts := [emptyEntry\<lparr>eTerm := snTerm snap, eIndex := snIndex snap\<rparr>]\<rparr>))"

definition CreateSnapshot :: "MemoryStorage \<Rightarrow> nat \<Rightarrow> ConfState option \<Rightarrow> slice \<Rightarrow> (StorageErr + MemoryStorage \<times> Snapshot) option" where
  "CreateSnapshot ms i cs d =
     (if i \<le> snIndex (msSnapshot ms) then Some (Inl ErrSnapOutOfDate)
      else do {
        e0 \<leftarrow> nth_opt (msEnts ms) 0;
        last \<leftarrow> LastIndex ms;
        if i > last then None
        else do {
          e \<leftarrow> nth_opt (msEnts ms) (sub64 i (eIndex e0));
          let md = (snMetadata (msSnapshot ms))\<lparr>smIndex := i, smTerm := eTerm e\<rparr>;
          let md = (case cs of None \<Rightarrow> md | Some cs \<Rightarrow> md\<lparr>smConfState := cs\<rparr>);
          let snap = \<lparr>snData = d, snMetadata = md\<rparr>;
          Some (Inr (ms\<lparr>msSnapshot := snap\<rparr>, snap)) } })"

definition Compact :: "MemoryStorage \<Rightarrow> nat \<Rightarrow> (StorageErr + MemoryStorage) option" where
  "Compact ms compactIndex = do {
     e0 \<leftarrow> nth_opt (msEnts ms) 0;
     let offset = eIndex e0;
     if compactIndex \<le> offset then Some (Inl ErrCompacted)
     else do {
       last \<leftarrow> LastIndex ms;
       if compactIndex > last then None
       else do {
         let i = compactIndex - offset;
         e \<leftarrow> nth_opt (msEnts ms) i;
         Some (Inr (ms\<lparr>msEnts := emptyEntry\<lparr>eIndex := eIndex e, eTerm := eTerm e\<rparr> # drop (i + 1) (msEnts ms)\<rparr>)) } } }"

definition storage_Append :: "MemoryStorage \<Rightarrow> Entry list \<Rightarrow> MemoryStorage option" where
  "storage_Append ms entries =
     (case entries of [] \<Rightarrow> Some ms
      | e1 # _ \<Rightarrow> do {
          first \<leftarrow> FirstIndex ms;
          let last = eIndex e1 + length entries - 1;
          if last < first then Some ms
          else do {
            let entries = (if first > eIndex e1 then drop (first - eIndex e1) entries else entries);
            e1 \<leftarrow> nth_opt entries 0;
            e0 \<leftarrow> nth_opt (msEnts ms) 0;
            let offset = sub64 (eIndex e1) (eIndex e0);
            if length (msEnts ms) > offset then Some (ms\<lparr>msEnts := take offset (msEnts ms) @ entries\<rparr>)
            else if length (msEnts ms) = offset then Some (ms\<lparr>msEnts := msEnts ms @ entries\<rparr>)
            else None } })"

section \<open>Contiguous entries\<close>

text \<open>The entries of a log have consecutive indices, from \<open>b\<close> on.\<close>

fun contig :: "nat \<Rightarrow> Entry list \<Rightarrow> bool" where
  "contig b [] \<longleftrightarrow> True"
| "contig b (e # es) \<longleftrightarrow> eIndex e = b \<and> contig (Suc b) es"

lemma contig_nth: "contig b es \<longleftrightarrow> (\<forall>k < length es. eIndex (es ! k) = b + k)"
  by (induction b es rule: contig.induct) (auto simp: less_Suc_eq_0_disj)

lemma contig_append [simp]: "contig b (es @ fs) \<longleftrightarrow> contig b es \<and> contig (b + length es) fs"
  by (induction b es rule: contig.induct) auto

lemma contig_take [simp]: "contig b es \<Longrightarrow> contig b (take k es)"
  by (simp add: contig_nth)

lemma contig_drop [simp]: "contig b es \<Longrightarrow> k \<le> length es \<Longrightarrow> contig (b + k) (drop k es)"
  by (auto simp: contig_nth add.assoc)

lemma contig_last: "contig b es \<Longrightarrow> es \<noteq> [] \<Longrightarrow> Suc (eIndex (last es)) = b + length es"
  by (induction b es rule: contig.induct) auto

section \<open>The storage as a log\<close>

text \<open>
  The base of a storage is the index of its placeholder; the entries after it have consecutive
  indices. The length of the log is below \<open>2 ^ 63\<close>, as that of any Go slice.
\<close>

definition ms_base :: "MemoryStorage \<Rightarrow> nat" where
  "ms_base ms = eIndex ((msEnts ms ! 0))"

definition ms_log :: "MemoryStorage \<Rightarrow> Entry list" where
  "ms_log ms = tl (msEnts ms)"

definition ms_ok :: "MemoryStorage \<Rightarrow> bool" where
  "ms_ok ms \<longleftrightarrow> msEnts ms \<noteq> [] \<and> contig (Suc (ms_base ms)) (ms_log ms)"

definition ms_last :: "MemoryStorage \<Rightarrow> nat" where
  "ms_last ms = ms_base ms + length (ms_log ms)"

lemma ms_ents: "ms_ok ms \<Longrightarrow> msEnts ms = msEnts ms ! 0 # ms_log ms"
  by (cases "msEnts ms") (simp_all add: ms_ok_def ms_log_def)

lemma ms_ok_New: "ms_ok NewMemoryStorage"
  by (simp add: ms_ok_def NewMemoryStorage_def ms_log_def)

lemma ms_e0: "ms_ok ms \<Longrightarrow> nth_opt (msEnts ms) 0 = Some ((msEnts ms ! 0))"
  by (simp add: ms_ok_def nth_opt_def)

lemma LastIndex_ok: "ms_ok ms \<Longrightarrow> LastIndex ms = Some (ms_last ms)"
  by (simp add: LastIndex_def ms_e0 ms_last_def ms_base_def) (cases "msEnts ms"; simp add: ms_log_def ms_ok_def)

lemma FirstIndex_ok: "ms_ok ms \<Longrightarrow> FirstIndex ms = Some (Suc (ms_base ms))"
  by (simp add: FirstIndex_def ms_e0 ms_base_def)

text \<open>The term at an index from the base to the last entry.\<close>

definition ms_term :: "MemoryStorage \<Rightarrow> nat \<Rightarrow> nat" where
  "ms_term ms i = eTerm (msEnts ms ! (i - ms_base ms))"

lemma Term_ok:
  assumes "ms_ok ms" and "ms_base ms \<le> i" and "i \<le> ms_last ms" and "length (msEnts ms) < 2 ^ 63"
  shows "Term ms i = Some (Inr (ms_term ms i))"
proof -
  have "length (msEnts ms) = Suc (length (ms_log ms))" using assms(1) by (simp add: ms_ok_def ms_log_def)
  then have "i - ms_base ms < length (msEnts ms)" using assms(2,3) by (simp add: ms_last_def)
  moreover have "wrap64 (int (i - ms_base ms)) = int (i - ms_base ms)"
    using assms(4) calculation by (intro wrap64_id) (simp add: in64_def)
  ultimately show ?thesis using assms(2) by (simp add: Term_def ms_e0 [OF assms(1)] ms_base_def [symmetric] ms_term_def Let_def)
qed

lemma Entries_ok:
  assumes "ms_ok ms" and "ms_base ms < lo" and "lo \<le> hi" and "hi \<le> Suc (ms_last ms)" and "lo < hi"
  shows "Entries ms lo hi mx = Some (Inr (limitSize (take (hi - lo) (drop (lo - Suc (ms_base ms)) (ms_log ms))) mx))"
proof -
  have l: "length (msEnts ms) = Suc (length (ms_log ms))" using assms(1) by (simp add: ms_ok_def ms_log_def)
  have "drop (lo - ms_base ms) (msEnts ms) = drop (lo - Suc (ms_base ms)) (ms_log ms)"
    using assms(2) by (subst ms_ents [OF assms(1)]) (simp add: Suc_diff_Suc [symmetric])
  then show ?thesis using assms l
    by (auto simp: Entries_def ms_e0 LastIndex_ok ms_base_def [symmetric] ms_last_def go_slice_def Let_def)
qed

text \<open>Appending replaces the log from the first new entry on; entries at or below the base are skipped.\<close>

lemma storage_Append_ok:
  assumes ok: "ms_ok ms" and c: "contig b es" and b: "ms_base ms < b" "b \<le> Suc (ms_last ms)" and ne: "es \<noteq> []"
  shows "storage_Append ms es = Some (ms\<lparr>msEnts := (msEnts ms ! 0) # take (b - Suc (ms_base ms)) (ms_log ms) @ es\<rparr>)"
proof -
  obtain e1 es' where es: "es = e1 # es'" "eIndex e1 = b" using ne c by (cases es) auto
  have l: "length (msEnts ms) = Suc (length (ms_log ms))" using ok by (simp add: ms_ok_def ms_log_def)
  have t: "take (b - ms_base ms) (msEnts ms) = (msEnts ms ! 0) # take (b - Suc (ms_base ms)) (ms_log ms)"
    using b(1) by (subst ms_ents [OF ok]) (simp add: Suc_diff_Suc [symmetric])
  have "length (msEnts ms) = b - ms_base ms \<Longrightarrow> msEnts ms = (msEnts ms ! 0) # take (b - Suc (ms_base ms)) (ms_log ms)"
    using t by (metis take_all order_refl)
  then show ?thesis using b l t es
    by (auto simp: storage_Append_def FirstIndex_ok [OF ok] ms_e0 [OF ok] Let_def ms_base_def [symmetric] ms_last_def)
qed

lemma Compact_ok:
  assumes ok: "ms_ok ms" and i: "ms_base ms < i" "i \<le> ms_last ms"
  shows "\<exists>ms'. Compact ms i = Some (Inr ms') \<and> ms_ok ms' \<and> ms_base ms' = i \<and> ms_last ms' = ms_last ms
    \<and> ms_log ms' = drop (i - ms_base ms) (ms_log ms) \<and> ms_term ms' i = ms_term ms i
    \<and> msHardState ms' = msHardState ms \<and> msSnapshot ms' = msSnapshot ms"
proof -
  let ?k = "i - ms_base ms"
  have l: "length (msEnts ms) = Suc (length (ms_log ms))" using ok by (simp add: ms_ok_def ms_log_def)
  have k: "?k < length (msEnts ms)" "0 < ?k" using i l by (auto simp: ms_last_def)
  have e: "eIndex (msEnts ms ! ?k) = i"
  proof -
    have "msEnts ms ! ?k = ms_log ms ! (?k - 1)" using k by (subst ms_ents [OF ok]) (simp add: nth_Cons')
    then show ?thesis using ok k l i by (auto simp: ms_ok_def contig_nth)
  qed
  let ?ms = "ms\<lparr>msEnts := emptyEntry\<lparr>eIndex := i, eTerm := eTerm (msEnts ms ! ?k)\<rparr> # drop (Suc ?k) (msEnts ms)\<rparr>"
  have "Compact ms i = Some (Inr ?ms)"
    using i k e by (simp add: Compact_def ms_e0 [OF ok] LastIndex_ok [OF ok] ms_base_def [symmetric] Let_def)
  moreover have "drop (Suc ?k) (msEnts ms) = drop ?k (ms_log ms)" by (subst ms_ents [OF ok]) simp
  moreover have "contig (Suc i) (drop ?k (ms_log ms))"
    using contig_drop [of "Suc (ms_base ms)" "ms_log ms" ?k] ok i by (simp add: ms_ok_def ms_last_def)
  ultimately show ?thesis using i by (simp add: ms_ok_def ms_base_def ms_log_def ms_last_def ms_term_def)
qed

end
