(* ===== verification/Raft_Log.thy ===== *)
theory Raft_Log
  imports Raft_Storage
begin

text \<open>
  The log of a raft node: the part that is not yet written to stable storage
  (\<open>src/etcd/raft/log_unstable.go\<close>) and the whole log on top of the storage
  (\<open>src/etcd/raft/log.go\<close>). The capacity of slices, on which \<open>shrinkEntriesArray\<close> works, is not
  modelled; it has no effect on the entries.
\<close>

section \<open>Unstable entries\<close>

record unstable =
  uSnapshot :: "Snapshot option"
  uEntries :: "Entry list"
  uOffset :: nat

definition maybeFirstIndex :: "unstable \<Rightarrow> nat option" where
  "maybeFirstIndex u = map_option (\<lambda>s. snIndex s + 1) (uSnapshot u)"

definition maybeLastIndex :: "unstable \<Rightarrow> nat option" where
  "maybeLastIndex u =
     (if length (uEntries u) \<noteq> 0 then Some (uOffset u + length (uEntries u) - 1) else map_option snIndex (uSnapshot u))"

text \<open>The inner option is the second result \<open>ok\<close>; the outer one is a panic.\<close>

definition maybeTerm :: "unstable \<Rightarrow> nat \<Rightarrow> nat option option" where
  "maybeTerm u i =
     (if i < uOffset u then
        (case uSnapshot u of None \<Rightarrow> Some None | Some s \<Rightarrow> Some (if snIndex s = i then Some (snTerm s) else None))
      else case maybeLastIndex u of None \<Rightarrow> Some None
        | Some li \<Rightarrow>
            if i > li then Some None
            else map_option (\<lambda>e. Some (eTerm e)) (nth_opt (uEntries u) (i - uOffset u)))"

definition unstable_stableTo :: "unstable \<Rightarrow> nat \<Rightarrow> nat \<Rightarrow> unstable option" where
  "unstable_stableTo u i t = do {
     gt \<leftarrow> maybeTerm u i;
     case gt of None \<Rightarrow> Some u
     | Some gt \<Rightarrow>
         if gt = t \<and> i \<ge> uOffset u then
           if i + 1 - uOffset u \<le> length (uEntries u)
           then Some (u\<lparr>uEntries := drop (i + 1 - uOffset u) (uEntries u), uOffset := i + 1\<rparr>)
           else None
         else Some u }"

definition unstable_stableSnapTo :: "unstable \<Rightarrow> nat \<Rightarrow> unstable" where
  "unstable_stableSnapTo u i =
     (case uSnapshot u of None \<Rightarrow> u | Some s \<Rightarrow> if snIndex s = i then u\<lparr>uSnapshot := None\<rparr> else u)"

definition unstable_restore :: "unstable \<Rightarrow> Snapshot \<Rightarrow> unstable" where
  "unstable_restore u s = u\<lparr>uOffset := snIndex s + 1, uEntries := [], uSnapshot := Some s\<rparr>"

definition unstable_mustCheckOutOfBounds :: "unstable \<Rightarrow> nat \<Rightarrow> nat \<Rightarrow> bool" where
  "unstable_mustCheckOutOfBounds u lo hi \<longleftrightarrow>
     \<not> lo > hi \<and> \<not> (lo < uOffset u \<or> hi > uOffset u + length (uEntries u))"

definition unstable_slice :: "unstable \<Rightarrow> nat \<Rightarrow> nat \<Rightarrow> Entry list option" where
  "unstable_slice u lo hi =
     (if unstable_mustCheckOutOfBounds u lo hi then go_slice (uEntries u) (lo - uOffset u) (hi - uOffset u) else None)"

definition truncateAndAppend :: "unstable \<Rightarrow> Entry list \<Rightarrow> unstable option" where
  "truncateAndAppend u ents = do {
     e \<leftarrow> nth_opt ents 0;
     let after = eIndex e;
     if after = uOffset u + length (uEntries u) then Some (u\<lparr>uEntries := uEntries u @ ents\<rparr>)
     else if after \<le> uOffset u then Some (u\<lparr>uOffset := after, uEntries := ents\<rparr>)
     else do {
       keep \<leftarrow> unstable_slice u (uOffset u) after;
       Some (u\<lparr>uEntries := keep @ ents\<rparr>) } }"

section \<open>The log\<close>

record raftLog =
  lStorage :: MemoryStorage
  lUnstable :: unstable
  lCommitted :: nat
  lApplied :: nat
  lMaxNextEntsSize :: nat

definition noLimit :: nat where "noLimit = MaxUint64"

definition newLogWithSize :: "MemoryStorage \<Rightarrow> nat \<Rightarrow> raftLog option" where
  "newLogWithSize st maxNextEntsSize = do {
     firstIndex \<leftarrow> FirstIndex st;
     lastIndex \<leftarrow> LastIndex st;
     Some \<lparr>lStorage = st, lUnstable = \<lparr>uSnapshot = None, uEntries = [], uOffset = lastIndex + 1\<rparr>,
       lCommitted = firstIndex - 1, lApplied = firstIndex - 1, lMaxNextEntsSize = maxNextEntsSize\<rparr> }"

definition newLog :: "MemoryStorage \<Rightarrow> raftLog option" where
  "newLog st = newLogWithSize st noLimit"

definition log_firstIndex :: "raftLog \<Rightarrow> nat option" where
  "log_firstIndex l = (case maybeFirstIndex (lUnstable l) of Some i \<Rightarrow> Some i | None \<Rightarrow> FirstIndex (lStorage l))"

definition log_lastIndex :: "raftLog \<Rightarrow> nat option" where
  "log_lastIndex l = (case maybeLastIndex (lUnstable l) of Some i \<Rightarrow> Some i | None \<Rightarrow> LastIndex (lStorage l))"

definition log_term :: "raftLog \<Rightarrow> nat \<Rightarrow> (StorageErr + nat) option" where
  "log_term l i = do {
     fi \<leftarrow> log_firstIndex l;
     last \<leftarrow> log_lastIndex l;
     if i < sub64 fi 1 \<or> i > last then Some (Inr 0)
     else do {
       t \<leftarrow> maybeTerm (lUnstable l) i;
       case t of Some t \<Rightarrow> Some (Inr t)
       | None \<Rightarrow> do {
           r \<leftarrow> Term (lStorage l) i;
           case r of Inr t \<Rightarrow> Some (Inr t)
           | Inl err \<Rightarrow> if err = ErrCompacted \<or> err = ErrUnavailable then Some (Inl err) else None } } }"

definition zeroTermOnErrCompacted :: "StorageErr + nat \<Rightarrow> nat option" where
  "zeroTermOnErrCompacted r = (case r of Inr t \<Rightarrow> Some t | Inl err \<Rightarrow> if err = ErrCompacted then Some 0 else None)"

definition matchTerm :: "raftLog \<Rightarrow> nat \<Rightarrow> nat \<Rightarrow> bool option" where
  "matchTerm l i t = do { r \<leftarrow> log_term l i; Some (case r of Inl _ \<Rightarrow> False | Inr t' \<Rightarrow> t' = t) }"

definition lastTerm :: "raftLog \<Rightarrow> nat option" where
  "lastTerm l = do {
     last \<leftarrow> log_lastIndex l;
     r \<leftarrow> log_term l last;
     case r of Inl _ \<Rightarrow> None | Inr t \<Rightarrow> Some t }"

text \<open>A conflict below the last index is logged with the term found there, which is looked up once more.\<close>

fun findConflict :: "raftLog \<Rightarrow> Entry list \<Rightarrow> nat option" where
  "findConflict l [] = Some 0"
| "findConflict l (ne # ents) = do {
     m \<leftarrow> matchTerm l (eIndex ne) (eTerm ne);
     if \<not> m then do {
       last \<leftarrow> log_lastIndex l;
       _ \<leftarrow> (if eIndex ne \<le> last then do { r \<leftarrow> log_term l (eIndex ne); zeroTermOnErrCompacted r } else Some 0);
       Some (eIndex ne) }
     else findConflict l ents }"

text \<open>
  The loop goes down while the term is larger. At index 0 it would wrap around to the largest
  index, which is behind the end of any log, where the term reads as zero.
\<close>

fun conflict_loop :: "raftLog \<Rightarrow> nat \<Rightarrow> nat \<Rightarrow> nat option" where
  "conflict_loop l t i = do {
     r \<leftarrow> log_term l i;
     case r of Inl _ \<Rightarrow> Some i
     | Inr logTerm \<Rightarrow> if logTerm \<le> t then Some i else (case i of 0 \<Rightarrow> Some MaxUint64 | Suc i \<Rightarrow> conflict_loop l t i) }"

declare conflict_loop.simps [simp del]

definition findConflictByTerm :: "raftLog \<Rightarrow> nat \<Rightarrow> nat \<Rightarrow> nat option" where
  "findConflictByTerm l index t = do {
     li \<leftarrow> log_lastIndex l;
     if index > li then Some index else conflict_loop l t index }"

definition commitTo :: "raftLog \<Rightarrow> nat \<Rightarrow> raftLog option" where
  "commitTo l tocommit =
     (if lCommitted l < tocommit then do {
        last \<leftarrow> log_lastIndex l;
        if last < tocommit then None else Some (l\<lparr>lCommitted := tocommit\<rparr>) }
      else Some l)"

definition log_append :: "raftLog \<Rightarrow> Entry list \<Rightarrow> (raftLog \<times> nat) option" where
  "log_append l ents =
     (case ents of [] \<Rightarrow> map_option (\<lambda>i. (l, i)) (log_lastIndex l)
      | e # _ \<Rightarrow>
          if sub64 (eIndex e) 1 < lCommitted l then None
          else do {
            u \<leftarrow> truncateAndAppend (lUnstable l) ents;
            let l = l\<lparr>lUnstable := u\<rparr>;
            i \<leftarrow> log_lastIndex l;
            Some (l, i) })"

definition maybeAppend :: "raftLog \<Rightarrow> nat \<Rightarrow> nat \<Rightarrow> nat \<Rightarrow> Entry list \<Rightarrow> (raftLog \<times> nat \<times> bool) option" where
  "maybeAppend l index logTerm committed ents = do {
     m \<leftarrow> matchTerm l index logTerm;
     if m then do {
       let lastnewi = index + length ents;
       ci \<leftarrow> findConflict l ents;
       l \<leftarrow> (if ci = 0 then Some l
             else if ci \<le> lCommitted l then None
             else do {
               let offset = index + 1;
               if sub64 ci offset > length ents then None
               else map_option fst (log_append l (drop (sub64 ci offset) ents)) });
       l \<leftarrow> commitTo l (min committed lastnewi);
       Some (l, lastnewi, True) }
     else Some (l, 0, False) }"

definition unstableEntries :: "raftLog \<Rightarrow> Entry list" where
  "unstableEntries l = uEntries (lUnstable l)"

definition mustCheckOutOfBounds :: "raftLog \<Rightarrow> nat \<Rightarrow> nat \<Rightarrow> StorageErr option option" where
  "mustCheckOutOfBounds l lo hi =
     (if lo > hi then None
      else do {
        fi \<leftarrow> log_firstIndex l;
        if lo < fi then Some (Some ErrCompacted)
        else do {
          last \<leftarrow> log_lastIndex l;
          if hi > fi + sub64 (last + 1) fi then None else Some None } })"

definition log_slice :: "raftLog \<Rightarrow> nat \<Rightarrow> nat \<Rightarrow> nat \<Rightarrow> (StorageErr + Entry list) option" where
  "log_slice l lo hi maxSize = do {
     err \<leftarrow> mustCheckOutOfBounds l lo hi;
     case err of Some err \<Rightarrow> Some (Inl err)
     | None \<Rightarrow>
         if lo = hi then Some (Inr [])
         else do {
           let off = uOffset (lUnstable l);
           stored \<leftarrow> (if lo < off then do {
               r \<leftarrow> Entries (lStorage l) lo (min hi off) maxSize;
               case r of
                 Inl err \<Rightarrow> if err = ErrCompacted then Some (Inl (Inl err)) else None
               | Inr ents \<Rightarrow> Some (if length ents < min hi off - lo then Inl (Inr ents) else Inr ents) }
             else Some (Inr []));
           case stored of Inl r \<Rightarrow> Some r
           | Inr ents \<Rightarrow> do {
               ents \<leftarrow> (if hi > off then map_option (\<lambda>us. ents @ us) (unstable_slice (lUnstable l) (max lo off) hi) else Some ents);
               Some (Inr (limitSize ents maxSize)) } } }"

definition log_entries :: "raftLog \<Rightarrow> nat \<Rightarrow> nat \<Rightarrow> (StorageErr + Entry list) option" where
  "log_entries l i maxsize = do {
     last \<leftarrow> log_lastIndex l;
     if i > last then Some (Inr []) else log_slice l i (last + 1) maxsize }"

text \<open>The call is repeated while the storage reports a compaction.\<close>

partial_function (option) allEntries :: "raftLog \<Rightarrow> Entry list option" where
  "allEntries l = do {
     fi \<leftarrow> log_firstIndex l;
     r \<leftarrow> log_entries l fi noLimit;
     case r of Inr ents \<Rightarrow> Some ents | Inl err \<Rightarrow> if err = ErrCompacted then allEntries l else None }"

definition nextEnts :: "raftLog \<Rightarrow> Entry list option" where
  "nextEnts l = do {
     fi \<leftarrow> log_firstIndex l;
     let off = max (lApplied l + 1) fi;
     if lCommitted l + 1 > off then do {
       r \<leftarrow> log_slice l off (lCommitted l + 1) (lMaxNextEntsSize l);
       case r of Inl _ \<Rightarrow> None | Inr ents \<Rightarrow> Some ents }
     else Some [] }"

definition hasNextEnts :: "raftLog \<Rightarrow> bool option" where
  "hasNextEnts l = do { fi \<leftarrow> log_firstIndex l; Some (lCommitted l + 1 > max (lApplied l + 1) fi) }"

definition hasPendingSnapshot :: "raftLog \<Rightarrow> bool" where
  "hasPendingSnapshot l = (case uSnapshot (lUnstable l) of None \<Rightarrow> False | Some s \<Rightarrow> \<not> IsEmptySnap s)"

definition log_snapshot :: "raftLog \<Rightarrow> StorageErr + Snapshot" where
  "log_snapshot l = (case uSnapshot (lUnstable l) of Some s \<Rightarrow> Inr s | None \<Rightarrow> storage_Snapshot (lStorage l))"

definition appliedTo :: "raftLog \<Rightarrow> nat \<Rightarrow> raftLog option" where
  "appliedTo l i =
     (if i = 0 then Some l
      else if lCommitted l < i \<or> i < lApplied l then None
      else Some (l\<lparr>lApplied := i\<rparr>))"

definition stableTo :: "raftLog \<Rightarrow> nat \<Rightarrow> nat \<Rightarrow> raftLog option" where
  "stableTo l i t = map_option (\<lambda>u. l\<lparr>lUnstable := u\<rparr>) (unstable_stableTo (lUnstable l) i t)"

definition stableSnapTo :: "raftLog \<Rightarrow> nat \<Rightarrow> raftLog" where
  "stableSnapTo l i = l\<lparr>lUnstable := unstable_stableSnapTo (lUnstable l) i\<rparr>"

definition isUpToDate :: "raftLog \<Rightarrow> nat \<Rightarrow> nat \<Rightarrow> bool option" where
  "isUpToDate l lasti t = do {
     lt \<leftarrow> lastTerm l;
     last \<leftarrow> log_lastIndex l;
     Some (t > lt \<or> (t = lt \<and> lasti \<ge> last)) }"

definition maybeCommit :: "raftLog \<Rightarrow> nat \<Rightarrow> nat \<Rightarrow> (raftLog \<times> bool) option" where
  "maybeCommit l maxIndex t =
     (if maxIndex > lCommitted l then do {
        r \<leftarrow> log_term l maxIndex;
        z \<leftarrow> zeroTermOnErrCompacted r;
        if z = t then map_option (\<lambda>l. (l, True)) (commitTo l maxIndex) else Some (l, False) }
      else Some (l, False))"

definition log_restore :: "raftLog \<Rightarrow> Snapshot \<Rightarrow> raftLog" where
  "log_restore l s = l\<lparr>lCommitted := snIndex s, lUnstable := unstable_restore (lUnstable l) s\<rparr>"

section \<open>The log as one sequence of entries\<close>

text \<open>
  The base of the log is the index before its first entry. The entries between the base and the
  offset of the unstable entries are in the storage.
\<close>

definition log_base :: "raftLog \<Rightarrow> nat" where
  "log_base l = (case uSnapshot (lUnstable l) of Some s \<Rightarrow> snIndex s | None \<Rightarrow> ms_base (lStorage l))"

definition base_term :: "raftLog \<Rightarrow> nat" where
  "base_term l = (case uSnapshot (lUnstable l) of Some s \<Rightarrow> snTerm s | None \<Rightarrow> ms_term (lStorage l) (ms_base (lStorage l)))"

definition stored :: "raftLog \<Rightarrow> Entry list" where
  "stored l = take (uOffset (lUnstable l) - Suc (log_base l)) (drop (log_base l - ms_base (lStorage l)) (ms_log (lStorage l)))"

definition log_ents :: "raftLog \<Rightarrow> Entry list" where
  "log_ents l = stored l @ uEntries (lUnstable l)"

definition log_last :: "raftLog \<Rightarrow> nat" where
  "log_last l = log_base l + length (log_ents l)"

definition term_at :: "raftLog \<Rightarrow> nat \<Rightarrow> nat" where
  "term_at l i = (if i = log_base l then base_term l else eTerm (log_ents l ! (i - Suc (log_base l))))"

text \<open>
  The unstable entries continue the stored ones; where there are none, the storage or the pending
  snapshot ends the log. The commit index lies in the log and is not behind the applied index.
\<close>

definition shape_ok :: "raftLog \<Rightarrow> bool" where
  "shape_ok l \<longleftrightarrow>
     (let u = lUnstable l; st = lStorage l in
      ms_ok st \<and> length (msEnts st) < 2 ^ 63 \<and> contig (uOffset u) (uEntries u) \<and> log_base l < uOffset u
      \<and> (Suc (log_base l) = uOffset u \<or> ms_base st \<le> log_base l \<and> uOffset u \<le> Suc (ms_last st))
      \<and> (uEntries u = [] \<longrightarrow> uOffset u = Suc (case uSnapshot u of None \<Rightarrow> ms_last st | Some s \<Rightarrow> snIndex s)))"

definition log_ok :: "raftLog \<Rightarrow> bool" where
  "log_ok l \<longleftrightarrow> shape_ok l \<and> log_base l \<le> lCommitted l \<and> lCommitted l \<le> log_last l \<and> lApplied l \<le> lCommitted l"

lemma log_ok_shape: "log_ok l \<Longrightarrow> shape_ok l"
  by (simp add: log_ok_def)

lemma length_stored: "shape_ok l \<Longrightarrow> length (stored l) = uOffset (lUnstable l) - Suc (log_base l)"
  by (auto simp: shape_ok_def stored_def Let_def ms_last_def)

lemma contig_stored: "shape_ok l \<Longrightarrow> contig (Suc (log_base l)) (stored l)"
proof (cases "Suc (log_base l) = uOffset (lUnstable l)")
  case False
  assume "shape_ok l"
  then have "contig (Suc (ms_base (lStorage l))) (ms_log (lStorage l))" "ms_base (lStorage l) \<le> log_base l"
      "log_base l - ms_base (lStorage l) \<le> length (ms_log (lStorage l))"
    using False by (auto simp: shape_ok_def ms_ok_def Let_def ms_last_def)
  then show ?thesis using contig_drop [of "Suc (ms_base (lStorage l))" "ms_log (lStorage l)" "log_base l - ms_base (lStorage l)"]
    by (simp add: stored_def)
qed (simp add: stored_def)

lemma contig_log: "shape_ok l \<Longrightarrow> contig (Suc (log_base l)) (log_ents l)"
  using contig_stored length_stored by (auto simp: log_ents_def shape_ok_def Let_def)

lemma log_last_offset: "shape_ok l \<Longrightarrow> Suc (log_last l) = uOffset (lUnstable l) + length (uEntries (lUnstable l))"
  using length_stored [of l] by (auto simp: log_last_def log_ents_def shape_ok_def Let_def)

lemma log_firstIndex_ok: "shape_ok l \<Longrightarrow> log_firstIndex l = Some (Suc (log_base l))"
  by (auto simp: log_firstIndex_def maybeFirstIndex_def log_base_def shape_ok_def Let_def FirstIndex_ok split: option.splits)

lemma log_lastIndex_ok: "shape_ok l \<Longrightarrow> log_lastIndex l = Some (log_last l)"
  using log_last_offset [of l]
  by (auto simp: log_lastIndex_def maybeLastIndex_def shape_ok_def Let_def LastIndex_ok split: option.splits)

text \<open>Reading the term of an index never fails: inside the log it is that of the entry, outside it is zero.\<close>

lemma term_unstable:
  assumes "shape_ok l" and "uOffset (lUnstable l) \<le> i" and "i \<le> log_last l"
  shows "maybeTerm (lUnstable l) i = Some (Some (term_at l i))"
proof -
  let ?u = "lUnstable l"
  have k: "i - uOffset ?u < length (uEntries ?u)" "log_base l < uOffset ?u"
    using assms log_last_offset [OF assms(1)] by (auto simp: shape_ok_def Let_def)
  then have "maybeLastIndex ?u = Some (log_last l)"
    using log_last_offset [OF assms(1)] by (auto simp: maybeLastIndex_def)
  moreover have "log_ents l ! (i - Suc (log_base l)) = uEntries ?u ! (i - uOffset ?u)"
    using k assms(2) length_stored [OF assms(1)] by (auto simp: log_ents_def nth_append)
  ultimately show ?thesis using k assms by (simp add: maybeTerm_def term_at_def)
qed

lemma term_stored:
  assumes ok: "shape_ok l" and i: "log_base l \<le> i" "i < uOffset (lUnstable l)" and ns: "log_base l < i \<or> uSnapshot (lUnstable l) = None"
  shows "maybeTerm (lUnstable l) i = Some None \<and> Term (lStorage l) i = Some (Inr (term_at l i))"
proof -
  let ?st = "lStorage l"
  have st: "ms_ok ?st" "length (msEnts ?st) < 2 ^ 63" using ok by (auto simp: shape_ok_def Let_def)
  have b: "ms_base ?st \<le> log_base l" "uOffset (lUnstable l) \<le> Suc (ms_last ?st)"
    using ok i ns by (auto simp: shape_ok_def Let_def log_base_def ms_last_def split: option.splits)
  have "Term ?st i = Some (Inr (ms_term ?st i))" using Term_ok [OF st(1) _ _ st(2)] b i by simp
  moreover have "ms_term ?st i = term_at l i"
  proof (cases "i = log_base l")
    case True
    then show ?thesis using ns by (simp add: term_at_def base_term_def log_base_def)
  next
    case False
    then have "ms_term ?st i = eTerm (ms_log ?st ! (i - Suc (ms_base ?st)))"
      using i b by (subst ms_term_def, subst ms_ents [OF st(1)]) (simp add: nth_Cons')
    moreover have "log_ents l ! (i - Suc (log_base l)) = ms_log ?st ! (i - Suc (ms_base ?st))"
      using False i b length_stored [OF ok] by (simp add: log_ents_def nth_append stored_def)
    ultimately show ?thesis using False by (simp add: term_at_def)
  qed
  moreover have "maybeTerm (lUnstable l) i = Some None"
    using i ns by (auto simp: maybeTerm_def log_base_def split: option.splits)
  ultimately show ?thesis by simp
qed

lemma log_term_ok:
  assumes ok: "shape_ok l"
  shows "log_term l i = Some (Inr (if log_base l \<le> i \<and> i \<le> log_last l then term_at l i else 0))"
proof (cases "log_base l \<le> i \<and> i \<le> log_last l")
  case True
  consider "uOffset (lUnstable l) \<le> i" | "i < uOffset (lUnstable l)" "log_base l < i \<or> uSnapshot (lUnstable l) = None"
    | s where "i < uOffset (lUnstable l)" "i = log_base l" "uSnapshot (lUnstable l) = Some s" using True by fastforce
  then show ?thesis
  proof cases
    case 1
    then show ?thesis using True term_unstable [OF ok] by (simp add: log_term_def log_firstIndex_ok [OF ok] log_lastIndex_ok [OF ok])
  next
    case 2
    then show ?thesis using True term_stored [OF ok] by (simp add: log_term_def log_firstIndex_ok [OF ok] log_lastIndex_ok [OF ok])
  next
    case 3
    then have "maybeTerm (lUnstable l) i = Some (Some (term_at l i))"
      by (simp add: maybeTerm_def term_at_def base_term_def log_base_def)
    then show ?thesis using True by (simp add: log_term_def log_firstIndex_ok [OF ok] log_lastIndex_ok [OF ok])
  qed
qed (auto simp: log_term_def log_firstIndex_ok [OF ok] log_lastIndex_ok [OF ok])

lemmas log_reads = log_firstIndex_ok log_lastIndex_ok log_term_ok

lemma matchTerm_ok: "shape_ok l \<Longrightarrow> matchTerm l i t = Some ((if log_base l \<le> i \<and> i \<le> log_last l then term_at l i else 0) = t)"
  by (simp add: matchTerm_def log_term_ok)

lemma lastTerm_ok: "shape_ok l \<Longrightarrow> lastTerm l = Some (term_at l (log_last l))"
  by (simp add: lastTerm_def log_reads) (simp add: log_last_def)

text \<open>The two indices do not matter for the entries.\<close>

lemma index_updates [simp]:
  "log_base (l\<lparr>lCommitted := j\<rparr>) = log_base l" "log_base (l\<lparr>lApplied := j\<rparr>) = log_base l"
  "base_term (l\<lparr>lCommitted := j\<rparr>) = base_term l" "base_term (l\<lparr>lApplied := j\<rparr>) = base_term l"
  by (simp_all add: log_base_def base_term_def cong: option.case_cong)

lemma index_updates_ents [simp]:
  "log_ents (l\<lparr>lCommitted := j\<rparr>) = log_ents l" "log_ents (l\<lparr>lApplied := j\<rparr>) = log_ents l"
  "shape_ok (l\<lparr>lCommitted := j\<rparr>) = shape_ok l" "shape_ok (l\<lparr>lApplied := j\<rparr>) = shape_ok l"
  by (simp_all add: log_ents_def stored_def shape_ok_def)

lemma index_updates_last [simp]:
  "log_last (l\<lparr>lCommitted := j\<rparr>) = log_last l" "log_last (l\<lparr>lApplied := j\<rparr>) = log_last l"
  "term_at (l\<lparr>lCommitted := j\<rparr>) = term_at l" "term_at (l\<lparr>lApplied := j\<rparr>) = term_at l"
  by (simp_all add: log_last_def term_at_def fun_eq_iff)

section \<open>Appending\<close>

lemma shape_ok_new:
  assumes "ms_ok st" and "length (msEnts st) < 2 ^ 63"
  shows "\<exists>l. newLogWithSize st mx = Some l \<and> log_ok l \<and> log_base l = ms_base st \<and> log_ents l = ms_log st
    \<and> lCommitted l = ms_base st \<and> lStorage l = st"
  using assms by (auto simp: newLogWithSize_def FirstIndex_ok LastIndex_ok log_ok_def shape_ok_def Let_def log_base_def
      log_last_def log_ents_def stored_def ms_last_def)

text \<open>Appending entries above the commit index cuts the log off before the first of them.\<close>

lemma truncateAndAppend_ok:
  assumes ok: "shape_ok l" and c: "contig b ents" "ents \<noteq> []" and b: "log_base l < b" "b \<le> Suc (log_last l)"
  defines "u \<equiv> lUnstable l"
  shows "\<exists>u'. truncateAndAppend u ents = Some u' \<and> uSnapshot u' = uSnapshot u \<and> uEntries u' \<noteq> []
    \<and> log_base l < uOffset u' \<and> uOffset u' \<le> uOffset u \<and> contig (uOffset u') (uEntries u')
    \<and> take (uOffset u' - Suc (log_base l)) (stored l) @ uEntries u' = take (b - Suc (log_base l)) (log_ents l) @ ents"
proof -
  obtain e es where e: "ents = e # es" "eIndex e = b" using c by (cases ents) auto
  have cu: "contig (uOffset u) (uEntries u)" and bo: "log_base l < uOffset u" using ok by (auto simp: shape_ok_def Let_def u_def)
  have ls: "length (stored l) = uOffset u - Suc (log_base l)" using length_stored [OF ok] by (simp add: u_def)
  have le: "log_ents l = stored l @ uEntries u" by (simp add: log_ents_def u_def)
  have last: "Suc (log_last l) = uOffset u + length (uEntries u)" using log_last_offset [OF ok] by (simp add: u_def)
  consider "b = uOffset u + length (uEntries u)" | "b \<noteq> uOffset u + length (uEntries u)" "b \<le> uOffset u"
    | "uOffset u < b" "b < uOffset u + length (uEntries u)" using b(2) last by linarith
  then show ?thesis
  proof cases
    case 1
    then have "truncateAndAppend u ents = Some (u\<lparr>uEntries := uEntries u @ ents\<rparr>)" using e by (simp add: truncateAndAppend_def)
    moreover have "take (b - Suc (log_base l)) (log_ents l) = log_ents l" using 1 ls bo le by simp
    ultimately show ?thesis using c cu bo le ls 1 by auto
  next
    case 2
    then have "truncateAndAppend u ents = Some (u\<lparr>uOffset := b, uEntries := ents\<rparr>)" using e by (simp add: truncateAndAppend_def)
    then show ?thesis using c b le ls 2 bo by auto
  next
    case 3
    have "unstable_slice u (uOffset u) b = Some (take (b - uOffset u) (uEntries u))"
      using 3 by (simp add: unstable_slice_def unstable_mustCheckOutOfBounds_def go_slice_def)
    then have "truncateAndAppend u ents = Some (u\<lparr>uEntries := take (b - uOffset u) (uEntries u) @ ents\<rparr>)"
      using 3 e by (simp add: truncateAndAppend_def)
    then show ?thesis using c cu bo le ls 3 by auto
  qed
qed

lemma log_append_ok:
  assumes ok: "log_ok l" and c: "contig b ents" "ents \<noteq> []" and b: "lCommitted l < b" "b \<le> Suc (log_last l)"
  shows "\<exists>l'. log_append l ents = Some (l', log_last l') \<and> log_ok l' \<and> log_base l' = log_base l \<and> base_term l' = base_term l
    \<and> log_ents l' = take (b - Suc (log_base l)) (log_ents l) @ ents
    \<and> lCommitted l' = lCommitted l \<and> lApplied l' = lApplied l \<and> lStorage l' = lStorage l"
proof -
  have sh: "shape_ok l" and bb: "log_base l < b" using ok b by (auto simp: log_ok_def)
  obtain u where u: "truncateAndAppend (lUnstable l) ents = Some u" "uSnapshot u = uSnapshot (lUnstable l)" "uEntries u \<noteq> []"
      "log_base l < uOffset u" "uOffset u \<le> uOffset (lUnstable l)" "contig (uOffset u) (uEntries u)"
      "take (uOffset u - Suc (log_base l)) (stored l) @ uEntries u = take (b - Suc (log_base l)) (log_ents l) @ ents"
    using truncateAndAppend_ok [OF sh c bb b(2)] by auto
  let ?l = "l\<lparr>lUnstable := u\<rparr>"
  have same: "log_base ?l = log_base l" "base_term ?l = base_term l" using u(2) by (simp_all add: log_base_def base_term_def cong: option.case_cong)
  have "stored ?l = take (uOffset u - Suc (log_base l)) (stored l)" using u(4,5) same by (simp add: stored_def)
  then have ents: "log_ents ?l = take (b - Suc (log_base l)) (log_ents l) @ ents" using u(7) by (simp add: log_ents_def)
  have shape: "shape_ok ?l" using sh u(3-6) same by (auto simp: shape_ok_def Let_def)
  have "b = Suc (log_base l) + length (take (b - Suc (log_base l)) (log_ents l))" using bb b(2) by (simp add: log_last_def)
  then have "b \<le> log_last ?l" using c(2) same ents by (cases ents) (auto simp: log_last_def)
  then have "log_ok ?l" using ok shape same b by (auto simp: log_ok_def)
  moreover obtain e es where "ents = e # es" "eIndex e = b" using c by (cases ents) auto
  then have "log_append l ents = Some (?l, log_last ?l)" using b(1) u(1) log_lastIndex_ok [OF shape]
    by (auto simp: log_append_def Let_def)
  ultimately show ?thesis using same ents by auto
qed

lemma commitTo_ok:
  assumes "log_ok l" and "i \<le> log_last l"
  shows "commitTo l i = Some (l\<lparr>lCommitted := max (lCommitted l) i\<rparr>) \<and> log_ok (l\<lparr>lCommitted := max (lCommitted l) i\<rparr>)"
proof -
  have "commitTo l i = Some (l\<lparr>lCommitted := max (lCommitted l) i\<rparr>)"
    using assms by (auto simp: commitTo_def log_lastIndex_ok log_ok_def max_def)
  then show ?thesis using assms by (auto simp: log_ok_def)
qed

text \<open>The number of entries that the log already has, and the first conflict.\<close>

definition matching :: "raftLog \<Rightarrow> Entry list \<Rightarrow> nat" where
  "matching l ents = length (takeWhile (\<lambda>e. eIndex e \<le> log_last l \<and> term_at l (eIndex e) = eTerm e) ents)"

lemma matching_le: "matching l ents \<le> length ents"
  by (simp add: matching_def length_takeWhile_le)

lemma matching_nth:
  assumes "contig b ents" and "k < matching l ents"
  shows "b + k \<le> log_last l \<and> term_at l (b + k) = eTerm (ents ! k)"
proof -
  have "takeWhile (\<lambda>e. eIndex e \<le> log_last l \<and> term_at l (eIndex e) = eTerm e) ents ! k = ents ! k"
    using assms(2) by (simp add: matching_def takeWhile_nth)
  then have "eIndex (ents ! k) \<le> log_last l \<and> term_at l (eIndex (ents ! k)) = eTerm (ents ! k)"
    using assms(2) nth_mem [of k "takeWhile (\<lambda>e. eIndex e \<le> log_last l \<and> term_at l (eIndex e) = eTerm e) ents"]
    by (auto simp: matching_def dest!: set_takeWhileD)
  moreover have "eIndex (ents ! k) = b + k" using assms matching_le [of l ents] by (simp add: contig_nth)
  ultimately show ?thesis by simp
qed

lemma findConflict_ok:
  assumes ok: "shape_ok l" and c: "contig b ents" and b: "log_base l < b" and t: "\<forall>e \<in> set ents. eTerm e \<noteq> 0"
  shows "findConflict l ents = Some (if matching l ents = length ents then 0 else b + matching l ents)"
  using c b t
proof (induction ents arbitrary: b)
  case (Cons e ents)
  have e: "eIndex e = b" "eTerm e \<noteq> 0" "contig (Suc b) ents" using Cons.prems by auto
  have IH: "findConflict l ents = Some (if matching l ents = length ents then 0 else Suc b + matching l ents)"
    using Cons.IH [OF e(3)] Cons.prems by simp
  show ?case using e IH Cons.prems(2)
    by (auto simp: matchTerm_ok [OF ok] log_reads [OF ok] matching_def zeroTermOnErrCompacted_def)
qed (simp add: matching_def)

lemma maybeAppend_rejects:
  assumes "shape_ok l" and "log_base l \<le> index" and "index \<le> log_last l \<longrightarrow> term_at l index \<noteq> logTerm" and "log_last l < index \<longrightarrow> logTerm \<noteq> 0"
  shows "maybeAppend l index logTerm c ents = Some (l, 0, False)"
  using assms by (auto simp: maybeAppend_def matchTerm_ok)

lemma maybeAppend_ok:
  assumes ok: "log_ok l" and c: "contig (Suc index) ents" and t: "\<forall>e \<in> set ents. eTerm e \<noteq> 0"
    and i: "log_base l \<le> index" "index \<le> log_last l" "term_at l index = logTerm"
  defines "k \<equiv> matching l ents"
  shows "k < length ents \<Longrightarrow> index + k < lCommitted l \<Longrightarrow> maybeAppend l index logTerm ci ents = None"
    and "\<not> (k < length ents \<and> index + k < lCommitted l) \<Longrightarrow>
      \<exists>l'. maybeAppend l index logTerm ci ents = Some (l', index + length ents, True) \<and> log_ok l'
        \<and> log_base l' = log_base l \<and> base_term l' = base_term l \<and> lStorage l' = lStorage l \<and> lApplied l' = lApplied l
        \<and> lCommitted l' = max (lCommitted l) (min ci (index + length ents))
        \<and> log_ents l' = (if k = length ents then log_ents l else take (index + k - log_base l) (log_ents l) @ drop k ents)"
proof -
  have sh: "shape_ok l" using ok by (rule log_ok_shape)
  have m: "matchTerm l index logTerm = Some True" using matchTerm_ok [OF sh] i by simp
  have fc: "findConflict l ents = Some (if k = length ents then 0 else Suc index + k)"
    using findConflict_ok [OF sh c] i(1) t by (simp add: k_def)
  have kl: "k \<le> length ents" using matching_le by (simp add: k_def)
  have klast: "index + k \<le> log_last l"
    using matching_nth [OF c, of "k - 1" l] i(2) by (cases k) (auto simp: k_def)
  show "k < length ents \<Longrightarrow> index + k < lCommitted l \<Longrightarrow> maybeAppend l index logTerm ci ents = None"
    using m fc by (simp add: maybeAppend_def)
  assume good: "\<not> (k < length ents \<and> index + k < lCommitted l)"
  obtain l' where l': "(if k = length ents then Some l else map_option fst (log_append l (drop k ents))) = Some l'"
      "log_ok l'" "log_base l' = log_base l" "base_term l' = base_term l" "lStorage l' = lStorage l" "lApplied l' = lApplied l"
      "lCommitted l' = lCommitted l" "log_ents l' = (if k = length ents then log_ents l else take (index + k - log_base l) (log_ents l) @ drop k ents)"
  proof (cases "k = length ents")
    case True
    then show ?thesis using that ok by simp
  next
    case False
    then have "contig (Suc index + k) (drop k ents)" "drop k ents \<noteq> []" "lCommitted l < Suc index + k" "Suc index + k \<le> Suc (log_last l)"
      using contig_drop [OF c kl] kl good klast by auto
    from log_append_ok [OF ok this] show ?thesis using that False by auto
  qed
  have "index + length ents \<le> log_last l'"
    using l'(3,8) kl klast i(1) by (auto simp: log_last_def)
  then have "commitTo l' (min ci (index + length ents)) = Some (l'\<lparr>lCommitted := max (lCommitted l') (min ci (index + length ents))\<rparr>)
      \<and> log_ok (l'\<lparr>lCommitted := max (lCommitted l') (min ci (index + length ents))\<rparr>)"
    by (intro commitTo_ok [OF l'(2)]) simp
  moreover have "maybeAppend l index logTerm ci ents = map_option (\<lambda>l. (l, index + length ents, True)) (commitTo l' (min ci (index + length ents)))"
    using m fc l'(1) good kl by (auto simp: maybeAppend_def Let_def split: if_splits)
      (cases "commitTo l' (min ci (index + length ents))"; simp)+
  ultimately show "\<exists>l'. maybeAppend l index logTerm ci ents = Some (l', index + length ents, True) \<and> log_ok l'
        \<and> log_base l' = log_base l \<and> base_term l' = base_term l \<and> lStorage l' = lStorage l \<and> lApplied l' = lApplied l
        \<and> lCommitted l' = max (lCommitted l) (min ci (index + length ents))
        \<and> log_ents l' = (if k = length ents then log_ents l else take (index + k - log_base l) (log_ents l) @ drop k ents)"
    using l' by auto
qed

section \<open>Reading entries\<close>

definition segment :: "raftLog \<Rightarrow> nat \<Rightarrow> nat \<Rightarrow> Entry list" where
  "segment l lo hi = take (hi - lo) (drop (lo - Suc (log_base l)) (log_ents l))"

lemma length_segment: "log_base l < lo \<Longrightarrow> hi \<le> Suc (log_last l) \<Longrightarrow> length (segment l lo hi) = hi - lo"
  by (auto simp: segment_def log_last_def)

lemma contig_segment:
  assumes "shape_ok l" and "log_base l < lo" and "lo \<le> Suc (log_last l)"
  shows "contig lo (segment l lo hi)"
  using contig_drop [OF contig_log [OF assms(1)], of "lo - Suc (log_base l)"] assms(2,3) by (simp add: segment_def log_last_def)

lemma segment_split:
  assumes "log_base l < lo" and "lo \<le> mid" and "mid \<le> hi"
  shows "segment l lo hi = segment l lo mid @ segment l mid hi"
proof -
  have h: "hi - lo = (mid - lo) + (hi - mid)" "(mid - lo) + (lo - Suc (log_base l)) = mid - Suc (log_base l)" using assms by simp_all
  show ?thesis unfolding segment_def h(1) take_add drop_drop h(2) ..
qed

text \<open>The stored and the unstable part of a segment.\<close>

lemma segment_stored:
  assumes ok: "shape_ok l" and lo: "log_base l < lo" "lo < uOffset (lUnstable l)" "lo < hi" and hi: "hi \<le> uOffset (lUnstable l)"
  shows "Entries (lStorage l) lo hi mx = Some (Inr (limitSize (segment l lo hi) mx))"
proof -
  let ?st = "lStorage l"
  have b: "ms_ok ?st" "ms_base ?st \<le> log_base l" "uOffset (lUnstable l) \<le> Suc (ms_last ?st)"
    using ok lo by (auto simp: shape_ok_def Let_def)
  have "Entries ?st lo hi mx = Some (Inr (limitSize (take (hi - lo) (drop (lo - Suc (ms_base ?st)) (ms_log ?st))) mx))"
    using Entries_ok [OF b(1), of lo hi mx] lo hi b(2,3) by simp
  moreover have "take (hi - lo) (drop (lo - Suc (ms_base ?st)) (ms_log ?st)) = segment l lo hi"
    using lo hi b length_stored [OF ok]
    by (intro nth_equalityI) (auto simp: segment_def log_ents_def nth_append stored_def ms_last_def)
  ultimately show ?thesis by simp
qed

lemma segment_unstable:
  assumes ok: "shape_ok l" and lo: "uOffset (lUnstable l) \<le> lo" "lo \<le> hi" "hi \<le> Suc (log_last l)"
  shows "unstable_slice (lUnstable l) lo hi = Some (segment l lo hi)"
proof -
  have "uOffset (lUnstable l) > log_base l" using ok by (simp add: shape_ok_def Let_def)
  then show ?thesis using lo log_last_offset [OF ok] length_stored [OF ok]
    by (auto simp: unstable_slice_def unstable_mustCheckOutOfBounds_def go_slice_def segment_def log_ents_def)
qed

lemma log_slice_ok:
  assumes ok: "shape_ok l" and lo: "log_base l < lo" "lo \<le> hi" "hi \<le> Suc (log_last l)"
  shows "log_slice l lo hi mx = Some (Inr (limitSize (segment l lo hi) mx))"
proof -
  let ?off = "uOffset (lUnstable l)"
  have chk: "mustCheckOutOfBounds l lo hi = Some None"
    using lo by (simp add: mustCheckOutOfBounds_def log_reads [OF ok] log_last_def)
  consider "lo = hi" | "lo < hi" "?off \<le> lo" | "lo < ?off" "lo < hi" "hi \<le> ?off" | "lo < ?off" "?off < hi" using lo by linarith
  then show ?thesis
  proof cases
    case 1
    then show ?thesis using chk by (simp add: log_slice_def segment_def limitSize_def)
  next
    case 2
    then show ?thesis using chk segment_unstable [OF ok, of lo hi] lo by (simp add: log_slice_def max_def)
  next
    case 3
    have "length (segment l lo hi) = hi - lo" using lo by (simp add: length_segment)
    moreover have "limitSize (limitSize (segment l lo hi) mx) mx = limitSize (segment l lo hi) mx" if "\<not> length (limitSize (segment l lo hi) mx) < hi - lo"
      using that calculation limitSize_all [of "segment l lo hi" mx] by simp
    ultimately show ?thesis using chk segment_stored [OF ok lo(1) 3] 3 by (simp add: log_slice_def min_def Let_def)
  next
    case 4
    let ?s = "segment l lo ?off"
    have s: "Entries (lStorage l) lo ?off mx = Some (Inr (limitSize ?s mx))" using segment_stored [OF ok lo(1) 4(1), of ?off mx] 4 by simp
    have u: "unstable_slice (lUnstable l) ?off hi = Some (segment l ?off hi)" using segment_unstable [OF ok, of ?off hi] 4 lo by simp
    have l: "length ?s = ?off - lo" using 4 lo by (simp add: length_segment)
    have sp: "segment l lo hi = ?s @ segment l ?off hi" using segment_split [OF lo(1)] 4 by simp
    show ?thesis
    proof (cases "length (limitSize ?s mx) < ?off - lo")
      case True
      then show ?thesis using chk s 4 l limitSize_append [of ?s mx] by (simp add: log_slice_def min_def Let_def sp)
    next
      case False
      then have "limitSize ?s mx = ?s" using l by (intro limitSize_all) simp
      then show ?thesis using False chk s u 4 by (simp add: log_slice_def min_def max_def Let_def sp)
    qed
  qed
qed

lemma allEntries_ok: "shape_ok l \<Longrightarrow> \<exists>k. allEntries l = Some (take k (log_ents l))"
proof -
  assume ok: "shape_ok l"
  have "segment l (Suc (log_base l)) (Suc (log_last l)) = log_ents l" by (simp add: segment_def log_last_def)
  then show ?thesis using log_slice_ok [OF ok, of "Suc (log_base l)" "Suc (log_last l)" noLimit] limitSize_prefix [of "log_ents l" noLimit]
    by (subst allEntries.simps) (auto simp: log_reads [OF ok] log_entries_def log_last_def intro: exI [of _ 0])
qed

section \<open>Handing out committed entries\<close>

lemma nextEnts_ok:
  assumes "log_ok l"
  shows "nextEnts l = Some (limitSize (segment l (Suc (max (lApplied l) (log_base l))) (Suc (lCommitted l))) (lMaxNextEntsSize l))"
proof -
  have sh: "shape_ok l" using assms by (rule log_ok_shape)
  let ?off = "Suc (max (lApplied l) (log_base l))"
  have off: "max (lApplied l + 1) (Suc (log_base l)) = ?off" by simp
  show ?thesis
  proof (cases "lCommitted l + 1 > ?off")
    case True
    have "log_slice l ?off (lCommitted l + 1) (lMaxNextEntsSize l) = Some (Inr (limitSize (segment l ?off (lCommitted l + 1)) (lMaxNextEntsSize l)))"
      using True assms by (intro log_slice_ok [OF sh]) (auto simp: log_ok_def)
    then show ?thesis using True off by (simp add: nextEnts_def log_reads [OF sh] Let_def del: max_Suc_Suc)
  next
    case False
    then have "lCommitted l \<le> max (lApplied l) (log_base l)" by linarith
    then have "segment l ?off (Suc (lCommitted l)) = []" by (simp add: segment_def)
    moreover have "nextEnts l = Some []" using False unfolding nextEnts_def log_firstIndex_ok [OF sh] Let_def bind.bind_lunit off by (simp only: if_False)
    ultimately show ?thesis by (simp add: limitSize_def)
  qed
qed

lemma appliedTo_ok:
  assumes "log_ok l" and "lApplied l \<le> i" and "i \<le> lCommitted l" and "0 < i"
  shows "appliedTo l i = Some (l\<lparr>lApplied := i\<rparr>) \<and> log_ok (l\<lparr>lApplied := i\<rparr>)"
  using assms by (auto simp: appliedTo_def log_ok_def)

text \<open>
  The application takes the next entries and reports the last of them as applied, as \<open>Ready\<close> and
  \<open>Advance\<close> do, for a number of rounds.
\<close>

fun apply_rounds :: "nat \<Rightarrow> raftLog \<Rightarrow> (raftLog \<times> Entry list) option" where
  "apply_rounds 0 l = Some (l, [])"
| "apply_rounds (Suc n) l = do {
     ents \<leftarrow> nextEnts l;
     if ents = [] then apply_rounds n l
     else do {
       l \<leftarrow> appliedTo l (eIndex (List.last ents));
       (l, more) \<leftarrow> apply_rounds n l;
       Some (l, ents @ more) } }"

text \<open>A log on a new storage, with all its entries unstable, for examples.\<close>

definition fresh_log :: "Entry list \<Rightarrow> nat \<Rightarrow> raftLog" where
  "fresh_log es c = \<lparr>lStorage = NewMemoryStorage, lUnstable = \<lparr>uSnapshot = None, uEntries = es, uOffset = 1\<rparr>,
     lCommitted = c, lApplied = 0, lMaxNextEntsSize = 0\<rparr>"

lemma fresh_log_ents [simp]: "log_base (fresh_log es c) = 0" "log_ents (fresh_log es c) = es" "log_last (fresh_log es c) = length es"
    "lCommitted (fresh_log es c) = c" "lApplied (fresh_log es c) = 0"
  by (simp_all add: fresh_log_def log_base_def log_ents_def stored_def log_last_def ms_base_def NewMemoryStorage_def emptyEntry_def)

lemma fresh_log_ok: "contig 1 es \<Longrightarrow> c \<le> length es \<Longrightarrow> log_ok (fresh_log es c)"
proof -
  assume "contig 1 es" "c \<le> length es"
  then have "shape_ok (fresh_log es c)"
    using ms_ok_New by (simp add: shape_ok_def Let_def) (simp add: fresh_log_def ms_last_def ms_base_def ms_log_def NewMemoryStorage_def emptyEntry_def)
  then show ?thesis using \<open>c \<le> length es\<close> by (simp add: log_ok_def)
qed

abbreviation norm :: "nat \<Rightarrow> nat \<Rightarrow> Entry" where "norm i t \<equiv> \<lparr>eTerm = t, eIndex = i, eType = EntryNormal, eData = None\<rparr>"

text \<open>The next entries reach from the applied index to some index up to the commit index.\<close>

lemma nextEnts_step:
  assumes ok: "log_ok l" and n: "max (lApplied l) (log_base l) < lCommitted l"
  shows "\<exists>m. max (lApplied l) (log_base l) < m \<and> m \<le> lCommitted l
    \<and> nextEnts l = Some (segment l (Suc (max (lApplied l) (log_base l))) (Suc m))
    \<and> eIndex (List.last (segment l (Suc (max (lApplied l) (log_base l))) (Suc m))) = m
    \<and> segment l (Suc (max (lApplied l) (log_base l))) (Suc m) \<noteq> []"
proof -
  let ?a = "max (lApplied l) (log_base l)"
  have sh: "shape_ok l" using ok by (rule log_ok_shape)
  have c: "lCommitted l \<le> log_last l" using ok by (simp add: log_ok_def)
  have len: "length (segment l (Suc ?a) (Suc (lCommitted l))) = lCommitted l - ?a" using c by (simp add: length_segment)
  then have ne: "segment l (Suc ?a) (Suc (lCommitted l)) \<noteq> []" using n by (metis diff_is_0_eq length_0_conv not_le)
  obtain k where k: "limitSize (segment l (Suc ?a) (Suc (lCommitted l))) (lMaxNextEntsSize l) = take k (segment l (Suc ?a) (Suc (lCommitted l)))" "0 < k"
    using limitSize_prefix [of "segment l (Suc ?a) (Suc (lCommitted l))" "lMaxNextEntsSize l"] ne by blast
  let ?m = "?a + min k (lCommitted l - ?a)"
  have "take k (segment l (Suc ?a) (Suc (lCommitted l))) = segment l (Suc ?a) (Suc ?m)" by (simp add: segment_def)
  then have next_m: "nextEnts l = Some (segment l (Suc ?a) (Suc ?m))" using nextEnts_ok [OF ok] k(1) by simp
  have lm: "length (segment l (Suc ?a) (Suc ?m)) = min k (lCommitted l - ?a)"
    using c n by (subst length_segment) auto
  then have nem: "segment l (Suc ?a) (Suc ?m) \<noteq> []" using k(2) n by (metis length_0_conv min_def not_less_zero zero_less_diff)
  have "contig (Suc ?a) (segment l (Suc ?a) (Suc ?m))" using c n by (intro contig_segment [OF sh]) auto
  then have "eIndex (List.last (segment l (Suc ?a) (Suc ?m))) = ?m"
    using contig_last [OF _ nem] lm by fastforce
  moreover have "?a < ?m" "?m \<le> lCommitted l" using k(2) n by auto
  ultimately show ?thesis using next_m nem by blast
qed

text \<open>
  C21. Every committed entry is handed out exactly once and in order: whatever the limit on the
  size of a batch is, after at most as many rounds as there are unapplied entries the application
  has received exactly the entries between the applied and the commit index, no round panics, and
  the applied index has reached the commit index.
\<close>

theorem committed_entries_applied:
  assumes "log_ok l" and "lCommitted l - max (lApplied l) (log_base l) \<le> n"
  shows "\<exists>l'. apply_rounds n l = Some (l', segment l (Suc (max (lApplied l) (log_base l))) (Suc (lCommitted l)))
    \<and> log_ok l' \<and> max (lApplied l') (log_base l) = lCommitted l \<and> lCommitted l' = lCommitted l \<and> log_ents l' = log_ents l"
  using assms
proof (induction n arbitrary: l)
  case 0
  then show ?case by (auto simp: log_ok_def segment_def)
next
  case (Suc n)
  let ?a = "max (lApplied l) (log_base l)"
  show ?case
  proof (cases "?a < lCommitted l")
    case True
    obtain m where m: "?a < m" "m \<le> lCommitted l" "nextEnts l = Some (segment l (Suc ?a) (Suc m))"
        "eIndex (List.last (segment l (Suc ?a) (Suc m))) = m" "segment l (Suc ?a) (Suc m) \<noteq> []"
      using nextEnts_step [OF Suc.prems(1) True] by blast
    have am: "appliedTo l m = Some (l\<lparr>lApplied := m\<rparr>) \<and> log_ok (l\<lparr>lApplied := m\<rparr>)" using appliedTo_ok [OF Suc.prems(1), of m] m(1,2) by simp
    have mb: "max m (log_base l) = m" using m(1) by simp
    have "lCommitted l - m \<le> n" using Suc.prems(2) m(1) by linarith
    then obtain l' where l': "apply_rounds n (l\<lparr>lApplied := m\<rparr>) = Some (l', segment (l\<lparr>lApplied := m\<rparr>) (Suc m) (Suc (lCommitted l)))"
        "log_ok l'" "max (lApplied l') (log_base l) = lCommitted l" "lCommitted l' = lCommitted l" "log_ents l' = log_ents l"
      using Suc.IH [of "l\<lparr>lApplied := m\<rparr>"] am mb by auto
    have "segment (l\<lparr>lApplied := m\<rparr>) (Suc m) (Suc (lCommitted l)) = segment l (Suc m) (Suc (lCommitted l))" by (simp add: segment_def)
    moreover have "segment l (Suc ?a) (Suc (lCommitted l)) = segment l (Suc ?a) (Suc m) @ segment l (Suc m) (Suc (lCommitted l))"
      using m(1,2) by (intro segment_split) auto
    ultimately show ?thesis using l' m am by simp
  next
    case False
    then have "lCommitted l \<le> ?a" by linarith
    then have e: "segment l (Suc ?a) (Suc (lCommitted l)) = []" by (simp add: segment_def)
    then have "nextEnts l = Some []" using nextEnts_ok [OF Suc.prems(1)] by (simp add: limitSize_def)
    then show ?thesis using Suc.IH [OF Suc.prems(1)] False e by simp
  qed
qed

theorem committed_entries_applied_witness:
  "\<exists>l'. apply_rounds 3 (fresh_log [norm 1 1, norm 2 1, norm 3 2] 2) = Some (l', [norm 1 1, norm 2 1])"
  using committed_entries_applied [OF fresh_log_ok, of "[norm 1 1, norm 2 1, norm 3 2]" 2 3] by (auto simp: segment_def)

section \<open>Log matching\<close>

definition entry_at :: "raftLog \<Rightarrow> nat \<Rightarrow> Entry option" where
  "entry_at l i = (if log_base l < i \<and> i \<le> log_last l then Some (log_ents l ! (i - Suc (log_base l))) else None)"

lemma entry_at_term: "entry_at l i = Some e \<Longrightarrow> eTerm e = term_at l i"
  by (auto simp: entry_at_def term_at_def split: if_splits)

text \<open>
  Two logs match when, wherever both have an entry of the same index and term, they have the same
  entries up to there.
\<close>

definition log_match :: "raftLog \<Rightarrow> raftLog \<Rightarrow> bool" where
  "log_match l m \<longleftrightarrow>
     (\<forall>i j a b x y. entry_at l i = Some a \<and> entry_at m i = Some b \<and> eTerm a = eTerm b \<and> j \<le> i
        \<and> entry_at l j = Some x \<and> entry_at m j = Some y \<longrightarrow> x = y)"

text \<open>The first \<open>n\<close> entries of a log after an index, as a leader sends them.\<close>

definition sent :: "raftLog \<Rightarrow> nat \<Rightarrow> nat \<Rightarrow> Entry list" where
  "sent l index n = take n (drop (index - log_base l) (log_ents l))"

lemma contig_sent:
  assumes "shape_ok l" and "log_base l \<le> index" and "index \<le> log_last l"
  shows "contig (Suc index) (sent l index n)"
  using contig_drop [OF contig_log [OF assms(1)], of "index - log_base l"] assms(2,3) by (simp add: sent_def log_last_def)

lemma sent_nth:
  assumes "log_base l \<le> index" and "k < length (sent l index n)"
  shows "entry_at l (Suc index + k) = Some (sent l index n ! k)"
  using assms by (auto simp: sent_def entry_at_def log_last_def)

text \<open>What the entries of the log are after an append.\<close>

lemma appended_entry:
  assumes ok: "log_ok l'" and base: "log_base l' = log_base l" and i: "log_base l \<le> index" and k: "k \<le> length ents" "index + k \<le> log_last l"
    and ents: "log_ents l' = (if k = length ents then log_ents l else take (index + k - log_base l) (log_ents l) @ drop k ents)"
  shows "j \<le> index + k \<Longrightarrow> entry_at l' j = entry_at l j"
    and "index + k < j \<Longrightarrow> j \<le> index + length ents \<Longrightarrow> entry_at l' j = Some (ents ! (j - Suc index))"
    and "index + length ents < j \<Longrightarrow> k < length ents \<Longrightarrow> entry_at l' j = None"
proof -
  have len: "k < length ents \<Longrightarrow> log_last l' = index + length ents"
    using ents base i k by (auto simp: log_last_def)
  show "j \<le> index + k \<Longrightarrow> entry_at l' j = entry_at l j"
  proof (cases "k = length ents")
    case False
    assume j: "j \<le> index + k"
    have "j - Suc (log_base l) < index + k - log_base l" if "log_base l < j" using that j by linarith
    then show ?thesis using False j len k ents base i by (auto simp: entry_at_def nth_append log_last_def)
  qed (use ents base in \<open>simp add: entry_at_def log_last_def\<close>)
  show "index + length ents < j \<Longrightarrow> k < length ents \<Longrightarrow> entry_at l' j = None"
    using len by (simp add: entry_at_def)
  assume j: "index + k < j" "j \<le> index + length ents"
  have "length (take (index + k - log_base l) (log_ents l)) = index + k - log_base l" using k by (simp add: log_last_def)
  moreover have "j - Suc (log_base l) - (index + k - log_base l) + k = j - Suc index" using j i by linarith
  ultimately show "entry_at l' j = Some (ents ! (j - Suc index))"
    using j i k len ents base by (auto simp: entry_at_def nth_append add.commute)
qed

lemma appended_matches:
  assumes m: "log_match L l" and L: "log_base L \<le> index" and same: "index = log_base L \<or> index = log_base l \<or> term_at L index = term_at l index"
    and i: "index \<le> log_last L" "log_base l \<le> index" "index \<le> log_last l"
    and old: "\<And>j. j \<le> index + k \<Longrightarrow> entry_at l' j = entry_at l j"
    and new: "\<And>j. index + k < j \<Longrightarrow> j \<le> index + length ents \<Longrightarrow> entry_at l' j = Some (ents ! (j - Suc index))"
    and k: "\<And>j. j < k \<Longrightarrow> \<exists>e. entry_at l (Suc index + j) = Some e \<and> eTerm e = eTerm (ents ! j)" "k \<le> length ents"
    and ents: "\<And>j. j < length ents \<Longrightarrow> entry_at L (Suc index + j) = Some (ents ! j)"
    and j: "j \<le> index + length ents" "entry_at L j = Some x" "entry_at l' j = Some y"
  shows "x = y"
proof -
  have pair: "x = y" if "entry_at L i = Some a" "entry_at l i = Some b" "eTerm a = eTerm b" "j' \<le> i" "entry_at L j' = Some x" "entry_at l j' = Some y" for i j' a b x y
    using m that unfolding log_match_def by blast
  consider "j \<le> index" | "index < j" "j \<le> index + k" | "index + k < j" by linarith
  then show ?thesis
  proof cases
    case 1
    have y: "entry_at l j = Some y" using 1 old j by simp
    obtain a b where ab: "entry_at L index = Some a" "entry_at l index = Some b"
      using 1 i L j(2) y by (auto simp: entry_at_def split: if_splits)
    then have "index \<noteq> log_base L" "index \<noteq> log_base l" by (auto simp: entry_at_def)
    then have "eTerm a = eTerm b" using same entry_at_term [OF ab(1)] entry_at_term [OF ab(2)] by simp
    from pair [OF ab this 1 j(2) y] show ?thesis .
  next
    case 2
    let ?q = "j - Suc index"
    have q: "Suc index + ?q = j" "?q < k" using 2 by simp_all
    obtain e where e: "entry_at l j = Some e" "eTerm e = eTerm (ents ! ?q)" using k(1) [OF q(2)] q(1) by auto
    have Lj: "entry_at L j = Some (ents ! ?q)" using ents [of ?q] q k(2) by simp
    have lj: "entry_at l j = Some y" using old [OF 2(2)] j(3) by simp
    show ?thesis by (rule pair [OF Lj e(1) e(2) [symmetric] order_refl j(2) lj])
  next
    case 3
    have "entry_at L (Suc index + (j - Suc index)) = Some (ents ! (j - Suc index))" using 3 j(1) by (intro ents) simp
    then show ?thesis using new [OF 3 j(1)] j(2,3) 3 by simp
  qed
qed

text \<open>
  C15. Log matching: a follower that accepts entries from a leader whose log matches its own
  returns the index of the last of them. Up to there its log has the same entries as the log of the
  leader, behind there it still matches it; entries up to its commit index do not change, and the
  commit index does not go down.
\<close>

theorem maybe_append_matches:
  assumes ok: "log_ok l" "log_ok L" and m: "log_match L l"
    and i: "log_base L \<le> index" "index \<le> log_last L" "log_base l \<le> index" and z: "index = 0 \<or> term_at L index \<noteq> 0"
    and t: "\<forall>e \<in> set (log_ents L). eTerm e \<noteq> 0"
    and a: "maybeAppend l index (term_at L index) ci (sent L index n) = Some (l', lasti, True)"
  shows "lasti = index + length (sent L index n) \<and> log_ok l' \<and> lCommitted l \<le> lCommitted l'
    \<and> (\<forall>j \<le> lasti. log_base L < j \<and> log_base l < j \<longrightarrow> entry_at l' j = entry_at L j)
    \<and> (\<forall>j \<le> lCommitted l. entry_at l' j = entry_at l j) \<and> log_match L l'"
proof -
  let ?ents = "sent L index n" and ?k = "matching l (sent L index n)"
  have sh: "shape_ok l" "shape_ok L" using ok log_ok_shape by auto
  have c: "contig (Suc index) ?ents" using contig_sent [OF sh(2) i(1,2)] .
  have tt: "\<forall>e \<in> set ?ents. eTerm e \<noteq> 0" using t by (auto simp: sent_def dest: in_set_takeD in_set_dropD)
  have "(if log_base l \<le> index \<and> index \<le> log_last l then term_at l index else 0) = term_at L index"
    using a matchTerm_ok [OF sh(1), of index "term_at L index"] by (auto simp: maybeAppend_def split: if_splits)
  then have il: "index \<le> log_last l" "term_at l index = term_at L index" using z i(3) by (auto simp: log_last_def split: if_splits)
  have kl: "?k \<le> length ?ents" by (rule matching_le)
  have k: "\<exists>e. entry_at l (Suc index + j) = Some e \<and> eTerm e = eTerm (?ents ! j)" if "j < ?k" for j
    using matching_nth [OF c that] i(3) by (auto simp: entry_at_def term_at_def)
  have klast: "index + ?k \<le> log_last l" using matching_nth [OF c, of "?k - 1" l] il(1) by (cases ?k) auto
  have good: "\<not> (?k < length ?ents \<and> index + ?k < lCommitted l)"
    using a maybeAppend_ok(1) [OF ok(1) c tt i(3) il] by auto
  obtain l'' where "maybeAppend l index (term_at L index) ci ?ents = Some (l'', index + length ?ents, True)" and ok': "log_ok l''"
      and l': "log_base l'' = log_base l" "lCommitted l'' = max (lCommitted l) (min ci (index + length ?ents))"
      "log_ents l'' = (if ?k = length ?ents then log_ents l else take (index + ?k - log_base l) (log_ents l) @ drop ?k ?ents)"
    using maybeAppend_ok(2) [OF ok(1) c tt i(3) il good] by blast
  then have res: "l'' = l'" "lasti = index + length ?ents" using a by auto
  note l' = l'[unfolded res] and ok' = ok'[unfolded res]
  note app = appended_entry [OF ok' l'(1) i(3) kl klast l'(3)]
  have agree: "x = y" if "j \<le> index + length ?ents" "entry_at L j = Some x" "entry_at l' j = Some y" for j x y
    by (rule appended_matches [OF m i(1) _ i(2,3) il(1) app(1,2) k kl sent_nth [OF i(1)] that]) (use il(2) in auto)
  have len: "index + length ?ents \<le> log_last L" "index + length ?ents \<le> log_last l'"
    using i l'(1,3) kl klast by (auto simp: sent_def log_last_def)
  have "entry_at l' j = entry_at L j" if j: "j \<le> lasti" "log_base L < j" "log_base l < j" for j
  proof -
    obtain x y where "entry_at L j = Some x" "entry_at l' j = Some y" using j len res l'(1) by (auto simp: entry_at_def)
    then show ?thesis using agree [of j x y] j res by simp
  qed
  moreover have "entry_at l' j = entry_at l j" if "j \<le> lCommitted l" for j
  proof (cases "?k = length ?ents")
    case False
    then show ?thesis using that good kl by (intro app(1)) linarith
  qed (use l'(1,3) in \<open>simp add: entry_at_def log_last_def\<close>)
  moreover have "log_match L l'" unfolding log_match_def
  proof (intro allI impI, elim conjE)
    fix q j a b x y
    assume e: "entry_at L q = Some a" "entry_at l' q = Some b" "eTerm a = eTerm b" "j \<le> q" "entry_at L j = Some x" "entry_at l' j = Some y"
    show "x = y"
    proof (cases "q \<le> index + length ?ents")
      case True
      then show ?thesis using agree [of j x y] e by simp
    next
      case False
      then have "?k = length ?ents" using app(3) [of q] e(2) kl by (cases "?k = length ?ents") auto
      then have "entry_at l' r = entry_at l r" for r using l'(1,3) by (simp add: entry_at_def log_last_def)
      then show ?thesis using m [unfolded log_match_def, rule_format, of q a b j x y] e by simp
    qed
  qed
  ultimately show ?thesis using res ok' l'(2) by simp
qed

theorem maybe_append_matches_witness:
  "\<exists>l'. maybeAppend (fresh_log [norm 1 1, norm 2 1] 1) 1 1 3 [norm 2 2, norm 3 2] = Some (l', 3, True)
     \<and> entry_at l' 2 = Some (norm 2 2) \<and> lCommitted l' \<ge> 1"
proof -
  let ?L = "fresh_log [norm 1 1, norm 2 2, norm 3 2] 1" and ?l = "fresh_log [norm 1 1, norm 2 1] 1"
  have ok: "log_ok ?l" "log_ok ?L" by (simp_all add: fresh_log_ok)
  have e: "entry_at ?L i = Some x \<longleftrightarrow> (i = 1 \<and> x = norm 1 1 \<or> i = 2 \<and> x = norm 2 2 \<or> i = 3 \<and> x = norm 3 2)"
      "entry_at ?l i = Some x \<longleftrightarrow> (i = 1 \<and> x = norm 1 1 \<or> i = 2 \<and> x = norm 2 1)" for i x
    by (auto simp: entry_at_def nth_Cons split: nat.splits)
  have m: "log_match ?L ?l" unfolding log_match_def e by auto
  have s: "sent ?L 1 2 = [norm 2 2, norm 3 2]" "term_at ?L 1 = 1" "term_at ?l 1 = 1" by (simp_all add: sent_def term_at_def)
  have k: "matching ?l [norm 2 2, norm 3 2] = 0" by (simp add: matching_def term_at_def)
  obtain l' where a: "maybeAppend ?l 1 1 3 [norm 2 2, norm 3 2] = Some (l', 3, True)"
    using maybeAppend_ok(2) [OF ok(1), of 1 "[norm 2 2, norm 3 2]" 1 3] k s by auto
  then show ?thesis
    using maybe_append_matches [OF ok m, of 1 3 2 l' 3] s e by (auto simp: numeral_eq_Suc)
qed

end
