(* ===== verification/Raft_Codec.thy ===== *)
theory Raft_Codec
  imports Raft_Types
begin

text \<open>
  The wire format of the raft messages, \<open>src/etcd/raft/raftpb/raft.pb.go\<close>: the generated \<open>Size\<close>,
  \<open>Marshal\<close>, \<open>MarshalToSizedBuffer\<close> and \<open>Unmarshal\<close> methods of every message, \<open>skipRaft\<close> for
  unknown fields, and \<open>MarshalConfChange\<close> of \<open>raftpb/confchange.go\<close>.

  Marshalling fills a buffer of \<open>Size\<close> bytes from its end to its start. The buffer and the position
  are a pair \<open>(dAtA, i)\<close>; an index or a slice out of range is a panic (\<open>None\<close>). Unmarshalling keeps
  the bytes and the position \<open>iNdEx\<close>. The \<open>switch\<close> on the field number is a table from field numbers
  to the code of the case; the loop over the fields is the same in every message, so it is one
  definition with the table as an argument. It is partial, \<open>None\<close> stands for a loop that does not
  end. A returned error is \<open>Inl\<close>.

  The theorems: \<open>Marshal\<close> never panics and fills the buffer exactly; what it writes is read back as
  the same message; \<open>Unmarshal\<close> returns on every input.
\<close>

section \<open>Numbers of the enumerations\<close>

definition wrap32 :: "int \<Rightarrow> int" where
  "wrap32 i = (i + 2 ^ 31) mod 2 ^ 32 - 2 ^ 31"

definition EntryType_of :: "int \<Rightarrow> EntryType" where
  "EntryType_of i = (if i = 0 then EntryNormal else if i = 1 then EntryConfChange else if i = 2 then EntryConfChangeV2
     else EntryTypeUnknown i)"

definition MessageTypes :: "MessageType list" where
  "MessageTypes = [MsgHup, MsgBeat, MsgProp, MsgApp, MsgAppResp, MsgVote, MsgVoteResp, MsgSnap, MsgHeartbeat,
     MsgHeartbeatResp, MsgUnreachable, MsgSnapStatus, MsgCheckQuorum, MsgTransferLeader, MsgTimeoutNow,
     MsgReadIndex, MsgReadIndexResp, MsgPreVote, MsgPreVoteResp]"

definition MessageType_of :: "int \<Rightarrow> MessageType" where
  "MessageType_of i = (if 0 \<le> i \<and> i < 19 then MessageTypes ! nat i else MessageTypeUnknown i)"

fun MessageType_num :: "MessageType \<Rightarrow> int" where
  "MessageType_num MsgHup = 0"
| "MessageType_num MsgBeat = 1"
| "MessageType_num MsgProp = 2"
| "MessageType_num MsgApp = 3"
| "MessageType_num MsgAppResp = 4"
| "MessageType_num MsgVote = 5"
| "MessageType_num MsgVoteResp = 6"
| "MessageType_num MsgSnap = 7"
| "MessageType_num MsgHeartbeat = 8"
| "MessageType_num MsgHeartbeatResp = 9"
| "MessageType_num MsgUnreachable = 10"
| "MessageType_num MsgSnapStatus = 11"
| "MessageType_num MsgCheckQuorum = 12"
| "MessageType_num MsgTransferLeader = 13"
| "MessageType_num MsgTimeoutNow = 14"
| "MessageType_num MsgReadIndex = 15"
| "MessageType_num MsgReadIndexResp = 16"
| "MessageType_num MsgPreVote = 17"
| "MessageType_num MsgPreVoteResp = 18"
| "MessageType_num (MessageTypeUnknown i) = i"

definition ConfChangeTransition_num :: "ConfChangeTransition \<Rightarrow> int" where
  "ConfChangeTransition_num t =
     (case t of ConfChangeTransitionAuto \<Rightarrow> 0 | ConfChangeTransitionJointImplicit \<Rightarrow> 1
      | ConfChangeTransitionJointExplicit \<Rightarrow> 2 | ConfChangeTransitionUnknown i \<Rightarrow> i)"

definition ConfChangeTransition_of :: "int \<Rightarrow> ConfChangeTransition" where
  "ConfChangeTransition_of i =
     (if i = 0 then ConfChangeTransitionAuto else if i = 1 then ConfChangeTransitionJointImplicit
      else if i = 2 then ConfChangeTransitionJointExplicit else ConfChangeTransitionUnknown i)"

definition ConfChangeType_num :: "ConfChangeType \<Rightarrow> int" where
  "ConfChangeType_num t =
     (case t of ConfChangeAddNode \<Rightarrow> 0 | ConfChangeRemoveNode \<Rightarrow> 1 | ConfChangeUpdateNode \<Rightarrow> 2
      | ConfChangeAddLearnerNode \<Rightarrow> 3 | ConfChangeTypeUnknown i \<Rightarrow> i)"

definition ConfChangeType_of :: "int \<Rightarrow> ConfChangeType" where
  "ConfChangeType_of i =
     (if i = 0 then ConfChangeAddNode else if i = 1 then ConfChangeRemoveNode else if i = 2 then ConfChangeUpdateNode
      else if i = 3 then ConfChangeAddLearnerNode else ConfChangeTypeUnknown i)"

section \<open>Sizes\<close>

definition sub_Size :: "nat \<Rightarrow> nat" where
  "sub_Size l = 1 + l + sovRaft l"

definition uint64s_Size :: "nat list \<Rightarrow> nat" where
  "uint64s_Size xs = (\<Sum>e\<leftarrow>xs. 1 + sovRaft e)"

definition ConfState_Size :: "ConfState \<Rightarrow> nat" where
  "ConfState_Size m =
     uint64s_Size (csVoters m) + uint64s_Size (csLearners m) + uint64s_Size (csVotersOutgoing m)
     + uint64s_Size (csLearnersNext m) + 2"

definition SnapshotMetadata_Size :: "SnapshotMetadata \<Rightarrow> nat" where
  "SnapshotMetadata_Size m =
     sub_Size (ConfState_Size (smConfState m)) + (1 + sovRaft (smIndex m)) + (1 + sovRaft (smTerm m))"

definition Snapshot_Size :: "Snapshot \<Rightarrow> nat" where
  "Snapshot_Size m = bytes_Size (snData m) + sub_Size (SnapshotMetadata_Size (snMetadata m))"

definition Message_Size :: "Message \<Rightarrow> nat" where
  "Message_Size m =
     (1 + sovRaft (uint64_of (MessageType_num (mType m)))) + (1 + sovRaft (mTo m)) + (1 + sovRaft (mFrom m))
     + (1 + sovRaft (mTerm m)) + (1 + sovRaft (mLogTerm m)) + (1 + sovRaft (mIndex m))
     + (\<Sum>e\<leftarrow>mEntries m. sub_Size (Entry_Size e))
     + (1 + sovRaft (mCommit m)) + sub_Size (Snapshot_Size (mSnapshot m)) + 2
     + (1 + sovRaft (mRejectHint m)) + bytes_Size (mContext m)"

definition HardState_Size :: "HardState \<Rightarrow> nat" where
  "HardState_Size m = (1 + sovRaft (hTerm m)) + (1 + sovRaft (hVote m)) + (1 + sovRaft (hCommit m))"

definition ConfChange_Size :: "ConfChange \<Rightarrow> nat" where
  "ConfChange_Size m =
     (1 + sovRaft (ccID m)) + (1 + sovRaft (uint64_of (ConfChangeType_num (ccType m)))) + (1 + sovRaft (ccNodeID m))
     + bytes_Size (ccContext m)"

definition ConfChangeSingle_Size :: "ConfChangeSingle \<Rightarrow> nat" where
  "ConfChangeSingle_Size m = (1 + sovRaft (uint64_of (ConfChangeType_num (csType m)))) + (1 + sovRaft (csNodeID m))"

definition ConfChangeV2_Size :: "ConfChangeV2 \<Rightarrow> nat" where
  "ConfChangeV2_Size m =
     (1 + sovRaft (uint64_of (ConfChangeTransition_num (c2Transition m))))
     + (\<Sum>e\<leftarrow>c2Changes m. sub_Size (ConfChangeSingle_Size e)) + bytes_Size (c2Context m)"

section \<open>Marshal\<close>

type_synonym buffer = "string \<times> nat"

text \<open>\<open>i--; dAtA[i] = b\<close>.\<close>

definition put_byte :: "char \<Rightarrow> buffer \<Rightarrow> buffer option" where
  "put_byte b = (\<lambda>(dAtA, i). if 0 < i \<and> i \<le> length dAtA then Some (dAtA[i - 1 := b], i - 1) else None)"

text \<open>\<open>i -= len(s); copy(dAtA[i:], s)\<close>.\<close>

definition put_copy :: "string \<Rightarrow> buffer \<Rightarrow> buffer option" where
  "put_copy s = (\<lambda>(dAtA, i). if length s \<le> i \<and> i \<le> length dAtA
     then Some (take (i - length s) dAtA @ s @ drop i dAtA, i - length s) else None)"

function encode_loop :: "string \<Rightarrow> nat \<Rightarrow> nat \<Rightarrow> string option" where
  "encode_loop dAtA offset v =
     (if offset < length dAtA then
        if v \<ge> 128 then encode_loop (dAtA[offset := char_of (or (and v 127) 128)]) (offset + 1) (drop_bit 7 v)
        else Some (dAtA[offset := char_of v])
      else None)"
  by pat_completeness auto
termination
  by (relation "measure (\<lambda>(dAtA, offset, _). length dAtA - offset)") auto

declare encode_loop.simps [simp del]

definition encodeVarintRaft :: "nat \<Rightarrow> buffer \<Rightarrow> buffer option" where
  "encodeVarintRaft v = (\<lambda>(dAtA, offset).
     if sovRaft v \<le> offset then
       do {
         let base = offset - sovRaft v;
         dAtA \<leftarrow> encode_loop dAtA base v;
         Some (dAtA, base)
       }
     else None)"

text \<open>A varint, a boolean, a byte slice and a message, each with its tag.\<close>

definition put_uint64 :: "char \<Rightarrow> nat \<Rightarrow> buffer \<Rightarrow> buffer option" where
  "put_uint64 tag v buf = do { buf \<leftarrow> encodeVarintRaft v buf; put_byte tag buf }"

definition put_bool :: "char \<Rightarrow> bool \<Rightarrow> buffer \<Rightarrow> buffer option" where
  "put_bool tag v buf = do { buf \<leftarrow> put_byte (if v then CHR 0x01 else CHR 0x00) buf; put_byte tag buf }"

definition put_bytes :: "char \<Rightarrow> slice \<Rightarrow> buffer \<Rightarrow> buffer option" where
  "put_bytes tag v buf =
     (case v of None \<Rightarrow> Some buf
      | Some s \<Rightarrow> do { buf \<leftarrow> put_copy s buf; buf \<leftarrow> encodeVarintRaft (length s) buf; put_byte tag buf })"

definition put_msg :: "char \<Rightarrow> (string \<Rightarrow> (string \<times> nat) option) \<Rightarrow> buffer \<Rightarrow> buffer option" where
  "put_msg tag f = (\<lambda>(dAtA, i).
     do {
       (sub, sz) \<leftarrow> f (take i dAtA);
       buf \<leftarrow> encodeVarintRaft sz (sub @ drop i dAtA, i - sz);
       put_byte tag buf
     })"

text \<open>The loops over a repeated field, from its last element to its first.\<close>

fun put_each :: "('a \<Rightarrow> buffer \<Rightarrow> buffer option) \<Rightarrow> 'a list \<Rightarrow> buffer \<Rightarrow> buffer option" where
  "put_each p [] buf = Some buf"
| "put_each p (x # xs) buf = do { buf \<leftarrow> put_each p xs buf; p x buf }"

definition written :: "buffer \<Rightarrow> (string \<times> nat) option" where
  "written = (\<lambda>(dAtA, i). Some (dAtA, length dAtA - i))"

text \<open>The methods return the number of bytes written; the buffer they have filled is returned with it.\<close>

definition Entry_MarshalToSizedBuffer :: "Entry \<Rightarrow> string \<Rightarrow> (string \<times> nat) option" where
  "Entry_MarshalToSizedBuffer m dAtA =
     do {
       buf \<leftarrow> put_bytes (CHR 0x22) (eData m) (dAtA, length dAtA);
       buf \<leftarrow> put_uint64 (CHR 0x18) (eIndex m) buf;
       buf \<leftarrow> put_uint64 (CHR 0x10) (eTerm m) buf;
       buf \<leftarrow> put_uint64 (CHR 0x08) (uint64_of (EntryType_num (eType m))) buf;
       written buf
     }"

definition ConfState_MarshalToSizedBuffer :: "ConfState \<Rightarrow> string \<Rightarrow> (string \<times> nat) option" where
  "ConfState_MarshalToSizedBuffer m dAtA =
     do {
       buf \<leftarrow> put_bool (CHR 0x28) (csAutoLeave m) (dAtA, length dAtA);
       buf \<leftarrow> put_each (put_uint64 (CHR 0x20)) (csLearnersNext m) buf;
       buf \<leftarrow> put_each (put_uint64 (CHR 0x18)) (csVotersOutgoing m) buf;
       buf \<leftarrow> put_each (put_uint64 (CHR 0x10)) (csLearners m) buf;
       buf \<leftarrow> put_each (put_uint64 (CHR 0x08)) (csVoters m) buf;
       written buf
     }"

definition SnapshotMetadata_MarshalToSizedBuffer :: "SnapshotMetadata \<Rightarrow> string \<Rightarrow> (string \<times> nat) option" where
  "SnapshotMetadata_MarshalToSizedBuffer m dAtA =
     do {
       buf \<leftarrow> put_uint64 (CHR 0x18) (smTerm m) (dAtA, length dAtA);
       buf \<leftarrow> put_uint64 (CHR 0x10) (smIndex m) buf;
       buf \<leftarrow> put_msg (CHR 0x0A) (ConfState_MarshalToSizedBuffer (smConfState m)) buf;
       written buf
     }"

definition Snapshot_MarshalToSizedBuffer :: "Snapshot \<Rightarrow> string \<Rightarrow> (string \<times> nat) option" where
  "Snapshot_MarshalToSizedBuffer m dAtA =
     do {
       buf \<leftarrow> put_msg (CHR 0x12) (SnapshotMetadata_MarshalToSizedBuffer (snMetadata m)) (dAtA, length dAtA);
       buf \<leftarrow> put_bytes (CHR 0x0A) (snData m) buf;
       written buf
     }"

definition Message_MarshalToSizedBuffer :: "Message \<Rightarrow> string \<Rightarrow> (string \<times> nat) option" where
  "Message_MarshalToSizedBuffer m dAtA =
     do {
       buf \<leftarrow> put_bytes (CHR 0x62) (mContext m) (dAtA, length dAtA);
       buf \<leftarrow> put_uint64 (CHR 0x58) (mRejectHint m) buf;
       buf \<leftarrow> put_bool (CHR 0x50) (mReject m) buf;
       buf \<leftarrow> put_msg (CHR 0x4A) (Snapshot_MarshalToSizedBuffer (mSnapshot m)) buf;
       buf \<leftarrow> put_uint64 (CHR 0x40) (mCommit m) buf;
       buf \<leftarrow> put_each (\<lambda>e. put_msg (CHR 0x3A) (Entry_MarshalToSizedBuffer e)) (mEntries m) buf;
       buf \<leftarrow> put_uint64 (CHR 0x30) (mIndex m) buf;
       buf \<leftarrow> put_uint64 (CHR 0x28) (mLogTerm m) buf;
       buf \<leftarrow> put_uint64 (CHR 0x20) (mTerm m) buf;
       buf \<leftarrow> put_uint64 (CHR 0x18) (mFrom m) buf;
       buf \<leftarrow> put_uint64 (CHR 0x10) (mTo m) buf;
       buf \<leftarrow> put_uint64 (CHR 0x08) (uint64_of (MessageType_num (mType m))) buf;
       written buf
     }"

definition HardState_MarshalToSizedBuffer :: "HardState \<Rightarrow> string \<Rightarrow> (string \<times> nat) option" where
  "HardState_MarshalToSizedBuffer m dAtA =
     do {
       buf \<leftarrow> put_uint64 (CHR 0x18) (hCommit m) (dAtA, length dAtA);
       buf \<leftarrow> put_uint64 (CHR 0x10) (hVote m) buf;
       buf \<leftarrow> put_uint64 (CHR 0x08) (hTerm m) buf;
       written buf
     }"

definition ConfChange_MarshalToSizedBuffer :: "ConfChange \<Rightarrow> string \<Rightarrow> (string \<times> nat) option" where
  "ConfChange_MarshalToSizedBuffer m dAtA =
     do {
       buf \<leftarrow> put_bytes (CHR 0x22) (ccContext m) (dAtA, length dAtA);
       buf \<leftarrow> put_uint64 (CHR 0x18) (ccNodeID m) buf;
       buf \<leftarrow> put_uint64 (CHR 0x10) (uint64_of (ConfChangeType_num (ccType m))) buf;
       buf \<leftarrow> put_uint64 (CHR 0x08) (ccID m) buf;
       written buf
     }"

definition ConfChangeSingle_MarshalToSizedBuffer :: "ConfChangeSingle \<Rightarrow> string \<Rightarrow> (string \<times> nat) option" where
  "ConfChangeSingle_MarshalToSizedBuffer m dAtA =
     do {
       buf \<leftarrow> put_uint64 (CHR 0x10) (csNodeID m) (dAtA, length dAtA);
       buf \<leftarrow> put_uint64 (CHR 0x08) (uint64_of (ConfChangeType_num (csType m))) buf;
       written buf
     }"

definition ConfChangeV2_MarshalToSizedBuffer :: "ConfChangeV2 \<Rightarrow> string \<Rightarrow> (string \<times> nat) option" where
  "ConfChangeV2_MarshalToSizedBuffer m dAtA =
     do {
       buf \<leftarrow> put_bytes (CHR 0x1A) (c2Context m) (dAtA, length dAtA);
       buf \<leftarrow> put_each (\<lambda>e. put_msg (CHR 0x12) (ConfChangeSingle_MarshalToSizedBuffer e)) (c2Changes m) buf;
       buf \<leftarrow> put_uint64 (CHR 0x08) (uint64_of (ConfChangeTransition_num (c2Transition m))) buf;
       written buf
     }"

text \<open>\<open>Marshal\<close> is the same in every message: a buffer of the computed size, filled by the method above.\<close>

definition Marshal :: "nat \<Rightarrow> (string \<Rightarrow> (string \<times> nat) option) \<Rightarrow> string option" where
  "Marshal sz f = do { (dAtA, n) \<leftarrow> f (replicate sz (CHR 0x00)); Some (take n dAtA) }"

definition Entry_Marshal :: "Entry \<Rightarrow> string option" where
  "Entry_Marshal m = Marshal (Entry_Size m) (Entry_MarshalToSizedBuffer m)"

definition SnapshotMetadata_Marshal :: "SnapshotMetadata \<Rightarrow> string option" where
  "SnapshotMetadata_Marshal m = Marshal (SnapshotMetadata_Size m) (SnapshotMetadata_MarshalToSizedBuffer m)"

definition Snapshot_Marshal :: "Snapshot \<Rightarrow> string option" where
  "Snapshot_Marshal m = Marshal (Snapshot_Size m) (Snapshot_MarshalToSizedBuffer m)"

definition Message_Marshal :: "Message \<Rightarrow> string option" where
  "Message_Marshal m = Marshal (Message_Size m) (Message_MarshalToSizedBuffer m)"

definition HardState_Marshal :: "HardState \<Rightarrow> string option" where
  "HardState_Marshal m = Marshal (HardState_Size m) (HardState_MarshalToSizedBuffer m)"

definition ConfState_Marshal :: "ConfState \<Rightarrow> string option" where
  "ConfState_Marshal m = Marshal (ConfState_Size m) (ConfState_MarshalToSizedBuffer m)"

definition ConfChange_Marshal :: "ConfChange \<Rightarrow> string option" where
  "ConfChange_Marshal m = Marshal (ConfChange_Size m) (ConfChange_MarshalToSizedBuffer m)"

definition ConfChangeSingle_Marshal :: "ConfChangeSingle \<Rightarrow> string option" where
  "ConfChangeSingle_Marshal m = Marshal (ConfChangeSingle_Size m) (ConfChangeSingle_MarshalToSizedBuffer m)"

definition ConfChangeV2_Marshal :: "ConfChangeV2 \<Rightarrow> string option" where
  "ConfChangeV2_Marshal m = Marshal (ConfChangeV2_Size m) (ConfChangeV2_MarshalToSizedBuffer m)"

definition MarshalConfChange :: "ConfChangeI \<Rightarrow> (EntryType \<times> string) option" where
  "MarshalConfChange c =
     (let (ccv1, ok) = AsV1 c in
      if ok then map_option (Pair EntryConfChange) (ConfChange_Marshal ccv1)
      else map_option (Pair EntryConfChangeV2) (ConfChangeV2_Marshal (AsV2 c)))"

section \<open>Unmarshal\<close>

datatype PbErr =
    ErrIntOverflowRaft | ErrUnexpectedEOF | ErrInvalidLengthRaft | ErrUnexpectedEndOfGroupRaft
  | ErrEndGroup | ErrIllegalTag int nat | ErrWrongWireType nat | ErrIllegalWireType nat

text \<open>
  The loop that reads a varint. It is written out at every use in the source, with an accumulator
  of type \<open>uint64\<close>, \<open>int\<close> or the enumeration, which has 32 bits; the bits shifted out are lost, so
  the narrower accumulators hold the wrapped value of the widest.
\<close>

function varint_loop :: "string \<Rightarrow> nat \<Rightarrow> nat \<Rightarrow> nat \<Rightarrow> PbErr + nat \<times> nat" where
  "varint_loop dAtA iNdEx shift v =
     (if shift \<ge> 64 then Inl ErrIntOverflowRaft
      else if iNdEx \<ge> length dAtA then Inl ErrUnexpectedEOF
      else let b = of_char (dAtA ! iNdEx); v = or v (take_bit 64 (push_bit shift (and b 127))) in
        if b < 128 then Inr (v, iNdEx + 1) else varint_loop dAtA (iNdEx + 1) (shift + 7) v)"
  by pat_completeness auto
termination
  by (relation "measure (\<lambda>(_, _, shift, _). 64 - shift)") auto

declare varint_loop.simps [simp del]

definition read_varint :: "string \<Rightarrow> nat \<Rightarrow> PbErr + nat \<times> nat" where
  "read_varint dAtA iNdEx = varint_loop dAtA iNdEx 0 0"

text \<open>The length of a field, an \<open>int\<close>, and the position after it.\<close>

definition read_length :: "string \<Rightarrow> nat \<Rightarrow> PbErr + nat \<times> nat" where
  "read_length dAtA iNdEx =
     (case read_varint dAtA iNdEx of Inl err \<Rightarrow> Inl err
      | Inr (v, iNdEx) \<Rightarrow>
          let len = wrap64 (int v) in
          if len < 0 then Inl ErrInvalidLengthRaft
          else if wrap64 (int iNdEx + len) < 0 then Inl ErrInvalidLengthRaft
          else Inr (iNdEx, iNdEx + nat len))"

text \<open>\<open>skipRaft\<close> returns the length of the field at the start of its argument.\<close>

definition skip_value :: "string \<Rightarrow> nat \<Rightarrow> nat \<Rightarrow> nat \<Rightarrow> PbErr + nat \<times> nat" where
  "skip_value dAtA wireType iNdEx depth =
     (if wireType = 0 then (case read_varint dAtA iNdEx of Inl err \<Rightarrow> Inl err | Inr (_, iNdEx) \<Rightarrow> Inr (iNdEx, depth))
      else if wireType = 1 then Inr (iNdEx + 8, depth)
      else if wireType = 2 then (case read_length dAtA iNdEx of Inl err \<Rightarrow> Inl err | Inr (_, post) \<Rightarrow> Inr (post, depth))
      else if wireType = 3 then Inr (iNdEx, depth + 1)
      else if wireType = 4 then (if depth = 0 then Inl ErrUnexpectedEndOfGroupRaft else Inr (iNdEx, depth - 1))
      else if wireType = 5 then Inr (iNdEx + 4, depth)
      else Inl (ErrIllegalWireType wireType))"

lemma varint_loop_progress: "varint_loop d i s v = Inr (w, j) \<Longrightarrow> i < j \<and> j \<le> length d"
proof (induction d i s v rule: varint_loop.induct)
  case (1 d i s v)
  note loop = "1.prems" [unfolded varint_loop.simps [of d i s v]]
  show ?case using loop by (auto simp: Let_def split: if_splits dest!: "1.IH" [OF _ _ refl refl])
qed

lemma read_varint_progress: "read_varint d i = Inr (w, j) \<Longrightarrow> i < j \<and> j \<le> length d"
  by (auto simp: read_varint_def dest: varint_loop_progress)

lemma read_length_progress: "read_length d i = Inr (j, k) \<Longrightarrow> i < j \<and> j \<le> k \<and> j \<le> length d"
  by (auto simp: read_length_def Let_def split: sum.splits if_splits dest: read_varint_progress)

lemma skip_value_progress: "skip_value d w i depth = Inr (j, depth') \<Longrightarrow> i \<le> j"
  by (auto simp: skip_value_def split: sum.splits if_splits dest: read_varint_progress read_length_progress)

function skip_loop :: "string \<Rightarrow> nat \<Rightarrow> nat \<Rightarrow> PbErr + nat" where
  "skip_loop dAtA iNdEx depth =
     (if iNdEx \<ge> length dAtA then Inl ErrUnexpectedEOF
      else case read_varint dAtA iNdEx of Inl err \<Rightarrow> Inl err
        | Inr (wire, iNdEx) \<Rightarrow>
            (case skip_value dAtA (and wire 7) iNdEx depth of Inl err \<Rightarrow> Inl err
             | Inr (iNdEx, depth) \<Rightarrow> if depth = 0 then Inr iNdEx else skip_loop dAtA iNdEx depth))"
  by pat_completeness auto
termination
  by (relation "measure (\<lambda>(dAtA, iNdEx, _). length dAtA - iNdEx)")
    (auto dest!: read_varint_progress skip_value_progress)

declare skip_loop.simps [simp del]

definition skipRaft :: "string \<Rightarrow> PbErr + nat" where
  "skipRaft dAtA = skip_loop dAtA 0 0"

text \<open>
  The cases of the \<open>switch\<close>: a number, repeated numbers (one, or many in a packed field), a byte
  slice, a message. A number is stored into the field at once, through \<open>upd\<close>.
\<close>

type_synonym 'm case_code = "nat \<Rightarrow> string \<Rightarrow> nat \<Rightarrow> 'm \<Rightarrow> (PbErr + 'm \<times> nat) option"

definition case_varint :: "(nat \<Rightarrow> 'm \<Rightarrow> 'm) \<Rightarrow> 'm case_code" where
  "case_varint upd wireType dAtA iNdEx m =
     (if wireType \<noteq> 0 then Some (Inl (ErrWrongWireType wireType))
      else case read_varint dAtA iNdEx of Inl err \<Rightarrow> Some (Inl err) | Inr (v, iNdEx) \<Rightarrow> Some (Inr (upd v m, iNdEx)))"

function packed_loop :: "(nat \<Rightarrow> 'm \<Rightarrow> 'm) \<Rightarrow> string \<Rightarrow> nat \<Rightarrow> nat \<Rightarrow> 'm \<Rightarrow> PbErr + 'm \<times> nat" where
  "packed_loop app dAtA postIndex iNdEx m =
     (if iNdEx < postIndex then
        (case read_varint dAtA iNdEx of Inl err \<Rightarrow> Inl err
         | Inr (v, iNdEx) \<Rightarrow> packed_loop app dAtA postIndex iNdEx (app v m))
      else Inr (m, iNdEx))"
  by pat_completeness auto
termination
  by (relation "measure (\<lambda>(_, dAtA, _, iNdEx, _). length dAtA - iNdEx)") (auto dest!: read_varint_progress)

declare packed_loop.simps [simp del]

definition case_uint64s :: "(nat \<Rightarrow> 'm \<Rightarrow> 'm) \<Rightarrow> 'm case_code" where
  "case_uint64s app wireType dAtA iNdEx m =
     (if wireType = 0 then
        (case read_varint dAtA iNdEx of Inl err \<Rightarrow> Some (Inl err) | Inr (v, iNdEx) \<Rightarrow> Some (Inr (app v m, iNdEx)))
      else if wireType = 2 then
        (case read_length dAtA iNdEx of Inl err \<Rightarrow> Some (Inl err)
         | Inr (iNdEx, postIndex) \<Rightarrow>
             if postIndex > length dAtA then Some (Inl ErrUnexpectedEOF)
             else Some (packed_loop app dAtA postIndex iNdEx m))
      else Some (Inl (ErrWrongWireType wireType)))"

definition case_msg :: "(string \<Rightarrow> 'm \<Rightarrow> (PbErr + 'm) option) \<Rightarrow> 'm case_code" where
  "case_msg sub wireType dAtA iNdEx m =
     (if wireType \<noteq> 2 then Some (Inl (ErrWrongWireType wireType))
      else case read_length dAtA iNdEx of Inl err \<Rightarrow> Some (Inl err)
        | Inr (iNdEx, postIndex) \<Rightarrow>
            if postIndex > length dAtA then Some (Inl ErrUnexpectedEOF)
            else case sub (take (postIndex - iNdEx) (drop iNdEx dAtA)) m of
                None \<Rightarrow> None | Some (Inl err) \<Rightarrow> Some (Inl err) | Some (Inr m) \<Rightarrow> Some (Inr (m, postIndex)))"

definition case_bytes :: "(slice \<Rightarrow> 'm \<Rightarrow> 'm) \<Rightarrow> 'm case_code" where
  "case_bytes upd = case_msg (\<lambda>bytes m. Some (Inr (upd (Some bytes) m)))"

text \<open>The loop over the fields.\<close>

partial_function (option) unmarshal_loop ::
    "(int \<rightharpoonup> 'm case_code) \<Rightarrow> string \<Rightarrow> nat \<Rightarrow> 'm \<Rightarrow> (PbErr + 'm) option" where
  "unmarshal_loop fs dAtA iNdEx m =
     (if iNdEx < length dAtA then
        (case read_varint dAtA iNdEx of Inl err \<Rightarrow> Some (Inl err)
         | Inr (wire, after_tag) \<Rightarrow>
             (let fieldNum = wrap32 (int (drop_bit 3 wire)); wireType = and wire 7 in
              if wireType = 4 then Some (Inl ErrEndGroup)
              else if fieldNum \<le> 0 then Some (Inl (ErrIllegalTag fieldNum wire))
              else (case fs fieldNum of
                  Some code \<Rightarrow>
                    do {
                      r \<leftarrow> code wireType dAtA after_tag m;
                      (case r of Inl err \<Rightarrow> Some (Inl err) | Inr (m, iNdEx) \<Rightarrow> unmarshal_loop fs dAtA iNdEx m)
                    }
                | None \<Rightarrow>
                    (case skipRaft (drop iNdEx dAtA) of Inl err \<Rightarrow> Some (Inl err)
                     | Inr skippy \<Rightarrow>
                         if wrap64 (int iNdEx + int skippy) < 0 then Some (Inl ErrInvalidLengthRaft)
                         else if iNdEx + skippy > length dAtA then Some (Inl ErrUnexpectedEOF)
                         else unmarshal_loop fs dAtA (iNdEx + skippy) m))))
      else if iNdEx > length dAtA then Some (Inl ErrUnexpectedEOF)
      else Some (Inr m))"

declare unmarshal_loop.simps [code]

abbreviation Unmarshal :: "(int \<rightharpoonup> 'm case_code) \<Rightarrow> string \<Rightarrow> 'm \<Rightarrow> (PbErr + 'm) option" where
  "Unmarshal fs dAtA m \<equiv> unmarshal_loop fs dAtA 0 m"

text \<open>A message inside another is unmarshalled in place.\<close>

definition in_place :: "(string \<Rightarrow> 'a \<Rightarrow> (PbErr + 'a) option) \<Rightarrow> ('m \<Rightarrow> 'a) \<Rightarrow> ('a \<Rightarrow> 'm \<Rightarrow> 'm) \<Rightarrow> string \<Rightarrow> 'm \<Rightarrow> (PbErr + 'm) option" where
  "in_place sub get put dAtA m = map_option (map_sum id (\<lambda>x. put x m)) (sub dAtA (get m))"

definition Entry_fields :: "int \<rightharpoonup> Entry case_code" where
  "Entry_fields =
     [1 \<mapsto> case_varint (\<lambda>v m. m\<lparr>eType := EntryType_of (wrap32 (int v))\<rparr>),
      2 \<mapsto> case_varint (\<lambda>v m. m\<lparr>eTerm := v\<rparr>),
      3 \<mapsto> case_varint (\<lambda>v m. m\<lparr>eIndex := v\<rparr>),
      4 \<mapsto> case_bytes (\<lambda>v m. m\<lparr>eData := v\<rparr>)]"

definition Entry_Unmarshal :: "string \<Rightarrow> Entry \<Rightarrow> (PbErr + Entry) option" where
  "Entry_Unmarshal dAtA m = Unmarshal Entry_fields dAtA m"

definition ConfState_fields :: "int \<rightharpoonup> ConfState case_code" where
  "ConfState_fields =
     [1 \<mapsto> case_uint64s (\<lambda>v m. m\<lparr>csVoters := csVoters m @ [v]\<rparr>),
      2 \<mapsto> case_uint64s (\<lambda>v m. m\<lparr>csLearners := csLearners m @ [v]\<rparr>),
      3 \<mapsto> case_uint64s (\<lambda>v m. m\<lparr>csVotersOutgoing := csVotersOutgoing m @ [v]\<rparr>),
      4 \<mapsto> case_uint64s (\<lambda>v m. m\<lparr>csLearnersNext := csLearnersNext m @ [v]\<rparr>),
      5 \<mapsto> case_varint (\<lambda>v m. m\<lparr>csAutoLeave := (v \<noteq> 0)\<rparr>)]"

definition ConfState_Unmarshal :: "string \<Rightarrow> ConfState \<Rightarrow> (PbErr + ConfState) option" where
  "ConfState_Unmarshal dAtA m = Unmarshal ConfState_fields dAtA m"

definition SnapshotMetadata_fields :: "int \<rightharpoonup> SnapshotMetadata case_code" where
  "SnapshotMetadata_fields =
     [1 \<mapsto> case_msg (in_place ConfState_Unmarshal smConfState (\<lambda>x m. m\<lparr>smConfState := x\<rparr>)),
      2 \<mapsto> case_varint (\<lambda>v m. m\<lparr>smIndex := v\<rparr>),
      3 \<mapsto> case_varint (\<lambda>v m. m\<lparr>smTerm := v\<rparr>)]"

definition SnapshotMetadata_Unmarshal :: "string \<Rightarrow> SnapshotMetadata \<Rightarrow> (PbErr + SnapshotMetadata) option" where
  "SnapshotMetadata_Unmarshal dAtA m = Unmarshal SnapshotMetadata_fields dAtA m"

definition Snapshot_fields :: "int \<rightharpoonup> Snapshot case_code" where
  "Snapshot_fields =
     [1 \<mapsto> case_bytes (\<lambda>v m. m\<lparr>snData := v\<rparr>),
      2 \<mapsto> case_msg (in_place SnapshotMetadata_Unmarshal snMetadata (\<lambda>x m. m\<lparr>snMetadata := x\<rparr>))]"

definition Snapshot_Unmarshal :: "string \<Rightarrow> Snapshot \<Rightarrow> (PbErr + Snapshot) option" where
  "Snapshot_Unmarshal dAtA m = Unmarshal Snapshot_fields dAtA m"

definition Message_fields :: "int \<rightharpoonup> Message case_code" where
  "Message_fields =
     [1 \<mapsto> case_varint (\<lambda>v m. m\<lparr>mType := MessageType_of (wrap32 (int v))\<rparr>),
      2 \<mapsto> case_varint (\<lambda>v m. m\<lparr>mTo := v\<rparr>),
      3 \<mapsto> case_varint (\<lambda>v m. m\<lparr>mFrom := v\<rparr>),
      4 \<mapsto> case_varint (\<lambda>v m. m\<lparr>mTerm := v\<rparr>),
      5 \<mapsto> case_varint (\<lambda>v m. m\<lparr>mLogTerm := v\<rparr>),
      6 \<mapsto> case_varint (\<lambda>v m. m\<lparr>mIndex := v\<rparr>),
      7 \<mapsto> case_msg (in_place Entry_Unmarshal (\<lambda>m. emptyEntry) (\<lambda>x m. m\<lparr>mEntries := mEntries m @ [x]\<rparr>)),
      8 \<mapsto> case_varint (\<lambda>v m. m\<lparr>mCommit := v\<rparr>),
      9 \<mapsto> case_msg (in_place Snapshot_Unmarshal mSnapshot (\<lambda>x m. m\<lparr>mSnapshot := x\<rparr>)),
      10 \<mapsto> case_varint (\<lambda>v m. m\<lparr>mReject := (v \<noteq> 0)\<rparr>),
      11 \<mapsto> case_varint (\<lambda>v m. m\<lparr>mRejectHint := v\<rparr>),
      12 \<mapsto> case_bytes (\<lambda>v m. m\<lparr>mContext := v\<rparr>)]"

definition Message_Unmarshal :: "string \<Rightarrow> Message \<Rightarrow> (PbErr + Message) option" where
  "Message_Unmarshal dAtA m = Unmarshal Message_fields dAtA m"

definition HardState_fields :: "int \<rightharpoonup> HardState case_code" where
  "HardState_fields =
     [1 \<mapsto> case_varint (\<lambda>v m. m\<lparr>hTerm := v\<rparr>),
      2 \<mapsto> case_varint (\<lambda>v m. m\<lparr>hVote := v\<rparr>),
      3 \<mapsto> case_varint (\<lambda>v m. m\<lparr>hCommit := v\<rparr>)]"

definition HardState_Unmarshal :: "string \<Rightarrow> HardState \<Rightarrow> (PbErr + HardState) option" where
  "HardState_Unmarshal dAtA m = Unmarshal HardState_fields dAtA m"

definition ConfChange_fields :: "int \<rightharpoonup> ConfChange case_code" where
  "ConfChange_fields =
     [1 \<mapsto> case_varint (\<lambda>v m. m\<lparr>ccID := v\<rparr>),
      2 \<mapsto> case_varint (\<lambda>v m. m\<lparr>ccType := ConfChangeType_of (wrap32 (int v))\<rparr>),
      3 \<mapsto> case_varint (\<lambda>v m. m\<lparr>ccNodeID := v\<rparr>),
      4 \<mapsto> case_bytes (\<lambda>v m. m\<lparr>ccContext := v\<rparr>)]"

definition ConfChange_Unmarshal :: "string \<Rightarrow> ConfChange \<Rightarrow> (PbErr + ConfChange) option" where
  "ConfChange_Unmarshal dAtA m = Unmarshal ConfChange_fields dAtA m"

definition ConfChangeSingle_fields :: "int \<rightharpoonup> ConfChangeSingle case_code" where
  "ConfChangeSingle_fields =
     [1 \<mapsto> case_varint (\<lambda>v m. m\<lparr>csType := ConfChangeType_of (wrap32 (int v))\<rparr>),
      2 \<mapsto> case_varint (\<lambda>v m. m\<lparr>csNodeID := v\<rparr>)]"

definition ConfChangeSingle_Unmarshal :: "string \<Rightarrow> ConfChangeSingle \<Rightarrow> (PbErr + ConfChangeSingle) option" where
  "ConfChangeSingle_Unmarshal dAtA m = Unmarshal ConfChangeSingle_fields dAtA m"

definition emptyConfChangeSingle :: ConfChangeSingle where
  "emptyConfChangeSingle = \<lparr>csType = ConfChangeAddNode, csNodeID = 0\<rparr>"

definition ConfChangeV2_fields :: "int \<rightharpoonup> ConfChangeV2 case_code" where
  "ConfChangeV2_fields =
     [1 \<mapsto> case_varint (\<lambda>v m. m\<lparr>c2Transition := ConfChangeTransition_of (wrap32 (int v))\<rparr>),
      2 \<mapsto> case_msg (in_place ConfChangeSingle_Unmarshal (\<lambda>m. emptyConfChangeSingle)
             (\<lambda>x m. m\<lparr>c2Changes := c2Changes m @ [x]\<rparr>)),
      3 \<mapsto> case_bytes (\<lambda>v m. m\<lparr>c2Context := v\<rparr>)]"

definition ConfChangeV2_Unmarshal :: "string \<Rightarrow> ConfChangeV2 \<Rightarrow> (PbErr + ConfChangeV2) option" where
  "ConfChangeV2_Unmarshal dAtA m = Unmarshal ConfChangeV2_fields dAtA m"

section \<open>Unmarshal returns\<close>

lemma skip_loop_progress: "skip_loop d i k = Inr n \<Longrightarrow> i < n"
proof (induction d i k rule: skip_loop.induct)
  case (1 d i k)
  note loop = "1.prems" [unfolded skip_loop.simps [of d i k]]
  show ?case using loop
    by (fastforce split: if_splits sum.splits dest: read_varint_progress skip_value_progress "1.IH" [OF _ _ refl _ refl])
qed

text \<open>The code of a case returns, and does not move back.\<close>

definition advances :: "'m case_code \<Rightarrow> bool" where
  "advances code \<longleftrightarrow> (\<forall>w d i m. \<exists>r. code w d i m = Some r \<and> (\<forall>m' j. r = Inr (m', j) \<longrightarrow> i \<le> j))"

lemma packed_loop_progress: "packed_loop app d p i m = Inr (m', j) \<Longrightarrow> i \<le> j"
proof (induction app d p i m rule: packed_loop.induct)
  case (1 app d p i m)
  note loop = "1.prems" [unfolded packed_loop.simps [of app d p i m]]
  show ?case using loop by (fastforce split: if_splits sum.splits dest: read_varint_progress "1.IH" [OF _ _ refl])
qed

lemma advances_varint [simp]: "advances (case_varint upd)"
  by (auto simp: advances_def case_varint_def split: sum.splits dest: read_varint_progress)

lemma advances_uint64s [simp]: "advances (case_uint64s app)"
  by (auto simp: advances_def case_uint64s_def split: sum.splits
      dest!: read_varint_progress read_length_progress dest: packed_loop_progress)

lemma advances_msg:
  assumes "\<And>d m. sub d m \<noteq> None"
  shows "advances (case_msg sub)"
proof -
  have "\<exists>r. case_msg sub w d i m = Some r \<and> (\<forall>m' j. r = Inr (m', j) \<longrightarrow> i \<le> j)" for w d i m
    using assms read_length_progress [of d i] by (auto simp: case_msg_def split: sum.split option.split) (metis option.distinct(1))+
  then show ?thesis by (simp add: advances_def)
qed

lemma advances_bytes [simp]: "advances (case_bytes upd)"
  by (simp add: case_bytes_def advances_msg)

definition all_advance :: "(int \<rightharpoonup> 'm case_code) \<Rightarrow> bool" where
  "all_advance fs \<longleftrightarrow> (\<forall>k code. fs k = Some code \<longrightarrow> advances code)"

lemma all_advance_empty [simp]: "all_advance Map.empty"
  by (simp add: all_advance_def)

lemma all_advance_upd [simp]: "advances code \<Longrightarrow> all_advance fs \<Longrightarrow> all_advance (fs(k \<mapsto> code))"
  by (simp add: all_advance_def)

lemma unmarshal_returns:
  assumes fs: "all_advance fs"
  shows "\<exists>r. unmarshal_loop fs d i m = Some r"
proof (induction "length d - i" arbitrary: i m rule: less_induct)
  case less
  have go: "\<exists>r. unmarshal_loop fs d j m' = Some r" if "i < j" "i < length d" for j m'
    by (rule less) (use that in simp)
  show ?case
  proof (cases "i < length d")
    case True
    show ?thesis
    proof (cases "read_varint d i")
      case (Inr p)
      obtain w j where p: "p = (w, j)" by fastforce
      have ij: "i < j" using Inr p read_varint_progress by auto
      have skip: "0 < n" if "skipRaft (drop i d) = Inr n" for n
        using that skip_loop_progress [of "drop i d" 0 0 n] by (simp add: skipRaft_def)
      show ?thesis
      proof (cases "fs (wrap32 (int (drop_bit 3 w)))")
        case None
        then show ?thesis using True Inr p ij
          by (subst unmarshal_loop.simps) (auto simp: Let_def split: sum.splits intro: go dest!: skip)
      next
        case (Some code)
        obtain r where r: "code (and w 7) d j m = Some r" "\<And>m' k. r = Inr (m', k) \<Longrightarrow> j \<le> k"
          using fs Some unfolding all_advance_def advances_def by blast
        show ?thesis using True Inr p ij r Some
          by (subst unmarshal_loop.simps) (auto simp: Let_def split: sum.splits intro!: go dest: less_le_trans)
      qed
    qed (subst unmarshal_loop.simps, simp add: True)
  qed (subst unmarshal_loop.simps, simp)
qed

lemma Entry_Unmarshal_returns: "Entry_Unmarshal d m \<noteq> None"
  using unmarshal_returns [of Entry_fields d 0 m]
  by (simp add: Entry_Unmarshal_def Entry_fields_def)

lemma ConfState_Unmarshal_returns: "ConfState_Unmarshal d m \<noteq> None"
  using unmarshal_returns [of ConfState_fields d 0 m]
  by (simp add: ConfState_Unmarshal_def ConfState_fields_def)

lemma SnapshotMetadata_Unmarshal_returns: "SnapshotMetadata_Unmarshal d m \<noteq> None"
  using unmarshal_returns [of SnapshotMetadata_fields d 0 m] ConfState_Unmarshal_returns
  by (simp add: SnapshotMetadata_Unmarshal_def SnapshotMetadata_fields_def in_place_def advances_msg)

lemma Snapshot_Unmarshal_returns: "Snapshot_Unmarshal d m \<noteq> None"
  using unmarshal_returns [of Snapshot_fields d 0 m] SnapshotMetadata_Unmarshal_returns
  by (simp add: Snapshot_Unmarshal_def Snapshot_fields_def in_place_def advances_msg)

lemma Message_Unmarshal_returns: "Message_Unmarshal d m \<noteq> None"
  using unmarshal_returns [of Message_fields d 0 m] Snapshot_Unmarshal_returns Entry_Unmarshal_returns
  by (simp add: Message_Unmarshal_def Message_fields_def in_place_def advances_msg)

lemma HardState_Unmarshal_returns: "HardState_Unmarshal d m \<noteq> None"
  using unmarshal_returns [of HardState_fields d 0 m]
  by (simp add: HardState_Unmarshal_def HardState_fields_def)

lemma ConfChange_Unmarshal_returns: "ConfChange_Unmarshal d m \<noteq> None"
  using unmarshal_returns [of ConfChange_fields d 0 m]
  by (simp add: ConfChange_Unmarshal_def ConfChange_fields_def)

lemma ConfChangeSingle_Unmarshal_returns: "ConfChangeSingle_Unmarshal d m \<noteq> None"
  using unmarshal_returns [of ConfChangeSingle_fields d 0 m]
  by (simp add: ConfChangeSingle_Unmarshal_def ConfChangeSingle_fields_def)

lemma ConfChangeV2_Unmarshal_returns: "ConfChangeV2_Unmarshal d m \<noteq> None"
  using unmarshal_returns [of ConfChangeV2_fields d 0 m] ConfChangeSingle_Unmarshal_returns
  by (simp add: ConfChangeV2_Unmarshal_def ConfChangeV2_fields_def in_place_def advances_msg)

section \<open>Varints\<close>

fun varint :: "nat \<Rightarrow> string" where
  "varint v = (if v < 128 then [char_of v] else char_of (v mod 128 + 128) # varint (v div 128))"

declare varint.simps [simp del]

lemma varint_not_Nil [simp]: "varint v \<noteq> []"
  by (subst varint.simps) simp

lemma Len64_mono: "x \<le> y \<Longrightarrow> Len64 x \<le> Len64 y"
proof (induction x arbitrary: y rule: Len64.induct)
  case (1 x)
  then show ?case by (subst (1 2) Len64.simps) (auto simp: div_le_mono)
qed

lemma Len64_div: "2 \<le> x \<Longrightarrow> Len64 x = Suc (Len64 (x div 2))"
  by (subst Len64.simps) simp

lemma Len64_7: "128 \<le> x \<Longrightarrow> Len64 x = Len64 (x div 128) + 7"
  by (simp add: Len64_div div_mult2_eq [symmetric] flip: div_mult2_eq)

lemma Len64_or_1: "Len64 (or x (Suc 0)) = (if x = 0 then 1 else Len64 x)"
proof -
  have "or x (Suc 0) div 2 = x div 2" by (auto simp: or_Suc_0_eq elim!: evenE)
  moreover have "or x (Suc 0) \<noteq> 0" by (cases "x = 0") (simp_all add: or_Suc_0_eq)
  ultimately have "Len64 (or x (Suc 0)) = Suc (Len64 (x div 2))" by (subst Len64.simps) simp
  then show ?thesis by (simp add: Len64.simps [of x] Len64.simps [of 0])
qed

lemma length_varint: "length (varint v) = sovRaft v"
proof (induction v rule: varint.induct)
  case (1 v)
  show ?case
  proof (cases "v < 128")
    case True
    have "Len64 127 = 7" by (simp add: Len64.simps)
    then have "Len64 v \<le> 7" using True Len64_mono [of v 127] by simp
    moreover have "v \<noteq> 0 \<Longrightarrow> 1 \<le> Len64 v" by (simp add: Len64.simps [of v])
    ultimately have "1 \<le> Len64 (or v 1)" "Len64 (or v 1) \<le> 7" by (simp_all add: Len64_or_1)
    then have "sovRaft v = 1" unfolding sovRaft_def by presburger
    moreover have "varint v = [char_of v]" using True by (subst varint.simps) (rule if_P)
    ultimately show ?thesis by simp
  next
    case False
    have "Len64 (or v 1) = Len64 (or (v div 128) 1) + 7"
      using False Len64_7 [of v] by (simp add: Len64_or_1 div_eq_0_iff)
    then have "sovRaft v = Suc (sovRaft (v div 128))" unfolding sovRaft_def by presburger
    moreover have "varint v = char_of (v mod 128 + 128) # varint (v div 128)"
      using False by (subst varint.simps) (rule if_not_P)
    ultimately show ?thesis using "1.IH" False by simp
  qed
qed

lemma varint_small: "v < 128 \<Longrightarrow> varint v = [char_of v]"
  by (subst varint.simps) (rule if_P)

lemma varint_big: "\<not> v < 128 \<Longrightarrow> varint v = char_of (v mod 128 + 128) # varint (v div 128)"
  by (subst varint.simps) (rule if_not_P)

lemma sovRaft_small: "v < 128 \<Longrightarrow> sovRaft v = 1"
  by (simp add: length_varint [symmetric] varint_small)

lemma sovRaft_big: "\<not> v < 128 \<Longrightarrow> sovRaft v = Suc (sovRaft (v div 128))"
  by (simp add: length_varint [symmetric] varint_big)

lemma and_127: "and (v :: nat) 127 = v mod 128"
  using take_bit_eq_mask [of 7 v] by (simp add: take_bit_eq_mod mask_eq_exp_minus_1)

lemma or_push_bit: "(a :: nat) < 2 ^ n \<Longrightarrow> or a (push_bit n b) = a + b * 2 ^ n"
proof -
  assume "a < 2 ^ n"
  then have "bit a k \<Longrightarrow> k < n" for k by (metis bit_take_bit_iff take_bit_nat_eq_self_iff)
  then have "and a (push_bit n b) = 0" by (fastforce intro!: bit_eqI simp: bit_simps)
  then have "a + push_bit n b = or a (push_bit n b)" by (rule disjunctive_add_eq_or)
  then show ?thesis by (simp add: push_bit_eq_mult)
qed

lemma or_128: "or (v mod 128) 128 = v mod 128 + (128 :: nat)"
  using or_push_bit [of "v mod 128" 7 1] by (simp add: push_bit_eq_mult)

lemma encode_loop_varint:
  "off + length (varint v) \<le> length d
   \<Longrightarrow> encode_loop d off v = Some (take off d @ varint v @ drop (off + length (varint v)) d)"
proof (induction d off v rule: encode_loop.induct)
  case (1 d off v)
  show ?case
  proof (cases "v < 128")
    case True
    then show ?thesis using "1.prems" by (subst encode_loop.simps) (auto simp: varint_small upd_conv_take_nth_drop)
  next
    case False
    let ?b = "char_of (v mod 128 + 128)"
    have off: "off < length d" using "1.prems" by (cases "varint v") auto
    have "encode_loop d off v = encode_loop (d[off := ?b]) (off + 1) (v div 128)"
      using off False by (subst encode_loop.simps) (simp add: and_127 or_128 drop_bit_eq_div)
    also have "\<dots> = Some (take (off + 1) (d[off := ?b]) @ varint (v div 128)
                  @ drop (off + 1 + length (varint (v div 128))) (d[off := ?b]))"
      using "1.IH" off False "1.prems" by (simp add: and_127 or_128 drop_bit_eq_div varint_big)
    finally show ?thesis using off False by (simp add: varint_big take_Suc_conv_app_nth)
  qed
qed

section \<open>Marshal fills the buffer\<close>

text \<open>A step of marshalling writes given bytes before the position and leaves the rest alone.\<close>

definition writes :: "(buffer \<Rightarrow> buffer option) \<Rightarrow> string \<Rightarrow> bool" where
  "writes p bs \<longleftrightarrow> (\<forall>x y z. length y = length bs \<longrightarrow> p (x @ y @ z, length x + length bs) = Some (x @ bs @ z, length x))"

lemma split_length:
  assumes "length y = length (b @ a)"
  obtains u v where "y = u @ v" "length u = length b" "length v = length a"
  using assms that [of "take (length b) y" "drop (length b) y"] by simp

lemma writesD: "writes p bs \<Longrightarrow> length y = length bs \<Longrightarrow> p (x @ y @ z, length x + length bs) = Some (x @ bs @ z, length x)"
  by (simp add: writes_def)

lemma writes_bind:
  assumes "writes p a" "writes q b"
  shows "writes (\<lambda>buf. p buf \<bind> q) (b @ a)"
  unfolding writes_def
proof (intro allI impI)
  fix x y z :: string
  assume "length y = length (b @ a)"
  then obtain u v where y: "y = u @ v" "length u = length b" "length v = length a" by (rule split_length)
  show "p (x @ y @ z, length x + length (b @ a)) \<bind> q = Some (x @ (b @ a) @ z, length x)"
    using writesD [OF assms(1) y(3), of "x @ u" z] writesD [OF assms(2) y(2), of x "a @ z"] y
    by (simp add: add.assoc)
qed

lemma writes_Some: "writes Some []"
  by (simp add: writes_def)

lemma writes_byte: "writes (put_byte b) [b]"
  by (auto simp: writes_def put_byte_def length_Suc_conv list_update_append)

lemma writes_varint: "writes (encodeVarintRaft v) (varint v)"
  by (simp add: writes_def encodeVarintRaft_def length_varint [symmetric] encode_loop_varint Let_def)

lemma writes_copy: "writes (put_copy s) s"
  by (simp add: writes_def put_copy_def)

definition enc_uint64 :: "char \<Rightarrow> nat \<Rightarrow> string" where
  "enc_uint64 tag v = tag # varint v"

definition enc_bool :: "char \<Rightarrow> bool \<Rightarrow> string" where
  "enc_bool tag v = [tag, if v then CHR 0x01 else CHR 0x00]"

definition enc_msg :: "char \<Rightarrow> string \<Rightarrow> string" where
  "enc_msg tag s = tag # varint (length s) @ s"

definition enc_bytes :: "char \<Rightarrow> slice \<Rightarrow> string" where
  "enc_bytes tag v = (case v of None \<Rightarrow> [] | Some s \<Rightarrow> enc_msg tag s)"

lemma writes_uint64: "writes (put_uint64 tag v) (enc_uint64 tag v)"
  using writes_bind [OF writes_varint writes_byte] by (simp add: put_uint64_def [abs_def] enc_uint64_def)

lemma writes_bool: "writes (put_bool tag v) (enc_bool tag v)"
  using writes_bind [OF writes_byte writes_byte] by (auto simp: put_bool_def [abs_def] enc_bool_def)

lemma writes_bytes: "writes (put_bytes tag v) (enc_bytes tag v)"
proof (cases v)
  case (Some s)
  show ?thesis
    using writes_bind [OF writes_copy writes_bind [OF writes_varint writes_byte], of s "length s" tag]
    by (simp add: put_bytes_def [abs_def] enc_bytes_def enc_msg_def Some)
qed (simp add: put_bytes_def [abs_def] enc_bytes_def writes_Some)

text \<open>A \<open>MarshalToSizedBuffer\<close> method writes given bytes at the end of its buffer.\<close>

definition marshals :: "(string \<Rightarrow> (string \<times> nat) option) \<Rightarrow> string \<Rightarrow> bool" where
  "marshals f bs \<longleftrightarrow> (\<forall>x y. length y = length bs \<longrightarrow> f (x @ y) = Some (x @ bs, length bs))"

definition finishes :: "(buffer \<Rightarrow> (string \<times> nat) option) \<Rightarrow> string \<Rightarrow> bool" where
  "finishes k bs \<longleftrightarrow>
     (\<forall>x y z. length y = length bs \<longrightarrow> k (x @ y @ z, length x + length bs) = Some (x @ bs @ z, length bs + length z))"

lemma finishes_written: "finishes written []"
  by (simp add: finishes_def written_def)

lemma finishes_bind:
  assumes "writes p a" "finishes k b"
  shows "finishes (\<lambda>buf. p buf \<bind> k) (b @ a)"
  unfolding finishes_def
proof (intro allI impI)
  fix x y z :: string
  assume "length y = length (b @ a)"
  then obtain u v where y: "y = u @ v" "length u = length b" "length v = length a" by (rule split_length)
  show "p (x @ y @ z, length x + length (b @ a)) \<bind> k = Some (x @ (b @ a) @ z, length (b @ a) + length z)"
    using writesD [OF assms(1) y(3), of "x @ u" z] assms(2) [unfolded finishes_def, rule_format, OF y(2), of x "a @ z"] y
    by (simp add: add.assoc)
qed

lemma marshals_finishes: "finishes k bs \<Longrightarrow> bs = bs' \<Longrightarrow> marshals (\<lambda>d. k (d, length d)) bs'"
  unfolding finishes_def marshals_def using append_Nil2 by (metis add.right_neutral length_append list.size(3))

lemma writes_msg:
  assumes f: "marshals f bs"
  shows "writes (put_msg tag f) (enc_msg tag bs)"
  unfolding writes_def
proof (intro allI impI)
  fix x y z :: string
  let ?v = "tag # varint (length bs)"
  assume "length y = length (enc_msg tag bs)"
  then have "length y = length (?v @ bs)" by (simp add: enc_msg_def)
  then obtain u w where y: "y = u @ w" "length u = length ?v" "length w = length bs" by (rule split_length)
  have "f ((x @ u) @ w) = Some ((x @ u) @ bs, length bs)"
    using f y(3) unfolding marshals_def by blast
  moreover have w: "writes (\<lambda>buf. encodeVarintRaft (length bs) buf \<bind> put_byte tag) ?v"
    using writes_bind [OF writes_varint writes_byte] by simp
  have "encodeVarintRaft (length bs) (x @ u @ bs @ z, length x + length ?v) \<bind> put_byte tag = Some (x @ ?v @ bs @ z, length x)"
    using writesD [OF w y(2)] by simp
  ultimately show "put_msg tag f (x @ y @ z, length x + length (enc_msg tag bs)) = Some (x @ enc_msg tag bs @ z, length x)"
    using y by (simp add: put_msg_def enc_msg_def)
qed

lemma writes_each: "(\<And>x. writes (p x) (e x)) \<Longrightarrow> writes (put_each p xs) (concat (map e xs))"
proof (induction xs)
  case Nil
  have "put_each p [] = Some" by auto
  then show ?case by (simp add: writes_Some)
next
  case (Cons x xs)
  have "put_each p (x # xs) = (\<lambda>buf. put_each p xs buf \<bind> p x)" by auto
  then show ?case using writes_bind [of "put_each p xs" "concat (map e xs)" "p x" "e x"] Cons by simp
qed

lemma Marshal_marshals: "marshals f bs \<Longrightarrow> length bs = sz \<Longrightarrow> Marshal sz f = Some bs"
  by (force simp: Marshal_def marshals_def dest: spec [of _ "[]"])

section \<open>The encodings\<close>

definition enc_Entry :: "Entry \<Rightarrow> string" where
  "enc_Entry m =
     enc_uint64 (CHR 0x08) (uint64_of (EntryType_num (eType m))) @ enc_uint64 (CHR 0x10) (eTerm m)
     @ enc_uint64 (CHR 0x18) (eIndex m) @ enc_bytes (CHR 0x22) (eData m)"

definition enc_ConfState :: "ConfState \<Rightarrow> string" where
  "enc_ConfState m =
     concat (map (enc_uint64 (CHR 0x08)) (csVoters m)) @ concat (map (enc_uint64 (CHR 0x10)) (csLearners m))
     @ concat (map (enc_uint64 (CHR 0x18)) (csVotersOutgoing m)) @ concat (map (enc_uint64 (CHR 0x20)) (csLearnersNext m))
     @ enc_bool (CHR 0x28) (csAutoLeave m)"

definition enc_SnapshotMetadata :: "SnapshotMetadata \<Rightarrow> string" where
  "enc_SnapshotMetadata m =
     enc_msg (CHR 0x0A) (enc_ConfState (smConfState m)) @ enc_uint64 (CHR 0x10) (smIndex m) @ enc_uint64 (CHR 0x18) (smTerm m)"

definition enc_Snapshot :: "Snapshot \<Rightarrow> string" where
  "enc_Snapshot m = enc_bytes (CHR 0x0A) (snData m) @ enc_msg (CHR 0x12) (enc_SnapshotMetadata (snMetadata m))"

definition enc_Message :: "Message \<Rightarrow> string" where
  "enc_Message m =
     enc_uint64 (CHR 0x08) (uint64_of (MessageType_num (mType m))) @ enc_uint64 (CHR 0x10) (mTo m)
     @ enc_uint64 (CHR 0x18) (mFrom m) @ enc_uint64 (CHR 0x20) (mTerm m) @ enc_uint64 (CHR 0x28) (mLogTerm m)
     @ enc_uint64 (CHR 0x30) (mIndex m) @ concat (map (\<lambda>e. enc_msg (CHR 0x3A) (enc_Entry e)) (mEntries m))
     @ enc_uint64 (CHR 0x40) (mCommit m) @ enc_msg (CHR 0x4A) (enc_Snapshot (mSnapshot m)) @ enc_bool (CHR 0x50) (mReject m)
     @ enc_uint64 (CHR 0x58) (mRejectHint m) @ enc_bytes (CHR 0x62) (mContext m)"

definition enc_HardState :: "HardState \<Rightarrow> string" where
  "enc_HardState m = enc_uint64 (CHR 0x08) (hTerm m) @ enc_uint64 (CHR 0x10) (hVote m) @ enc_uint64 (CHR 0x18) (hCommit m)"

definition enc_ConfChange :: "ConfChange \<Rightarrow> string" where
  "enc_ConfChange m =
     enc_uint64 (CHR 0x08) (ccID m) @ enc_uint64 (CHR 0x10) (uint64_of (ConfChangeType_num (ccType m)))
     @ enc_uint64 (CHR 0x18) (ccNodeID m) @ enc_bytes (CHR 0x22) (ccContext m)"

definition enc_ConfChangeSingle :: "ConfChangeSingle \<Rightarrow> string" where
  "enc_ConfChangeSingle m =
     enc_uint64 (CHR 0x08) (uint64_of (ConfChangeType_num (csType m))) @ enc_uint64 (CHR 0x10) (csNodeID m)"

definition enc_ConfChangeV2 :: "ConfChangeV2 \<Rightarrow> string" where
  "enc_ConfChangeV2 m =
     enc_uint64 (CHR 0x08) (uint64_of (ConfChangeTransition_num (c2Transition m)))
     @ concat (map (\<lambda>e. enc_msg (CHR 0x12) (enc_ConfChangeSingle e)) (c2Changes m)) @ enc_bytes (CHR 0x1A) (c2Context m)"

lemmas enc_defs = enc_Entry_def enc_ConfState_def enc_SnapshotMetadata_def enc_Snapshot_def enc_Message_def
  enc_HardState_def enc_ConfChange_def enc_ConfChangeSingle_def enc_ConfChangeV2_def

lemmas write_rules = finishes_bind writes_uint64 writes_bool writes_bytes writes_msg writes_each finishes_written

lemma Entry_marshals: "marshals (Entry_MarshalToSizedBuffer m) (enc_Entry m)"
  unfolding Entry_MarshalToSizedBuffer_def [abs_def]
  by (rule marshals_finishes, (rule write_rules)+) (simp add: enc_defs)

lemma ConfState_marshals: "marshals (ConfState_MarshalToSizedBuffer m) (enc_ConfState m)"
  unfolding ConfState_MarshalToSizedBuffer_def [abs_def]
  by (rule marshals_finishes, (rule write_rules)+) (simp add: enc_defs)

lemma SnapshotMetadata_marshals: "marshals (SnapshotMetadata_MarshalToSizedBuffer m) (enc_SnapshotMetadata m)"
  unfolding SnapshotMetadata_MarshalToSizedBuffer_def [abs_def]
  by (rule marshals_finishes, (rule write_rules ConfState_marshals)+) (simp add: enc_defs)

lemma Snapshot_marshals: "marshals (Snapshot_MarshalToSizedBuffer m) (enc_Snapshot m)"
  unfolding Snapshot_MarshalToSizedBuffer_def [abs_def]
  by (rule marshals_finishes, (rule write_rules SnapshotMetadata_marshals)+) (simp add: enc_defs)

lemma Message_marshals: "marshals (Message_MarshalToSizedBuffer m) (enc_Message m)"
  unfolding Message_MarshalToSizedBuffer_def [abs_def]
  by (rule marshals_finishes, (rule write_rules Snapshot_marshals Entry_marshals)+) (simp add: enc_Message_def)

lemma HardState_marshals: "marshals (HardState_MarshalToSizedBuffer m) (enc_HardState m)"
  unfolding HardState_MarshalToSizedBuffer_def [abs_def]
  by (rule marshals_finishes, (rule write_rules)+) (simp add: enc_defs)

lemma ConfChange_marshals: "marshals (ConfChange_MarshalToSizedBuffer m) (enc_ConfChange m)"
  unfolding ConfChange_MarshalToSizedBuffer_def [abs_def]
  by (rule marshals_finishes, (rule write_rules)+) (simp add: enc_defs)

lemma ConfChangeSingle_marshals: "marshals (ConfChangeSingle_MarshalToSizedBuffer m) (enc_ConfChangeSingle m)"
  unfolding ConfChangeSingle_MarshalToSizedBuffer_def [abs_def]
  by (rule marshals_finishes, (rule write_rules)+) (simp add: enc_defs)

lemma ConfChangeV2_marshals: "marshals (ConfChangeV2_MarshalToSizedBuffer m) (enc_ConfChangeV2 m)"
  unfolding ConfChangeV2_MarshalToSizedBuffer_def [abs_def]
  by (rule marshals_finishes, (rule write_rules ConfChangeSingle_marshals)+) (simp add: enc_ConfChangeV2_def)

text \<open>The buffer is as long as \<open>Size\<close> says.\<close>

lemma length_enc_uint64 [simp]: "length (enc_uint64 tag v) = 1 + sovRaft v"
  by (simp add: enc_uint64_def length_varint)

lemma length_enc_bool [simp]: "length (enc_bool tag v) = 2"
  by (simp add: enc_bool_def)

lemma length_enc_msg [simp]: "length (enc_msg tag s) = sub_Size (length s)"
  by (simp add: enc_msg_def length_varint sub_Size_def)

lemma length_enc_bytes [simp]: "length (enc_bytes tag v) = bytes_Size v"
  by (simp add: enc_bytes_def bytes_Size_def sub_Size_def split: option.split)

lemma length_concat_map: "length (concat (map f xs)) = (\<Sum>x\<leftarrow>xs. length (f x))"
  by (simp add: length_concat comp_def)

lemma length_enc_Entry [simp]: "length (enc_Entry m) = Entry_Size m"
  by (simp add: enc_Entry_def Entry_Size_def)

lemma length_enc_ConfState [simp]: "length (enc_ConfState m) = ConfState_Size m"
  by (simp add: enc_ConfState_def ConfState_Size_def length_concat_map uint64s_Size_def)

lemma length_enc_SnapshotMetadata [simp]: "length (enc_SnapshotMetadata m) = SnapshotMetadata_Size m"
  by (simp add: enc_SnapshotMetadata_def SnapshotMetadata_Size_def)

lemma length_enc_Snapshot [simp]: "length (enc_Snapshot m) = Snapshot_Size m"
  by (simp add: enc_Snapshot_def Snapshot_Size_def)

lemma length_enc_Message [simp]: "length (enc_Message m) = Message_Size m"
  by (simp add: enc_Message_def Message_Size_def length_concat_map)

lemma length_enc_HardState [simp]: "length (enc_HardState m) = HardState_Size m"
  by (simp add: enc_HardState_def HardState_Size_def)

lemma length_enc_ConfChange [simp]: "length (enc_ConfChange m) = ConfChange_Size m"
  by (simp add: enc_ConfChange_def ConfChange_Size_def)

lemma length_enc_ConfChangeSingle [simp]: "length (enc_ConfChangeSingle m) = ConfChangeSingle_Size m"
  by (simp add: enc_ConfChangeSingle_def ConfChangeSingle_Size_def)

lemma length_enc_ConfChangeV2 [simp]: "length (enc_ConfChangeV2 m) = ConfChangeV2_Size m"
  by (simp add: enc_ConfChangeV2_def ConfChangeV2_Size_def length_concat_map)

section \<open>Unmarshal reads the encodings\<close>

lemma varint_loop_varint:
  "v * 2 ^ s + acc < 2 ^ 64 \<Longrightarrow> acc < 2 ^ s \<Longrightarrow> s < 64
   \<Longrightarrow> varint_loop (pre @ varint v @ rest) (length pre) s acc = Inr (acc + v * 2 ^ s, length pre + length (varint v))"
proof (induction v arbitrary: pre s acc rule: varint.induct)
  case (1 v)
  have or: "or acc (take_bit 64 (push_bit s w)) = acc + w * 2 ^ s" if "w \<le> v" for w
  proof -
    have "w * 2 ^ s \<le> v * 2 ^ s" using that by simp
    then have "push_bit s w < 2 ^ 64" using "1.prems"(1) unfolding push_bit_eq_mult by linarith
    then have "take_bit 64 (push_bit s w) = push_bit s w" by (simp add: take_bit_nat_eq_self)
    then show ?thesis using or_push_bit [OF "1.prems"(2), of w] by simp
  qed
  show ?case
  proof (cases "v < 128")
    case True
    then show ?thesis using "1.prems"(3) or [of v]
      by (subst varint_loop.simps) (simp add: varint_small and_127 nth_append Let_def)
  next
    case False
    let ?b = "char_of (v mod 128 + 128) :: char" and ?acc = "acc + (v mod 128) * 2 ^ s"
    have eq: "v div 128 * 2 ^ (s + 7) + ?acc = v * 2 ^ s + acc"
    proof -
      have "v * 2 ^ s = (v div 128 * 128 + v mod 128) * 2 ^ s" by simp
      then show ?thesis by (simp only: power_add add_mult_distrib) simp
    qed
    have "v mod 128 * 2 ^ s \<le> 127 * 2 ^ s" by (rule mult_right_mono) auto
    moreover have "(2 :: nat) ^ (s + 7) = 2 ^ s + 127 * 2 ^ s" by (simp add: power_add)
    ultimately have acc: "?acc < 2 ^ (s + 7)" using "1.prems"(2) by linarith
    have "1 \<le> v div 128" using False by (simp add: div_greater_zero_iff Suc_leI)
    then have "2 ^ (s + 7) \<le> v div 128 * 2 ^ (s + 7)" by simp
    then have "(2 :: nat) ^ (s + 7) < 2 ^ 64" using eq "1.prems"(1) by linarith
    then have s: "s + 7 < 64" by (rule power_less_imp_less_exp [rotated]) simp
    have b: "of_char ?b = v mod 128 + 128" by (simp add: of_char_of) 
    have "varint_loop (pre @ varint v @ rest) (length pre) s acc
        = varint_loop ((pre @ [?b]) @ varint (v div 128) @ rest) (length (pre @ [?b])) (s + 7) ?acc"
      using "1.prems"(3) False or [of "v mod 128"] b
      by (subst varint_loop.simps) (simp add: varint_big and_127 nth_append Let_def)
    also have "\<dots> = Inr (v * 2 ^ s + acc, length pre + length (varint v))"
      using "1.IH" [OF False _ acc s, of "pre @ [?b]"] eq "1.prems"(1) False by (simp add: varint_big ac_simps)
    finally show ?thesis by (simp add: ac_simps)
  qed
qed

lemma read_varint_varint:
  "v < 2 ^ 64 \<Longrightarrow> read_varint (pre @ varint v @ rest) (length pre) = Inr (v, length pre + length (varint v))"
  using varint_loop_varint [of v 0 0 pre rest] by (simp add: read_varint_def)

lemma read_length_varint:
  assumes "length pre + length (varint n) + n < 2 ^ 63"
  shows "read_length (pre @ varint n @ rest) (length pre)
    = Inr (length pre + length (varint n), length pre + length (varint n) + n)"
proof -
  have "in64 (int n)" "in64 (int (length pre) + int (length (varint n)) + int n)"
    using assms by (simp_all add: in64_def)
  then show ?thesis using assms read_varint_varint [of n pre rest] by (simp add: read_length_def Let_def ac_simps)
qed

text \<open>
  The loop over the fields, standing before bytes \<open>bs\<close> with a message \<open>m\<close>, comes to stand behind
  them with \<open>m'\<close>.
\<close>

definition parses :: "(int \<rightharpoonup> 'm case_code) \<Rightarrow> string \<Rightarrow> 'm \<Rightarrow> 'm \<Rightarrow> bool" where
  "parses fs bs m m' \<longleftrightarrow> (\<forall>pre rest. length (pre @ bs @ rest) < 2 ^ 63 \<longrightarrow>
     unmarshal_loop fs (pre @ bs @ rest) (length pre) m = unmarshal_loop fs (pre @ bs @ rest) (length pre + length bs) m')"

lemma parses_Nil: "parses fs [] m m"
  by (simp add: parses_def)

lemma parses_append:
  assumes "parses fs a m m'" "parses fs b m' m''"
  shows "parses fs (a @ b) m m''"
  unfolding parses_def
proof (intro allI impI)
  fix pre rest
  assume l: "length (pre @ (a @ b) @ rest) < 2 ^ 63"
  show "unmarshal_loop fs (pre @ (a @ b) @ rest) (length pre) m
      = unmarshal_loop fs (pre @ (a @ b) @ rest) (length pre + length (a @ b)) m''"
    using assms(1) [unfolded parses_def, rule_format, of pre "b @ rest"]
      assms(2) [unfolded parses_def, rule_format, of "pre @ a" rest] l
    by (simp add: add.assoc)
qed

lemma parses_each:
  "(\<And>x m. x \<in> set xs \<Longrightarrow> parses fs (e x) m (u x m)) \<Longrightarrow> parses fs (concat (map e xs)) m (fold u xs m)"
proof (induction xs arbitrary: m)
  case (Cons x xs)
  then show ?case using parses_append [of fs "e x" m "u x m"] by simp
qed (simp add: parses_Nil)

lemma Unmarshal_parses:
  assumes "parses fs bs m m'" "length bs < 2 ^ 63"
  shows "Unmarshal fs bs m = Some (Inr m')"
proof -
  have "Unmarshal fs bs m = unmarshal_loop fs bs (length bs) m'"
    using assms unfolding parses_def by (metis add_0 append_Nil append_Nil2 list.size(3))
  then show ?thesis by (simp add: unmarshal_loop.simps [of fs bs "length bs"])
qed

text \<open>A field: its tag, of one byte here, and the body that the code of its case reads.\<close>

definition field_of :: "(int \<rightharpoonup> 'm case_code) \<Rightarrow> char \<Rightarrow> nat \<Rightarrow> 'm case_code \<Rightarrow> bool" where
  "field_of fs tag w code \<longleftrightarrow>
     fs (int (of_char tag div 8)) = Some code \<and> of_char tag mod 8 = w \<and> 8 \<le> (of_char tag :: nat) \<and> of_char tag < (128 :: nat)"

lemma parses_field:
  assumes f: "field_of fs tag w code" "w \<noteq> 4"
    and code: "\<And>pre rest. length (pre @ body @ rest) < 2 ^ 63 \<Longrightarrow>
      code w (pre @ body @ rest) (length pre) m = Some (Inr (m', length pre + length body))"
  shows "parses fs (tag # body) m m'"
  unfolding parses_def
proof (intro allI impI)
  fix pre rest
  let ?d = "pre @ (tag # body) @ rest" and ?t = "of_char tag :: nat"
  assume l: "length ?d < 2 ^ 63"
  have t: "8 \<le> ?t" "?t < 128" "?t mod 8 = w" "fs (int (?t div 8)) = Some code"
    using f(1) by (simp_all add: field_of_def)
  have r: "read_varint ?d (length pre) = Inr (?t, length pre + 1)"
    using read_varint_varint [of ?t pre "body @ rest"] t(2) by (simp add: varint_small)
  have k: "wrap32 (int (drop_bit 3 ?t)) = int (?t div 8)" "0 < ?t div 8"
    using t by (simp_all add: wrap32_def drop_bit_eq_div div_greater_zero_iff)
  have w: "and ?t 7 = w" using t(3) take_bit_eq_mask [of 3 ?t] by (simp add: take_bit_eq_mod mask_eq_exp_minus_1)
  show "unmarshal_loop fs ?d (length pre) m = unmarshal_loop fs ?d (length pre + length (tag # body)) m'"
    using code [of "pre @ [tag]" rest] l r k w f(2) t(4)
    by (subst unmarshal_loop.simps) (simp add: Let_def)
qed

lemma parses_uint64:
  "field_of fs tag 0 (case_varint upd) \<Longrightarrow> v < 2 ^ 64 \<Longrightarrow> parses fs (enc_uint64 tag v) m (upd v m)"
  unfolding enc_uint64_def by (erule parses_field) (auto simp: case_varint_def read_varint_varint)

lemma parses_uint64s:
  "field_of fs tag 0 (case_uint64s app) \<Longrightarrow> v < 2 ^ 64 \<Longrightarrow> parses fs (enc_uint64 tag v) m (app v m)"
  unfolding enc_uint64_def by (erule parses_field) (auto simp: case_uint64s_def read_varint_varint)

lemma parses_bool:
  "field_of fs tag 0 (case_varint upd) \<Longrightarrow> parses fs (enc_bool tag v) m (upd (if v then 1 else 0) m)"
  using parses_uint64 [of fs tag upd "if v then 1 else 0" m]
  by (auto simp: enc_bool_def enc_uint64_def varint_small char_of_def bit_0 split: if_splits)

lemma parses_msg:
  assumes "field_of fs tag 2 (case_msg sub)" "sub bs m = Some (Inr m')"
  shows "parses fs (enc_msg tag bs) m m'"
  unfolding enc_msg_def
proof (rule parses_field [OF assms(1)])
  fix pre rest
  assume "length (pre @ (varint (length bs) @ bs) @ rest) < 2 ^ 63"
  then show "case_msg sub 2 (pre @ (varint (length bs) @ bs) @ rest) (length pre) m
      = Some (Inr (m', length pre + length (varint (length bs) @ bs)))"
    using read_length_varint [of pre "length bs" "bs @ rest"] assms(2) by (simp add: case_msg_def add.assoc)
qed simp

lemma parses_bytes:
  "field_of fs tag 2 (case_bytes upd) \<Longrightarrow> parses fs (enc_bytes tag v) m (case v of None \<Rightarrow> m | Some _ \<Rightarrow> upd v m)"
  by (auto simp: enc_bytes_def case_bytes_def parses_Nil intro!: parses_msg split: option.split)

section \<open>Messages that the Go types hold\<close>

text \<open>
  Numbers fit their types, and the last constructor of an enumeration is used only for a number
  that has no name.
\<close>

definition in32 :: "int \<Rightarrow> bool" where
  "in32 i \<longleftrightarrow> - (2 ^ 31) \<le> i \<and> i < 2 ^ 31"

definition EntryType_ok :: "EntryType \<Rightarrow> bool" where
  "EntryType_ok t \<longleftrightarrow> in32 (EntryType_num t) \<and> EntryType_of (EntryType_num t) = t"

definition MessageType_ok :: "MessageType \<Rightarrow> bool" where
  "MessageType_ok t \<longleftrightarrow> in32 (MessageType_num t) \<and> MessageType_of (MessageType_num t) = t"

definition ConfChangeType_ok :: "ConfChangeType \<Rightarrow> bool" where
  "ConfChangeType_ok t \<longleftrightarrow> in32 (ConfChangeType_num t) \<and> ConfChangeType_of (ConfChangeType_num t) = t"

definition ConfChangeTransition_ok :: "ConfChangeTransition \<Rightarrow> bool" where
  "ConfChangeTransition_ok t \<longleftrightarrow> in32 (ConfChangeTransition_num t) \<and> ConfChangeTransition_of (ConfChangeTransition_num t) = t"

definition Entry_ok :: "Entry \<Rightarrow> bool" where
  "Entry_ok m \<longleftrightarrow> EntryType_ok (eType m) \<and> eTerm m < 2 ^ 64 \<and> eIndex m < 2 ^ 64"

definition ConfState_ok :: "ConfState \<Rightarrow> bool" where
  "ConfState_ok m \<longleftrightarrow>
     (\<forall>v \<in> set (csVoters m) \<union> set (csLearners m) \<union> set (csVotersOutgoing m) \<union> set (csLearnersNext m). v < 2 ^ 64)"

definition Snapshot_ok :: "Snapshot \<Rightarrow> bool" where
  "Snapshot_ok m \<longleftrightarrow> ConfState_ok (smConfState (snMetadata m)) \<and> snIndex m < 2 ^ 64 \<and> snTerm m < 2 ^ 64"

definition Message_ok :: "Message \<Rightarrow> bool" where
  "Message_ok m \<longleftrightarrow>
     MessageType_ok (mType m) \<and> mTo m < 2 ^ 64 \<and> mFrom m < 2 ^ 64 \<and> mTerm m < 2 ^ 64 \<and> mLogTerm m < 2 ^ 64
     \<and> mIndex m < 2 ^ 64 \<and> (\<forall>e \<in> set (mEntries m). Entry_ok e) \<and> mCommit m < 2 ^ 64 \<and> Snapshot_ok (mSnapshot m)
     \<and> mRejectHint m < 2 ^ 64"

definition HardState_ok :: "HardState \<Rightarrow> bool" where
  "HardState_ok m \<longleftrightarrow> hTerm m < 2 ^ 64 \<and> hVote m < 2 ^ 64 \<and> hCommit m < 2 ^ 64"

definition ConfChange_ok :: "ConfChange \<Rightarrow> bool" where
  "ConfChange_ok m \<longleftrightarrow> ccID m < 2 ^ 64 \<and> ConfChangeType_ok (ccType m) \<and> ccNodeID m < 2 ^ 64"

definition ConfChangeSingle_ok :: "ConfChangeSingle \<Rightarrow> bool" where
  "ConfChangeSingle_ok m \<longleftrightarrow> ConfChangeType_ok (csType m) \<and> csNodeID m < 2 ^ 64"

definition ConfChangeV2_ok :: "ConfChangeV2 \<Rightarrow> bool" where
  "ConfChangeV2_ok m \<longleftrightarrow> ConfChangeTransition_ok (c2Transition m) \<and> (\<forall>c \<in> set (c2Changes m). ConfChangeSingle_ok c)"

section \<open>Round trips\<close>

lemma uint64_of_less: "uint64_of i < 2 ^ 64"
  unfolding uint64_of_def by (simp add: nat_less_iff)

lemma wrap32_uint64_of [simp]: "in32 i \<Longrightarrow> wrap32 (int (uint64_of i)) = i"
proof -
  assume i: "in32 i"
  have "(i mod 2 ^ 64 + 2 ^ 31) mod 2 ^ 32 = ((i mod 2 ^ 64) mod 2 ^ 32 + 2 ^ 31) mod (2 ^ 32 :: int)"
    by (rule mod_add_left_eq [symmetric])
  also have "(i mod 2 ^ 64) mod 2 ^ 32 = i mod (2 ^ 32 :: int)" by (rule mod_mod_cancel) simp
  also have "(i mod 2 ^ 32 + 2 ^ 31) mod 2 ^ 32 = (i + 2 ^ 31) mod (2 ^ 32 :: int)" by (rule mod_add_left_eq)
  also have "\<dots> = i + 2 ^ 31" using i by (simp add: in32_def)
  finally show ?thesis by (simp add: wrap32_def uint64_of_def)
qed

lemma parses_eq: "parses fs bs m m' \<Longrightarrow> m' = m'' \<Longrightarrow> parses fs bs m m''"
  by simp

lemma fold_field:
  "fold (\<lambda>v m. upd (\<lambda>_. get m @ [v]) m) xs m = upd (\<lambda>_. get m @ xs) m"
  if "\<And>f m. get (upd f m) = f (get m)" "\<And>f g m. upd f (upd g m) = upd (\<lambda>x. f (g x)) m" "\<And>m. upd (\<lambda>_. get m) m = m"
  using that by (induction xs arbitrary: m) simp_all

lemma Entry_tags:
  "field_of Entry_fields (CHR 0x08) 0 (case_varint (\<lambda>v m. m\<lparr>eType := EntryType_of (wrap32 (int v))\<rparr>))"
  "field_of Entry_fields (CHR 0x10) 0 (case_varint (\<lambda>v m. m\<lparr>eTerm := v\<rparr>))"
  "field_of Entry_fields (CHR 0x18) 0 (case_varint (\<lambda>v m. m\<lparr>eIndex := v\<rparr>))"
  "field_of Entry_fields (CHR 0x22) 2 (case_bytes (\<lambda>v m. m\<lparr>eData := v\<rparr>))"
  by (simp_all add: field_of_def Entry_fields_def)

lemma Entry_parses:
  assumes "Entry_ok e"
  shows "parses Entry_fields (enc_Entry e) emptyEntry e"
proof -
  have lt: "eTerm e < 2 ^ 64" "eIndex e < 2 ^ 64" and t: "EntryType_ok (eType e)" using assms by (simp_all add: Entry_ok_def)
  show ?thesis unfolding enc_Entry_def
    by (rule parses_eq, (rule parses_append parses_uint64 parses_bytes Entry_tags uint64_of_less lt)+)
      (use t in \<open>cases e; simp add: emptyEntry_def EntryType_ok_def split: option.split\<close>)
qed

lemma ConfState_tags:
  "field_of ConfState_fields (CHR 0x08) 0 (case_uint64s (\<lambda>v m. m\<lparr>csVoters := csVoters m @ [v]\<rparr>))"
  "field_of ConfState_fields (CHR 0x10) 0 (case_uint64s (\<lambda>v m. m\<lparr>csLearners := csLearners m @ [v]\<rparr>))"
  "field_of ConfState_fields (CHR 0x18) 0 (case_uint64s (\<lambda>v m. m\<lparr>csVotersOutgoing := csVotersOutgoing m @ [v]\<rparr>))"
  "field_of ConfState_fields (CHR 0x20) 0 (case_uint64s (\<lambda>v m. m\<lparr>csLearnersNext := csLearnersNext m @ [v]\<rparr>))"
  "field_of ConfState_fields (CHR 0x28) 0 (case_varint (\<lambda>v m. m\<lparr>csAutoLeave := (v \<noteq> 0)\<rparr>))"
  by (simp_all add: field_of_def ConfState_fields_def)

lemma fold_ConfState:
  "fold (\<lambda>v m. m\<lparr>csVoters := csVoters m @ [v]\<rparr>) xs c = c\<lparr>csVoters := csVoters c @ xs\<rparr>"
  "fold (\<lambda>v m. m\<lparr>csLearners := csLearners m @ [v]\<rparr>) xs c = c\<lparr>csLearners := csLearners c @ xs\<rparr>"
  "fold (\<lambda>v m. m\<lparr>csVotersOutgoing := csVotersOutgoing m @ [v]\<rparr>) xs c = c\<lparr>csVotersOutgoing := csVotersOutgoing c @ xs\<rparr>"
  "fold (\<lambda>v m. m\<lparr>csLearnersNext := csLearnersNext m @ [v]\<rparr>) xs c = c\<lparr>csLearnersNext := csLearnersNext c @ xs\<rparr>"
  by (rule fold_field; simp add: comp_def)+

lemma ConfState_parses:
  assumes "ConfState_ok c"
  shows "parses ConfState_fields (enc_ConfState c) emptyConfState c"
proof -
  have lt: "v \<in> set (csVoters c) \<Longrightarrow> v < 2 ^ 64" "v \<in> set (csLearners c) \<Longrightarrow> v < 2 ^ 64"
    "v \<in> set (csVotersOutgoing c) \<Longrightarrow> v < 2 ^ 64" "v \<in> set (csLearnersNext c) \<Longrightarrow> v < 2 ^ 64" for v
    using assms by (auto simp: ConfState_ok_def)
  show ?thesis unfolding enc_ConfState_def
    by (rule parses_eq, (rule parses_append parses_each parses_uint64s parses_bool ConfState_tags | erule lt)+)
      (cases c; simp add: emptyConfState_def fold_ConfState)
qed

lemma ConfState_roundtrip:
  "ConfState_ok c \<Longrightarrow> ConfState_Size c < 2 ^ 63 \<Longrightarrow> ConfState_Unmarshal (enc_ConfState c) emptyConfState = Some (Inr c)"
  unfolding ConfState_Unmarshal_def by (rule Unmarshal_parses [OF ConfState_parses]) simp_all

lemma Entry_roundtrip:
  "Entry_ok e \<Longrightarrow> Entry_Size e < 2 ^ 63 \<Longrightarrow> Entry_Unmarshal (enc_Entry e) emptyEntry = Some (Inr e)"
  unfolding Entry_Unmarshal_def by (rule Unmarshal_parses [OF Entry_parses]) simp_all

lemma Snapshot_tags:
  "field_of SnapshotMetadata_fields (CHR 0x0A) 2 (case_msg (in_place ConfState_Unmarshal smConfState (\<lambda>x m. m\<lparr>smConfState := x\<rparr>)))"
  "field_of SnapshotMetadata_fields (CHR 0x10) 0 (case_varint (\<lambda>v m. m\<lparr>smIndex := v\<rparr>))"
  "field_of SnapshotMetadata_fields (CHR 0x18) 0 (case_varint (\<lambda>v m. m\<lparr>smTerm := v\<rparr>))"
  "field_of Snapshot_fields (CHR 0x0A) 2 (case_bytes (\<lambda>v m. m\<lparr>snData := v\<rparr>))"
  "field_of Snapshot_fields (CHR 0x12) 2 (case_msg (in_place SnapshotMetadata_Unmarshal snMetadata (\<lambda>x m. m\<lparr>snMetadata := x\<rparr>)))"
  by (simp_all add: field_of_def SnapshotMetadata_fields_def Snapshot_fields_def)

lemma sub_Size_ge: "l \<le> sub_Size l"
  by (simp add: sub_Size_def)

lemma SnapshotMetadata_roundtrip:
  assumes "ConfState_ok (smConfState c)" "smIndex c < 2 ^ 64" "smTerm c < 2 ^ 64" "SnapshotMetadata_Size c < 2 ^ 63"
  shows "SnapshotMetadata_Unmarshal (enc_SnapshotMetadata c) (snMetadata emptySnapshot) = Some (Inr c)"
proof -
  let ?m = "snMetadata emptySnapshot"
  have "ConfState_Size (smConfState c) \<le> SnapshotMetadata_Size c"
    using sub_Size_ge [of "ConfState_Size (smConfState c)"] by (simp add: SnapshotMetadata_Size_def)
  then have m: "in_place ConfState_Unmarshal smConfState (\<lambda>x m. m\<lparr>smConfState := x\<rparr>) (enc_ConfState (smConfState c)) ?m
      = Some (Inr (?m\<lparr>smConfState := smConfState c\<rparr>))"
    using ConfState_roundtrip [of "smConfState c"] assms by (simp add: in_place_def emptySnapshot_def)
  have "parses SnapshotMetadata_fields (enc_SnapshotMetadata c) ?m c"
    unfolding enc_SnapshotMetadata_def
    by (rule parses_eq, (rule parses_append parses_msg parses_uint64 Snapshot_tags assms m)+)
      (cases c; simp add: emptySnapshot_def)
  then show ?thesis unfolding SnapshotMetadata_Unmarshal_def by (rule Unmarshal_parses) (use assms in simp)
qed

lemma Snapshot_roundtrip:
  assumes "Snapshot_ok c" "Snapshot_Size c < 2 ^ 63"
  shows "Snapshot_Unmarshal (enc_Snapshot c) emptySnapshot = Some (Inr c)"
proof -
  let ?m = "emptySnapshot\<lparr>snData := snData c\<rparr>"
  have "SnapshotMetadata_Size (snMetadata c) \<le> Snapshot_Size c"
    using sub_Size_ge [of "SnapshotMetadata_Size (snMetadata c)"] by (simp add: Snapshot_Size_def)
  then have m: "in_place SnapshotMetadata_Unmarshal snMetadata (\<lambda>x m. m\<lparr>snMetadata := x\<rparr>) (enc_SnapshotMetadata (snMetadata c)) ?m
      = Some (Inr c)"
    using SnapshotMetadata_roundtrip [of "snMetadata c"] assms by (simp add: in_place_def Snapshot_ok_def)
  have "parses Snapshot_fields (enc_bytes (CHR 0x0A) (snData c)) emptySnapshot ?m"
    by (rule parses_eq, rule parses_bytes, rule Snapshot_tags) (simp add: emptySnapshot_def split: option.split)
  then have "parses Snapshot_fields (enc_Snapshot c) emptySnapshot c"
    unfolding enc_Snapshot_def by (rule parses_append) (rule parses_msg [OF Snapshot_tags(5) m])
  then show ?thesis unfolding Snapshot_Unmarshal_def by (rule Unmarshal_parses) (use assms in simp)
qed

lemma Message_tags:
  "field_of Message_fields (CHR 0x08) 0 (case_varint (\<lambda>v m. m\<lparr>mType := MessageType_of (wrap32 (int v))\<rparr>))"
  "field_of Message_fields (CHR 0x10) 0 (case_varint (\<lambda>v m. m\<lparr>mTo := v\<rparr>))"
  "field_of Message_fields (CHR 0x18) 0 (case_varint (\<lambda>v m. m\<lparr>mFrom := v\<rparr>))"
  "field_of Message_fields (CHR 0x20) 0 (case_varint (\<lambda>v m. m\<lparr>mTerm := v\<rparr>))"
  "field_of Message_fields (CHR 0x28) 0 (case_varint (\<lambda>v m. m\<lparr>mLogTerm := v\<rparr>))"
  "field_of Message_fields (CHR 0x30) 0 (case_varint (\<lambda>v m. m\<lparr>mIndex := v\<rparr>))"
  "field_of Message_fields (CHR 0x40) 0 (case_varint (\<lambda>v m. m\<lparr>mCommit := v\<rparr>))"
  "field_of Message_fields (CHR 0x50) 0 (case_varint (\<lambda>v m. m\<lparr>mReject := (v \<noteq> 0)\<rparr>))"
  "field_of Message_fields (CHR 0x58) 0 (case_varint (\<lambda>v m. m\<lparr>mRejectHint := v\<rparr>))"
  "field_of Message_fields (CHR 0x62) 2 (case_bytes (\<lambda>v m. m\<lparr>mContext := v\<rparr>))"
  by (simp_all add: field_of_def Message_fields_def)

lemma Message_msg_tags:
  "field_of Message_fields (CHR 0x3A) 2 (case_msg (in_place Entry_Unmarshal (\<lambda>m. emptyEntry) (\<lambda>x m. m\<lparr>mEntries := mEntries m @ [x]\<rparr>)))"
  "field_of Message_fields (CHR 0x4A) 2 (case_msg (in_place Snapshot_Unmarshal mSnapshot (\<lambda>x m. m\<lparr>mSnapshot := x\<rparr>)))"
  by (simp_all add: field_of_def Message_fields_def)

lemma parses_entries:
  assumes "\<forall>e \<in> set es. Entry_ok e \<and> Entry_Size e < 2 ^ 63"
  shows "parses Message_fields (concat (map (\<lambda>e. enc_msg (CHR 0x3A) (enc_Entry e)) es)) m (m\<lparr>mEntries := mEntries m @ es\<rparr>)"
proof -
  have "fold (\<lambda>e m. m\<lparr>mEntries := mEntries m @ [e]\<rparr>) es m = m\<lparr>mEntries := mEntries m @ es\<rparr>"
    by (rule fold_field; simp add: comp_def)
  moreover have "parses Message_fields (enc_msg (CHR 0x3A) (enc_Entry e)) m (m\<lparr>mEntries := mEntries m @ [e]\<rparr>)"
    if "e \<in> set es" for e m
    by (rule parses_msg [OF Message_msg_tags(1)]) (use assms that Entry_roundtrip [of e] in \<open>simp add: in_place_def\<close>)
  ultimately show ?thesis by (metis (no_types, lifting) parses_each)
qed

lemma parses_snapshot:
  assumes "Snapshot_ok s" "Snapshot_Size s < 2 ^ 63" "mSnapshot m = emptySnapshot"
  shows "parses Message_fields (enc_msg (CHR 0x4A) (enc_Snapshot s)) m (m\<lparr>mSnapshot := s\<rparr>)"
  by (rule parses_msg [OF Message_msg_tags(2)]) (use Snapshot_roundtrip [OF assms(1,2)] assms(3) in \<open>simp add: in_place_def\<close>)

lemma Message_Size_parts:
  "Snapshot_Size (mSnapshot m) \<le> Message_Size m" "e \<in> set (mEntries m) \<Longrightarrow> Entry_Size e \<le> Message_Size m"
proof -
  show "Snapshot_Size (mSnapshot m) \<le> Message_Size m"
    using sub_Size_ge [of "Snapshot_Size (mSnapshot m)"] by (simp add: Message_Size_def)
  assume "e \<in> set (mEntries m)"
  then have "sub_Size (Entry_Size e) \<le> (\<Sum>e\<leftarrow>mEntries m. sub_Size (Entry_Size e))"
    by (intro member_le_sum_list) auto
  then show "Entry_Size e \<le> Message_Size m"
    using sub_Size_ge [of "Entry_Size e"] by (simp add: Message_Size_def)
qed

lemma Message_roundtrip:
  assumes ok: "Message_ok m" and sz: "Message_Size m < 2 ^ 63"
  shows "Message_Unmarshal (enc_Message m) emptyMessage = Some (Inr m)"
proof -
  have lt: "mTo m < 2 ^ 64" "mFrom m < 2 ^ 64" "mTerm m < 2 ^ 64" "mLogTerm m < 2 ^ 64" "mIndex m < 2 ^ 64"
    "mCommit m < 2 ^ 64" "mRejectHint m < 2 ^ 64" "Snapshot_ok (mSnapshot m)" "Snapshot_Size (mSnapshot m) < 2 ^ 63"
    "\<forall>e \<in> set (mEntries m). Entry_ok e \<and> Entry_Size e < 2 ^ 63" and t: "MessageType_ok (mType m)"
    using ok sz Message_Size_parts(1) [of m] by (force simp: Message_ok_def dest: Message_Size_parts(2))+
  have "parses Message_fields (enc_Message m) emptyMessage m"
    unfolding enc_Message_def
    by (rule parses_eq, (rule parses_append parses_uint64 parses_entries parses_snapshot parses_bool parses_bytes
            Message_tags uint64_of_less lt | (simp add: emptyMessage_def; fail))+)
      (use t in \<open>cases m; simp add: emptyMessage_def MessageType_ok_def split: option.split\<close>)
  then show ?thesis unfolding Message_Unmarshal_def by (rule Unmarshal_parses) (use sz in simp)
qed

lemma HardState_tags:
  "field_of HardState_fields (CHR 0x08) 0 (case_varint (\<lambda>v m. m\<lparr>hTerm := v\<rparr>))"
  "field_of HardState_fields (CHR 0x10) 0 (case_varint (\<lambda>v m. m\<lparr>hVote := v\<rparr>))"
  "field_of HardState_fields (CHR 0x18) 0 (case_varint (\<lambda>v m. m\<lparr>hCommit := v\<rparr>))"
  by (simp_all add: field_of_def HardState_fields_def)

lemma HardState_roundtrip:
  assumes "HardState_ok h" "HardState_Size h < 2 ^ 63"
  shows "HardState_Unmarshal (enc_HardState h) emptyState = Some (Inr h)"
proof -
  have lt: "hTerm h < 2 ^ 64" "hVote h < 2 ^ 64" "hCommit h < 2 ^ 64" using assms by (simp_all add: HardState_ok_def)
  have "parses HardState_fields (enc_HardState h) emptyState h"
    unfolding enc_HardState_def
    by (rule parses_eq, (rule parses_append parses_uint64 HardState_tags lt)+) (cases h; simp add: emptyState_def)
  then show ?thesis unfolding HardState_Unmarshal_def by (rule Unmarshal_parses) (use assms in simp)
qed

lemma ConfChange_tags:
  "field_of ConfChange_fields (CHR 0x08) 0 (case_varint (\<lambda>v m. m\<lparr>ccID := v\<rparr>))"
  "field_of ConfChange_fields (CHR 0x10) 0 (case_varint (\<lambda>v m. m\<lparr>ccType := ConfChangeType_of (wrap32 (int v))\<rparr>))"
  "field_of ConfChange_fields (CHR 0x18) 0 (case_varint (\<lambda>v m. m\<lparr>ccNodeID := v\<rparr>))"
  "field_of ConfChange_fields (CHR 0x22) 2 (case_bytes (\<lambda>v m. m\<lparr>ccContext := v\<rparr>))"
  by (simp_all add: field_of_def ConfChange_fields_def)

lemma ConfChange_roundtrip:
  assumes "ConfChange_ok c" "ConfChange_Size c < 2 ^ 63"
  shows "ConfChange_Unmarshal (enc_ConfChange c) emptyConfChange = Some (Inr c)"
proof -
  have lt: "ccID c < 2 ^ 64" "ccNodeID c < 2 ^ 64" and t: "ConfChangeType_ok (ccType c)"
    using assms by (simp_all add: ConfChange_ok_def)
  have "parses ConfChange_fields (enc_ConfChange c) emptyConfChange c"
    unfolding enc_ConfChange_def
    by (rule parses_eq, (rule parses_append parses_uint64 parses_bytes ConfChange_tags uint64_of_less lt)+)
      (use t in \<open>cases c; simp add: emptyConfChange_def ConfChangeType_ok_def split: option.split\<close>)
  then show ?thesis unfolding ConfChange_Unmarshal_def by (rule Unmarshal_parses) (use assms in simp)
qed

lemma ConfChangeV2_tags:
  "field_of ConfChangeSingle_fields (CHR 0x08) 0 (case_varint (\<lambda>v m. m\<lparr>csType := ConfChangeType_of (wrap32 (int v))\<rparr>))"
  "field_of ConfChangeSingle_fields (CHR 0x10) 0 (case_varint (\<lambda>v m. m\<lparr>csNodeID := v\<rparr>))"
  "field_of ConfChangeV2_fields (CHR 0x08) 0 (case_varint (\<lambda>v m. m\<lparr>c2Transition := ConfChangeTransition_of (wrap32 (int v))\<rparr>))"
  "field_of ConfChangeV2_fields (CHR 0x1A) 2 (case_bytes (\<lambda>v m. m\<lparr>c2Context := v\<rparr>))"
  "field_of ConfChangeV2_fields (CHR 0x12) 2 (case_msg (in_place ConfChangeSingle_Unmarshal (\<lambda>m. emptyConfChangeSingle)
     (\<lambda>x m. m\<lparr>c2Changes := c2Changes m @ [x]\<rparr>)))"
  by (simp_all add: field_of_def ConfChangeSingle_fields_def ConfChangeV2_fields_def)

lemma ConfChangeSingle_roundtrip:
  assumes "ConfChangeSingle_ok c" "ConfChangeSingle_Size c < 2 ^ 63"
  shows "ConfChangeSingle_Unmarshal (enc_ConfChangeSingle c) emptyConfChangeSingle = Some (Inr c)"
proof -
  have lt: "csNodeID c < 2 ^ 64" and t: "ConfChangeType_ok (csType c)"
    using assms by (simp_all add: ConfChangeSingle_ok_def)
  have "parses ConfChangeSingle_fields (enc_ConfChangeSingle c) emptyConfChangeSingle c"
    unfolding enc_ConfChangeSingle_def
    by (rule parses_eq, (rule parses_append parses_uint64 ConfChangeV2_tags uint64_of_less lt)+)
      (use t in \<open>cases c; simp add: emptyConfChangeSingle_def ConfChangeType_ok_def\<close>)
  then show ?thesis unfolding ConfChangeSingle_Unmarshal_def by (rule Unmarshal_parses) (use assms in simp)
qed

lemma parses_changes:
  assumes "\<forall>c \<in> set cs. ConfChangeSingle_ok c \<and> ConfChangeSingle_Size c < 2 ^ 63"
  shows "parses ConfChangeV2_fields (concat (map (\<lambda>c. enc_msg (CHR 0x12) (enc_ConfChangeSingle c)) cs)) m (m\<lparr>c2Changes := c2Changes m @ cs\<rparr>)"
proof -
  have "fold (\<lambda>c m. m\<lparr>c2Changes := c2Changes m @ [c]\<rparr>) cs m = m\<lparr>c2Changes := c2Changes m @ cs\<rparr>"
    by (rule fold_field; simp add: comp_def)
  moreover have "parses ConfChangeV2_fields (enc_msg (CHR 0x12) (enc_ConfChangeSingle c)) m (m\<lparr>c2Changes := c2Changes m @ [c]\<rparr>)"
    if "c \<in> set cs" for c m
    by (rule parses_msg [OF ConfChangeV2_tags(5)])
      (use assms that ConfChangeSingle_roundtrip [of c] in \<open>simp add: in_place_def\<close>)
  ultimately show ?thesis by (metis (no_types, lifting) parses_each)
qed

lemma ConfChangeV2_Size_part: "e \<in> set (c2Changes c) \<Longrightarrow> ConfChangeSingle_Size e \<le> ConfChangeV2_Size c"
  using member_le_sum_list [of "sub_Size (ConfChangeSingle_Size e)" "map (\<lambda>e. sub_Size (ConfChangeSingle_Size e)) (c2Changes c)"]
    sub_Size_ge [of "ConfChangeSingle_Size e"] by (simp add: ConfChangeV2_Size_def)

lemma ConfChangeV2_roundtrip:
  assumes "ConfChangeV2_ok c" "ConfChangeV2_Size c < 2 ^ 63"
  shows "ConfChangeV2_Unmarshal (enc_ConfChangeV2 c) emptyConfChangeV2 = Some (Inr c)"
proof -
  have cs: "\<forall>e \<in> set (c2Changes c). ConfChangeSingle_ok e \<and> ConfChangeSingle_Size e < 2 ^ 63"
    and t: "ConfChangeTransition_ok (c2Transition c)"
    using assms by (force simp: ConfChangeV2_ok_def dest: ConfChangeV2_Size_part)+
  have "parses ConfChangeV2_fields (enc_ConfChangeV2 c) emptyConfChangeV2 c"
    unfolding enc_ConfChangeV2_def
    by (rule parses_eq, (rule parses_append parses_uint64 parses_changes parses_bytes ConfChangeV2_tags uint64_of_less cs)+)
      (use t in \<open>cases c; simp add: emptyConfChangeV2_def ConfChangeTransition_ok_def split: option.split\<close>)
  then show ?thesis unfolding ConfChangeV2_Unmarshal_def by (rule Unmarshal_parses) (use assms in simp)
qed

lemma Marshal_enc:
  "Message_Marshal m = Some (enc_Message m)" "HardState_Marshal h = Some (enc_HardState h)"
  "ConfChange_Marshal c = Some (enc_ConfChange c)" "ConfChangeV2_Marshal c2 = Some (enc_ConfChangeV2 c2)"
  "Entry_Marshal e = Some (enc_Entry e)" "Snapshot_Marshal s = Some (enc_Snapshot s)" 
  unfolding Message_Marshal_def HardState_Marshal_def ConfChange_Marshal_def ConfChangeV2_Marshal_def Entry_Marshal_def
    Snapshot_Marshal_def
  by (simp_all add: Marshal_marshals Message_marshals HardState_marshals ConfChange_marshals ConfChangeV2_marshals
      Entry_marshals Snapshot_marshals)

text \<open>
  C22. Round trip of raft messages. A message whose numbers fit their Go types and whose encoding is
  not longer than the longest slice marshals without a panic into exactly \<open>Size\<close> bytes, and
  unmarshalling these bytes into a new message gives the message back: entries, snapshot with its
  configuration, flags and context included, and a nil slice is told from an empty one.
\<close>

theorem message_roundtrip:
  assumes "Message_ok m" "Message_Size m < 2 ^ 63"
  shows "\<exists>dAtA. Message_Marshal m = Some dAtA \<and> length dAtA = Message_Size m
    \<and> Message_Unmarshal dAtA emptyMessage = Some (Inr m)"
  using Message_roundtrip [OF assms] by (simp add: Marshal_enc)

theorem message_roundtrip_witness:
  "\<exists>dAtA. Message_Marshal (emptyMessage\<lparr>mType := MsgApp, mTo := 2, mFrom := 1, mTerm := 300,
       mEntries := [\<lparr>eTerm = 300, eIndex = 7, eType = EntryNormal, eData = Some ''x''\<rparr>], mContext := Some []\<rparr>) = Some dAtA
     \<and> Message_Unmarshal dAtA emptyMessage = Some (Inr (emptyMessage\<lparr>mType := MsgApp, mTo := 2, mFrom := 1, mTerm := 300,
       mEntries := [\<lparr>eTerm = 300, eIndex = 7, eType = EntryNormal, eData = Some ''x''\<rparr>], mContext := Some []\<rparr>))"
proof -
  let ?m = "emptyMessage\<lparr>mType := MsgApp, mTo := 2, mFrom := 1, mTerm := 300,
       mEntries := [\<lparr>eTerm = 300, eIndex = 7, eType = EntryNormal, eData = Some ''x''\<rparr>], mContext := Some []\<rparr>"
  have "Message_ok ?m"
    by (simp add: emptyMessage_def emptySnapshot_def emptyConfState_def Message_ok_def Snapshot_ok_def ConfState_ok_def
        Entry_ok_def EntryType_ok_def EntryType_num_def EntryType_of_def MessageType_ok_def MessageType_of_def MessageTypes_def in32_def)
  moreover have "Message_Size ?m < 2 ^ 63"
    by (simp add: emptyMessage_def emptySnapshot_def emptyConfState_def Message_Size_def Snapshot_Size_def SnapshotMetadata_Size_def
        ConfState_Size_def uint64s_Size_def Entry_Size_def sub_Size_def bytes_Size_def uint64_of_def EntryType_num_def
        sovRaft_small sovRaft_big)
  ultimately show ?thesis using message_roundtrip [of ?m] by blast
qed

text \<open>
  Round trip of configuration changes. \<open>MarshalConfChange\<close> never panics; the entry type it
  returns says which of the two kinds of change the bytes hold, and unmarshalling them as that kind
  gives the change back.
\<close>

theorem conf_change_roundtrip:
  assumes "case c of V1 c1 \<Rightarrow> ConfChange_ok c1 \<and> ConfChange_Size c1 < 2 ^ 63
    | V2 c2 \<Rightarrow> ConfChangeV2_ok c2 \<and> ConfChangeV2_Size c2 < 2 ^ 63"
  shows "\<exists>dAtA. case c of
      V1 c1 \<Rightarrow> MarshalConfChange c = Some (EntryConfChange, dAtA) \<and> ConfChange_Unmarshal dAtA emptyConfChange = Some (Inr c1)
    | V2 c2 \<Rightarrow> MarshalConfChange c = Some (EntryConfChangeV2, dAtA) \<and> ConfChangeV2_Unmarshal dAtA emptyConfChangeV2 = Some (Inr c2)"
  using assms
  by (cases c) (simp_all add: MarshalConfChange_def AsV1_def AsV2_def Marshal_enc ConfChange_roundtrip ConfChangeV2_roundtrip)

theorem conf_change_roundtrip_witness:
  "\<exists>dAtA. MarshalConfChange (V2 \<lparr>c2Transition = ConfChangeTransitionJointExplicit,
       c2Changes = [\<lparr>csType = ConfChangeAddLearnerNode, csNodeID = 3\<rparr>], c2Context = None\<rparr>) = Some (EntryConfChangeV2, dAtA)
     \<and> ConfChangeV2_Unmarshal dAtA emptyConfChangeV2 = Some (Inr \<lparr>c2Transition = ConfChangeTransitionJointExplicit,
       c2Changes = [\<lparr>csType = ConfChangeAddLearnerNode, csNodeID = 3\<rparr>], c2Context = None\<rparr>)"
proof -
  let ?c = "\<lparr>c2Transition = ConfChangeTransitionJointExplicit,
       c2Changes = [\<lparr>csType = ConfChangeAddLearnerNode, csNodeID = 3\<rparr>], c2Context = None\<rparr>"
  have "ConfChangeV2_ok ?c"
    by (simp add: ConfChangeV2_ok_def ConfChangeSingle_ok_def ConfChangeType_ok_def ConfChangeTransition_ok_def
        ConfChangeType_num_def ConfChangeType_of_def ConfChangeTransition_num_def ConfChangeTransition_of_def in32_def)
  moreover have "ConfChangeV2_Size ?c < 2 ^ 63"
    by (simp add: ConfChangeV2_Size_def ConfChangeSingle_Size_def sub_Size_def bytes_Size_def uint64_of_def
        ConfChangeType_num_def ConfChangeTransition_num_def sovRaft_small)
  ultimately show ?thesis using conf_change_roundtrip [of "V2 ?c"] by simp
qed


end
