(* ===== verification/Raft_Core.thy ===== *)
theory Raft_Core
  imports Raft_Confchange Raft_Log Raft_Codec
begin

text \<open>
  The raft state machine, \<open>src/etcd/raft/raft.go\<close> with \<open>read_only.go\<close> and the struct \<open>Ready\<close> of
  \<open>node.go\<close>. A method of \<open>*raft\<close> takes and returns the record \<open>raft\<close>; \<open>None\<close> is a panic, or a loop that
  does not end. The function fields \<open>step\<close> and \<open>tick\<close> are set together with \<open>state\<close> and are read off it.
  A pointer into the map of progresses is the entry of the map, written back where the code
  changes it. The numbers drawn from \<open>globalRand\<close> are a sequence \<open>rRand\<close> of which each draw takes the
  first. Log lines are left out; where the arguments of a log line can panic, they are evaluated.
\<close>

section \<open>Read-only requests\<close>

datatype ReadOnlyOption = ReadOnlySafe | ReadOnlyLeaseBased

record ReadState =
  rsIndex :: nat
  rsRequestCtx :: slice

record readIndexStatus =
  riReq :: Message
  riIndex :: nat
  riAcks :: "nat \<rightharpoonup> bool"

record readOnly =
  roOption :: ReadOnlyOption
  roPendingReadIndex :: "string \<rightharpoonup> readIndexStatus"
  roReadIndexQueue :: "string list"

definition newReadOnly :: "ReadOnlyOption \<Rightarrow> readOnly" where
  "newReadOnly opt = \<lparr>roOption = opt, roPendingReadIndex = Map.empty, roReadIndexQueue = []\<rparr>"

definition addRequest :: "readOnly \<Rightarrow> nat \<Rightarrow> Message \<Rightarrow> readOnly option" where
  "addRequest ro index m = do {
     e \<leftarrow> nth_opt (mEntries m) 0;
     let s = str (eData e);
     case roPendingReadIndex ro s of Some _ \<Rightarrow> Some ro
     | None \<Rightarrow> Some (ro\<lparr>roPendingReadIndex := (roPendingReadIndex ro)(s \<mapsto> \<lparr>riReq = m, riIndex = index, riAcks = Map.empty\<rparr>),
         roReadIndexQueue := roReadIndexQueue ro @ [s]\<rparr>) }"

definition recvAck :: "readOnly \<Rightarrow> nat \<Rightarrow> slice \<Rightarrow> readOnly \<times> (nat \<rightharpoonup> bool)" where
  "recvAck ro i context =
     (case roPendingReadIndex ro (str context) of None \<Rightarrow> (ro, Map.empty)
      | Some rs \<Rightarrow>
          let rs = rs\<lparr>riAcks := (riAcks rs)(i \<mapsto> True)\<rparr>
          in (ro\<lparr>roPendingReadIndex := (roPendingReadIndex ro)(str context \<mapsto> rs)\<rparr>, riAcks rs))"

text \<open>The requests up to the given context, the rest of the queue, and whether the context was found.\<close>

fun collect_reads :: "(string \<rightharpoonup> readIndexStatus) \<Rightarrow> string list \<Rightarrow> string \<Rightarrow> (readIndexStatus list \<times> string list \<times> bool) option" where
  "collect_reads p [] ctx = Some ([], [], False)"
| "collect_reads p (okctx # q) ctx = do {
     rs \<leftarrow> p okctx;
     if okctx = ctx then Some ([rs], q, True)
     else do {
       (rss, q, found) \<leftarrow> collect_reads p q ctx;
       Some (rs # rss, q, found) } }"

fun delete_reads :: "readIndexStatus list \<Rightarrow> (string \<rightharpoonup> readIndexStatus) \<Rightarrow> (string \<rightharpoonup> readIndexStatus) option" where
  "delete_reads [] p = Some p"
| "delete_reads (rs # rss) p = do {
     e \<leftarrow> nth_opt (mEntries (riReq rs)) 0;
     delete_reads rss (p(str (eData e) := None)) }"

definition ro_advance :: "readOnly \<Rightarrow> Message \<Rightarrow> (readOnly \<times> readIndexStatus list) option" where
  "ro_advance ro m = do {
     (rss, q, found) \<leftarrow> collect_reads (roPendingReadIndex ro) (roReadIndexQueue ro) (str (mContext m));
     if found then do {
       pending \<leftarrow> delete_reads rss (roPendingReadIndex ro);
       Some (ro\<lparr>roReadIndexQueue := q, roPendingReadIndex := pending\<rparr>, rss) }
     else Some (ro, []) }"

definition lastPendingRequestCtx :: "readOnly \<Rightarrow> string" where
  "lastPendingRequestCtx ro = (if length (roReadIndexQueue ro) = 0 then [] else last (roReadIndexQueue ro))"

section \<open>The state\<close>

datatype RaftStateType = StateFollower | StateCandidate | StateLeader | StatePreCandidate

datatype CampaignType = campaignPreElection | campaignElection | campaignTransfer

datatype StepErr = ErrProposalDropped

record RaftConfig =
  rcID :: nat
  rcElectionTick :: int
  rcHeartbeatTick :: int
  rcStorage :: "MemoryStorage option"
  rcApplied :: nat
  rcMaxSizePerMsg :: nat
  rcMaxCommittedSizePerReady :: nat
  rcMaxUncommittedEntriesSize :: nat
  rcMaxInflightMsgs :: int
  rcCheckQuorum :: bool
  rcPreVote :: bool
  rcReadOnlyOption :: ReadOnlyOption
  rcDisableProposalForwarding :: bool

record raft =
  rid :: nat
  rTerm :: nat
  rVote :: nat
  rReadStates :: "ReadState list"
  rLog :: raftLog
  rMaxMsgSize :: nat
  rMaxUncommittedSize :: nat
  rPrs :: ProgressTracker
  rState :: RaftStateType
  rIsLearner :: bool
  rMsgs :: "Message list"
  rLead :: nat
  rLeadTransferee :: nat
  rPendingConfIndex :: nat
  rUncommittedSize :: nat
  rReadOnly :: readOnly
  rElectionElapsed :: int
  rHeartbeatElapsed :: int
  rCheckQuorum :: bool
  rPreVote :: bool
  rHeartbeatTimeout :: int
  rElectionTimeout :: int
  rRandomizedElectionTimeout :: int
  rDisableProposalForwarding :: bool
  rPendingReadIndexMessages :: "Message list"
  rRand :: "nat \<Rightarrow> nat"

text \<open>\<open>validate\<close> returns no error and a configuration with its defaults, or fails.\<close>

definition validate :: "RaftConfig \<Rightarrow> RaftConfig option" where
  "validate c =
     (if rcID c = 0 \<or> rcHeartbeatTick c \<le> 0 \<or> rcElectionTick c \<le> rcHeartbeatTick c \<or> rcStorage c = None then None
      else
        let c = (if rcMaxUncommittedEntriesSize c = 0 then c\<lparr>rcMaxUncommittedEntriesSize := noLimit\<rparr> else c);
            c = (if rcMaxCommittedSizePerReady c = 0 then c\<lparr>rcMaxCommittedSizePerReady := rcMaxSizePerMsg c\<rparr> else c)
        in if rcMaxInflightMsgs c \<le> 0 then None
           else if rcReadOnlyOption c = ReadOnlyLeaseBased \<and> \<not> rcCheckQuorum c then None
           else Some c)"

section \<open>Sending\<close>

fun for_each :: "('a \<Rightarrow> 's \<Rightarrow> 's option) \<Rightarrow> 'a list \<Rightarrow> 's \<Rightarrow> 's option" where
  "for_each f [] s = Some s"
| "for_each f (x # xs) s = do { s \<leftarrow> f x s; for_each f xs s }"

lemma emptyMessage_sel [simp]:
  "mType emptyMessage = MsgHup" "mTo emptyMessage = 0" "mFrom emptyMessage = 0" "mTerm emptyMessage = 0" "mReject emptyMessage = False"
  by (simp_all add: emptyMessage_def)

abbreviation progress :: "raft \<Rightarrow> nat \<Rightarrow> Progress option" where
  "progress r i \<equiv> map_of (tProgress (rPrs r)) i"

definition put_progress :: "nat \<Rightarrow> Progress \<Rightarrow> raft \<Rightarrow> raft" where
  "put_progress i pr r = r\<lparr>rPrs := (rPrs r)\<lparr>tProgress := AList.update i pr (tProgress (rPrs r))\<rparr>\<rparr>"

definition hardState :: "raft \<Rightarrow> HardState" where
  "hardState r = \<lparr>hTerm = rTerm r, hVote = rVote r, hCommit = lCommitted (rLog r)\<rparr>"

definition push :: "Message \<Rightarrow> raft \<Rightarrow> raft option" where
  "push m r = (if mTo m = rid r then None else Some (r\<lparr>rMsgs := rMsgs r @ [m]\<rparr>))"

definition send :: "Message \<Rightarrow> raft \<Rightarrow> raft option" where
  "send m r =
     (let m = (if mFrom m = 0 then m\<lparr>mFrom := rid r\<rparr> else m) in
      if mType m = MsgVote \<or> mType m = MsgVoteResp \<or> mType m = MsgPreVote \<or> mType m = MsgPreVoteResp then
        if mTerm m = 0 then None else push m r
      else if mTerm m \<noteq> 0 then None
      else push (if mType m \<noteq> MsgProp \<and> mType m \<noteq> MsgReadIndex then m\<lparr>mTerm := rTerm r\<rparr> else m) r)"

text \<open>Without the term or the entries a snapshot is sent.\<close>

definition send_snapshot :: "nat \<Rightarrow> Progress \<Rightarrow> raft \<Rightarrow> (raft \<times> bool) option" where
  "send_snapshot to pr r =
     (if \<not> prRecentActive pr then Some (r, False)
      else case log_snapshot (rLog r) of
        Inl err \<Rightarrow> if err = ErrSnapshotTemporarilyUnavailable then Some (r, False) else None
      | Inr snapshot \<Rightarrow>
          if IsEmptySnap snapshot then None
          else do {
            _ \<leftarrow> log_firstIndex (rLog r);
            r \<leftarrow> send (emptyMessage\<lparr>mTo := to, mType := MsgSnap, mSnapshot := snapshot\<rparr>)
                   (put_progress to (BecomeSnapshot pr (snIndex snapshot)) r);
            Some (r, True) })"

definition track_append :: "Entry list \<Rightarrow> Progress \<Rightarrow> Progress option" where
  "track_append ents pr =
     (if length ents = 0 then Some pr
      else case prState pr of
        StateReplicate \<Rightarrow> do {
          let last = eIndex (last ents);
          let pr = OptimisticUpdate pr last;
          infl \<leftarrow> Inflights_Add (prInflights pr) last;
          Some (pr\<lparr>prInflights := infl\<rparr>) }
      | StateProbe \<Rightarrow> Some (pr\<lparr>prProbeSent := True\<rparr>)
      | StateSnapshot \<Rightarrow> None)"

definition maybeSendAppend :: "nat \<Rightarrow> bool \<Rightarrow> raft \<Rightarrow> (raft \<times> bool) option" where
  "maybeSendAppend to sendIfEmpty r = do {
     pr \<leftarrow> progress r to;
     if IsPaused pr then Some (r, False)
     else do {
       term \<leftarrow> log_term (rLog r) (sub64 (prNext pr) 1);
       ents \<leftarrow> log_entries (rLog r) (prNext pr) (rMaxMsgSize r);
       if (case ents of Inl _ \<Rightarrow> True | Inr ents \<Rightarrow> length ents = 0) \<and> \<not> sendIfEmpty then Some (r, False)
       else case term of Inl _ \<Rightarrow> send_snapshot to pr r
         | Inr term \<Rightarrow>
             (case ents of Inl _ \<Rightarrow> send_snapshot to pr r
              | Inr ents \<Rightarrow> do {
                  let m = emptyMessage\<lparr>mTo := to, mType := MsgApp, mIndex := sub64 (prNext pr) 1, mLogTerm := term,
                    mEntries := ents, mCommit := lCommitted (rLog r)\<rparr>;
                  pr \<leftarrow> track_append ents pr;
                  r \<leftarrow> send m (put_progress to pr r);
                  Some (r, True) }) } }"

definition sendAppend :: "nat \<Rightarrow> raft \<Rightarrow> raft option" where
  "sendAppend to r = map_option fst (maybeSendAppend to True r)"

text \<open>\<open>for r.maybeSendAppend(to, false) {}\<close>.\<close>

partial_function (option) send_more :: "nat \<Rightarrow> raft \<Rightarrow> raft option" where
  "send_more to r = do {
     (r, sent) \<leftarrow> maybeSendAppend to False r;
     if sent then send_more to r else Some r }"

declare send_more.simps [code]

definition sendHeartbeat :: "nat \<Rightarrow> slice \<Rightarrow> raft \<Rightarrow> raft option" where
  "sendHeartbeat to ctx r = do {
     pr \<leftarrow> progress r to;
     send (emptyMessage\<lparr>mTo := to, mType := MsgHeartbeat, mCommit := min (prMatch pr) (lCommitted (rLog r)), mContext := ctx\<rparr>) r }"

definition bcastAppend :: "raft \<Rightarrow> raft option" where
  "bcastAppend r = for_each (\<lambda>i r. if i = rid r then Some r else sendAppend i r) (visit_ids (rPrs r)) r"

definition bcastHeartbeatWithCtx :: "slice \<Rightarrow> raft \<Rightarrow> raft option" where
  "bcastHeartbeatWithCtx ctx r = for_each (\<lambda>i r. if i = rid r then Some r else sendHeartbeat i ctx r) (visit_ids (rPrs r)) r"

definition bcastHeartbeat :: "raft \<Rightarrow> raft option" where
  "bcastHeartbeat r =
     (let lastCtx = lastPendingRequestCtx (rReadOnly r) in
      if length lastCtx = 0 then bcastHeartbeatWithCtx None r else bcastHeartbeatWithCtx (Some lastCtx) r)"

definition sendTimeoutNow :: "nat \<Rightarrow> raft \<Rightarrow> raft option" where
  "sendTimeoutNow to r = send (emptyMessage\<lparr>mTo := to, mType := MsgTimeoutNow\<rparr>) r"

section \<open>Changes of role\<close>

definition raft_maybeCommit :: "raft \<Rightarrow> (raft \<times> bool) option" where
  "raft_maybeCommit r = map_option (\<lambda>(l, b). (r\<lparr>rLog := l\<rparr>, b)) (maybeCommit (rLog r) (Committed (rPrs r)) (rTerm r))"

definition resetRandomizedElectionTimeout :: "raft \<Rightarrow> raft option" where
  "resetRandomizedElectionTimeout r =
     (if rElectionTimeout r \<le> 0 then None
      else Some (r\<lparr>rRandomizedElectionTimeout := rElectionTimeout r + int (rRand r 0) mod rElectionTimeout r,
                   rRand := (\<lambda>k. rRand r (Suc k))\<rparr>))"

definition abortLeaderTransfer :: "raft \<Rightarrow> raft" where
  "abortLeaderTransfer r = r\<lparr>rLeadTransferee := 0\<rparr>"

definition raft_reset :: "nat \<Rightarrow> raft \<Rightarrow> raft option" where
  "raft_reset term r = do {
     let r = (if rTerm r \<noteq> term then r\<lparr>rTerm := term, rVote := 0\<rparr> else r);
     let r = r\<lparr>rLead := 0, rElectionElapsed := 0, rHeartbeatElapsed := 0\<rparr>;
     r \<leftarrow> resetRandomizedElectionTimeout r;
     let r = abortLeaderTransfer r;
     let r = r\<lparr>rPrs := ResetVotes (rPrs r)\<rparr>;
     r \<leftarrow> for_each (\<lambda>i r. do {
             pr \<leftarrow> progress r i;
             li \<leftarrow> log_lastIndex (rLog r);
             Some (put_progress i
               \<lparr>prMatch = (if i = rid r then li else 0), prNext = li + 1, prState = StateProbe, prPendingSnapshot = 0,
                prRecentActive = False, prProbeSent = False, prInflights = NewInflights (tMaxInflight (rPrs r)),
                prIsLearner = prIsLearner pr\<rparr> r) })
           (visit_ids (rPrs r)) r;
     Some (r\<lparr>rPendingConfIndex := 0, rUncommittedSize := 0, rReadOnly := newReadOnly (roOption (rReadOnly r))\<rparr>) }"

definition increaseUncommittedSize :: "Entry list \<Rightarrow> raft \<Rightarrow> raft \<times> bool" where
  "increaseUncommittedSize ents r =
     (let s = (\<Sum>e\<leftarrow>ents. PayloadSize e) in
      if rUncommittedSize r > 0 \<and> s > 0 \<and> rUncommittedSize r + s > rMaxUncommittedSize r then (r, False)
      else (r\<lparr>rUncommittedSize := rUncommittedSize r + s\<rparr>, True))"

definition reduceUncommittedSize :: "Entry list \<Rightarrow> raft \<Rightarrow> raft" where
  "reduceUncommittedSize ents r =
     (if rUncommittedSize r = 0 then r
      else let s = (\<Sum>e\<leftarrow>ents. PayloadSize e) in
        if s > rUncommittedSize r then r\<lparr>rUncommittedSize := 0\<rparr> else r\<lparr>rUncommittedSize := rUncommittedSize r - s\<rparr>)"

fun number_entries :: "nat \<Rightarrow> nat \<Rightarrow> Entry list \<Rightarrow> Entry list" where
  "number_entries term i [] = []"
| "number_entries term i (e # es) = e\<lparr>eTerm := term, eIndex := i\<rparr> # number_entries term (Suc i) es"

definition appendEntry :: "Entry list \<Rightarrow> raft \<Rightarrow> (raft \<times> bool) option" where
  "appendEntry es r = do {
     li \<leftarrow> log_lastIndex (rLog r);
     let es = number_entries (rTerm r) (li + 1) es;
     let (r, accepted) = increaseUncommittedSize es r;
     if \<not> accepted then Some (r, False)
     else do {
       (l, _) \<leftarrow> log_append (rLog r) es;
       Some (r\<lparr>rLog := l\<rparr>, True) } }"

definition becomeFollower :: "nat \<Rightarrow> nat \<Rightarrow> raft \<Rightarrow> raft option" where
  "becomeFollower term lead r = do {
     r \<leftarrow> raft_reset term r;
     Some (r\<lparr>rLead := lead, rState := StateFollower\<rparr>) }"

definition becomeCandidate :: "raft \<Rightarrow> raft option" where
  "becomeCandidate r =
     (if rState r = StateLeader then None
      else do {
        r \<leftarrow> raft_reset (rTerm r + 1) r;
        Some (r\<lparr>rVote := rid r, rState := StateCandidate\<rparr>) })"

definition becomePreCandidate :: "raft \<Rightarrow> raft option" where
  "becomePreCandidate r =
     (if rState r = StateLeader then None
      else Some (r\<lparr>rPrs := ResetVotes (rPrs r), rLead := 0, rState := StatePreCandidate\<rparr>))"

definition becomeLeader :: "raft \<Rightarrow> raft option" where
  "becomeLeader r =
     (if rState r = StateFollower then None
      else do {
        r \<leftarrow> raft_reset (rTerm r) r;
        let r = r\<lparr>rLead := rid r, rState := StateLeader\<rparr>;
        pr \<leftarrow> progress r (rid r);
        let r = put_progress (rid r) ((BecomeReplicate pr)\<lparr>prRecentActive := True\<rparr>) r;
        li \<leftarrow> log_lastIndex (rLog r);
        let r = r\<lparr>rPendingConfIndex := li\<rparr>;
        (r, accepted) \<leftarrow> appendEntry [emptyEntry] r;
        if \<not> accepted then None else Some (reduceUncommittedSize [emptyEntry] r) })"

section \<open>Elections\<close>

definition promotable :: "raft \<Rightarrow> bool" where
  "promotable r = (case progress r (rid r) of None \<Rightarrow> False | Some pr \<Rightarrow> \<not> prIsLearner pr \<and> \<not> hasPendingSnapshot (rLog r))"

definition numOfPendingConf :: "Entry list \<Rightarrow> nat" where
  "numOfPendingConf ents = length (filter (\<lambda>e. eType e = EntryConfChange \<or> eType e = EntryConfChangeV2) ents)"

definition poll :: "nat \<Rightarrow> bool \<Rightarrow> raft \<Rightarrow> raft \<times> VoteResult" where
  "poll i v r =
     (let r = r\<lparr>rPrs := RecordVote (rPrs r) i v\<rparr>; (granted, rejected, res) = TallyVotes (rPrs r) in (r, res))"

text \<open>The requests that a campaign sends, in the order of the ids.\<close>

definition ask_votes :: "MessageType \<Rightarrow> nat \<Rightarrow> slice \<Rightarrow> raft \<Rightarrow> raft option" where
  "ask_votes voteMsg term ctx r =
     for_each (\<lambda>i r.
         if i = rid r then Some r
         else do {
           lt \<leftarrow> lastTerm (rLog r);
           li \<leftarrow> log_lastIndex (rLog r);
           send (emptyMessage\<lparr>mTerm := term, mTo := i, mType := voteMsg, mIndex := li, mLogTerm := lt, mContext := ctx\<rparr>) r })
       (sort (IDs (tVoters (rPrs r)))) r"

function campaign :: "CampaignType \<Rightarrow> raft \<Rightarrow> raft option" where
  "campaign t r =
     (if t = campaignPreElection then do {
        r \<leftarrow> becomePreCandidate r;
        let term = rTerm r + 1;
        let (r, res) = poll (rid r) True r;
        if res = VoteWon then campaign campaignElection r
        else ask_votes MsgPreVote term None r }
      else do {
        r \<leftarrow> becomeCandidate r;
        let term = rTerm r;
        let (r, res) = poll (rid r) True r;
        if res = VoteWon then becomeLeader r
        else ask_votes MsgVote term (if t = campaignTransfer then Some ''CampaignTransfer'' else None) r })"
  by pat_completeness auto
termination
  by (relation "measure (\<lambda>(t, _). if t = campaignPreElection then 1 else 0)") auto

declare campaign.simps [simp del]

definition hup :: "CampaignType \<Rightarrow> raft \<Rightarrow> raft option" where
  "hup t r =
     (if rState r = StateLeader then Some r
      else if \<not> promotable r then Some r
      else do {
        res \<leftarrow> log_slice (rLog r) (lApplied (rLog r) + 1) (lCommitted (rLog r) + 1) noLimit;
        case res of Inl _ \<Rightarrow> None
        | Inr ents \<Rightarrow>
            if numOfPendingConf ents \<noteq> 0 \<and> lCommitted (rLog r) > lApplied (rLog r) then Some r else campaign t r })"

section \<open>The log of a follower\<close>

definition handleAppendEntries :: "Message \<Rightarrow> raft \<Rightarrow> raft option" where
  "handleAppendEntries m r =
     (if mIndex m < lCommitted (rLog r) then
        send (emptyMessage\<lparr>mTo := mFrom m, mType := MsgAppResp, mIndex := lCommitted (rLog r)\<rparr>) r
      else do {
        (l, mlastIndex, ok) \<leftarrow> maybeAppend (rLog r) (mIndex m) (mLogTerm m) (mCommit m) (mEntries m);
        let r = r\<lparr>rLog := l\<rparr>;
        if ok then send (emptyMessage\<lparr>mTo := mFrom m, mType := MsgAppResp, mIndex := mlastIndex\<rparr>) r
        else do {
          t \<leftarrow> log_term (rLog r) (mIndex m);
          _ \<leftarrow> zeroTermOnErrCompacted t;
          li \<leftarrow> log_lastIndex (rLog r);
          hintIndex \<leftarrow> findConflictByTerm (rLog r) (min (mIndex m) li) (mLogTerm m);
          res \<leftarrow> log_term (rLog r) hintIndex;
          case res of Inl _ \<Rightarrow> None
          | Inr hintTerm \<Rightarrow>
              send (emptyMessage\<lparr>mTo := mFrom m, mType := MsgAppResp, mIndex := mIndex m, mReject := True,
                mRejectHint := hintIndex, mLogTerm := hintTerm\<rparr>) r } })"

definition handleHeartbeat :: "Message \<Rightarrow> raft \<Rightarrow> raft option" where
  "handleHeartbeat m r = do {
     l \<leftarrow> commitTo (rLog r) (mCommit m);
     send (emptyMessage\<lparr>mTo := mFrom m, mType := MsgHeartbeatResp, mContext := mContext m\<rparr>) (r\<lparr>rLog := l\<rparr>) }"

text \<open>\<open>assertConfStatesEquivalent\<close> panics unless its arguments agree up to order.\<close>

definition assertConfStatesEquivalent :: "ConfState \<Rightarrow> ConfState \<Rightarrow> unit option" where
  "assertConfStatesEquivalent cs1 cs2 = (if Equivalent cs1 cs2 then Some () else None)"

definition switchToConfig :: "conf \<Rightarrow> raft \<Rightarrow> (raft \<times> ConfState) option" where
  "switchToConfig cp r = do {
     let r = r\<lparr>rPrs := (rPrs r)\<lparr>tConfig := fst cp, tProgress := snd cp\<rparr>\<rparr>;
     let cs = tConfState (rPrs r);
     let pr = progress r (rid r);
     let r = r\<lparr>rIsLearner := (case pr of None \<Rightarrow> False | Some pr \<Rightarrow> prIsLearner pr)\<rparr>;
     if (pr = None \<or> rIsLearner r) \<and> rState r = StateLeader then Some (r, cs)
     else if rState r \<noteq> StateLeader \<or> length (csVoters cs) = 0 then Some (r, cs)
     else do {
       (r, committed) \<leftarrow> raft_maybeCommit r;
       r \<leftarrow> (if committed then bcastAppend r
             else for_each (\<lambda>i r. if i = rid r then Some r else map_option fst (maybeSendAppend i False r)) (visit_ids (rPrs r)) r);
       let r = (if rLeadTransferee r \<notin> set (IDs (tVoters (rPrs r))) \<and> rLeadTransferee r \<noteq> 0 then abortLeaderTransfer r else r);
       Some (r, cs) } }"

definition raft_restore :: "Snapshot \<Rightarrow> raft \<Rightarrow> (raft \<times> bool) option" where
  "raft_restore s r =
     (if snIndex s \<le> lCommitted (rLog r) then Some (r, False)
      else if rState r \<noteq> StateFollower then map_option (\<lambda>r. (r, False)) (becomeFollower (rTerm r + 1) 0 r)
      else
        let cs = smConfState (snMetadata s) in
        if rid r \<notin> set (csVoters cs) \<and> rid r \<notin> set (csLearners cs) \<and> rid r \<notin> set (csVotersOutgoing cs) then Some (r, False)
        else do {
          same \<leftarrow> matchTerm (rLog r) (snIndex s) (snTerm s);
          if same then do {
            _ \<leftarrow> lastTerm (rLog r);
            l \<leftarrow> commitTo (rLog r) (snIndex s);
            Some (r\<lparr>rLog := l\<rparr>, False) }
          else do {
            let r = r\<lparr>rLog := log_restore (rLog r) s\<rparr>;
            let r = r\<lparr>rPrs := MakeProgressTracker (tMaxInflight (rPrs r))\<rparr>;
            li \<leftarrow> log_lastIndex (rLog r);
            res \<leftarrow> Restore \<lparr>chTracker = rPrs r, chLastIndex = li\<rparr> cs;
            case res of Inl _ \<Rightarrow> None
            | Inr cp \<Rightarrow> do {
                (r, cs2) \<leftarrow> switchToConfig cp r;
                _ \<leftarrow> assertConfStatesEquivalent cs cs2;
                pr \<leftarrow> progress r (rid r);
                let r = put_progress (rid r) (fst (MaybeUpdate pr (sub64 (prNext pr) 1))) r;
                _ \<leftarrow> lastTerm (rLog r);
                Some (r, True) } } })"

definition handleSnapshot :: "Message \<Rightarrow> raft \<Rightarrow> raft option" where
  "handleSnapshot m r = do {
     (r, restored) \<leftarrow> raft_restore (mSnapshot m) r;
     if restored then do {
       li \<leftarrow> log_lastIndex (rLog r);
       send (emptyMessage\<lparr>mTo := mFrom m, mType := MsgAppResp, mIndex := li\<rparr>) r }
     else send (emptyMessage\<lparr>mTo := mFrom m, mType := MsgAppResp, mIndex := lCommitted (rLog r)\<rparr>) r }"

section \<open>Reads\<close>

definition committedEntryInCurrentTerm :: "raft \<Rightarrow> bool option" where
  "committedEntryInCurrentTerm r = do {
     t \<leftarrow> log_term (rLog r) (lCommitted (rLog r));
     z \<leftarrow> zeroTermOnErrCompacted t;
     Some (z = rTerm r) }"

definition responseToReadIndexReq :: "Message \<Rightarrow> nat \<Rightarrow> raft \<Rightarrow> (raft \<times> Message) option" where
  "responseToReadIndexReq req readIndex r =
     (if mFrom req = 0 \<or> mFrom req = rid r then do {
        e \<leftarrow> nth_opt (mEntries req) 0;
        Some (r\<lparr>rReadStates := rReadStates r @ [\<lparr>rsIndex = readIndex, rsRequestCtx = eData e\<rparr>]\<rparr>, emptyMessage) }
      else Some (r, emptyMessage\<lparr>mType := MsgReadIndexResp, mTo := mFrom req, mIndex := readIndex, mEntries := mEntries req\<rparr>))"

text \<open>\<open>if resp := r.responseToReadIndexReq(req, index); resp.To != None { r.send(resp) }\<close>.\<close>

definition respond_read :: "Message \<Rightarrow> nat \<Rightarrow> raft \<Rightarrow> raft option" where
  "respond_read req readIndex r = do {
     (r, resp) \<leftarrow> responseToReadIndexReq req readIndex r;
     if mTo resp \<noteq> 0 then send resp r else Some r }"

definition sendMsgReadIndexResponse :: "Message \<Rightarrow> raft \<Rightarrow> raft option" where
  "sendMsgReadIndexResponse m r =
     (case roOption (rReadOnly r) of
        ReadOnlySafe \<Rightarrow> do {
          ro \<leftarrow> addRequest (rReadOnly r) (lCommitted (rLog r)) m;
          e \<leftarrow> nth_opt (mEntries m) 0;
          let r = r\<lparr>rReadOnly := fst (recvAck ro (rid r) (eData e))\<rparr>;
          bcastHeartbeatWithCtx (eData e) r }
      | ReadOnlyLeaseBased \<Rightarrow> respond_read m (lCommitted (rLog r)) r)"

definition releasePendingReadIndexMessages :: "raft \<Rightarrow> raft option" where
  "releasePendingReadIndexMessages r =
     (if length (rPendingReadIndexMessages r) = 0 then Some r
      else do {
        b \<leftarrow> committedEntryInCurrentTerm r;
        if \<not> b then Some r
        else for_each sendMsgReadIndexResponse (rPendingReadIndexMessages r) (r\<lparr>rPendingReadIndexMessages := []\<rparr>) })"

section \<open>Messages to a leader\<close>

definition leader_CheckQuorum :: "raft \<Rightarrow> raft option" where
  "leader_CheckQuorum r = do {
     r \<leftarrow> (if \<not> QuorumActive (rPrs r) then becomeFollower (rTerm r) 0 r else Some r);
     for_each (\<lambda>i r. do {
         pr \<leftarrow> progress r i;
         Some (if i \<noteq> rid r then put_progress i (pr\<lparr>prRecentActive := False\<rparr>) r else r) })
       (visit_ids (rPrs r)) r }"

definition entry_change :: "Entry \<Rightarrow> ConfChangeI option option" where
  "entry_change e =
     (if eType e = EntryConfChange then
        (case ConfChange_Unmarshal (str (eData e)) emptyConfChange of Some (Inr c) \<Rightarrow> Some (Some (V1 c)) | _ \<Rightarrow> None)
      else if eType e = EntryConfChangeV2 then
        (case ConfChangeV2_Unmarshal (str (eData e)) emptyConfChangeV2 of Some (Inr c) \<Rightarrow> Some (Some (V2 c)) | _ \<Rightarrow> None)
      else Some None)"

text \<open>A change that must wait is replaced by an empty entry; a change that may go on is pending.\<close>

fun prop_entries :: "nat \<Rightarrow> Entry list \<Rightarrow> raft \<Rightarrow> (raft \<times> Entry list) option" where
  "prop_entries i [] r = Some (r, [])"
| "prop_entries i (e # es) r = do {
     cc \<leftarrow> entry_change e;
     (r, e) \<leftarrow> (case cc of None \<Rightarrow> Some (r, e)
       | Some cc \<Rightarrow> do {
           let alreadyPending = rPendingConfIndex r > lApplied (rLog r);
           let alreadyJoint = length (ids (snd (tVoters (rPrs r)))) > 0;
           let wantsLeaveJoint = length (c2Changes (AsV2 cc)) = 0;
           if alreadyPending \<or> (alreadyJoint \<and> \<not> wantsLeaveJoint) \<or> (\<not> alreadyJoint \<and> wantsLeaveJoint)
           then Some (r, emptyEntry\<lparr>eType := EntryNormal\<rparr>)
           else do {
             li \<leftarrow> log_lastIndex (rLog r);
             Some (r\<lparr>rPendingConfIndex := li + i + 1\<rparr>, e) } });
     (r, es) \<leftarrow> prop_entries (Suc i) es r;
     Some (r, e # es) }"

definition leader_Prop :: "Message \<Rightarrow> raft \<Rightarrow> (raft \<times> StepErr option) option" where
  "leader_Prop m r =
     (if length (mEntries m) = 0 then None
      else if progress r (rid r) = None then Some (r, Some ErrProposalDropped)
      else if rLeadTransferee r \<noteq> 0 then Some (r, Some ErrProposalDropped)
      else do {
        (r, es) \<leftarrow> prop_entries 0 (mEntries m) r;
        (r, accepted) \<leftarrow> appendEntry es r;
        if \<not> accepted then Some (r, Some ErrProposalDropped)
        else map_option (\<lambda>r. (r, None)) (bcastAppend r) })"

definition leader_ReadIndex :: "Message \<Rightarrow> raft \<Rightarrow> raft option" where
  "leader_ReadIndex m r =
     (if IsSingleton (rPrs r) then respond_read m (lCommitted (rLog r)) r
      else do {
        b \<leftarrow> committedEntryInCurrentTerm r;
        if \<not> b then Some (r\<lparr>rPendingReadIndexMessages := rPendingReadIndexMessages r @ [m]\<rparr>)
        else sendMsgReadIndexResponse m r })"

definition leader_AppResp_reject :: "Message \<Rightarrow> Progress \<Rightarrow> raft \<Rightarrow> raft option" where
  "leader_AppResp_reject m pr r = do {
     nextProbeIdx \<leftarrow> (if mLogTerm m > 0 then findConflictByTerm (rLog r) (mRejectHint m) (mLogTerm m) else Some (mRejectHint m));
     let (pr, decr) = MaybeDecrTo pr (mIndex m) nextProbeIdx;
     if decr then
       let pr = (if prState pr = StateReplicate then BecomeProbe pr else pr)
       in sendAppend (mFrom m) (put_progress (mFrom m) pr r)
     else Some (put_progress (mFrom m) pr r) }"

definition leader_AppResp_accept :: "Message \<Rightarrow> Progress \<Rightarrow> raft \<Rightarrow> raft option" where
  "leader_AppResp_accept m pr r = do {
     let oldPaused = IsPaused pr;
     let (pr, updated) = MaybeUpdate pr (mIndex m);
     if \<not> updated then Some (put_progress (mFrom m) pr r)
     else do {
       pr \<leftarrow> (if prState pr = StateProbe then Some (BecomeReplicate pr)
              else if prState pr = StateSnapshot \<and> prMatch pr \<ge> prPendingSnapshot pr then Some (BecomeReplicate (BecomeProbe pr))
              else if prState pr = StateReplicate
                then map_option (\<lambda>infl. pr\<lparr>prInflights := infl\<rparr>) (FreeLE (prInflights pr) (mIndex m))
              else Some pr);
       (r, committed) \<leftarrow> raft_maybeCommit (put_progress (mFrom m) pr r);
       r \<leftarrow> (if committed then releasePendingReadIndexMessages r \<bind> bcastAppend
             else if oldPaused then sendAppend (mFrom m) r
             else Some r);
       r \<leftarrow> (if rid r \<noteq> mFrom m then send_more (mFrom m) r else Some r);
       if mFrom m = rLeadTransferee r then do {
         pr \<leftarrow> progress r (mFrom m);
         li \<leftarrow> log_lastIndex (rLog r);
         if prMatch pr = li then sendTimeoutNow (mFrom m) r else Some r }
       else Some r } }"

definition leader_HeartbeatResp :: "Message \<Rightarrow> Progress \<Rightarrow> raft \<Rightarrow> raft option" where
  "leader_HeartbeatResp m pr r = do {
     let pr = pr\<lparr>prRecentActive := True, prProbeSent := False\<rparr>;
     pr \<leftarrow> (if prState pr = StateReplicate \<and> Full (prInflights pr)
            then map_option (\<lambda>infl. pr\<lparr>prInflights := infl\<rparr>) (FreeFirstOne (prInflights pr)) else Some pr);
     let r = put_progress (mFrom m) pr r;
     li \<leftarrow> log_lastIndex (rLog r);
     r \<leftarrow> (if prMatch pr < li then sendAppend (mFrom m) r else Some r);
     if roOption (rReadOnly r) \<noteq> ReadOnlySafe \<or> length (str (mContext m)) = 0 then Some r
     else do {
       let (ro, acks) = recvAck (rReadOnly r) (mFrom m) (mContext m);
       let r = r\<lparr>rReadOnly := ro\<rparr>;
       if JointVoteResult (tVoters (rPrs r)) acks \<noteq> VoteWon then Some r
       else do {
         (ro, rss) \<leftarrow> ro_advance (rReadOnly r) m;
         for_each (\<lambda>rs. respond_read (riReq rs) (riIndex rs)) rss (r\<lparr>rReadOnly := ro\<rparr>) } } }"

definition leader_SnapStatus :: "Message \<Rightarrow> Progress \<Rightarrow> raft \<Rightarrow> raft" where
  "leader_SnapStatus m pr r =
     (if prState pr \<noteq> StateSnapshot then r
      else
        let pr = (if \<not> mReject m then BecomeProbe pr else BecomeProbe (pr\<lparr>prPendingSnapshot := 0\<rparr>))
        in put_progress (mFrom m) (pr\<lparr>prProbeSent := True\<rparr>) r)"

definition leader_Unreachable :: "Message \<Rightarrow> Progress \<Rightarrow> raft \<Rightarrow> raft" where
  "leader_Unreachable m pr r = (if prState pr = StateReplicate then put_progress (mFrom m) (BecomeProbe pr) r else r)"

definition leader_TransferLeader :: "Message \<Rightarrow> Progress \<Rightarrow> raft \<Rightarrow> raft option" where
  "leader_TransferLeader m pr r =
     (if prIsLearner pr then Some r
      else if rLeadTransferee r \<noteq> 0 \<and> rLeadTransferee r = mFrom m then Some r
      else
        let r = (if rLeadTransferee r \<noteq> 0 then abortLeaderTransfer r else r) in
        if mFrom m = rid r then Some r
        else do {
          let r = r\<lparr>rElectionElapsed := 0, rLeadTransferee := mFrom m\<rparr>;
          li \<leftarrow> log_lastIndex (rLog r);
          if prMatch pr = li then sendTimeoutNow (mFrom m) r else sendAppend (mFrom m) r })"

abbreviation no_err :: "raft option \<Rightarrow> (raft \<times> StepErr option) option" where
  "no_err \<equiv> map_option (\<lambda>r. (r, None))"

definition stepLeader :: "Message \<Rightarrow> raft \<Rightarrow> (raft \<times> StepErr option) option" where
  "stepLeader m r =
     (case mType m of
        MsgBeat \<Rightarrow> no_err (bcastHeartbeat r)
      | MsgCheckQuorum \<Rightarrow> no_err (leader_CheckQuorum r)
      | MsgProp \<Rightarrow> leader_Prop m r
      | MsgReadIndex \<Rightarrow> no_err (leader_ReadIndex m r)
      | _ \<Rightarrow>
          (case progress r (mFrom m) of None \<Rightarrow> Some (r, None)
           | Some pr \<Rightarrow> no_err
              (case mType m of
                 MsgAppResp \<Rightarrow>
                   let pr = pr\<lparr>prRecentActive := True\<rparr>
                   in if mReject m then leader_AppResp_reject m pr r else leader_AppResp_accept m pr r
               | MsgHeartbeatResp \<Rightarrow> leader_HeartbeatResp m pr r
               | MsgSnapStatus \<Rightarrow> Some (leader_SnapStatus m pr r)
               | MsgUnreachable \<Rightarrow> Some (leader_Unreachable m pr r)
               | MsgTransferLeader \<Rightarrow> leader_TransferLeader m pr r
               | _ \<Rightarrow> Some r)))"

section \<open>Messages to a candidate or a follower\<close>

definition candidate_vote :: "Message \<Rightarrow> raft \<Rightarrow> raft option" where
  "candidate_vote m r =
     (let (r, res) = poll (mFrom m) (\<not> mReject m) r in
      case res of
        VoteWon \<Rightarrow> if rState r = StatePreCandidate then campaign campaignElection r else becomeLeader r \<bind> bcastAppend
      | VoteLost \<Rightarrow> becomeFollower (rTerm r) 0 r
      | VotePending \<Rightarrow> Some r)"

definition stepCandidate :: "Message \<Rightarrow> raft \<Rightarrow> (raft \<times> StepErr option) option" where
  "stepCandidate m r =
     (case mType m of
        MsgProp \<Rightarrow> Some (r, Some ErrProposalDropped)
      | MsgApp \<Rightarrow> no_err (becomeFollower (mTerm m) (mFrom m) r \<bind> handleAppendEntries m)
      | MsgHeartbeat \<Rightarrow> no_err (becomeFollower (mTerm m) (mFrom m) r \<bind> handleHeartbeat m)
      | MsgSnap \<Rightarrow> no_err (becomeFollower (mTerm m) (mFrom m) r \<bind> handleSnapshot m)
      | MsgPreVoteResp \<Rightarrow> if rState r = StatePreCandidate then no_err (candidate_vote m r) else Some (r, None)
      | MsgVoteResp \<Rightarrow> if rState r \<noteq> StatePreCandidate then no_err (candidate_vote m r) else Some (r, None)
      | _ \<Rightarrow> Some (r, None))"

definition stepFollower :: "Message \<Rightarrow> raft \<Rightarrow> (raft \<times> StepErr option) option" where
  "stepFollower m r =
     (let heard = r\<lparr>rElectionElapsed := 0, rLead := mFrom m\<rparr> in
      case mType m of
        MsgProp \<Rightarrow>
          if rLead r = 0 \<or> rDisableProposalForwarding r then Some (r, Some ErrProposalDropped)
          else no_err (send (m\<lparr>mTo := rLead r\<rparr>) r)
      | MsgApp \<Rightarrow> no_err (handleAppendEntries m heard)
      | MsgHeartbeat \<Rightarrow> no_err (handleHeartbeat m heard)
      | MsgSnap \<Rightarrow> no_err (handleSnapshot m heard)
      | MsgTransferLeader \<Rightarrow> if rLead r = 0 then Some (r, None) else no_err (send (m\<lparr>mTo := rLead r\<rparr>) r)
      | MsgTimeoutNow \<Rightarrow> no_err (hup campaignTransfer r)
      | MsgReadIndex \<Rightarrow> if rLead r = 0 then Some (r, None) else no_err (send (m\<lparr>mTo := rLead r\<rparr>) r)
      | MsgReadIndexResp \<Rightarrow>
          (case mEntries m of
             [e] \<Rightarrow> Some (r\<lparr>rReadStates := rReadStates r @ [\<lparr>rsIndex = mIndex m, rsRequestCtx = eData e\<rparr>]\<rparr>, None)
           | _ \<Rightarrow> Some (r, None))
      | _ \<Rightarrow> Some (r, None))"

section \<open>Step\<close>

definition handleVote :: "Message \<Rightarrow> raft \<Rightarrow> raft option" where
  "handleVote m r = do {
     let canVote = (rVote r = mFrom m \<or> (rVote r = 0 \<and> rLead r = 0) \<or> (mType m = MsgPreVote \<and> mTerm m > rTerm r));
     utd \<leftarrow> (if canVote then isUpToDate (rLog r) (mIndex m) (mLogTerm m) else Some False);
     _ \<leftarrow> lastTerm (rLog r);
     _ \<leftarrow> log_lastIndex (rLog r);
     resp \<leftarrow> voteRespMsgType (mType m);
     if canVote \<and> utd then do {
       r \<leftarrow> send (emptyMessage\<lparr>mTo := mFrom m, mTerm := mTerm m, mType := resp\<rparr>) r;
       Some (if mType m = MsgVote then r\<lparr>rElectionElapsed := 0, rVote := mFrom m\<rparr> else r) }
     else send (emptyMessage\<lparr>mTo := mFrom m, mTerm := rTerm r, mType := resp, mReject := True\<rparr>) r }"

definition step_message :: "Message \<Rightarrow> raft \<Rightarrow> (raft \<times> StepErr option) option" where
  "step_message m r =
     (if mType m = MsgHup then no_err (hup (if rPreVote r then campaignPreElection else campaignElection) r)
      else if mType m = MsgVote \<or> mType m = MsgPreVote then no_err (handleVote m r)
      else case rState r of
        StateLeader \<Rightarrow> stepLeader m r
      | StateFollower \<Rightarrow> stepFollower m r
      | StateCandidate \<Rightarrow> stepCandidate m r
      | StatePreCandidate \<Rightarrow> stepCandidate m r)"

definition step_lower_term :: "Message \<Rightarrow> raft \<Rightarrow> raft option" where
  "step_lower_term m r =
     (if (rCheckQuorum r \<or> rPreVote r) \<and> (mType m = MsgHeartbeat \<or> mType m = MsgApp)
      then send (emptyMessage\<lparr>mTo := mFrom m, mType := MsgAppResp\<rparr>) r
      else if mType m = MsgPreVote then do {
        _ \<leftarrow> lastTerm (rLog r);
        _ \<leftarrow> log_lastIndex (rLog r);
        send (emptyMessage\<lparr>mTo := mFrom m, mTerm := rTerm r, mType := MsgPreVoteResp, mReject := True\<rparr>) r }
      else Some r)"

definition step_higher_term :: "Message \<Rightarrow> raft \<Rightarrow> raft option" where
  "step_higher_term m r =
     (if mType m = MsgPreVote \<or> (mType m = MsgPreVoteResp \<and> \<not> mReject m) then Some r
      else if mType m = MsgApp \<or> mType m = MsgHeartbeat \<or> mType m = MsgSnap then becomeFollower (mTerm m) (mFrom m) r
      else becomeFollower (mTerm m) 0 r)"

definition in_lease :: "Message \<Rightarrow> raft \<Rightarrow> bool" where
  "in_lease m r \<longleftrightarrow>
     (mType m = MsgVote \<or> mType m = MsgPreVote) \<and> \<not> bytes_Equal (mContext m) (Some ''CampaignTransfer'')
     \<and> rCheckQuorum r \<and> rLead r \<noteq> 0 \<and> rElectionElapsed r < rElectionTimeout r"

definition Step :: "Message \<Rightarrow> raft \<Rightarrow> (raft \<times> StepErr option) option" where
  "Step m r =
     (if mTerm m = 0 then step_message m r
      else if mTerm m > rTerm r then
        if in_lease m r then do { _ \<leftarrow> lastTerm (rLog r); _ \<leftarrow> log_lastIndex (rLog r); Some (r, None) }
        else step_higher_term m r \<bind> step_message m
      else if mTerm m < rTerm r then no_err (step_lower_term m r)
      else step_message m r)"

section \<open>Ticks\<close>

definition pastElectionTimeout :: "raft \<Rightarrow> bool" where
  "pastElectionTimeout r \<longleftrightarrow> rElectionElapsed r \<ge> rRandomizedElectionTimeout r"

definition local_message :: "MessageType \<Rightarrow> raft \<Rightarrow> Message" where
  "local_message t r = emptyMessage\<lparr>mFrom := rid r, mType := t\<rparr>"

definition tickElection :: "raft \<Rightarrow> raft option" where
  "tickElection r =
     (let r = r\<lparr>rElectionElapsed := wrap64 (rElectionElapsed r + 1)\<rparr> in
      if promotable r \<and> pastElectionTimeout r then
        let r = r\<lparr>rElectionElapsed := 0\<rparr> in map_option fst (Step (local_message MsgHup r) r)
      else Some r)"

definition tickHeartbeat :: "raft \<Rightarrow> raft option" where
  "tickHeartbeat r = do {
     let r = r\<lparr>rHeartbeatElapsed := wrap64 (rHeartbeatElapsed r + 1), rElectionElapsed := wrap64 (rElectionElapsed r + 1)\<rparr>;
     r \<leftarrow> (if rElectionElapsed r \<ge> rElectionTimeout r then do {
             let r = r\<lparr>rElectionElapsed := 0\<rparr>;
             r \<leftarrow> (if rCheckQuorum r then map_option fst (Step (local_message MsgCheckQuorum r) r) else Some r);
             Some (if rState r = StateLeader \<and> rLeadTransferee r \<noteq> 0 then abortLeaderTransfer r else r) }
           else Some r);
     if rState r \<noteq> StateLeader then Some r
     else if rHeartbeatElapsed r \<ge> rHeartbeatTimeout r then
       let r = r\<lparr>rHeartbeatElapsed := 0\<rparr> in map_option fst (Step (local_message MsgBeat r) r)
     else Some r }"

definition raft_tick :: "raft \<Rightarrow> raft option" where
  "raft_tick r = (if rState r = StateLeader then tickHeartbeat r else tickElection r)"

section \<open>Start and configuration\<close>

definition loadState :: "HardState \<Rightarrow> raft \<Rightarrow> raft option" where
  "loadState st r = do {
     li \<leftarrow> log_lastIndex (rLog r);
     if hCommit st < lCommitted (rLog r) \<or> hCommit st > li then None
     else Some (r\<lparr>rLog := (rLog r)\<lparr>lCommitted := hCommit st\<rparr>, rTerm := hTerm st, rVote := hVote st\<rparr>) }"

definition initial_raft :: "RaftConfig \<Rightarrow> raftLog \<Rightarrow> (nat \<Rightarrow> nat) \<Rightarrow> raft" where
  "initial_raft c raftlog rand =
     \<lparr>rid = rcID c, rTerm = 0, rVote = 0, rReadStates = [], rLog = raftlog, rMaxMsgSize = rcMaxSizePerMsg c,
      rMaxUncommittedSize = rcMaxUncommittedEntriesSize c, rPrs = MakeProgressTracker (nat (rcMaxInflightMsgs c)),
      rState = StateFollower, rIsLearner = False, rMsgs = [], rLead = 0, rLeadTransferee = 0, rPendingConfIndex = 0,
      rUncommittedSize = 0, rReadOnly = newReadOnly (rcReadOnlyOption c), rElectionElapsed = 0, rHeartbeatElapsed = 0,
      rCheckQuorum = rcCheckQuorum c, rPreVote = rcPreVote c, rHeartbeatTimeout = rcHeartbeatTick c,
      rElectionTimeout = rcElectionTick c, rRandomizedElectionTimeout = 0,
      rDisableProposalForwarding = rcDisableProposalForwarding c, rPendingReadIndexMessages = [], rRand = rand\<rparr>"

definition newRaft :: "RaftConfig \<Rightarrow> (nat \<Rightarrow> nat) \<Rightarrow> raft option" where
  "newRaft c rand = do {
     c \<leftarrow> validate c;
     storage \<leftarrow> rcStorage c;
     raftlog \<leftarrow> newLogWithSize storage (rcMaxCommittedSizePerReady c);
     let (hs, cs) = InitialState storage;
     let r = initial_raft c raftlog rand;
     li \<leftarrow> log_lastIndex raftlog;
     res \<leftarrow> Restore \<lparr>chTracker = rPrs r, chLastIndex = li\<rparr> cs;
     case res of Inl _ \<Rightarrow> None
     | Inr cp \<Rightarrow> do {
         (r, cs2) \<leftarrow> switchToConfig cp r;
         _ \<leftarrow> assertConfStatesEquivalent cs cs2;
         r \<leftarrow> (if \<not> IsEmptyHardState hs then loadState hs r else Some r);
         l \<leftarrow> (if rcApplied c > 0 then appliedTo (rLog r) (rcApplied c) else Some (rLog r));
         r \<leftarrow> becomeFollower (rTerm r) 0 (r\<lparr>rLog := l\<rparr>);
         _ \<leftarrow> lastTerm (rLog r);
         Some r } }"

definition applyConfChange :: "ConfChangeV2 \<Rightarrow> raft \<Rightarrow> (raft \<times> ConfState) option" where
  "applyConfChange cc r = do {
     li \<leftarrow> log_lastIndex (rLog r);
     let changer = \<lparr>chTracker = rPrs r, chLastIndex = li\<rparr>;
     res \<leftarrow> (if LeaveJoint cc then Changer_LeaveJoint changer
             else do {
               (autoLeave, ok) \<leftarrow> EnterJoint cc;
               if ok then Changer_EnterJoint changer autoLeave (c2Changes cc) else Simple changer (c2Changes cc) });
     case res of Inl _ \<Rightarrow> None | Inr cp \<Rightarrow> switchToConfig cp r }"

section \<open>Ready and advance\<close>

record SoftState =
  ssLead :: nat
  ssRaftState :: RaftStateType

record Ready =
  rdSoftState :: "SoftState option"
  rdHardState :: HardState
  rdReadStates :: "ReadState list"
  rdEntries :: "Entry list"
  rdSnapshot :: Snapshot
  rdCommittedEntries :: "Entry list"
  rdMessages :: "Message list"
  rdMustSync :: bool

definition softState :: "raft \<Rightarrow> SoftState" where
  "softState r = \<lparr>ssLead = rLead r, ssRaftState = rState r\<rparr>"

definition MustSync :: "HardState \<Rightarrow> HardState \<Rightarrow> nat \<Rightarrow> bool" where
  "MustSync st prevst entsnum \<longleftrightarrow> entsnum \<noteq> 0 \<or> hVote st \<noteq> hVote prevst \<or> hTerm st \<noteq> hTerm prevst"

definition newReady :: "raft \<Rightarrow> SoftState \<Rightarrow> HardState \<Rightarrow> Ready option" where
  "newReady r prevSoftSt prevHardSt = do {
     committedEntries \<leftarrow> nextEnts (rLog r);
     let entries = unstableEntries (rLog r);
     Some \<lparr>rdSoftState = (if softState r \<noteq> prevSoftSt then Some (softState r) else None),
       rdHardState = (if \<not> isHardStateEqual (hardState r) prevHardSt then hardState r else emptyState),
       rdReadStates = rReadStates r, rdEntries = entries,
       rdSnapshot = (case uSnapshot (lUnstable (rLog r)) of None \<Rightarrow> emptySnapshot | Some s \<Rightarrow> s),
       rdCommittedEntries = committedEntries, rdMessages = rMsgs r,
       rdMustSync = MustSync (hardState r) prevHardSt (length entries)\<rparr> }"

definition containsUpdates :: "Ready \<Rightarrow> bool" where
  "containsUpdates rd \<longleftrightarrow>
     rdSoftState rd \<noteq> None \<or> \<not> IsEmptyHardState (rdHardState rd) \<or> \<not> IsEmptySnap (rdSnapshot rd) \<or> length (rdEntries rd) > 0
     \<or> length (rdCommittedEntries rd) > 0 \<or> length (rdMessages rd) > 0 \<or> length (rdReadStates rd) \<noteq> 0"

definition appliedCursor :: "Ready \<Rightarrow> nat" where
  "appliedCursor rd =
     (if length (rdCommittedEntries rd) > 0 then eIndex (last (rdCommittedEntries rd))
      else if snIndex (rdSnapshot rd) > 0 then snIndex (rdSnapshot rd) else 0)"

text \<open>The leader leaves a joint configuration on its own.\<close>

definition auto_leave :: "raft \<Rightarrow> raft option" where
  "auto_leave r = do {
     (r, accepted) \<leftarrow> appendEntry [emptyEntry\<lparr>eType := EntryConfChangeV2, eData := None\<rparr>] r;
     if \<not> accepted then None
     else do {
       r \<leftarrow> bcastAppend r;
       li \<leftarrow> log_lastIndex (rLog r);
       Some (r\<lparr>rPendingConfIndex := li\<rparr>) } }"

definition advance_applied :: "nat \<Rightarrow> raft \<Rightarrow> raft option" where
  "advance_applied newApplied r =
     (if newApplied > 0 then do {
        let oldApplied = lApplied (rLog r);
        l \<leftarrow> appliedTo (rLog r) newApplied;
        let r = r\<lparr>rLog := l\<rparr>;
        if cAutoLeave (tConfig (rPrs r)) \<and> oldApplied \<le> rPendingConfIndex r \<and> newApplied \<ge> rPendingConfIndex r
            \<and> rState r = StateLeader
        then auto_leave r else Some r }
      else Some r)"

text \<open>The leader acknowledges its own entries.\<close>

definition advance_stable :: "Entry list \<Rightarrow> raft \<Rightarrow> raft option" where
  "advance_stable entries r =
     (if length entries > 0 then do {
        let e = last entries;
        r \<leftarrow> (if rid r = rLead r
              then map_option fst (Step (emptyMessage\<lparr>mFrom := rid r, mType := MsgAppResp, mIndex := eIndex e\<rparr>) r)
              else Some r);
        l \<leftarrow> stableTo (rLog r) (eIndex e) (eTerm e);
        Some (r\<lparr>rLog := l\<rparr>) }
      else Some r)"

definition raft_advance :: "Ready \<Rightarrow> raft \<Rightarrow> raft option" where
  "raft_advance rd r = do {
     let r = reduceUncommittedSize (rdCommittedEntries rd) r;
     r \<leftarrow> advance_applied (appliedCursor rd) r;
     r \<leftarrow> advance_stable (rdEntries rd) r;
     Some (if \<not> IsEmptySnap (rdSnapshot rd) then r\<lparr>rLog := stableSnapTo (rLog r) (snIndex (rdSnapshot rd))\<rparr> else r) }"

end
