(* ===== verification/Raft_Node.thy ===== *)
theory Raft_Node
  imports Raft_Core
begin

text \<open>
  The interface of the raft library to its user: \<open>src/etcd/raft/rawnode.go\<close> and \<open>bootstrap.go\<close>, and the
  function \<open>confChangeToMsg\<close> of \<open>node.go\<close>. The node with its own goroutine (\<open>node.go\<close>) serves its
  channels one after the other with these operations. The methods that only copy the state out,
  \<open>Status\<close>, \<open>BasicStatus\<close> and \<open>WithProgress\<close>, are left out.
\<close>

section \<open>Raw nodes\<close>

datatype NodeErr = NodeStepErr StepErr | ErrStepLocalMsg | ErrStepPeerNotFound

record RawNode =
  rnRaft :: raft
  rnPrevSoftSt :: SoftState
  rnPrevHardSt :: HardState

text \<open>Run a step on the raft state of a node; its error is returned.\<close>

definition node_step :: "Message \<Rightarrow> RawNode \<Rightarrow> (RawNode \<times> NodeErr option) option" where
  "node_step m rn = map_option (\<lambda>(r, err). (rn\<lparr>rnRaft := r\<rparr>, map_option NodeStepErr err)) (Step m (rnRaft rn))"

definition NewRawNode :: "RaftConfig \<Rightarrow> (nat \<Rightarrow> nat) \<Rightarrow> RawNode option" where
  "NewRawNode config rand =
     map_option (\<lambda>r. \<lparr>rnRaft = r, rnPrevSoftSt = softState r, rnPrevHardSt = hardState r\<rparr>) (newRaft config rand)"

definition Tick :: "RawNode \<Rightarrow> RawNode option" where
  "Tick rn = map_option (\<lambda>r. rn\<lparr>rnRaft := r\<rparr>) (raft_tick (rnRaft rn))"

definition TickQuiesced :: "RawNode \<Rightarrow> RawNode" where
  "TickQuiesced rn = rn\<lparr>rnRaft := (rnRaft rn)\<lparr>rElectionElapsed := wrap64 (rElectionElapsed (rnRaft rn) + 1)\<rparr>\<rparr>"

definition Campaign :: "RawNode \<Rightarrow> (RawNode \<times> NodeErr option) option" where
  "Campaign rn = node_step (emptyMessage\<lparr>mType := MsgHup\<rparr>) rn"

definition Propose :: "slice \<Rightarrow> RawNode \<Rightarrow> (RawNode \<times> NodeErr option) option" where
  "Propose data rn =
     node_step (emptyMessage\<lparr>mType := MsgProp, mFrom := rid (rnRaft rn), mEntries := [emptyEntry\<lparr>eData := data\<rparr>]\<rparr>) rn"

definition confChangeToMsg :: "ConfChangeI \<Rightarrow> Message option" where
  "confChangeToMsg c = do {
     (typ, data) \<leftarrow> MarshalConfChange c;
     Some (emptyMessage\<lparr>mType := MsgProp, mEntries := [emptyEntry\<lparr>eType := typ, eData := Some data\<rparr>]\<rparr>) }"

definition ProposeConfChange :: "ConfChangeI \<Rightarrow> RawNode \<Rightarrow> (RawNode \<times> NodeErr option) option" where
  "ProposeConfChange cc rn = do { m \<leftarrow> confChangeToMsg cc; node_step m rn }"

definition ApplyConfChange :: "ConfChangeI \<Rightarrow> RawNode \<Rightarrow> (RawNode \<times> ConfState) option" where
  "ApplyConfChange cc rn = map_option (\<lambda>(r, cs). (rn\<lparr>rnRaft := r\<rparr>, cs)) (applyConfChange (AsV2 cc) (rnRaft rn))"

definition RawNode_Step :: "Message \<Rightarrow> RawNode \<Rightarrow> (RawNode \<times> NodeErr option) option" where
  "RawNode_Step m rn =
     (if IsLocalMsg (mType m) then Some (rn, Some ErrStepLocalMsg)
      else if progress (rnRaft rn) (mFrom m) \<noteq> None \<or> \<not> IsResponseMsg (mType m) then node_step m rn
      else Some (rn, Some ErrStepPeerNotFound))"

definition readyWithoutAccept :: "RawNode \<Rightarrow> Ready option" where
  "readyWithoutAccept rn = newReady (rnRaft rn) (rnPrevSoftSt rn) (rnPrevHardSt rn)"

definition acceptReady :: "Ready \<Rightarrow> RawNode \<Rightarrow> RawNode" where
  "acceptReady rd rn =
     (let rn = (case rdSoftState rd of None \<Rightarrow> rn | Some st \<Rightarrow> rn\<lparr>rnPrevSoftSt := st\<rparr>);
          rn = (if \<not> IsEmptyHardState (rdHardState rd) then rn\<lparr>rnPrevHardSt := rdHardState rd\<rparr> else rn);
          rn = (if length (rdReadStates rd) \<noteq> 0 then rn\<lparr>rnRaft := (rnRaft rn)\<lparr>rReadStates := []\<rparr>\<rparr> else rn)
      in rn\<lparr>rnRaft := (rnRaft rn)\<lparr>rMsgs := []\<rparr>\<rparr>)"

definition RawNode_Ready :: "RawNode \<Rightarrow> (RawNode \<times> Ready) option" where
  "RawNode_Ready rn = map_option (\<lambda>rd. (acceptReady rd rn, rd)) (readyWithoutAccept rn)"

definition HasReady :: "RawNode \<Rightarrow> bool option" where
  "HasReady rn =
     (let r = rnRaft rn in
      if softState r \<noteq> rnPrevSoftSt rn then Some True
      else if \<not> IsEmptyHardState (hardState r) \<and> \<not> isHardStateEqual (hardState r) (rnPrevHardSt rn) then Some True
      else if hasPendingSnapshot (rLog r) then Some True
      else if length (rMsgs r) > 0 \<or> length (unstableEntries (rLog r)) > 0 then Some True
      else do {
        b \<leftarrow> hasNextEnts (rLog r);
        Some (b \<or> length (rReadStates r) \<noteq> 0) })"

definition Advance :: "Ready \<Rightarrow> RawNode \<Rightarrow> RawNode option" where
  "Advance rd rn = map_option (\<lambda>r. rn\<lparr>rnRaft := r\<rparr>) (raft_advance rd (rnRaft rn))"

definition ReportUnreachable :: "nat \<Rightarrow> RawNode \<Rightarrow> RawNode option" where
  "ReportUnreachable i rn = map_option fst (node_step (emptyMessage\<lparr>mType := MsgUnreachable, mFrom := i\<rparr>) rn)"

definition ReportSnapshot :: "nat \<Rightarrow> bool \<Rightarrow> RawNode \<Rightarrow> RawNode option" where
  "ReportSnapshot i failure rn = map_option fst (node_step (emptyMessage\<lparr>mType := MsgSnapStatus, mFrom := i, mReject := failure\<rparr>) rn)"

definition TransferLeader :: "nat \<Rightarrow> RawNode \<Rightarrow> RawNode option" where
  "TransferLeader transferee rn = map_option fst (node_step (emptyMessage\<lparr>mType := MsgTransferLeader, mFrom := transferee\<rparr>) rn)"

definition ReadIndex :: "slice \<Rightarrow> RawNode \<Rightarrow> RawNode option" where
  "ReadIndex rctx rn =
     map_option fst (node_step (emptyMessage\<lparr>mType := MsgReadIndex, mEntries := [emptyEntry\<lparr>eData := rctx\<rparr>]\<rparr>) rn)"

section \<open>Bootstrapping\<close>

record Peer =
  pID :: nat
  pContext :: slice

fun bootstrap_entries :: "nat \<Rightarrow> Peer list \<Rightarrow> Entry list option" where
  "bootstrap_entries i [] = Some []"
| "bootstrap_entries i (p # ps) = do {
     data \<leftarrow> ConfChange_Marshal (emptyConfChange\<lparr>ccType := ConfChangeAddNode, ccNodeID := pID p, ccContext := pContext p\<rparr>);
     es \<leftarrow> bootstrap_entries (Suc i) ps;
     Some (\<lparr>eTerm = 1, eIndex = i + 1, eType = EntryConfChange, eData = Some data\<rparr> # es) }"

text \<open>The result \<open>Some (rn, False)\<close> is a returned error.\<close>

definition Bootstrap :: "Peer list \<Rightarrow> RawNode \<Rightarrow> (RawNode \<times> bool) option" where
  "Bootstrap peers rn =
     (if length peers = 0 then Some (rn, False)
      else do {
        lastIndex \<leftarrow> LastIndex (lStorage (rLog (rnRaft rn)));
        if lastIndex \<noteq> 0 then Some (rn, False)
        else do {
          let rn = rn\<lparr>rnPrevHardSt := emptyState\<rparr>;
          r \<leftarrow> becomeFollower 1 0 (rnRaft rn);
          ents \<leftarrow> bootstrap_entries 0 peers;
          (l, _) \<leftarrow> log_append (rLog r) ents;
          let r = r\<lparr>rLog := l\<lparr>lCommitted := length ents\<rparr>\<rparr>;
          r \<leftarrow> for_each (\<lambda>p r. map_option fst
                 (applyConfChange (ConfChange_AsV2 (emptyConfChange\<lparr>ccNodeID := pID p, ccType := ConfChangeAddNode\<rparr>)) r)) peers r;
          Some (rn\<lparr>rnRaft := r\<rparr>, True) } })"

end
