(* ===== verification/Raft_Frame.thy ===== *)
theory Raft_Frame
  imports Raft_Node
begin

text \<open>
  What the functions of \<open>src/etcd/raft/raft.go\<close> leave alone. Most of them send messages and move
  progresses and the log, and touch neither the term nor the vote nor the role: they are quiet. The few
  others change the role in ways that are described exactly. The election theorem and the
  monotonicity of the hard state rest on these facts.
\<close>

named_theorems quiet_intros \<open>functions that keep term, vote and role\<close>

section \<open>The log keeps its snapshots\<close>

definition same_snaps :: "raftLog \<Rightarrow> raftLog \<Rightarrow> bool" where
  "same_snaps l l' \<longleftrightarrow>
     lStorage l' = lStorage l \<and> uSnapshot (lUnstable l') = uSnapshot (lUnstable l) \<and> lCommitted l \<le> lCommitted l'"

lemma same_snaps_refl [simp]: "same_snaps l l"
  by (simp add: same_snaps_def)

lemma same_snaps_trans: "same_snaps a b \<Longrightarrow> same_snaps b c \<Longrightarrow> same_snaps a c"
  by (simp add: same_snaps_def)

lemma commitTo_snaps: "commitTo l i = Some l' \<Longrightarrow> same_snaps l l'"
  by (auto simp: commitTo_def same_snaps_def bind_eq_Some_conv split: if_splits)

lemma truncateAndAppend_snap: "truncateAndAppend u es = Some u' \<Longrightarrow> uSnapshot u' = uSnapshot u"
  by (auto simp: truncateAndAppend_def Let_def bind_eq_Some_conv split: if_splits)

lemma log_append_snaps: "log_append l es = Some (l', i) \<Longrightarrow> same_snaps l l'"
  by (auto simp: log_append_def same_snaps_def Let_def bind_eq_Some_conv dest: truncateAndAppend_snap split: list.splits if_splits)

lemma maybeCommit_snaps: "maybeCommit l i t = Some (l', b) \<Longrightarrow> same_snaps l l'"
  by (auto simp: maybeCommit_def bind_eq_Some_conv dest: commitTo_snaps split: if_splits)

lemma maybeAppend_snaps: "maybeAppend l i t c es = Some (l', j, b) \<Longrightarrow> same_snaps l l'"
  by (fastforce simp: maybeAppend_def Let_def bind_eq_Some_conv split: if_splits
      dest: commitTo_snaps log_append_snaps intro: same_snaps_trans)

lemma appliedTo_snaps: "appliedTo l i = Some l' \<Longrightarrow> same_snaps l l'"
  by (auto simp: appliedTo_def same_snaps_def split: if_splits)

lemma stableTo_snaps: "stableTo l i t = Some l' \<Longrightarrow> same_snaps l l'"
  by (auto simp: stableTo_def unstable_stableTo_def same_snaps_def bind_eq_Some_conv split: option.splits if_splits)

section \<open>Quiet functions\<close>

definition lead_types :: "MessageType set" where
  "lead_types = {MsgApp, MsgHeartbeat, MsgSnap}"

text \<open>Messages that a node may send without having cast a vote; only a leader sends entries, heartbeats and snapshots.\<close>

definition calm :: "raft \<Rightarrow> Message \<Rightarrow> bool" where
  "calm r m \<longleftrightarrow>
     mFrom m \<noteq> 0 \<and> (mType m = MsgVoteResp \<longrightarrow> mReject m)
     \<and> (mType m \<in> lead_types \<longrightarrow> rState r = StateLeader \<and> mTerm m = rTerm r \<and> mFrom m = rid r)
     \<and> (mType m = MsgSnap \<longrightarrow> log_snapshot (rLog r) = Inr (mSnapshot m) \<and> \<not> IsEmptySnap (mSnapshot m))"

definition same_core :: "raft \<Rightarrow> raft \<Rightarrow> bool" where
  "same_core r r' \<longleftrightarrow>
     rid r' = rid r \<and> rTerm r' = rTerm r \<and> rVote r' = rVote r \<and> rState r' = rState r
     \<and> tVotes (rPrs r') = tVotes (rPrs r) \<and> tConfig (rPrs r') = tConfig (rPrs r) \<and> same_snaps (rLog r) (rLog r')"

definition quiet :: "raft \<Rightarrow> raft \<Rightarrow> bool" where
  "quiet r r' \<longleftrightarrow> same_core r r' \<and> (\<exists>ms. rMsgs r' = rMsgs r @ ms \<and> (\<forall>m \<in> set ms. calm r m))"

lemma same_core_refl [simp]: "same_core r r"
  by (simp add: same_core_def)

lemma same_core_trans: "same_core a b \<Longrightarrow> same_core b c \<Longrightarrow> same_core a c"
  by (auto simp: same_core_def intro: same_snaps_trans)

lemma calm_core: "same_core r r' \<Longrightarrow> calm r' m = calm r m"
proof -
  assume r: "same_core r r'"
  then have "log_snapshot (rLog r') = log_snapshot (rLog r)"
    by (simp add: same_core_def same_snaps_def log_snapshot_def cong: option.case_cong)
  then show ?thesis using r by (simp add: same_core_def calm_def)
qed

lemma quiet_refl [simp]: "quiet r r"
  by (simp add: quiet_def)

lemma quiet_same: "same_core r r' \<Longrightarrow> rMsgs r' = rMsgs r \<Longrightarrow> quiet r r'"
  by (simp add: quiet_def)

lemma quiet_trans [trans]:
  assumes "quiet a b" "quiet b c"
  shows "quiet a c"
proof -
  obtain ms ns where "rMsgs b = rMsgs a @ ms" "\<forall>m \<in> set ms. calm a m" "rMsgs c = rMsgs b @ ns" "\<forall>m \<in> set ns. calm b m"
    and ab: "same_core a b" "same_core b c" using assms unfolding quiet_def by blast
  then have "rMsgs c = rMsgs a @ (ms @ ns)" "\<forall>m \<in> set (ms @ ns). calm a m" using calm_core [OF ab(1)] by auto
  then show ?thesis using ab same_core_trans unfolding quiet_def by blast
qed

lemma quietD:
  assumes "quiet r r'"
  shows "rid r' = rid r" "rTerm r' = rTerm r" "rVote r' = rVote r" "rState r' = rState r" "tVotes (rPrs r') = tVotes (rPrs r)"
    "tConfig (rPrs r') = tConfig (rPrs r)" "same_snaps (rLog r) (rLog r')"
  using assms by (simp_all add: quiet_def same_core_def)

section \<open>Postconditions\<close>

text \<open>If the function returns, the result satisfies the postcondition.\<close>

definition post :: "('a \<Rightarrow> bool) \<Rightarrow> 'a option \<Rightarrow> bool" where
  "post P x \<longleftrightarrow> (\<forall>v. x = Some v \<longrightarrow> P v)"

abbreviation quietly :: "raft \<Rightarrow> raft option \<Rightarrow> bool" where
  "quietly r \<equiv> post (quiet r)"

abbreviation quietly2 :: "raft \<Rightarrow> (raft \<times> 'a) option \<Rightarrow> bool" where
  "quietly2 r \<equiv> post (\<lambda>p. quiet r (fst p))"

lemma postI: "(\<And>v. x = Some v \<Longrightarrow> P v) \<Longrightarrow> post P x"
  by (simp add: post_def)

lemma postD: "post P x \<Longrightarrow> x = Some v \<Longrightarrow> P v"
  by (simp add: post_def)

lemma post_None: "post P None"
  by (simp add: post_def)

lemma post_Some: "P v \<Longrightarrow> post P (Some v)"
  by (simp add: post_def)

lemma post_bind: "post Q x \<Longrightarrow> (\<And>v. Q v \<Longrightarrow> post P (f v)) \<Longrightarrow> post P (x \<bind> f)"
  by (auto simp: post_def bind_eq_Some_conv)

lemma post_any: "(\<And>v. x = Some v \<Longrightarrow> post P (f v)) \<Longrightarrow> post P (x \<bind> f)"
  by (auto simp: post_def bind_eq_Some_conv)

lemma post_map: "post (\<lambda>v. P (g v)) x \<Longrightarrow> post P (map_option g x)"
  by (auto simp: post_def)

lemma post_if: "(b \<Longrightarrow> post P x) \<Longrightarrow> (\<not> b \<Longrightarrow> post P y) \<Longrightarrow> post P (if b then x else y)"
  by simp

lemma post_sum: "(\<And>v. x = Inl v \<Longrightarrow> post P (f v)) \<Longrightarrow> (\<And>v. x = Inr v \<Longrightarrow> post P (g v)) \<Longrightarrow> post P (case x of Inl v \<Rightarrow> f v | Inr v \<Rightarrow> g v)"
  by (simp split: sum.split)

lemma post_option: "(x = None \<Longrightarrow> post P a) \<Longrightarrow> (\<And>v. x = Some v \<Longrightarrow> post P (g v)) \<Longrightarrow> post P (case x of None \<Rightarrow> a | Some v \<Rightarrow> g v)"
  by (simp split: option.split)

lemma post_prod: "(\<And>a b. x = (a, b) \<Longrightarrow> post P (f a b)) \<Longrightarrow> post P (case x of (a, b) \<Rightarrow> f a b)"
  by (cases x) simp

lemma post_list: "(x = [] \<Longrightarrow> post P a) \<Longrightarrow> (\<And>y ys. x = y # ys \<Longrightarrow> post P (g y ys)) \<Longrightarrow> post P (case x of [] \<Rightarrow> a | y # ys \<Rightarrow> g y ys)"
  by (simp split: list.split)

lemma quietly_bind:
  "quietly r x \<Longrightarrow> (\<And>s. quiet r s \<Longrightarrow> quietly r (f s)) \<Longrightarrow> quietly r (x \<bind> f)"
  "quietly r x \<Longrightarrow> (\<And>s. quiet r s \<Longrightarrow> quietly2 r (g s)) \<Longrightarrow> quietly2 r (x \<bind> g)"
  "quietly2 r y \<Longrightarrow> (\<And>s a. quiet r s \<Longrightarrow> quietly r (h s a)) \<Longrightarrow> quietly r (y \<bind> (\<lambda>(s, a). h s a))"
  "quietly2 r y \<Longrightarrow> (\<And>s a. quiet r s \<Longrightarrow> quietly2 r (k s a)) \<Longrightarrow> quietly2 r (y \<bind> (\<lambda>(s, a). k s a))"
  by (erule post_bind, simp)+ (erule post_bind, simp add: case_prod_beta)+

lemma quietly_map: "quietly r x \<Longrightarrow> quietly2 r (map_option (\<lambda>s. (s, a)) x)" "quietly2 r y \<Longrightarrow> quietly r (map_option fst y)"
  by (auto simp: post_def)

lemmas post_rules = post_None post_if post_sum post_option post_prod post_list quietly_map

lemma quietly_Some: "quiet r s \<Longrightarrow> quietly r (Some s)" "quiet r s \<Longrightarrow> quietly2 r (Some (s, a))"
  by (simp_all add: post_def)

text \<open>Steps that change neither the core nor the messages.\<close>

lemma quiet_step: "quiet r s \<Longrightarrow> same_core s s' \<Longrightarrow> rMsgs s' = rMsgs s \<Longrightarrow> quiet r s'"
  by (rule quiet_trans, assumption, rule quiet_same)

lemma quiet_log: "quiet r s \<Longrightarrow> same_snaps (rLog s) l \<Longrightarrow> quiet r (s\<lparr>rLog := l\<rparr>)"
  by (erule quiet_step) (simp_all add: same_core_def)

lemma quiet_upd:
  assumes "quiet r s"
  shows "quiet r (put_progress i pr s)" "quiet r (s\<lparr>rReadOnly := ro\<rparr>)" "quiet r (s\<lparr>rReadStates := rs\<rparr>)"
    "quiet r (s\<lparr>rPendingReadIndexMessages := ms\<rparr>)" "quiet r (s\<lparr>rPendingConfIndex := n\<rparr>)" "quiet r (s\<lparr>rUncommittedSize := n\<rparr>)"
    "quiet r (s\<lparr>rElectionElapsed := e\<rparr>)" "quiet r (s\<lparr>rHeartbeatElapsed := e\<rparr>)" "quiet r (s\<lparr>rLead := n\<rparr>)"
    "quiet r (s\<lparr>rLeadTransferee := n\<rparr>)" "quiet r (s\<lparr>rIsLearner := b\<rparr>)"
  by (rule quiet_step [OF assms]; simp add: same_core_def put_progress_def)+

lemma post_for_each:
  assumes "\<And>x s. P s \<Longrightarrow> post P (f x s)"
  shows "P s \<Longrightarrow> post P (for_each f xs s)"
proof (induction xs arbitrary: s)
  case (Cons x xs)
  then show ?case by (auto intro!: post_bind [where Q = P] assms)
qed (simp add: post_Some)

section \<open>Sending is quiet\<close>

definition vote_types :: "MessageType set" where
  "vote_types = {MsgVote, MsgVoteResp, MsgPreVote, MsgPreVoteResp}"

text \<open>What \<open>send\<close> appends: the sender is filled in, and the term unless the message carries one or is a forwarded request.\<close>

definition stamped :: "raft \<Rightarrow> Message \<Rightarrow> Message \<Rightarrow> bool" where
  "stamped r m m' \<longleftrightarrow>
     mType m' = mType m \<and> mTo m' = mTo m \<and> mTo m \<noteq> rid r \<and> mReject m' = mReject m \<and> mSnapshot m' = mSnapshot m
     \<and> mFrom m' = (if mFrom m = 0 then rid r else mFrom m)
     \<and> mTerm m' = (if mType m \<in> vote_types then mTerm m else if mType m = MsgProp \<or> mType m = MsgReadIndex then 0 else rTerm r)
     \<and> (mType m \<in> vote_types \<longrightarrow> mTerm m \<noteq> 0)"

lemma push_Some: "push m r = Some r' \<longleftrightarrow> mTo m \<noteq> rid r \<and> r' = r\<lparr>rMsgs := rMsgs r @ [m]\<rparr>"
  by (auto simp: push_def)

lemma send_msg:
  assumes "send m r = Some r'"
  obtains m' where "r' = r\<lparr>rMsgs := rMsgs r @ [m']\<rparr>" "stamped r m m'"
proof -
  define m0 where "m0 = (if mFrom m = 0 then m\<lparr>mFrom := rid r\<rparr> else m)"
  have m0: "mType m0 = mType m" "mTo m0 = mTo m" "mReject m0 = mReject m" "mSnapshot m0 = mSnapshot m" "mTerm m0 = mTerm m"
    "mFrom m0 = (if mFrom m = 0 then rid r else mFrom m)" by (simp_all add: m0_def)
  define m' where "m' = (if mType m \<in> vote_types \<or> mType m = MsgProp \<or> mType m = MsgReadIndex then m0 else m0\<lparr>mTerm := rTerm r\<rparr>)"
  have m': "mType m' = mType m" "mTo m' = mTo m" "mReject m' = mReject m" "mSnapshot m' = mSnapshot m"
    "mFrom m' = (if mFrom m = 0 then rid r else mFrom m)"
    "mTerm m' = (if mType m \<in> vote_types \<or> mType m = MsgProp \<or> mType m = MsgReadIndex then mTerm m else rTerm r)"
    by (simp_all add: m'_def m0)
  have "push m' r = Some r' \<and> (mType m \<notin> vote_types \<longleftrightarrow> mTerm m = 0)"
    using assms unfolding send_def Let_def m0_def [symmetric] m'_def vote_types_def m0
    by (simp split: if_split_asm) auto
  then have "r' = r\<lparr>rMsgs := rMsgs r @ [m']\<rparr>" "stamped r m m'"
    by (simp_all add: push_Some stamped_def m' split del: if_split) (auto simp: vote_types_def)
  then show ?thesis by (rule that)
qed

lemma send_quietly:
  assumes "rid r \<noteq> 0" and "quiet r s" and "mType m = MsgVoteResp \<longrightarrow> mReject m"
    and "mType m \<in> lead_types \<longrightarrow> rState r = StateLeader \<and> mFrom m = 0"
    and "mType m = MsgSnap \<longrightarrow> log_snapshot (rLog s) = Inr (mSnapshot m) \<and> \<not> IsEmptySnap (mSnapshot m)"
  shows "quietly r (send m s)"
proof (rule postI)
  fix s' assume "send m s = Some s'"
  then obtain m' where s': "s' = s\<lparr>rMsgs := rMsgs s @ [m']\<rparr>" and m': "stamped s m m'" by (rule send_msg)
  have "calm s m'" using m' assms(1,3-5) quietD [OF assms(2)]
    by (cases "mType m") (simp_all add: stamped_def calm_def lead_types_def vote_types_def)
  then have "quiet s s'" by (simp add: s' quiet_def same_core_def)
  with assms(2) show "quiet r s'" by (rule quiet_trans)
qed

lemma log_snapshot_put [simp]: "rLog (put_progress i pr r) = rLog r" "rid (put_progress i pr r) = rid r"
  "rTerm (put_progress i pr r) = rTerm r" "rVote (put_progress i pr r) = rVote r" "rState (put_progress i pr r) = rState r"
  "rMsgs (put_progress i pr r) = rMsgs r" "tConfig (rPrs (put_progress i pr r)) = tConfig (rPrs r)"
  "tVotes (rPrs (put_progress i pr r)) = tVotes (rPrs r)"
  by (simp_all add: put_progress_def)

lemma lead_types_iff [simp]: "t \<in> lead_types \<longleftrightarrow> t = MsgApp \<or> t = MsgHeartbeat \<or> t = MsgSnap"
  by (auto simp: lead_types_def)

lemmas vcg = quietly_bind post_rules quietly_Some

lemma quietly_same: "quiet r s \<Longrightarrow> quietly r (Some s)"
  by (rule post_Some)

lemma send_snapshot_quietly:
  assumes "rid r \<noteq> 0" "rState r = StateLeader" "quiet r s"
  shows "quietly2 r (send_snapshot to pr s)"
  unfolding send_snapshot_def
  by (intro vcg post_any assms send_quietly quiet_upd) (simp_all add: assms)

lemma maybeSendAppend_quietly:
  assumes "rid r \<noteq> 0" "rState r = StateLeader" "quiet r s"
  shows "quietly2 r (maybeSendAppend to b s)"
  unfolding maybeSendAppend_def Let_def
  by (intro vcg post_any assms send_snapshot_quietly send_quietly quiet_upd) (simp_all add: assms)

lemma sendAppend_quietly:
  assumes "rid r \<noteq> 0" "rState r = StateLeader" "quiet r s"
  shows "quietly r (sendAppend to s)"
  unfolding sendAppend_def by (intro vcg assms maybeSendAppend_quietly)

lemma send_more_quietly:
  assumes lead: "rid r \<noteq> 0" "rState r = StateLeader" and "quiet r s"
  shows "quietly r (send_more to s)"
proof (rule postI)
  fix s' assume "send_more to s = Some s'"
  then have "quiet r s \<longrightarrow> quiet r s'"
  proof (rule send_more.raw_induct [rotated])
    fix f to s s'
    assume IH: "\<And>to t y. f to t = Some y \<Longrightarrow> quiet r t \<longrightarrow> quiet r y"
      and "maybeSendAppend to False s \<bind> (\<lambda>(t, sent). if sent then f to t else Some t) = Some s'"
    then obtain t sent where t: "maybeSendAppend to False s = Some (t, sent)" "(if sent then f to t else Some t) = Some s'"
      by (auto simp: bind_eq_Some_conv)
    show "quiet r s \<longrightarrow> quiet r s'"
    proof
      assume "quiet r s"
      then have "quiet r t" using postD [OF maybeSendAppend_quietly [OF lead] t(1)] by simp
      then show "quiet r s'" using IH [of to t s'] t(2) by (cases sent) simp_all
    qed
  qed
  then show "quiet r s'" using assms(3) by simp
qed

lemma sendHeartbeat_quietly:
  assumes "rid r \<noteq> 0" "rState r = StateLeader" "quiet r s"
  shows "quietly r (sendHeartbeat to ctx s)"
  unfolding sendHeartbeat_def by (intro vcg post_any assms send_quietly) (simp_all add: assms)

lemma bcastAppend_quietly:
  assumes "rid r \<noteq> 0" "rState r = StateLeader" "quiet r s"
  shows "quietly r (bcastAppend s)"
  unfolding bcastAppend_def by (intro vcg post_for_each sendAppend_quietly assms(1,2)) (simp_all add: assms)

lemma bcastHeartbeatWithCtx_quietly:
  assumes "rid r \<noteq> 0" "rState r = StateLeader" "quiet r s"
  shows "quietly r (bcastHeartbeatWithCtx ctx s)"
  unfolding bcastHeartbeatWithCtx_def
  by (intro vcg post_for_each sendHeartbeat_quietly assms(1,2)) (simp_all add: assms)

lemma bcastHeartbeat_quietly:
  assumes "rid r \<noteq> 0" "rState r = StateLeader" "quiet r s"
  shows "quietly r (bcastHeartbeat s)"
  unfolding bcastHeartbeat_def Let_def by (intro vcg bcastHeartbeatWithCtx_quietly assms)

lemma sendTimeoutNow_quietly:
  assumes "rid r \<noteq> 0" "quiet r s"
  shows "quietly r (sendTimeoutNow to s)"
  unfolding sendTimeoutNow_def by (intro assms send_quietly) simp_all

section \<open>Silent functions\<close>

definition silent :: "raft \<Rightarrow> raft \<Rightarrow> bool" where
  "silent r r' \<longleftrightarrow> same_core r r' \<and> rMsgs r' = rMsgs r"

abbreviation silently2 :: "raft \<Rightarrow> (raft \<times> 'a) option \<Rightarrow> bool" where
  "silently2 r \<equiv> post (\<lambda>p. silent r (fst p))"

lemma silent_refl [simp]: "silent r r"
  by (simp add: silent_def)

lemma silent_trans: "silent a b \<Longrightarrow> silent b c \<Longrightarrow> silent a c"
  by (auto simp: silent_def intro: same_core_trans)

lemma silent_quiet: "quiet r s \<Longrightarrow> silent s s' \<Longrightarrow> quiet r s'"
  by (auto simp: silent_def intro: quiet_step)

lemma silently_quietly: "quiet r s \<Longrightarrow> silently2 s x \<Longrightarrow> quietly2 r x"
  by (auto simp: post_def intro: silent_quiet)

lemma silent_put [simp]: "silent r (put_progress i pr r)"
  by (simp add: silent_def same_core_def put_progress_def)

lemma silent_log: "same_snaps (rLog r) l \<Longrightarrow> silent r (r\<lparr>rLog := l\<rparr>)"
  by (simp add: silent_def same_core_def)

lemma raft_maybeCommit_silently: "silently2 s (raft_maybeCommit s)"
  unfolding raft_maybeCommit_def by (rule postI) (auto intro!: silent_log dest: maybeCommit_snaps)

lemma increaseUncommittedSize_silent: "increaseUncommittedSize es s = (s', b) \<Longrightarrow> silent s s'"
  by (auto simp: increaseUncommittedSize_def Let_def silent_def same_core_def split: if_splits)

lemma reduceUncommittedSize_silent: "silent s (reduceUncommittedSize es s)"
  by (simp add: reduceUncommittedSize_def Let_def silent_def same_core_def)

lemma appendEntry_silently: "silently2 s (appendEntry es s)"
proof (rule postI, clarify)
  fix s' b assume s': "appendEntry es s = Some (s', b)"
  then obtain li where "log_lastIndex (rLog s) = Some li" by (auto simp: appendEntry_def bind_eq_Some_conv)
  moreover obtain t acc where t: "increaseUncommittedSize (number_entries (rTerm s) (li + 1) es) s = (t, acc)"
    by (cases "increaseUncommittedSize (number_entries (rTerm s) (li + 1) es) s")
  ultimately have "s' = t \<or> (\<exists>l. same_snaps (rLog t) l \<and> s' = t\<lparr>rLog := l\<rparr>)"
    using s' by (auto simp: appendEntry_def bind_eq_Some_conv dest: log_append_snaps split: if_splits)
  then have "silent t s'" using silent_log by auto
  with increaseUncommittedSize_silent [OF t] show "silent s (fst (s', b))" using silent_trans by simp
qed

lemmas raft_maybeCommit_quietly = silently_quietly [OF _ raft_maybeCommit_silently]

lemmas appendEntry_quietly = silently_quietly [OF _ appendEntry_silently]

lemmas reduceUncommittedSize_quiet = silent_quiet [OF _ reduceUncommittedSize_silent]

section \<open>Changes of role\<close>

text \<open>A new term, vote and role; the votes received are forgotten, nothing is sent.\<close>

definition changed :: "nat \<Rightarrow> nat \<Rightarrow> RaftStateType \<Rightarrow> raft \<Rightarrow> raft \<Rightarrow> bool" where
  "changed t v st r r' \<longleftrightarrow>
     rid r' = rid r \<and> rTerm r' = t \<and> rVote r' = v \<and> rState r' = st \<and> tVotes (rPrs r') = Map.empty
     \<and> tConfig (rPrs r') = tConfig (rPrs r) \<and> same_snaps (rLog r) (rLog r') \<and> rMsgs r' = rMsgs r"

lemma changed_silent: "changed t v st r s \<Longrightarrow> silent s s' \<Longrightarrow> changed t v st r s'"
  by (auto simp: changed_def silent_def same_core_def intro: same_snaps_trans)

abbreviation vote_at :: "nat \<Rightarrow> raft \<Rightarrow> nat" where
  "vote_at t r \<equiv> if rTerm r = t then rVote r else 0"

lemma raft_reset_changed: "post (changed t (vote_at t r) (rState r) r) (raft_reset t r)"
proof -
  let ?P = "changed t (vote_at t r) (rState r) r"
  define s where "s = (if rTerm r \<noteq> t then r\<lparr>rTerm := t, rVote := 0\<rparr> else r)\<lparr>rLead := 0, rElectionElapsed := 0, rHeartbeatElapsed := 0\<rparr>"
  have s: "post (\<lambda>s'. ?P (s'\<lparr>rLeadTransferee := 0, rPrs := ResetVotes (rPrs (s'\<lparr>rLeadTransferee := 0\<rparr>))\<rparr>)) (resetRandomizedElectionTimeout s)"
    by (auto simp: s_def resetRandomizedElectionTimeout_def ResetVotes_def changed_def post_def)
  show ?thesis unfolding raft_reset_def abortLeaderTransfer_def Let_def s_def [symmetric]
    by (rule post_bind [OF s], erule post_bind [OF post_for_each, rotated])
      (auto intro!: post_any post_Some elim: changed_silent simp: changed_def)
qed

lemma changed_state: "changed t v st r s \<Longrightarrow> changed t v st' r (s\<lparr>rLead := l, rState := st'\<rparr>)"
  by (simp add: changed_def)

lemma becomeFollower_changed: "post (changed t (vote_at t r) StateFollower r) (becomeFollower t lead r)"
  unfolding becomeFollower_def
  by (rule post_bind [OF raft_reset_changed]) (simp add: post_Some changed_state)

lemma becomeCandidate_changed:
  "post (\<lambda>s. rState r \<noteq> StateLeader \<and> changed (rTerm r + 1) (rid r) StateCandidate r s) (becomeCandidate r)"
  unfolding becomeCandidate_def
  by (intro post_if post_None post_bind [OF raft_reset_changed] post_Some) (simp add: changed_def)

lemma becomePreCandidate_changed:
  "post (\<lambda>s. rState r \<noteq> StateLeader \<and> changed (rTerm r) (rVote r) StatePreCandidate r s) (becomePreCandidate r)"
  by (simp add: becomePreCandidate_def post_def changed_def ResetVotes_def)

lemma becomeLeader_changed:
  "post (\<lambda>s. rState r \<noteq> StateFollower \<and> changed (rTerm r) (rVote r) StateLeader r s) (becomeLeader r)"
proof (rule postI)
  fix s' assume s': "becomeLeader r = Some s'"
  then obtain s pr li t where s: "raft_reset (rTerm r) r = Some s"
    and t: "appendEntry [emptyEntry] (put_progress (rid s) pr (s\<lparr>rLead := rid s, rState := StateLeader\<rparr>)\<lparr>rPendingConfIndex := li\<rparr>) = Some (t, True)"
    and "s' = reduceUncommittedSize [emptyEntry] t" and "rState r \<noteq> StateFollower"
    by (auto simp: becomeLeader_def bind_eq_Some_conv Let_def split: if_splits)
  moreover have "changed (rTerm r) (rVote r) StateLeader r (put_progress (rid s) pr (s\<lparr>rLead := rid s, rState := StateLeader\<rparr>)\<lparr>rPendingConfIndex := li\<rparr>)"
    using postD [OF raft_reset_changed s] by (simp add: changed_def)
  ultimately show "rState r \<noteq> StateFollower \<and> changed (rTerm r) (rVote r) StateLeader r s'"
    using postD [OF appendEntry_silently t] reduceUncommittedSize_silent [of t "[emptyEntry]"]
    by (auto intro: changed_silent [OF changed_silent])
qed

section \<open>Handlers\<close>

lemma handleAppendEntries_quietly:
  assumes "rid r \<noteq> 0" "quiet r s"
  shows "quietly r (handleAppendEntries m s)"
  unfolding handleAppendEntries_def Let_def
  by (intro vcg post_any send_quietly quiet_log assms) (auto dest: maybeAppend_snaps)

lemma handleHeartbeat_quietly:
  assumes "rid r \<noteq> 0" "quiet r s"
  shows "quietly r (handleHeartbeat m s)"
  unfolding handleHeartbeat_def by (intro vcg post_any send_quietly quiet_log assms) (auto dest: commitTo_snaps)

lemma respond_read_quietly:
  assumes "rid r \<noteq> 0" "quiet r s"
  shows "quietly r (respond_read req i s)"
proof -
  have "post (\<lambda>(t, resp). quiet r t \<and> (mTo resp \<noteq> 0 \<longrightarrow> mType resp = MsgReadIndexResp)) (responseToReadIndexReq req i s)"
    by (auto simp: post_def responseToReadIndexReq_def bind_eq_Some_conv intro!: quiet_upd assms split: if_splits)
  then show ?thesis unfolding respond_read_def
    by (rule post_bind) (auto intro!: post_if quietly_same send_quietly assms)
qed

lemma sendMsgReadIndexResponse_quietly:
  assumes "rid r \<noteq> 0" "rState r = StateLeader" "quiet r s"
  shows "quietly r (sendMsgReadIndexResponse m s)"
  unfolding sendMsgReadIndexResponse_def Let_def
  by (cases "roOption (rReadOnly s)")
    (auto intro!: post_any bcastHeartbeatWithCtx_quietly respond_read_quietly quiet_upd assms)

lemma releasePendingReadIndexMessages_quietly:
  assumes "rid r \<noteq> 0" "rState r = StateLeader" "quiet r s"
  shows "quietly r (releasePendingReadIndexMessages s)"
  unfolding releasePendingReadIndexMessages_def
  by (intro vcg post_any post_for_each sendMsgReadIndexResponse_quietly quiet_upd assms(1,2)) (simp_all add: assms)

section \<open>Leaders\<close>

lemma prop_entries_quietly: "quiet r s \<Longrightarrow> quietly2 r (prop_entries i es s)"
proof (induction es arbitrary: i s)
  case (Cons e es)
  show ?case unfolding prop_entries.simps Let_def
    by (intro vcg post_any Cons quiet_upd)
qed (simp add: post_Some)

lemma leader_ReadIndex_quietly:
  assumes "rid r \<noteq> 0" "rState r = StateLeader" "quiet r s"
  shows "quietly r (leader_ReadIndex m s)"
  unfolding leader_ReadIndex_def
  by (intro vcg post_any respond_read_quietly sendMsgReadIndexResponse_quietly quiet_upd assms)

lemma leader_AppResp_reject_quietly:
  assumes "rid r \<noteq> 0" "rState r = StateLeader" "quiet r s"
  shows "quietly r (leader_AppResp_reject m pr s)"
  unfolding leader_AppResp_reject_def Let_def
  by (intro vcg post_any sendAppend_quietly quiet_upd assms)

lemma leader_AppResp_accept_quietly:
  assumes "rid r \<noteq> 0" "rState r = StateLeader" "quiet r s"
  shows "quietly r (leader_AppResp_accept m pr s)"
  unfolding leader_AppResp_accept_def Let_def
  by (intro vcg raft_maybeCommit_quietly bcastAppend_quietly releasePendingReadIndexMessages_quietly sendAppend_quietly
      send_more_quietly sendTimeoutNow_quietly quiet_upd post_any assms)

lemma leader_HeartbeatResp_quietly:
  assumes "rid r \<noteq> 0" "rState r = StateLeader" "quiet r s"
  shows "quietly r (leader_HeartbeatResp m pr s)"
  unfolding leader_HeartbeatResp_def Let_def
  by (intro vcg post_any post_for_each respond_read_quietly sendAppend_quietly quiet_upd assms)

lemma leader_SnapStatus_quiet: "quiet r s \<Longrightarrow> quiet r (leader_SnapStatus m pr s)"
  by (simp add: leader_SnapStatus_def Let_def quiet_upd)

lemma leader_Unreachable_quiet: "quiet r s \<Longrightarrow> quiet r (leader_Unreachable m pr s)"
  by (simp add: leader_Unreachable_def quiet_upd)

lemma leader_TransferLeader_quietly:
  assumes "rid r \<noteq> 0" "rState r = StateLeader" "quiet r s"
  shows "quietly r (leader_TransferLeader m pr s)"
  unfolding leader_TransferLeader_def Let_def abortLeaderTransfer_def
  by (intro vcg post_any sendTimeoutNow_quietly sendAppend_quietly quiet_upd assms) (simp_all add: quiet_upd assms)

lemma leader_Prop_quietly:
  assumes "rid r \<noteq> 0" "rState r = StateLeader" "quiet r s"
  shows "quietly2 r (leader_Prop m s)"
  unfolding leader_Prop_def
  by (intro vcg prop_entries_quietly appendEntry_quietly bcastAppend_quietly assms)

lemma stepLeader_quietly:
  assumes "rid r \<noteq> 0" "rState r = StateLeader" "quiet r s" and "mType m \<noteq> MsgCheckQuorum"
  shows "quietly2 r (stepLeader m s)"
  using assms(4) unfolding stepLeader_def Let_def
  by (cases "mType m")
    (simp_all cong: option.case_cong, (intro vcg bcastHeartbeat_quietly leader_Prop_quietly leader_ReadIndex_quietly leader_AppResp_reject_quietly
      leader_AppResp_accept_quietly leader_HeartbeatResp_quietly leader_SnapStatus_quiet leader_Unreachable_quiet
      leader_TransferLeader_quietly assms(1-3))+)

lemma put_progress_iff [simp]:
  "silent s (put_progress i pr t) = silent s t" "changed n v st s (put_progress i pr t) = changed n v st s t"
  by (simp_all add: silent_def same_core_def changed_def)

lemma leader_CheckQuorum_changed:
  "post (\<lambda>s'. silent s s' \<or> changed (rTerm s) (rVote s) StateFollower s s') (leader_CheckQuorum s)"
proof -
  let ?P = "\<lambda>s'. silent s s' \<or> changed (rTerm s) (rVote s) StateFollower s s'"
  have "post ?P (if \<not> QuorumActive (rPrs s) then becomeFollower (rTerm s) 0 s else Some s)"
    using becomeFollower_changed [of "rTerm s" s 0] by (simp add: post_def)
  then show ?thesis unfolding leader_CheckQuorum_def
    by (rule post_bind) (erule post_for_each [rotated], auto intro!: post_any post_Some)
qed

section \<open>Candidates\<close>

lemma ask_votes_quietly:
  assumes "rid r \<noteq> 0" "quiet r s" "t = MsgVote \<or> t = MsgPreVote"
  shows "quietly r (ask_votes t term ctx s)"
  unfolding ask_votes_def
  by (intro vcg post_any post_for_each send_quietly assms(1)) (use assms in auto)

lemma step_lower_term_quietly:
  assumes "rid r \<noteq> 0" "quiet r s"
  shows "quietly r (step_lower_term m s)"
  unfolding step_lower_term_def
  by (intro vcg post_any send_quietly assms) simp_all

lemma switchToConfig_follower:
  "rState r = StateFollower \<Longrightarrow> switchToConfig cp r = Some (s, cs') \<Longrightarrow>
     cs' = tConfState (rPrs s) \<and> rid s = rid r \<and> rTerm s = rTerm r \<and> rVote s = rVote r \<and> rState s = rState r \<and> rLog s = rLog r \<and> rMsgs s = rMsgs r"
  by (auto simp: switchToConfig_def Let_def split: if_splits)

end
