(* ===== verification/Raft_Vote.thy ===== *)
theory Raft_Vote
  imports Raft_Frame
begin

text \<open>
  What a raft node knows about votes, and that every function of \<open>src/etcd/raft/raft.go\<close> keeps it. A node
  votes once in a term; a candidate counts votes that were given to it; a leader has the votes of a
  quorum. The history of votes of a node is not part of its state: the invariant speaks about some
  history that extends the earlier ones. The configuration \<open>cs\<close> is fixed.
\<close>

section \<open>The invariant of a node\<close>

type_synonym hist = "nat \<Rightarrow> nat option"

text \<open>\<open>E q t i\<close>: the vote of \<open>q\<close> for \<open>i\<close> in term \<open>t\<close> is on stable storage.\<close>

type_synonym evidence = "nat \<Rightarrow> nat \<Rightarrow> nat \<Rightarrow> bool"

definition conf_quorum :: "ConfState \<Rightarrow> nat set \<Rightarrow> bool" where
  "conf_quorum cs = joint_quorum (Some (csVoters cs), Some (csVotersOutgoing cs))"

definition won :: "ConfState \<Rightarrow> evidence \<Rightarrow> nat \<Rightarrow> nat \<Rightarrow> bool" where
  "won cs E i t \<longleftrightarrow> (\<exists>Q. conf_quorum cs Q \<and> (\<forall>q \<in> Q. q = i \<or> E q t i))"

definition snap_ok :: "ConfState \<Rightarrow> Snapshot \<Rightarrow> bool" where
  "snap_ok cs s \<longleftrightarrow> IsEmptySnap s \<or> Equivalent cs (smConfState (snMetadata s))"

definition conf_ok :: "ConfState \<Rightarrow> raft \<Rightarrow> bool" where
  "conf_ok cs r \<longleftrightarrow> Equivalent cs (tConfState (rPrs r))"

definition hist_ok :: "nat \<Rightarrow> hist \<Rightarrow> raft \<Rightarrow> bool" where
  "hist_ok i vh r \<longleftrightarrow>
     rid r = i \<and> i \<noteq> 0
     \<and> (\<forall>t j. vh t = Some j \<longrightarrow> j \<noteq> 0 \<and> t \<noteq> 0 \<and> t \<le> rTerm r \<and> (t = rTerm r \<longrightarrow> rVote r = j))
     \<and> (rVote r \<noteq> 0 \<longrightarrow> vh (rTerm r) = Some (rVote r))"

definition role_ok :: "ConfState \<Rightarrow> evidence \<Rightarrow> nat \<Rightarrow> raft \<Rightarrow> bool" where
  "role_ok cs E i r \<longleftrightarrow>
     (rState r = StateCandidate \<longrightarrow> rVote r = i \<and> (\<forall>j. tVotes (rPrs r) j = Some True \<longrightarrow> j = i \<or> E j (rTerm r) i))
     \<and> (rState r = StateLeader \<longrightarrow> rVote r = i \<and> won cs E i (rTerm r))"

text \<open>A message with the history of votes of its sender \<open>i\<close>.\<close>

definition sent_ok :: "ConfState \<Rightarrow> evidence \<Rightarrow> nat \<Rightarrow> hist \<Rightarrow> Message \<Rightarrow> bool" where
  "sent_ok cs E i vh m \<longleftrightarrow>
     mFrom m \<noteq> 0
     \<and> (mType m = MsgVoteResp \<and> \<not> mReject m \<longrightarrow> mFrom m = i \<and> vh (mTerm m) = Some (mTo m))
     \<and> (mType m \<in> lead_types \<longrightarrow> mFrom m = i \<and> vh (mTerm m) = Some i \<and> won cs E i (mTerm m))
     \<and> (mType m = MsgSnap \<longrightarrow> snap_ok cs (mSnapshot m))"

definition snaps_ok :: "ConfState \<Rightarrow> raftLog \<Rightarrow> bool" where
  "snaps_ok cs l \<longleftrightarrow> snap_ok cs (msSnapshot (lStorage l)) \<and> (\<forall>s. uSnapshot (lUnstable l) = Some s \<longrightarrow> snap_ok cs s)"

definition node_ok :: "ConfState \<Rightarrow> evidence \<Rightarrow> nat \<Rightarrow> hist \<Rightarrow> raft \<Rightarrow> bool" where
  "node_ok cs E i vh r \<longleftrightarrow> hist_ok i vh r \<and> role_ok cs E i r \<and> snaps_ok cs (rLog r) \<and> (\<forall>m \<in> set (rMsgs r). sent_ok cs E i vh m)"

definition good :: "ConfState \<Rightarrow> evidence \<Rightarrow> nat \<Rightarrow> hist \<Rightarrow> raft \<Rightarrow> bool" where
  "good cs E i vh r \<longleftrightarrow> (\<exists>vh'. vh \<subseteq>\<^sub>m vh' \<and> node_ok cs E i vh' r) \<and> conf_ok cs r"

text \<open>The same without the configuration, which a change of the configuration may move away from \<open>cs\<close>.\<close>

definition sound :: "ConfState \<Rightarrow> evidence \<Rightarrow> nat \<Rightarrow> hist \<Rightarrow> raft \<Rightarrow> bool" where
  "sound cs E i vh r \<longleftrightarrow> (\<exists>vh'. vh \<subseteq>\<^sub>m vh' \<and> node_ok cs E i vh' r)"

section \<open>Quiet functions and changes of role\<close>

lemma snap_ok_snapshot: "snaps_ok cs l \<Longrightarrow> log_snapshot l = Inr s \<Longrightarrow> snap_ok cs s"
  by (auto simp: snaps_ok_def log_snapshot_def storage_Snapshot_def split: option.splits)

lemma calm_sent:
  assumes "node_ok cs E i vh r" "calm r m"
  shows "sent_ok cs E i vh m"
  using assms snap_ok_snapshot [of cs "rLog r" "mSnapshot m"]
  by (auto simp: node_ok_def calm_def sent_ok_def hist_ok_def role_ok_def)

lemma snaps_ok_same: "snaps_ok cs l \<Longrightarrow> same_snaps l l' \<Longrightarrow> snaps_ok cs l'"
  by (simp add: snaps_ok_def same_snaps_def)

lemma node_ok_quiet:
  assumes r: "node_ok cs E i vh r" and s: "quiet r s"
  shows "node_ok cs E i vh s"
proof -
  obtain ms where ms: "rMsgs s = rMsgs r @ ms" "\<forall>m \<in> set ms. calm r m" using s by (auto simp: quiet_def)
  have "hist_ok i vh s" "role_ok cs E i s" using r by (simp_all add: node_ok_def hist_ok_def role_ok_def quietD [OF s])
  moreover have "snaps_ok cs (rLog s)" using r quietD(7) [OF s] unfolding node_ok_def by (blast intro: snaps_ok_same)
  moreover have "\<forall>m \<in> set (rMsgs s). sent_ok cs E i vh m" using r calm_sent [OF r] ms by (auto simp: node_ok_def)
  ultimately show ?thesis by (simp add: node_ok_def)
qed

lemma conf_ok_config: "tConfig (rPrs s) = tConfig (rPrs r) \<Longrightarrow> conf_ok cs s = conf_ok cs r"
  by (simp add: conf_ok_def tConfState_def)

lemma good_quiet: "good cs E i vh r \<Longrightarrow> quiet r s \<Longrightarrow> good cs E i vh s"
  using node_ok_quiet conf_ok_config [OF quietD(6)] unfolding good_def by blast

lemma node_ok_changed:
  assumes r: "node_ok cs E i vh r" and s: "changed t v st r s"
    and h: "hist_ok i vh' s" "role_ok cs E i s" "vh \<subseteq>\<^sub>m vh'"
  shows "node_ok cs E i vh' s"
proof -
  have "snaps_ok cs (rLog s)" using r s snaps_ok_same unfolding node_ok_def changed_def by blast
  moreover have "\<forall>m \<in> set (rMsgs s). sent_ok cs E i vh' m"
    using r s map_le_def h(3) by (auto simp: node_ok_def changed_def sent_ok_def map_le_def dom_def)
  ultimately show ?thesis using h by (simp add: node_ok_def)
qed

lemma histD:
  assumes "hist_ok i vh r" "vh t = Some j"
  shows "j \<noteq> 0" "t \<noteq> 0" "t \<le> rTerm r" "t = rTerm r \<Longrightarrow> rVote r = j"
  using assms unfolding hist_ok_def by blast+

lemma hist_ok_same: "hist_ok i vh r \<Longrightarrow> rid s = rid r \<Longrightarrow> rTerm s = rTerm r \<Longrightarrow> rVote s = rVote r \<Longrightarrow> hist_ok i vh s"
  by (simp add: hist_ok_def)

lemma hist_ok_later:
  assumes "hist_ok i vh r" "rid s = rid r" "rTerm r < rTerm s" "rVote s = 0"
  shows "hist_ok i vh s"
  unfolding hist_ok_def
proof (intro conjI allI impI)
  fix t j assume "vh t = Some j"
  note h = histD [OF assms(1) this]
  show "j \<noteq> 0" "t \<noteq> 0" "t \<le> rTerm s" using h assms(3) by simp_all
  show "rVote s = j" if "t = rTerm s" using h that assms(3) by simp
qed (use assms(1,2,4) in \<open>simp_all add: hist_ok_def\<close>)

lemma hist_ok_vote:
  assumes "hist_ok i vh r" "rid s = rid r" "rTerm r \<le> rTerm s" "rTerm s \<noteq> 0" "rVote s \<noteq> 0"
    and same: "rTerm s = rTerm r \<Longrightarrow> rVote r = 0 \<or> rVote r = rVote s"
  shows "hist_ok i (vh(rTerm s \<mapsto> rVote s)) s" "vh \<subseteq>\<^sub>m vh(rTerm s \<mapsto> rVote s)"
proof -
  have *: "vh (rTerm s) = Some j \<Longrightarrow> j = rVote s" for j
    using histD [OF assms(1), of "rTerm s" j] assms(3) same by (metis le_antisym)
  show "hist_ok i (vh(rTerm s \<mapsto> rVote s)) s"
    unfolding hist_ok_def
  proof (intro conjI allI impI)
    fix t j assume t: "(vh(rTerm s \<mapsto> rVote s)) t = Some j"
    show "j \<noteq> 0" "t \<noteq> 0" "t \<le> rTerm s"
      using t histD [OF assms(1), of t j] assms(3-5) by (auto split: if_splits)
    show "rVote s = j" if "t = rTerm s" using t that by simp
  qed (use assms(1,2) in \<open>simp_all add: hist_ok_def\<close>)
  show "vh \<subseteq>\<^sub>m vh(rTerm s \<mapsto> rVote s)" using * by (auto simp: map_le_def)
qed

lemma goodE:
  assumes "good cs E i vh r"
  obtains vh' where "vh \<subseteq>\<^sub>m vh'" "node_ok cs E i vh' r" "hist_ok i vh' r" "role_ok cs E i r" "conf_ok cs r"
  using assms by (auto simp: good_def node_ok_def)

lemma good_changed:
  assumes "vh \<subseteq>\<^sub>m vh1" "vh1 \<subseteq>\<^sub>m vh2" "node_ok cs E i vh1 r" "conf_ok cs r" "changed t v st r s" "hist_ok i vh2 s" "role_ok cs E i s"
  shows "good cs E i vh s"
proof -
  have "node_ok cs E i vh2 s" by (rule node_ok_changed [OF assms(3,5,6,7,2)])
  moreover have "vh \<subseteq>\<^sub>m vh2" using assms(1,2) by (rule map_le_trans)
  moreover have "conf_ok cs s" using assms(4,5) conf_ok_config [of s r] by (simp add: changed_def)
  ultimately show ?thesis by (auto simp: good_def)
qed

lemma good_sound: "good cs E i vh r \<longleftrightarrow> sound cs E i vh r \<and> conf_ok cs r"
  by (simp add: good_def sound_def)

lemma sound_follower:
  assumes "sound cs E i vh r" and t: "rTerm r \<le> t" and s: "changed t (vote_at t r) StateFollower r s"
  shows "sound cs E i vh s"
proof -
  obtain vh' where vh: "vh \<subseteq>\<^sub>m vh'" and n: "node_ok cs E i vh' r" using assms(1) by (auto simp: sound_def)
  then have h: "hist_ok i vh' r" by (simp add: node_ok_def)
  have "hist_ok i vh' s"
    using s t hist_ok_same [OF h] hist_ok_later [OF h] by (cases "rTerm r = t") (simp_all add: changed_def)
  moreover have "role_ok cs E i s" using s by (simp add: role_ok_def changed_def)
  ultimately show ?thesis using node_ok_changed [OF n s _ _ map_le_refl] vh by (auto simp: sound_def)
qed

lemma good_follower:
  "good cs E i vh r \<Longrightarrow> rTerm r \<le> t \<Longrightarrow> changed t (vote_at t r) StateFollower r s \<Longrightarrow> good cs E i vh s"
  using sound_follower conf_ok_config [of s r] unfolding good_sound changed_def by metis

lemma good_candidate:
  assumes g: "good cs E i vh r" and s: "changed (rTerm r + 1) (rid r) StateCandidate r s"
  shows "good cs E i vh s"
  using g
proof (rule goodE)
  fix vh' assume vh: "vh \<subseteq>\<^sub>m vh'" and n: "node_ok cs E i vh' r" "hist_ok i vh' r" "conf_ok cs r"
  have i: "rid r = i" "i \<noteq> 0" using n(2) by (simp_all add: hist_ok_def)
  have h: "hist_ok i (vh'(rTerm s \<mapsto> rVote s)) s" "vh' \<subseteq>\<^sub>m vh'(rTerm s \<mapsto> rVote s)"
    by (rule hist_ok_vote [OF n(2)]; use s i in \<open>simp add: changed_def\<close>)+
  have "role_ok cs E i s" using s i by (simp add: role_ok_def changed_def)
  then show ?thesis by (rule good_changed [OF vh h(2) n(1,3) s h(1)])
qed

lemma good_precandidate:
  assumes g: "good cs E i vh r" and s: "changed (rTerm r) (rVote r) StatePreCandidate r s"
  shows "good cs E i vh s"
  using g
proof (rule goodE)
  fix vh' assume vh: "vh \<subseteq>\<^sub>m vh'" and n: "node_ok cs E i vh' r" "hist_ok i vh' r" "conf_ok cs r"
  have "hist_ok i vh' s" "role_ok cs E i s"
    using s hist_ok_same [OF n(2)] by (simp_all add: changed_def role_ok_def)
  then show ?thesis by (rule good_changed [OF vh map_le_refl n(1,3) s])
qed

lemma good_leader:
  assumes g: "good cs E i vh r" and s: "changed (rTerm r) (rVote r) StateLeader r s"
    and w: "won cs E i (rTerm r)" "rVote r = i"
  shows "good cs E i vh s"
  using g
proof (rule goodE)
  fix vh' assume vh: "vh \<subseteq>\<^sub>m vh'" and n: "node_ok cs E i vh' r" "hist_ok i vh' r" "conf_ok cs r"
  have "hist_ok i vh' s" "role_ok cs E i s"
    using s w hist_ok_same [OF n(2)] by (simp_all add: changed_def role_ok_def)
  then show ?thesis by (rule good_changed [OF vh map_le_refl n(1,3) s])
qed

section \<open>Elections\<close>

lemma majority_mset: "mset xs = mset ys \<Longrightarrow> majority xs P = majority ys P"
  unfolding majority_def by (metis mset_filter size_mset)

lemma conf_quorum_voters:
  assumes "conf_ok cs r" "csVoters cs \<noteq> []"
  shows "conf_quorum cs = joint_quorum (tVoters (rPrs r))" "ids (fst (tVoters (rPrs r))) \<noteq> []"
proof -
  have "mset (csVoters cs) = mset (ids (fst (tVoters (rPrs r))))" "mset (csVotersOutgoing cs) = mset (ids (snd (tVoters (rPrs r))))"
    using assms(1) unfolding conf_ok_def Equivalent_def tConfState_def Slice_def by (simp_all, (metis mset_sort)+)
  note m = this majority_mset [OF this(1)] majority_mset [OF this(2)]
  have e: "csVoters cs = [] \<longleftrightarrow> ids (fst (tVoters (rPrs r))) = []" "csVotersOutgoing cs = [] \<longleftrightarrow> ids (snd (tVoters (rPrs r))) = []"
    using m(1,2) by (metis mset_zero_iff)+
  with m(3,4) show "conf_quorum cs = joint_quorum (tVoters (rPrs r))" by (simp add: fun_eq_iff conf_quorum_def joint_quorum_iff)
  show "ids (fst (tVoters (rPrs r))) \<noteq> []" using e assms(2) by simp
qed

lemma poll_good:
  assumes g: "good cs E i vh r" and cs: "csVoters cs \<noteq> []" and p: "poll j v r = (s, res)"
    and v: "rState r = StateCandidate \<Longrightarrow> v \<Longrightarrow> j = i \<or> E j (rTerm r) i"
  shows "good cs E i vh s \<and> rTerm s = rTerm r \<and> rState s = rState r \<and> (res = VoteWon \<longrightarrow> rState r = StateCandidate \<longrightarrow> won cs E i (rTerm r))"
  using g
proof (rule goodE)
  fix vh' assume vh: "vh \<subseteq>\<^sub>m vh'" and n: "node_ok cs E i vh' r" "hist_ok i vh' r" "role_ok cs E i r" "conf_ok cs r"
  have s: "s = r\<lparr>rPrs := RecordVote (rPrs r) j v\<rparr>" and res: "res = JointVoteResult (tVoters (rPrs r)) (tVotes (rPrs s))"
    using p TallyVotes_result [of "RecordVote (rPrs r) j v"] by (auto simp: poll_def Let_def split: prod.splits)
  have role: "role_ok cs E i s" using n(3) v by (auto simp: role_ok_def s RecordVote_votes split: option.splits if_splits)
  have "hist_ok i vh' s" using n(2) by (simp add: hist_ok_def s)
  with role n(1) have "node_ok cs E i vh' s" by (simp add: node_ok_def s)
  then have "good cs E i vh s" using vh n(4) conf_ok_config [of s r] by (auto simp: good_def s)
  moreover have "won cs E i (rTerm r)" if "res = VoteWon" "rState r = StateCandidate"
  proof -
    have "conf_quorum cs {k. tVotes (rPrs s) k = Some True}"
      using that(1) res conf_quorum_voters [OF n(4) cs] by (simp add: won_quorum)
    then show ?thesis using role that(2) unfolding won_def role_ok_def by (auto simp: s)
  qed
  ultimately show ?thesis by (simp add: s)
qed

lemma becomeFollower_good:
  assumes "good cs E i vh r" "rTerm r \<le> t"
  shows "post (\<lambda>s. good cs E i vh s \<and> rTerm s = t \<and> rState s = StateFollower) (becomeFollower t lead r)"
proof (rule postI)
  fix s assume "becomeFollower t lead r = Some s"
  from postD [OF becomeFollower_changed this] have s: "changed t (vote_at t r) StateFollower r s" .
  from good_follower [OF assms this] s show "good cs E i vh s \<and> rTerm s = t \<and> rState s = StateFollower"
    by (simp add: changed_def)
qed

lemma becomeLeader_good:
  assumes g: "good cs E i vh r" and c: "rState r = StateCandidate" and w: "won cs E i (rTerm r)"
  shows "post (\<lambda>s. good cs E i vh s \<and> rState s = StateLeader) (becomeLeader r)"
proof (rule postI)
  fix s assume "becomeLeader r = Some s"
  from postD [OF becomeLeader_changed this] have s: "changed (rTerm r) (rVote r) StateLeader r s" by simp
  have "rVote r = i" using g c by (auto simp: good_def node_ok_def role_ok_def)
  from good_leader [OF g s w this] s show "good cs E i vh s \<and> rState s = StateLeader" by (simp add: changed_def)
qed

lemma good_id: "good cs E i vh r \<Longrightarrow> rid r = i \<and> i \<noteq> 0"
  by (auto simp: good_def node_ok_def hist_ok_def)

lemma quietly_good: "good cs E i vh r \<Longrightarrow> quietly r x \<Longrightarrow> post (good cs E i vh) x"
  using good_quiet by (auto simp: post_def)

lemma quietly2_good: "good cs E i vh r \<Longrightarrow> quietly2 r x \<Longrightarrow> post (\<lambda>p. good cs E i vh (fst p)) x"
  using good_quiet by (auto simp: post_def)

lemma campaign_election:
  assumes g: "good cs E i vh r" and cs: "csVoters cs \<noteq> []" and t: "t \<noteq> campaignPreElection"
  shows "post (good cs E i vh) (campaign t r)"
proof -
  have b: "post (\<lambda>s. good cs E i vh s \<and> rState s = StateCandidate) (becomeCandidate r)"
    by (rule postI, drule postD [OF becomeCandidate_changed], frule good_candidate [OF g conjunct2]) (simp add: changed_def)
  have "post (good cs E i vh) (case poll (rid s) True s of (s', res) \<Rightarrow>
      if res = VoteWon then becomeLeader s' else ask_votes MsgVote (rTerm s) ctx s')"
    if s: "good cs E i vh s" "rState s = StateCandidate" for s ctx
  proof (rule post_prod)
    fix s' res assume p: "poll (rid s) True s = (s', res)"
    have s': "good cs E i vh s'" "rTerm s' = rTerm s" "rState s' = StateCandidate" "res = VoteWon \<Longrightarrow> won cs E i (rTerm s)"
      using poll_good [OF s(1) cs p] good_id [OF s(1)] s(2) by simp_all
    show "post (good cs E i vh) (if res = VoteWon then becomeLeader s' else ask_votes MsgVote (rTerm s) ctx s')"
    proof (rule post_if)
      assume "res = VoteWon"
      then have "won cs E i (rTerm s')" using s'(2,4) by simp
      from becomeLeader_good [OF s'(1,3) this] show "post (good cs E i vh) (becomeLeader s')" by (simp add: post_def)
    qed (rule quietly_good [OF s'(1) ask_votes_quietly], use good_id [OF s'(1)] in simp_all)
  qed
  then show ?thesis using t by (auto simp: campaign.simps [of t] Let_def intro!: post_bind [OF b])
qed

lemma campaign_good:
  assumes g: "good cs E i vh r" and cs: "csVoters cs \<noteq> []"
  shows "post (good cs E i vh) (campaign t r)"
proof (cases "t = campaignPreElection")
  case True
  have b: "post (\<lambda>s. good cs E i vh s \<and> rState s = StatePreCandidate) (becomePreCandidate r)"
    by (rule postI, drule postD [OF becomePreCandidate_changed], frule good_precandidate [OF g conjunct2]) (simp add: changed_def)
  have "post (good cs E i vh) (case poll (rid s) True s of (s', res) \<Rightarrow>
      if res = VoteWon then campaign campaignElection s' else ask_votes MsgPreVote (Suc (rTerm s)) None s')"
    if s: "good cs E i vh s" "rState s = StatePreCandidate" for s
  proof (rule post_prod)
    fix s' res assume p: "poll (rid s) True s = (s', res)"
    have s': "good cs E i vh s'" using poll_good [OF s(1) cs p] s(2) by simp
    show "post (good cs E i vh) (if res = VoteWon then campaign campaignElection s' else ask_votes MsgPreVote (Suc (rTerm s)) None s')"
    proof (rule post_if)
      show "post (good cs E i vh) (campaign campaignElection s')" by (rule campaign_election [OF s' cs]) simp
    qed (rule quietly_good [OF s' ask_votes_quietly], use good_id [OF s'] in simp_all)
  qed
  then show ?thesis using True by (auto simp: campaign.simps [of campaignPreElection] Let_def intro!: post_bind [OF b])
qed (rule campaign_election [OF g cs])

lemma hup_good:
  assumes g: "good cs E i vh r" and cs: "csVoters cs \<noteq> []"
  shows "post (good cs E i vh) (hup t r)"
  unfolding hup_def by (intro post_if post_any post_sum post_None post_Some campaign_good g cs)

section \<open>Answers to messages\<close>

text \<open>What a message must carry so that a node may trust it.\<close>

definition heard :: "ConfState \<Rightarrow> evidence \<Rightarrow> nat \<Rightarrow> Message \<Rightarrow> bool" where
  "heard cs E i m \<longleftrightarrow>
     (mType m = MsgVote \<longrightarrow> mFrom m \<noteq> 0)
     \<and> (mType m = MsgVoteResp \<and> \<not> mReject m \<longrightarrow> mTerm m \<noteq> 0 \<and> E (mFrom m) (mTerm m) i)
     \<and> (mType m \<in> lead_types \<longrightarrow> mTerm m \<noteq> 0)
     \<and> (mType m = MsgSnap \<longrightarrow> snap_ok cs (mSnapshot m))"

lemma candidate_vote_good:
  assumes g: "good cs E i vh r" and cs: "csVoters cs \<noteq> []"
    and c: "rState r = StateCandidate \<or> rState r = StatePreCandidate"
    and v: "rState r = StateCandidate \<Longrightarrow> \<not> mReject m \<Longrightarrow> E (mFrom m) (rTerm r) i"
  shows "post (good cs E i vh) (candidate_vote m r)"
  unfolding candidate_vote_def Let_def
proof (rule post_prod)
  fix s res assume p: "poll (mFrom m) (\<not> mReject m) r = (s, res)"
  have s: "good cs E i vh s" "rTerm s = rTerm r" "rState s = rState r" "res = VoteWon \<Longrightarrow> rState r = StateCandidate \<Longrightarrow> won cs E i (rTerm r)"
    using poll_good [OF g cs p] v by auto
  have lead: "post (good cs E i vh) (becomeLeader s \<bind> bcastAppend)" if "res = VoteWon" "rState s \<noteq> StatePreCandidate"
  proof -
    have "rState s = StateCandidate" "won cs E i (rTerm s)" using s c that by auto
    from becomeLeader_good [OF s(1) this] show ?thesis
      by (rule post_bind) (use good_id quietly_good [OF _ bcastAppend_quietly] in auto)
  qed
  show "post (good cs E i vh) (case res of VotePending \<Rightarrow> Some s | VoteLost \<Rightarrow> becomeFollower (rTerm s) 0 s
      | VoteWon \<Rightarrow> if rState s = StatePreCandidate then campaign campaignElection s else becomeLeader s \<bind> bcastAppend)"
    using s(1) lead campaign_good [OF s(1) cs] becomeFollower_good [OF s(1), of "rTerm s" 0]
    by (cases res) (simp_all add: post_def)
qed

lemma Equivalent_trans: "Equivalent a b \<Longrightarrow> Equivalent b c \<Longrightarrow> Equivalent a c"
  by (simp add: Equivalent_def)

text \<open>A follower that takes over a snapshot has its configuration, which is the fixed one.\<close>

lemma restored_good:
  assumes g: "good cs E i vh r" and f: "rState r = StateFollower" and s: "snap_ok cs sn" "\<not> IsEmptySnap sn"
    and "rid t = rid r" "rTerm t = rTerm r" "rVote t = rVote r" "rState t = rState r" "rMsgs t = rMsgs r"
    and l: "rLog t = log_restore (rLog r) sn" and c: "Equivalent (smConfState (snMetadata sn)) (tConfState (rPrs t))"
  shows "good cs E i vh t"
  using g
proof (rule goodE)
  fix vh' assume vh: "vh \<subseteq>\<^sub>m vh'" and n: "node_ok cs E i vh' r" "hist_ok i vh' r"
  have "hist_ok i vh' t" using hist_ok_same [OF n(2)] assms by simp
  moreover have "role_ok cs E i t" using f assms by (simp add: role_ok_def)
  moreover have "snaps_ok cs (rLog t)" using n(1) s(1) by (simp add: l node_ok_def snaps_ok_def log_restore_def unstable_restore_def)
  ultimately have "node_ok cs E i vh' t" using n(1) assms by (simp add: node_ok_def)
  moreover have "conf_ok cs t" using s c Equivalent_trans by (auto simp: conf_ok_def snap_ok_def)
  ultimately show ?thesis using vh by (auto simp: good_def)
qed

lemma raft_restore_good:
  assumes g: "good cs E i vh r" and s: "snap_ok cs sn"
  shows "post (\<lambda>p. good cs E i vh (fst p)) (raft_restore sn r)"
  unfolding raft_restore_def Let_def
proof (intro post_if post_any post_sum post_None post_map)
  assume "\<not> snIndex sn \<le> lCommitted (rLog r)"
  show "post (\<lambda>v. good cs E i vh (fst (v, False))) (becomeFollower (rTerm r + 1) 0 r)"
    using becomeFollower_good [OF g, of "rTerm r + 1" 0] by (simp add: post_def)
next
  fix l assume "commitTo (rLog r) (snIndex sn) = Some l"
  then show "post (\<lambda>p. good cs E i vh (fst p)) (Some (r\<lparr>rLog := l\<rparr>, False))"
    using good_quiet [OF g quiet_log [OF quiet_refl commitTo_snaps]] by (simp add: post_def)
next
  fix cp t
  assume f: "\<not> snIndex sn \<le> lCommitted (rLog r)" "\<not> rState r \<noteq> StateFollower"
    and t: "switchToConfig cp (r\<lparr>rLog := log_restore (rLog r) sn, rPrs := MakeProgressTracker (tMaxInflight (rPrs (r\<lparr>rLog := log_restore (rLog r) sn\<rparr>)))\<rparr>) = Some t"
  have "post (\<lambda>p. good cs E i vh (fst p)) (do {
          _ \<leftarrow> assertConfStatesEquivalent (smConfState (snMetadata sn)) cs2;
          pr \<leftarrow> progress s (rid s);
          _ \<leftarrow> lastTerm (rLog (put_progress (rid s) (fst (MaybeUpdate pr (sub64 (prNext pr) 1))) s));
          Some (put_progress (rid s) (fst (MaybeUpdate pr (sub64 (prNext pr) 1))) s, True) })"
    if "t = (s, cs2)" for s cs2
  proof (intro post_any post_Some)
    fix u assume "assertConfStatesEquivalent (smConfState (snMetadata sn)) cs2 = Some u"
    then have "Equivalent (smConfState (snMetadata sn)) cs2" by (simp add: assertConfStatesEquivalent_def split: if_splits)
    then have "good cs E i vh s"
      using f switchToConfig_follower [OF _ t [unfolded that]]
      by (intro restored_good [OF g _ s]) (simp_all add: IsEmptySnap_def)
    then show "good cs E i vh (fst (put_progress (rid s) (fst (MaybeUpdate pr (sub64 (prNext pr) 1))) s, True))" for pr
      using good_quiet quiet_upd(1) [OF quiet_refl] by simp
  qed
  then show "post (\<lambda>p. good cs E i vh (fst p)) (case t of (s, cs2) \<Rightarrow> do {
          _ \<leftarrow> assertConfStatesEquivalent (smConfState (snMetadata sn)) cs2;
          pr \<leftarrow> progress s (rid s);
          _ \<leftarrow> lastTerm (rLog (put_progress (rid s) (fst (MaybeUpdate pr (sub64 (prNext pr) 1))) s));
          Some (put_progress (rid s) (fst (MaybeUpdate pr (sub64 (prNext pr) 1))) s, True) })"
    by (cases t) simp
qed (use g in \<open>simp_all add: post_def\<close>)

lemma handleSnapshot_good:
  assumes g: "good cs E i vh r" and s: "snap_ok cs (mSnapshot m)"
  shows "post (good cs E i vh) (handleSnapshot m r)"
  unfolding handleSnapshot_def
proof (rule post_bind [OF raft_restore_good [OF g s]], rule post_prod)
  fix p and s :: raft and b :: bool assume "good cs E i vh (fst p)" "p = (s, b)"
  then have s: "good cs E i vh s" by simp
  show "post (good cs E i vh) (if b then do { li \<leftarrow> log_lastIndex (rLog s); send (emptyMessage\<lparr>mTo := mFrom m, mType := MsgAppResp, mIndex := li\<rparr>) s }
      else send (emptyMessage\<lparr>mTo := mFrom m, mType := MsgAppResp, mIndex := lCommitted (rLog s)\<rparr>) s)"
    using good_id [OF s] by (intro quietly_good [OF s] post_if post_any send_quietly) simp_all
qed

text \<open>A vote is remembered before its answer leaves the node.\<close>

lemma vote_good:
  assumes g: "good cs E i vh r" and m: "mFrom m \<noteq> 0" "mTerm m = 0 \<or> mTerm m = rTerm r" "rVote r = mFrom m \<or> rVote r = 0"
    and s: "send (emptyMessage\<lparr>mTo := mFrom m, mTerm := mTerm m, mType := MsgVoteResp\<rparr>) r = Some s"
  shows "good cs E i vh (s\<lparr>rElectionElapsed := 0, rVote := mFrom m\<rparr>)"
  using g
proof (rule goodE)
  fix vh' assume vh: "vh \<subseteq>\<^sub>m vh'" and n: "node_ok cs E i vh' r" "hist_ok i vh' r" "role_ok cs E i r" "conf_ok cs r"
  obtain a where s': "s = r\<lparr>rMsgs := rMsgs r @ [a]\<rparr>" and a: "stamped r (emptyMessage\<lparr>mTo := mFrom m, mTerm := mTerm m, mType := MsgVoteResp\<rparr>) a"
    using s by (rule send_msg)
  have i: "rid r = i" "i \<noteq> 0" using good_id [OF g] by auto
  have t: "mTerm m = rTerm r" "rTerm r \<noteq> 0" using a m(2) by (auto simp: stamped_def vote_types_def)
  let ?s = "s\<lparr>rElectionElapsed := 0, rVote := mFrom m\<rparr>"
  let ?vh = "vh'(rTerm r \<mapsto> mFrom m)"
  have h: "hist_ok i ?vh ?s" "vh' \<subseteq>\<^sub>m ?vh"
    using hist_ok_vote [OF n(2), of ?s] m t by (auto simp: s')
  have "role_ok cs E i ?s" using n(3) m(3) i by (auto simp: role_ok_def s')
  moreover have "sent_ok cs E i ?vh a"
    using a i t by (simp add: sent_ok_def stamped_def vote_types_def)
  moreover have "sent_ok cs E i ?vh b" if "b \<in> set (rMsgs r)" for b
    using n(1) h(2) that by (auto simp: node_ok_def sent_ok_def map_le_def dom_def)
  ultimately have "node_ok cs E i ?vh ?s" using h(1) n(1) by (auto simp: node_ok_def s')
  moreover have "conf_ok cs ?s" using n(4) conf_ok_config [of ?s r] by (simp add: s')
  ultimately show ?thesis using map_le_trans [OF vh h(2)] by (auto simp: good_def)
qed

lemma handleVote_good:
  assumes g: "good cs E i vh r" and v: "mType m = MsgVote \<longrightarrow> mFrom m \<noteq> 0 \<and> (mTerm m = 0 \<or> mTerm m = rTerm r)"
    and t: "mType m = MsgVote \<or> mType m = MsgPreVote"
  shows "post (good cs E i vh) (handleVote m r)"
  unfolding handleVote_def Let_def
proof (intro post_any post_if)
  fix utd resp s
  assume resp: "voteRespMsgType (mType m) = Some resp"
    and c: "(rVote r = mFrom m \<or> rVote r = 0 \<and> rLead r = 0 \<or> mType m = MsgPreVote \<and> rTerm r < mTerm m) \<and> utd"
    and s: "send (emptyMessage\<lparr>mTo := mFrom m, mTerm := mTerm m, mType := resp\<rparr>) r = Some s"
  show "post (good cs E i vh) (Some (if mType m = MsgVote then s\<lparr>rElectionElapsed := 0, rVote := mFrom m\<rparr> else s))"
  proof (cases "mType m = MsgVote")
    case True
    then show ?thesis using vote_good [OF g, of m s] resp c s v by (auto simp: voteRespMsgType_def intro!: post_Some)
  next
    case False
    have "quietly r (send (emptyMessage\<lparr>mTo := mFrom m, mTerm := mTerm m, mType := resp\<rparr>) r)"
      using good_id [OF g] False t resp by (intro send_quietly) (auto simp: voteRespMsgType_def)
    then show ?thesis using postD [OF quietly_good [OF g] s] False by (simp add: post_def)
  qed
next
  fix resp assume "voteRespMsgType (mType m) = Some resp"
  then show "post (good cs E i vh) (send (emptyMessage\<lparr>mTo := mFrom m, mTerm := rTerm r, mType := resp, mReject := True\<rparr>) r)"
    using good_id [OF g] t by (intro quietly_good [OF g] send_quietly) (auto simp: voteRespMsgType_def)
qed

section \<open>Step\<close>

abbreviation goods :: "ConfState \<Rightarrow> evidence \<Rightarrow> nat \<Rightarrow> hist \<Rightarrow> (raft \<times> 'a) option \<Rightarrow> bool" where
  "goods cs E i vh \<equiv> post (\<lambda>p. good cs E i vh (fst p))"

lemma no_err_good: "post (good cs E i vh) x \<Longrightarrow> goods cs E i vh (no_err x)"
  by (auto simp: post_def)

lemma goods_Some: "good cs E i vh r \<Longrightarrow> goods cs E i vh (Some (r, a))"
  by (simp add: post_def)

lemma stepLeader_good:
  assumes g: "good cs E i vh r" and l: "rState r = StateLeader"
  shows "goods cs E i vh (stepLeader m r)"
proof (cases "mType m = MsgCheckQuorum")
  case True
  have "post (good cs E i vh) (leader_CheckQuorum r)"
    using leader_CheckQuorum_changed [of r] good_follower [OF g, of "rTerm r"] good_quiet [OF g silent_quiet [OF quiet_refl]]
    by (auto simp: post_def)
  then show ?thesis using True by (simp add: stepLeader_def no_err_good)
next
  case False
  then show ?thesis using quietly2_good [OF g stepLeader_quietly] good_id [OF g] l by simp
qed

lemma stepCandidate_good:
  assumes g: "good cs E i vh r" and cs: "csVoters cs \<noteq> []" and c: "rState r = StateCandidate \<or> rState r = StatePreCandidate"
    and h: "heard cs E i m" and t: "mType m \<noteq> MsgPreVoteResp \<Longrightarrow> mTerm m = 0 \<or> mTerm m = rTerm r"
  shows "goods cs E i vh (stepCandidate m r)"
proof -
  have vote: "post (good cs E i vh) (candidate_vote m r)"
    if "if mType m = MsgPreVoteResp then rState r = StatePreCandidate else mType m = MsgVoteResp"
    using that h t by (intro candidate_vote_good [OF g cs c]) (auto simp: heard_def split: if_splits)
  have follow: "post (good cs E i vh) (becomeFollower (mTerm m) (mFrom m) r \<bind> f)"
    if "mType m \<in> lead_types" "\<And>s. good cs E i vh s \<Longrightarrow> post (good cs E i vh) (f s)" for f
    using that h t by (intro post_bind [OF becomeFollower_good [OF g]]) (auto simp: heard_def)
  have q: "post (good cs E i vh) (handleAppendEntries m s)" "post (good cs E i vh) (handleHeartbeat m s)"
    if "good cs E i vh s" for s
    using quietly_good [OF that handleAppendEntries_quietly] quietly_good [OF that handleHeartbeat_quietly] good_id [OF that] by simp_all
  show ?thesis
  proof (cases "mType m")
    case MsgSnap
    then have "snap_ok cs (mSnapshot m)" using h by (simp add: heard_def)
    then show ?thesis using follow [of "handleSnapshot m"] handleSnapshot_good MsgSnap by (simp add: stepCandidate_def no_err_good)
  qed (use vote follow q c in \<open>auto simp: stepCandidate_def intro!: no_err_good goods_Some g\<close>)
qed

lemma stepFollower_good:
  assumes g: "good cs E i vh r" and cs: "csVoters cs \<noteq> []" and h: "heard cs E i m"
  shows "goods cs E i vh (stepFollower m r)"
proof -
  have i: "rid r \<noteq> 0" using good_id [OF g] by auto
  let ?heard = "r\<lparr>rElectionElapsed := 0, rLead := mFrom m\<rparr>"
  have q: "quiet r ?heard" by (intro quiet_upd quiet_refl)
  have fwd: "post (good cs E i vh) (send (m\<lparr>mTo := rLead r\<rparr>) r)" if "mType m \<notin> lead_types" "mType m \<noteq> MsgVoteResp"
    by (rule quietly_good [OF g send_quietly]) (use i that in auto)
  have "snap_ok cs (mSnapshot m)" if "mType m = MsgSnap" using h that by (simp add: heard_def)
  note snap = handleSnapshot_good [OF good_quiet [OF g q] this]
  note app = quietly_good [OF g handleAppendEntries_quietly [OF i q]] quietly_good [OF g handleHeartbeat_quietly [OF i q]]
  have "good cs E i vh (r\<lparr>rReadStates := rs\<rparr>)" for rs using good_quiet [OF g] quiet_upd(3) [OF quiet_refl] by simp
  then show ?thesis unfolding stepFollower_def Let_def
    by (cases "mType m")
      (auto intro!: no_err_good goods_Some fwd snap app hup_good g cs split: list.splits)
qed

lemma step_message_good:
  assumes g: "good cs E i vh r" and cs: "csVoters cs \<noteq> []" and h: "heard cs E i m"
    and t: "mType m \<noteq> MsgPreVote \<and> mType m \<noteq> MsgPreVoteResp \<Longrightarrow> mTerm m = 0 \<or> mTerm m = rTerm r"
  shows "goods cs E i vh (step_message m r)"
  unfolding step_message_def
proof (intro post_if)
  assume "mType m = MsgVote \<or> mType m = MsgPreVote"
  then show "goods cs E i vh (no_err (handleVote m r))" using h t by (intro no_err_good handleVote_good [OF g]) (auto simp: heard_def)
next
  assume "\<not> (mType m = MsgVote \<or> mType m = MsgPreVote)"
  then show "goods cs E i vh (case rState r of StateFollower \<Rightarrow> stepFollower m r | StateCandidate \<Rightarrow> stepCandidate m r
      | StateLeader \<Rightarrow> stepLeader m r | StatePreCandidate \<Rightarrow> stepCandidate m r)"
    using stepLeader_good [OF g] stepFollower_good [OF g cs h] stepCandidate_good [OF g cs _ h] t by (cases "rState r") auto
qed (intro no_err_good hup_good g cs)

lemma Step_good:
  assumes g: "good cs E i vh r" and cs: "csVoters cs \<noteq> []" and h: "heard cs E i m"
  shows "goods cs E i vh (Step m r)"
proof -
  have i: "rid r \<noteq> 0" using good_id [OF g] by auto
  have high: "post (\<lambda>s. good cs E i vh s \<and> (mType m \<noteq> MsgPreVote \<and> mType m \<noteq> MsgPreVoteResp \<longrightarrow> mTerm m = rTerm s)) (step_higher_term m r)"
    if "rTerm r < mTerm m"
    unfolding step_higher_term_def using that g becomeFollower_good [OF g, of "mTerm m"] by (auto simp: post_def)
  show ?thesis unfolding Step_def
    by (intro post_if post_any post_bind [OF high] step_message_good cs h no_err_good quietly_good [OF g step_lower_term_quietly] goods_Some g i quiet_refl)
      (use g in auto)
qed

section \<open>Ticks, advance and configuration changes\<close>

lemma heard_local: "mType m \<notin> {MsgVote, MsgVoteResp} \<union> lead_types \<Longrightarrow> heard cs E i m"
  by (auto simp: heard_def)

lemma goods_fst: "goods cs E i vh x \<Longrightarrow> post (good cs E i vh) (map_option fst x)"
  by (auto simp: post_def)

lemma tickElection_good:
  assumes g: "good cs E i vh r" and cs: "csVoters cs \<noteq> []"
  shows "post (good cs E i vh) (tickElection r)"
  unfolding tickElection_def Let_def
  by (intro post_if goods_fst Step_good cs heard_local post_Some good_quiet [OF g] quiet_upd quiet_refl) (simp add: local_message_def)

lemma tickHeartbeat_good:
  assumes g: "good cs E i vh r" and cs: "csVoters cs \<noteq> []"
  shows "post (good cs E i vh) (tickHeartbeat r)"
proof -
  have upd: "good cs E i vh (s\<lparr>rElectionElapsed := e\<rparr>)" "good cs E i vh (s\<lparr>rHeartbeatElapsed := e\<rparr>)" "good cs E i vh (s\<lparr>rLeadTransferee := l\<rparr>)"
    if "good cs E i vh s" for s e l
    by (rule good_quiet [OF that], intro quiet_upd quiet_refl)+
  have step: "post (good cs E i vh) (map_option fst (Step (local_message t s) s))" if "good cs E i vh s" "t = MsgBeat \<or> t = MsgCheckQuorum" for s t
    using that by (intro goods_fst Step_good [OF that(1) cs] heard_local) (auto simp: local_message_def)
  show ?thesis unfolding tickHeartbeat_def Let_def abortLeaderTransfer_def
    by (rule post_bind [where Q = "good cs E i vh"])
      (auto intro!: post_if post_Some step upd g post_bind [where Q = "good cs E i vh"])
qed

lemma raft_tick_good:
  assumes "good cs E i vh r" "csVoters cs \<noteq> []"
  shows "post (good cs E i vh) (raft_tick r)"
  unfolding raft_tick_def by (intro post_if tickHeartbeat_good tickElection_good assms)

lemma good_log:
  assumes g: "good cs E i vh r" and l: "snaps_ok cs l"
  shows "good cs E i vh (r\<lparr>rLog := l\<rparr>)"
  using g
proof (rule goodE)
  fix vh' assume vh: "vh \<subseteq>\<^sub>m vh'" and n: "node_ok cs E i vh' r" "conf_ok cs r"
  have "node_ok cs E i vh' (r\<lparr>rLog := l\<rparr>)" using n(1) l by (simp add: node_ok_def hist_ok_def role_ok_def)
  moreover have "conf_ok cs (r\<lparr>rLog := l\<rparr>)" using n(2) by (simp add: conf_ok_def)
  ultimately show ?thesis using vh by (auto simp: good_def)
qed

lemma good_snaps: "good cs E i vh r \<Longrightarrow> snaps_ok cs (rLog r)"
  by (auto simp: good_def node_ok_def)

lemma stableSnapTo_ok: "snaps_ok cs l \<Longrightarrow> snaps_ok cs (stableSnapTo l k)"
  by (auto simp: snaps_ok_def stableSnapTo_def unstable_stableSnapTo_def split: option.splits)

lemma advance_applied_good:
  assumes g: "good cs E i vh r"
  shows "post (good cs E i vh) (advance_applied k r)"
  unfolding advance_applied_def Let_def
proof (intro post_if post_any post_Some g)
  fix l assume "appliedTo (rLog r) k = Some l"
  then have q: "quiet r (r\<lparr>rLog := l\<rparr>)" by (intro quiet_log quiet_refl appliedTo_snaps)
  then show "good cs E i vh (r\<lparr>rLog := l\<rparr>)" by (rule good_quiet [OF g])
  assume "cAutoLeave (tConfig (rPrs (r\<lparr>rLog := l\<rparr>))) \<and> lApplied (rLog r) \<le> rPendingConfIndex (r\<lparr>rLog := l\<rparr>)
      \<and> rPendingConfIndex (r\<lparr>rLog := l\<rparr>) \<le> k \<and> rState (r\<lparr>rLog := l\<rparr>) = StateLeader"
  then show "post (good cs E i vh) (auto_leave (r\<lparr>rLog := l\<rparr>))" unfolding auto_leave_def using good_id [OF g] q
    by (intro quietly_good [OF g] vcg appendEntry_quietly bcastAppend_quietly post_any quiet_upd) simp_all
qed

lemma advance_stable_good:
  assumes g: "good cs E i vh r" and cs: "csVoters cs \<noteq> []"
  shows "post (good cs E i vh) (advance_stable es r)"
  unfolding advance_stable_def Let_def
proof (intro post_if post_Some g post_bind [where Q = "good cs E i vh"] post_any)
  show "post (good cs E i vh) (map_option fst (Step (emptyMessage\<lparr>mFrom := rid r, mType := MsgAppResp, mIndex := eIndex (last es)\<rparr>) r))"
    by (intro goods_fst Step_good cs heard_local g) simp_all
next
  fix s l assume "good cs E i vh s" "stableTo (rLog s) (eIndex (last es)) (eTerm (last es)) = Some l"
  then show "good cs E i vh (s\<lparr>rLog := l\<rparr>)" by (rule good_quiet [OF _ quiet_log [OF quiet_refl stableTo_snaps]])
qed

lemma raft_advance_good:
  assumes g: "good cs E i vh r" and cs: "csVoters cs \<noteq> []"
  shows "post (good cs E i vh) (raft_advance rd r)"
proof -
  have g': "good cs E i vh (reduceUncommittedSize (rdCommittedEntries rd) r)"
    by (rule good_quiet [OF g reduceUncommittedSize_quiet [OF quiet_refl]])
  show ?thesis unfolding raft_advance_def Let_def
    by (rule post_bind [OF advance_applied_good [OF g']], rule post_bind [OF advance_stable_good [OF _ cs]])
      (auto simp: post_def intro: good_log stableSnapTo_ok good_snaps)
qed

text \<open>A change of the configuration keeps what a node knows about votes.\<close>

lemma sound_quiet: "sound cs E i vh r \<Longrightarrow> quiet r s \<Longrightarrow> sound cs E i vh s"
  using node_ok_quiet unfolding sound_def by blast

lemma switchToConfig_sound:
  assumes r: "sound cs E i vh r"
  shows "post (\<lambda>p. sound cs E i vh (fst p) \<and> rState (fst p) = rState r) (switchToConfig cp r)"
proof -
  define s where "s = r\<lparr>rPrs := (rPrs r)\<lparr>tConfig := fst cp, tProgress := snd cp\<rparr>\<rparr>"
  define t where "t = s\<lparr>rIsLearner := (case progress s (rid s) of None \<Rightarrow> False | Some pr \<Rightarrow> prIsLearner pr)\<rparr>"
  have t: "sound cs E i vh t" using r by (auto simp: t_def s_def sound_def node_ok_def hist_ok_def role_ok_def)
  then have i: "rid r \<noteq> 0" by (auto simp: t_def s_def sound_def node_ok_def hist_ok_def)
  have "quietly2 t (switchToConfig cp r)"
    unfolding switchToConfig_def Let_def s_def [symmetric] t_def [symmetric] abortLeaderTransfer_def
    by (intro vcg quiet_refl raft_maybeCommit_quietly bcastAppend_quietly post_for_each maybeSendAppend_quietly)
      (use i in \<open>auto simp: t_def s_def intro: quiet_upd\<close>)
  then show ?thesis using sound_quiet [OF t] quietD(4) unfolding post_def by (fastforce simp: t_def s_def)
qed

lemma applyConfChange_sound:
  "sound cs E i vh r \<Longrightarrow> post (\<lambda>p. sound cs E i vh (fst p)) (applyConfChange cc r)"
  unfolding applyConfChange_def Let_def
  by (intro post_any post_sum post_None) (use switchToConfig_sound in \<open>auto simp: post_def\<close>)

section \<open>Start\<close>

definition hist_tv :: "hist \<Rightarrow> nat \<Rightarrow> nat \<Rightarrow> bool" where
  "hist_tv vh t v \<longleftrightarrow>
     (\<forall>s j. vh s = Some j \<longrightarrow> j \<noteq> 0 \<and> s \<noteq> 0 \<and> s \<le> t \<and> (s = t \<longrightarrow> v = j)) \<and> (v \<noteq> 0 \<longrightarrow> vh t = Some v)"

lemma hist_ok_tv: "hist_ok i vh r \<longleftrightarrow> rid r = i \<and> i \<noteq> 0 \<and> hist_tv vh (rTerm r) (rVote r)"
  by (auto simp: hist_ok_def hist_tv_def)

definition fresh :: "RaftConfig \<Rightarrow> MemoryStorage \<Rightarrow> raft \<Rightarrow> bool" where
  "fresh c st r \<longleftrightarrow>
     rid r = rcID c \<and> rcID c \<noteq> 0 \<and> rState r = StateFollower \<and> rMsgs r = [] \<and> lStorage (rLog r) = st \<and> uSnapshot (lUnstable (rLog r)) = None"

lemma validate_same: "validate c = Some c' \<Longrightarrow> rcID c' = rcID c \<and> rcStorage c' = rcStorage c \<and> rcID c \<noteq> 0"
  by (auto simp: validate_def Let_def split: if_splits)

lemma fresh_same: "fresh c st r \<Longrightarrow> rid s = rid r \<Longrightarrow> rState s = rState r \<Longrightarrow> rMsgs s = rMsgs r \<Longrightarrow> same_snaps (rLog r) (rLog s) \<Longrightarrow> fresh c st s"
  by (simp add: fresh_def same_snaps_def)

lemma loadState_fresh:
  assumes "fresh c st r" "rTerm r = 0" "rVote r = 0"
  shows "post (\<lambda>r. fresh c st r \<and> rTerm r = hTerm hs \<and> rVote r = hVote hs) (if \<not> IsEmptyHardState hs then loadState hs r else Some r)"
  using assms by (auto simp: post_def loadState_def IsEmptyHardState_def isHardStateEqual_def emptyState_def fresh_def bind_eq_Some_conv)

lemma switchToConfig_fresh:
  assumes "validate c = Some c'" "newLogWithSize st k = Some l"
  shows "post (\<lambda>p. fresh c st (fst p) \<and> rTerm (fst p) = 0 \<and> rVote (fst p) = 0) (switchToConfig cp (initial_raft c' l rand))"
proof (rule postI)
  fix p assume p: "switchToConfig cp (initial_raft c' l rand) = Some p"
  have "rState (initial_raft c' l rand) = StateFollower" by (simp add: initial_raft_def)
  note s = switchToConfig_follower [OF this, of cp "fst p" "snd p"]
  show "fresh c st (fst p) \<and> rTerm (fst p) = 0 \<and> rVote (fst p) = 0"
    using s p validate_same [OF assms(1)] assms(2) by (auto simp: fresh_def initial_raft_def newLogWithSize_def bind_eq_Some_conv)
qed

lemma newRaft_fresh:
  assumes st: "rcStorage c = Some st"
  shows "post (\<lambda>r. fresh c st r \<and> rTerm r = hTerm (msHardState st) \<and> rVote r = hVote (msHardState st)) (newRaft c rand)"
proof -
  let ?Q = "\<lambda>r. fresh c st r \<and> rTerm r = hTerm (msHardState st) \<and> rVote r = hVote (msHardState st)"
  have tail: "post ?Q (do {
      r \<leftarrow> (if \<not> IsEmptyHardState (msHardState st) then loadState (msHardState st) r else Some r);
      l \<leftarrow> (if k > 0 then appliedTo (rLog r) k else Some (rLog r));
      r \<leftarrow> becomeFollower (rTerm r) 0 (r\<lparr>rLog := l\<rparr>);
      _ \<leftarrow> lastTerm (rLog r);
      Some r })" if "fresh c st r" "rTerm r = 0" "rVote r = 0" for r k
  proof (rule post_bind [OF loadState_fresh [OF that]], rule post_any)
    fix r l assume r: "?Q r" and "(if k > 0 then appliedTo (rLog r) k else Some (rLog r)) = Some l"
    then have "same_snaps (rLog r) l" by (auto dest: appliedTo_snaps split: if_splits)
    with r show "post ?Q (becomeFollower (rTerm r) 0 (r\<lparr>rLog := l\<rparr>) \<bind> (\<lambda>r. lastTerm (rLog r) \<bind> (\<lambda>_. Some r)))"
      by (intro post_bind [OF becomeFollower_changed] post_any post_Some) (auto simp: changed_def fresh_def same_snaps_def)
  qed
  show ?thesis unfolding newRaft_def InitialState_def Let_def prod.case
  proof (rule post_any, rule post_any, rule post_any, rule post_any, rule post_any, rule post_sum, rule post_None)
    fix c' storage l cp
    assume "validate c = Some c'" "rcStorage c' = Some storage" "newLogWithSize storage (rcMaxCommittedSizePerReady c') = Some l"
    moreover have "storage = st" using calculation validate_same [of c c'] st by simp
    ultimately have "post (\<lambda>p. fresh c st (fst p) \<and> rTerm (fst p) = 0 \<and> rVote (fst p) = 0) (switchToConfig cp (initial_raft c' l rand))"
      using switchToConfig_fresh by blast
    then show "post ?Q (do {
        (r, cs2) \<leftarrow> switchToConfig cp (initial_raft c' l rand);
        _ \<leftarrow> assertConfStatesEquivalent (smConfState (snMetadata (msSnapshot storage))) cs2;
        r \<leftarrow> (if \<not> IsEmptyHardState (msHardState storage) then loadState (msHardState storage) r else Some r);
        l \<leftarrow> (if 0 < rcApplied c' then appliedTo (rLog r) (rcApplied c') else Some (rLog r));
        r \<leftarrow> becomeFollower (rTerm r) 0 (r\<lparr>rLog := l\<rparr>);
        _ \<leftarrow> lastTerm (rLog r);
        Some r })"
      unfolding \<open>storage = st\<close> by (rule post_bind) (auto intro!: post_prod post_any [where x = "assertConfStatesEquivalent _ _"] tail)
  qed
qed

lemma fresh_sound:
  assumes "fresh c st r" "hist_tv vh (rTerm r) (rVote r)" "snap_ok cs (msSnapshot st)"
  shows "sound cs E (rcID c) vh r"
  unfolding sound_def
  by (rule exI [of _ vh]) (use assms in \<open>auto simp: node_ok_def hist_ok_tv role_ok_def snaps_ok_def fresh_def\<close>)

lemma Bootstrap_sound:
  assumes r: "sound cs E i vh (rnRaft rn)" and t: "rTerm (rnRaft rn) \<le> 1"
  shows "post (\<lambda>p. sound cs E i vh (rnRaft (fst p)) \<and> rnPrevHardSt (fst p) \<in> {rnPrevHardSt rn, emptyState}) (Bootstrap peers rn)"
  unfolding Bootstrap_def Let_def
proof (rule post_if, simp add: post_def r, rule post_any, rule post_if, simp add: post_def r, rule post_bind [OF becomeFollower_changed], rule post_any, rule post_any, rule post_prod)
  fix r1 ents p l k
  assume r1: "changed 1 (vote_at 1 (rnRaft (rn\<lparr>rnPrevHardSt := emptyState\<rparr>))) StateFollower (rnRaft (rn\<lparr>rnPrevHardSt := emptyState\<rparr>)) r1"
    and l: "log_append (rLog r1) ents = Some p" "p = (l, k)"
  have "sound cs E i vh r1" by (rule sound_follower [OF r t]) (use r1 in \<open>simp cong: if_cong\<close>)
  moreover have "same_snaps (rLog r1) l" using l log_append_snaps by simp
  ultimately have "sound cs E i vh (r1\<lparr>rLog := l\<lparr>lCommitted := length ents\<rparr>\<rparr>)"
    by (auto simp: sound_def node_ok_def hist_ok_def role_ok_def snaps_ok_def same_snaps_def)
  then have "post (sound cs E i vh) (for_each (\<lambda>p r. map_option fst (applyConfChange (cc p) r)) peers (r1\<lparr>rLog := l\<lparr>lCommitted := length ents\<rparr>\<rparr>))" for cc
    by (rule post_for_each [rotated]) (auto intro!: post_map applyConfChange_sound)
  then show "post (\<lambda>p. sound cs E i vh (rnRaft (fst p)) \<and> rnPrevHardSt (fst p) \<in> {rnPrevHardSt rn, emptyState})
      (for_each (\<lambda>p r. map_option fst (applyConfChange (ConfChange_AsV2 (emptyConfChange\<lparr>ccNodeID := pID p, ccType := ConfChangeAddNode\<rparr>)) r)) peers
        (r1\<lparr>rLog := l\<lparr>lCommitted := length ents\<rparr>\<rparr>) \<bind> (\<lambda>r. Some (rn\<lparr>rnPrevHardSt := emptyState, rnRaft := r\<rparr>, True)))"
    by (rule post_bind) (simp add: post_def)
qed

end
