(* ===== verification/Util.thy ===== *)
theory Util
  imports Prelude
begin

text \<open>
  The helpers of \<open>src/util/util.go\<close>: the FNV hash that places a key in a shard or on a
  lock, and the glob matcher of the KEYS command. A string position of the matcher is kept
  as the suffix that starts there. \<open>None\<close> is a run-time panic.
\<close>

unbundle bit_operations_syntax

section \<open>HashKey\<close>

text \<open>32-bit FNV-1 (\<open>hash/fnv.New32\<close>): multiply by the prime, then XOR the byte.\<close>

definition fnv32_step :: "32 word \<Rightarrow> char \<Rightarrow> 32 word" where
  "fnv32_step h c = (h * 16777619) XOR of_char c"

definition HashKey :: "string \<Rightarrow> nat" where
  "HashKey key = unat (foldl fnv32_step 2166136261 (''@#&'' @ key @ ''*^%$''))"

lemma HashKey_bound: "HashKey key < 2 ^ 32"
  unfolding HashKey_def using unsigned_less [where 'b = 32 and 'a = nat] by simp

section \<open>PattenMatch\<close>

text \<open>
  The loop over a bracket class. \<open>prev\<close> is the pattern byte before the position, \<open>sc\<close> the
  byte to match. \<open>None\<close> is the early \<open>return false\<close> of a malformed class; otherwise the
  result is whether a member matched and the pattern after the closing bracket.
\<close>

fun class_loop :: "char \<Rightarrow> string \<Rightarrow> char \<Rightarrow> bool \<Rightarrow> (bool \<times> string) option" where
  "class_loop prev [] sc match = None"
| "class_loop prev (c # p) sc match =
     (if c = CHR 0x5C then
        (case p of [] \<Rightarrow> None | d # p' \<Rightarrow> class_loop d p' sc (match \<or> d = sc))
      else if c = CHR '']'' then Some (match, p)
      else if c = CHR ''-'' then
        (case p of [] \<Rightarrow> None
         | d # p' \<Rightarrow> if d = CHR '']'' then None
                    else class_loop d p' sc
                      (match \<or> (of_char prev :: nat) \<le> of_char sc \<and> (of_char sc :: nat) \<le> of_char d))
      else class_loop c p sc (match \<or> c = sc))"

definition pat_class :: "string \<Rightarrow> char \<Rightarrow> (bool \<times> string) option" where
  "pat_class p sc =
     (case p of [] \<Rightarrow> None
      | c # p' \<Rightarrow>
          if c = CHR ''^''
          then map_option (\<lambda>(match, rest). (\<not> match, rest)) (class_loop c p' sc False)
          else class_loop (CHR ''['') p sc False)"

lemma class_loop_shorter: "class_loop prev p sc m = Some (b, rest) \<Longrightarrow> length rest < length p"
proof (induction p arbitrary: prev m rule: length_induct)
  case (1 p)
  show ?case
  proof (cases p)
    case Nil
    with "1.prems" show ?thesis by simp
  next
    case p: (Cons c q)
    show ?thesis
    proof (cases q)
      case Nil
      with "1.prems" p show ?thesis by (simp split: if_split_asm)
    next
      case q: (Cons d r)
      have IH: "length rest < length p"
        if "t = q \<or> t = r" and "class_loop x t sc m' = Some (b, rest)" for x t m'
      proof -
        from that(1) p q have lt: "length t < length p" by auto
        with "1.IH" that(2) have "length rest < length t" by blast
        with lt show ?thesis by simp
      qed
      have IHs: "\<And>x m'. class_loop x r sc m' = Some (b, rest) \<Longrightarrow> length rest < Suc (Suc (length r))"
        "\<And>x m'. class_loop x (d # r) sc m' = Some (b, rest) \<Longrightarrow> length rest < Suc (Suc (length r))"
        using IH [of r] IH [of q] p q by (simp_all del: class_loop.simps)
      note step = class_loop.simps(2) [of prev c q sc m]
      from "1.prems" show ?thesis
        unfolding p step by (auto simp del: class_loop.simps simp: q split: if_split_asm dest: IHs)
    qed
  qed
qed

declare class_loop.simps [simp del]

lemma pat_class_shorter: "pat_class p sc = Some (b, rest) \<Longrightarrow> length rest < length p"
proof (cases p)
  case (Cons c p')
  moreover assume "pat_class p sc = Some (b, rest)"
  ultimately show ?thesis
    using class_loop_shorter [of c p' sc False "\<not> b" rest] class_loop_shorter [of _ p sc False b rest]
    by (auto simp: pat_class_def split: if_split_asm)
qed (simp add: pat_class_def)

lemma length_dropWhile_lt: "dropWhile P xs = y # ys \<Longrightarrow> length ys < length xs"
  using length_dropWhile_le [of P xs] by simp

text \<open>
  One iteration of the loop, at a position of the pattern with source bytes left: a
  \<open>return\<close>, a jump to the next positions, or the search after a star for the next pattern
  byte.
\<close>

datatype pat_outcome = Return bool | Next string string | Star char string

definition pat_step :: "string \<Rightarrow> string \<Rightarrow> pat_outcome" where
  "pat_step pat src =
     (let c = hd pat; p = tl pat; sc = hd src; s = tl src in
      if c = CHR ''*'' then
        (case dropWhile (\<lambda>x. x = CHR ''*'') p of [] \<Rightarrow> Return True | pc # p' \<Rightarrow> Star pc p')
      else if c = CHR ''?'' then Next p s
      else if c = CHR ''['' then
        (case pat_class p sc of None \<Rightarrow> Return False
         | Some (match, rest) \<Rightarrow> if match then Next rest s else Return False)
      else if c = CHR 0x5C then
        (case p of [] \<Rightarrow> Return False | d # p' \<Rightarrow> Next p' src)
      else if c \<noteq> sc then Return False
      else Next p s)"

text \<open>
  The search after a star for the byte \<open>pc\<close>, with \<open>f\<close> matching the rest of the pattern. When
  the byte does not occur, \<open>src[srcPos+1:]\<close> is out of range and the Go program panics.
\<close>

function pat_star :: "(string \<Rightarrow> bool option) \<Rightarrow> char \<Rightarrow> string \<Rightarrow> bool option" where
  "pat_star f pc src =
     (if src = [] then Some False
      else case dropWhile (\<lambda>x. x \<noteq> pc) src of [] \<Rightarrow> None
      | _ # s' \<Rightarrow>
          (case f s' of None \<Rightarrow> None
           | Some b \<Rightarrow> if b then Some True else pat_star f pc s'))"
  by pat_completeness simp_all
termination
  by (relation "measure (\<lambda>(f, pc, s). length s)") (auto dest: length_dropWhile_lt)

lemma pat_step_Next_shorter: "pat_step (c # p) src = Next p' s' \<Longrightarrow> length p' < Suc (length p)"
  by (auto simp: pat_step_def Let_def split: if_splits list.splits option.splits
      dest!: pat_class_shorter)

lemma pat_step_Star_shorter: "pat_step (c # p) src = Star pc p' \<Longrightarrow> length p' < Suc (length p)"
  by (auto simp: pat_step_def Let_def split: if_splits list.splits option.splits
      dest!: length_dropWhile_lt)

text \<open>The loop: the test after the body is that the source is consumed.\<close>

function pat_loop :: "string \<Rightarrow> string \<Rightarrow> bool option" where
  "pat_loop pat src =
     (case pat of [] \<Rightarrow> Some (src = [])
      | c # p \<Rightarrow>
        (case pat_step (c # p) src of
           Return b \<Rightarrow> Some b
         | Next p' s' \<Rightarrow>
             if s' = [] then Some (dropWhile (\<lambda>x. x = CHR ''*'') p' = []) else pat_loop p' s'
         | Star pc p' \<Rightarrow>
             pat_star (\<lambda>s'. if p' = [] then Some (s' = [])
                            else if s' = [] then Some (list_all (\<lambda>c. c = CHR ''*'') p')
                            else pat_loop p' s') pc src))"
  by pat_completeness simp_all
termination
  by (relation "measure (\<lambda>(p, s). length p)")
    (auto dest: pat_step_Next_shorter pat_step_Star_shorter)

definition PattenMatch :: "string \<Rightarrow> string \<Rightarrow> bool option" where
  "PattenMatch pat src =
     (if pat = [] then Some (src = [])
      else if src = [] then Some (list_all (\<lambda>c. c = CHR ''*'') pat)
      else pat_loop pat src)"

declare pat_loop.simps [simp del] pat_star.simps [simp del]

section \<open>What the matcher accepts\<close>

text \<open>
  The specification: a pattern is a list of tokens (a byte, any byte, a class of bytes or
  its complement), each standing for one byte of the key.
\<close>

datatype glob = Lit char | Any | Class bool string

definition plain :: "char \<Rightarrow> bool" where
  "plain c \<longleftrightarrow> c \<notin> {CHR ''*'', CHR ''?'', CHR ''['', CHR 0x5C}"

definition class_plain :: "char \<Rightarrow> bool" where
  "class_plain c \<longleftrightarrow> c \<notin> {CHR 0x5C, CHR '']'', CHR ''-'', CHR ''^''}"

fun glob_ok :: "glob \<Rightarrow> bool" where
  "glob_ok (Lit c) = plain c"
| "glob_ok Any = True"
| "glob_ok (Class neg cs) = list_all class_plain cs"

fun glob_show :: "glob \<Rightarrow> string" where
  "glob_show (Lit c) = [c]"
| "glob_show Any = ''?''"
| "glob_show (Class neg cs) = ''['' @ (if neg then ''^'' else []) @ cs @ '']''"

fun glob_match :: "glob \<Rightarrow> char \<Rightarrow> bool" where
  "glob_match (Lit c) s = (c = s)"
| "glob_match Any s = True"
| "glob_match (Class neg cs) s = (s \<in> set cs \<longleftrightarrow> \<not> neg)"

abbreviation globs_show :: "glob list \<Rightarrow> string" where
  "globs_show ts \<equiv> concat (map glob_show ts)"

lemma class_loop_plain:
  "list_all class_plain cs \<Longrightarrow>
     class_loop prev (cs @ CHR '']'' # rest) sc m = Some (m \<or> sc \<in> set cs, rest)"
  by (induction cs arbitrary: prev m) (auto simp: class_loop.simps class_plain_def)

lemma pat_step_glob:
  assumes "glob_ok t"
  shows "pat_step (glob_show t @ p) (sc # s) =
           (if glob_match t sc then Next p s else Return False)"
proof (cases t)
  case (Class neg cs)
  have cl: "class_loop x (cs @ CHR '']'' # p) sc m = Some (m \<or> sc \<in> set cs, p)" for x m
    using assms Class by (intro class_loop_plain) simp
  have "pat_class ((if neg then ''^'' else []) @ cs @ CHR '']'' # p) sc = Some (glob_match t sc, p)"
  proof (cases neg)
    case True
    with Class show ?thesis by (simp add: pat_class_def cl)
  next
    case False
    from assms Class have "cs = [] \<or> hd cs \<noteq> CHR ''^''" by (cases cs) (auto simp: class_plain_def)
    with False Class cl [of "CHR ''[''" False] show ?thesis
      by (cases cs) (auto simp: pat_class_def)
  qed
  with Class show ?thesis by (simp add: pat_step_def)
qed (use assms in \<open>auto simp: pat_step_def plain_def\<close>)

lemma glob_show_Cons: "\<exists>c cs. glob_show t = c # cs"
  by (cases t) auto

lemma stars_globs:
  assumes "list_all glob_ok ts"
  shows "(\<forall>y\<in>set ts. \<forall>x\<in>set (glob_show y). x = CHR ''*'') = (ts = [])"
proof (cases ts)
  case (Cons t ts')
  with assms have "glob_ok t" by simp
  then have "\<exists>c\<in>set (glob_show t). c \<noteq> CHR ''*''" by (cases t) (auto simp: plain_def)
  with Cons show ?thesis by auto
qed simp

lemma pat_loop_glob_Cons:
  assumes "glob_ok t"
  shows "pat_loop (glob_show t @ p) (sc # s) =
     (if glob_match t sc
      then if s = [] then Some (dropWhile (\<lambda>x. x = CHR ''*'') p = []) else pat_loop p s
      else Some False)"
proof -
  obtain c cs where "glob_show t = c # cs" using glob_show_Cons by blast
  with pat_step_glob [OF assms, of p sc s] show ?thesis
    by (simp add: pat_loop.simps [of "c # cs @ p"])
qed

lemma pat_loop_globs:
  "list_all glob_ok ts \<Longrightarrow> src \<noteq> [] \<Longrightarrow> pat_loop (globs_show ts) src = Some (list_all2 glob_match ts src)"
proof (induction ts arbitrary: src)
  case Nil
  then show ?case by (simp add: pat_loop.simps)
next
  case (Cons t ts)
  then obtain sc s where src: "src = sc # s" by (cases src) auto
  from Cons show ?case
    by (auto simp: src pat_loop_glob_Cons stars_globs)
qed

lemma PattenMatch_globs:
  assumes "list_all glob_ok ts"
  shows "PattenMatch (globs_show ts) src = Some (list_all2 glob_match ts src)"
proof (cases "ts = [] \<or> src = []")
  case True
  then show ?thesis
  proof (cases ts)
    case (Cons t ts')
    obtain c cs where show_t: "glob_show t = c # cs" using glob_show_Cons by blast
    from assms Cons have "\<not> list_all (\<lambda>c. c = CHR ''*'') (glob_show t)"
      by (cases t) (auto simp: plain_def)
    with True Cons show_t show ?thesis by (auto simp: PattenMatch_def)
  qed (simp add: PattenMatch_def)
next
  case False
  then obtain t ts' where ts: "ts = t # ts'" by (cases ts) auto
  then have "globs_show ts \<noteq> []" using glob_show_Cons [of t] by auto
  then have "PattenMatch (globs_show ts) src = pat_loop (globs_show ts) src"
    using False unfolding PattenMatch_def by (simp only: if_False) simp
  with False assms show ?thesis by (simp add: pat_loop_globs)
qed

text \<open>A trailing star matches any rest, the empty one included.\<close>

lemma pat_loop_globs_star:
  "list_all glob_ok ts \<Longrightarrow> src \<noteq> [] \<Longrightarrow>
     pat_loop (globs_show ts @ ''*'') src =
       Some (length ts \<le> length src \<and> list_all2 glob_match ts (take (length ts) src))"
proof (induction ts arbitrary: src)
  case Nil
  then show ?case by (simp add: pat_loop.simps pat_step_def)
next
  case (Cons t ts)
  then obtain sc s where src: "src = sc # s" by (cases src) auto
  with Cons show ?case by (auto simp: src pat_loop_glob_Cons stars_globs)
qed

lemma PattenMatch_globs_star:
  assumes "list_all glob_ok ts"
  shows "PattenMatch (globs_show ts @ ''*'') src =
           Some (length ts \<le> length src \<and> list_all2 glob_match ts (take (length ts) src))"
proof (cases "src = []")
  case True
  with stars_globs [OF assms] show ?thesis by (simp add: PattenMatch_def list_all_iff)
next
  case False
  with assms show ?thesis by (simp add: PattenMatch_def pat_loop_globs_star)
qed

text \<open>
  C30. The matcher of KEYS does what its comment says on patterns made of bytes, \<open>?\<close> and
  classes: it accepts exactly the keys of the same length whose bytes match one by one. With a
  star at the end it accepts exactly the keys that have such a prefix.
\<close>

theorem PattenMatch_correct:
  assumes "list_all glob_ok ts"
  shows "PattenMatch (globs_show ts) src = Some (list_all2 glob_match ts src)
       \<and> PattenMatch (globs_show ts @ ''*'') src =
           Some (length ts \<le> length src \<and> list_all2 glob_match ts (take (length ts) src))"
  using PattenMatch_globs [OF assms] PattenMatch_globs_star [OF assms] by blast

theorem PattenMatch_correct_witness:
  "PattenMatch ''h[ae]?'' ''hat'' = Some True \<and> PattenMatch ''h[ae]?*'' ''hi'' = Some False"
  using PattenMatch_correct [of "[Lit (CHR ''h''), Class False ''ae'', Any]" "''hat''"]
    PattenMatch_correct [of "[Lit (CHR ''h''), Class False ''ae'', Any]" "''hi''"]
  by (simp add: plain_def class_plain_def)

text \<open>
  A star followed by a byte that the key does not contain makes the matcher index past the
  end of the key, so KEYS with such a pattern panics as soon as one key lacks the byte.
\<close>

theorem PattenMatch_star_panics:
  assumes "c \<noteq> CHR ''*''" and "c \<notin> set src" and "src \<noteq> []"
  shows "PattenMatch (CHR ''*'' # c # p) src = None"
proof -
  have none: "dropWhile (\<lambda>x. x \<noteq> c) src = []" using assms(2) by auto
  have "pat_star f c src = None" for f
    using assms(3) by (simp only: pat_star.simps [of f c src] none if_False list.case)
  moreover have "pat_step (CHR ''*'' # c # p) src = Star c p"
    using assms(1) by (simp add: pat_step_def)
  ultimately show ?thesis
    using assms(3) by (simp add: PattenMatch_def pat_loop.simps [of "CHR ''*'' # c # p"])
qed

theorem PattenMatch_star_panics_witness: "PattenMatch ''*a'' ''bbb'' = None"
  using PattenMatch_star_panics [of "CHR ''a''" "''bbb''" "[]"] by simp

text \<open>An escaped byte is skipped, not compared: the pattern does not match the text it escapes.\<close>

theorem PattenMatch_escape:
  assumes "list_all plain w" and "w \<noteq> []"
  shows "PattenMatch (w @ [CHR 0x5C, d]) (w @ [d]) = Some False
       \<and> PattenMatch (CHR 0x5C # d # w) w = Some True"
proof -
  have lits: "w = globs_show (map Lit w)" by (induction w) auto
  have ok: "list_all glob_ok (map Lit w)" using assms(1) by (simp add: list_all_iff)
  have m: "list_all2 glob_match (map Lit w) w" by (simp add: list_all2_conv_all_nth)
  have esc: "v \<noteq> [] \<Longrightarrow> pat_loop (v @ [CHR 0x5C, d]) (v @ [d]) = Some False" if "list_all plain v" for v
    using that
  proof (induction v)
    case (Cons c v)
    then have "glob_ok (Lit c)" by simp
    from pat_loop_glob_Cons [OF this, of "v @ [CHR 0x5C, d]" c "v @ [d]"] Cons show ?case
      by (cases "v = []") (simp_all add: pat_loop.simps [of "CHR 0x5C # _"] pat_loop.simps [of "[]"] pat_step_def)
  qed simp
  have "pat_loop w w = Some True"
    using pat_loop_globs [OF ok assms(2)] lits m by simp
  with assms esc [OF assms(1)] show ?thesis
    by (simp add: PattenMatch_def pat_loop.simps [of "CHR 0x5C # _"] pat_step_def)
qed

end
