(* ===== verification/Concurrent_Map.thy ===== *)
theory Concurrent_Map
  imports Util
begin

text \<open>
  The sharded hash table of \<open>src/memdb/concurrentmap.go\<close>, that holds the keys of a
  database, their expiry times and the channels. A key lives in the shard that its hash
  selects. The shard locks make each operation atomic; an operation is one step here.
\<close>

section \<open>The interface of a key-value store\<close>

text \<open>
  What the commands rely on: lookup after an update and after a deletion, and the number
  of keys. The laws of a partial map follow once for every implementation.
\<close>

locale kv_map =
  fixes get :: "'m \<Rightarrow> string \<Rightarrow> 'v option"
    and put :: "'m \<Rightarrow> string \<Rightarrow> 'v \<Rightarrow> 'm"
    and del :: "'m \<Rightarrow> string \<Rightarrow> 'm"
    and len :: "'m \<Rightarrow> int"
    and inv :: "'m \<Rightarrow> bool"
  assumes get_put: "inv m \<Longrightarrow> get (put m k v) = (get m)(k \<mapsto> v)"
    and get_del: "inv m \<Longrightarrow> get (del m k) = (get m)(k := None)"
    and inv_put: "inv m \<Longrightarrow> inv (put m k v)"
    and inv_del: "inv m \<Longrightarrow> inv (del m k)"
    and finite_get: "inv m \<Longrightarrow> finite (dom (get m))"
    and len_card: "inv m \<Longrightarrow> len m = int (card (dom (get m)))"
begin

lemma get_put_other: "inv m \<Longrightarrow> k' \<noteq> k \<Longrightarrow> get (put m k v) k' = get m k'"
  by (simp add: get_put)

lemma put_commute: "inv m \<Longrightarrow> k \<noteq> k' \<Longrightarrow> get (put (put m k v) k' v') = get (put (put m k' v') k v)"
  by (simp add: get_put inv_put fun_upd_twist)

lemma len_put: "inv m \<Longrightarrow> len (put m k v) = len m + (if get m k = None then 1 else 0)"
  by (auto simp: len_card inv_put get_put finite_get card_insert_if domIff insert_absorb)

lemma len_del: "inv m \<Longrightarrow> len (del m k) = len m - (if get m k = None then 0 else 1)"
proof -
  assume m: "inv m"
  have "card (dom (get m) - {k}) = card (dom (get m)) - (if get m k = None then 0 else 1)"
    using finite_get [OF m] by (auto simp: card_Diff_singleton_if domIff)
  moreover have "get m k \<noteq> None \<Longrightarrow> 0 < card (dom (get m))"
    using finite_get [OF m] by (auto simp: card_gt_0_iff)
  ultimately show ?thesis using m by (auto simp: len_card inv_del get_del)
qed

lemma inv_puts: "inv m \<Longrightarrow> inv (fold (\<lambda>(k, v) m. put m k v) kvs m)"
  by (induction kvs arbitrary: m) (auto simp: inv_put)

lemma get_puts:
  "inv m \<Longrightarrow> get (fold (\<lambda>(k, v) m. put m k v) kvs m) k =
     (case map_of (rev kvs) k of None \<Rightarrow> get m k | Some v \<Rightarrow> Some v)"
proof (induction kvs arbitrary: m)
  case (Cons kv kvs)
  obtain k' v' where kv: "kv = (k', v')" by (cases kv)
  from Cons show ?case
    by (auto simp: kv inv_put get_put map_add_def split: option.split)
qed simp

lemma get_dels: "inv m \<Longrightarrow> get (fold (\<lambda>k m. del m k) ks m) k = (if k \<in> set ks then None else get m k)"
  by (induction ks arbitrary: m) (auto simp: inv_del get_del)

lemma inv_dels: "inv m \<Longrightarrow> inv (fold (\<lambda>k m. del m k) ks m)"
  by (induction ks arbitrary: m) (auto simp: inv_del)

end

section \<open>ConcurrentMap\<close>

text \<open>\<open>table\<close> holds the maps of the shards, \<open>cm_size\<close> and \<open>cm_count\<close> the fields \<open>size\<close> and \<open>count\<close>.\<close>

record 'v ConcurrentMap =
  table :: "(string \<times> 'v) list list"
  cm_size :: nat
  cm_count :: int

definition MaxConSize :: int where "MaxConSize = 2 ^ 31 - 1"

definition NewConcurrentMap :: "int \<Rightarrow> 'v ConcurrentMap" where
  "NewConcurrentMap sz =
     (let n = nat (if sz \<le> 0 \<or> sz > MaxConSize then MaxConSize else sz)
      in \<lparr>table = replicate n [], cm_size = n, cm_count = 0\<rparr>)"

definition cm_getKeyPos :: "'v ConcurrentMap \<Rightarrow> string \<Rightarrow> nat" where
  "cm_getKeyPos m key = HashKey key mod cm_size m"

definition cm_getShard :: "'v ConcurrentMap \<Rightarrow> string \<Rightarrow> (string \<times> 'v) list" where
  "cm_getShard m key = table m ! cm_getKeyPos m key"

definition put_shard :: "'v ConcurrentMap \<Rightarrow> string \<Rightarrow> (string \<times> 'v) list \<Rightarrow> 'v ConcurrentMap" where
  "put_shard m key sh = m\<lparr>table := (table m)[cm_getKeyPos m key := sh]\<rparr>"

definition cm_Set :: "'v ConcurrentMap \<Rightarrow> string \<Rightarrow> 'v \<Rightarrow> 'v ConcurrentMap \<times> int" where
  "cm_Set m key value =
     (let sh = cm_getShard m key;
          (m', added) = (if map_of sh key = None then (m\<lparr>cm_count := cm_count m + 1\<rparr>, 1) else (m, 0))
      in (put_shard m' key (AList.update key value sh), added))"

definition cm_SetIfExist :: "'v ConcurrentMap \<Rightarrow> string \<Rightarrow> 'v \<Rightarrow> 'v ConcurrentMap \<times> int" where
  "cm_SetIfExist m key value =
     (let sh = cm_getShard m key in
      if map_of sh key \<noteq> None then (put_shard m key (AList.update key value sh), 1) else (m, 0))"

definition cm_SetIfNotExist :: "'v ConcurrentMap \<Rightarrow> string \<Rightarrow> 'v \<Rightarrow> 'v ConcurrentMap \<times> int" where
  "cm_SetIfNotExist m key value =
     (let sh = cm_getShard m key in
      if map_of sh key = None
      then (put_shard (m\<lparr>cm_count := cm_count m + 1\<rparr>) key (AList.update key value sh), 1)
      else (m, 0))"

definition cm_Get :: "'v ConcurrentMap \<Rightarrow> string \<Rightarrow> 'v option" where
  "cm_Get m key = map_of (cm_getShard m key) key"

definition cm_Delete :: "'v ConcurrentMap \<Rightarrow> string \<Rightarrow> 'v ConcurrentMap \<times> int" where
  "cm_Delete m key =
     (let sh = cm_getShard m key in
      if map_of sh key \<noteq> None
      then ((put_shard m key (AList.delete key sh))\<lparr>cm_count := cm_count m - 1\<rparr>, 1)
      else (m, 0))"

definition cm_Len :: "'v ConcurrentMap \<Rightarrow> int" where
  "cm_Len m = cm_count m"

definition cm_Clear :: "'v ConcurrentMap \<Rightarrow> 'v ConcurrentMap" where
  "cm_Clear m = NewConcurrentMap (int (cm_size m))"

text \<open>
  \<open>Keys\<close> fills a slice of length \<open>count\<close>; writing past its end is a panic, and positions
  that no key fills stay empty strings.
\<close>

definition cm_Keys :: "env \<Rightarrow> 'v ConcurrentMap \<Rightarrow> string list option" where
  "cm_Keys e m =
     (let ks = concat (map (\<lambda>(j, sh). iter e j (map fst sh)) (enumerate 0 (table m))) in
      if int (length ks) \<le> cm_count m
      then Some (ks @ replicate (nat (cm_count m) - length ks) []) else None)"

definition cm_KeyVals :: "'v ConcurrentMap \<Rightarrow> (string \<times> 'v) list" where
  "cm_KeyVals m = foldl (\<lambda>res (k, v). AList.update k v res) [] (concat (table m))"

abbreviation cm_put :: "'v ConcurrentMap \<Rightarrow> string \<Rightarrow> 'v \<Rightarrow> 'v ConcurrentMap" where
  "cm_put m k v \<equiv> fst (cm_Set m k v)"

abbreviation cm_del :: "'v ConcurrentMap \<Rightarrow> string \<Rightarrow> 'v ConcurrentMap" where
  "cm_del m k \<equiv> fst (cm_Delete m k)"

section \<open>Well-formedness\<close>

definition cm_ok :: "'v ConcurrentMap \<Rightarrow> bool" where
  "cm_ok m \<longleftrightarrow> 0 < cm_size m \<and> length (table m) = cm_size m
     \<and> (\<forall>i < cm_size m. gm_ok (table m ! i) \<and> (\<forall>k \<in> dom (map_of (table m ! i)). HashKey k mod cm_size m = i))
     \<and> cm_count m = int (sum_list (map length (table m)))"

lemma cm_ok_New [simp]: "cm_ok (NewConcurrentMap n)"
  by (simp add: cm_ok_def NewConcurrentMap_def Let_def MaxConSize_def)

lemma cm_Get_New [simp]: "cm_Get (NewConcurrentMap n) k = None"
proof -
  have "0 < cm_size (NewConcurrentMap n :: 'v ConcurrentMap)"
    using cm_ok_New unfolding cm_ok_def by blast
  then have "HashKey k mod cm_size (NewConcurrentMap n :: 'v ConcurrentMap)
      < cm_size (NewConcurrentMap n :: 'v ConcurrentMap)" by (rule mod_less_divisor)
  then show ?thesis
    by (simp add: cm_Get_def cm_getShard_def cm_getKeyPos_def NewConcurrentMap_def Let_def)
qed

lemma cm_pos: "cm_ok m \<Longrightarrow> cm_getKeyPos m k < length (table m)"
  by (simp add: cm_ok_def cm_getKeyPos_def)

lemma cm_shard_ok: "cm_ok m \<Longrightarrow> gm_ok (cm_getShard m k)"
  by (simp add: cm_ok_def cm_getShard_def cm_getKeyPos_def)

lemma sum_list_length_update:
  "i < length xs \<Longrightarrow> int (sum_list (map length (xs[i := y]))) =
     int (sum_list (map length xs)) + int (length y) - int (length (xs ! i))"
  by (induction xs arbitrary: i) (auto split: nat.split)

text \<open>Replacing the shard of a key by one with the same or fewer keys, or that key added.\<close>

lemma cm_ok_put_shard:
  assumes "cm_ok m" and "gm_ok sh" and "dom (map_of sh) \<subseteq> insert key (dom (map_of (cm_getShard m key)))"
    and "c = cm_count m + int (length sh) - int (length (cm_getShard m key))"
  shows "cm_ok ((put_shard m key sh)\<lparr>cm_count := c\<rparr>)"
proof -
  let ?p = "cm_getKeyPos m key"
  have p: "?p < length (table m)" by (rule cm_pos [OF assms(1)])
  have keys: "\<forall>k \<in> dom (map_of sh). HashKey k mod cm_size m = ?p"
  proof
    fix k assume "k \<in> dom (map_of sh)"
    with assms(3) consider "k = key" | "k \<in> dom (map_of (table m ! ?p))"
      by (auto simp: cm_getShard_def)
    then show "HashKey k mod cm_size m = ?p"
    proof cases
      case 2
      with assms(1) p show ?thesis unfolding cm_ok_def by metis
    qed (simp add: cm_getKeyPos_def)
  qed
  show ?thesis
    using assms(1,2,4) keys p sum_list_length_update [OF p, of sh]
    by (auto simp: cm_ok_def put_shard_def cm_getShard_def nth_list_update)
qed

lemma cm_Get_put_shard:
  assumes "cm_ok m" and "dom (map_of sh) \<subseteq> insert key (dom (map_of (cm_getShard m key)))"
    and "\<And>k. k \<noteq> key \<Longrightarrow> map_of sh k = map_of (cm_getShard m key) k"
  shows "cm_Get ((put_shard m key sh)\<lparr>cm_count := c\<rparr>) = (cm_Get m)(key := map_of sh key)"
proof
  fix k
  have p: "cm_getKeyPos m key < length (table m)" by (rule cm_pos [OF assms(1)])
  show "cm_Get ((put_shard m key sh)\<lparr>cm_count := c\<rparr>) k = ((cm_Get m)(key := map_of sh key)) k"
    using p assms(3) [of k]
    by (cases "cm_getKeyPos m k = cm_getKeyPos m key")
      (auto simp: cm_Get_def cm_getShard_def put_shard_def cm_getKeyPos_def)
qed

lemma put_shard_count [simp]:
  "put_shard (m\<lparr>cm_count := c\<rparr>) key sh = (put_shard m key sh)\<lparr>cm_count := c\<rparr>"
  "(put_shard m key sh)\<lparr>cm_count := cm_count m\<rparr> = put_shard m key sh"
  "cm_count (put_shard m key sh) = cm_count m"
  by (simp_all add: put_shard_def cm_getKeyPos_def)

lemma cm_Set_eq:
  "cm_Set m key value =
     ((put_shard m key (AList.update key value (cm_getShard m key)))
        \<lparr>cm_count := cm_count m + (if cm_Get m key = None then 1 else 0)\<rparr>,
      if cm_Get m key = None then 1 else 0)"
  by (simp add: cm_Set_def cm_Get_def Let_def)

lemma cm_Delete_eq:
  "cm_Delete m key =
     (if cm_Get m key = None then (m, 0)
      else ((put_shard m key (AList.delete key (cm_getShard m key)))\<lparr>cm_count := cm_count m - 1\<rparr>, 1))"
  by (simp add: cm_Delete_def cm_Get_def Let_def)

lemma cm_Set_added: "snd (cm_Set m k v) = (if cm_Get m k = None then 1 else 0)"
  by (simp add: cm_Set_eq)

lemma cm_Delete_removed: "snd (cm_Delete m k) = (if cm_Get m k = None then 0 else 1)"
  by (simp add: cm_Delete_eq)

lemma cm_ok_Set: "cm_ok m \<Longrightarrow> cm_ok (cm_put m k v)"
  unfolding cm_Set_eq fst_conv
  by (rule cm_ok_put_shard) (simp_all add: cm_shard_ok length_update_gm cm_Get_def)

lemma cm_ok_Delete: "cm_ok m \<Longrightarrow> cm_ok (cm_del m k)"
proof (cases "cm_Get m k = None")
  case False
  assume m: "cm_ok m"
  have "int (length (AList.delete k (cm_getShard m k))) + 1 = int (length (cm_getShard m k))"
    using length_delete_gm [OF cm_shard_ok [OF m], of k k] False by (simp add: cm_Get_def del: not_None_eq)
  then show ?thesis
    using False m unfolding cm_Delete_eq
    by (simp del: not_None_eq) (rule cm_ok_put_shard, auto simp: cm_shard_ok)
qed (simp add: cm_Delete_eq)

lemma cm_Get_Set: "cm_ok m \<Longrightarrow> cm_Get (cm_put m k v) = (cm_Get m)(k \<mapsto> v)"
  unfolding cm_Set_eq fst_conv
  by (subst cm_Get_put_shard) auto

lemma cm_Get_Delete: "cm_ok m \<Longrightarrow> cm_Get (cm_del m k) = (cm_Get m)(k := None)"
proof (cases "cm_Get m k = None")
  case False
  assume "cm_ok m"
  with False show ?thesis unfolding cm_Delete_eq
    by (simp del: fun_upd_apply) (subst cm_Get_put_shard, auto)
qed (auto simp: cm_Delete_eq)

section \<open>The keys of all shards\<close>

lemma cm_shard_at:
  assumes "cm_ok m" and "i < length (table m)" and "k \<in> dom (map_of (table m ! i))"
  shows "cm_getKeyPos m k = i"
  using assms unfolding cm_ok_def cm_getKeyPos_def by metis

lemma cm_dom: "cm_ok m \<Longrightarrow> dom (cm_Get m) = set (map fst (concat (table m)))"
proof -
  assume m: "cm_ok m"
  have "k \<in> dom (cm_Get m) \<longleftrightarrow> (\<exists>sh \<in> set (table m). k \<in> fst ` set sh)" for k
  proof
    assume "k \<in> dom (cm_Get m)"
    then have "k \<in> fst ` set (table m ! cm_getKeyPos m k)"
      by (simp add: cm_Get_def cm_getShard_def domIff map_of_eq_None_iff)
    then show "\<exists>sh \<in> set (table m). k \<in> fst ` set sh"
      using nth_mem [OF cm_pos [OF m, of k]] by blast
  next
    assume "\<exists>sh \<in> set (table m). k \<in> fst ` set sh"
    then obtain i where "i < length (table m)" "k \<in> dom (map_of (table m ! i))"
      by (metis dom_map_of_conv_image_fst in_set_conv_nth)
    with cm_shard_at [OF m this] show "k \<in> dom (cm_Get m)"
      by (auto simp: cm_Get_def cm_getShard_def)
  qed
  then show ?thesis by (simp add: set_eq_iff image_UN)
qed

lemma distinct_concat_shards:
  assumes "\<forall>i < length xss. distinct (xss ! i)"
    and "\<forall>i < length xss. \<forall>j < length xss. i \<noteq> j \<longrightarrow> set (xss ! i) \<inter> set (xss ! j) = {}"
  shows "distinct (concat xss)"
  using assms
proof (induction xss)
  case (Cons xs xss)
  have "distinct (concat xss)"
    using Cons.prems by (intro Cons.IH) (metis Suc_less_eq length_Cons nat.inject nth_Cons_Suc)+
  moreover have "set xs \<inter> set ys = {}" if "ys \<in> set xss" for ys
  proof -
    from that obtain j where "j < length xss" "ys = xss ! j" by (auto simp: in_set_conv_nth)
    then show ?thesis using Cons.prems(2) [rule_format, of 0 "Suc j"] by simp
  qed
  moreover have "distinct xs" using Cons.prems(1) by (auto dest: spec [of _ 0])
  ultimately show ?case by auto
qed simp

lemma cm_distinct: "cm_ok m \<Longrightarrow> distinct (map fst (concat (table m)))"
proof -
  assume m: "cm_ok m"
  have "distinct (concat (map (map fst) (table m)))"
  proof (rule distinct_concat_shards; intro allI impI)
    fix i assume "i < length (map (map fst) (table m))"
    with m show "distinct (map (map fst) (table m) ! i)" by (simp add: cm_ok_def gm_ok_def)
  next
    fix i j assume ij: "i < length (map (map fst) (table m))" "j < length (map (map fst) (table m))" "i \<noteq> j"
    have "dom (map_of (table m ! i)) \<inter> dom (map_of (table m ! j)) = {}"
      using cm_shard_at [OF m, of i] cm_shard_at [OF m, of j] ij by auto
    with ij show "set (map (map fst) (table m) ! i) \<inter> set (map (map fst) (table m) ! j) = {}"
      by (simp add: dom_map_of_conv_image_fst)
  qed
  then show ?thesis by (simp add: map_concat)
qed

lemma cm_finite: "cm_ok m \<Longrightarrow> finite (dom (cm_Get m))"
  by (simp add: cm_dom)

lemma cm_Len_card: "cm_ok m \<Longrightarrow> cm_Len m = int (card (dom (cm_Get m)))"
  using distinct_card [OF cm_distinct, of m]
  by (simp add: cm_dom cm_Len_def cm_ok_def length_concat)

interpretation cm: kv_map cm_Get cm_put cm_del cm_Len cm_ok
  by unfold_locales
    (simp_all add: cm_Get_Set cm_Get_Delete cm_ok_Set cm_ok_Delete cm_finite cm_Len_card)

lemmas cm_simps [simp] =
  cm.get_put cm.get_del cm.inv_put cm.inv_del cm_Set_added cm_Delete_removed

lemma cm_SetIfNotExist_eq:
  "cm_SetIfNotExist m k v = (if cm_Get m k = None then cm_Set m k v else (m, 0))"
  by (simp add: cm_SetIfNotExist_def cm_Set_def cm_Get_def Let_def)

lemma cm_SetIfExist_eq:
  "cm_SetIfExist m k v = (if cm_Get m k = None then (m, 0) else (cm_put m k v, 1))"
  by (auto simp: cm_SetIfExist_def cm_Set_def cm_Get_def Let_def)

text \<open>An entry is not lost by setting the value of a key to the value it has.\<close>

lemma cm_put_same: "cm_ok m \<Longrightarrow> cm_Get m k = Some v \<Longrightarrow> cm_Get (cm_put m k v) = cm_Get m"
  by (simp add: fun_upd_idem)

section \<open>Keys and KeyVals\<close>

lemma mset_iter_shards:
  assumes "iter_ok e"
  shows "mset (concat (map (\<lambda>(j, sh). iter e j (map fst sh)) (enumerate n shs))) =
    mset (map fst (concat shs))"
  using assms by (induction shs arbitrary: n) (auto simp: iter_ok_def)

lemma cm_Keys_correct:
  assumes "iter_ok e" and "cm_ok m"
  obtains ks where "cm_Keys e m = Some ks" and "distinct ks" and "set ks = dom (cm_Get m)"
    and "int (length ks) = cm_Len m"
proof -
  let ?ks = "concat (map (\<lambda>(j, sh). iter e j (map fst sh)) (enumerate 0 (table m)))"
  have eq: "mset ?ks = mset (map fst (concat (table m)))" by (rule mset_iter_shards [OF assms(1)])
  then have len: "int (length ?ks) = cm_count m"
    using assms(2) mset_eq_length [OF eq] by (simp add: cm_ok_def length_concat)
  show ?thesis
  proof (rule that [of ?ks])
    show "cm_Keys e m = Some ?ks"
      using len unfolding cm_Keys_def Let_def by (simp flip: len)
    show "distinct ?ks"
      using cm_distinct [OF assms(2)] mset_eq_imp_distinct_iff [OF eq] by simp
    show "set ?ks = dom (cm_Get m)"
      using mset_eq_setD [OF eq] by (simp add: cm_dom [OF assms(2)])
    show "int (length ?ks) = cm_Len m" using len by (simp add: cm_Len_def)
  qed
qed

lemma foldl_update: "map_of (foldl (\<lambda>res (k, v). AList.update k v res) acc kvs) = map_of acc ++ map_of (rev kvs)"
  by (induction kvs arbitrary: acc) (auto simp: map_add_def fun_eq_iff split: option.splits)

lemma cm_KeyVals_correct:
  assumes "cm_ok m"
  shows "map_of (cm_KeyVals m) = cm_Get m"
proof
  fix k
  let ?kvs = "concat (table m)"
  have d: "distinct (map fst ?kvs)" by (rule cm_distinct [OF assms])
  then have "map_of (cm_KeyVals m) = map_of ?kvs"
    unfolding cm_KeyVals_def foldl_update
    using map_of_inject_set [of "rev ?kvs" ?kvs] by (simp flip: rev_map)
  moreover have "map_of ?kvs k = cm_Get m k"
  proof (cases "cm_Get m k")
    case None
    then show ?thesis using cm_dom [OF assms] by (metis domIff dom_map_of_conv_image_fst set_map)
  next
    case (Some v)
    then have "(k, v) \<in> set ?kvs"
      using cm_pos [OF assms, of k] by (auto simp: cm_Get_def cm_getShard_def dest!: map_of_SomeD)
    then show ?thesis using d Some by simp
  qed
  ultimately show "map_of (cm_KeyVals m) k = cm_Get m k" by simp
qed

lemma cm_Clear_correct: "cm_ok m \<Longrightarrow> cm_ok (cm_Clear m) \<and> cm_Get (cm_Clear m) = Map.empty"
  by (simp add: cm_Clear_def fun_eq_iff)

end
