(* ===== verification/Resp.thy ===== *)
theory Resp
  imports Prelude
begin

text \<open>
  The serialization protocol of \<open>src/resp\<close>: the reply values and their printing
  (\<open>structure.go\<close>) and the stream parser (\<open>parser.go\<close>), which turns the bytes of a
  connection into a list of parsed values and errors.
\<close>

section \<open>Reply values\<close>

text \<open>
  The implementations of the interface \<open>RedisData\<close>. The slice of \<open>BulkData\<close> and of
  \<open>ArrayData\<close> can be nil.
\<close>

datatype RedisData =
    StringData string
  | BulkData slice
  | IntData int
  | ErrorData string
  | ArrayData "RedisData list option"
  | PlainData string

abbreviation MakeBulkData :: "slice \<Rightarrow> RedisData" where "MakeBulkData \<equiv> BulkData"
abbreviation MakeStringData :: "string \<Rightarrow> RedisData" where "MakeStringData \<equiv> StringData"
abbreviation MakeIntData :: "int \<Rightarrow> RedisData" where "MakeIntData \<equiv> IntData"
abbreviation MakeArrayData :: "RedisData list \<Rightarrow> RedisData" where "MakeArrayData xs \<equiv> ArrayData (Some xs)"

definition MakeErrorData :: "string list \<Rightarrow> RedisData" where
  "MakeErrorData data = ErrorData (concat data)"

definition MakeWrongType :: RedisData where
  "MakeWrongType = ErrorData ''WRONGTYPE Operation against a key holding the wrong kind of value''"

definition MakeWrongNumberArgs :: "string \<Rightarrow> RedisData" where
  "MakeWrongNumberArgs name = ErrorData (''ERR wrong number of arguments for '' @ [CHR 0x27] @ name @ [CHR 0x27] @ '' command'')"

definition MakeEmptyArrayData :: RedisData where
  "MakeEmptyArrayData = ArrayData (Some [])"

abbreviation CR :: char where "CR \<equiv> CHR 0x0D"
abbreviation LF :: char where "LF \<equiv> CHR 0x0A"
abbreviation CRLF :: string where "CRLF \<equiv> [CR, LF]"

fun ToBytes :: "RedisData \<Rightarrow> string" where
  "ToBytes (StringData s) = ''+'' @ s @ CRLF"
| "ToBytes (BulkData None) = ''$-1'' @ CRLF"
| "ToBytes (BulkData (Some b)) = ''$'' @ Itoa (int (length b)) @ CRLF @ b @ CRLF"
| "ToBytes (IntData i) = '':'' @ FormatInt i @ CRLF"
| "ToBytes (ErrorData s) = ''-'' @ s @ CRLF"
| "ToBytes (ArrayData None) = ''*-1'' @ CRLF"
| "ToBytes (ArrayData (Some xs)) = ''*'' @ Itoa (int (length xs)) @ CRLF @ concat (map ToBytes xs)"
| "ToBytes (PlainData s) = s @ CRLF"

fun ByteData :: "RedisData \<Rightarrow> slice" where
  "ByteData (StringData s) = Some s"
| "ByteData (BulkData b) = b"
| "ByteData (IntData i) = Some (FormatInt i)"
| "ByteData (ErrorData s) = Some s"
| "ByteData (ArrayData None) = Some []"
| "ByteData (ArrayData (Some xs)) = Some (concat (map (\<lambda>v. str (ByteData v)) xs))"
| "ByteData (PlainData s) = Some s"

text \<open>\<open>ArrayData.ToCommand\<close> and \<open>ArrayData.ToStringCommand\<close>; ranging over a nil slice visits nothing.\<close>

definition ToCommand :: "RedisData list option \<Rightarrow> cmdBytes" where
  "ToCommand xs = (case xs of None \<Rightarrow> [] | Some vs \<Rightarrow> map ByteData vs)"

definition ToStringCommand :: "RedisData list option \<Rightarrow> string list" where
  "ToStringCommand xs = (case xs of None \<Rightarrow> [] | Some vs \<Rightarrow> map (\<lambda>v. str (ByteData v)) vs)"

text \<open>The method \<open>String\<close> of each implementation.\<close>

definition String_of :: "RedisData \<Rightarrow> string" where
  "String_of d = (case d of ArrayData xs \<Rightarrow> Join (CHR '' '') (ToStringCommand xs) | _ \<Rightarrow> str (ByteData d))"

section \<open>The parser\<close>

datatype perr = io_EOF | io_ErrUnexpectedEOF | errors_New string | NumError string

datatype ParsedRes = PData RedisData | PErr perr

record readState =
  bulkLen :: int
  arrayLen :: int
  multiLine :: bool
  arrayData :: "RedisData list"
  inArray :: bool

definition readState0 :: readState where
  "readState0 = \<lparr>bulkLen = 0, arrayLen = 0, multiLine = False, arrayData = [], inArray = False\<rparr>"

lemma readState0_simps [simp]:
  "bulkLen readState0 = 0" "arrayLen readState0 = 0" "\<not> multiLine readState0"
  "arrayData readState0 = []" "\<not> inArray readState0"
  by (simp_all add: readState0_def)

text \<open>
  \<open>make([]byte, n)\<close> panics when the length is negative or larger than the address space
  (\<open>maxAlloc\<close> of the Go runtime on 64-bit machines). A length that overflows is negative
  and panics too, so the sum \<open>bulkLen + 2\<close> below needs no wrap-around.
\<close>

definition maxAlloc :: int where "maxAlloc = 2 ^ 48"

definition make_ok :: "int \<Rightarrow> bool" where
  "make_ok n \<longleftrightarrow> 0 \<le> n \<and> n \<le> maxAlloc"

text \<open>The outcome of \<open>readLine\<close> on the bytes that the peer has still to send before it closes.\<close>

datatype line_res = LPanic | LErr perr | LMsg string

text \<open>\<open>bufio.Reader.ReadBytes\<close> up to and including a line feed; \<open>None\<close> is the end of input.\<close>

definition ReadBytes :: "string \<Rightarrow> (string \<times> string) option" where
  "ReadBytes inp = (let l = takeWhile (\<lambda>c. c \<noteq> LF) inp in
     if length l < length inp then Some (l @ [LF], drop (Suc (length l)) inp) else None)"

definition invalid_msg :: "string \<Rightarrow> perr" where
  "invalid_msg msg = errors_New (''Protocol error. Stream message '' @ msg @ '' is invalid.'')"

definition readLine :: "readState \<Rightarrow> string \<Rightarrow> line_res \<times> readState \<times> string" where
  "readLine st inp =
     (if multiLine st \<and> bulkLen st \<ge> 0 then
        (let n = bulkLen st + 2 in
         if \<not> make_ok n then (LPanic, st, inp)
         else if inp = [] then (LErr io_EOF, st, [])
         else if int (length inp) < n then (LErr io_ErrUnexpectedEOF, st, [])
         else let msg = take (nat n) inp; rest = drop (nat n) inp; st' = st\<lparr>bulkLen := 0\<rparr> in
           if msg ! (length msg - 1) \<noteq> LF \<or> msg ! (length msg - 2) \<noteq> CR
           then (LErr (invalid_msg msg), st', rest)
           else (LMsg msg, st', rest))
      else
        (case ReadBytes inp of None \<Rightarrow> (LErr io_EOF, st, [])
         | Some (msg, rest) \<Rightarrow>
             if length msg = 1 then (LPanic, st, rest)
             else if msg ! (length msg - 2) \<noteq> CR then (LErr (invalid_msg msg), st, rest)
             else (LMsg msg, st, rest)))"

text \<open>The bytes of a line between its first byte and its CRLF, \<open>msg[1 : len(msg)-2]\<close>.\<close>

definition line_body :: "string \<Rightarrow> string" where
  "line_body msg = take (length msg - 3) (drop 1 msg)"

definition parseSingleLine :: "string \<Rightarrow> perr + RedisData" where
  "parseSingleLine msg =
     (if length msg < 3 then
        Inl (errors_New ''msg too short, possibly due to a http connection to redis port. '')
      else let msgType = msg ! 0; msgData = line_body msg in
        if msgType = CHR ''+'' then Inr (MakeStringData msgData)
        else if msgType = CHR ''-'' then Inr (MakeErrorData [msgData])
        else if msgType = CHR '':'' then
          (case ParseInt msgData of None \<Rightarrow> Inl (NumError msgData) | Some i \<Rightarrow> Inr (MakeIntData i))
        else Inr (PlainData msgData))"

definition parseMultiLine :: "string \<Rightarrow> perr + RedisData" where
  "parseMultiLine msg =
     (if length msg < 2 then Inl (errors_New ''protocol error: invalid bulk string'')
      else Inr (MakeBulkData (Some (take (length msg - 2) msg))))"

definition parseArrayHeader :: "string \<Rightarrow> readState \<Rightarrow> perr + readState" where
  "parseArrayHeader msg st =
     (case Atoi (line_body msg) of
        None \<Rightarrow> Inl (errors_New (''Protocol error: '' @ msg))
      | Some n \<Rightarrow> if n < 0 then Inl (errors_New (''Protocol error: '' @ msg))
                 else Inr (st\<lparr>arrayLen := n, inArray := True, arrayData := []\<rparr>))"

definition parseBulkHeader :: "string \<Rightarrow> readState \<Rightarrow> perr + readState" where
  "parseBulkHeader msg st =
     (case ParseInt (line_body msg) of
        None \<Rightarrow> Inl (errors_New (''Protocol error: '' @ msg))
      | Some n \<Rightarrow> if n < - 1 then Inl (errors_New (''Protocol error: '' @ msg))
                 else Inr (st\<lparr>bulkLen := n, multiLine := True\<rparr>))"

text \<open>
  The end of the loop body: a value goes into the array under construction, which is sent
  when it is full, or is sent itself.
\<close>

definition deliver :: "readState \<Rightarrow> RedisData \<Rightarrow> ParsedRes list \<times> readState" where
  "deliver st res =
     (if inArray st then
        let xs = arrayData st @ [res] in
        if int (length xs) = arrayLen st then ([PData (ArrayData (Some xs))], readState0)
        else ([], st\<lparr>arrayData := xs\<rparr>)
      else ([PData res], st))"

text \<open>
  One iteration of \<open>parse\<close>. The flag says that the context is cancelled. The result is the
  values sent on the channel and, unless the channel was closed, the state and the input
  that are left; \<open>None\<close> is a panic.
\<close>

definition parse_step ::
  "bool \<Rightarrow> readState \<Rightarrow> string \<Rightarrow> (ParsedRes list \<times> (readState \<times> string) option) option" where
  "parse_step ctxErr st inp =
     (case readLine st inp of
        (LPanic, _, _) \<Rightarrow> None
      | (LErr err, st1, rest) \<Rightarrow>
          if err = io_EOF then Some ([PErr io_EOF], None)
          else if ctxErr then Some ([], None)
          else Some ([PErr err], Some (readState0, rest))
      | (LMsg msg, st1, rest) \<Rightarrow>
          if \<not> multiLine st1 then
            if msg ! 0 = CHR ''*'' then
              (case parseArrayHeader msg st1 of
                 Inl err \<Rightarrow> Some ([PErr err], Some (readState0, rest))
               | Inr st2 \<Rightarrow>
                   if arrayLen st2 = - 1 then Some ([PData (ArrayData None)], Some (readState0, rest))
                   else if arrayLen st2 = 0 then Some ([PData (MakeArrayData [])], Some (readState0, rest))
                   else Some ([], Some (st2, rest)))
            else if msg ! 0 = CHR ''$'' then
              (case parseBulkHeader msg st1 of
                 Inl err \<Rightarrow> Some ([PErr err], Some (readState0, rest))
               | Inr st2 \<Rightarrow>
                   if bulkLen st2 = - 1 then
                     (let (out, st3) = deliver (st2\<lparr>multiLine := False, bulkLen := 0\<rparr>) (MakeBulkData None)
                      in Some (out, Some (st3, rest)))
                   else Some ([], Some (st2, rest)))
            else
              (case parseSingleLine msg of
                 Inl err \<Rightarrow> Some ([PErr err], Some (readState0, rest))
               | Inr res \<Rightarrow> let (out, st3) = deliver st1 res in Some (out, Some (st3, rest)))
          else
            (case parseMultiLine msg of
               Inl err \<Rightarrow> Some ([PErr err], Some (readState0, rest))
             | Inr res \<Rightarrow>
                 let (out, st3) = deliver (st1\<lparr>multiLine := False, bulkLen := 0\<rparr>) res
                 in Some (out, Some (st3, rest))))"

lemma ReadBytes_shorter: "ReadBytes inp = Some (msg, rest) \<Longrightarrow> length rest < length inp"
  by (auto simp: ReadBytes_def Let_def split: if_splits)

lemma readLine_shorter:
  "readLine st inp = (r, st', rest) \<Longrightarrow> r \<noteq> LPanic \<Longrightarrow> r \<noteq> LErr io_EOF \<Longrightarrow> length rest < length inp"
  by (auto simp: readLine_def Let_def make_ok_def invalid_msg_def dest: ReadBytes_shorter
      split: if_splits option.splits)

lemma parse_step_shorter:
  assumes "parse_step c st inp = Some (out, Some (st', rest))"
  shows "length rest < length inp"
proof -
  obtain r st1 rest1 where rl: "readLine st inp = (r, st1, rest1)" by (cases "readLine st inp") auto
  have "rest1 = rest \<and> r \<noteq> LPanic \<and> r \<noteq> LErr io_EOF"
    using assms unfolding parse_step_def rl
    by (auto split: line_res.splits if_splits sum.splits prod.splits)
  with readLine_shorter [OF rl] show ?thesis by simp
qed

text \<open>
  The goroutine \<open>parse\<close> over the bytes that a client sends before it closes the connection:
  everything sent on the channel, in order.
\<close>

function parse :: "bool \<Rightarrow> readState \<Rightarrow> string \<Rightarrow> ParsedRes list option" where
  "parse c st inp =
     (case parse_step c st inp of
        None \<Rightarrow> None
      | Some (out, None) \<Rightarrow> Some out
      | Some (out, Some (st', rest)) \<Rightarrow> map_option ((@) out) (parse c st' rest))"
  by pat_completeness simp_all
termination
  by (relation "measure (\<lambda>(c, st, inp). length inp)") (auto dest: parse_step_shorter)

declare parse.simps [simp del]

definition ParseStream :: "bool \<Rightarrow> string \<Rightarrow> ParsedRes list option" where
  "ParseStream ctxErr inp = parse ctxErr readState0 inp"

section \<open>Round trip\<close>

text \<open>
  A value that takes one element of a command: a bulk string of any bytes (or nil), an
  integer, a string or an error without a line feed. These are what a RESP client sends
  and what the commands reply.
\<close>

fun flat :: "RedisData \<Rightarrow> bool" where
  "flat (BulkData None) = True"
| "flat (BulkData (Some b)) = (int (length b) + 2 \<le> maxAlloc)"
| "flat (IntData i) = in64 i"
| "flat (StringData s) = (LF \<notin> set s)"
| "flat (ErrorData s) = (LF \<notin> set s)"
| "flat (ArrayData xs) = False"
| "flat (PlainData s) = False"

lemma in64_length: "int n \<le> maxAlloc \<Longrightarrow> in64 (int n)"
  by (simp add: maxAlloc_def in64_def)

lemma ReadBytes_line:
  "LF \<notin> set l \<Longrightarrow> ReadBytes (l @ LF # rest) = Some (l @ [LF], rest)"
proof -
  assume "LF \<notin> set l"
  then have "takeWhile (\<lambda>c. c \<noteq> LF) (l @ LF # rest) = l" by (induction l) auto
  then show ?thesis by (simp add: ReadBytes_def)
qed

lemma readLine_line:
  assumes "\<not> multiLine st" and "LF \<notin> set l"
  shows "readLine st (l @ CR # LF # rest) = (LMsg (l @ CRLF), st, rest)"
proof -
  have "ReadBytes (l @ CR # LF # rest) = Some (l @ CRLF, rest)"
    using ReadBytes_line [of "l @ [CR]" rest] assms(2) by simp
  with assms(1) show ?thesis by (simp add: readLine_def nth_append)
qed

lemma line_body_line: "line_body (t # l @ CRLF) = l"
  by (simp add: line_body_def)

lemma LF_FormatInt: "LF \<notin> set (FormatInt i)"
  by (auto simp: FormatInt_def dest: fmt_nat_digits)

lemma parse_step_header:
  assumes "\<not> multiLine st" and "int n \<le> maxAlloc" and "n \<noteq> 0"
  shows "parse_step c st (CHR ''*'' # Itoa (int n) @ CR # LF # rest) =
    Some ([], Some (st\<lparr>arrayLen := int n, inArray := True, arrayData := []\<rparr>, rest))"
proof -
  have "readLine st (CHR ''*'' # Itoa (int n) @ CR # LF # rest) =
      (LMsg (CHR ''*'' # Itoa (int n) @ CRLF), st, rest)"
    using readLine_line [OF assms(1), of "CHR ''*'' # Itoa (int n)" rest] LF_FormatInt by simp
  with assms show ?thesis
    by (simp add: parse_step_def parseArrayHeader_def line_body_line in64_length)
qed

lemma parse_step_bulk_header:
  assumes "\<not> multiLine st" and "int n \<le> maxAlloc"
  shows "parse_step c st (CHR ''$'' # Itoa (int n) @ CR # LF # rest) =
    Some ([], Some (st\<lparr>bulkLen := int n, multiLine := True\<rparr>, rest))"
proof -
  have "readLine st (CHR ''$'' # Itoa (int n) @ CR # LF # rest) =
      (LMsg (CHR ''$'' # Itoa (int n) @ CRLF), st, rest)"
    using readLine_line [OF assms(1), of "CHR ''$'' # Itoa (int n)" rest] LF_FormatInt by simp
  with assms show ?thesis
    by (simp add: parse_step_def parseBulkHeader_def line_body_line in64_length)
qed

lemma parse_step_bulk_body:
  assumes "multiLine st" and "bulkLen st = int (length b)" and "int (length b) + 2 \<le> maxAlloc"
  shows "parse_step c st (b @ CR # LF # rest) =
    (let (out, st3) = deliver (st\<lparr>multiLine := False, bulkLen := 0\<rparr>) (BulkData (Some b))
     in Some (out, Some (st3, rest)))"
proof -
  have n: "nat (int (length b) + 2) = length b + 2" by simp
  have "readLine st (b @ CR # LF # rest) = (LMsg (b @ CRLF), st\<lparr>bulkLen := 0\<rparr>, rest)"
    using assms by (simp add: readLine_def make_ok_def n nth_append Let_def)
  with assms show ?thesis by (simp add: parse_step_def parseMultiLine_def Let_def)
qed

lemma parse_step_simple:
  assumes "\<not> multiLine st" and "LF \<notin> set l" and "t \<noteq> CHR ''*''" and "t \<noteq> CHR ''$''" and "t \<noteq> LF"
  shows "parse_step c st (t # l @ CR # LF # rest) =
    (case parseSingleLine (t # l @ CRLF) of
       Inl err \<Rightarrow> Some ([PErr err], Some (readState0, rest))
     | Inr res \<Rightarrow> let (out, st3) = deliver st res in Some (out, Some (st3, rest)))"
proof -
  have "readLine st (t # l @ CR # LF # rest) = (LMsg (t # l @ CRLF), st, rest)"
    using readLine_line [OF assms(1), of "t # l" rest] assms by simp
  with assms show ?thesis by (simp add: parse_step_def)
qed

lemma parse_step_nil_bulk:
  assumes "\<not> multiLine st"
  shows "parse_step c st (ToBytes (BulkData None) @ rest) =
    (let (out, st3) = deliver (st\<lparr>bulkLen := 0\<rparr>) (BulkData None)
     in Some (out, Some (st3, rest)))"
proof -
  have "readLine st (''$-1'' @ CR # LF # rest) = (LMsg (''$-1'' @ CRLF), st, rest)"
    using readLine_line [OF assms, of "''$-1''" rest] by simp
  moreover have "ParseInt (line_body (''$-1'' @ CRLF)) = Some (- 1)"
    by (simp add: line_body_def ParseInt_def parse_nat_def is_digit_def digit_val_def in64_def)
  ultimately show ?thesis
    using assms by (simp add: parse_step_def parseBulkHeader_def deliver_def Let_def)
qed

text \<open>Reading one element: the bytes of a flat value deliver that value.\<close>

lemma parse_flat:
  assumes "flat x" and "\<not> multiLine st" and "bulkLen st = 0"
  shows "parse c st (ToBytes x @ rest) =
    (let (out, st') = deliver st x in map_option ((@) out) (parse c st' rest))"
proof -
  have st: "st\<lparr>multiLine := False, bulkLen := 0\<rparr> = st" "st\<lparr>bulkLen := 0\<rparr> = st"
    using assms(2,3) by (cases st; simp)+
  show ?thesis
  proof (cases x)
    case (StringData s)
    then show ?thesis
      using assms parse_step_simple [of st s "CHR ''+''" c rest]
      by (simp add: parse.simps [of c st] parseSingleLine_def line_body_line Let_def split: prod.split)
  next
    case (ErrorData s)
    then show ?thesis
      using assms parse_step_simple [of st s "CHR ''-''" c rest]
      by (simp add: parse.simps [of c st] parseSingleLine_def MakeErrorData_def line_body_line Let_def split: prod.split)
  next
    case (IntData i)
    then show ?thesis
      using assms parse_step_simple [of st "FormatInt i" "CHR '':''" c rest] LF_FormatInt [of i]
      by (simp add: parse.simps [of c st] parseSingleLine_def line_body_line Let_def split: prod.split)
  next
    case (BulkData d)
    show ?thesis
    proof (cases d)
      case None
      with BulkData assms parse_step_nil_bulk [of st c rest] st show ?thesis
        by (simp add: parse.simps [of c st] Let_def split: prod.split)
    next
      case (Some b)
      let ?st1 = "st\<lparr>bulkLen := int (length b), multiLine := True\<rparr>"
      have b: "int (length b) \<le> maxAlloc" "int (length b) + 2 \<le> maxAlloc"
        using assms(1) BulkData Some by simp_all
      have st1: "?st1\<lparr>multiLine := False, bulkLen := 0\<rparr> = st" using st(1) by simp
      have "parse c st (ToBytes x @ rest) = parse c ?st1 (b @ CR # LF # rest)"
        using parse_step_bulk_header [OF assms(2) b(1), of c "b @ CR # LF # rest"] BulkData Some
        by (simp add: parse.simps [of c st])
      also have "\<dots> = (let (out, st') = deliver st x in map_option ((@) out) (parse c st' rest))"
        using parse_step_bulk_body [of ?st1 b c rest] b st1 BulkData Some
        by (simp add: parse.simps [of c ?st1] Let_def split: prod.split)
      finally show ?thesis .
    qed
  qed (use assms in simp_all)
qed

text \<open>Reading the elements of an array, with those read so far in the state.\<close>

lemma parse_array:
  assumes "list_all flat xs" and "xs \<noteq> []" and "\<not> multiLine st" and "bulkLen st = 0"
    and "inArray st" and "arrayLen st = int (length (arrayData st) + length xs)"
  shows "parse c st (concat (map ToBytes xs) @ rest) =
    map_option ((#) (PData (ArrayData (Some (arrayData st @ xs))))) (parse c readState0 rest)"
  using assms
proof (induction xs arbitrary: st)
  case (Cons x xs)
  have p: "parse c st (concat (map ToBytes (x # xs)) @ rest) =
      (let (out, st') = deliver st x in map_option ((@) out) (parse c st' (concat (map ToBytes xs) @ rest)))"
    using parse_flat [of x st c "concat (map ToBytes xs) @ rest"] Cons.prems by simp
  show ?case
  proof (cases "xs = []")
    case True
    with p Cons.prems show ?thesis
      by (simp add: deliver_def Let_def)
  next
    case False
    let ?st = "st\<lparr>arrayData := arrayData st @ [x]\<rparr>"
    have "deliver st x = ([], ?st)" using Cons.prems False by (simp add: deliver_def Let_def)
    with p have "parse c st (concat (map ToBytes (x # xs)) @ rest) =
        parse c ?st (concat (map ToBytes xs) @ rest)"
      by simp
    also have "\<dots> = map_option ((#) (PData (ArrayData (Some (arrayData ?st @ xs))))) (parse c readState0 rest)"
      using Cons.prems False by (intro Cons.IH) simp_all
    finally show ?thesis by simp
  qed
qed simp

text \<open>The values the protocol carries: a flat value or an array of flat values.\<close>

fun wire :: "RedisData \<Rightarrow> bool" where
  "wire (ArrayData (Some xs)) = (list_all flat xs \<and> int (length xs) \<le> maxAlloc)"
| "wire x = flat x"

lemma parse_wire:
  assumes "wire x"
  shows "parse c readState0 (ToBytes x @ rest) = map_option ((#) (PData x)) (parse c readState0 rest)"
proof (cases "\<exists>xs. x = ArrayData (Some xs)")
  case True
  then obtain xs where x: "x = ArrayData (Some xs)" by blast
  have st0: "\<not> multiLine readState0" by (simp add: readState0_def)
  show ?thesis
  proof (cases "xs = []")
    case True
    have "readLine readState0 (''*0'' @ CR # LF # rest) = (LMsg (''*0'' @ CRLF), readState0, rest)"
      using readLine_line [OF st0, of "''*0''" rest] by simp
    moreover have "Atoi (line_body (''*0'' @ CRLF)) = Some 0"
      by (simp add: line_body_def ParseInt_def parse_nat_def is_digit_def digit_val_def in64_def)
    ultimately have "parse_step c readState0 (''*0'' @ CR # LF # rest) =
        Some ([PData x], Some (readState0, rest))"
      using x True st0 by (simp add: parse_step_def parseArrayHeader_def)
    moreover have "Itoa 0 = ''0''" by code_simp
    ultimately show ?thesis using x True by (simp add: parse.simps [of c readState0 "_ # _"])
  next
    case False
    let ?st = "readState0\<lparr>arrayLen := int (length xs), inArray := True, arrayData := []\<rparr>"
    have "parse c readState0 (ToBytes x @ rest) = parse c ?st (concat (map ToBytes xs) @ rest)"
      using parse_step_header [OF st0, of "length xs" c "concat (map ToBytes xs) @ rest"] assms x False
      by (simp add: parse.simps [of c readState0])
    also have "\<dots> = map_option ((#) (PData (ArrayData (Some (arrayData ?st @ xs))))) (parse c readState0 rest)"
      using assms x False by (intro parse_array) (simp_all add: readState0_def)
    finally show ?thesis using x by simp
  qed
next
  case False
  with assms have "flat x" by (cases x rule: wire.cases) auto
  then show ?thesis
    using parse_flat [of x readState0 c rest]
    by (simp add: readState0_def deliver_def)
qed

lemma ParseStream_wires:
  assumes "list_all wire ds"
  shows "ParseStream c (concat (map ToBytes ds)) = Some (map PData ds @ [PErr io_EOF])"
  using assms
proof (induction ds)
  case Nil
  show ?case
    by (simp add: ParseStream_def parse.simps parse_step_def readLine_def ReadBytes_def readState0_def)
next
  case (Cons d ds)
  then show ?case by (simp add: ParseStream_def parse_wire)
qed



section \<open>Errors, end of input and panics\<close>

lemma parse_step_EOF:
  assumes "parse_step False st inp = Some (out, k)"
  shows "(k = None \<longrightarrow> out = [PErr io_EOF]) \<and> (k \<noteq> None \<longrightarrow> PErr io_EOF \<notin> set out)"
proof -
  obtain r st1 rest where rl: "readLine st inp = (r, st1, rest)" by (cases "readLine st inp") auto
  have d: "PErr io_EOF \<notin> set (fst (deliver s x))" for s x by (simp add: deliver_def Let_def)
  show ?thesis
  proof (cases r)
    case (LMsg msg)
    then show ?thesis
      using assms d unfolding parse_step_def rl
      by (auto simp: parseArrayHeader_def parseBulkHeader_def parseSingleLine_def parseMultiLine_def
            Let_def split: if_split_asm option.split_asm sum.split_asm prod.split_asm)
        (metis fst_conv)+
  qed (use assms rl in \<open>auto simp: parse_step_def split: if_split_asm\<close>)
qed

lemma parse_EOF_last:
  "parse False st inp = Some out \<Longrightarrow> \<exists>out'. out = out' @ [PErr io_EOF] \<and> PErr io_EOF \<notin> set out'"
proof (induction "length inp" arbitrary: st inp out rule: less_induct)
  case less
  obtain out1 k where ps: "parse_step False st inp = Some (out1, k)"
    using less.prems by (auto simp: parse.simps [of False st inp] split: option.split_asm)
  show ?case
  proof (cases k)
    case None
    with ps less.prems parse_step_EOF [OF ps] show ?thesis
      by (simp add: parse.simps [of False st inp])
  next
    case (Some sr)
    obtain st' rest where sr: "sr = (st', rest)" by (cases sr)
    obtain out2 where out2: "parse False st' rest = Some out2" "out = out1 @ out2"
      using less.prems ps Some sr by (auto simp: parse.simps [of False st inp])
    have "length rest < length inp" using parse_step_shorter ps Some sr by blast
    from less.hyps [OF this out2(1)] obtain out' where
      "out2 = out' @ [PErr io_EOF]" "PErr io_EOF \<notin> set out'" by blast
    moreover have "PErr io_EOF \<notin> set out1" using parse_step_EOF [OF ps] Some by simp
    ultimately show ?thesis using out2(2) by (intro exI [of _ "out1 @ out'"]) simp
  qed
qed



text \<open>
  A line that consists of a line feed only makes the parser index position \<open>-1\<close>: whoever
  sends one byte can end the server.
\<close>

theorem parse_bare_LF_panics: "ParseStream c (LF # rest) = None"
  by (simp add: ParseStream_def parse.simps [of c readState0] parse_step_def readLine_def
      ReadBytes_def)

text \<open>A bulk length that the runtime cannot allocate.\<close>

theorem parse_huge_bulk_panics:
  assumes "maxAlloc < n + 2" and "in64 n"
  shows "ParseStream c (''$'' @ Itoa n @ CRLF @ rest) = None"
proof -
  have n: "0 \<le> n" using assms(1) by (simp add: maxAlloc_def)
  let ?st1 = "readState0\<lparr>bulkLen := n, multiLine := True\<rparr>"
  have "readLine readState0 (CHR ''$'' # Itoa n @ CR # LF # rest) =
      (LMsg (CHR ''$'' # Itoa n @ CRLF), readState0, rest)"
    using readLine_line [of readState0 "CHR ''$'' # Itoa n" rest] LF_FormatInt [of n]
    by simp
  then have "parse_step c readState0 (CHR ''$'' # Itoa n @ CR # LF # rest) = Some ([], Some (?st1, rest))"
    using assms n by (simp add: parse_step_def parseBulkHeader_def line_body_line)
  moreover have "parse c ?st1 rest = None"
    using assms n by (simp add: parse.simps [of c ?st1] parse_step_def readLine_def make_ok_def)
  ultimately show ?thesis by (simp add: ParseStream_def parse.simps [of c readState0])
qed

text \<open>The null array that \<open>ToBytes\<close> prints is refused by the parser.\<close>

theorem parse_null_array_refused:
  "ParseStream False (ToBytes (ArrayData None) @ rest) =
     map_option ((#) (PErr (errors_New (''Protocol error: *-1'' @ CRLF)))) (ParseStream False rest)"
proof -
  have "readLine readState0 (''*-1'' @ CR # LF # rest) = (LMsg (''*-1'' @ CRLF), readState0, rest)"
    using readLine_line [of readState0 "''*-1''" rest] by (simp add:)
  moreover have "Atoi (line_body (''*-1'' @ CRLF)) = Some (- 1)"
    by (simp add: line_body_def ParseInt_def parse_nat_def is_digit_def digit_val_def in64_def)
  ultimately show ?thesis
    by (simp add: ParseStream_def parse.simps [of False readState0 "_ # _"] parse_step_def
        parseArrayHeader_def)
qed

end
