(* ===== verification/Pubsub_Struct.thy ===== *)
theory Pubsub_Struct
  imports Concurrent_Map Resp
begin

text \<open>
  The channels of \<open>src/memdb/pubsub_struct.go\<close>: a concurrent map from channel names to the
  connections that subscribe to them, each under a unique identifier. The messages written to
  connections are collected in a trace. (The field \<open>in\<close> of a channel is never used.)
\<close>

section \<open>Operations\<close>

record Chan =
  conns :: "(string \<times> nat) list"
  numSubs :: int

type_synonym ChanMap = "Chan ConcurrentMap"

definition NewChanMap :: "int \<Rightarrow> ChanMap" where
  "NewChanMap shardNum = NewConcurrentMap shardNum"

definition Create :: "ChanMap \<Rightarrow> string \<Rightarrow> ChanMap \<times> Chan option" where
  "Create cm key =
     (case cm_Get cm key of
        None \<Rightarrow> let newShard = \<lparr>conns = [], numSubs = 0\<rparr> in (cm_put cm key newShard, Some newShard)
      | Some _ \<Rightarrow> (cm, None))"

definition Subscribe :: "ChanMap \<Rightarrow> string \<Rightarrow> string \<Rightarrow> nat \<Rightarrow> ChanMap option" where
  "Subscribe cm key connID conn = do {
     (cm, channel) \<leftarrow> (case cm_Get cm key of
        None \<Rightarrow> (case Create cm key of (cm, c) \<Rightarrow> map_option (Pair cm) c)
      | Some channel \<Rightarrow> Some (cm, channel));
     Some (cm_put cm key (channel\<lparr>conns := AList.update connID conn (conns channel), numSubs := numSubs channel + 1\<rparr>)) }"

definition UnSubscribe :: "ChanMap \<Rightarrow> string \<Rightarrow> string \<Rightarrow> ChanMap" where
  "UnSubscribe cm key ID =
     (case cm_Get cm key of None \<Rightarrow> cm
      | Some channel \<Rightarrow>
          let channel = channel\<lparr>numSubs := numSubs channel - 1, conns := AList.delete ID (conns channel)\<rparr>;
              cm = cm_put cm key channel
          in if numSubs channel = 0 then cm_del cm key else cm)"

definition message :: "string \<Rightarrow> string \<Rightarrow> string" where
  "message key val = ToBytes (MakeArrayData [BulkData (Some ''message''), BulkData (Some key), BulkData (Some val)])"

text \<open>
  The loop of \<open>Send\<close>: a connection on which the write fails is closed and removed. The result
  is the channel and the connections that have received the message.
\<close>

fun send_loop :: "(nat \<Rightarrow> bool) \<Rightarrow> string list \<Rightarrow> Chan \<Rightarrow> Chan \<times> nat list" where
  "send_loop ok [] ch = (ch, [])"
| "send_loop ok (k # ks) ch =
     (case map_of (conns ch) k of None \<Rightarrow> send_loop ok ks ch
      | Some c \<Rightarrow>
          if ok c then let (ch, cs) = send_loop ok ks ch in (ch, c # cs)
          else send_loop ok ks (ch\<lparr>conns := AList.delete k (conns ch), numSubs := numSubs ch - 1\<rparr>))"

definition Send :: "env \<Rightarrow> ChanMap \<Rightarrow> string \<Rightarrow> string \<Rightarrow> ChanMap \<times> int \<times> (nat \<times> string) list" where
  "Send e cm key val =
     (case cm_Get cm key of None \<Rightarrow> (cm, 0, [])
      | Some channel \<Rightarrow>
          let (channel, cs) = send_loop (conn_ok e) (iter e 0 (map fst (conns channel))) channel
          in (cm_put cm key channel, numSubs channel, map (\<lambda>c. (c, message key val)) cs))"

section \<open>Channels\<close>

text \<open>
  The subscribers of a channel, by identifier. A channel is counted right when \<open>numSubs\<close> is
  the number of its connections and it has at least one.
\<close>

definition subscribers :: "ChanMap \<Rightarrow> string \<Rightarrow> string \<Rightarrow> nat option" where
  "subscribers cm key = (case cm_Get cm key of None \<Rightarrow> Map.empty | Some ch \<Rightarrow> map_of (conns ch))"

definition chan_ok :: "Chan \<Rightarrow> bool" where
  "chan_ok ch \<longleftrightarrow> gm_ok (conns ch) \<and> numSubs ch = int (length (conns ch))"

definition chans_counted :: "ChanMap \<Rightarrow> bool" where
  "chans_counted cm \<longleftrightarrow> cm_ok cm \<and> (\<forall>k ch. cm_Get cm k = Some ch \<longrightarrow> chan_ok ch)"

lemma chans_counted_New [simp]: "chans_counted (NewChanMap n)"
  by (simp add: chans_counted_def NewChanMap_def)

lemma Subscribe_correct:
  assumes "chans_counted cm" and "subscribers cm key connID = None"
  obtains cm' where "Subscribe cm key connID conn = Some cm'" and "chans_counted cm'"
    and "subscribers cm' = (subscribers cm)(key := (subscribers cm key)(connID \<mapsto> conn))"
proof -
  let ?ch = "case cm_Get cm key of None \<Rightarrow> \<lparr>conns = [], numSubs = 0\<rparr> | Some ch \<Rightarrow> ch"
  let ?new = "?ch\<lparr>conns := AList.update connID conn (conns ?ch), numSubs := numSubs ?ch + 1\<rparr>"
  have ok: "cm_ok cm" and ch: "chan_ok ?ch" "map_of (conns ?ch) connID = None"
    using assms by (auto simp: chans_counted_def chan_ok_def subscribers_def split: option.splits)
  then have new: "chan_ok ?new" by (simp add: chan_ok_def length_update_gm)
  obtain cm1 where cm1: "Subscribe cm key connID conn = Some (cm_put cm1 key ?new)" "cm_ok cm1"
      "\<And>k. k \<noteq> key \<Longrightarrow> cm_Get cm1 k = cm_Get cm k"
  proof (cases "cm_Get cm key")
    case None
    then show ?thesis using that [of "cm_put cm key \<lparr>conns = [], numSubs = 0\<rparr>"] ok by (simp add: Subscribe_def Create_def Let_def)
  next
    case (Some ch)
    then show ?thesis using that [of cm] ok by (simp add: Subscribe_def)
  qed
  moreover have "chans_counted (cm_put cm1 key ?new)"
    using cm1 new assms(1) by (auto simp: chans_counted_def)
  moreover have "subscribers (cm_put cm1 key ?new) = (subscribers cm)(key := (subscribers cm key)(connID \<mapsto> conn))"
    using cm1(2,3) by (auto simp: fun_eq_iff subscribers_def split: option.splits)
  ultimately show ?thesis using that by blast
qed

lemma UnSubscribe_correct:
  assumes "chans_counted cm" and "subscribers cm key ID = Some c"
  shows "chans_counted (UnSubscribe cm key ID)"
    and "subscribers (UnSubscribe cm key ID) = (subscribers cm)(key := (subscribers cm key)(ID := None))"
proof -
  obtain ch where ch: "cm_Get cm key = Some ch" "map_of (conns ch) ID = Some c" "chan_ok ch"
    using assms by (auto simp: subscribers_def chans_counted_def split: option.splits)
  let ?ch = "ch\<lparr>numSubs := numSubs ch - 1, conns := AList.delete ID (conns ch)\<rparr>"
  have ok: "cm_ok cm" and new: "chan_ok ?ch"
    using assms(1) ch length_delete_gm [of "conns ch" ID] by (auto simp: chans_counted_def chan_ok_def)
  have u: "UnSubscribe cm key ID = (if numSubs ?ch = 0 then cm_del (cm_put cm key ?ch) key else cm_put cm key ?ch)"
    using ch(1) by (simp add: UnSubscribe_def Let_def)
  show "chans_counted (UnSubscribe cm key ID)"
    using assms(1) ok new unfolding u by (auto simp: chans_counted_def)
  have "numSubs ?ch = 0 \<Longrightarrow> conns ?ch = []" using new by (simp add: chan_ok_def)
  then have "numSubs ?ch = 0 \<Longrightarrow> (map_of (conns ch))(ID := None) = Map.empty"
    using map_of_delete [of ID "conns ch"] by simp
  then show "subscribers (UnSubscribe cm key ID) = (subscribers cm)(key := (subscribers cm key)(ID := None))"
    using ok ch unfolding u by (auto simp: fun_eq_iff subscribers_def split: option.splits)
qed

lemma send_loop_all:
  "distinct ks \<Longrightarrow> (\<And>k. k \<in> set ks \<Longrightarrow> \<exists>c. map_of (conns ch) k = Some c \<and> ok c) \<Longrightarrow>
     send_loop ok ks ch = (ch, map (\<lambda>k. the (map_of (conns ch) k)) ks)"
  by (induction ks) fastforce+

lemma Send_correct:
  assumes "chans_counted cm" and "iter_ok e" and "\<And>ID c. subscribers cm key ID = Some c \<Longrightarrow> conn_ok e c"
    and "Send e cm key val = (cm', n, out)"
  shows "chans_counted cm'" and "subscribers cm' = subscribers cm" and "n = int (card (dom (subscribers cm key)))"
    and "set out = (\<lambda>c. (c, message key val)) ` ran (subscribers cm key)" and "length out = card (dom (subscribers cm key))"
proof -
  have "chans_counted cm' \<and> subscribers cm' = subscribers cm \<and> n = int (card (dom (subscribers cm key)))
    \<and> set out = (\<lambda>c. (c, message key val)) ` ran (subscribers cm key) \<and> length out = card (dom (subscribers cm key))"
  proof (cases "cm_Get cm key")
    case None
    then show ?thesis using assms(1,4) by (auto simp: Send_def subscribers_def)
  next
    case (Some ch)
    have ok: "cm_ok cm" "gm_ok (conns ch)" "numSubs ch = int (length (conns ch))" and sub: "subscribers cm key = map_of (conns ch)"
      using assms(1) Some by (auto simp: chans_counted_def chan_ok_def subscribers_def)
    let ?ks = "iter e 0 (map fst (conns ch))"
    have ks: "distinct ?ks" "set ?ks = dom (map_of (conns ch))" "length ?ks = length (conns ch)"
      using ok(2) assms(2) iter_ok_distinct iter_ok_set iter_ok_length by (auto simp: gm_ok_def dom_map_of_conv_image_fst)
    have loop: "send_loop (conn_ok e) ?ks ch = (ch, map (\<lambda>k. the (map_of (conns ch) k)) ?ks)"
      using ks(1,2) assms(3) sub by (intro send_loop_all) (auto simp: domIff)
    then have cm': "cm' = cm_put cm key ch" "n = numSubs ch" "out = map (\<lambda>k. (the (map_of (conns ch) k), message key val)) ?ks"
      using assms(4) Some by (auto simp: Send_def)
    have same: "cm_Get (cm_put cm key ch) = cm_Get cm" "cm_ok (cm_put cm key ch)" using ok(1) Some by auto
    have "(\<lambda>k. the (map_of (conns ch) k)) ` dom (map_of (conns ch)) = ran (map_of (conns ch))"
      by (auto simp: ran_def image_iff dom_def) force+
    moreover have "set out = (\<lambda>c. (c, message key val)) ` (\<lambda>k. the (map_of (conns ch) k)) ` dom (map_of (conns ch))"
      unfolding cm'(3) ks(2) [symmetric] by (simp only: set_map image_image)
    ultimately have "set out = (\<lambda>c. (c, message key val)) ` ran (map_of (conns ch))" by simp
    moreover have "chans_counted cm'" "subscribers cm' = subscribers cm"
      using same assms(1) unfolding cm'(1) by (simp_all add: chans_counted_def subscribers_def fun_eq_iff)
    moreover have "length out = card (dom (map_of (conns ch)))" "n = int (card (dom (map_of (conns ch))))"
      using ks(3) ok(3) length_gm [OF ok(2)] cm'(2,3) by simp_all
    ultimately show ?thesis unfolding sub by simp
  qed
  then show "chans_counted cm'" "subscribers cm' = subscribers cm" "n = int (card (dom (subscribers cm key)))"
    "set out = (\<lambda>c. (c, message key val)) ` ran (subscribers cm key)" "length out = card (dom (subscribers cm key))" by blast+
qed

end
