(* ===== verification/Dblock.thy ===== *)
theory Dblock
  imports Util
begin

text \<open>
  The key locks of a database (\<open>src/memdb/dblock.go\<close>): a table of read-write mutexes,
  selected by the hash of a key, and the operations on several keys that take their locks
  in the order of their positions. The second part runs any number of such operations
  concurrently and shows that they never block each other for ever.
\<close>

section \<open>The lock table\<close>

text \<open>
  The state of a \<open>sync.RWMutex\<close>. Taking it is \<open>None\<close> when the caller has to wait;
  releasing it is \<open>None\<close> when it is not held, which is a fatal error in Go.
\<close>

record RWMutex =
  writer :: bool
  readers :: nat

type_synonym Locks = "RWMutex list"

definition free_mutex :: RWMutex where "free_mutex = \<lparr>writer = False, readers = 0\<rparr>"

definition mu_Lock :: "RWMutex \<Rightarrow> RWMutex option" where
  "mu_Lock r = (if writer r \<or> readers r > 0 then None else Some (r\<lparr>writer := True\<rparr>))"

definition mu_Unlock :: "RWMutex \<Rightarrow> RWMutex option" where
  "mu_Unlock r = (if writer r then Some (r\<lparr>writer := False\<rparr>) else None)"

definition mu_RLock :: "RWMutex \<Rightarrow> RWMutex option" where
  "mu_RLock r = (if writer r then None else Some (r\<lparr>readers := readers r + 1\<rparr>))"

definition mu_RUnlock :: "RWMutex \<Rightarrow> RWMutex option" where
  "mu_RUnlock r = (if readers r = 0 then None else Some (r\<lparr>readers := readers r - 1\<rparr>))"

definition NewLocks :: "int \<Rightarrow> Locks option" where
  "NewLocks sz = (if sz < 0 then None else Some (replicate (nat sz) free_mutex))"

text \<open>
  \<open>GetKeyPos\<close> divides by the length of the table, which panics on an empty table. Its
  result is never -1, so the branches for that value in the source are never taken.
\<close>

definition GetKeyPos :: "Locks \<Rightarrow> string \<Rightarrow> nat option" where
  "GetKeyPos l key = (if l = [] then None else Some (HashKey key mod length l))"

definition at_pos :: "(RWMutex \<Rightarrow> RWMutex option) \<Rightarrow> nat \<Rightarrow> Locks \<Rightarrow> Locks option" where
  "at_pos f pos l = do { r \<leftarrow> nth_opt l pos; r' \<leftarrow> f r; Some (l[pos := r']) }"

definition Lock :: "Locks \<Rightarrow> string \<Rightarrow> Locks option" where
  "Lock l key = do { pos \<leftarrow> GetKeyPos l key; at_pos mu_Lock pos l }"

definition UnLock :: "Locks \<Rightarrow> string \<Rightarrow> Locks option" where
  "UnLock l key = do { pos \<leftarrow> GetKeyPos l key; at_pos mu_Unlock pos l }"

definition RLock :: "Locks \<Rightarrow> string \<Rightarrow> Locks option" where
  "RLock l key = do { pos \<leftarrow> GetKeyPos l key; at_pos mu_RLock pos l }"

definition RUnLock :: "Locks \<Rightarrow> string \<Rightarrow> Locks option" where
  "RUnLock l key = do { pos \<leftarrow> GetKeyPos l key; at_pos mu_RUnlock pos l }"

definition sortedLockPoses :: "Locks \<Rightarrow> string list \<Rightarrow> nat list option" where
  "sortedLockPoses l keys =
     map_option (\<lambda>ps. sort (remdups ps)) (those (map (GetKeyPos l) keys))"

fun each_pos :: "(RWMutex \<Rightarrow> RWMutex option) \<Rightarrow> nat list \<Rightarrow> Locks \<Rightarrow> Locks option" where
  "each_pos f [] l = Some l"
| "each_pos f (p # ps) l = do { l' \<leftarrow> at_pos f p l; each_pos f ps l' }"

definition LockMulti :: "Locks \<Rightarrow> string list \<Rightarrow> Locks option" where
  "LockMulti l keys = do { poses \<leftarrow> sortedLockPoses l keys; each_pos mu_Lock poses l }"

definition UnLockMulti :: "Locks \<Rightarrow> string list \<Rightarrow> Locks option" where
  "UnLockMulti l keys = do { poses \<leftarrow> sortedLockPoses l keys; each_pos mu_Unlock poses l }"

definition RLockMulti :: "Locks \<Rightarrow> string list \<Rightarrow> Locks option" where
  "RLockMulti l keys = do { poses \<leftarrow> sortedLockPoses l keys; each_pos mu_RLock poses l }"

definition RUnLockMulti :: "Locks \<Rightarrow> string list \<Rightarrow> Locks option" where
  "RUnLockMulti l keys = do { poses \<leftarrow> sortedLockPoses l keys; each_pos mu_RUnlock poses l }"

subsection \<open>The positions\<close>

lemma those_map_Some: "those (map (\<lambda>x. Some (f x)) xs) = Some (map f xs)"
  by (induction xs) simp_all

lemma sortedLockPoses_eq:
  "l \<noteq> [] \<Longrightarrow> sortedLockPoses l keys = Some (sort (remdups (map (\<lambda>k. HashKey k mod length l) keys)))"
  using those_map_Some [of "\<lambda>k. HashKey k mod length l" keys]
  by (simp add: sortedLockPoses_def GetKeyPos_def [abs_def] if_distrib cong: if_cong)

lemma sortedLockPoses_sorted:
  assumes "sortedLockPoses l keys = Some ps" and "l \<noteq> []"
  shows "sorted_wrt (<) ps" and "\<forall>p \<in> set ps. p < length l"
    and "set ps = (\<lambda>k. HashKey k mod length l) ` set keys"
  using assms by (auto simp: sortedLockPoses_eq strict_sorted_iff)

lemma at_pos_eq: "p < length l \<Longrightarrow> at_pos f p l = map_option (\<lambda>r. l[p := r]) (f (l ! p))"
  by (cases "f (l ! p)") (simp_all add: at_pos_def)

lemma at_pos_length: "at_pos f p l = Some l' \<Longrightarrow> length l' = length l \<and> p < length l"
  by (auto simp: at_pos_def nth_opt_Some_iff split: bind_splits)

text \<open>
  On a table with no lock held, taking the locks of any keys succeeds, duplicate keys and
  colliding keys included, and releasing them with the same keys restores the table.
\<close>

lemma each_pos_round:
  assumes "sorted_wrt (<) ps" and "\<forall>p \<in> set ps. p < length l \<and> l ! p = r0"
    and "f r0 = Some r1" and "g r1 = Some r0"
  shows "\<exists>l'. each_pos f ps l = Some l' \<and> length l' = length l
    \<and> (\<forall>i. l' ! i = (if i \<in> set ps then r1 else l ! i)) \<and> each_pos g ps l' = Some l"
  using assms(1,2)
proof (induction ps arbitrary: l)
  case (Cons p ps)
  have p: "p < length l" "l ! p = r0" using Cons.prems by auto
  let ?l = "l[p := r1]"
  have "\<forall>q \<in> set ps. q < length ?l \<and> ?l ! q = r0" using Cons.prems by auto
  then obtain l' where l': "each_pos f ps ?l = Some l'" "length l' = length ?l"
    "\<forall>i. l' ! i = (if i \<in> set ps then r1 else ?l ! i)"
    using Cons.IH [of ?l] Cons.prems(1) by auto
  have pn: "p \<notin> set ps" using Cons.prems(1) by auto
  have "\<forall>q \<in> set ps. q < length l \<and> l ! q = r0" using Cons.prems by auto
  then obtain m' where m': "each_pos f ps l = Some m'" "length m' = length l"
    "\<forall>i. m' ! i = (if i \<in> set ps then r1 else l ! i)" "each_pos g ps m' = Some l"
    using Cons.IH [of l] Cons.prems(1) by auto
  have "l'[p := r0] = m'"
    using l'(2,3) m'(2,3) p pn by (intro nth_equalityI) (auto simp: nth_list_update)
  then show ?case
    using p l' m' pn assms(3,4) by (auto simp: at_pos_eq nth_list_update)
qed simp

lemma LockMulti_UnLockMulti:
  assumes "l \<noteq> []" and "\<forall>r \<in> set l. r = free_mutex"
  shows "\<exists>l'. LockMulti l keys = Some l' \<and> UnLockMulti l' keys = Some l"
proof -
  obtain ps where ps: "sortedLockPoses l keys = Some ps" using assms(1) by (simp add: sortedLockPoses_eq)
  have "\<forall>p \<in> set ps. p < length l \<and> l ! p = free_mutex"
    using sortedLockPoses_sorted(2) [OF ps assms(1)] assms(2) by auto
  from each_pos_round [OF sortedLockPoses_sorted(1) [OF ps assms(1)] this, of mu_Lock "\<lparr>writer = True, readers = 0\<rparr>" mu_Unlock]
  obtain l' where l': "each_pos mu_Lock ps l = Some l'" "length l' = length l" "each_pos mu_Unlock ps l' = Some l"
    by (auto simp: mu_Lock_def mu_Unlock_def free_mutex_def)
  have "sortedLockPoses l' keys = Some ps"
    using ps assms(1) l'(2) by (metis length_0_conv sortedLockPoses_eq)
  with ps l' show ?thesis by (simp add: LockMulti_def UnLockMulti_def)
qed

section \<open>Commands that lock concurrently\<close>

text \<open>
  A command that calls \<open>LockMulti\<close> (\<open>excl\<close>) or \<open>RLockMulti\<close>, works, and calls the matching
  unlock: the positions it still has to take, in order, and those it holds. \<open>Lock\<close> and
  \<open>RLock\<close> of one key are the case of one position. A reader is not let in while a writer
  waits for the same mutex, as Go's \<open>RWMutex\<close> promises.
\<close>

record locker =
  excl :: bool
  waiting :: "nat list"
  held :: "nat list"

record lsys =
  tbl :: Locks
  lockers :: "locker list"

definition waits_write :: "nat \<Rightarrow> locker \<Rightarrow> bool" where
  "waits_write p t \<longleftrightarrow> excl t \<and> waiting t \<noteq> [] \<and> hd (waiting t) = p"

inductive lstep :: "lsys \<Rightarrow> lsys \<Rightarrow> bool" where
  lock: "\<lbrakk>i < length (lockers s); lockers s ! i = t; excl t; waiting t = p # ps;
          at_pos mu_Lock p (tbl s) = Some l\<rbrakk>
    \<Longrightarrow> lstep s \<lparr>tbl = l, lockers = (lockers s)[i := t\<lparr>waiting := ps, held := held t @ [p]\<rparr>]\<rparr>"
| rlock: "\<lbrakk>i < length (lockers s); lockers s ! i = t; \<not> excl t; waiting t = p # ps;
          \<not> list_ex (waits_write p) (lockers s); at_pos mu_RLock p (tbl s) = Some l\<rbrakk>
    \<Longrightarrow> lstep s \<lparr>tbl = l, lockers = (lockers s)[i := t\<lparr>waiting := ps, held := held t @ [p]\<rparr>]\<rparr>"
| unlock: "\<lbrakk>i < length (lockers s); lockers s ! i = t; waiting t = []; held t = p # ps;
          at_pos (if excl t then mu_Unlock else mu_RUnlock) p (tbl s) = Some l\<rbrakk>
    \<Longrightarrow> lstep s \<lparr>tbl = l, lockers = (lockers s)[i := t\<lparr>held := ps\<rparr>]\<rparr>"

definition start_locker :: "Locks \<Rightarrow> bool \<times> string list \<Rightarrow> locker" where
  "start_locker l r = \<lparr>excl = fst r, waiting = (case sortedLockPoses l (snd r) of None \<Rightarrow> [] | Some ps \<Rightarrow> ps), held = []\<rparr>"

definition start_lsys :: "Locks \<Rightarrow> (bool \<times> string list) list \<Rightarrow> lsys" where
  "start_lsys l rs = \<lparr>tbl = l, lockers = map (start_locker l) rs\<rparr>"

definition locker_done :: "locker \<Rightarrow> bool" where
  "locker_done t \<longleftrightarrow> waiting t = [] \<and> held t = []"

definition holds :: "bool \<Rightarrow> nat \<Rightarrow> locker \<Rightarrow> bool" where
  "holds w p t \<longleftrightarrow> excl t = w \<and> p \<in> set (held t)"

definition holders :: "bool \<Rightarrow> nat \<Rightarrow> lsys \<Rightarrow> nat" where
  "holders w p s = length (filter (holds w p) (lockers s))"

definition lsys_ok :: "lsys \<Rightarrow> bool" where
  "lsys_ok s \<longleftrightarrow>
     (\<forall>t \<in> set (lockers s). sorted_wrt (<) (held t @ waiting t) \<and> (\<forall>p \<in> set (held t @ waiting t). p < length (tbl s)))
     \<and> (\<forall>p < length (tbl s). holders True p s = (if writer (tbl s ! p) then 1 else 0)
         \<and> holders False p s = readers (tbl s ! p) \<and> (writer (tbl s ! p) \<longrightarrow> readers (tbl s ! p) = 0))"

definition lwork :: "lsys \<Rightarrow> nat" where
  "lwork s = sum_list (map (\<lambda>t. 2 * length (waiting t) + length (held t)) (lockers s))"

lemma length_filter_update:
  "i < length xs \<Longrightarrow> length (filter P (xs[i := y])) + (if P (xs ! i) then 1 else 0)
     = length (filter P xs) + (if P y then 1 else 0)"
proof (induction xs arbitrary: i)
  case (Cons x xs)
  then show ?case using Cons.IH [of "i - 1"] by (cases i) (auto split: if_splits)
qed simp

lemma sum_list_update_nat:
  "i < length xs \<Longrightarrow> sum_list (map f (xs[i := y])) + f (xs ! i) = sum_list (map f xs) + (f y :: nat)"
  by (induction xs arbitrary: i) (auto split: nat.split)

lemma holders_update:
  "i < length (lockers s) \<Longrightarrow>
     holders w p \<lparr>tbl = l, lockers = (lockers s)[i := t]\<rparr> + (if holds w p (lockers s ! i) then 1 else 0)
     = holders w p s + (if holds w p t then 1 else 0)"
  by (simp add: holders_def length_filter_update)

lemma lsys_ok_start:
  assumes "l \<noteq> []" and "\<forall>r \<in> set l. r = free_mutex"
  shows "lsys_ok (start_lsys l rs)"
proof -
  have "sorted_wrt (<) (waiting (start_locker l r)) \<and> (\<forall>p \<in> set (waiting (start_locker l r)). p < length l)" for r
  proof -
    obtain ps where "sortedLockPoses l (snd r) = Some ps" using assms(1) by (simp add: sortedLockPoses_eq)
    then show ?thesis using sortedLockPoses_sorted [OF _ assms(1)] by (simp add: start_locker_def)
  qed
  moreover have "\<not> holds w p (start_locker l r)" for w p r by (simp add: holds_def start_locker_def)
  moreover have "held (start_locker l r) = []" for r by (simp add: start_locker_def)
  moreover have "\<forall>p < length l. l ! p = free_mutex" using assms(2) by simp
  ultimately show ?thesis
    by (simp add: lsys_ok_def start_lsys_def holders_def free_mutex_def filter_empty_conv)
qed

text \<open>The step of one locker keeps the invariant when its mutex counts the change.\<close>

lemma lsys_ok_update:
  assumes s: "lsys_ok s" and i: "i < length (lockers s)" and p: "p < length (tbl s)"
    and t: "sorted_wrt (<) (held t @ waiting t)" "set (held t @ waiting t) \<subseteq> set (held (lockers s ! i) @ waiting (lockers s ! i))"
    and e: "excl t = excl (lockers s ! i)"
    and q: "\<And>q. q \<noteq> p \<Longrightarrow> q \<in> set (held t) \<longleftrightarrow> q \<in> set (held (lockers s ! i))"
    and h: "holders True p \<lparr>tbl = (tbl s)[p := r], lockers = (lockers s)[i := t]\<rparr> = (if writer r then 1 else 0)"
      "holders False p \<lparr>tbl = (tbl s)[p := r], lockers = (lockers s)[i := t]\<rparr> = readers r"
      "writer r \<Longrightarrow> readers r = 0"
  shows "lsys_ok \<lparr>tbl = (tbl s)[p := r], lockers = (lockers s)[i := t]\<rparr>"
proof -
  have ti: "\<forall>q \<in> set (held (lockers s ! i) @ waiting (lockers s ! i)). q < length (tbl s)"
    using s i unfolding lsys_ok_def by (meson nth_mem)
  have "holders w q \<lparr>tbl = (tbl s)[p := r], lockers = (lockers s)[i := t]\<rparr> = holders w q s" if "q \<noteq> p" for w q
    using holders_update [OF i, of w q "(tbl s)[p := r]" t] q [OF that] e by (auto simp: holds_def split: if_splits)
  then have "\<forall>q < length (tbl s). q \<noteq> p \<longrightarrow>
      holders True q \<lparr>tbl = (tbl s)[p := r], lockers = (lockers s)[i := t]\<rparr> = (if writer (tbl s ! q) then 1 else 0)
      \<and> holders False q \<lparr>tbl = (tbl s)[p := r], lockers = (lockers s)[i := t]\<rparr> = readers (tbl s ! q)
      \<and> (writer (tbl s ! q) \<longrightarrow> readers (tbl s ! q) = 0)"
    using s unfolding lsys_ok_def by simp
  moreover have "\<forall>u \<in> set ((lockers s)[i := t]). sorted_wrt (<) (held u @ waiting u)
      \<and> (\<forall>q \<in> set (held u @ waiting u). q < length (tbl s))"
  proof
    fix u assume "u \<in> set ((lockers s)[i := t])"
    then have "u = t \<or> u \<in> set (lockers s)" using set_update_subset_insert by fastforce
    then show "sorted_wrt (<) (held u @ waiting u) \<and> (\<forall>q \<in> set (held u @ waiting u). q < length (tbl s))"
    proof
      assume "u = t" then show ?thesis using t ti by blast
    next
      assume "u \<in> set (lockers s)" then show ?thesis using s unfolding lsys_ok_def by blast
    qed
  qed
  ultimately show ?thesis
    using h p unfolding lsys_ok_def by (simp add: nth_list_update)
qed

lemma at_pos_Some: "at_pos f p l = Some l' \<longleftrightarrow> p < length l \<and> (\<exists>r. f (l ! p) = Some r \<and> l' = l[p := r])"
  by (auto simp: at_pos_def nth_opt_Some_iff nth_opt_def split: bind_splits)

lemma lsys_ok_mutex:
  assumes "lsys_ok s" and "p < length (tbl s)"
  shows "holders True p s = (if writer (tbl s ! p) then 1 else 0)"
    and "holders False p s = readers (tbl s ! p)"
    and "writer (tbl s ! p) \<Longrightarrow> readers (tbl s ! p) = 0"
  using assms unfolding lsys_ok_def by auto

lemma lsys_ok_locker:
  assumes "lsys_ok s" and "i < length (lockers s)" and "lockers s ! i = t"
  shows "sorted_wrt (<) (held t @ waiting t)" and "set (held t @ waiting t) \<subseteq> {..< length (tbl s)}"
  using assms nth_mem [OF assms(2)] unfolding lsys_ok_def by auto

lemma lsys_ok_step: "lstep s s' \<Longrightarrow> lsys_ok s \<Longrightarrow> lsys_ok s'"
proof (induction rule: lstep.induct)
  case (lock i s t p ps l)
  then obtain r where r: "p < length (tbl s)" "mu_Lock (tbl s ! p) = Some r" "l = (tbl s)[p := r]"
    by (auto simp: at_pos_Some)
  let ?t = "t\<lparr>waiting := ps, held := held t @ [p]\<rparr>"
  note t = lsys_ok_locker [OF lock.prems lock.hyps(1,2)]
  have "p \<notin> set (held t)" using t(1) lock.hyps(4) by (auto simp: sorted_wrt_append)
  with lock.hyps r show ?case
    using holders_update [OF lock.hyps(1), of True p l ?t] holders_update [OF lock.hyps(1), of False p l ?t]
      lsys_ok_mutex [OF lock.prems r(1)] t
    by (auto intro!: lsys_ok_update [OF lock.prems lock.hyps(1) r(1)] simp: holds_def mu_Lock_def split: if_splits)
next
  case (rlock i s t p ps l)
  then obtain r where r: "p < length (tbl s)" "mu_RLock (tbl s ! p) = Some r" "l = (tbl s)[p := r]"
    by (auto simp: at_pos_Some)
  let ?t = "t\<lparr>waiting := ps, held := held t @ [p]\<rparr>"
  note t = lsys_ok_locker [OF rlock.prems rlock.hyps(1,2)]
  have "p \<notin> set (held t)" using t(1) rlock.hyps(4) by (auto simp: sorted_wrt_append)
  with rlock.hyps r show ?case
    using holders_update [OF rlock.hyps(1), of True p l ?t] holders_update [OF rlock.hyps(1), of False p l ?t]
      lsys_ok_mutex [OF rlock.prems r(1)] t
    by (auto intro!: lsys_ok_update [OF rlock.prems rlock.hyps(1) r(1)] simp: holds_def mu_RLock_def split: if_splits)
next
  case (unlock i s t p ps l)
  then obtain r where r: "p < length (tbl s)" "(if excl t then mu_Unlock else mu_RUnlock) (tbl s ! p) = Some r"
    "l = (tbl s)[p := r]" by (auto simp: at_pos_Some)
  let ?t = "t\<lparr>held := ps\<rparr>"
  note t = lsys_ok_locker [OF unlock.prems unlock.hyps(1,2)]
  have "p \<notin> set ps" using t(1) unlock.hyps(4) by auto
  with unlock.hyps r show ?case
    using holders_update [OF unlock.hyps(1), of True p l ?t] holders_update [OF unlock.hyps(1), of False p l ?t]
      lsys_ok_mutex [OF unlock.prems r(1)] t
    by (auto intro!: lsys_ok_update [OF unlock.prems unlock.hyps(1) r(1)]
        simp: holds_def mu_Unlock_def mu_RUnlock_def split: if_splits)
qed

lemma lsys_ok_steps: "lstep\<^sup>*\<^sup>* s s' \<Longrightarrow> lsys_ok s \<Longrightarrow> lsys_ok s'"
  by (induction rule: rtranclp_induct) (auto intro: lsys_ok_step)

lemma lwork_decreases: "lstep s s' \<Longrightarrow> lwork s' < lwork s"
proof (induction rule: lstep.induct)
  case (lock i s t p ps l)
  then show ?case
    using sum_list_update_nat [OF lock.hyps(1), of "\<lambda>t. 2 * length (waiting t) + length (held t)"
        "t\<lparr>waiting := ps, held := held t @ [p]\<rparr>"] by (simp add: lwork_def)
next
  case (rlock i s t p ps l)
  then show ?case
    using sum_list_update_nat [OF rlock.hyps(1), of "\<lambda>t. 2 * length (waiting t) + length (held t)"
        "t\<lparr>waiting := ps, held := held t @ [p]\<rparr>"] by (simp add: lwork_def)
next
  case (unlock i s t p ps l)
  then show ?case
    using sum_list_update_nat [OF unlock.hyps(1), of "\<lambda>t. 2 * length (waiting t) + length (held t)"
        "t\<lparr>held := ps\<rparr>"] by (simp add: lwork_def)
qed

subsection \<open>Progress\<close>

lemma holders_pos: "0 < holders w p s \<longleftrightarrow> (\<exists>t \<in> set (lockers s). holds w p t)"
  by (auto simp: holders_def filter_empty_conv)

lemma unlock_enabled:
  assumes s: "lsys_ok s" and t: "t \<in> set (lockers s)" "waiting t = []" "held t = p # ps"
  shows "\<exists>s'. lstep s s'"
proof -
  obtain i where i: "i < length (lockers s)" "lockers s ! i = t" using t(1) by (auto simp: in_set_conv_nth)
  have p: "p < length (tbl s)" using lsys_ok_locker(2) [OF s i] t by auto
  have "0 < holders (excl t) p s" using t by (auto simp: holders_pos holds_def)
  then have "\<exists>l. at_pos (if excl t then mu_Unlock else mu_RUnlock) p (tbl s) = Some l"
    using lsys_ok_mutex(1,2) [OF s p] p
    by (cases "excl t") (auto simp: at_pos_Some mu_Unlock_def mu_RUnlock_def split: if_splits)
  then show ?thesis using lstep.unlock [OF i t(2,3)] by blast
qed

lemma lock_enabled:
  assumes s: "lsys_ok s" and t: "t \<in> set (lockers s)" "waiting t = p # ps"
    and free: "\<forall>u \<in> set (lockers s). p \<notin> set (held u)"
  shows "\<exists>s'. lstep s s'"
proof -
  have p: "p < length (tbl s)" using s t unfolding lsys_ok_def by auto
  have "holders w p s = 0" for w using holders_pos [of w p s] free by (auto simp: holds_def)
  then have r: "\<not> writer (tbl s ! p)" "readers (tbl s ! p) = 0"
    using lsys_ok_mutex(1,2) [OF s p] by (auto split: if_splits)
  have wlock: "\<exists>s'. lstep s s'" if u: "u \<in> set (lockers s)" "waits_write p u" for u
  proof -
    obtain i where "i < length (lockers s)" "lockers s ! i = u" using u(1) by (auto simp: in_set_conv_nth)
    moreover obtain qs where "waiting u = p # qs" "excl u"
      using u(2) by (cases "waiting u") (auto simp: waits_write_def)
    moreover obtain l where "at_pos mu_Lock p (tbl s) = Some l" using r p by (auto simp: at_pos_Some mu_Lock_def)
    ultimately show ?thesis using lstep.lock by blast
  qed
  show ?thesis
  proof (cases "list_ex (waits_write p) (lockers s)")
    case True
    then show ?thesis using wlock by (auto simp: list_ex_iff)
  next
    case False
    then have "\<not> excl t" using t by (force simp: list_ex_iff waits_write_def)
    moreover obtain i where "i < length (lockers s)" "lockers s ! i = t" using t(1) by (auto simp: in_set_conv_nth)
    moreover obtain l where "at_pos mu_RLock p (tbl s) = Some l" using r p by (auto simp: at_pos_Some mu_RLock_def)
    ultimately show ?thesis using lstep.rlock t(2) False by blast
  qed
qed

text \<open>Among the lockers that wait, one that waits for the highest position can go on.\<close>

lemma finite_max_exists:
  fixes f :: "'a \<Rightarrow> nat"
  shows "finite A \<Longrightarrow> A \<noteq> {} \<Longrightarrow> \<exists>a \<in> A. \<forall>b \<in> A. f b \<le> f a"
  using Max_in [of "f ` A"] by (auto simp: image_iff) (metis Max_ge finite_imageI imageI)

lemma lsys_progress:
  assumes s: "lsys_ok s" and unfinished: "\<not> list_all locker_done (lockers s)"
  shows "\<exists>s'. lstep s s'"
proof (cases "\<exists>t \<in> set (lockers s). waiting t = [] \<and> held t \<noteq> []")
  case True
  then show ?thesis using unlock_enabled [OF s] by (metis list.exhaust)
next
  case False
  let ?W = "{t \<in> set (lockers s). waiting t \<noteq> []}"
  have "?W \<noteq> {}" using unfinished False by (auto simp: list_all_iff locker_done_def)
  then obtain t where t: "t \<in> ?W" and max: "\<forall>u \<in> ?W. hd (waiting u) \<le> hd (waiting t)"
    using finite_max_exists [of ?W "\<lambda>t. hd (waiting t)"] by auto
  obtain p ps where p: "waiting t = p # ps" using t by (cases "waiting t") auto
  have "p \<notin> set (held u)" if u: "u \<in> set (lockers s)" for u
  proof
    assume h: "p \<in> set (held u)"
    then have "waiting u \<noteq> []" using False u by auto
    then obtain q qs where q: "waiting u = q # qs" by (cases "waiting u") auto
    have "sorted_wrt (<) (held u @ waiting u)" using s u unfolding lsys_ok_def by auto
    then have "p < q" using h q by (auto simp: sorted_wrt_append)
    moreover have "q \<le> p" using max u q p by force
    ultimately show False by simp
  qed
  then show ?thesis using lock_enabled [OF s _ p] t by auto
qed

lemma lsys_length: "lstep\<^sup>*\<^sup>* s s' \<Longrightarrow> length (tbl s') = length (tbl s)"
  by (induction rule: rtranclp_induct) (auto simp: at_pos_Some elim!: lstep.cases)

lemma lsys_done_free:
  assumes "lsys_ok s" and "list_all locker_done (lockers s)" and "p < length (tbl s)"
  shows "tbl s ! p = free_mutex"
proof -
  have "holders w p s = 0" for w
    using holders_pos [of w p s] assms(2) by (auto simp: holds_def list_all_iff locker_done_def)
  then have "\<not> writer (tbl s ! p)" "readers (tbl s ! p) = 0"
    using lsys_ok_mutex(1,2) [OF assms(1,3)] by (auto split: if_splits)
  then show ?thesis by (simp add: free_mutex_def)
qed

lemma lsys_holder_unique:
  assumes s: "lsys_ok s" and ij: "i < length (lockers s)" "j < length (lockers s)" "i \<noteq> j"
    and p: "p \<in> set (held (lockers s ! i))" "p \<in> set (held (lockers s ! j))"
  shows "\<not> excl (lockers s ! i)"
proof
  assume e: "excl (lockers s ! i)"
  have lt: "p < length (tbl s)" using lsys_ok_locker(2) [OF s ij(1) refl] p(1) by auto
  have "0 < holders True p s" using e p(1) nth_mem [OF ij(1)] by (auto simp: holders_pos holds_def)
  then have w: "holders True p s = 1" "holders False p s = 0"
    using lsys_ok_mutex [OF s lt] by (auto split: if_splits)
  then have "excl (lockers s ! j)"
    using p(2) nth_mem [OF ij(2)] holders_pos [of False p s] by (auto simp: holds_def)
  then have "{i, j} \<subseteq> {k. k < length (lockers s) \<and> holds True p (lockers s ! k)}"
    using e ij p by (auto simp: holds_def)
  then have "card {i, j} \<le> holders True p s"
    unfolding holders_def length_filter_conv_card by (rule card_mono [rotated]) simp
  then show False using w ij(3) by simp
qed

text \<open>
  Claim C6. However many commands lock and read-lock however many keys, and however their
  steps interleave: as long as one of them has not finished, some command can take its next
  step, every step reduces the number of steps left, and when all have finished every lock
  is free again. So no set of commands can deadlock on the key locks.
\<close>

theorem locks_no_deadlock:
  assumes "l \<noteq> []" and "\<forall>r \<in> set l. r = free_mutex" and "lstep\<^sup>*\<^sup>* (start_lsys l rs) s"
  shows "if list_all locker_done (lockers s) then tbl s = l
         else (\<exists>s'. lstep s s') \<and> (\<forall>s'. lstep s s' \<longrightarrow> lwork s' < lwork s)"
proof -
  have s: "lsys_ok s" using lsys_ok_steps [OF assms(3) lsys_ok_start [OF assms(1,2)]] .
  have "length (tbl s) = length l" using lsys_length [OF assms(3)] by (simp add: start_lsys_def)
  then have "list_all locker_done (lockers s) \<Longrightarrow> tbl s = l"
    using lsys_done_free [OF s] assms(2) by (metis nth_equalityI nth_mem)
  then show ?thesis using lsys_progress [OF s] lwork_decreases by auto
qed

theorem locks_no_deadlock_witness:
  "\<exists>s'. lstep (start_lsys [free_mutex] [(True, [''a'', ''b'']), (False, [''c''])]) s'"
  using locks_no_deadlock [of "[free_mutex]" "[(True, [''a'', ''b'']), (False, [''c''])]",
      OF _ _ rtranclp.rtrancl_refl]
  by (simp add: start_lsys_def start_locker_def sortedLockPoses_eq locker_done_def)


lemma two_readers:
  "lstep\<^sup>*\<^sup>* (start_lsys [free_mutex] [(False, [''a'']), (False, [''b''])])
     \<lparr>tbl = [\<lparr>writer = False, readers = 2\<rparr>],
      lockers = [\<lparr>excl = False, waiting = [], held = [0]\<rparr>, \<lparr>excl = False, waiting = [], held = [0]\<rparr>]\<rparr>"
  (is "lstep\<^sup>*\<^sup>* ?s ?u")
proof -
  let ?w = "\<lparr>excl = False, waiting = [0], held = []\<rparr>" and ?h = "\<lparr>excl = False, waiting = [], held = [0]\<rparr>"
  have s: "?s = \<lparr>tbl = [free_mutex], lockers = [?w, ?w]\<rparr>"
    by (simp add: start_lsys_def start_locker_def sortedLockPoses_eq)
  have "lstep ?s \<lparr>tbl = [\<lparr>writer = False, readers = 1\<rparr>], lockers = [?h, ?w]\<rparr>"
    unfolding s
    using lstep.rlock [of 0 "\<lparr>tbl = [free_mutex], lockers = [?w, ?w]\<rparr>" ?w 0 "[]" "[\<lparr>writer = False, readers = 1\<rparr>]"]
    by (simp add: at_pos_def mu_RLock_def free_mutex_def waits_write_def)
  moreover have "lstep \<lparr>tbl = [\<lparr>writer = False, readers = 1\<rparr>], lockers = [?h, ?w]\<rparr> ?u"
    using lstep.rlock [of 1 "\<lparr>tbl = [\<lparr>writer = False, readers = 1\<rparr>], lockers = [?h, ?w]\<rparr>" ?w 0 "[]"
        "[\<lparr>writer = False, readers = 2\<rparr>]"]
    by (simp add: at_pos_def mu_RLock_def waits_write_def)
  ultimately show ?thesis by (meson converse_rtranclp_into_rtranclp rtranclp.rtrancl_refl)
qed


end
