(* ===== verification/List_Struct.thy ===== *)
theory List_Struct
  imports Prelude
begin

text \<open>
  The doubly linked list of \<open>src/memdb/list_struct.go\<close>. The nodes of a list are kept in a
  store: a pointer is \<open>None\<close> (nil) or the address of a node, a new node takes the next free
  address, and following nil is a panic. The lemmas show which sequence of values the linked
  nodes represent and how each operation changes it.
\<close>

section \<open>Nodes and pointers\<close>

type_synonym ptr = "nat option"

record ListNode =
  Prev :: ptr
  Next :: ptr
  Val :: slice

text \<open>
  \<open>LLen\<close> is the field \<open>Len\<close>. The subscription tables map an identifier to a channel;
  \<open>sent\<close> lists the values that a push has sent to a channel.
\<close>

record List =
  nodes :: "ListNode list"
  Head :: nat
  Tail :: nat
  LLen :: int
  LSubscriptions :: "(string \<times> nat) list"
  RSubscriptions :: "(string \<times> nat) list"
  sent :: "(nat \<times> slice) list"

definition NewList :: List where
  "NewList = \<lparr>nodes = [\<lparr>Prev = None, Next = Some 1, Val = None\<rparr>, \<lparr>Prev = Some 0, Next = None, Val = None\<rparr>],
     Head = 0, Tail = 1, LLen = 0, LSubscriptions = [], RSubscriptions = [], sent = []\<rparr>"

definition deref :: "List \<Rightarrow> ptr \<Rightarrow> ListNode option" where
  "deref l p = do { a \<leftarrow> p; nth_opt (nodes l) a }"

definition set_node :: "List \<Rightarrow> ptr \<Rightarrow> (ListNode \<Rightarrow> ListNode) \<Rightarrow> List option" where
  "set_node l p f = do { a \<leftarrow> p; n \<leftarrow> nth_opt (nodes l) a; Some (l\<lparr>nodes := (nodes l)[a := f n]\<rparr>) }"

abbreviation set_Next :: "List \<Rightarrow> ptr \<Rightarrow> ptr \<Rightarrow> List option" where
  "set_Next l p q \<equiv> set_node l p (\<lambda>n. n\<lparr>Next := q\<rparr>)"

abbreviation set_Prev :: "List \<Rightarrow> ptr \<Rightarrow> ptr \<Rightarrow> List option" where
  "set_Prev l p q \<equiv> set_node l p (\<lambda>n. n\<lparr>Prev := q\<rparr>)"

definition new_node :: "List \<Rightarrow> ListNode \<Rightarrow> List" where
  "new_node l n = l\<lparr>nodes := nodes l @ [n]\<rparr>"

section \<open>The operations\<close>

text \<open>\<open>node = node.Next\<close> (or \<open>node.Prev\<close>), \<open>n\<close> times.\<close>

fun walk :: "(ListNode \<Rightarrow> ptr) \<Rightarrow> List \<Rightarrow> nat \<Rightarrow> ptr \<Rightarrow> ptr option" where
  "walk f l 0 p = Some p"
| "walk f l (Suc n) p = do { x \<leftarrow> deref l p; walk f l n (f x) }"

definition Index :: "List \<Rightarrow> int \<Rightarrow> ptr option" where
  "Index l index =
     (if index < 0 then
        if wrap64 (- index) > LLen l then Some None
        else do { t \<leftarrow> deref l (Some (Tail l)); walk Prev l (nat (- 1 - index)) (Prev t) }
      else if index \<ge> LLen l then Some None
      else do { h \<leftarrow> deref l (Some (Head l)); walk Next l (nat index) (Next h) })"

partial_function (option) pos_loop :: "List \<Rightarrow> slice \<Rightarrow> ptr \<Rightarrow> int \<Rightarrow> int option" where
  "pos_loop l val cur pos =
     (if cur = Some (Tail l) then Some (- 1)
      else do { n \<leftarrow> deref l cur;
                if bytes_Equal (Val n) val then Some pos else pos_loop l val (Next n) (pos + 1) })"

definition Pos :: "List \<Rightarrow> slice \<Rightarrow> int option" where
  "Pos l val = do { h \<leftarrow> deref l (Some (Head l)); pos_loop l val (Next h) 0 }"

definition LPop :: "List \<Rightarrow> (List \<times> ptr) option" where
  "LPop l =
     (if LLen l = 0 then Some (l, None)
      else do {
        h \<leftarrow> deref l (Some (Head l));
        let node = Next h;
        n \<leftarrow> deref l node;
        l \<leftarrow> set_Next l (Some (Head l)) (Next n);
        n \<leftarrow> deref l node;
        l \<leftarrow> set_Prev l (Next n) (Some (Head l));
        l \<leftarrow> set_Prev l node None;
        l \<leftarrow> set_Next l node None;
        Some (l\<lparr>LLen := LLen l - 1\<rparr>, node) })"

definition RPop :: "List \<Rightarrow> (List \<times> ptr) option" where
  "RPop l =
     (if LLen l = 0 then Some (l, None)
      else do {
        t \<leftarrow> deref l (Some (Tail l));
        let node = Prev t;
        n \<leftarrow> deref l node;
        l \<leftarrow> set_Prev l (Some (Tail l)) (Prev n);
        n \<leftarrow> deref l node;
        l \<leftarrow> set_Next l (Prev n) (Some (Tail l));
        l \<leftarrow> set_Prev l node None;
        l \<leftarrow> set_Next l node None;
        Some (l\<lparr>LLen := LLen l - 1\<rparr>, node) })"

text \<open>
  The end of \<open>LPush\<close> and of \<open>RPush\<close>: the first subscriber in iteration order is sent the
  first element. (Both look at \<open>LSubscriptions\<close> and pop on the left.)
\<close>

definition notify :: "env \<Rightarrow> List \<Rightarrow> List option" where
  "notify e l =
     (case iter e 0 (map fst (LSubscriptions l)) of [] \<Rightarrow> Some l
      | sub # _ \<Rightarrow> do {
          out \<leftarrow> map_of (LSubscriptions l) sub;
          (l, node) \<leftarrow> LPop l;
          n \<leftarrow> deref l node;
          Some (l\<lparr>sent := sent l @ [(out, Val n)]\<rparr>) })"

definition LPush :: "env \<Rightarrow> List \<Rightarrow> slice \<Rightarrow> List option" where
  "LPush e l val = do {
     h \<leftarrow> deref l (Some (Head l));
     let node = Some (length (nodes l));
     let l = new_node l \<lparr>Prev = Some (Head l), Next = Next h, Val = val\<rparr>;
     l \<leftarrow> set_Next l (Some (Head l)) node;
     n \<leftarrow> deref l node;
     l \<leftarrow> set_Prev l (Next n) node;
     notify e (l\<lparr>LLen := LLen l + 1\<rparr>) }"

definition RPush :: "env \<Rightarrow> List \<Rightarrow> slice \<Rightarrow> List option" where
  "RPush e l val = do {
     t \<leftarrow> deref l (Some (Tail l));
     let node = Some (length (nodes l));
     let l = new_node l \<lparr>Prev = Prev t, Next = Some (Tail l), Val = val\<rparr>;
     l \<leftarrow> set_Prev l (Some (Tail l)) node;
     n \<leftarrow> deref l node;
     l \<leftarrow> set_Next l (Prev n) node;
     notify e (l\<lparr>LLen := LLen l + 1\<rparr>) }"

text \<open>\<open>for node != stop && index < 0 { node = node.Prev; index++ }\<close> and its mirror image.\<close>

fun walk_until :: "(ListNode \<Rightarrow> ptr) \<Rightarrow> List \<Rightarrow> ptr \<Rightarrow> nat \<Rightarrow> ptr \<Rightarrow> ptr option" where
  "walk_until f l stop 0 p = Some p"
| "walk_until f l stop (Suc n) p =
     (if p = stop then Some p else do { x \<leftarrow> deref l p; walk_until f l stop n (f x) })"

definition LSet :: "List \<Rightarrow> int \<Rightarrow> slice \<Rightarrow> (List \<times> bool) option" where
  "LSet l index val =
     (if index < 0 then
        if wrap64 (- index) > LLen l then Some (l, False)
        else do {
          node \<leftarrow> walk_until Prev l (Some (Head l)) (nat (- index)) (Some (Tail l));
          l \<leftarrow> set_node l node (\<lambda>n. n\<lparr>Val := val\<rparr>);
          Some (l, True) }
      else if index \<ge> LLen l then Some (l, False)
      else do {
        node \<leftarrow> walk_until Next l (Some (Tail l)) (nat (index + 1)) (Some (Head l));
        l \<leftarrow> set_node l node (\<lambda>n. n\<lparr>Val := val\<rparr>);
        Some (l, True) })"

text \<open>\<open>for i := 0; i <= end; i++\<close> with \<open>k\<close> rounds left.\<close>

fun range_loop :: "List \<Rightarrow> int \<Rightarrow> nat \<Rightarrow> int \<Rightarrow> ptr \<Rightarrow> slice list \<Rightarrow> slice list option" where
  "range_loop l start 0 i node res = Some res"
| "range_loop l start (Suc k) i node res = do {
     x \<leftarrow> deref l node;
     let node = Next x;
     if i \<ge> start
     then do { y \<leftarrow> deref l node; range_loop l start k (i + 1) node (res @ [Val y]) }
     else range_loop l start k (i + 1) node res }"

definition LRange :: "List \<Rightarrow> int \<Rightarrow> int \<Rightarrow> slice list option option" where
  "LRange l start end0 =
     (let start = (if start < 0 then LLen l + start else start);
          end1 = (if end0 < 0 then LLen l + end0 else end0)
      in if start > end1 \<or> start \<ge> LLen l \<or> end1 < 0 then Some None
         else
           let start = (if start < 0 then 0 else start);
               end2 = (if end1 \<ge> LLen l then LLen l - 1 else end1)
           in map_option Some (range_loop l start (nat (end2 + 1)) 0 (Some (Head l)) []))"

partial_function (option) insert_loop ::
  "(List \<Rightarrow> ptr \<Rightarrow> ListNode \<Rightarrow> List option) \<Rightarrow> List \<Rightarrow> slice \<Rightarrow> ptr \<Rightarrow> int \<Rightarrow> (List \<times> int option) option" where
  "insert_loop ins l tar cur pos =
     (if cur = Some (Tail l) then Some (l, None)
      else do { n \<leftarrow> deref l cur;
                if bytes_Equal (Val n) tar then do { l \<leftarrow> ins l cur n; Some (l, Some pos) }
                else insert_loop ins l tar (Next n) (pos + 1) })"

definition InsertBefore :: "List \<Rightarrow> slice \<Rightarrow> slice \<Rightarrow> (List \<times> int) option" where
  "InsertBefore l val tar = do {
     h \<leftarrow> deref l (Some (Head l));
     (l, pos) \<leftarrow> insert_loop (\<lambda>l cur n. do {
         let node = Some (length (nodes l));
         let l = new_node l \<lparr>Prev = Prev n, Next = cur, Val = val\<rparr>;
         l \<leftarrow> set_Prev l cur node;
         set_Next l (Prev n) node }) l tar (Next h) 0;
     Some (l, case pos of None \<Rightarrow> - 1 | Some p \<Rightarrow> p) }"

definition InsertAfter :: "List \<Rightarrow> slice \<Rightarrow> slice \<Rightarrow> (List \<times> int) option" where
  "InsertAfter l val tar = do {
     h \<leftarrow> deref l (Some (Head l));
     (l, pos) \<leftarrow> insert_loop (\<lambda>l cur n. do {
         let node = Some (length (nodes l));
         let l = new_node l \<lparr>Prev = cur, Next = Next n, Val = val\<rparr>;
         l \<leftarrow> set_Next l cur node;
         set_Prev l (Next n) node }) l tar (Next h) 0;
     Some (l, case pos of None \<Rightarrow> - 1 | Some p \<Rightarrow> p + 1) }"

text \<open>The body of both loops of \<open>RemoveElement\<close>: unlink the node \<open>cur\<close>.\<close>

definition unlink :: "List \<Rightarrow> ptr \<Rightarrow> List option" where
  "unlink l cur = do {
     n \<leftarrow> deref l cur;
     l \<leftarrow> set_Next l (Prev n) (Next n);
     n \<leftarrow> deref l cur;
     l \<leftarrow> set_Prev l (Next n) (Prev n);
     l \<leftarrow> set_Prev l cur None;
     set_Next l cur None }"

partial_function (option) remove_loop ::
  "(ListNode \<Rightarrow> ptr) \<Rightarrow> ptr \<Rightarrow> slice \<Rightarrow> int \<Rightarrow> List \<Rightarrow> ptr \<Rightarrow> int \<Rightarrow> (List \<times> int) option" where
  "remove_loop dir stop val cnt l cur removed =
     (if cur = stop \<or> removed \<ge> cnt then Some (l, removed)
      else do { n \<leftarrow> deref l cur;
                if bytes_Equal (Val n) val
                then do { l \<leftarrow> unlink l cur; remove_loop dir stop val cnt l (dir n) (removed + 1) }
                else remove_loop dir stop val cnt l (dir n) removed })"

definition RemoveElement :: "List \<Rightarrow> slice \<Rightarrow> int \<Rightarrow> (List \<times> int) option" where
  "RemoveElement l val count0 =
     (if LLen l = 0 then Some (l, 0)
      else
        let count1 = (if count0 = 0 then LLen l - 1 else count0) in
        if count1 \<ge> 0
        then do { h \<leftarrow> deref l (Some (Head l)); remove_loop Next (Some (Tail l)) val count1 l (Next h) 0 }
        else do { t \<leftarrow> deref l (Some (Tail l)); remove_loop Prev (Some (Head l)) val (wrap64 (- count1)) l (Prev t) 0 })"

definition LClear :: "List \<Rightarrow> List option" where
  "LClear l =
     (if LLen l = 0 then Some l
      else do {
        h \<leftarrow> deref l (Some (Head l));
        let first = Next h;
        t \<leftarrow> deref l (Some (Tail l));
        let last = Prev t;
        l \<leftarrow> set_Next l (Some (Head l)) (Some (Tail l));
        l \<leftarrow> set_Prev l (Some (Tail l)) (Some (Head l));
        let l = l\<lparr>LLen := 0\<rparr>;
        l \<leftarrow> set_Prev l first None;
        set_Next l last None })"

partial_function (option) trim_loop ::
  "List \<Rightarrow> int \<Rightarrow> int \<Rightarrow> ptr \<Rightarrow> int \<Rightarrow> ptr \<Rightarrow> (ptr \<times> ptr) option" where
  "trim_loop l start end1 cur pos startNode =
     (if cur = Some (Tail l) then Some (startNode, None)
      else
        let startNode = (if pos = start then cur else startNode) in
        if pos = end1 then Some (startNode, cur)
        else do { n \<leftarrow> deref l cur; trim_loop l start end1 (Next n) (pos + 1) startNode })"

text \<open>The end of \<open>Trim\<close>: cut off the discarded nodes, link the others to head and tail.\<close>

definition trim_link :: "List \<Rightarrow> ptr \<Rightarrow> ptr \<Rightarrow> List option" where
  "trim_link l startNode endNode = do {
     h \<leftarrow> deref l (Some (Head l));
     l \<leftarrow> set_Prev l (Next h) None;
     t \<leftarrow> deref l (Some (Tail l));
     l \<leftarrow> set_Next l (Prev t) None;
     s \<leftarrow> deref l startNode;
     l \<leftarrow> (if Prev s \<noteq> None then set_Next l (Prev s) None else Some l);
     x \<leftarrow> deref l endNode;
     l \<leftarrow> (if Next x \<noteq> None then set_Prev l (Next x) None else Some l);
     l \<leftarrow> set_Next l (Some (Head l)) startNode;
     l \<leftarrow> set_Prev l startNode (Some (Head l));
     l \<leftarrow> set_Prev l (Some (Tail l)) endNode;
     set_Next l endNode (Some (Tail l)) }"

definition Trim :: "List \<Rightarrow> int \<Rightarrow> int \<Rightarrow> List option" where
  "Trim l start end0 =
     (if LLen l = 0 then Some l
      else
        let start = (if start < 0 then LLen l + start else start);
            end1 = (if end0 < 0 then LLen l + end0 else end0)
        in if start > end1 \<or> start \<ge> LLen l \<or> end1 < 0 then LClear l
           else
             let start = (if start < 0 then 0 else start);
                 end2 = (if end1 \<ge> LLen l then LLen l - 1 else end1)
             in do {
               h \<leftarrow> deref l (Some (Head l));
               (startNode, endNode) \<leftarrow> trim_loop l start end2 (Next h) 0 None;
               l \<leftarrow> trim_link l startNode endNode;
               Some (l\<lparr>LLen := end2 - start + 1\<rparr>) })"

text \<open>The loops of the commands: push all arguments, pop until a count or an empty list.\<close>

fun push_all :: "('d \<Rightarrow> 'a \<Rightarrow> 'd option) \<Rightarrow> 'd \<Rightarrow> 'a list \<Rightarrow> 'd option" where
  "push_all push d [] = Some d"
| "push_all push d (x # xs) = do { d \<leftarrow> push d x; push_all push d xs }"

fun pop_loop :: "('d \<Rightarrow> ('d \<times> 'a option) option) \<Rightarrow> nat \<Rightarrow> 'd \<Rightarrow> ('d \<times> 'a list) option" where
  "pop_loop pop 0 d = Some (d, [])"
| "pop_loop pop (Suc n) d = do {
     (d, e) \<leftarrow> pop d;
     case e of None \<Rightarrow> Some (d, [])
     | Some x \<Rightarrow> do { (d, xs) \<leftarrow> pop_loop pop n d; Some (d, x # xs) } }"

section \<open>What a list represents\<close>

text \<open>
  \<open>dll l as\<close>: from the head to the tail sentinel, the nodes at the addresses \<open>as\<close> are
  linked in both directions, and no node occurs twice. \<open>vals\<close> are their values.
\<close>

fun links :: "ListNode list \<Rightarrow> nat list \<Rightarrow> bool" where
  "links h (a # b # ps) \<longleftrightarrow> Next (h ! a) = Some b \<and> Prev (h ! b) = Some a \<and> links h (b # ps)"
| "links h ps \<longleftrightarrow> True"

abbreviation path :: "List \<Rightarrow> nat list \<Rightarrow> nat list" where
  "path l as \<equiv> Head l # as @ [Tail l]"

definition dll :: "List \<Rightarrow> nat list \<Rightarrow> bool" where
  "dll l as \<longleftrightarrow> distinct (path l as) \<and> set (path l as) \<subseteq> {..< length (nodes l)}
     \<and> links (nodes l) (path l as) \<and> Prev (nodes l ! Head l) = None \<and> Next (nodes l ! Tail l) = None"

definition vals :: "List \<Rightarrow> nat list \<Rightarrow> slice list" where
  "vals l as = map (\<lambda>a. Val (nodes l ! a)) as"

text \<open>
  A list in the state that the operations expect: the linked nodes are \<open>Len\<close> many and hold
  the values \<open>xs\<close>, and nobody subscribes.
\<close>

definition repr :: "List \<Rightarrow> slice list \<Rightarrow> bool" where
  "repr l xs \<longleftrightarrow> (\<exists>as. dll l as \<and> vals l as = xs) \<and> LLen l = int (length xs) \<and> LSubscriptions l = []"

lemma links_append: "links h (ps @ a # qs) \<longleftrightarrow> links h (ps @ [a]) \<and> links h (a # qs)"
proof (induction ps)
  case (Cons p ps)
  then show ?case by (cases ps) auto
qed simp

lemma links_frame:
  assumes "links h ps" and "\<forall>a \<in> set (butlast ps). Next (h' ! a) = Next (h ! a)"
    and "\<forall>a \<in> set (tl ps). Prev (h' ! a) = Prev (h ! a)"
  shows "links h' ps"
  using assms
proof (induction h ps rule: links.induct)
  case (1 h a b ps)
  then show ?case by (cases ps) (auto split: if_splits)
qed simp_all

lemma links_prefix:
  "links h (ps @ [a]) \<Longrightarrow> \<forall>c \<in> set ps. Next (h' ! c) = Next (h ! c) \<Longrightarrow>
     \<forall>c \<in> set (ps @ [a]). Prev (h' ! c) = Prev (h ! c) \<Longrightarrow> links h' (ps @ [a])"
  by (erule links_frame) (cases ps; auto)+

lemma links_suffix:
  "links h (b # qs) \<Longrightarrow> \<forall>c \<in> set (b # qs). Next (h' ! c) = Next (h ! c) \<Longrightarrow>
     \<forall>c \<in> set qs. Prev (h' ! c) = Prev (h ! c) \<Longrightarrow> links h' (b # qs)"
  by (erule links_frame) (auto dest: in_set_butlastD split: if_splits)

lemma links_unlink:
  assumes "links h (ps @ a # x # b # qs)" and "distinct (ps @ a # x # b # qs)"
    and "Next (h' ! a) = Some b" and "Prev (h' ! b) = Some a"
    and "\<And>c. c \<noteq> a \<Longrightarrow> c \<noteq> x \<Longrightarrow> Next (h' ! c) = Next (h ! c)"
    and "\<And>c. c \<noteq> b \<Longrightarrow> c \<noteq> x \<Longrightarrow> Prev (h' ! c) = Prev (h ! c)"
  shows "links h' (ps @ a # b # qs)"
proof -
  have l: "links h (ps @ [a])" "links h (b # qs)"
    using assms(1) links_append [of h ps a "x # b # qs"] by auto
  have "\<forall>c \<in> set ps. c \<noteq> a \<and> c \<noteq> x \<and> c \<noteq> b" "\<forall>c \<in> set qs. c \<noteq> a \<and> c \<noteq> x \<and> c \<noteq> b"
    using assms(2) by auto
  then have "links h' (ps @ [a])" "links h' (b # qs)"
    using assms(2) by (auto intro!: links_prefix [OF l(1)] links_suffix [OF l(2)] simp: assms(5,6))
  then show ?thesis using assms(3,4) links_append [of h' ps a "b # qs"] by simp
qed

lemma links_insert:
  assumes "links h (ps @ a # b # qs)" and "distinct (ps @ a # b # qs)"
    and "Next (h' ! a) = Some x" and "Prev (h' ! x) = Some a" and "Next (h' ! x) = Some b" and "Prev (h' ! b) = Some x"
    and "\<And>c. c \<in> set (ps @ a # b # qs) \<Longrightarrow> c \<noteq> a \<Longrightarrow> Next (h' ! c) = Next (h ! c)"
    and "\<And>c. c \<in> set (ps @ a # b # qs) \<Longrightarrow> c \<noteq> b \<Longrightarrow> Prev (h' ! c) = Prev (h ! c)"
  shows "links h' (ps @ a # x # b # qs)"
proof -
  have l: "links h (ps @ [a])" "links h (b # qs)"
    using assms(1) links_append [of h ps a "b # qs"] by auto
  have "\<forall>c \<in> set ps. c \<noteq> a \<and> c \<noteq> b" "\<forall>c \<in> set qs. c \<noteq> a \<and> c \<noteq> b"
    using assms(2) by auto
  then have "links h' (ps @ [a])" "links h' (b # qs)"
    using assms(2) by (auto intro!: links_prefix [OF l(1)] links_suffix [OF l(2)] simp: assms(7,8))
  then show ?thesis using assms(3-6) links_append [of h' ps a "x # b # qs"] by simp
qed

lemma deref_lt [simp]: "a < length (nodes l) \<Longrightarrow> deref l (Some a) = Some (nodes l ! a)"
  by (simp add: deref_def)

lemma deref_None [simp]: "deref l None = None"
  by (simp add: deref_def)

lemma set_node_lt [simp]:
  "a < length (nodes l) \<Longrightarrow> set_node l (Some a) f = Some (l\<lparr>nodes := (nodes l)[a := f (nodes l ! a)]\<rparr>)"
  by (simp add: set_node_def)

lemma set_node_None [simp]: "set_node l None f = None"
  by (simp add: set_node_def)

lemma dll_lt: "dll l as \<Longrightarrow> a \<in> set (path l as) \<Longrightarrow> a < length (nodes l)"
  unfolding dll_def by blast

lemma dll_Head_Tail:
  "dll l as \<Longrightarrow> Head l < length (nodes l)" "dll l as \<Longrightarrow> Tail l < length (nodes l)"
  by (auto simp: dll_def)

lemma dll_distinct: "dll l as \<Longrightarrow> distinct (path l as)"
  unfolding dll_def by blast

text \<open>The neighbours of a node in the middle of a list.\<close>

lemma path_split:
  obtains ps b qs where "path l (us @ x # vs) = ps @ last (Head l # us) # x # b # qs"
    and "ps @ [last (Head l # us)] = Head l # us" and "b = hd (vs @ [Tail l])"
    and "b # qs = vs @ [Tail l]"
proof -
  obtain b qs where b: "vs @ [Tail l] = b # qs" by (cases "vs @ [Tail l]") auto
  show ?thesis
    by (rule that [of "butlast (Head l # us)" b qs])
      (use b append_butlast_last_id [of "Head l # us"] in \<open>auto simp del: append_butlast_last_id\<close>)
qed

section \<open>Unlinking and inserting a node\<close>

definition unlinked :: "List \<Rightarrow> nat \<Rightarrow> nat \<Rightarrow> nat \<Rightarrow> List" where
  "unlinked l a x b = l\<lparr>nodes := (nodes l)[a := (nodes l ! a)\<lparr>Next := Some b\<rparr>,
     b := (nodes l ! b)\<lparr>Prev := Some a\<rparr>, x := (nodes l ! x)\<lparr>Prev := None, Next := None\<rparr>]\<rparr>"

definition inserted :: "List \<Rightarrow> nat \<Rightarrow> nat \<Rightarrow> slice \<Rightarrow> List" where
  "inserted l a b v = l\<lparr>nodes := (nodes l)[a := (nodes l ! a)\<lparr>Next := Some (length (nodes l))\<rparr>,
     b := (nodes l ! b)\<lparr>Prev := Some (length (nodes l))\<rparr>] @ [\<lparr>Prev = Some a, Next = Some b, Val = v\<rparr>]\<rparr>"

lemma unlinked_simps [simp]:
  "Head (unlinked l a x b) = Head l" "Tail (unlinked l a x b) = Tail l" "LLen (unlinked l a x b) = LLen l"
  "LSubscriptions (unlinked l a x b) = LSubscriptions l" "length (nodes (unlinked l a x b)) = length (nodes l)"
  by (simp_all add: unlinked_def)

lemma inserted_simps [simp]:
  "Head (inserted l a b v) = Head l" "Tail (inserted l a b v) = Tail l" "LLen (inserted l a b v) = LLen l"
  "LSubscriptions (inserted l a b v) = LSubscriptions l" "length (nodes (inserted l a b v)) = Suc (length (nodes l))"
  by (simp_all add: inserted_def)

lemma dll_fields [simp]:
  "dll (l\<lparr>LLen := n\<rparr>) as = dll l as" "vals (l\<lparr>LLen := n\<rparr>) as = vals l as"
  by (simp_all add: dll_def vals_def)

text \<open>A node between two others: the pointers of the three.\<close>

lemma dll_neighbours:
  assumes "dll l (us @ x # vs)"
  defines "a \<equiv> last (Head l # us)" and "b \<equiv> hd (vs @ [Tail l])"
  shows "Next (nodes l ! a) = Some x" "Prev (nodes l ! x) = Some a"
    "Next (nodes l ! x) = Some b" "Prev (nodes l ! b) = Some x"
    "a < length (nodes l)" "x < length (nodes l)" "b < length (nodes l)"
    "a \<noteq> x" "a \<noteq> b" "x \<noteq> b"
proof -
  obtain ps qs where p: "path l (us @ x # vs) = ps @ a # x # b # qs"
    using path_split [of l us x vs] unfolding a_def b_def by metis
  have d: "distinct (ps @ a # x # b # qs)" "links (nodes l) (ps @ a # x # b # qs)"
    "set (ps @ a # x # b # qs) \<subseteq> {..< length (nodes l)}"
    using assms(1) unfolding dll_def p by auto
  then show "a < length (nodes l)" "x < length (nodes l)" "b < length (nodes l)"
    "a \<noteq> x" "a \<noteq> b" "x \<noteq> b" by auto
  from d(2) show "Next (nodes l ! a) = Some x" "Prev (nodes l ! x) = Some a"
    "Next (nodes l ! x) = Some b" "Prev (nodes l ! b) = Some x"
    using links_append [of "nodes l" ps a "x # b # qs"] by auto
qed

lemma dll_unlinked:
  assumes "dll l (us @ x # vs)"
  defines "a \<equiv> last (Head l # us)" and "b \<equiv> hd (vs @ [Tail l])"
  shows "dll (unlinked l a x b) (us @ vs)" and "vals (unlinked l a x b) as = vals l as"
    and "Val (nodes (unlinked l a x b) ! c) = Val (nodes l ! c)"
proof -
  note n = dll_neighbours [OF assms(1), folded a_def b_def]
  obtain ps qs where p: "path l (us @ x # vs) = ps @ a # x # b # qs"
    and ps: "ps @ [a] = Head l # us" "b # qs = vs @ [Tail l]"
    using path_split [of l us x vs] unfolding a_def b_def by metis
  have p': "path l (us @ vs) = ps @ a # b # qs"
    using ps by (metis append.assoc append_Cons append_Nil)
  have d: "distinct (ps @ a # x # b # qs)" "links (nodes l) (ps @ a # x # b # qs)"
    "set (ps @ a # x # b # qs) \<subseteq> {..< length (nodes l)}"
    using assms(1) unfolding dll_def p by auto
  let ?h = "nodes (unlinked l a x b)"
  have h: "Next (?h ! c) = (if c = a then Some b else if c = x then None else Next (nodes l ! c))"
    "Prev (?h ! c) = (if c = b then Some a else if c = x then None else Prev (nodes l ! c))"
    "Val (?h ! c) = Val (nodes l ! c)" for c
    using n by (auto simp: unlinked_def nth_list_update)
  have "links ?h (ps @ a # b # qs)"
    by (rule links_unlink [OF d(2,1)]) (auto simp: h n)
  moreover have "Head l \<noteq> x" "Tail l \<noteq> x" "Head l \<noteq> b" "Tail l \<noteq> a"
    using dll_distinct [OF assms(1)] by (auto simp: a_def b_def hd_append split: if_splits dest: last_in_set hd_in_set)
  ultimately show "dll (unlinked l a x b) (us @ vs)"
    using assms(1) d(1,3) h p' unfolding dll_def by auto
  show "Val (?h ! c) = Val (nodes l ! c)" by (rule h)
  show "vals (unlinked l a x b) as = vals l as" by (simp add: vals_def h)
qed

lemma path_split2:
  obtains ps qs where "path l (us @ vs) = ps @ last (Head l # us) # hd (vs @ [Tail l]) # qs"
    and "ps @ [last (Head l # us)] = Head l # us" and "hd (vs @ [Tail l]) # qs = vs @ [Tail l]"
proof -
  obtain b qs where b: "vs @ [Tail l] = b # qs" by (cases "vs @ [Tail l]") auto
  show ?thesis
    by (rule that [of "butlast (Head l # us)" qs])
      (use b append_butlast_last_id [of "Head l # us"] in \<open>auto simp del: append_butlast_last_id\<close>)
qed

lemma dll_adjacent:
  assumes "dll l (us @ vs)"
  defines "a \<equiv> last (Head l # us)" and "b \<equiv> hd (vs @ [Tail l])"
  shows "Next (nodes l ! a) = Some b" "Prev (nodes l ! b) = Some a"
    "a < length (nodes l)" "b < length (nodes l)" "a \<noteq> b"
proof -
  obtain ps qs where p: "path l (us @ vs) = ps @ a # b # qs"
    using path_split2 [of l us vs] unfolding a_def b_def by metis
  have d: "distinct (ps @ a # b # qs)" "links (nodes l) (ps @ a # b # qs)"
    "set (ps @ a # b # qs) \<subseteq> {..< length (nodes l)}"
    using assms(1) unfolding dll_def p by auto
  then show "a < length (nodes l)" "b < length (nodes l)" "a \<noteq> b" by auto
  from d(2) show "Next (nodes l ! a) = Some b" "Prev (nodes l ! b) = Some a"
    using links_append [of "nodes l" ps a "b # qs"] by auto
qed

lemma dll_inserted:
  assumes "dll l (us @ vs)"
  defines "a \<equiv> last (Head l # us)" and "b \<equiv> hd (vs @ [Tail l])"
  shows "dll (inserted l a b v) (us @ length (nodes l) # vs)"
    and "vals (inserted l a b v) (us @ length (nodes l) # vs) = vals l us @ v # vals l vs"
proof -
  note n = dll_adjacent [OF assms(1), folded a_def b_def]
  let ?x = "length (nodes l)"
  obtain ps qs where p: "path l (us @ vs) = ps @ a # b # qs"
    and ps: "ps @ [a] = Head l # us" "b # qs = vs @ [Tail l]"
    using path_split2 [of l us vs] unfolding a_def b_def by metis
  have p': "path l (us @ ?x # vs) = ps @ a # ?x # b # qs"
    using ps by (metis append.assoc append_Cons append_Nil)
  have d: "distinct (ps @ a # b # qs)" "links (nodes l) (ps @ a # b # qs)"
    "set (ps @ a # b # qs) \<subseteq> {..< length (nodes l)}"
    using assms(1) unfolding dll_def p by auto
  let ?h = "nodes (inserted l a b v)"
  have h: "c < length (nodes l) \<Longrightarrow> Next (?h ! c) = (if c = a then Some ?x else Next (nodes l ! c))"
    "c < length (nodes l) \<Longrightarrow> Prev (?h ! c) = (if c = b then Some ?x else Prev (nodes l ! c))"
    "c < length (nodes l) \<Longrightarrow> Val (?h ! c) = Val (nodes l ! c)"
    "?h ! ?x = \<lparr>Prev = Some a, Next = Some b, Val = v\<rparr>" for c
    using n by (auto simp: inserted_def nth_append nth_list_update)
  have "links ?h (ps @ a # ?x # b # qs)"
    by (rule links_insert [OF d(2,1)]) (use d(3) in \<open>auto simp: h n\<close>)
  moreover have "Head l \<noteq> b" "Tail l \<noteq> a"
    using dll_distinct [OF assms(1)] by (auto simp: a_def b_def hd_append split: if_splits dest: last_in_set hd_in_set)
  ultimately show "dll (inserted l a b v) (us @ ?x # vs)"
    using assms(1) d(1,3) h dll_Head_Tail [OF assms(1)] p' unfolding dll_def by auto
  show "vals (inserted l a b v) (us @ ?x # vs) = vals l us @ v # vals l vs"
    using assms(1) by (auto simp: vals_def h dll_def)
qed

section \<open>Push and pop\<close>

lemma notify_none: "iter_ok e \<Longrightarrow> LSubscriptions l = [] \<Longrightarrow> notify e l = Some l"
  using iter_ok_length [of e 0 "[]"] by (simp add: notify_def)

lemma LPush_eq:
  assumes "dll l as" and "iter_ok e" and "LSubscriptions l = []"
  shows "LPush e l v = Some ((inserted l (Head l) (hd (as @ [Tail l])) v)\<lparr>LLen := LLen l + 1\<rparr>)"
proof -
  note n = dll_adjacent [of l "[]" as, simplified, OF assms(1)]
  show ?thesis using n assms(2,3)
    by (simp add: LPush_def Let_def new_node_def nth_append notify_none inserted_def list_update_append)
qed

lemma RPush_eq:
  assumes "dll l as" and "iter_ok e" and "LSubscriptions l = []"
  shows "RPush e l v = Some ((inserted l (last (Head l # as)) (Tail l) v)\<lparr>LLen := LLen l + 1\<rparr>)"
proof -
  note n = dll_adjacent [of l as "[]", unfolded append_Nil append_Nil2 list.sel, OF assms(1)]
  show ?thesis using n assms(2,3)
    by (simp add: RPush_def Let_def new_node_def nth_append notify_none inserted_def list_update_append
        list_update_swap [of "Tail l"] del: last.simps)
qed

lemma LPop_eq:
  assumes "dll l (x # as)" and "LLen l \<noteq> 0"
  shows "LPop l = Some ((unlinked l (Head l) x (hd (as @ [Tail l])))\<lparr>LLen := LLen l - 1\<rparr>, Some x)"
proof -
  note n = dll_neighbours [of l "[]" x as, simplified, OF assms(1)]
  show ?thesis using n assms(2) by (simp add: LPop_def Let_def unlinked_def)
qed

lemma RPop_eq:
  assumes "dll l (as @ [x])" and "LLen l \<noteq> 0"
  shows "RPop l = Some ((unlinked l (last (Head l # as)) x (Tail l))\<lparr>LLen := LLen l - 1\<rparr>, Some x)"
proof -
  note n = dll_neighbours [of l as x "[]", unfolded append_Nil list.sel, OF assms(1)]
  show ?thesis using n assms(2)
    by (simp add: RPop_def Let_def unlinked_def list_update_swap [of "Tail l"] del: last.simps)
qed

lemma LPop_stale: "dll l [] \<Longrightarrow> LLen l \<noteq> 0 \<Longrightarrow> LPop l = None"
  by (simp add: LPop_def Let_def dll_def)

lemma RPop_stale: "dll l [] \<Longrightarrow> LLen l \<noteq> 0 \<Longrightarrow> RPop l = None"
  by (simp add: RPop_def Let_def dll_def)

text \<open>What a caller reads of a popped node: nothing for nil, else its value.\<close>

definition node_Val :: "List \<Rightarrow> ptr \<Rightarrow> slice option option" where
  "node_Val l node = (case node of None \<Rightarrow> Some None | Some _ \<Rightarrow> map_option (\<lambda>n. Some (Val n)) (deref l node))"

definition LPop_Val :: "List \<Rightarrow> (List \<times> slice option) option" where
  "LPop_Val l = do { (l, e) \<leftarrow> LPop l; v \<leftarrow> node_Val l e; Some (l, v) }"

definition RPop_Val :: "List \<Rightarrow> (List \<times> slice option) option" where
  "RPop_Val l = do { (l, e) \<leftarrow> RPop l; v \<leftarrow> node_Val l e; Some (l, v) }"

text \<open>
  The weaker condition that also a list with a stale \<open>Len\<close> satisfies: at least as many as
  there are nodes.
\<close>

definition list_ok :: "List \<Rightarrow> bool" where
  "list_ok l \<longleftrightarrow> (\<exists>as. dll l as \<and> int (length as) \<le> LLen l) \<and> LSubscriptions l = []"

lemma repr_list_ok: "repr l xs \<Longrightarrow> list_ok l"
  by (auto simp: repr_def list_ok_def vals_def)

lemma repr_NewList [simp]: "repr NewList []"
  unfolding repr_def by (auto simp: NewList_def dll_def vals_def intro!: exI [of _ "[]"])

lemma list_ok_NewList [simp]: "list_ok NewList"
  using repr_NewList by (rule repr_list_ok)

lemma LPush_repr:
  assumes "repr l xs" and "iter_ok e"
  obtains l' where "LPush e l v = Some l'" and "repr l' (v # xs)"
proof -
  obtain as where as: "dll l as" "vals l as = xs" and l: "LLen l = int (length xs)" "LSubscriptions l = []"
    using assms(1) by (auto simp: repr_def)
  have "repr ((inserted l (Head l) (hd (as @ [Tail l])) v)\<lparr>LLen := LLen l + 1\<rparr>) (v # xs)"
    using dll_inserted [of l "[]" as v] as l unfolding repr_def by (auto simp: vals_def)
  then show ?thesis using LPush_eq [OF as(1) assms(2) l(2)] that by blast
qed

lemma RPush_repr:
  assumes "repr l xs" and "iter_ok e"
  obtains l' where "RPush e l v = Some l'" and "repr l' (xs @ [v])"
proof -
  obtain as where as: "dll l as" "vals l as = xs" and l: "LLen l = int (length xs)" "LSubscriptions l = []"
    using assms(1) by (auto simp: repr_def)
  have "repr ((inserted l (last (Head l # as)) (Tail l) v)\<lparr>LLen := LLen l + 1\<rparr>) (xs @ [v])"
    using dll_inserted [of l as "[]" v] as l unfolding repr_def by (auto simp: vals_def simp del: last.simps)
  then show ?thesis using RPush_eq [OF as(1) assms(2) l(2)] that by blast
qed

lemma LPop_Val_repr:
  assumes "repr l xs"
  obtains l' where "LPop_Val l = Some (l', case xs of [] \<Rightarrow> None | x # _ \<Rightarrow> Some x)" and "repr l' (tl xs)"
proof (cases xs)
  case Nil
  then show ?thesis using assms that [of l] by (simp add: LPop_Val_def LPop_def repr_def node_Val_def)
next
  case (Cons v vs)
  with assms obtain x as where as: "dll l (x # as)" "vals l (x # as) = xs" and l: "LLen l = int (length xs)" "LSubscriptions l = []"
    by (auto simp: repr_def vals_def)
  let ?l = "(unlinked l (Head l) x (hd (as @ [Tail l])))\<lparr>LLen := LLen l - 1\<rparr>"
  note u = dll_unlinked [of l "[]" x as, simplified, OF as(1)]
  have "x < length (nodes l)" using dll_lt [OF as(1), of x] by simp
  then have "LPop_Val l = Some (?l, Some v)"
    using Cons l as u(3) by (simp add: LPop_Val_def LPop_eq [OF as(1)] node_Val_def vals_def)
  moreover have "repr ?l vs"
    using u(1,2) as(2) l Cons unfolding repr_def by (auto simp: vals_def)
  ultimately show ?thesis using that Cons by simp
qed

lemma RPop_Val_repr:
  assumes "repr l xs"
  obtains l' where "RPop_Val l = Some (l', if xs = [] then None else Some (last xs))" and "repr l' (butlast xs)"
proof (cases xs rule: rev_cases)
  case Nil
  then show ?thesis using assms that [of l] by (simp add: RPop_Val_def RPop_def repr_def node_Val_def)
next
  case (snoc vs v)
  with assms obtain as0 where "dll l as0" "vals l as0 = vs @ [v]" and l: "LLen l = int (length xs)" "LSubscriptions l = []"
    by (auto simp: repr_def)
  then obtain x as where as: "dll l (as @ [x])" "vals l (as @ [x]) = xs"
    using snoc by (cases as0 rule: rev_cases) (auto simp: vals_def)
  let ?l = "(unlinked l (last (Head l # as)) x (Tail l))\<lparr>LLen := LLen l - 1\<rparr>"
  note u = dll_unlinked [of l as x "[]", unfolded append_Nil append_Nil2 list.sel, OF as(1)]
  have "x < length (nodes l)" using dll_lt [OF as(1), of x] by simp
  then have "RPop_Val l = Some (?l, Some v)"
    using snoc l as u(3) by (simp add: RPop_Val_def RPop_eq [OF as(1)] node_Val_def vals_def del: last.simps)
  moreover have "repr ?l vs"
    using u(1,2) as(2) l snoc unfolding repr_def by (auto simp: vals_def simp del: last.simps)
  ultimately show ?thesis using that snoc by simp
qed

section \<open>The interface of a double-ended queue\<close>

text \<open>
  What the list commands rely on: a relation to the sequence a list represents, and what
  the four ends do to it. Pushing many and popping many follow.
\<close>

locale deque =
  fixes rep :: "'d \<Rightarrow> 'a list \<Rightarrow> bool"
    and lpush :: "'d \<Rightarrow> 'a \<Rightarrow> 'd option"
    and rpush :: "'d \<Rightarrow> 'a \<Rightarrow> 'd option"
    and lpop :: "'d \<Rightarrow> ('d \<times> 'a option) option"
    and rpop :: "'d \<Rightarrow> ('d \<times> 'a option) option"
  assumes lpush_law: "rep d xs \<Longrightarrow> \<exists>d'. lpush d x = Some d' \<and> rep d' (x # xs)"
    and rpush_law: "rep d xs \<Longrightarrow> \<exists>d'. rpush d x = Some d' \<and> rep d' (xs @ [x])"
    and lpop_law: "rep d xs \<Longrightarrow> \<exists>d'. lpop d = Some (d', if xs = [] then None else Some (hd xs)) \<and> rep d' (tl xs)"
    and rpop_law: "rep d xs \<Longrightarrow> \<exists>d'. rpop d = Some (d', if xs = [] then None else Some (last xs)) \<and> rep d' (butlast xs)"
begin

lemma lpush_all: "rep d xs \<Longrightarrow> \<exists>d'. push_all lpush d ys = Some d' \<and> rep d' (rev ys @ xs)"
proof (induction ys arbitrary: d xs)
  case (Cons y ys)
  obtain d1 where "lpush d y = Some d1" "rep d1 (y # xs)" using lpush_law [OF Cons.prems] by blast
  with Cons.IH [of d1 "y # xs"] show ?case by auto
qed auto

lemma rpush_all: "rep d xs \<Longrightarrow> \<exists>d'. push_all rpush d ys = Some d' \<and> rep d' (xs @ ys)"
proof (induction ys arbitrary: d xs)
  case (Cons y ys)
  obtain d1 where "rpush d y = Some d1" "rep d1 (xs @ [y])" using rpush_law [OF Cons.prems] by blast
  with Cons.IH [of d1 "xs @ [y]"] show ?case by auto
qed auto

lemma lpop_many: "rep d xs \<Longrightarrow> \<exists>d'. pop_loop lpop n d = Some (d', take n xs) \<and> rep d' (drop n xs)"
proof (induction n arbitrary: d xs)
  case (Suc n)
  obtain d1 where d1: "lpop d = Some (d1, if xs = [] then None else Some (hd xs))" "rep d1 (tl xs)"
    using lpop_law [OF Suc.prems] by blast
  with Suc.IH [OF d1(2)] show ?case by (cases xs) auto
qed auto

lemma rpop_many:
  "rep d xs \<Longrightarrow> \<exists>d'. pop_loop rpop n d = Some (d', take n (rev xs)) \<and> rep d' (take (length xs - n) xs)"
proof (induction n arbitrary: d xs)
  case (Suc n)
  obtain d1 where d1: "rpop d = Some (d1, if xs = [] then None else Some (last xs))" "rep d1 (butlast xs)"
    using rpop_law [OF Suc.prems] by blast
  with Suc.IH [OF d1(2)] show ?case by (cases xs rule: rev_cases) auto
qed auto

text \<open>First in, first out: what is pushed on the right of an empty queue comes out on the left in order.\<close>

lemma fifo: "rep d [] \<Longrightarrow> \<exists>d1 d2. push_all rpush d ys = Some d1 \<and> pop_loop lpop (length ys) d1 = Some (d2, ys) \<and> rep d2 []"
  using rpush_all [of d "[]" ys] lpop_many [of _ ys "length ys"] by fastforce

end

text \<open>The linked list provides it, for every iteration order of maps.\<close>

definition erepr :: "env \<Rightarrow> List \<Rightarrow> slice list \<Rightarrow> bool" where
  "erepr e l xs \<longleftrightarrow> iter_ok e \<and> repr l xs"

interpretation dq: deque "erepr e" "LPush e" "RPush e" LPop_Val RPop_Val for e
proof
  fix l xs and x :: slice
  assume "erepr e l xs"
  then have e: "iter_ok e" and l: "repr l xs" by (simp_all add: erepr_def)
  show "\<exists>l'. LPush e l x = Some l' \<and> erepr e l' (x # xs)"
    using LPush_repr [OF l e, of x] e unfolding erepr_def by metis
  show "\<exists>l'. RPush e l x = Some l' \<and> erepr e l' (xs @ [x])"
    using RPush_repr [OF l e, of x] e unfolding erepr_def by metis
  show "\<exists>l'. LPop_Val l = Some (l', if xs = [] then None else Some (hd xs)) \<and> erepr e l' (tl xs)"
    using e by (rule_tac LPop_Val_repr [OF l]) (auto simp: erepr_def split: list.splits)
  show "\<exists>l'. RPop_Val l = Some (l', if xs = [] then None else Some (last xs)) \<and> erepr e l' (butlast xs)"
    using e by (rule_tac RPop_Val_repr [OF l]) (auto simp: erepr_def)
qed

lemma LPush_list_ok:
  assumes "list_ok l" and "iter_ok e"
  obtains l' where "LPush e l v = Some l'" and "list_ok l'" and "LLen l' = LLen l + 1"
proof -
  obtain as where as: "dll l as" "int (length as) \<le> LLen l" and l: "LSubscriptions l = []"
    using assms(1) by (auto simp: list_ok_def)
  have "list_ok ((inserted l (Head l) (hd (as @ [Tail l])) v)\<lparr>LLen := LLen l + 1\<rparr>)"
    using dll_inserted(1) [of l "[]" as v] as l unfolding list_ok_def by force
  then show ?thesis using LPush_eq [OF as(1) assms(2) l] that by simp
qed

lemma RPush_list_ok:
  assumes "list_ok l" and "iter_ok e"
  obtains l' where "RPush e l v = Some l'" and "list_ok l'" and "LLen l' = LLen l + 1"
proof -
  obtain as where as: "dll l as" "int (length as) \<le> LLen l" and l: "LSubscriptions l = []"
    using assms(1) by (auto simp: list_ok_def)
  have "list_ok ((inserted l (last (Head l # as)) (Tail l) v)\<lparr>LLen := LLen l + 1\<rparr>)"
    using dll_inserted(1) [of l as "[]" v] as l unfolding list_ok_def by (force simp del: last.simps)
  then show ?thesis using RPush_eq [OF as(1) assms(2) l] that by simp
qed

lemma push_all_list_ok:
  assumes "\<And>l v. list_ok l \<Longrightarrow> \<exists>l'. push l v = Some l' \<and> list_ok l' \<and> LLen l' = LLen l + 1"
  shows "list_ok l \<Longrightarrow> \<exists>l'. push_all push l vs = Some l' \<and> list_ok l' \<and> LLen l' = LLen l + int (length vs)"
proof (induction vs arbitrary: l)
  case (Cons v vs)
  obtain l1 where "push l v = Some l1" "list_ok l1" "LLen l1 = LLen l + 1" using assms [OF Cons.prems] by blast
  with Cons.IH [of l1] show ?case by auto
qed auto

lemma LPop_list_ok:
  assumes "list_ok l" and "LPop l = Some (l', p)"
  shows "list_ok l'" and "LLen l \<noteq> 0 \<Longrightarrow> LLen l' = LLen l - 1" and "LLen l = 0 \<longleftrightarrow> p = None"
    and "p \<noteq> None \<Longrightarrow> \<exists>n. deref l' p = Some n"
proof -
  obtain as where as: "dll l as" "int (length as) \<le> LLen l" and l: "LSubscriptions l = []"
    using assms(1) by (auto simp: list_ok_def)
  have "list_ok l' \<and> (LLen l \<noteq> 0 \<longrightarrow> LLen l' = LLen l - 1) \<and> (LLen l = 0 \<longleftrightarrow> p = None) \<and> (p \<noteq> None \<longrightarrow> (\<exists>n. deref l' p = Some n))"
  proof (cases "LLen l = 0")
    case True
    then show ?thesis using assms by (auto simp: LPop_def)
  next
    case False
    then obtain x bs where x: "as = x # bs" using LPop_stale assms(2) as(1) by (cases as) auto
    have e: "l' = (unlinked l (Head l) x (hd (bs @ [Tail l])))\<lparr>LLen := LLen l - 1\<rparr>" "p = Some x"
      using LPop_eq as(1) False assms(2) x by auto
    moreover have "x < length (nodes l)" using dll_lt [OF as(1), of x] x by simp
    ultimately show ?thesis
      using dll_unlinked(1) [of l "[]" x bs] as l x False unfolding list_ok_def by force
  qed
  then show "list_ok l'" "LLen l \<noteq> 0 \<Longrightarrow> LLen l' = LLen l - 1" "LLen l = 0 \<longleftrightarrow> p = None" 
    "p \<noteq> None \<Longrightarrow> \<exists>n. deref l' p = Some n" by auto
qed

lemma RPop_list_ok:
  assumes "list_ok l" and "RPop l = Some (l', p)"
  shows "list_ok l'" and "LLen l \<noteq> 0 \<Longrightarrow> LLen l' = LLen l - 1" and "LLen l = 0 \<longleftrightarrow> p = None"
    and "p \<noteq> None \<Longrightarrow> \<exists>n. deref l' p = Some n"
proof -
  obtain as where as: "dll l as" "int (length as) \<le> LLen l" and l: "LSubscriptions l = []"
    using assms(1) by (auto simp: list_ok_def)
  have "list_ok l' \<and> (LLen l \<noteq> 0 \<longrightarrow> LLen l' = LLen l - 1) \<and> (LLen l = 0 \<longleftrightarrow> p = None) \<and> (p \<noteq> None \<longrightarrow> (\<exists>n. deref l' p = Some n))"
  proof (cases "LLen l = 0")
    case True
    then show ?thesis using assms by (auto simp: RPop_def)
  next
    case False
    then obtain x bs where x: "as = bs @ [x]" using RPop_stale assms(2) as(1) by (cases as rule: rev_cases) auto
    have e: "l' = (unlinked l (last (Head l # bs)) x (Tail l))\<lparr>LLen := LLen l - 1\<rparr>" "p = Some x"
      using RPop_eq as(1) False assms(2) x by auto
    moreover have "x < length (nodes l)" using dll_lt [OF as(1), of x] x by simp
    ultimately show ?thesis
      using dll_unlinked(1) [of l bs x "[]"] as l x False unfolding list_ok_def by (force simp del: last.simps)
  qed
  then show "list_ok l'" "LLen l \<noteq> 0 \<Longrightarrow> LLen l' = LLen l - 1" "LLen l = 0 \<longleftrightarrow> p = None"
    "p \<noteq> None \<Longrightarrow> \<exists>n. deref l' p = Some n" by auto
qed

section \<open>Reading and writing by index\<close>

lemma links_nth:
  "links h p \<Longrightarrow> Suc i < length p \<Longrightarrow> Next (h ! (p ! i)) = Some (p ! Suc i) \<and> Prev (h ! (p ! Suc i)) = Some (p ! i)"
proof (induction h p arbitrary: i rule: links.induct)
  case (1 h a b ps)
  then show ?case by (cases i) auto
qed auto

lemma dll_nth:
  assumes "dll l as" and "Suc i < length (path l as)"
  shows "Next (nodes l ! (path l as ! i)) = Some (path l as ! Suc i)"
    and "Prev (nodes l ! (path l as ! Suc i)) = Some (path l as ! i)"
  using links_nth [of "nodes l" "path l as" i] assms unfolding dll_def by auto

lemma dll_nth_lt: "dll l as \<Longrightarrow> i < length (path l as) \<Longrightarrow> path l as ! i < length (nodes l)"
  by (erule dll_lt) (rule nth_mem)

lemma walk_Next:
  "dll l as \<Longrightarrow> i + n < length (path l as) \<Longrightarrow> walk Next l n (Some (path l as ! i)) = Some (Some (path l as ! (i + n)))"
proof (induction n arbitrary: i)
  case (Suc n)
  have "path l as ! i < length (nodes l)" using Suc.prems by (intro dll_nth_lt) auto
  moreover have "Next (nodes l ! (path l as ! i)) = Some (path l as ! Suc i)"
    using Suc.prems by (intro dll_nth) auto
  ultimately show ?case using Suc.IH [of "Suc i"] Suc.prems by (simp del: nth_Cons_Suc)
qed simp

lemma walk_Prev:
  "dll l as \<Longrightarrow> i < length (path l as) \<Longrightarrow> n \<le> i \<Longrightarrow> walk Prev l n (Some (path l as ! i)) = Some (Some (path l as ! (i - n)))"
proof (induction n arbitrary: i)
  case (Suc n)
  then obtain j where j: "i = Suc j" by (cases i) auto
  have "path l as ! i < length (nodes l)" using Suc.prems by (intro dll_nth_lt) auto
  moreover have "Prev (nodes l ! (path l as ! i)) = Some (path l as ! j)"
    unfolding j using Suc.prems j by (intro dll_nth) auto
  ultimately show ?case using Suc.IH [of j] Suc.prems j by (simp del: nth_Cons_Suc)
qed simp

lemma walk_until_Next:
  assumes "dll l as"
  shows "i + n < length (path l as) \<Longrightarrow>
    walk_until Next l (Some (Tail l)) n (Some (path l as ! i)) = walk Next l n (Some (path l as ! i))"
proof (induction n arbitrary: i)
  case (Suc n)
  have "path l as ! i < length (nodes l)" using Suc.prems by (intro dll_nth_lt assms) auto
  moreover have "path l as ! i \<noteq> path l as ! (length (path l as) - 1)"
    using nth_eq_iff_index_eq [OF dll_distinct [OF assms], of i "length (path l as) - 1"] Suc.prems by auto
  moreover have "path l as ! (length (path l as) - 1) = Tail l" by (simp add: nth_append)
  moreover have "Next (nodes l ! (path l as ! i)) = Some (path l as ! Suc i)"
    using Suc.prems by (intro dll_nth assms) auto
  ultimately show ?case using Suc.IH [of "Suc i"] Suc.prems by (simp del: nth_Cons_Suc)
qed simp

lemma walk_until_Prev:
  assumes "dll l as"
  shows "i < length (path l as) \<Longrightarrow> n \<le> i \<Longrightarrow>
    walk_until Prev l (Some (Head l)) n (Some (path l as ! i)) = walk Prev l n (Some (path l as ! i))"
proof (induction n arbitrary: i)
  case (Suc n)
  then obtain j where j: "i = Suc j" by (cases i) auto
  have "path l as ! i < length (nodes l)" using Suc.prems by (intro dll_nth_lt assms) auto
  moreover have "path l as ! i \<noteq> path l as ! 0"
    using nth_eq_iff_index_eq [OF dll_distinct [OF assms], of i 0] Suc.prems by auto
  moreover have "Prev (nodes l ! (path l as ! i)) = Some (path l as ! j)"
    unfolding j using Suc.prems j by (intro dll_nth assms) auto
  ultimately show ?case using Suc.IH [of j] Suc.prems j by (simp del: nth_Cons_Suc)
qed simp

text \<open>The position an index means: negative indices count from the end.\<close>

definition list_pos :: "int \<Rightarrow> int \<Rightarrow> int" where
  "list_pos n i = (if i < 0 then n + i else i)"

lemma path_nth [simp]: "j < length as \<Longrightarrow> path l as ! Suc j = as ! j"
  by (simp add: nth_append)

lemma path_last: "path l as ! Suc (length as) = Tail l"
  by (simp add: nth_append)

lemma Index_dll:
  assumes "dll l as" and "LLen l = int (length as)" and "in64 i" and "i \<noteq> MinInt64"
  shows "Index l i = Some (let j = list_pos (int (length as)) i in
    if 0 \<le> j \<and> j < int (length as) then Some (as ! nat j) else None)"
proof -
  have w: "wrap64 (- i) = - i" using assms(3,4) by (intro wrap64_id) (auto simp: in64_def)
  note ht = dll_Head_Tail [OF assms(1)]
  have n: "Next (nodes l ! Head l) = Some (path l as ! 1)" "Prev (nodes l ! Tail l) = Some (path l as ! length as)"
    using dll_nth [OF assms(1), of 0] dll_nth(2) [OF assms(1), of "length as"] by (auto simp: path_last)
  show ?thesis
  proof (cases "i < 0")
    case True
    then obtain k where k: "i = - int (Suc k)" using negD by blast
    have "k < length as \<Longrightarrow> path l as ! (length as - k) = as ! (length as - Suc k)"
      using path_nth [of "length as - Suc k" as l] by (simp add: Suc_diff_Suc del: path_nth nth_Cons_Suc)
    then show ?thesis
      using walk_Prev [OF assms(1), of "length as" k] w ht n assms(2) k
      by (auto simp: Index_def list_pos_def Let_def nat_diff_distrib' of_nat_diff simp flip: of_nat_Suc simp del: nth_Cons_Suc)
  next
    case False
    then show ?thesis
      using walk_Next [OF assms(1), of 1 "nat i"] ht n assms(2) path_nth [of "nat i" as l]
      by (auto simp: Index_def list_pos_def Let_def simp del: path_nth)
  qed
qed

abbreviation with_Val :: "List \<Rightarrow> nat \<Rightarrow> slice \<Rightarrow> List" where
  "with_Val l a v \<equiv> l\<lparr>nodes := (nodes l)[a := (nodes l ! a)\<lparr>Val := v\<rparr>]\<rparr>"

lemma nth_list_update_if: "(xs[i := x]) ! j = (if i = j \<and> i < length xs then x else xs ! j)"
  by (cases "i = j"; cases "i < length xs") (simp_all add: list_update_beyond)

lemma nth_with_Val [simp]:
  "Next ((h[a := (h ! a)\<lparr>Val := v\<rparr>]) ! c) = Next (h ! c)"
  "Prev ((h[a := (h ! a)\<lparr>Val := v\<rparr>]) ! c) = Prev (h ! c)"
  by (simp_all add: nth_list_update_if)

lemma dll_with_Val: "dll l as \<Longrightarrow> dll (with_Val l a v) as"
  unfolding dll_def by (auto intro: links_frame)

lemma vals_with_Val:
  assumes "dll l as" and "j < length as"
  shows "vals (with_Val l (as ! j) v) as = (vals l as)[j := v]"
proof (rule nth_equalityI)
  fix i assume i: "i < length (vals (with_Val l (as ! j) v) as)"
  have "distinct as" "as ! j < length (nodes l)" using assms dll_lt [OF assms(1), of "as ! j"] by (auto simp: dll_def)
  then show "vals (with_Val l (as ! j) v) as ! i = (vals l as)[j := v] ! i"
    using i assms(2) by (auto simp: vals_def nth_list_update nth_eq_iff_index_eq)
qed (simp add: vals_def)

lemma LSet_repr:
  assumes "repr l xs" and "in64 i" and "i \<noteq> MinInt64"
  defines "j \<equiv> list_pos (int (length xs)) i"
  shows "if 0 \<le> j \<and> j < int (length xs) then \<exists>l'. LSet l i v = Some (l', True) \<and> repr l' (xs[nat j := v])
    else LSet l i v = Some (l, False)"
proof -
  obtain as where as: "dll l as" "vals l as = xs" and l: "LLen l = int (length xs)" "LSubscriptions l = []"
    using assms(1) by (auto simp: repr_def)
  have len: "length as = length xs" using as(2) by (auto simp: vals_def)
  have w: "wrap64 (- i) = - i" using assms(2,3) by (intro wrap64_id) (auto simp: in64_def)
  have in_range: "LSet l i v = Some (with_Val l (as ! nat j) v, True)" if r: "0 \<le> j" "j < int (length xs)"
  proof (cases "i < 0")
    case True
    then obtain k where k: "i = - int (Suc k)" using negD by blast
    have k': "Suc k \<le> length as" "nat j = length as - Suc k"
      using r k len by (auto simp: j_def list_pos_def nat_diff_distrib')
    then have "path l as ! (Suc (length as) - Suc k) = as ! nat j"
      using path_nth [of "length as - Suc k" as l] by (simp add: Suc_diff_le del: path_nth nth_Cons_Suc)
    then have "walk_until Prev l (Some (Head l)) (Suc k) (Some (Tail l)) = Some (Some (as ! nat j))"
      using walk_until_Prev [OF as(1), of "Suc (length as)" "Suc k"] walk_Prev [OF as(1), of "Suc (length as)" "Suc k"] k'(1)
      by (simp add: path_last del: nth_Cons_Suc walk_until.simps walk.simps)
    moreover have "as ! nat j < length (nodes l)" using dll_lt [OF as(1), of "as ! nat j"] k' by auto
    ultimately show ?thesis using w k l k' len
      by (simp add: LSet_def nat_add_distrib del: walk_until.simps)
  next
    case False
    then have k': "nat j < length as" "j = i" using r len by (auto simp: j_def list_pos_def)
    moreover have "nat (i + 1) = Suc (nat i)" using False by simp
    ultimately have "walk_until Next l (Some (Tail l)) (nat (i + 1)) (Some (Head l)) = Some (Some (as ! nat j))"
      using walk_until_Next [OF as(1), of 0 "Suc (nat i)"] walk_Next [OF as(1), of 0 "Suc (nat i)"]
      by (simp add: nth_append del: walk_until.simps walk.simps)
    moreover have "as ! nat j < length (nodes l)" using dll_lt [OF as(1), of "as ! nat j"] k' by auto
    ultimately show ?thesis using False l k' len by (simp add: LSet_def)
  qed
  have "repr (with_Val l (as ! nat j) v) (xs[nat j := v])" if "0 \<le> j" "j < int (length xs)"
    using that as l len vals_with_Val [OF as(1), of "nat j" v] dll_with_Val [OF as(1)]
    unfolding repr_def by (intro conjI exI [of _ as]) simp_all
  moreover have "LSet l i v = Some (l, False)" if "\<not> (0 \<le> j \<and> j < int (length xs))"
    using that w l by (auto simp: LSet_def j_def list_pos_def split: if_splits)
  ultimately show ?thesis using in_range by auto
qed

lemma range_loop_dll:
  assumes "dll l as"
  shows "i + k \<le> length as \<Longrightarrow> range_loop l start k (int i) (Some (path l as ! i)) res =
    Some (res @ map (\<lambda>j. vals l as ! j) (filter (\<lambda>j. start \<le> int j) [i ..< i + k]))"
proof (induction k arbitrary: i res)
  case (Suc k)
  have lt: "path l as ! i < length (nodes l)" "path l as ! Suc i < length (nodes l)"
    using dll_nth_lt [OF assms, of i] dll_nth_lt [OF assms, of "Suc i"] Suc.prems by simp_all
  have "Next (nodes l ! (path l as ! i)) = Some (path l as ! Suc i)"
    using Suc.prems by (intro dll_nth assms) auto
  moreover have "Val (nodes l ! (path l as ! Suc i)) = vals l as ! i"
    using Suc.prems by (simp add: vals_def nth_append)
  ultimately show ?case
    using Suc.IH [of "Suc i"] Suc.prems lt
    by (simp add: upt_conv_Cons Let_def add.commute del: nth_Cons_Suc upt_Suc)
qed simp

lemma filter_le_upt: "0 \<le> s \<Longrightarrow> filter (\<lambda>j. s \<le> int j) [0 ..< m] = [nat s ..< m]"
  by (induction m) auto

lemma map_nth_upt: "b \<le> length xs \<Longrightarrow> map (\<lambda>j. xs ! j) [a ..< b] = take (b - a) (drop a xs)"
  by (rule nth_equalityI) auto

definition sub_list :: "int \<Rightarrow> int \<Rightarrow> 'a list \<Rightarrow> 'a list" where
  "sub_list start stop xs =
     (let lo = max 0 (list_pos (int (length xs)) start); hi = min (int (length xs) - 1) (list_pos (int (length xs)) stop)
      in take (nat (hi + 1 - lo)) (drop (nat lo) xs))"

lemma LRange_repr:
  assumes "repr l xs"
  obtains r where "LRange l start stop = Some r" and "(case r of None \<Rightarrow> [] | Some ys \<Rightarrow> ys) = sub_list start stop xs"
proof -
  obtain as where as: "dll l as" "vals l as = xs" and l: "LLen l = int (length xs)"
    using assms by (auto simp: repr_def)
  have len: "length as = length xs" using as(2) by (auto simp: vals_def)
  define s where "s = list_pos (int (length xs)) start"
  define t where "t = list_pos (int (length xs)) stop"
  have R: "LRange l start stop = (if s > t \<or> s \<ge> int (length xs) \<or> t < 0 then Some None else map_option Some
      (range_loop l (if s < 0 then 0 else s) (nat ((if t \<ge> int (length xs) then int (length xs) - 1 else t) + 1)) 0 (Some (Head l)) []))"
    by (simp only: LRange_def Let_def l list_pos_def s_def t_def)
  show ?thesis
  proof (cases "s > t \<or> s \<ge> int (length xs) \<or> t < 0")
    case True
    have "LRange l start stop = Some None" using True by (simp only: R if_True)
    moreover have "sub_list start stop xs = []" using True by (auto simp: sub_list_def Let_def s_def [symmetric] t_def [symmetric])
    ultimately show ?thesis using that by simp
  next
    case False
    define u where "u = min (int (length xs) - 1) t"
    have u: "nat (u + 1) \<le> length as" "(if t \<ge> int (length xs) then int (length xs) - 1 else t) = u"
      "(if s < 0 then 0 else s) = max 0 s" using False len by (auto simp: u_def)
    have "LRange l start stop = map_option Some (range_loop l (max 0 s) (nat (u + 1)) 0 (Some (Head l)) [])"
      using False u(2,3) by (simp only: R if_False)
    also have "\<dots> = Some (Some (map (\<lambda>j. xs ! j) [nat (max 0 s) ..< nat (u + 1)]))"
      using range_loop_dll [OF as(1), of 0 "nat (u + 1)" "max 0 s" "[]"] u(1) as(2)
        filter_le_upt [of "max 0 s" "nat (u + 1)"] by simp
    also have "map (\<lambda>j. xs ! j) [nat (max 0 s) ..< nat (u + 1)] = sub_list start stop xs"
    proof -
      have "nat (u + 1) - nat (max 0 s) = nat (u + 1 - max 0 s)" using False by (auto simp: u_def)
      then show ?thesis using u(1) len
        by (subst map_nth_upt) (simp_all add: sub_list_def Let_def u_def s_def [symmetric] t_def [symmetric])
    qed
    finally show ?thesis using that by simp
  qed
qed

end
