(* ===== verification/List_Refine.thy ===== *)
theory List_Refine
  imports List_Struct
begin

text \<open>
  The operations of \<open>src/memdb/list_struct.go\<close> that search a list or cut it: \<open>Pos\<close>,
  \<open>RemoveElement\<close>, \<open>Clear\<close> and \<open>Trim\<close>, against functions on sequences. Each loop returns.
\<close>

section \<open>Pos\<close>

fun index_of :: "('a \<Rightarrow> bool) \<Rightarrow> 'a list \<Rightarrow> int option" where
  "index_of P [] = None"
| "index_of P (x # xs) = (if P x then Some 0 else map_option (\<lambda>i. i + 1) (index_of P xs))"

lemma dll_next:
  assumes "dll l (us @ x # vs)"
  shows "deref l (Some x) = Some (nodes l ! x)" "x \<noteq> Tail l" "x \<noteq> Head l"
    "Next (nodes l ! x) = Some (hd (vs @ [Tail l]))" "Prev (nodes l ! x) = Some (last (Head l # us))"
  using dll_neighbours [OF assms] dll_distinct [OF assms] by auto

lemma pos_loop_dll:
  "dll l (us @ vs) \<Longrightarrow> pos_loop l val (Some (hd (vs @ [Tail l]))) p =
     Some (case index_of (\<lambda>v. bytes_Equal v val) (vals l vs) of None \<Rightarrow> - 1 | Some i \<Rightarrow> p + i)"
proof (induction vs arbitrary: us p)
  case Nil
  then show ?case by (simp add: pos_loop.simps vals_def)
next
  case (Cons x vs)
  note n = dll_next [OF Cons.prems]
  from Cons.IH [of "us @ [x]"] Cons.prems n show ?case
    by (subst pos_loop.simps) (auto simp: vals_def split: option.splits)
qed

lemma Pos_repr:
  assumes "repr l xs"
  shows "Pos l val = Some (case index_of (\<lambda>v. bytes_Equal v val) xs of None \<Rightarrow> - 1 | Some i \<Rightarrow> i)"
proof -
  obtain as where as: "dll l as" "vals l as = xs" using assms by (auto simp: repr_def)
  have "Next (nodes l ! Head l) = Some (hd (as @ [Tail l]))" "Head l < length (nodes l)"
    using dll_adjacent [of l "[]" as] as(1) by auto
  then show ?thesis using pos_loop_dll [of l "[]" as val 0] as by (simp add: Pos_def split: option.split)
qed

section \<open>RemoveElement\<close>

fun remove_n :: "nat \<Rightarrow> ('a \<Rightarrow> bool) \<Rightarrow> 'a list \<Rightarrow> 'a list" where
  "remove_n 0 P xs = xs"
| "remove_n n P [] = []"
| "remove_n (Suc n) P (x # xs) = (if P x then remove_n n P xs else x # remove_n (Suc n) P xs)"

lemma remove_n_Nil [simp]: "remove_n n P [] = []"
  by (cases n) auto

lemma remove_n_map: "remove_n n P (map f xs) = map f (remove_n n (\<lambda>x. P (f x)) xs)"
  by (induction n "\<lambda>x. P (f x)" xs rule: remove_n.induct) auto

lemma length_remove_n: "length (remove_n n P xs) \<le> length xs"
  by (induction n P xs rule: remove_n.induct) auto

lemma set_remove_n: "set (remove_n n P xs) \<subseteq> set xs"
  by (induction n P xs rule: remove_n.induct) auto

lemma length_remove_n_eq: "length xs - length (remove_n n P xs) = min n (length (filter P xs))"
proof (induction n P xs rule: remove_n.induct)
  case (3 n P x xs)
  then show ?case using length_remove_n [of n P xs] length_remove_n [of "Suc n" P xs] by auto
qed auto

lemma unlink_eq:
  assumes "dll l (us @ x # vs)"
  shows "unlink l (Some x) = Some (unlinked l (last (Head l # us)) x (hd (vs @ [Tail l])))"
proof -
  note n = dll_neighbours [OF assms]
  then show ?thesis by (simp add: unlink_def unlinked_def del: last.simps)
qed

definition same_but_nodes :: "List \<Rightarrow> List \<Rightarrow> bool" where
  "same_but_nodes l l' \<longleftrightarrow> Head l' = Head l \<and> Tail l' = Tail l \<and> LLen l' = LLen l \<and> LSubscriptions l' = LSubscriptions l
     \<and> (\<forall>c. Val (nodes l' ! c) = Val (nodes l ! c))"

lemma remove_forward:
  assumes "dll l (us @ vs)"
  shows "\<exists>l' vs'. remove_loop Next (Some (Tail l)) val cnt l (Some (hd (vs @ [Tail l]))) r =
      Some (l', r + int (length vs) - int (length vs')) \<and> dll l' (us @ vs') \<and> same_but_nodes l l'
      \<and> vs' = remove_n (nat (cnt - r)) (\<lambda>a. bytes_Equal (Val (nodes l ! a)) val) vs"
  using assms
proof (induction vs arbitrary: l us r)
  case Nil
  then show ?case by (subst remove_loop.simps) (auto simp: same_but_nodes_def)
next
  case (Cons x vs)
  note n = dll_next [OF Cons.prems]
  let ?P = "\<lambda>a. bytes_Equal (Val (nodes l ! a)) val"
  consider (stop) "r \<ge> cnt" | (hit) "r < cnt" "?P x" | (miss) "r < cnt" "\<not> ?P x" by linarith
  then show ?case
  proof cases
    case stop
    then show ?thesis using Cons.prems by (subst remove_loop.simps) (auto simp: same_but_nodes_def)
  next
    case hit
    let ?l = "unlinked l (last (Head l # us)) x (hd (vs @ [Tail l]))"
    have d: "dll ?l (us @ vs)" and v: "\<And>c. Val (nodes ?l ! c) = Val (nodes l ! c)"
      using dll_unlinked [OF Cons.prems] by auto
    have "nat (cnt - r) = Suc (nat (cnt - (r + 1)))" using hit by auto
    then show ?thesis using Cons.IH [OF d, of "r + 1"] hit n unlink_eq [OF Cons.prems] v
      by (subst remove_loop.simps) (auto simp: same_but_nodes_def simp del: last.simps)
  next
    case miss
    have "nat (cnt - r) = Suc (nat (cnt - (r + 1)))" using miss by auto
    then show ?thesis using Cons.IH [of l "us @ [x]" r] Cons.prems miss n
      by (subst remove_loop.simps) (auto simp del: last.simps)
  qed
qed

lemma remove_backward:
  assumes "dll l (us @ vs)"
  shows "\<exists>l' us'. remove_loop Prev (Some (Head l)) val cnt l (Some (last (Head l # us))) r =
      Some (l', r + int (length us) - int (length us')) \<and> dll l' (us' @ vs) \<and> same_but_nodes l l'
      \<and> us' = rev (remove_n (nat (cnt - r)) (\<lambda>a. bytes_Equal (Val (nodes l ! a)) val) (rev us))"
  using assms
proof (induction us arbitrary: l vs r rule: rev_induct)
  case Nil
  then show ?case by (subst remove_loop.simps) (auto simp: same_but_nodes_def)
next
  case (snoc x us)
  then have prems: "dll l (us @ x # vs)" by simp
  note n = dll_next [OF prems]
  let ?P = "\<lambda>a. bytes_Equal (Val (nodes l ! a)) val"
  have last: "last (Head l # us @ [x]) = x" by simp
  consider (stop) "r \<ge> cnt" | (hit) "r < cnt" "?P x" | (miss) "r < cnt" "\<not> ?P x" by linarith
  then show ?case
  proof cases
    case stop
    then show ?thesis using prems by (subst remove_loop.simps) (auto simp: same_but_nodes_def)
  next
    case hit
    let ?l = "unlinked l (last (Head l # us)) x (hd (vs @ [Tail l]))"
    have d: "dll ?l (us @ vs)" and v: "\<And>c. Val (nodes ?l ! c) = Val (nodes l ! c)"
      using dll_unlinked [OF prems] by auto
    have "nat (cnt - r) = Suc (nat (cnt - (r + 1)))" using hit by auto
    then show ?thesis using snoc.IH [OF d, of "r + 1"] hit n unlink_eq [OF prems] v unfolding last
      by (subst remove_loop.simps) (auto simp: same_but_nodes_def simp del: last.simps)
  next
    case miss
    have "nat (cnt - r) = Suc (nat (cnt - (r + 1)))" using miss by auto
    then show ?thesis using snoc.IH [of l "x # vs" r] prems miss n unfolding last
      by (subst remove_loop.simps) (auto simp del: last.simps)
  qed
qed

text \<open>What \<open>RemoveElement\<close> does to the sequence of a list whose \<open>Len\<close> field is \<open>n\<close>.\<close>

definition lrem :: "int \<Rightarrow> slice \<Rightarrow> int \<Rightarrow> slice list \<Rightarrow> slice list" where
  "lrem n val cnt xs =
     (let c = (if cnt = 0 then n - 1 else cnt); P = (\<lambda>v. bytes_Equal v val)
      in if c \<ge> 0 then remove_n (nat c) P xs else rev (remove_n (nat (wrap64 (- c))) P (rev xs)))"

lemma RemoveElement_dll:
  assumes "dll l as" and "LLen l \<noteq> 0"
  shows "\<exists>l' as'. RemoveElement l val cnt = Some (l', int (length as) - int (length as')) \<and> dll l' as'
    \<and> vals l' as' = lrem (LLen l) val cnt (vals l as) \<and> same_but_nodes l l'"
proof -
  let ?c = "if cnt = 0 then LLen l - 1 else cnt"
  note a = dll_adjacent [of l "[]" as, simplified, OF assms(1)]
  note b = dll_adjacent [of l as "[]", unfolded append_Nil append_Nil2 list.sel, OF assms(1)]
  have v: "vals l' bs = map (\<lambda>a. Val (nodes l ! a)) bs" if "same_but_nodes l l'" for l' bs
    using that by (simp add: vals_def same_but_nodes_def)
  show ?thesis
  proof (cases "?c \<ge> 0")
    case True
    obtain l' as' where r: "remove_loop Next (Some (Tail l)) val ?c l (Some (hd (as @ [Tail l]))) 0 =
        Some (l', int (length as) - int (length as'))" "dll l' as'" "same_but_nodes l l'"
        "as' = remove_n (nat ?c) (\<lambda>a. bytes_Equal (Val (nodes l ! a)) val) as"
      using remove_forward [of l "[]" as val ?c 0] assms(1) by auto
    have "RemoveElement l val cnt = Some (l', int (length as) - int (length as'))"
      using True assms(2) a r(1) by (simp add: RemoveElement_def Let_def)
    moreover have "vals l' as' = lrem (LLen l) val cnt (vals l as)"
      using True unfolding v [OF r(3)] r(4) by (simp add: lrem_def vals_def remove_n_map)
    ultimately show ?thesis using r(2,3) by blast
  next
    case False
    obtain l' as' where r: "remove_loop Prev (Some (Head l)) val (wrap64 (- ?c)) l (Some (last (Head l # as))) 0 =
        Some (l', int (length as) - int (length as'))" "dll l' as'" "same_but_nodes l l'"
        "as' = rev (remove_n (nat (wrap64 (- ?c))) (\<lambda>a. bytes_Equal (Val (nodes l ! a)) val) (rev as))"
      using remove_backward [of l as "[]" val "wrap64 (- ?c)" 0] assms(1) by auto
    have "RemoveElement l val cnt = Some (l', int (length as) - int (length as'))"
      using False assms(2) b r(1) by (simp add: RemoveElement_def Let_def del: last.simps)
    moreover have "vals l' as' = lrem (LLen l) val cnt (vals l as)"
      using False unfolding v [OF r(3)] r(4) by (simp add: lrem_def vals_def remove_n_map rev_map)
    ultimately show ?thesis using r(2,3) by blast
  qed
qed

lemma RemoveElement_list_ok:
  assumes "list_ok l"
  obtains l' n where "RemoveElement l val cnt = Some (l', n)" and "list_ok l'" and "LLen l' = LLen l"
proof -
  obtain as where as: "dll l as" "int (length as) \<le> LLen l" and l: "LSubscriptions l = []"
    using assms(1) by (auto simp: list_ok_def)
  show ?thesis
  proof (cases "LLen l = 0")
    case True
    then show ?thesis using that [of l] assms by (simp add: RemoveElement_def)
  next
    case False
    then obtain l' as' where l': "RemoveElement l val cnt = Some (l', int (length as) - int (length as'))"
      "dll l' as'" "vals l' as' = lrem (LLen l) val cnt (vals l as)" "same_but_nodes l l'"
      using RemoveElement_dll [OF as(1)] by blast
    have "length as' \<le> length as"
      using arg_cong [OF l'(3), of length] length_remove_n [of _ "\<lambda>v. bytes_Equal v val" "vals l as"]
        length_remove_n [of _ "\<lambda>v. bytes_Equal v val" "rev (vals l as)"]
      by (auto simp: lrem_def Let_def vals_def split: if_splits)
    then have "list_ok l'" "LLen l' = LLen l"
      using l'(2,4) as(2) l unfolding list_ok_def same_but_nodes_def by (auto intro!: exI [of _ as'])
    then show ?thesis using that [OF l'(1)] by blast
  qed
qed

section \<open>Clear and Trim\<close>

lemma LClear_dll:
  assumes "dll l as" and "as \<noteq> []" and "LLen l \<noteq> 0"
  obtains l' where "LClear l = Some l'" and "dll l' []" and "LLen l' = 0" and "LSubscriptions l' = LSubscriptions l"
proof -
  obtain x bs where x: "as = x # bs" using assms(2) by (cases as) auto
  obtain cs y where y: "as = cs @ [y]" using assms(2) by (cases as rule: rev_cases) auto
  note n = dll_neighbours [of l "[]" x bs, simplified, folded x, OF assms(1)]
  note m = dll_neighbours [of l cs y "[]", unfolded append_Nil list.sel, folded y, OF assms(1)]
  have d: "x \<noteq> Head l" "x \<noteq> Tail l" "y \<noteq> Head l" "y \<noteq> Tail l" "Head l \<noteq> Tail l"
    using dll_next(2,3) [of l "[]" x bs] dll_next(2,3) [of l cs y "[]"] dll_distinct [OF assms(1)] assms(1) x y
    by auto
  let ?h = "(nodes l)[Head l := (nodes l ! Head l)\<lparr>Next := Some (Tail l)\<rparr>, Tail l := (nodes l ! Tail l)\<lparr>Prev := Some (Head l)\<rparr>,
    x := (nodes l ! x)\<lparr>Prev := None\<rparr>]"
  let ?l = "l\<lparr>nodes := ?h[y := (?h ! y)\<lparr>Next := None\<rparr>], LLen := 0\<rparr>"
  have "LClear l = Some ?l"
    using assms(3) n m d dll_Head_Tail [OF assms(1)] by (simp add: LClear_def Let_def)
  moreover have "dll ?l []"
    using assms(1) n m d by (auto simp: dll_def nth_list_update_if)
  ultimately show ?thesis using that by simp
qed

lemma trim_loop_dll:
  assumes "dll l (us @ vs)" and "0 \<le> start" and "start \<le> end1" and "int (length us) \<le> end1"
    and "length us \<le> nat start \<Longrightarrow> sn = None" and "\<not> length us \<le> nat start \<Longrightarrow> sn = Some ((us @ vs) ! nat start)"
  shows "trim_loop l start end1 (Some (hd (vs @ [Tail l]))) (int (length us)) sn =
    (if end1 < int (length (us @ vs)) then Some (Some ((us @ vs) ! nat start), Some ((us @ vs) ! nat end1))
     else Some (if start < int (length (us @ vs)) then Some ((us @ vs) ! nat start) else None, None))"
  using assms
proof (induction vs arbitrary: us sn)
  case Nil
  then show ?case by (subst trim_loop.simps) auto
next
  case (Cons x vs)
  note n = dll_next [OF Cons.prems(1)]
  have nth: "(us @ x # vs) ! length us = x" by simp
  show ?case
  proof (cases "int (length us) = end1")
    case True
    then show ?thesis using Cons.prems n by (subst trim_loop.simps) (auto simp: Let_def nth_append)
  next
    case False
    have "trim_loop l start end1 (Some (hd ((x # vs) @ [Tail l]))) (int (length us)) sn =
      trim_loop l start end1 (Some (hd (vs @ [Tail l]))) (int (length (us @ [x]))) (if int (length us) = start then Some x else sn)"
      using False n by (subst trim_loop.simps) (simp add: Let_def add.commute)
    then show ?thesis
      using Cons.IH [of "us @ [x]" "if int (length us) = start then Some x else sn"] Cons.prems False
      by (auto simp: nth_append)
  qed
qed

lemma links_wrap:
  "ms \<noteq> [] \<Longrightarrow> links h (p # ms @ [q]) \<longleftrightarrow>
     Next (h ! p) = Some (hd ms) \<and> Prev (h ! hd ms) = Some p \<and> links h ms
     \<and> Next (h ! last ms) = Some q \<and> Prev (h ! q) = Some (last ms)"
proof -
  assume "ms \<noteq> []"
  then obtain bs e where e: "ms = bs @ [e]" by (cases ms rule: rev_cases) auto
  have "links h (p # bs @ e # [q]) \<longleftrightarrow> links h (p # bs @ [e]) \<and> links h (e # [q])"
    using links_append [of h "p # bs" e "[q]"] by simp
  then show ?thesis by (cases bs) (auto simp: e)
qed

lemma links_middle: "links h (us @ ms @ vs) \<Longrightarrow> links h ms"
proof (induction us)
  case Nil
  then show ?case
  proof (induction ms)
    case (Cons m ms)
    then show ?case by (cases ms) auto
  qed simp
next
  case (Cons u us)
  then show ?case by (cases "us @ ms @ vs") auto
qed

text \<open>Cutting the nodes \<open>us\<close> before and \<open>vs\<close> after.\<close>

lemma dll_cut:
  assumes d: "dll l (us @ ms @ vs)" and ms: "ms \<noteq> []"
    and same: "Head l' = Head l" "Tail l' = Tail l" "length (nodes l') = length (nodes l)"
    and N: "\<And>c. c \<in> set ms \<Longrightarrow> Next (nodes l' ! c) = (if c = last ms then Some (Tail l) else Next (nodes l ! c))"
    and P: "\<And>c. c \<in> set ms \<Longrightarrow> Prev (nodes l' ! c) = (if c = hd ms then Some (Head l) else Prev (nodes l ! c))"
    and H: "Next (nodes l' ! Head l) = Some (hd ms)" "Prev (nodes l' ! Head l) = None"
    and T: "Prev (nodes l' ! Tail l) = Some (last ms)" "Next (nodes l' ! Tail l) = None"
  shows "dll l' ms"
proof -
  have "links (nodes l) ((Head l # us) @ ms @ (vs @ [Tail l]))" and dm: "distinct ms"
    using d by (auto simp: dll_def)
  then have lm: "links (nodes l) ms" using links_middle by blast
  obtain bs e where e: "ms = bs @ [e]" using ms by (cases ms rule: rev_cases) auto
  obtain f cs where f: "ms = f # cs" using ms by (cases ms) auto
  have "\<forall>c \<in> set (butlast ms). Next (nodes l' ! c) = Next (nodes l ! c)"
  proof
    fix c assume "c \<in> set (butlast ms)"
    then have "c \<in> set ms" "c \<noteq> last ms" using dm e by auto
    then show "Next (nodes l' ! c) = Next (nodes l ! c)" by (simp add: N)
  qed
  moreover have "\<forall>c \<in> set (tl ms). Prev (nodes l' ! c) = Prev (nodes l ! c)"
  proof
    fix c assume "c \<in> set (tl ms)"
    then have "c \<in> set ms" "c \<noteq> hd ms" using dm f by auto
    then show "Prev (nodes l' ! c) = Prev (nodes l ! c)" by (simp add: P)
  qed
  ultimately have "links (nodes l') ms" using links_frame [OF lm] by blast
  then have "links (nodes l') (path l' ms)"
    using ms H T N P same by (subst links_wrap) auto
  then show ?thesis using d H T same by (auto simp: dll_def)
qed

lemma Val_set_pointer [simp]:
  "Val ((h[a := (h ! a)\<lparr>Next := q\<rparr>]) ! c) = Val (h ! c)" "Val ((h[a := (h ! a)\<lparr>Prev := q\<rparr>]) ! c) = Val (h ! c)"
  by (simp_all add: nth_list_update_if)

lemma trim_link_dll:
  assumes d: "dll l (us @ ms @ vs)" and ms: "ms \<noteq> []"
  obtains l' where "trim_link l (Some (hd ms)) (Some (last ms)) = Some l'" and "dll l' ms" and "same_but_nodes l l'"
proof -
  define s e F L U V where defs: "s = hd ms" "e = last ms" "F = hd (us @ ms @ vs)" "L = last (us @ ms @ vs)"
    "U = last us" "V = hd vs"
  have n: "Next (nodes l ! Head l) = Some F" "Prev (nodes l ! Tail l) = Some L"
    "Prev (nodes l ! s) = Some (last (Head l # us))" "Next (nodes l ! e) = Some (hd (vs @ [Tail l]))"
    using dll_adjacent(1) [of l "[]" "us @ ms @ vs"] dll_adjacent(2) [of l "us @ ms @ vs" "[]"]
      dll_adjacent(2) [of l us "ms @ vs"] dll_adjacent(1) [of l "us @ ms" vs] d ms
    by (auto simp: defs hd_append split: if_splits)
  have mem: "s \<in> set ms" "e \<in> set ms" "us \<noteq> [] \<Longrightarrow> F \<in> set us \<and> U \<in> set us" "us = [] \<Longrightarrow> F = s"
    "vs \<noteq> [] \<Longrightarrow> L \<in> set vs \<and> V \<in> set vs" "vs = [] \<Longrightarrow> L = e"
    using ms by (auto simp: defs hd_append)
  have lt: "\<forall>c \<in> set (path l (us @ ms @ vs)). c < length (nodes l)" using d by (auto simp: dll_def)
  have dist: "distinct (path l (us @ ms @ vs))" using d by (simp add: dll_def)
  have sep: "\<forall>c \<in> set ms. c \<notin> set us \<and> c \<notin> set vs \<and> c \<noteq> Head l \<and> c \<noteq> Tail l"
    "\<forall>c \<in> set us \<union> set vs. c \<noteq> Head l \<and> c \<noteq> Tail l" "\<forall>c \<in> set us. c \<notin> set vs" "Head l \<noteq> Tail l"
    using dist by auto
  let ?h1 = "(nodes l)[F := (nodes l ! F)\<lparr>Prev := None\<rparr>]"
  let ?h2 = "?h1[L := (?h1 ! L)\<lparr>Next := None\<rparr>]"
  let ?h3 = "if us = [] then ?h2 else ?h2[U := (?h2 ! U)\<lparr>Next := None\<rparr>]"
  let ?h4 = "if vs = [] then ?h3 else ?h3[V := (?h3 ! V)\<lparr>Prev := None\<rparr>]"
  let ?h5 = "?h4[Head l := (?h4 ! Head l)\<lparr>Next := Some s\<rparr>]"
  let ?h6 = "?h5[s := (?h5 ! s)\<lparr>Prev := Some (Head l)\<rparr>]"
  let ?h7 = "?h6[Tail l := (?h6 ! Tail l)\<lparr>Prev := Some e\<rparr>]"
  let ?h8 = "?h7[e := (?h7 ! e)\<lparr>Next := Some (Tail l)\<rparr>]"
  have lts: "F < length (nodes l)" "L < length (nodes l)" "s < length (nodes l)" "e < length (nodes l)"
    "Head l < length (nodes l)" "Tail l < length (nodes l)" "us \<noteq> [] \<Longrightarrow> U < length (nodes l)" "vs \<noteq> [] \<Longrightarrow> V < length (nodes l)"
    using lt mem ms by (cases "us = []"; cases "vs = []"; simp)+
  have ne: "F \<noteq> Head l" "F \<noteq> Tail l" "L \<noteq> Head l" "L \<noteq> Tail l" "s \<noteq> Head l" "s \<noteq> Tail l" "e \<noteq> Head l" "e \<noteq> Tail l"
    using sep mem by (cases "us = []"; cases "vs = []"; blast)+
  have neU: "us \<noteq> [] \<Longrightarrow> U \<noteq> s \<and> U \<noteq> e \<and> F \<noteq> s \<and> F \<noteq> e \<and> U \<noteq> L \<and> U \<noteq> Head l \<and> U \<noteq> Tail l"
    using sep mem by (cases "vs = []"; blast)
  have neV: "vs \<noteq> [] \<Longrightarrow> V \<noteq> s \<and> V \<noteq> e \<and> L \<noteq> s \<and> L \<noteq> e \<and> V \<noteq> F \<and> V \<noteq> Head l \<and> V \<noteq> Tail l"
    using sep mem by (cases "us = []"; blast)
  have eq: "trim_link l (Some s) (Some e) = Some (l\<lparr>nodes := ?h8\<rparr>)"
  proof (cases "us = []"; cases "vs = []")
    assume "us = []" "vs = []"
    then show ?thesis using n mem lts ne by (simp add: trim_link_def nth_list_update_if)
  next
    assume "us = []" "vs \<noteq> []"
    then show ?thesis using n mem lts ne neV by (simp add: trim_link_def nth_list_update_if defs(5,6))
  next
    assume "us \<noteq> []" "vs = []"
    then show ?thesis using n mem lts ne neU by (simp add: trim_link_def nth_list_update_if defs(5,6))
  next
    assume "us \<noteq> []" "vs \<noteq> []"
    then show ?thesis using n mem lts ne neU neV by (simp add: trim_link_def nth_list_update_if defs(5,6))
  qed
  have in_ms: "Head l \<noteq> c \<and> Tail l \<noteq> c \<and> (us \<noteq> [] \<longrightarrow> U \<noteq> c \<and> F \<noteq> c) \<and> (vs \<noteq> [] \<longrightarrow> V \<noteq> c \<and> L \<noteq> c)"
    if "c \<in> set ms" for c using that sep mem by (cases "us = []"; cases "vs = []"; blast)
  have "dll (l\<lparr>nodes := ?h8\<rparr>) ms"
  proof (rule dll_cut [OF d ms]; (unfold defs(1,2) [symmetric])?)
    show "Next (nodes (l\<lparr>nodes := ?h8\<rparr>) ! c) = (if c = e then Some (Tail l) else Next (nodes l ! c))" if c: "c \<in> set ms" for c
      using in_ms [OF c] lts ne mem(6) n by (cases "us = []"; cases "vs = []") (simp_all add: nth_list_update_if)
    show "Prev (nodes (l\<lparr>nodes := ?h8\<rparr>) ! c) = (if c = s then Some (Head l) else Prev (nodes l ! c))" if c: "c \<in> set ms" for c
      using in_ms [OF c] lts ne mem(4) n by (cases "us = []"; cases "vs = []") (simp_all add: nth_list_update_if)
    have z: "Prev (nodes l ! Head l) = None" "Next (nodes l ! Tail l) = None" using d by (simp_all add: dll_def)
    show "Next (nodes (l\<lparr>nodes := ?h8\<rparr>) ! Head l) = Some s" "Prev (nodes (l\<lparr>nodes := ?h8\<rparr>) ! Head l) = None"
      "Prev (nodes (l\<lparr>nodes := ?h8\<rparr>) ! Tail l) = Some e" "Next (nodes (l\<lparr>nodes := ?h8\<rparr>) ! Tail l) = None"
      using lts ne neU neV sep(4) z by (cases "us = []"; cases "vs = []"; simp add: nth_list_update_if)+
  qed simp_all
  moreover have "same_but_nodes l (l\<lparr>nodes := ?h8\<rparr>)"
    by (cases "us = []"; cases "vs = []") (simp_all add: same_but_nodes_def)
  ultimately show ?thesis using that eq unfolding defs(1,2) by blast
qed

lemma trim_link_nil: "trim_link l p None = None"
  by (simp add: trim_link_def)

text \<open>\<open>Trim\<close> after the bounds have been normalised to \<open>s\<close> and \<open>t\<close>.\<close>

lemma trim_at:
  assumes d: "dll l as" and st: "0 \<le> s" "s \<le> t" "t < int (length as)"
  obtains l' where "(do { h \<leftarrow> deref l (Some (Head l)); (p, q) \<leftarrow> trim_loop l s t (Next h) 0 None; trim_link l p q }) = Some l'"
    and "dll l' (take (nat (t + 1 - s)) (drop (nat s) as))" and "same_but_nodes l l'"
proof -
  let ?us = "take (nat s) as" and ?ms = "take (nat (t + 1 - s)) (drop (nat s) as)" and ?vs = "drop (nat (t + 1)) as"
  have "as = ?us @ drop (nat s) as" by simp
  also have "drop (nat s) as = ?ms @ ?vs"
  proof -
    have "drop (nat s) as = ?ms @ drop (nat (t + 1 - s)) (drop (nat s) as)"
      by (simp only: append_take_drop_id)
    moreover have "nat (t + 1 - s) + nat s = nat (t + 1)" using st by simp
    ultimately show ?thesis by (metis drop_drop)
  qed
  finally have split: "dll l (?us @ ?ms @ ?vs)" using d by simp
  have ms1: "?ms \<noteq> []" "hd ?ms = as ! nat s" using st by (auto simp: hd_drop_conv_nth)
  have "length ?ms = nat (t + 1 - s)" "nat s + (nat (t + 1 - s) - 1) = nat t" "nat (t + 1 - s) - 1 < nat (t + 1 - s)"
    using st by auto
  then have "last ?ms = as ! nat t" using ms1(1) st by (simp add: last_conv_nth del: take_drop)
  note ms = ms1 this
  have "Next (nodes l ! Head l) = Some (hd (as @ [Tail l]))" "Head l < length (nodes l)"
    using dll_adjacent [of l "[]" as] d by auto
  then have "(do { h \<leftarrow> deref l (Some (Head l)); (p, q) \<leftarrow> trim_loop l s t (Next h) 0 None; trim_link l p q }) =
      trim_link l (Some (hd ?ms)) (Some (last ?ms))"
    using trim_loop_dll [of l "[]" as s t None] d st ms by simp
  then show ?thesis using trim_link_dll [OF split ms(1)] that by metis
qed

lemma trim_at_stale:
  assumes d: "dll l as" and st: "0 \<le> s" "s \<le> t" "int (length as) \<le> t"
  shows "(do { h \<leftarrow> deref l (Some (Head l)); (p, q) \<leftarrow> trim_loop l s t (Next h) 0 None; trim_link l p q }) = None"
proof -
  have "Next (nodes l ! Head l) = Some (hd (as @ [Tail l]))" "Head l < length (nodes l)"
    using dll_adjacent [of l "[]" as] d by auto
  then show ?thesis using trim_loop_dll [of l "[]" as s t None] d st by (auto simp: trim_link_nil)
qed

lemma Trim_cases:
  fixes start end0
  assumes "LLen l \<noteq> 0"
  defines "s \<equiv> list_pos (LLen l) start" and "t \<equiv> list_pos (LLen l) end0"
  shows "Trim l start end0 = (if s > t \<or> s \<ge> LLen l \<or> t < 0 then LClear l
    else do { l' \<leftarrow> (do { h \<leftarrow> deref l (Some (Head l));
                (p, q) \<leftarrow> trim_loop l (max 0 s) (min (LLen l - 1) t) (Next h) 0 None; trim_link l p q });
              Some (l'\<lparr>LLen := min (LLen l - 1) t - max 0 s + 1\<rparr>) })"
proof -
  have "(if s < 0 then 0 else s) = max 0 s" "(if t \<ge> LLen l then LLen l - 1 else t) = min (LLen l - 1) t" by auto
  then show ?thesis using assms(1)
    unfolding Trim_def Let_def s_def t_def list_pos_def by (simp add: case_prod_beta' cong: if_cong)
qed

lemma Trim_repr:
  assumes "repr l xs"
  shows "\<exists>l'. Trim l start end0 = Some l' \<and> repr l' (sub_list start end0 xs)"
proof -
  obtain as where as: "dll l as" "vals l as = xs" and l: "LLen l = int (length xs)" "LSubscriptions l = []"
    using assms by (auto simp: repr_def)
  have len: "length as = length xs" using as(2) by (auto simp: vals_def)
  define s where "s = list_pos (LLen l) start"
  define t where "t = list_pos (LLen l) end0"
  consider (empty) "xs = []" | (clear) "xs \<noteq> []" "s > t \<or> s \<ge> LLen l \<or> t < 0"
    | (cut) "xs \<noteq> []" "s \<le> t" "s < LLen l" "0 \<le> t" by fastforce
  then show ?thesis
  proof cases
    case empty
    then show ?thesis using assms l by (simp add: Trim_def sub_list_def Let_def)
  next
    case clear
    have "sub_list start end0 xs = []"
      using clear by (auto simp: sub_list_def Let_def s_def [symmetric] t_def [symmetric] l(1) [symmetric])
    moreover have "LLen l \<noteq> 0" using clear l by simp
    moreover have "as \<noteq> []" using clear len by auto
    ultimately show ?thesis
    proof -
      obtain l' where "LClear l = Some l'" "dll l' []" "LLen l' = 0" "LSubscriptions l' = LSubscriptions l"
        by (rule LClear_dll [OF as(1) \<open>as \<noteq> []\<close> \<open>LLen l \<noteq> 0\<close>])
      moreover have "Trim l start end0 = LClear l"
        using clear(2) Trim_cases [OF \<open>LLen l \<noteq> 0\<close>, of start end0, folded s_def t_def] by (simp only: if_True)
      ultimately show ?thesis
        using \<open>sub_list start end0 xs = []\<close> l(2) unfolding repr_def by (auto simp: vals_def)
    qed
  next
    case cut
    define lo where "lo = max 0 s"
    define hi where "hi = min (LLen l - 1) t"
    have b: "0 \<le> lo" "lo \<le> hi" "hi < int (length as)" using cut l len by (auto simp: lo_def hi_def)
    obtain l' where l': "(do { h \<leftarrow> deref l (Some (Head l)); (p, q) \<leftarrow> trim_loop l lo hi (Next h) 0 None; trim_link l p q }) = Some l'"
      "dll l' (take (nat (hi + 1 - lo)) (drop (nat lo) as))" "same_but_nodes l l'" by (rule trim_at [OF as(1) b])
    have "Trim l start end0 = Some (l'\<lparr>LLen := hi - lo + 1\<rparr>)"
      using cut l Trim_cases [of l start end0, folded s_def t_def, folded lo_def hi_def] l'(1) by auto
    moreover have "vals l' (take (nat (hi + 1 - lo)) (drop (nat lo) as)) = sub_list start end0 xs"
      using l'(3) as(2) by (auto simp: vals_def same_but_nodes_def sub_list_def Let_def lo_def hi_def s_def t_def l(1) take_map drop_map)
    moreover have "int (length (sub_list start end0 xs)) = hi - lo + 1"
    proof -
      have "sub_list start end0 xs = take (nat (hi + 1 - lo)) (drop (nat lo) xs)"
        by (simp add: sub_list_def Let_def lo_def hi_def s_def t_def l(1))
      then show ?thesis using b len by simp
    qed
    ultimately show ?thesis
      using l' l unfolding repr_def by (auto simp: same_but_nodes_def)
  qed
qed

lemma Trim_list_ok:
  assumes "list_ok l" and "Trim l start end0 = Some l'"
  shows "LLen l' = 0 \<or> list_ok l'"
proof (cases "LLen l = 0")
  case True
  then show ?thesis using assms by (simp add: Trim_def)
next
  case False
  obtain as where as: "dll l as" "int (length as) \<le> LLen l" and l: "LSubscriptions l = []"
    using assms(1) by (auto simp: list_ok_def)
  define s where "s = list_pos (LLen l) start"
  define t where "t = list_pos (LLen l) end0"
  note T = Trim_cases [OF False, of start end0, folded s_def t_def]
  show ?thesis
  proof (cases "s > t \<or> s \<ge> LLen l \<or> t < 0")
    case True
    then have "LClear l = Some l'" using T assms(2) by (simp only: if_True)
    then show ?thesis using False by (auto simp: LClear_def Let_def set_node_def nth_opt_def split: bind_splits if_splits)
  next
    case cut: False
    define lo where "lo = max 0 s"
    define hi where "hi = min (LLen l - 1) t"
    have b: "0 \<le> lo" "lo \<le> hi" using cut as False by (auto simp: lo_def hi_def)
    show ?thesis
    proof (cases "hi < int (length as)")
      case True
      then obtain l1 where l1: "(do { h \<leftarrow> deref l (Some (Head l)); (p, q) \<leftarrow> trim_loop l lo hi (Next h) 0 None; trim_link l p q }) = Some l1"
        "dll l1 (take (nat (hi + 1 - lo)) (drop (nat lo) as))" "same_but_nodes l l1" using trim_at [OF as(1) b] by metis
      then have "l' = l1\<lparr>LLen := hi - lo + 1\<rparr>" using cut T [folded lo_def hi_def] assms(2) by auto
      moreover have "int (length (take (nat (hi + 1 - lo)) (drop (nat lo) as))) \<le> hi - lo + 1" using b by auto
      ultimately show ?thesis using l1 l unfolding list_ok_def same_but_nodes_def by auto
    next
      case False
      then show ?thesis using trim_at_stale [OF as(1) b] cut T [folded lo_def hi_def] assms(2) by auto
    qed
  qed
qed

lemma LSet_list_ok:
  assumes "list_ok l" and "LSet l i v = Some (l', ok)"
  shows "list_ok l'" and "LLen l' = LLen l"
proof -
  obtain as where as: "dll l as" "int (length as) \<le> LLen l" and l: "LSubscriptions l = []"
    using assms(1) by (auto simp: list_ok_def)
  have "l' = l \<or> (\<exists>a. l' = with_Val l a v)"
    using assms(2) by (auto simp: LSet_def set_node_def nth_opt_def split: bind_splits if_splits)
  then show "list_ok l'" "LLen l' = LLen l"
    using as l dll_with_Val [OF as(1)] unfolding list_ok_def by (auto intro!: exI [of _ as])
qed

end
