(* ===== verification/Set_Struct.thy ===== *)
theory Set_Struct
  imports Resp
begin

text \<open>
  The set type of \<open>src/memdb/sets_struct.go\<close>: a Go map without values, here the list of its
  distinct keys. Each \<open>range\<close> over it visits the members in an order of the environment.
\<close>

section \<open>Operations\<close>

type_synonym GoSet = "string list"

definition NewSet :: GoSet where "NewSet = []"

definition set_Has :: "GoSet \<Rightarrow> string \<Rightarrow> bool" where
  "set_Has s key \<longleftrightarrow> key \<in> set s"

definition set_Add :: "GoSet \<Rightarrow> string \<Rightarrow> GoSet \<times> int" where
  "set_Add s key = (if set_Has s key then (s, 0) else (s @ [key], 1))"

definition set_Remove :: "GoSet \<Rightarrow> string \<Rightarrow> GoSet \<times> int" where
  "set_Remove s key = (if set_Has s key then (remove1 key s, 1) else (s, 0))"

definition set_Len :: "GoSet \<Rightarrow> int" where "set_Len s = int (length s)"

definition set_Pop :: "env \<Rightarrow> nat \<Rightarrow> GoSet \<Rightarrow> GoSet \<times> string" where
  "set_Pop e k s = (case iter e k s of [] \<Rightarrow> (s, []) | key # _ \<Rightarrow> (fst (set_Remove s key), key))"

definition set_Members :: "env \<Rightarrow> GoSet \<Rightarrow> string list" where
  "set_Members e s = iter e 0 s"

abbreviation add_all :: "string list \<Rightarrow> GoSet \<Rightarrow> GoSet" where
  "add_all ks s \<equiv> fold (\<lambda>k s. fst (set_Add s k)) ks s"

abbreviation remove_all :: "string list \<Rightarrow> GoSet \<Rightarrow> GoSet" where
  "remove_all ks s \<equiv> fold (\<lambda>k s. fst (set_Remove s k)) ks s"

definition set_Union :: "env \<Rightarrow> GoSet \<Rightarrow> GoSet list \<Rightarrow> GoSet" where
  "set_Union e s sets =
     fold (\<lambda>(k, t) res. add_all (iter e k t) res) (enumerate 1 sets) (add_all (iter e 0 s) NewSet)"

definition set_Intersect :: "env \<Rightarrow> GoSet \<Rightarrow> GoSet list \<Rightarrow> GoSet" where
  "set_Intersect e s sets =
     fold (\<lambda>(k, t) res. fold (\<lambda>key res. if set_Has t key then res else fst (set_Remove res key)) (iter e k res) res)
       (enumerate 1 sets) (add_all (iter e 0 s) NewSet)"

definition set_Difference :: "env \<Rightarrow> GoSet \<Rightarrow> GoSet list \<Rightarrow> GoSet" where
  "set_Difference e s sets =
     fold (\<lambda>(k, t) res. remove_all (iter e k t) res) (enumerate 1 sets) (add_all (iter e 0 s) NewSet)"

definition set_IsSubset :: "env \<Rightarrow> GoSet \<Rightarrow> GoSet \<Rightarrow> bool" where
  "set_IsSubset e s t \<longleftrightarrow> list_all (set_Has t) (iter e 0 s)"

text \<open>
  The loop of \<open>Random\<close> for a negative count: rounds over the set until \<open>n\<close> members are
  collected. Each round adds one at least, so \<open>n\<close> rounds are enough.
\<close>

fun rand_rounds :: "env \<Rightarrow> GoSet \<Rightarrow> nat \<Rightarrow> nat \<Rightarrow> nat \<Rightarrow> string list \<Rightarrow> string list" where
  "rand_rounds e s n k 0 res = res"
| "rand_rounds e s n k (Suc fuel) res =
     (if length res < n then rand_rounds e s n (k + 1) fuel (res @ take (n - length res) (iter e k s)) else res)"

text \<open>\<open>make([]string, 0, absCount)\<close> panics when the capacity, 16 bytes each, is out of range.\<close>

definition set_Random :: "env \<Rightarrow> GoSet \<Rightarrow> int \<Rightarrow> string list option" where
  "set_Random e s cnt =
     (if \<not> make_ok (16 * \<bar>cnt\<bar>) then None
      else if cnt = 0 \<or> set_Len s = 0 then Some []
      else if cnt > 0 then Some (take (nat (if cnt > set_Len s then set_Len s else cnt)) (iter e 0 s))
      else Some (rand_rounds e s (nat (- cnt)) 0 (nat (- cnt)) []))"

section \<open>Sets\<close>

lemma set_Add_simps [simp]:
  "set (fst (set_Add s k)) = insert k (set s)" "distinct s \<Longrightarrow> distinct (fst (set_Add s k))"
  by (auto simp: set_Add_def set_Has_def)

lemma set_Remove_simps [simp]:
  "distinct s \<Longrightarrow> set (fst (set_Remove s k)) = set s - {k}" "distinct s \<Longrightarrow> distinct (fst (set_Remove s k))"
  by (auto simp: set_Remove_def set_Has_def)

lemma set_Len_card: "distinct s \<Longrightarrow> set_Len s = int (card (set s))"
  by (simp add: set_Len_def distinct_card)

lemma set_Add_count: "snd (set_Add s k) = (if k \<in> set s then 0 else 1)"
  by (simp add: set_Add_def set_Has_def)

lemma set_Remove_count: "snd (set_Remove s k) = (if k \<in> set s then 1 else 0)"
  by (simp add: set_Remove_def set_Has_def)

lemma add_all_simps [simp]:
  "set (add_all ks s) = set ks \<union> set s" "distinct s \<Longrightarrow> distinct (add_all ks s)"
  by (induction ks arbitrary: s) auto

lemma remove_all_simps:
  "distinct s \<Longrightarrow> set (remove_all ks s) = set s - set ks \<and> distinct (remove_all ks s)"
  by (induction ks arbitrary: s) auto

lemma fold_preserves: "(\<And>x y. P y \<Longrightarrow> P (f x y)) \<Longrightarrow> P y \<Longrightarrow> P (fold f xs y)"
  by (induction xs arbitrary: y) auto

lemma set_ops_distinct [simp]:
  "distinct (set_Union e s sets)" "distinct (set_Intersect e s sets)" "distinct (set_Difference e s sets)"
  "distinct s \<Longrightarrow> distinct (fst (set_Pop e k s))"
  unfolding set_Union_def set_Intersect_def set_Difference_def
  by (auto simp: NewSet_def set_Pop_def split: list.splits intro!: fold_preserves [where P = distinct])

lemma set_Union_correct:
  assumes "iter_ok e"
  shows "set (set_Union e s sets) = set s \<union> \<Union> (set ` set sets) \<and> distinct (set_Union e s sets)"
proof -
  have "set (fold (\<lambda>(k, t) res. add_all (iter e k t) res) (enumerate n sets) res) = set res \<union> \<Union> (set ` set sets)
      \<and> distinct (fold (\<lambda>(k, t) res. add_all (iter e k t) res) (enumerate n sets) res)" if "distinct res" for n res
    using that assms by (induction sets arbitrary: n res) (auto simp: iter_ok_set)
  then show ?thesis using assms by (simp add: set_Union_def NewSet_def iter_ok_set)
qed

lemma intersect_round:
  "distinct res \<Longrightarrow> set (fold (\<lambda>key res. if set_Has t key then res else fst (set_Remove res key)) ks res) =
     set res - (set ks - set t) \<and> distinct (fold (\<lambda>key res. if set_Has t key then res else fst (set_Remove res key)) ks res)"
  by (induction ks arbitrary: res) (auto simp: set_Has_def)

lemma set_Intersect_correct:
  assumes "iter_ok e"
  shows "set (set_Intersect e s sets) = set s \<inter> \<Inter> (set ` set sets) \<and> distinct (set_Intersect e s sets)"
proof -
  let ?f = "\<lambda>(k, t) res. fold (\<lambda>key res. if set_Has t key then res else fst (set_Remove res key)) (iter e k res) res"
  have "set (fold ?f (enumerate n sets) res) = set res \<inter> \<Inter> (set ` set sets) \<and> distinct (fold ?f (enumerate n sets) res)"
    if "distinct res" for n res
    using that
  proof (induction sets arbitrary: n res)
    case (Cons t sets)
    have "set (?f (n, t) res) = set res \<inter> set t" "distinct (?f (n, t) res)"
      using intersect_round [OF Cons.prems, of t "iter e n res"] assms by (auto simp: iter_ok_set)
    then show ?case using Cons.IH [of "?f (n, t) res" "Suc n"] by auto
  qed simp
  then show ?thesis using assms by (simp add: set_Intersect_def NewSet_def iter_ok_set)
qed

lemma set_Difference_correct:
  assumes "iter_ok e"
  shows "set (set_Difference e s sets) = set s - \<Union> (set ` set sets) \<and> distinct (set_Difference e s sets)"
proof -
  let ?f = "\<lambda>(k, t) res. remove_all (iter e k t) res"
  have "set (fold ?f (enumerate n sets) res) = set res - \<Union> (set ` set sets) \<and> distinct (fold ?f (enumerate n sets) res)"
    if "distinct res" for n res
    using that
  proof (induction sets arbitrary: n res)
    case (Cons t sets)
    have "set (?f (n, t) res) = set res - set t" "distinct (?f (n, t) res)"
      using remove_all_simps [OF Cons.prems, of "iter e n t"] assms by (auto simp: iter_ok_set)
    then show ?case using Cons.IH [of "?f (n, t) res" "Suc n"] by auto
  qed simp
  then show ?thesis using assms by (simp add: set_Difference_def NewSet_def iter_ok_set)
qed

lemma set_Pop_correct:
  assumes "iter_ok e" and "distinct s" and "s \<noteq> []"
  shows "snd (set_Pop e k s) \<in> set s \<and> set (fst (set_Pop e k s)) = set s - {snd (set_Pop e k s)} \<and> distinct (fst (set_Pop e k s))"
proof -
  obtain x xs where x: "iter e k s = x # xs" using iter_ok_length [OF assms(1), of k s] assms(3) by (cases "iter e k s") auto
  then have "x \<in> set s" using iter_ok_set [OF assms(1), of k s] by auto
  then show ?thesis using x assms(2) by (simp add: set_Pop_def)
qed

lemma rand_rounds_correct:
  assumes "iter_ok e" and "s \<noteq> []"
  shows "length res \<le> n \<Longrightarrow> n \<le> length res + fuel \<Longrightarrow> set res \<subseteq> set s \<Longrightarrow>
    length (rand_rounds e s n k fuel res) = n \<and> set (rand_rounds e s n k fuel res) \<subseteq> set s"
proof (induction fuel arbitrary: k res)
  case (Suc fuel)
  define L where "L = length (iter e k s)"
  have "1 \<le> L" using iter_ok_length [OF assms(1), of k s] assms(2) by (cases s) (auto simp: L_def)
  then have "length res < n \<Longrightarrow> length (res @ take (n - length res) (iter e k s)) \<le> n
      \<and> n \<le> length (res @ take (n - length res) (iter e k s)) + fuel"
    using Suc.prems by (auto simp flip: L_def)
  moreover have "set (take (n - length res) (iter e k s)) \<subseteq> set s"
    using iter_ok_set [OF assms(1), of k s] set_take_subset by metis
  ultimately show ?case
    using Suc.prems Suc.IH [of "res @ take (n - length res) (iter e k s)" "Suc k"] by auto
qed auto

lemma set_Random_correct:
  assumes "iter_ok e" and "distinct s" and "make_ok (16 * \<bar>cnt\<bar>)"
  obtains r where "set_Random e s cnt = Some r" and "set r \<subseteq> set s"
    and "cnt \<ge> 0 \<Longrightarrow> distinct r \<and> int (length r) = min cnt (set_Len s)"
    and "cnt < 0 \<Longrightarrow> s \<noteq> [] \<Longrightarrow> int (length r) = - cnt"
proof -
  have it: "set (iter e 0 s) = set s" "distinct (iter e 0 s)" "length (iter e 0 s) = length s"
    using assms(1,2) iter_ok_set iter_ok_distinct iter_ok_length by auto
  consider "cnt = 0 \<or> s = []" | "cnt > 0" "s \<noteq> []" | "cnt < 0" "s \<noteq> []" by fastforce
  then show ?thesis
  proof cases
    case 1
    then show ?thesis using that [of "[]"] assms(3) by (auto simp: set_Random_def set_Len_def)
  next
    case 2
    let ?n = "nat (if cnt > set_Len s then set_Len s else cnt)"
    have "set_Random e s cnt = Some (take ?n (iter e 0 s))" using 2 assms(3) by (simp add: set_Random_def set_Len_def)
    moreover have "set (take ?n (iter e 0 s)) \<subseteq> set s" using it(1) set_take_subset by metis
    moreover have "int (length (take ?n (iter e 0 s))) = min cnt (set_Len s)" using 2 it(3) by (auto simp: set_Len_def min_def)
    ultimately show ?thesis using that 2 it(2) by simp
  next
    case 3
    then show ?thesis
      using that [of "rand_rounds e s (nat (- cnt)) 0 (nat (- cnt)) []"] assms(3)
        rand_rounds_correct [OF assms(1) 3(2), of "[]" "nat (- cnt)" "nat (- cnt)" 0]
      by (auto simp: set_Random_def set_Len_def)
  qed
qed

end
