(* ===== verification/Hash_Struct.thy ===== *)
theory Hash_Struct
  imports Set_Struct Concurrent_Map
begin

text \<open>
  The hash type of \<open>src/memdb/hash_struct.go\<close>: a Go map from field names to byte slices.
\<close>

section \<open>Operations\<close>

type_synonym Hash = "(string \<times> slice) list"

definition NewHash :: Hash where "NewHash = []"

definition hash_Set :: "Hash \<Rightarrow> string \<Rightarrow> slice \<Rightarrow> Hash" where
  "hash_Set h key v = AList.update key v h"

definition hash_Get :: "Hash \<Rightarrow> string \<Rightarrow> slice" where
  "hash_Get h key = (case map_of h key of None \<Rightarrow> None | Some v \<Rightarrow> v)"

definition hash_Exist :: "Hash \<Rightarrow> string \<Rightarrow> bool" where
  "hash_Exist h key \<longleftrightarrow> map_of h key \<noteq> None"

definition hash_Del :: "Hash \<Rightarrow> string \<Rightarrow> Hash \<times> int" where
  "hash_Del h key = (if hash_Exist h key then (AList.delete key h, 1) else (h, 0))"

definition hash_Len :: "Hash \<Rightarrow> int" where "hash_Len h = int (length h)"

definition hash_Keys :: "env \<Rightarrow> Hash \<Rightarrow> string list" where
  "hash_Keys e h = iter e 0 (map fst h)"

definition hash_Values :: "env \<Rightarrow> Hash \<Rightarrow> slice list" where
  "hash_Values e h = map (hash_Get h) (iter e 0 (map fst h))"

definition hash_Clear :: "Hash \<Rightarrow> Hash" where "hash_Clear h = NewHash"

definition hash_IsEmpty :: "Hash \<Rightarrow> bool" where "hash_IsEmpty h \<longleftrightarrow> h = []"

definition hash_StrLen :: "Hash \<Rightarrow> string \<Rightarrow> int" where
  "hash_StrLen h key = int (length (str (hash_Get h key)))"

text \<open>
  The loops for a negative count end when the number of collected elements equals
  \<open>-count\<close>; they never end when that number, wrapped to 64 bits, is not positive.
\<close>

definition hash_Random :: "env \<Rightarrow> Hash \<Rightarrow> int \<Rightarrow> string list option" where
  "hash_Random e h cnt =
     (if cnt = 0 \<or> hash_Len h = 0 then Some []
      else if cnt > 0 then Some (take (nat (if cnt > hash_Len h then hash_Len h else cnt)) (iter e 0 (map fst h)))
      else let n = wrap64 (- cnt) in
        if n \<le> 0 then None else Some (rand_rounds e (map fst h) (nat n) 0 (nat n) []))"

definition with_values :: "Hash \<Rightarrow> string list \<Rightarrow> slice list" where
  "with_values h ks = concat (map (\<lambda>k. [Some k, hash_Get h k]) ks)"

definition hash_RandomWithValue :: "env \<Rightarrow> Hash \<Rightarrow> int \<Rightarrow> slice list option" where
  "hash_RandomWithValue e h cnt =
     (if cnt = 0 \<or> hash_Len h = 0 then Some []
      else if cnt > 0 then
        Some (with_values h (take (nat (if cnt > hash_Len h then hash_Len h else cnt)) (iter e 0 (map fst h))))
      else let n = wrap64 (- wrap64 (cnt * 2)) in
        if n \<le> 0 then None
        else Some (with_values h (rand_rounds e (map fst h) (nat (n div 2)) 0 (nat (n div 2)) [])))"

definition hash_IncrBy :: "Hash \<Rightarrow> string \<Rightarrow> int \<Rightarrow> Hash \<times> (int \<times> bool)" where
  "hash_IncrBy h key incr =
     (let tem = hash_Get h key in
      if str tem = [] then (hash_Set h key (Some (Itoa incr)), incr, True)
      else case Atoi (str tem) of None \<Rightarrow> (h, 0, False)
        | Some v \<Rightarrow> let v = wrap64 (v + incr) in (hash_Set h key (Some (Itoa v)), v, True))"

definition hash_IncrByFloat :: "env \<Rightarrow> Hash \<Rightarrow> string \<Rightarrow> f64 \<Rightarrow> Hash \<times> (f64 \<times> bool)" where
  "hash_IncrByFloat e h key incr =
     (let tem = hash_Get h key in
      if str tem = [] then (hash_Set h key (Some (f_fmt e incr)), incr, True)
      else case f_parse e (str tem) of None \<Rightarrow> (h, 0, False)
        | Some v \<Rightarrow> let v = f_add e v incr in (hash_Set h key (Some (f_fmt e v)), v, True))"

section \<open>A hash is a key-value store\<close>

interpretation hash: kv_map map_of hash_Set "\<lambda>h k. fst (hash_Del h k)" hash_Len gm_ok
proof
  fix h :: Hash and k v
  assume h: "gm_ok h"
  show "map_of (hash_Set h k v) = (map_of h)(k \<mapsto> v)" by (simp add: hash_Set_def)
  show "map_of (fst (hash_Del h k)) = (map_of h)(k := None)" by (auto simp: hash_Del_def hash_Exist_def)
  show "gm_ok (hash_Set h k v)" "gm_ok (fst (hash_Del h k))" using h by (simp_all add: hash_Set_def hash_Del_def)
  show "finite (dom (map_of h))" by (rule finite_dom_map_of)
  show "hash_Len h = int (card (dom (map_of h)))" using h by (simp add: hash_Len_def length_gm)
qed

lemma hash_Del_count: "snd (hash_Del h k) = (if map_of h k = None then 0 else 1)"
  by (simp add: hash_Del_def hash_Exist_def)

lemma hash_Get_Set: "hash_Get (hash_Set h k v) k' = (if k' = k then v else hash_Get h k')"
  by (simp add: hash_Get_def hash_Set_def)

lemma hash_Keys_correct:
  assumes "iter_ok e" and "gm_ok h"
  shows "distinct (hash_Keys e h)" and "set (hash_Keys e h) = dom (map_of h)"
  using assms iter_ok_distinct [OF assms(1), of 0 "map fst h"] iter_ok_set [OF assms(1), of 0 "map fst h"]
  by (auto simp: hash_Keys_def gm_ok_def dom_map_of_conv_image_fst)

text \<open>
  Incrementing a field that holds a decimal number (or nothing) stores the sum, modulo
  \<open>2 ^ 64\<close>, in decimal.
\<close>

lemma hash_IncrBy_correct:
  assumes "hash_Get h k = Some (Itoa v)" and "in64 v"
  shows "hash_IncrBy h k i = (hash_Set h k (Some (Itoa (wrap64 (v + i)))), wrap64 (v + i), True)"
proof -
  have "Itoa v \<noteq> []" by (simp add: FormatInt_def)
  then show ?thesis using assms by (simp add: hash_IncrBy_def Let_def)
qed

lemma gm_ok_IncrBy: "gm_ok h \<Longrightarrow> gm_ok (fst (hash_IncrBy h k i))"
  by (simp add: hash_IncrBy_def Let_def hash_Set_def split: option.split)

lemma gm_ok_IncrByFloat: "gm_ok h \<Longrightarrow> gm_ok (fst (hash_IncrByFloat e h k i))"
  by (simp add: hash_IncrByFloat_def Let_def hash_Set_def split: option.split)

end
