(* ===== verification/Btree.thy ===== *)
theory Btree
  imports Prelude
begin

text \<open>
  The search tree of the sorted sets: \<open>src/memdb/btree.go\<close> at the type
  \<open>src/memdb/sorted_set_struct.go\<close> gives it. A tree node holds a pointer to a value (the
  names of the members with one score), the dictionary points to nodes, and a deletion can
  make two nodes share a value. So nodes and values have addresses: \<open>nodeval\<close> gives the value
  of a node, \<open>valstore\<close> the contents of a value. A node that has left the tree keeps its
  value, and the dictionary can still point to it. The shape of the tree is a datatype.
\<close>

section \<open>SortedSetNode\<close>

record SortedSetNode =
  Names :: "string list"
  Score :: f64

definition AddName :: "SortedSetNode \<Rightarrow> string \<Rightarrow> SortedSetNode" where
  "AddName n name = n\<lparr>Names := List.insert name (Names n)\<rparr>"

definition DeleteName :: "SortedSetNode \<Rightarrow> string \<Rightarrow> SortedSetNode" where
  "DeleteName n name = n\<lparr>Names := removeAll name (Names n)\<rparr>"

definition Comp :: "SortedSetNode \<Rightarrow> SortedSetNode \<Rightarrow> int" where
  "Comp n n2 = (if f_lt (Score n2) (Score n) then 1 else if f_lt (Score n) (Score n2) then - 1 else 0)"

section \<open>Trees\<close>

datatype Tree = Nil | Node nat (left: Tree) (right: Tree) int

record Btree =
  root :: Tree
  tvalues :: "(string \<times> f64) list option"
  tlen :: int
  dict :: "(string \<times> nat) list"
  nodeval :: "nat list"
  valstore :: "SortedSetNode list"

definition NewBtree :: Btree where
  "NewBtree = \<lparr>root = Nil, tvalues = None, tlen = 0, dict = [], nodeval = [], valstore = []\<rparr>"

definition Value :: "Btree \<Rightarrow> nat \<Rightarrow> SortedSetNode" where
  "Value t i = valstore t ! (nodeval t ! i)"

fun height :: "Tree \<Rightarrow> int" where
  "height Nil = 0"
| "height (Node i l r h) = h"

fun balance :: "Tree \<Rightarrow> int" where
  "balance Nil = 0"
| "balance (Node i l r h) = height l - height r"

definition maxHeight :: "Tree \<Rightarrow> Tree \<Rightarrow> int" where
  "maxHeight l r = (if height r > height l then height r else height l)"

text \<open>A node with its height set to \<open>maxHeight() + 1\<close>.\<close>

definition mk :: "nat \<Rightarrow> Tree \<Rightarrow> Tree \<Rightarrow> Tree" where
  "mk i l r = Node i l r (maxHeight l r + 1)"

fun rotateRight :: "Tree \<Rightarrow> Tree option" where
  "rotateRight (Node i (Node j a b _) r _) = Some (mk j a (mk i b r))"
| "rotateRight _ = None"

fun rotateLeft :: "Tree \<Rightarrow> Tree option" where
  "rotateLeft (Node i l (Node j a b _) _) = Some (mk j (mk i l a) b)"
| "rotateLeft _ = None"

section \<open>Insert\<close>

text \<open>
  The end of \<open>insert\<close> for a node whose child has been replaced: \<open>c\<close> is the comparison of its
  value with the target.
\<close>

definition insert_fix :: "nat \<Rightarrow> Tree \<Rightarrow> Tree \<Rightarrow> int \<Rightarrow> Tree option" where
  "insert_fix i l r c =
     (let n = mk i l r in
      if balance n > 1 then
        if c > 0 then rotateRight n
        else if c < 0 then do { l' \<leftarrow> rotateLeft l; rotateRight (Node i l' r (height n)) }
        else Some n
      else if balance n < - 1 then
        if c < 0 then rotateLeft n
        else if c > 0 then do { r' \<leftarrow> rotateRight r; rotateLeft (Node i l r' (height n)) }
        else Some n
      else Some n)"

definition add_names :: "env \<Rightarrow> nat \<Rightarrow> nat \<Rightarrow> Btree \<Rightarrow> Btree" where
  "add_names e i v t =
     fold (\<lambda>name t. t\<lparr>valstore := (valstore t)[nodeval t ! i := AddName (Value t i) name],
                      dict := AList.update name i (dict t)\<rparr>) (iter e 0 (Names (valstore t ! v))) t"

definition new_tree_node :: "env \<Rightarrow> nat \<Rightarrow> Btree \<Rightarrow> Btree" where
  "new_tree_node e v t =
     (let i = length (nodeval t) in
      t\<lparr>nodeval := nodeval t @ [v],
        dict := fold (\<lambda>name d. AList.update name i d) (iter e 0 (Names (valstore t ! v))) (dict t)\<rparr>)"

fun insert :: "env \<Rightarrow> Tree \<Rightarrow> nat \<Rightarrow> Btree \<Rightarrow> (Tree \<times> bool \<times> Btree) option" where
  "insert e Nil v t = Some (mk (length (nodeval t)) Nil Nil, True, new_tree_node e v t)"
| "insert e (Node i l r h) v t =
     (let c = Comp (Value t i) (valstore t ! v) in
      if c < 0 then do { (r', added, t) \<leftarrow> insert e r v t; n \<leftarrow> insert_fix i l r' c; Some (n, added, t) }
      else if c > 0 then do { (l', added, t) \<leftarrow> insert e l v t; n \<leftarrow> insert_fix i l' r c; Some (n, added, t) }
      else Some (Node i l r h, False, add_names e i v t))"

definition Insert :: "env \<Rightarrow> Btree \<Rightarrow> SortedSetNode \<Rightarrow> (Btree \<times> bool) option" where
  "Insert e t0 r =
     (let v = length (valstore t0); t = t0\<lparr>valstore := valstore t0 @ [r]\<rparr> in
      do { (n, added, t) \<leftarrow> insert e (root t) v t;
           Some (t\<lparr>root := n, tlen := (if added then tlen t + 1 else tlen t), tvalues := None\<rparr>, added) })"

section \<open>Lookup and traversal\<close>

fun get_node :: "Btree \<Rightarrow> Tree \<Rightarrow> SortedSetNode \<Rightarrow> nat option" where
  "get_node t Nil target = None"
| "get_node t (Node i l r h) target =
     (let c = Comp target (Value t i) in
      if c < 0 then get_node t l target else if c > 0 then get_node t r target else Some i)"

definition Get :: "Btree \<Rightarrow> SortedSetNode \<Rightarrow> SortedSetNode option" where
  "Get t target = map_option (Value t) (get_node t (root t) target)"

definition GetByName :: "Btree \<Rightarrow> string \<Rightarrow> nat option" where
  "GetByName t name = map_of (dict t) name"

fun leftmost :: "Tree \<Rightarrow> nat option" where
  "leftmost Nil = None"
| "leftmost (Node i l r h) = (if l = Nil then Some i else leftmost l)"

fun rightmost :: "Tree \<Rightarrow> nat option" where
  "rightmost Nil = None"
| "rightmost (Node i l r h) = (if r = Nil then Some i else rightmost r)"

text \<open>
  \<open>iterate\<close>: the iterator is called on the nodes in order, with the running index, and its
  result decides whether the right child of that node is visited. The state of the closure
  is \<open>'s\<close>.
\<close>

fun iterate :: "(nat \<Rightarrow> int \<Rightarrow> 's \<Rightarrow> 's \<times> bool) \<Rightarrow> Tree \<Rightarrow> int \<Rightarrow> bool \<Rightarrow> 's \<Rightarrow> int \<times> 's" where
  "iterate f Nil i cont s = (i, s)"
| "iterate f (Node n l r h) i cont s =
     (if cont then
        let (i, s) = iterate f l i cont s;
            (s, cont) = f n i s
        in iterate f r (i + 1) cont s
      else (i, s))"

definition Ascend :: "(nat \<Rightarrow> int \<Rightarrow> 's \<Rightarrow> 's \<times> bool) \<Rightarrow> Btree \<Rightarrow> 's \<Rightarrow> 's" where
  "Ascend f t s = snd (iterate f (root t) 0 True s)"

text \<open>\<open>rIterate\<close> calls \<open>iterate\<close>, not itself, on the children.\<close>

fun rIterate :: "(nat \<Rightarrow> int \<Rightarrow> 's \<Rightarrow> 's \<times> bool) \<Rightarrow> Tree \<Rightarrow> int \<Rightarrow> bool \<Rightarrow> 's \<Rightarrow> int \<times> 's" where
  "rIterate f Nil i cont s = (i, s)"
| "rIterate f (Node n l r h) i cont s =
     (if cont then
        let (i, s) = iterate f r i cont s;
            (s, cont) = f n i s
        in iterate f l (i + 1) cont s
      else (i, s))"

definition Descend :: "(nat \<Rightarrow> int \<Rightarrow> 's \<Rightarrow> 's \<times> bool) \<Rightarrow> Btree \<Rightarrow> 's \<Rightarrow> 's" where
  "Descend f t s = snd (rIterate f (root t) 0 True s)"

definition Values :: "env \<Rightarrow> Btree \<Rightarrow> Btree \<times> (string \<times> f64) list" where
  "Values e t = (case tvalues t of Some vs \<Rightarrow> (t, vs)
     | None \<Rightarrow> let vs = Ascend (\<lambda>n i vs. (vs @ map (\<lambda>name. (name, Score (Value t n))) (iter e (nat i) (Names (Value t n))), True)) t []
               in (t\<lparr>tvalues := Some vs\<rparr>, vs))"

section \<open>Delete\<close>

definition rebalance :: "nat \<Rightarrow> Tree \<Rightarrow> Tree \<Rightarrow> Tree option" where
  "rebalance i l r =
     (let n = mk i l r; bal = balance n in
      if bal > 1 then
        if balance l \<ge> 0 then rotateRight n
        else do { l' \<leftarrow> rotateLeft l; rotateRight (Node i l' r (height n)) }
      else if bal < - 1 then
        if balance r \<le> 0 then rotateLeft n
        else do { r' \<leftarrow> rotateRight r; rotateLeft (Node i l r' (height n)) }
      else Some n)"

text \<open>\<open>target\<close> is the address of a value; the tree and the stores change.\<close>

fun deleteNode :: "env \<Rightarrow> Tree \<Rightarrow> nat \<Rightarrow> bool \<Rightarrow> Btree \<Rightarrow> (Tree \<times> bool \<times> Btree) option" where
  "deleteNode e Nil target deleted t = Some (Nil, deleted, t)"
| "deleteNode e (Node i l r h) target deleted t =
     (let c = Comp (valstore t ! target) (Value t i) in
      if c < 0 then do { (l', deleted, t) \<leftarrow> deleteNode e l target deleted t;
                         n \<leftarrow> rebalance i l' r; Some (n, deleted, t) }
      else if c > 0 then do { (r', deleted, t) \<leftarrow> deleteNode e r target deleted t;
                              n \<leftarrow> rebalance i l r'; Some (n, deleted, t) }
      else if Names (Value t i) = [] \<or> length (Names (valstore t ! target)) = length (Names (Value t i)) then
        if l = Nil then Some (r, True, t)
        else (case leftmost r of None \<Rightarrow> Some (l, True, t)
              | Some m \<Rightarrow> do {
                  let tv = nodeval t ! m;
                  let t = t\<lparr>nodeval := (nodeval t)[i := tv]\<rparr>;
                  (r', deleted, t) \<leftarrow> deleteNode e r tv True t;
                  Some (Node i l r' h, deleted, t) })
      else
        Some (Node i l r h, deleted,
          fold (\<lambda>name t. t\<lparr>valstore := (valstore t)[nodeval t ! i := DeleteName (Value t i) name]\<rparr>)
            (iter e 0 (Names (valstore t ! target))) t))"

definition Delete :: "env \<Rightarrow> Btree \<Rightarrow> string \<Rightarrow> (Btree \<times> bool) option" where
  "Delete e t name =
     (case map_of (dict t) name of None \<Rightarrow> Some (t, False)
      | Some node \<Rightarrow> do {
          (n, deleted, t) \<leftarrow> deleteNode e (root t) (nodeval t ! node) False t;
          Some (t\<lparr>root := n, dict := AList.delete name (dict t),
                  tlen := (if deleted then tlen t - 1 else tlen t), tvalues := None\<rparr>, True) })"

text \<open>\<open>Pop\<close> and \<open>Pull\<close> delete the last and the first node by one of its names.\<close>

definition pop_at :: "env \<Rightarrow> nat option \<Rightarrow> Btree \<Rightarrow> (Btree \<times> SortedSetNode option) option" where
  "pop_at e at t =
     (case at of None \<Rightarrow> Some (t, None)
      | Some i \<Rightarrow> let val = Value t i in
          (case iter e 0 (Names val) of [] \<Rightarrow> Some (t, Some val)
           | name # _ \<Rightarrow> do { (t', _) \<leftarrow> Delete e t name; Some (t', Some (valstore t' ! (nodeval t ! i))) }))"

definition Pop :: "env \<Rightarrow> Btree \<Rightarrow> (Btree \<times> SortedSetNode option) option" where
  "Pop e t = pop_at e (rightmost (root t)) t"

definition Pull :: "env \<Rightarrow> Btree \<Rightarrow> (Btree \<times> SortedSetNode option) option" where
  "Pull e t = pop_at e (leftmost (root t)) t"

section \<open>Rank\<close>

fun rank :: "Btree \<Rightarrow> Tree \<Rightarrow> f64 \<Rightarrow> int" where
  "rank t Nil score = 0"
| "rank t (Node i l r h) score =
     (if f_lt (Score (Value t i)) score then
        if l = Nil then 1 + rank t r score else 1 + height l + rank t r score
      else rank t l score)"

definition Rank :: "Btree \<Rightarrow> f64 \<Rightarrow> int" where
  "Rank t score = rank t (root t) score"

section \<open>Convenience operations\<close>

fun InsertAll :: "env \<Rightarrow> Btree \<Rightarrow> SortedSetNode list \<Rightarrow> Btree option" where
  "InsertAll e t [] = Some t"
| "InsertAll e t (v # vs) = do { (t, _) \<leftarrow> Insert e t v; InsertAll e t vs }"

definition Contains :: "Btree \<Rightarrow> SortedSetNode \<Rightarrow> bool" where
  "Contains t val \<longleftrightarrow> Get t val \<noteq> None"

definition ContainsAny :: "Btree \<Rightarrow> SortedSetNode list \<Rightarrow> bool" where
  "ContainsAny t vals \<longleftrightarrow> list_ex (Contains t) vals"

definition ContainsAll :: "Btree \<Rightarrow> SortedSetNode list \<Rightarrow> bool" where
  "ContainsAll t vals \<longleftrightarrow> list_all (Contains t) vals"

fun DeleteAll :: "env \<Rightarrow> Btree \<Rightarrow> string list \<Rightarrow> Btree option" where
  "DeleteAll e t [] = Some t"
| "DeleteAll e t (v # vs) = do { (t, _) \<leftarrow> Delete e t v; DeleteAll e t vs }"

definition Empty :: "Btree \<Rightarrow> bool" where
  "Empty t \<longleftrightarrow> root t = Nil"

definition NotEmpty :: "Btree \<Rightarrow> bool" where
  "NotEmpty t \<longleftrightarrow> root t \<noteq> Nil"

definition tree_balance :: "Btree \<Rightarrow> int" where
  "tree_balance t = (if root t \<noteq> Nil then balance (root t) else 0)"

section \<open>Search order\<close>

fun inorder :: "Tree \<Rightarrow> nat list" where
  "inorder Nil = []"
| "inorder (Node i l r h) = inorder l @ i # inorder r"

text \<open>The scores of the nodes in order, as keys that compare like the scores.\<close>

definition keys :: "Btree \<Rightarrow> Tree \<Rightarrow> int list" where
  "keys t n = map (\<lambda>i. f_key (Score (Value t i))) (inorder n)"

text \<open>
  A well-formed tree: every node has a value, no score is a NaN, and the scores increase
  strictly from left to right.
\<close>

definition tree_ok :: "Btree \<Rightarrow> Tree \<Rightarrow> bool" where
  "tree_ok t n \<longleftrightarrow> distinct (inorder n) \<and> (\<forall>i \<in> set (inorder n). i < length (nodeval t) \<and> nodeval t ! i < length (valstore t)
     \<and> \<not> f_nan (Score (Value t i))) \<and> sorted_wrt (<) (keys t n)"

fun ins_key :: "int \<Rightarrow> int list \<Rightarrow> int list" where
  "ins_key x [] = [x]"
| "ins_key x (y # ys) = (if x < y then x # y # ys else if x = y then y # ys else y # ins_key x ys)"

lemma ins_key_middle:
  "sorted_wrt (<) (xs @ a # ys) \<Longrightarrow> ins_key x (xs @ a # ys) =
     (if x < a then ins_key x xs @ a # ys else if x = a then xs @ a # ys else xs @ a # ins_key x ys)"
  by (induction xs) auto

lemma set_ins_key: "set (ins_key x xs) = Set.insert x (set xs)"
  by (induction xs) auto

lemma sorted_ins_key: "sorted_wrt (<) xs \<Longrightarrow> sorted_wrt (<) (ins_key x xs)"
  by (induction xs) (auto simp: set_ins_key)

lemma sorted_remove1: "sorted_wrt (<) xs \<Longrightarrow> sorted_wrt (<) (removeAll (x :: int) xs)"
  by (induction xs) auto

lemma removeAll_middle:
  "sorted_wrt (<) (xs @ (a :: int) # ys) \<Longrightarrow> removeAll x (xs @ a # ys) =
     (if x < a then removeAll x xs @ a # ys else if x = a then xs @ ys else xs @ a # removeAll x ys)"
  by (auto simp: sorted_wrt_append intro!: removeAll_id arg_cong2 [where f = append])

lemma Comp_sign:
  assumes "\<not> f_nan (Score a)" and "\<not> f_nan (Score b)"
  shows "Comp a b < 0 \<longleftrightarrow> f_key (Score a) < f_key (Score b)"
    and "Comp a b > 0 \<longleftrightarrow> f_key (Score a) > f_key (Score b)"
    and "Comp a b = 0 \<longleftrightarrow> f_key (Score a) = f_key (Score b)"
  using assms by (auto simp: Comp_def f_lt_def)

lemma keys_simps [simp]:
  "keys t Nil = []" "keys t (Node i l r h) = keys t l @ f_key (Score (Value t i)) # keys t r"
  by (simp_all add: keys_def)

lemma inorder_mk [simp]: "inorder (mk i l r) = inorder l @ i # inorder r"
  by (simp add: mk_def)

lemma inorder_rotateRight: "rotateRight n = Some n' \<Longrightarrow> inorder n' = inorder n"
  by (induction n rule: rotateRight.induct) auto

lemma inorder_rotateLeft: "rotateLeft n = Some n' \<Longrightarrow> inorder n' = inorder n"
  by (induction n rule: rotateLeft.induct) auto

lemma inorder_insert_fix: "insert_fix i l r c = Some n \<Longrightarrow> inorder n = inorder l @ i # inorder r"
  by (auto simp: insert_fix_def Let_def dest!: inorder_rotateRight inorder_rotateLeft
      split: if_splits bind_splits)

lemma inorder_rebalance: "rebalance i l r = Some n \<Longrightarrow> inorder n = inorder l @ i # inorder r"
  by (auto simp: rebalance_def Let_def dest!: inorder_rotateRight inorder_rotateLeft
      split: if_splits bind_splits)

text \<open>What an insertion changes of the stores: names only, and one node more.\<close>

definition same_scores :: "Btree \<Rightarrow> Btree \<Rightarrow> bool" where
  "same_scores t t' \<longleftrightarrow> length (valstore t') = length (valstore t) \<and> (\<exists>vs. nodeval t' = nodeval t @ vs)
     \<and> (\<forall>v < length (valstore t). Score (valstore t' ! v) = Score (valstore t ! v))"

lemma same_scores_refl [simp]: "same_scores t t"
  by (simp add: same_scores_def)

lemma same_scores_trans: "same_scores t u \<Longrightarrow> same_scores u w \<Longrightarrow> same_scores t w"
  by (auto simp: same_scores_def)

lemma same_scores_Value:
  "same_scores t t' \<Longrightarrow> i < length (nodeval t) \<Longrightarrow> nodeval t ! i < length (valstore t) \<Longrightarrow>
     Score (Value t' i) = Score (Value t i)"
  by (auto simp: same_scores_def Value_def nth_append)

lemma same_scores_keys:
  "same_scores t t' \<Longrightarrow> tree_ok t n \<Longrightarrow> keys t' n = keys t n"
  by (auto simp: keys_def tree_ok_def same_scores_Value)

lemma same_scores_tree_ok: "same_scores t t' \<Longrightarrow> tree_ok t n \<Longrightarrow> tree_ok t' n"
  using same_scores_keys [of t t' n]
  by (auto simp: tree_ok_def same_scores_Value) (auto simp: same_scores_def nth_append)

lemma nth_list_update_cases: "(xs[i := x]) ! j = (if i = j \<and> i < length xs then x else xs ! j)"
  by (cases "i = j"; cases "i < length xs") (simp_all add: list_update_beyond)

lemma same_scores_add_names: "same_scores t (add_names e i v t)"
proof -
  let ?f = "\<lambda>name t. t\<lparr>valstore := (valstore t)[nodeval t ! i := AddName (Value t i) name],
    dict := AList.update name i (dict t)\<rparr>"
  have "same_scores t (fold ?f ns u)" if "same_scores t u" for ns u
    using that
  proof (induction ns arbitrary: u)
    case (Cons n ns)
    have "same_scores u (?f n u)"
      by (auto simp: same_scores_def nth_list_update_cases AddName_def Value_def)
    then show ?case using Cons same_scores_trans by auto
  qed simp
  then show ?thesis by (simp add: add_names_def)
qed

lemma same_scores_new_tree_node: "same_scores t (new_tree_node e v t)"
  by (simp add: same_scores_def new_tree_node_def Let_def)

lemma insert_same_scores: "insert e n v t = Some (n', added, t') \<Longrightarrow> same_scores t t'"
  by (induction e n v t arbitrary: n' added t' rule: insert.induct)
    (auto simp: Let_def same_scores_add_names same_scores_new_tree_node split: if_splits bind_splits)

section \<open>Insertion is correct\<close>

lemma tree_ok_Node:
  assumes "tree_ok t (Node i l r h)"
  shows "tree_ok t l" "tree_ok t r" "\<not> f_nan (Score (Value t i))" "i < length (nodeval t)" "nodeval t ! i < length (valstore t)"
  using assms by (auto simp: tree_ok_def sorted_wrt_append)

lemma insert_keys:
  assumes "insert e n v t = Some (n', added, t')" and "tree_ok t n"
    and "v < length (valstore t)" and "\<not> f_nan (Score (valstore t ! v))"
  shows "keys t' n' = ins_key (f_key (Score (valstore t ! v))) (keys t n)
    \<and> added = (f_key (Score (valstore t ! v)) \<notin> set (keys t n))
    \<and> inorder n' = (if added then inorder n' else inorder n)
    \<and> set (inorder n') = (if added then Set.insert (length (nodeval t)) (set (inorder n)) else set (inorder n))
    \<and> distinct (inorder n') \<and> (added \<longrightarrow> nodeval t' = nodeval t @ [v]) \<and> (\<not> added \<longrightarrow> nodeval t' = nodeval t)"
  using assms
proof (induction e n v t arbitrary: n' added t' rule: insert.induct)
  case (1 e v t)
  then show ?case by (auto simp: mk_def keys_def new_tree_node_def Let_def Value_def)
next
  case (2 e i l r h v t)
  note ok = tree_ok_Node [OF "2.prems"(2)]
  note comp = Comp_sign [OF ok(3) "2.prems"(4)]
  let ?x = "f_key (Score (valstore t ! v))" and ?a = "f_key (Score (Value t i))"
  have sorted: "sorted_wrt (<) (keys t l @ ?a # keys t r)" using "2.prems"(2) by (simp add: tree_ok_def)
  have disj: "i \<notin> set (inorder l)" "i \<notin> set (inorder r)" "set (inorder l) \<inter> set (inorder r) = {}"
    "\<forall>j \<in> set (inorder l) \<union> set (inorder r). j < length (nodeval t)" "distinct (inorder l)" "distinct (inorder r)"
    using "2.prems"(2) by (auto simp: tree_ok_def)
  note ins = ins_key_middle [OF sorted, of ?x]
  consider (right) "?a < ?x" | (left) "?x < ?a" | (eq) "?x = ?a" by linarith
  then show ?case
  proof cases
    case right
    then obtain r' where r': "insert e r v t = Some (r', added, t')" "insert_fix i l r' (Comp (Value t i) (valstore t ! v)) = Some n'"
      using "2.prems"(1) comp by (auto simp: Let_def split: bind_splits)
    note IH = "2.IH"(1) [OF refl _ r'(1) ok(2) "2.prems"(3,4)]
    have c: "Comp (Value t i) (valstore t ! v) < 0" using right comp by simp
    note fx = inorder_insert_fix [OF r'(2)] insert_same_scores [OF r'(1)]
    have "keys t' n' = keys t' l @ f_key (Score (Value t' i)) # keys t' r'" using fx(1) by (simp add: keys_def)
    then have "keys t' n' = keys t l @ ?a # keys t' r'"
      using same_scores_keys [OF fx(2) ok(1)] same_scores_Value [OF fx(2) ok(4,5)] by simp
    then show ?thesis using IH [OF c] right ins fx(1) disj sorted ok(4)
      by (auto simp: sorted_wrt_append split: if_splits)
  next
    case left
    then have c: "Comp (Value t i) (valstore t ! v) > 0" "\<not> Comp (Value t i) (valstore t ! v) < 0" using comp by auto
    then obtain l' where l': "insert e l v t = Some (l', added, t')" "insert_fix i l' r (Comp (Value t i) (valstore t ! v)) = Some n'"
      using "2.prems"(1) by (auto simp: Let_def split: bind_splits)
    note IH = "2.IH"(2) [OF refl c(2,1) l'(1) ok(1) "2.prems"(3,4)]
    note fx = inorder_insert_fix [OF l'(2)] insert_same_scores [OF l'(1)]
    have "keys t' n' = keys t' l' @ f_key (Score (Value t' i)) # keys t' r" using fx(1) by (simp add: keys_def)
    then have "keys t' n' = keys t' l' @ ?a # keys t r"
      using same_scores_keys [OF fx(2) ok(2)] same_scores_Value [OF fx(2) ok(4,5)] by simp
    then show ?thesis using IH left ins fx(1) disj sorted ok(4)
      by (auto simp: sorted_wrt_append split: if_splits)
  next
    case eq
    then have c: "Comp (Value t i) (valstore t ! v) = 0" using comp by auto
    then have e: "n' = Node i l r h" "added = False" "t' = add_names e i v t" using "2.prems"(1) by auto
    have "nodeval t' = nodeval t"
    proof -
      have "nodeval (fold (\<lambda>name t. t\<lparr>valstore := (valstore t)[nodeval t ! i := AddName (Value t i) name],
        dict := AList.update name i (dict t)\<rparr>) ns u) = nodeval u" for ns u by (induction ns arbitrary: u) auto
      then show ?thesis by (simp add: e add_names_def)
    qed
    then show ?thesis
      using e same_scores_keys [OF same_scores_add_names "2.prems"(2)] eq ins "2.prems"(2) by (simp add: tree_ok_def)
  qed
qed

lemma insert_tree_ok:
  assumes "insert e n v t = Some (n', added, t')" and "tree_ok t n"
    and "v < length (valstore t)" and "\<not> f_nan (Score (valstore t ! v))"
  shows "tree_ok t' n'"
proof -
  note k = insert_keys [OF assms] and s = insert_same_scores [OF assms(1)]
  have old: "i < length (nodeval t') \<and> nodeval t' ! i < length (valstore t') \<and> \<not> f_nan (Score (Value t' i))"
    if "i \<in> set (inorder n)" for i
    using same_scores_tree_ok [OF s assms(2)] that by (simp add: tree_ok_def)
  have new: "added \<Longrightarrow> length (nodeval t) < length (nodeval t') \<and> nodeval t' ! length (nodeval t) < length (valstore t')
      \<and> \<not> f_nan (Score (Value t' (length (nodeval t))))"
    using k s assms(3,4) by (auto simp: same_scores_def Value_def)
  have "sorted_wrt (<) (keys t n)" using assms(2) by (simp add: tree_ok_def)
  then show ?thesis using k old new by (auto simp: tree_ok_def sorted_ins_key split: if_splits)
qed

section \<open>Heights\<close>

text \<open>The stored heights are right, and the subtrees of every node differ by at most one.\<close>

fun ht :: "Tree \<Rightarrow> int" where
  "ht Nil = 0"
| "ht (Node i l r h) = max (ht l) (ht r) + 1"

fun exact :: "Tree \<Rightarrow> bool" where
  "exact Nil \<longleftrightarrow> True"
| "exact (Node i l r h) \<longleftrightarrow> h = max (ht l) (ht r) + 1 \<and> exact l \<and> exact r"

fun avl :: "Tree \<Rightarrow> bool" where
  "avl Nil \<longleftrightarrow> True"
| "avl (Node i l r h) \<longleftrightarrow> \<bar>ht l - ht r\<bar> \<le> 1 \<and> avl l \<and> avl r"

lemma ht_nonneg [simp]: "0 \<le> ht n"
  by (induction n) auto

lemma exact_height: "exact n \<Longrightarrow> height n = ht n"
  by (cases n) auto

lemma mk_exact: "exact l \<Longrightarrow> exact r \<Longrightarrow> exact (mk i l r)"
  by (auto simp: mk_def maxHeight_def exact_height)

lemma ht_mk [simp]: "ht (mk i l r) = max (ht l) (ht r) + 1"
  by (simp add: mk_def)

lemma balance_mk: "exact l \<Longrightarrow> exact r \<Longrightarrow> balance (mk i l r) = ht l - ht r"
  by (simp add: mk_def exact_height)

lemma ht_pos_Node: "0 < ht n \<Longrightarrow> \<exists>i l r h. n = Node i l r h"
  by (cases n) auto

lemma insert_fix_right:
  assumes "exact l" "exact r" "ht r \<le> ht l + 2" "ht l \<le> ht r + 1" "c < 0"
  shows "\<exists>n. insert_fix i l r c = Some n \<and> exact n \<and>
    (if ht r = ht l + 2 then ht l + 2 \<le> ht n \<and> ht n \<le> ht l + 3 else ht n = max (ht l) (ht r) + 1)"
proof (cases "ht r = ht l + 2")
  case True
  then obtain j a b h where r: "r = Node j a b h" using ht_pos_Node [of r] ht_nonneg [of l] by fastforce
  have "insert_fix i l r c = Some (mk j (mk i l a) b)"
    using True assms(1,2,5) r by (simp add: insert_fix_def Let_def balance_mk) (simp add: mk_def)
  moreover have "exact (mk j (mk i l a) b)" using assms(1,2) r by (auto intro!: mk_exact)
  moreover have "ht a \<le> ht l + 1" "ht b \<le> ht l + 1" "ht a = ht l + 1 \<or> ht b = ht l + 1"
    using True r by (auto simp: max_def split: if_splits)
  ultimately show ?thesis using True by auto
next
  case False
  then have "\<not> balance (mk i l r) > 1" "\<not> balance (mk i l r) < - 1" using assms by (auto simp: balance_mk)
  then have "insert_fix i l r c = Some (mk i l r)" by (simp add: insert_fix_def Let_def)
  then show ?thesis using False assms(1,2) mk_exact by auto
qed

lemma insert_fix_left:
  assumes "exact l" "exact r" "ht l \<le> ht r + 2" "ht r \<le> ht l + 1" "c > 0"
  shows "\<exists>n. insert_fix i l r c = Some n \<and> exact n \<and>
    (if ht l = ht r + 2 then ht r + 2 \<le> ht n \<and> ht n \<le> ht r + 3 else ht n = max (ht l) (ht r) + 1)"
proof (cases "ht l = ht r + 2")
  case True
  then obtain j a b h where l: "l = Node j a b h" using ht_pos_Node [of l] ht_nonneg [of r] by fastforce
  have "insert_fix i l r c = Some (mk j a (mk i b r))"
    using True assms(1,2,5) l by (simp add: insert_fix_def Let_def balance_mk) (simp add: mk_def)
  moreover have "exact (mk j a (mk i b r))" using assms(1,2) l by (auto intro!: mk_exact)
  moreover have "ht a \<le> ht r + 1" "ht b \<le> ht r + 1" "ht a = ht r + 1 \<or> ht b = ht r + 1"
    using True l by (auto simp: max_def split: if_splits)
  ultimately show ?thesis using True by auto
next
  case False
  then have "\<not> balance (mk i l r) > 1" "\<not> balance (mk i l r) < - 1" using assms by (auto simp: balance_mk)
  then have "insert_fix i l r c = Some (mk i l r)" by (simp add: insert_fix_def Let_def)
  then show ?thesis using False assms(1,2) mk_exact by auto
qed

text \<open>On a balanced tree an insertion returns; the tree grows by at most one level.\<close>

lemma insert_total:
  "avl n \<Longrightarrow> exact n \<Longrightarrow> \<exists>n' added t'. insert e n v t = Some (n', added, t') \<and> exact n' \<and> ht n \<le> ht n' \<and> ht n' \<le> ht n + 1"
proof (induction e n v t rule: insert.induct)
  case (1 e v t)
  then show ?case using mk_exact [of Nil Nil] by auto
next
  case (2 e i l r h v t)
  let ?c = "Comp (Value t i) (valstore t ! v)"
  consider (right) "?c < 0" | (left) "?c > 0" | (eq) "?c = 0" by linarith
  then show ?case
  proof cases
    case right
    then obtain r' added t' where r': "insert e r v t = Some (r', added, t')" "exact r'" "ht r \<le> ht r'" "ht r' \<le> ht r + 1"
      using "2.IH"(1) [OF refl] "2.prems" by fastforce
    then have "ht r' \<le> ht l + 2" "ht l \<le> ht r' + 1" using "2.prems" by auto
    then obtain n where "insert_fix i l r' ?c = Some n" "exact n"
      "if ht r' = ht l + 2 then ht l + 2 \<le> ht n \<and> ht n \<le> ht l + 3 else ht n = max (ht l) (ht r') + 1"
      using insert_fix_right [of l r' ?c i] right "2.prems" r'(2) by auto
    then show ?thesis using right r' "2.prems" by (auto simp: Let_def split: if_splits)
  next
    case left
    then obtain l' added t' where l': "insert e l v t = Some (l', added, t')" "exact l'" "ht l \<le> ht l'" "ht l' \<le> ht l + 1"
      using "2.IH"(2) [OF refl] "2.prems" by fastforce
    then have "ht l' \<le> ht r + 2" "ht r \<le> ht l' + 1" using "2.prems" by auto
    then obtain n where "insert_fix i l' r ?c = Some n" "exact n"
      "if ht l' = ht r + 2 then ht r + 2 \<le> ht n \<and> ht n \<le> ht r + 3 else ht n = max (ht l') (ht r) + 1"
      using insert_fix_left [of l' r ?c i] left "2.prems" l'(2) by auto
    then show ?thesis using left l' "2.prems" by (auto simp: Let_def split: if_splits)
  next
    case eq
    then show ?thesis using "2.prems" by (auto simp: Let_def)
  qed
qed

section \<open>Deletion\<close>

text \<open>Stored heights are positive. That is enough for \<open>rebalance\<close> never to follow nil.\<close>

fun hpos :: "Tree \<Rightarrow> bool" where
  "hpos Nil \<longleftrightarrow> True"
| "hpos (Node i l r h) \<longleftrightarrow> 1 \<le> h \<and> hpos l \<and> hpos r"

lemma hpos_height: "hpos n \<Longrightarrow> 0 \<le> height n"
  by (cases n) auto

lemma hpos_mk: "hpos l \<Longrightarrow> hpos r \<Longrightarrow> hpos (mk i l r)"
  using hpos_height [of l] hpos_height [of r] by (auto simp: mk_def maxHeight_def)

lemma height_pos_Node: "0 < height n \<Longrightarrow> \<exists>i l r h. n = Node i l r h"
  by (cases n) auto

lemma rotateRight_hpos: "hpos n \<Longrightarrow> 0 < height (left n) \<Longrightarrow> n \<noteq> Nil \<Longrightarrow> \<exists>n'. rotateRight n = Some n' \<and> hpos n'"
  by (cases n; cases "left n") (auto intro!: hpos_mk)

lemma rotateLeft_hpos: "hpos n \<Longrightarrow> 0 < height (right n) \<Longrightarrow> n \<noteq> Nil \<Longrightarrow> \<exists>n'. rotateLeft n = Some n' \<and> hpos n'"
  by (cases n; cases "right n") (auto intro!: hpos_mk)

lemma rotate_height: 
  "rotateLeft n = Some n' \<Longrightarrow> hpos n \<Longrightarrow> 0 < height n'" "rotateRight n = Some n' \<Longrightarrow> hpos n \<Longrightarrow> 0 < height n'"
  by (induction n rule: rotateLeft.induct; fastforce dest: hpos_mk hpos_height simp: mk_def maxHeight_def)
    (induction n rule: rotateRight.induct; fastforce dest: hpos_mk hpos_height simp: mk_def maxHeight_def)

lemma rebalance_total:
  assumes l: "hpos l" and r: "hpos r"
  shows "\<exists>n. rebalance i l r = Some n \<and> hpos n"
proof -
  let ?n = "mk i l r"
  have n: "hpos ?n" "?n \<noteq> Nil" "left ?n = l" "right ?n = r" using hpos_mk [OF l r] by (auto simp: mk_def)
  note ge = hpos_height [OF l] hpos_height [OF r]
  have h: "1 \<le> height ?n" using ge by (simp add: mk_def maxHeight_def)
  consider (lr) "balance ?n > 1" "balance l < 0" | (ll) "balance ?n > 1" "balance l \<ge> 0"
    | (rl) "balance ?n < - 1" "balance r > 0" | (rr) "balance ?n < - 1" "balance r \<le> 0"
    | (no) "\<not> balance ?n > 1" "\<not> balance ?n < - 1" by linarith
  then show ?thesis
  proof cases
    case ll
    then show ?thesis using rotateRight_hpos [OF n(1)] n ge by (auto simp: rebalance_def Let_def mk_def)
  next
    case rr
    then show ?thesis using rotateLeft_hpos [OF n(1)] n ge by (auto simp: rebalance_def Let_def mk_def)
  next
    case lr
    then have "l \<noteq> Nil" "0 < height (right l)" using l hpos_height by (cases l; fastforce)+
    then obtain l' where l': "rotateLeft l = Some l'" "hpos l'" using rotateLeft_hpos [OF l] by blast
    then have "\<exists>n'. rotateRight (Node i l' r (height ?n)) = Some n' \<and> hpos n'"
      using rotateRight_hpos [of "Node i l' r (height ?n)"] rotate_height(1) [OF l'(1) l] h r by simp
    then show ?thesis using lr l' by (auto simp: rebalance_def Let_def)
  next
    case rl
    then have "r \<noteq> Nil" "0 < height (left r)" using r hpos_height by (cases r; fastforce)+
    then obtain r' where r': "rotateRight r = Some r'" "hpos r'" using rotateRight_hpos [OF r] by blast
    then have "\<exists>n'. rotateLeft (Node i l r' (height ?n)) = Some n' \<and> hpos n'"
      using rotateLeft_hpos [of "Node i l r' (height ?n)"] rotate_height(2) [OF r'(1) r] h l by simp
    then show ?thesis using rl r' by (auto simp: rebalance_def Let_def)
  next
    case no
    then show ?thesis using n by (simp add: rebalance_def Let_def)
  qed
qed

lemma deleteNode_total:
  "hpos n \<Longrightarrow> \<exists>n' deleted' t'. deleteNode e n target deleted t = Some (n', deleted', t') \<and> hpos n'"
proof (induction e n target deleted t rule: deleteNode.induct)
  case (2 e i l r h target deleted t)
  let ?c = "Comp (valstore t ! target) (Value t i)"
  consider (left) "?c < 0" | (right) "?c > 0" | (eq) "?c = 0" by linarith
  then show ?case
  proof cases
    case left
    then obtain l' d t' where "deleteNode e l target deleted t = Some (l', d, t')" "hpos l'"
      using "2.IH"(1) [OF refl] "2.prems" by fastforce
    then show ?thesis using left rebalance_total [of l' r i] "2.prems" by (auto simp: Let_def)
  next
    case right
    then obtain r' d t' where "deleteNode e r target deleted t = Some (r', d, t')" "hpos r'"
      using "2.IH"(2) [OF refl] "2.prems" by fastforce
    then show ?thesis using right rebalance_total [of l r' i] "2.prems" by (auto simp: Let_def)
  next
    case eq
    show ?thesis
    proof (cases "Names (Value t i) = [] \<or> length (Names (valstore t ! target)) = length (Names (Value t i))")
      case whole: True
      show ?thesis
      proof (cases "l = Nil \<or> leftmost r = None")
        case True
        then show ?thesis using eq whole "2.prems" by (auto simp: Let_def split: option.split)
      next
        case False
        then obtain m where m: "leftmost r = Some m" "l \<noteq> Nil" by auto
        let ?t = "t\<lparr>nodeval := (nodeval t)[i := nodeval t ! m]\<rparr>"
        obtain r' d t' where "deleteNode e r (nodeval t ! m) True ?t = Some (r', d, t')" "hpos r'"
          using "2.IH"(3) [OF refl _ _ whole m(2,1) refl refl] eq "2.prems" by auto
        then show ?thesis using eq whole m "2.prems" by (simp add: Let_def)
      qed
    next
      case False
      then show ?thesis using eq "2.prems" by (simp add: Let_def)
    qed
  qed
qed simp

lemma leftmost_hd: "n \<noteq> Nil \<Longrightarrow> leftmost n = Some (hd (inorder n)) \<and> inorder n \<noteq> []"
  by (induction n) (auto simp: hd_append)

definition del_frame :: "Tree \<Rightarrow> Btree \<Rightarrow> Btree \<Rightarrow> bool" where
  "del_frame n t t' \<longleftrightarrow> length (nodeval t') = length (nodeval t) \<and> length (valstore t') = length (valstore t)
     \<and> (\<forall>v. Score (valstore t' ! v) = Score (valstore t ! v)) \<and> (\<forall>j. j \<notin> set (inorder n) \<longrightarrow> nodeval t' ! j = nodeval t ! j)"

lemma del_frame_Score: "del_frame n t t' \<Longrightarrow> j \<notin> set (inorder n) \<Longrightarrow> Score (Value t' j) = Score (Value t j)"
  by (simp add: del_frame_def Value_def)

lemma del_frame_other:
  assumes "del_frame n t t'" and "set (inorder m) \<inter> set (inorder n) = {}"
  shows "keys t' m = keys t m" and "tree_ok t m \<Longrightarrow> tree_ok t' m"
proof -
  have sc: "\<forall>j \<in> set (inorder m). Score (Value t' j) = Score (Value t j)"
    using assms del_frame_Score by blast
  then show k: "keys t' m = keys t m" by (simp add: keys_def)
  then show "tree_ok t m \<Longrightarrow> tree_ok t' m"
    using assms sc by (auto simp: tree_ok_def del_frame_def)
qed

text \<open>
  The node with the score of the target goes as a whole when it has no names left or as many
  as the target; otherwise only the names of the target go.
\<close>

definition goes :: "Btree \<Rightarrow> nat \<Rightarrow> nat \<Rightarrow> bool" where
  "goes t target i \<longleftrightarrow> f_key (Score (Value t i)) = f_key (Score (valstore t ! target))
     \<and> (Names (Value t i) = [] \<or> length (Names (valstore t ! target)) = length (Names (Value t i)))"

lemma delete_names_frame:
  "del_frame n t (fold (\<lambda>name t. t\<lparr>valstore := (valstore t)[nodeval t ! i := DeleteName (Value t i) name]\<rparr>) ns t)
   \<and> nodeval (fold (\<lambda>name t. t\<lparr>valstore := (valstore t)[nodeval t ! i := DeleteName (Value t i) name]\<rparr>) ns t) = nodeval t"
proof (induction ns arbitrary: t)
  case (Cons name ns)
  let ?t = "t\<lparr>valstore := (valstore t)[nodeval t ! i := DeleteName (Value t i) name]\<rparr>"
  have "\<forall>v. Score (valstore ?t ! v) = Score (valstore t ! v)"
    by (simp add: nth_list_update_cases DeleteName_def Value_def)
  then show ?case using Cons [of ?t] by (auto simp: del_frame_def)
qed (simp add: del_frame_def)

lemma sorted_key_split:
  assumes "tree_ok t (Node i l r h)"
  shows "\<forall>j \<in> set (inorder l). f_key (Score (Value t j)) < f_key (Score (Value t i))"
    and "\<forall>j \<in> set (inorder r). f_key (Score (Value t i)) < f_key (Score (Value t j))"
    and "i \<notin> set (inorder l)" "i \<notin> set (inorder r)" "set (inorder l) \<inter> set (inorder r) = {}"
    "distinct (inorder l)" "distinct (inorder r)"
  using assms by (auto simp: tree_ok_def sorted_wrt_append keys_def)

text \<open>The deletion of a node with two children, given that of the least node on its right.\<close>

lemma delete_inner:
  assumes ok: "tree_ok t (Node i l r h)" and r: "r \<noteq> Nil"
    and t1: "t1 = t\<lparr>nodeval := (nodeval t)[i := nodeval t ! hd (inorder r)]\<rparr>"
    and IH: "tree_ok t' r'" "set (inorder r') \<subseteq> set (inorder r)" "del_frame r t1 t'"
      "keys t' r' = removeAll (f_key (Score (valstore t1 ! (nodeval t ! hd (inorder r))))) (keys t1 r)"
  shows "tree_ok t' (Node i l r' h)" and "del_frame (Node i l r h) t t'" and "keys t' (Node i l r' h) = keys t l @ keys t r"
proof -
  note N = tree_ok_Node [OF ok] and sp = sorted_key_split [OF ok]
  define m where "m = hd (inorder r)"
  have m: "m \<in> set (inorder r)" using leftmost_hd [OF r] by (simp add: m_def)
  have fr1: "del_frame (Node i Nil Nil 0) t t1" using N(4) by (auto simp: t1 del_frame_def)
  have fr: "del_frame (Node i l r h) t t'" using IH(3) fr1 by (auto simp: del_frame_def)
  have l: "keys t' l = keys t l" "tree_ok t' l"
  proof -
    have "keys t1 l = keys t l" "tree_ok t1 l" using del_frame_other [OF fr1, of l] sp(3) N(1) by auto
    then show "keys t' l = keys t l" "tree_ok t' l" using del_frame_other [OF IH(3), of l] sp(5) by auto
  qed
  have kr: "keys t1 r = keys t r" using del_frame_other(1) [OF fr1, of r] sp(4) by auto
  have i: "nodeval t' ! i = nodeval t ! m" using IH(3) sp(4) N(4) by (simp add: del_frame_def t1 m_def)
  have sc: "Score (Value t' i) = Score (Value t m)"
    using IH(3) fr1 by (simp add: Value_def i del_frame_def)
  obtain rest where rest: "keys t r = f_key (Score (Value t m)) # rest"
    using leftmost_hd [OF r] by (cases "inorder r") (auto simp: keys_def m_def)
  have sr: "sorted_wrt (<) (keys t r)" using N(2) by (simp add: tree_ok_def)
  then have "removeAll (f_key (Score (Value t m))) rest = rest" unfolding rest by (auto intro!: removeAll_id)
  then have kr': "keys t' r' = rest" using IH(4) rest kr fr1 by (simp add: Value_def m_def t1)
  then show k: "keys t' (Node i l r' h) = keys t l @ keys t r" using l sc rest by simp
  have "sorted_wrt (<) (keys t l @ keys t r)" using ok by (simp add: tree_ok_def sorted_wrt_append)
  moreover have "m < length (nodeval t) \<and> nodeval t ! m < length (valstore t) \<and> \<not> f_nan (Score (Value t m))"
    using N(2) m by (simp add: tree_ok_def)
  ultimately show "tree_ok t' (Node i l r' h)"
    using k l IH(1,2) sp fr N(4) i sc unfolding tree_ok_def
    by (auto simp: del_frame_def simp del: keys_simps)
  show "del_frame (Node i l r h) t t'" by (rule fr)
qed

lemma deleteNode_correct:
  assumes "deleteNode e n target deleted t = Some (n', d, t')" and "tree_ok t n"
    and "target < length (valstore t)" and "\<not> f_nan (Score (valstore t ! target))"
  shows "tree_ok t' n' \<and> set (inorder n') \<subseteq> set (inorder n) \<and> del_frame n t t'
    \<and> keys t' n' = (if \<exists>i \<in> set (inorder n). goes t target i then removeAll (f_key (Score (valstore t ! target))) (keys t n) else keys t n)
    \<and> d = (deleted \<or> (\<exists>i \<in> set (inorder n). goes t target i))"
  using assms
proof (induction e n target deleted t arbitrary: n' d t' rule: deleteNode.induct)
  case (1 e target deleted t)
  then show ?case by (simp add: del_frame_def)
next
  case (2 e i l r h target deleted t)
  let ?c = "Comp (valstore t ! target) (Value t i)"
  let ?x = "f_key (Score (valstore t ! target))" and ?a = "f_key (Score (Value t i))"
  note ok = tree_ok_Node [OF "2.prems"(2)] and sp = sorted_key_split [OF "2.prems"(2)]
  note comp = Comp_sign [OF "2.prems"(4) ok(3)]
  have sorted: "sorted_wrt (<) (keys t l @ ?a # keys t r)" using "2.prems"(2) by (simp add: tree_ok_def)
  note rem = removeAll_middle [OF sorted, of ?x]
  consider (left) "?x < ?a" | (right) "?a < ?x" | (eq) "?x = ?a" by linarith
  then show ?case
  proof cases
    case left
    then have c: "?c < 0" using comp by simp
    then obtain l' where l': "deleteNode e l target deleted t = Some (l', d, t')" "rebalance i l' r = Some n'"
      using "2.prems"(1) by (auto simp: Let_def split: bind_splits)
    note IH = "2.IH"(1) [OF refl c l'(1) ok(1) "2.prems"(3,4)]
    note io = inorder_rebalance [OF l'(2)]
    have fr: "del_frame l t t'" using IH by blast
    have r: "keys t' r = keys t r" "tree_ok t' r" using del_frame_other [OF fr, of r] sp(5) ok(2) by blast+
    have i: "Score (Value t' i) = Score (Value t i)" using del_frame_Score [OF fr sp(3)] .
    have g: "(\<exists>j \<in> set (inorder (Node i l r h)). goes t target j) = (\<exists>j \<in> set (inorder l). goes t target j)"
      using left sp(2) by (auto simp: goes_def)
    have k: "keys t' n' = (if \<exists>j \<in> set (inorder l). goes t target j then removeAll ?x (keys t l) else keys t l) @ ?a # keys t r"
      using IH io r i by (simp add: keys_def)
    moreover have "tree_ok t' n'"
    proof -
      have "sorted_wrt (<) (keys t' n')" unfolding k using sorted by (auto simp: sorted_wrt_append sorted_remove1)
      moreover have "distinct (inorder n')" using IH io sp by (auto simp: tree_ok_def)
      moreover have "i < length (nodeval t') \<and> nodeval t' ! i < length (valstore t')" using fr sp(3) ok(4,5) by (simp add: del_frame_def)
      ultimately show ?thesis using IH io r i ok(3) by (auto simp: tree_ok_def)
    qed
    ultimately show ?thesis using IH io g rem left fr by (auto simp: del_frame_def)
  next
    case right
    then have c: "\<not> ?c < 0" "?c > 0" using comp by auto
    then obtain r' where r': "deleteNode e r target deleted t = Some (r', d, t')" "rebalance i l r' = Some n'"
      using "2.prems"(1) by (auto simp: Let_def split: bind_splits)
    note IH = "2.IH"(2) [OF refl c r'(1) ok(2) "2.prems"(3,4)]
    note io = inorder_rebalance [OF r'(2)]
    have fr: "del_frame r t t'" using IH by blast
    have l: "keys t' l = keys t l" "tree_ok t' l" using del_frame_other [OF fr, of l] sp(5) ok(1) by blast+
    have i: "Score (Value t' i) = Score (Value t i)" using del_frame_Score [OF fr sp(4)] .
    have g: "(\<exists>j \<in> set (inorder (Node i l r h)). goes t target j) = (\<exists>j \<in> set (inorder r). goes t target j)"
      using right sp(1) by (auto simp: goes_def)
    have k: "keys t' n' = keys t l @ ?a # (if \<exists>j \<in> set (inorder r). goes t target j then removeAll ?x (keys t r) else keys t r)"
      using IH io l i by (simp add: keys_def)
    moreover have "tree_ok t' n'"
    proof -
      have "sorted_wrt (<) (keys t' n')" unfolding k using sorted by (auto simp: sorted_wrt_append sorted_remove1)
      moreover have "distinct (inorder n')" using IH io sp by (auto simp: tree_ok_def)
      moreover have "i < length (nodeval t') \<and> nodeval t' ! i < length (valstore t')" using fr sp(4) ok(4,5) by (simp add: del_frame_def)
      ultimately show ?thesis using IH io l i ok(3) by (auto simp: tree_ok_def)
    qed
    ultimately show ?thesis using IH io g rem right fr by (auto simp: del_frame_def)
  next
    case eq
    then have c: "?c = 0" using comp by simp
    have g: "(\<exists>j \<in> set (inorder (Node i l r h)). goes t target j) = goes t target i"
      using eq sp(1,2) by (auto simp: goes_def)
    show ?thesis
    proof (cases "goes t target i")
      case whole: True
      then have w: "Names (Value t i) = [] \<or> length (Names (valstore t ! target)) = length (Names (Value t i))"
        by (simp add: goes_def)
      show ?thesis
      proof (cases "l = Nil \<or> r = Nil")
        case True
        then have "(n' = l \<or> n' = r) \<and> keys t n' = keys t l @ keys t r \<and> d = True \<and> t' = t"
          using "2.prems"(1) c w leftmost_hd [of r] by (auto simp: Let_def split: if_splits)
        then show ?thesis using ok(1,2) g whole rem eq by (auto simp: del_frame_def)
      next
        case False
        define m where "m = hd (inorder r)"
        have m: "leftmost r = Some m" "m \<in> set (inorder r)" using leftmost_hd [of r] False by (auto simp: m_def)
        let ?t = "t\<lparr>nodeval := (nodeval t)[i := nodeval t ! m]\<rparr>"
        obtain r' where r': "deleteNode e r (nodeval t ! m) True ?t = Some (r', d, t')" "n' = Node i l r' h"
          using "2.prems"(1) c w m False by (auto simp: Let_def split: bind_splits)
        have fr1: "del_frame (Node i Nil Nil 0) t ?t" using ok(4) by (auto simp: del_frame_def)
        have "tree_ok ?t r" using del_frame_other(2) [OF fr1, of r] sp(4) ok(2) by auto
        moreover have "nodeval t ! m < length (valstore t)" "\<not> f_nan (Score (valstore t ! (nodeval t ! m)))"
          using ok(2) m(2) by (auto simp: tree_ok_def Value_def)
        ultimately have IH: "tree_ok t' r' \<and> set (inorder r') \<subseteq> set (inorder r) \<and> del_frame r ?t t'
            \<and> keys t' r' = (if \<exists>j \<in> set (inorder r). goes ?t (nodeval t ! m) j
                then removeAll (f_key (Score (valstore ?t ! (nodeval t ! m)))) (keys ?t r) else keys ?t r) \<and> d"
          using "2.IH"(3) [OF refl _ _ w _ m(1) refl refl r'(1)] c False by simp
        have "goes ?t (nodeval t ! m) m" using sp(4) m(2) by (auto simp: goes_def Value_def nth_list_update_cases)
        then have "keys t' r' = removeAll (f_key (Score (valstore ?t ! (nodeval t ! m)))) (keys ?t r)" using IH m(2) by auto
        with IH have "tree_ok t' (Node i l r' h)" "del_frame (Node i l r h) t t'" "keys t' (Node i l r' h) = keys t l @ keys t r"
          using delete_inner [OF "2.prems"(2), of ?t t' r'] False by (auto simp: m_def simp del: keys_simps)
        then show ?thesis using r' IH g whole rem eq by (auto simp: keys_def)
      qed
    next
      case False
      then have w: "\<not> (Names (Value t i) = [] \<or> length (Names (valstore t ! target)) = length (Names (Value t i)))"
        using eq by (simp add: goes_def)
      then have n': "n' = Node i l r h" "d = deleted" using "2.prems"(1) c by auto
      have t': "t' = fold (\<lambda>name t. t\<lparr>valstore := (valstore t)[nodeval t ! i := DeleteName (Value t i) name]\<rparr>)
          (iter e 0 (Names (valstore t ! target))) t" using "2.prems"(1) c w by auto
      have fr: "del_frame Nil t t'" using delete_names_frame unfolding t' by blast
      then show ?thesis
        using n' g False del_frame_other [OF fr, of "Node i l r h"] "2.prems"(2) by (auto simp: del_frame_def)
    qed
  qed
qed

section \<open>What the tree guarantees\<close>

lemma Value_fields [simp]:
  "Value (t\<lparr>root := n\<rparr>) = Value t" "Value (t\<lparr>tlen := k\<rparr>) = Value t" "Value (t\<lparr>tvalues := vs\<rparr>) = Value t"
  "Value (t\<lparr>dict := d\<rparr>) = Value t"
  by (simp_all add: Value_def fun_eq_iff)

lemma tree_ok_store:
  assumes "tree_ok t n"
  shows "tree_ok (t\<lparr>valstore := valstore t @ vs\<rparr>) n" "keys (t\<lparr>valstore := valstore t @ vs\<rparr>) n = keys t n"
proof -
  have same: "Value (t\<lparr>valstore := valstore t @ vs\<rparr>) i = Value t i" if "i \<in> set (inorder n)" for i
    using assms that by (simp add: tree_ok_def Value_def nth_append)
  then show k: "keys (t\<lparr>valstore := valstore t @ vs\<rparr>) n = keys t n" by (simp add: keys_def)
  show "tree_ok (t\<lparr>valstore := valstore t @ vs\<rparr>) n"
    using assms same k unfolding tree_ok_def by (auto intro: trans_less_add1)
qed

lemma get_node_correct:
  assumes "tree_ok t n" and "\<not> f_nan (Score target)"
  shows "get_node t n target \<noteq> None \<longleftrightarrow> f_key (Score target) \<in> set (keys t n)"
  using assms(1)
proof (induction n)
  case (Node i l r h)
  note N = tree_ok_Node [OF Node.prems] and sp = sorted_key_split [OF Node.prems]
  have nan: "\<not> f_nan (Score (Value t i))" using Node.prems by (simp add: tree_ok_def)
  note c = Comp_sign [OF assms(2) nan]
  have "f_key (Score target) \<notin> set (keys t r)" if "f_key (Score target) \<le> f_key (Score (Value t i))"
    using sp(2) that by (auto simp: keys_def)
  moreover have "f_key (Score target) \<notin> set (keys t l)" if "f_key (Score (Value t i)) \<le> f_key (Score target)"
    using sp(1) that by (auto simp: keys_def)
  ultimately show ?case using Node.IH N c by (auto simp: Let_def)
qed simp

text \<open>
  C31. Inserting into a balanced search tree of a sorted set always succeeds, keeps the scores
  strictly increasing from left to right, and adds exactly the new score, which is found
  afterwards.
\<close>

theorem btree_insert:
  assumes "tree_ok t (root t)" and "avl (root t)" and "exact (root t)" and "\<not> f_nan (Score r)"
  shows "\<exists>t' added. Insert e t r = Some (t', added) \<and> tree_ok t' (root t') \<and> Contains t' r
    \<and> keys t' (root t') = ins_key (f_key (Score r)) (keys t (root t))
    \<and> added = (f_key (Score r) \<notin> set (keys t (root t)))"
proof -
  let ?t = "t\<lparr>valstore := valstore t @ [r]\<rparr>"
  obtain n added t1 where ins: "insert e (root t) (length (valstore t)) ?t = Some (n, added, t1)"
    using insert_total [OF assms(2,3)] by blast
  note ok = tree_ok_store [OF assms(1), of "[r]"]
  have v: "length (valstore t) < length (valstore ?t)" "\<not> f_nan (Score (valstore ?t ! length (valstore t)))"
    using assms(4) by simp_all
  let ?u = "t1\<lparr>root := n, tlen := (if added then tlen t1 + 1 else tlen t1), tvalues := None\<rparr>"
  have u: "keys ?u n = keys t1 n" by (simp add: keys_def)
  have k: "keys ?u n = ins_key (f_key (Score r)) (keys t (root t))" "added = (f_key (Score r) \<notin> set (keys t (root t)))"
    using insert_keys [OF ins ok(1) v] unfolding u ok(2) by simp_all
  have "tree_ok t1 n" by (rule insert_tree_ok [OF ins ok(1) v])
  then have okn: "tree_ok ?u n" unfolding tree_ok_def u by simp
  then have "Contains ?u r" using get_node_correct [OF okn assms(4)] k(1) by (simp add: Contains_def Get_def set_ins_key)
  moreover have "Insert e t r = Some (?u, added)" using ins by (simp add: Insert_def Let_def)
  ultimately show ?thesis using okn k by (intro exI [of _ ?u] exI [of _ added]) simp
qed

theorem btree_insert_witness:
  "\<exists>t' added. Insert (env_at 0) NewBtree \<lparr>Names = [''m''], Score = 0\<rparr> = Some (t', added) \<and> keys t' (root t') = [0] \<and> added"
proof -
  have "tree_ok NewBtree (root NewBtree)" "avl (root NewBtree)" "exact (root NewBtree)" "\<not> f_nan (Score \<lparr>Names = [''m''], Score = 0\<rparr>)"
    by (simp_all add: NewBtree_def tree_ok_def f_nan_def f_mag_def)
  from btree_insert [OF this, of "env_at 0"] show ?thesis by (auto simp: NewBtree_def f_key_def f_mag_def)
qed

text \<open>
  C32. Deleting a member always succeeds and removes the node of its score, and only that node,
  from the tree; the order is kept. All other members with the same score go with it.
\<close>

theorem btree_delete:
  assumes "tree_ok t (root t)" and "hpos (root t)" and "map_of (dict t) name = Some i" and "i \<in> set (inorder (root t))"
  shows "\<exists>t'. Delete e t name = Some (t', True) \<and> tree_ok t' (root t')
    \<and> keys t' (root t') = removeAll (f_key (Score (Value t i))) (keys t (root t)) \<and> GetByName t' name = None"
proof -
  let ?v = "nodeval t ! i"
  obtain n d t1 where del: "deleteNode e (root t) ?v False t = Some (n, d, t1)" using deleteNode_total [OF assms(2)] by blast
  have v: "?v < length (valstore t)" "\<not> f_nan (Score (valstore t ! ?v))" using assms(1,4) by (auto simp: tree_ok_def Value_def)
  have "\<exists>i \<in> set (inorder (root t)). goes t ?v i" using assms(4) by (intro bexI [of _ i]) (simp_all add: goes_def Value_def)
  then have k: "tree_ok t1 n" "keys t1 n = removeAll (f_key (Score (Value t i))) (keys t (root t))"
    using deleteNode_correct [OF del assms(1) v] by (simp_all add: Value_def)
  let ?u = "t1\<lparr>root := n, dict := AList.delete name (dict t1), tlen := (if d then tlen t1 - 1 else tlen t1), tvalues := None\<rparr>"
  have "tree_ok ?u n" "keys ?u n = removeAll (f_key (Score (Value t i))) (keys t (root t))"
    using k unfolding tree_ok_def keys_def by simp_all
  moreover have "Delete e t name = Some (?u, True)" using del assms(3) by (simp add: Delete_def)
  ultimately show ?thesis by (intro exI [of _ ?u]) (simp add: GetByName_def)
qed

theorem btree_delete_witness:
  "\<exists>t'. Delete (env_at 0) \<lparr>root = Node 0 Nil Nil 1, tvalues = None, tlen = 1, dict = [(''a'', 0), (''b'', 0)], nodeval = [0],
      valstore = [\<lparr>Names = [''a'', ''b''], Score = 0\<rparr>]\<rparr> ''a'' = Some (t', True) \<and> keys t' (root t') = []"
proof -
  let ?t = "\<lparr>root = Node 0 Nil Nil 1, tvalues = None, tlen = 1, dict = [(''a'', 0), (''b'', 0)], nodeval = [0],
      valstore = [\<lparr>Names = [''a'', ''b''], Score = 0\<rparr>]\<rparr>"
  have "tree_ok ?t (root ?t)" "hpos (root ?t)" "map_of (dict ?t) ''a'' = Some 0" "0 \<in> set (inorder (root ?t))"
    by (simp_all add: tree_ok_def Value_def f_nan_def f_mag_def keys_def)
  from btree_delete [OF this, of "env_at 0"] show ?thesis by (auto simp: Value_def f_key_def f_mag_def)
qed

lemma iterate_all:
  assumes "\<And>n i s. f n i s = (g n i s, True)"
  shows "iterate f n i True s =
    (i + int (length (inorder n)), fold (\<lambda>(j, n) s. g n j s) (zip (map (\<lambda>k. i + int k) [0..<length (inorder n)]) (inorder n)) s)"
proof (induction n arbitrary: i s)
  case (Node x l r h)
  let ?L = "length (inorder l)" and ?R = "length (inorder r)"
  have "map (\<lambda>k. i + int k) [0..<?L + Suc ?R] = map (\<lambda>k. i + int k) [0..<?L] @ (i + int ?L) # map (\<lambda>k. i + int ?L + 1 + int k) [0..<?R]"
  proof -
    have "[0..<?L + Suc ?R] = [0..<?L] @ ?L # map (\<lambda>k. k + Suc ?L) [0..<?R]"
      using upt_add_eq_append [of 0 ?L "Suc ?R"] upt_conv_Cons [of ?L "?L + Suc ?R"] map_add_upt [of "Suc ?L" ?R]
      by (simp add: add.commute)
    then show ?thesis by (simp add: add.assoc add.commute)
  qed
  then show ?case using Node.IH by (simp add: assms Let_def add.assoc)
qed simp

lemma fold_append: "fold (\<lambda>(j, n) vs. vs @ h j n) xs vs = vs @ concat (map (\<lambda>(j, n). h j n) xs)"
  by (induction xs arbitrary: vs) auto

text \<open>
  \<open>Values\<close> lists all members of a sorted set in the order of their scores, each with the score of
  its node, whatever the order in which Go iterates over the names of a node.
\<close>

theorem values_sorted:
  assumes "tree_ok t (root t)" and "iter_ok e" and "tvalues t = None"
  shows "sorted (map (\<lambda>(name, s). f_key s) (snd (Values e t)))
    \<and> mset (snd (Values e t)) = mset (concat (map (\<lambda>i. map (\<lambda>name. (name, Score (Value t i))) (Names (Value t i))) (inorder (root t))))"
proof -
  let ?is = "inorder (root t)"
  let ?h = "\<lambda>j n. map (\<lambda>name. (name, Score (Value t n))) (iter e (nat j) (Names (Value t n)))"
  have vals: "snd (Values e t) = concat (map (\<lambda>(j, n). ?h j n) (zip (map int [0..<length ?is]) ?is))"
    using assms(3) iterate_all [of "\<lambda>n i vs. (vs @ ?h i n, True)" "\<lambda>n i vs. vs @ ?h i n" "root t" 0 "[]"]
    by (simp add: Values_def Ascend_def Let_def fold_append)
  have "sorted (map (\<lambda>(name, s). f_key s) (concat (map (\<lambda>(j, n). ?h j n) (zip js is))))"
    if "sorted_wrt (<) (map (\<lambda>i. f_key (Score (Value t i))) is)" and "length js = length is" for js :: "int list" and "is"
    using that(2,1)
  proof (induction js "is" rule: list_induct2)
    case (Cons j js i "is")
    have "\<forall>y \<in> set (concat (map (\<lambda>(j, n). ?h j n) (zip js is))). f_key (Score (Value t i)) \<le> f_key (snd y)"
      using Cons.prems by (force dest: set_zip_rightD)
    moreover have "sorted (map (\<lambda>(name, s). f_key s) (concat (map (\<lambda>(j, n). ?h j n) (zip js is))))" using Cons by simp
    ultimately show ?case unfolding case_prod_beta by (auto simp: sorted_append comp_def map_replicate_const)
  qed simp
  moreover have "mset (concat (map (\<lambda>(j, n). ?h j n) (zip js is))) =
      mset (concat (map (\<lambda>i. map (\<lambda>name. (name, Score (Value t i))) (Names (Value t i))) is))"
    if "length js = length is" for js :: "int list" and "is"
    using that by (induction js "is" rule: list_induct2) (use assms(2) in \<open>auto simp: iter_ok_def\<close>)
  ultimately show ?thesis unfolding vals using assms(1) by (simp add: tree_ok_def keys_def)
qed

theorem values_sorted_witness:
  "sorted (map (\<lambda>(name, s). f_key s) (snd (Values (env_at 0) \<lparr>root = Node 0 Nil Nil 1, tvalues = None, tlen = 1, dict = [(''a'', 0), (''b'', 0)],
      nodeval = [0], valstore = [\<lparr>Names = [''a'', ''b''], Score = 0\<rparr>]\<rparr>)))"
  by (rule values_sorted [THEN conjunct1]) (simp_all add: tree_ok_def Value_def f_nan_def f_mag_def keys_def)

lemma f_lt_irrefl [simp]: "\<not> f_lt x x"
  by (simp add: f_lt_def)

lemma f_lt_asym: "f_lt x y \<Longrightarrow> \<not> f_lt y x"
  by (simp add: f_lt_def)

lemma f_lt_trans: "f_lt x y \<Longrightarrow> f_lt y z \<Longrightarrow> f_lt x z"
  by (simp add: f_lt_def)

lemmas tree_eval = Insert_def Let_def new_tree_node_def Value_def Comp_def insert_fix_def mk_def maxHeight_def
  add_names_def AddName_def Delete_def rebalance_def

text \<open>
  The tree is not the balanced tree that its comment announces: after three insertions of
  scores in the order largest, smallest, middle, the left subtree is two levels higher than the
  right one, because the rotation looks at the root and not at the child.
\<close>

theorem btree_not_balanced:
  assumes "f_lt x y" and "f_lt y z"
  shows "\<exists>t. InsertAll (env_at 0) NewBtree [\<lparr>Names = [''c''], Score = z\<rparr>, \<lparr>Names = [''a''], Score = x\<rparr>, \<lparr>Names = [''b''], Score = y\<rparr>] = Some t
    \<and> \<bar>tree_balance t\<bar> = 2 \<and> \<not> avl (root t)"
proof -
  note lt = assms f_lt_trans [OF assms]
  note asym = lt [THEN f_lt_asym]
  show ?thesis by (simp add: lt asym tree_eval NewBtree_def tree_balance_def)
qed

theorem btree_not_balanced_witness:
  "\<exists>t. InsertAll (env_at 0) NewBtree [\<lparr>Names = [''c''], Score = 0x4000000000000000\<rparr>, \<lparr>Names = [''a''], Score = 0\<rparr>,
      \<lparr>Names = [''b''], Score = 0x3FF0000000000000\<rparr>] = Some t \<and> \<not> avl (root t)"
  using btree_not_balanced [of 0 "0x3FF0000000000000" "0x4000000000000000"]
  by (simp add: f_lt_def f_key_def f_mag_def f_nan_def) metis

text \<open>
  An insertion can panic: after six insertions and one deletion the stored heights are off, and
  inserting another member with a score that exists already rotates around a child that is nil.
\<close>

theorem btree_insert_panics:
  assumes "f_lt s0 s1" and "f_lt s1 s2" and "f_lt s2 s3" and "f_lt s3 s5" and "f_lt s5 s7"
  shows "\<exists>t t'. InsertAll (env_at 0) NewBtree [\<lparr>Names = [''d''], Score = s3\<rparr>, \<lparr>Names = [''a''], Score = s0\<rparr>, \<lparr>Names = [''c''], Score = s2\<rparr>,
      \<lparr>Names = [''e''], Score = s5\<rparr>, \<lparr>Names = [''f''], Score = s7\<rparr>, \<lparr>Names = [''b''], Score = s1\<rparr>] = Some t
    \<and> Delete (env_at 0) t ''d'' = Some (t', True)
    \<and> Insert (env_at 0) t' \<lparr>Names = [''g''], Score = s7\<rparr> = None"
proof -
  note tr = f_lt_trans
  note lt = assms tr [OF assms(1,2)] tr [OF assms(2,3)] tr [OF assms(3,4)] tr [OF assms(4,5)]
    tr [OF tr [OF assms(1,2)] assms(3)] tr [OF tr [OF assms(2,3)] assms(4)] tr [OF tr [OF assms(3,4)] assms(5)]
    tr [OF tr [OF tr [OF assms(1,2)] assms(3)] assms(4)] tr [OF tr [OF tr [OF assms(2,3)] assms(4)] assms(5)]
    tr [OF tr [OF tr [OF tr [OF assms(1,2)] assms(3)] assms(4)] assms(5)]
  note asym = lt [THEN f_lt_asym]
  show ?thesis by (simp add: lt asym tree_eval NewBtree_def)
qed

theorem btree_insert_panics_witness:
  "\<exists>t t'. InsertAll (env_at 0) NewBtree [\<lparr>Names = [''d''], Score = 0x4008000000000000\<rparr>, \<lparr>Names = [''a''], Score = 0\<rparr>, \<lparr>Names = [''c''], Score = 0x4000000000000000\<rparr>,
      \<lparr>Names = [''e''], Score = 0x4014000000000000\<rparr>, \<lparr>Names = [''f''], Score = 0x401C000000000000\<rparr>, \<lparr>Names = [''b''], Score = 0x3FF0000000000000\<rparr>] = Some t
    \<and> Delete (env_at 0) t ''d'' = Some (t', True)
    \<and> Insert (env_at 0) t' \<lparr>Names = [''g''], Score = 0x401C000000000000\<rparr> = None"
  by (rule btree_insert_panics) (simp_all add: f_lt_def f_key_def f_mag_def f_nan_def)

end
