(* ===== verification/Stream_Struct.thy ===== *)
theory Stream_Struct
  imports Prelude
begin

text \<open>
  The stream type of \<open>src/memdb/stream_struct.go\<close>: the list of entry identifiers in order of
  arrival, and a map from the printed identifier to the fields of the entry.
\<close>

section \<open>Identifiers\<close>

record StreamID =
  stime :: int
  seqNum :: int

definition Format :: "StreamID \<Rightarrow> string" where
  "Format i = FormatInt (stime i) @ ''-'' @ FormatInt (seqNum i)"

definition GreaterEqual :: "StreamID \<Rightarrow> StreamID \<Rightarrow> bool" where
  "GreaterEqual i j \<longleftrightarrow> stime i \<ge> stime j \<and> seqNum i \<ge> seqNum j"

definition id_err :: string where
  "id_err = ''ERR Invalid stream ID specified as stream command argument''"

text \<open>\<open>Parse\<close>: an error, or the identifier. (A failed \<open>Parse\<close> leaves a value that no caller reads.)\<close>

definition Parse :: "string \<Rightarrow> string + StreamID" where
  "Parse s =
     (let trunks = Split (CHR ''-'') s in
      if length trunks > 2 then Inl id_err
      else case ParseInt (trunks ! 0) of None \<Rightarrow> Inl id_err
        | Some tm \<Rightarrow>
            if length trunks = 2 then
              (case ParseInt (trunks ! 1) of None \<Rightarrow> Inl id_err | Some n \<Rightarrow> Inr \<lparr>stime = tm, seqNum = n\<rparr>)
            else Inr \<lparr>stime = tm, seqNum = 0\<rparr>)"

section \<open>Streams\<close>

record Stream =
  entry :: "(string \<times> string list) list"
  timeStamps :: "StreamID list"

definition NewStream :: Stream where
  "NewStream = \<lparr>entry = [], timeStamps = []\<rparr>"

definition top_err :: string where
  "top_err = ''ERR The ID specified in XADD is equal or smaller than the target stream top item''"

text \<open>
  \<open>AddEntry\<close> completes the identifier it is given; the result is the completed identifier and
  the stream, or the error.
\<close>

definition AddEntry :: "env \<Rightarrow> Stream \<Rightarrow> StreamID \<Rightarrow> string list \<Rightarrow> string + (Stream \<times> StreamID)" where
  "AddEntry e s ID val =
     (let ID = (if stime ID = - 1 then ID\<lparr>stime := now_ms e\<rparr> else ID) in
      if timeStamps s = [] then
        let ID = ID\<lparr>seqNum := 0\<rparr>
        in Inr (s\<lparr>timeStamps := timeStamps s @ [ID], entry := AList.update (Format ID) val (entry s)\<rparr>, ID)
      else
        let top = last (timeStamps s) in
        if stime ID < stime top then Inl top_err
        else if \<not> (stime ID = stime top \<and> seqNum ID = - 1) \<and> stime ID = stime top \<and> seqNum ID < seqNum top
        then Inl top_err
        else
          let ID = (if stime ID = stime top \<and> seqNum ID = - 1 then ID\<lparr>seqNum := wrap64 (seqNum top + 1)\<rparr> else ID)
          in Inr (s\<lparr>timeStamps := timeStamps s @ [ID], entry := AList.update (Format ID) val (entry s)\<rparr>, ID))"

text \<open>An entry that the map does not have reads as a nil slice, which has no elements.\<close>

definition entry_of :: "Stream \<Rightarrow> StreamID \<Rightarrow> string list" where
  "entry_of s k = (case map_of (entry s) (Format k) of None \<Rightarrow> [] | Some v \<Rightarrow> v)"

fun range_scan :: "StreamID \<Rightarrow> StreamID \<Rightarrow> bool \<Rightarrow> StreamID list \<Rightarrow> StreamID list" where
  "range_scan start stop flag [] = []"
| "range_scan start stop flag (k # ks) =
     (if (stime k > stime stop \<and> stime stop \<noteq> - 1) \<or> (stime k = stime stop \<and> seqNum k \<ge> seqNum stop) then []
      else
        let flag = (flag \<or> (stime k \<ge> stime start \<and> (seqNum k \<ge> seqNum start \<or> seqNum start = - 1)))
        in if flag then k # range_scan start stop flag ks else range_scan start stop flag ks)"

text \<open>\<open>Range\<close>: \<open>None\<close> is the pair of nil slices.\<close>

definition StreamRange :: "Stream \<Rightarrow> StreamID \<Rightarrow> StreamID \<Rightarrow> (StreamID list \<times> string list list) option" where
  "StreamRange s start stop =
     (if timeStamps s = [] then None
      else if stime start = - 1 \<and> stime stop = - 1 then Some (timeStamps s, map (entry_of s) (timeStamps s))
      else let ids = range_scan start stop False (timeStamps s) in Some (ids, map (entry_of s) ids))"

definition DropFirst :: "Stream \<Rightarrow> Stream \<times> int" where
  "DropFirst s =
     (case timeStamps s of [] \<Rightarrow> (s, 0)
      | stamp # rest \<Rightarrow> (s\<lparr>timeStamps := rest, entry := AList.delete (Format stamp) (entry s)\<rparr>, int (length rest)))"

text \<open>\<open>DropFirstN\<close>: slicing with a negative number panics.\<close>

definition DropFirstN :: "Stream \<Rightarrow> int \<Rightarrow> (Stream \<times> int) option" where
  "DropFirstN s n =
     (let len = int (length (timeStamps s)) in
      if n = 0 then Some (s, len)
      else if n \<ge> len then Some (NewStream, 0)
      else if n < 0 then None
      else Some (s\<lparr>entry := fold (\<lambda>t en. AList.delete (Format t) en) (take (nat n) (timeStamps s)) (entry s),
                   timeStamps := drop (nat n) (timeStamps s)\<rparr>, len - n))"

section \<open>Identifiers print and parse\<close>

lemma FormatInt_no_minus: "0 \<le> i \<Longrightarrow> CHR ''-'' \<notin> set (FormatInt i)"
  using fmt_nat_digits [of "CHR ''-''" "nat i"] by (auto simp: FormatInt_def)

lemma Parse_Format:
  assumes "0 \<le> stime i" "in64 (stime i)" "0 \<le> seqNum i" "in64 (seqNum i)"
  shows "Parse (Format i) = Inr i"
proof -
  have "Split (CHR ''-'') (Format i) = [FormatInt (stime i), FormatInt (seqNum i)]"
    using FormatInt_no_minus [OF assms(1)] FormatInt_no_minus [OF assms(3)]
    by (simp add: Format_def Split_append_sep Split_no_sep)
  then show ?thesis using assms by (simp add: Parse_def)
qed

lemma Format_inj:
  assumes "0 \<le> stime i" "in64 (stime i)" "0 \<le> seqNum i" "in64 (seqNum i)"
    and "0 \<le> stime j" "in64 (stime j)" "0 \<le> seqNum j" "in64 (seqNum j)" and "Format i = Format j"
  shows "i = j"
  using Parse_Format [of i] Parse_Format [of j] assms by (metis sum.inject(2))

section \<open>The order of the entries\<close>

definition id_le :: "StreamID \<Rightarrow> StreamID \<Rightarrow> bool" where
  "id_le i j \<longleftrightarrow> stime i < stime j \<or> (stime i = stime j \<and> seqNum i \<le> seqNum j)"

lemma id_le_refl [simp]: "id_le i i"
  by (simp add: id_le_def)

lemma id_le_trans: "id_le i j \<Longrightarrow> id_le j k \<Longrightarrow> id_le i k"
  by (auto simp: id_le_def)

text \<open>The invariant of a stream: times never decrease. \<open>stream_sorted\<close> is the full order.\<close>

definition stream_ok :: "Stream \<Rightarrow> bool" where
  "stream_ok s \<longleftrightarrow> sorted_wrt (\<lambda>i j. stime i \<le> stime j) (timeStamps s) \<and> gm_ok (entry s)"

definition stream_sorted :: "Stream \<Rightarrow> bool" where
  "stream_sorted s \<longleftrightarrow> sorted_wrt id_le (timeStamps s)"

lemma stream_ok_New [simp]: "stream_ok NewStream" "stream_sorted NewStream"
  by (simp_all add: stream_ok_def stream_sorted_def NewStream_def)

lemma sorted_wrt_snoc_last:
  assumes "sorted_wrt R xs" and "xs \<noteq> []" and "R (last xs) x" and "\<And>a b c. R a b \<Longrightarrow> R b c \<Longrightarrow> R a c"
  shows "sorted_wrt R (xs @ [x])"
proof -
  obtain ys y where xs: "xs = ys @ [y]" using assms(2) by (cases xs rule: rev_cases) auto
  then show ?thesis using assms(1,3) assms(4) [of _ y x] by (auto simp: sorted_wrt_append)
qed

lemma AddEntry_cases:
  assumes "AddEntry e s ID val = Inr (s', ID')"
  shows "timeStamps s' = timeStamps s @ [ID']" and "entry s' = AList.update (Format ID') val (entry s)"
    and "timeStamps s \<noteq> [] \<Longrightarrow> stime (last (timeStamps s)) \<le> stime ID'"
    and "timeStamps s \<noteq> [] \<Longrightarrow> seqNum (last (timeStamps s)) < MaxInt64 \<Longrightarrow> - 1 \<le> seqNum (last (timeStamps s)) \<Longrightarrow> id_le (last (timeStamps s)) ID'"
proof -
  have top: "stime top \<le> stime ID'" "in64 (seqNum top + 1) \<Longrightarrow> id_le top ID'"
    if "timeStamps s \<noteq> []" "top = last (timeStamps s)" for top
    using assms that by (auto simp: AddEntry_def Let_def id_le_def split: if_splits)
  show "timeStamps s' = timeStamps s @ [ID']" "entry s' = AList.update (Format ID') val (entry s)"
    using assms by (auto simp: AddEntry_def Let_def split: if_splits)
  show "timeStamps s \<noteq> [] \<Longrightarrow> stime (last (timeStamps s)) \<le> stime ID'" using top by blast
  show "timeStamps s \<noteq> [] \<Longrightarrow> seqNum (last (timeStamps s)) < MaxInt64 \<Longrightarrow> - 1 \<le> seqNum (last (timeStamps s)) \<Longrightarrow> id_le (last (timeStamps s)) ID'"
    using top(2) by (simp add: in64_def)
qed

lemma AddEntry_ok: "AddEntry e s ID val = Inr (s', ID') \<Longrightarrow> stream_ok s \<Longrightarrow> stream_ok s'"
  using AddEntry_cases(1-3) [of e s ID val s' ID'] sorted_wrt_snoc_last [of "\<lambda>i j. stime i \<le> stime j" "timeStamps s" ID']
  by (cases "timeStamps s = []") (auto simp: stream_ok_def)

lemma sorted_wrt_drop_tail: "sorted_wrt R xs \<Longrightarrow> sorted_wrt R (drop n xs)"
  by (metis append_take_drop_id sorted_wrt_append)

lemma gm_ok_deletes: "gm_ok en \<Longrightarrow> gm_ok (fold (\<lambda>t en. AList.delete (Format t) en) ts en)"
  by (induction ts arbitrary: en) auto

lemma DropFirstN_ok: "DropFirstN s n = Some (s', k) \<Longrightarrow> stream_ok s \<Longrightarrow> stream_ok s'"
  by (auto simp: DropFirstN_def Let_def stream_ok_def NewStream_def gm_ok_deletes sorted_wrt_drop_tail split: if_splits)

end
