(* ===== verification/Memdb.thy ===== *)
theory Memdb
  imports Concurrent_Map Pubsub_Struct Dblock List_Refine Set_Struct Hash_Struct Btree Stream_Struct
begin

text \<open>
  The database of \<open>src/memdb/db.go\<close>: the keys and their values, the expiry times, and the
  operations \<open>CheckTTL\<close>, \<open>SetTTL\<close> and \<open>DelTTL\<close>. A command handler is a function from the
  environment, the database and the arguments to the new database and the reply. It runs
  under the locks of its keys, so it is one step here; the locks themselves are the subject
  of the theory \<open>Dblock\<close>.
\<close>

section \<open>State\<close>

text \<open>The types that a key can hold.\<close>

datatype dbvalue =
    VBytes slice
  | VList List
  | VSet GoSet
  | VHash Hash
  | VZSet Btree
  | VStream Stream

text \<open>
  An expiry time with the channel that cancels its timer. Channels are numbered in the
  order in which they are made; \<open>closed\<close> lists the closed ones, and \<open>timers\<close> the timers that
  have been started, each with its key and its channel.
\<close>

record TTLInfo =
  ttl_value :: int
  cancel :: nat

text \<open>
  Configuration changes of the cluster, as \<open>rconf\<close> sends them (\<open>src/memdb/raft_command.go\<close>).
\<close>

datatype ConfChangeType = ConfChangeAddNode | ConfChangeRemoveNode | ConfChangeUpdateNode

record ConfChangeV2 =
  Transition :: int
  Changes :: "(ConfChangeType \<times> nat) list"
  Context :: string

text \<open>
  The database. Besides the fields of the source, \<open>services\<close> lists the goroutines that
  \<open>subscribe\<close> has started (connection, channel, identifier), \<open>written\<close> what has been written to
  the connections of subscribers, and \<open>confChanges\<close> what has been sent on the channel for
  configuration changes. \<open>Raft\<close> holds the peers of the node in cluster mode.
\<close>

record MemDb =
  db :: "dbvalue ConcurrentMap"
  ttlKeys :: "TTLInfo ConcurrentMap"
  next_chan :: nat
  closed :: "nat list"
  timers :: "(string \<times> nat) list"
  SubChans :: ChanMap
  services :: "(nat \<times> string \<times> string) list"
  written :: "(nat \<times> string) list"
  Raft :: "string list option"
  confChanges :: "ConfChangeV2 list"

definition NewMemDb :: "int \<Rightarrow> MemDb" where
  "NewMemDb ShardNum = \<lparr>db = NewConcurrentMap ShardNum, ttlKeys = NewConcurrentMap ShardNum,
     next_chan = 0, closed = [], timers = [], SubChans = NewChanMap ShardNum, services = [], written = [],
     Raft = None, confChanges = []\<rparr>"

text \<open>The reply is \<open>None\<close> where the handler returns a nil interface.\<close>

type_synonym result = "(MemDb \<times> RedisData option) option"
type_synonym handler = "env \<Rightarrow> MemDb \<Rightarrow> cmdBytes \<Rightarrow> result"

abbreviation reply :: "MemDb \<Rightarrow> RedisData \<Rightarrow> result" where
  "reply m r \<equiv> Some (m, Some r)"

abbreviation WRONGTYPE :: RedisData where
  "WRONGTYPE \<equiv> ErrorData ''WRONGTYPE Operation against a key holding the wrong kind of value''"

abbreviation db_put :: "MemDb \<Rightarrow> string \<Rightarrow> dbvalue \<Rightarrow> MemDb" where
  "db_put m k v \<equiv> m\<lparr>db := cm_put (db m) k v\<rparr>"

section \<open>Expiry\<close>

definition CheckTTL :: "env \<Rightarrow> MemDb \<Rightarrow> string \<Rightarrow> MemDb \<times> bool" where
  "CheckTTL e m key =
     (case cm_Get (ttlKeys m) key of None \<Rightarrow> (m, True)
      | Some ttl \<Rightarrow>
          if ttl_value ttl > now e then (m, True)
          else (m\<lparr>db := cm_del (db m) key, ttlKeys := cm_del (ttlKeys m) key\<rparr>, False))"

text \<open>Closing a closed channel is a panic.\<close>

definition close_chan :: "MemDb \<Rightarrow> nat \<Rightarrow> MemDb option" where
  "close_chan m c = (if c \<in> set (closed m) then None else Some (m\<lparr>closed := c # closed m\<rparr>))"

definition SetTTL :: "MemDb \<Rightarrow> string \<Rightarrow> int \<Rightarrow> (MemDb \<times> int) option" where
  "SetTTL m key v =
     (if cm_Get (db m) key = None then Some (m, 0)
      else do {
        let c = next_chan m;
        let m = m\<lparr>next_chan := c + 1\<rparr>;
        m \<leftarrow> (case cm_Get (ttlKeys m) key of None \<Rightarrow> Some m
              | Some ttlInfo \<Rightarrow> do {
                  m \<leftarrow> close_chan m (cancel ttlInfo);
                  Some (m\<lparr>ttlKeys := cm_del (ttlKeys m) key\<rparr>) });
        let m = m\<lparr>ttlKeys := cm_put (ttlKeys m) key \<lparr>ttl_value = v, cancel = c\<rparr>\<rparr>;
        Some (m\<lparr>timers := (key, c) # timers m\<rparr>, 1) })"

definition DelTTL :: "MemDb \<Rightarrow> string \<Rightarrow> (MemDb \<times> int) option" where
  "DelTTL m key =
     (case cm_Get (ttlKeys m) key of None \<Rightarrow> Some (m, 0)
      | Some ttl \<Rightarrow> do {
          m \<leftarrow> close_chan m (cancel ttl);
          let (t, n) = cm_Delete (ttlKeys m) key;
          Some (m\<lparr>ttlKeys := t\<rparr>, n) })"

text \<open>
  The goroutine that \<open>SetTTL\<close> starts: when its timer fires, and its channel has not been
  closed before, it runs \<open>CheckTTL\<close>; a closed channel ends it.
\<close>

definition timer_fires :: "env \<Rightarrow> MemDb \<Rightarrow> string \<times> nat \<Rightarrow> MemDb" where
  "timer_fires e m t =
     (let m' = m\<lparr>timers := remove1 t (timers m)\<rparr> in
      if snd t \<in> set (closed m) then m' else fst (CheckTTL e m' (fst t)))"

text \<open>
  The deferred function of several handlers: when the value of the key has become empty,
  the key and its expiry time are removed.
\<close>

definition drop_key :: "MemDb \<Rightarrow> string \<Rightarrow> MemDb option" where
  "drop_key m key = do { (m, _) \<leftarrow> DelTTL (m\<lparr>db := cm_del (db m) key\<rparr>) key; Some m }"

section \<open>The invariant of a database\<close>

fun value_ok :: "dbvalue \<Rightarrow> bool" where
  "value_ok (VBytes b) \<longleftrightarrow> True"
| "value_ok (VList l) \<longleftrightarrow> list_ok l"
| "value_ok (VSet s) \<longleftrightarrow> distinct s"
| "value_ok (VHash h) \<longleftrightarrow> gm_ok h"
| "value_ok (VZSet t) \<longleftrightarrow> hpos (root t)"
| "value_ok (VStream s) \<longleftrightarrow> stream_ok s"

text \<open>
  Both maps are well-formed, every value is, every key with an expiry time exists, and the
  channels of the expiry times are open and belong to one key each.
\<close>

definition chans_ok :: "MemDb \<Rightarrow> bool" where
  "chans_ok m \<longleftrightarrow> (\<forall>k t. cm_Get (ttlKeys m) k = Some t \<longrightarrow> cancel t < next_chan m \<and> cancel t \<notin> set (closed m))
     \<and> (\<forall>k k' t t'. cm_Get (ttlKeys m) k = Some t \<longrightarrow> cm_Get (ttlKeys m) k' = Some t' \<longrightarrow> cancel t = cancel t' \<longrightarrow> k = k')
     \<and> (\<forall>c \<in> set (closed m). c < next_chan m)"

definition db_ok :: "MemDb \<Rightarrow> bool" where
  "db_ok m \<longleftrightarrow> cm_ok (db m) \<and> cm_ok (ttlKeys m) \<and> (\<forall>k v. cm_Get (db m) k = Some v \<longrightarrow> value_ok v)
     \<and> dom (cm_Get (ttlKeys m)) \<subseteq> dom (cm_Get (db m)) \<and> chans_ok m"

lemma db_ok_New [simp]: "db_ok (NewMemDb n)"
  by (auto simp: db_ok_def NewMemDb_def chans_ok_def)

lemma db_okD:
  assumes "db_ok m"
  shows "cm_ok (db m)" "cm_ok (ttlKeys m)" "cm_Get (db m) k = Some v \<Longrightarrow> value_ok v" "chans_ok m"
    "cm_Get (ttlKeys m) k = Some t \<Longrightarrow> \<exists>v. cm_Get (db m) k = Some v"
  using assms unfolding db_ok_def by (blast, blast, blast, blast, auto)

lemma chans_okD:
  assumes "chans_ok m" and "cm_Get (ttlKeys m) k = Some t"
  shows "cancel t < next_chan m" "cancel t \<notin> set (closed m)"
    and "cm_Get (ttlKeys m) k' = Some t' \<Longrightarrow> cancel t = cancel t' \<Longrightarrow> k = k'"
  using assms unfolding chans_ok_def by (blast, blast, metis)

lemma chans_ok_db [simp]: "chans_ok (m\<lparr>db := d\<rparr>) = chans_ok m"
  by (simp add: chans_ok_def)

lemma db_ok_fields [simp]:
  "db_ok (m\<lparr>SubChans := c\<rparr>) = db_ok m" "db_ok (m\<lparr>services := sv\<rparr>) = db_ok m" "db_ok (m\<lparr>written := w\<rparr>) = db_ok m"
  "db_ok (m\<lparr>confChanges := cc\<rparr>) = db_ok m" "db_ok (m\<lparr>timers := tm\<rparr>) = db_ok m"
  by (simp_all add: db_ok_def chans_ok_def)

lemma db_ok_put [simp]: "db_ok m \<Longrightarrow> value_ok v \<Longrightarrow> db_ok (db_put m k v)"
  by (auto simp: db_ok_def chans_ok_def)

lemma db_ok_SetIfNotExist: "db_ok m \<Longrightarrow> value_ok v \<Longrightarrow> db_ok (m\<lparr>db := fst (cm_SetIfNotExist (db m) k v)\<rparr>)"
  by (simp add: cm_SetIfNotExist_eq)

lemma db_ok_del [simp]:
  "db_ok m \<Longrightarrow> db_ok (m\<lparr>db := cm_del (db m) k, ttlKeys := cm_del (ttlKeys m) k\<rparr>)"
  unfolding db_ok_def chans_ok_def by (auto split: if_splits)

lemma CheckTTL_db_ok [simp]: "db_ok m \<Longrightarrow> db_ok (fst (CheckTTL e m k))"
  by (simp add: CheckTTL_def split: option.split)

text \<open>The expiry operations never close a channel twice, and keep the invariant.\<close>

lemma DelTTL_ok:
  assumes "db_ok m"
  obtains m' where "DelTTL m k = Some (m', if cm_Get (ttlKeys m) k = None then 0 else 1)"
    and "db_ok m'" and "db m' = db m" and "cm_Get (ttlKeys m') = (cm_Get (ttlKeys m))(k := None)"
proof (cases "cm_Get (ttlKeys m) k")
  case None
  then show ?thesis using that [of m] assms by (simp add: DelTTL_def fun_upd_idem)
next
  case (Some t)
  let ?m = "m\<lparr>closed := cancel t # closed m, ttlKeys := cm_del (ttlKeys m) k\<rparr>"
  note c = chans_okD [OF db_okD(4) [OF assms] Some]
  have "DelTTL m k = Some (?m, 1)"
    using Some c(2) cm_Delete_removed [of "ttlKeys m" k] by (cases "cm_Delete (ttlKeys m) k") (simp add: DelTTL_def close_chan_def)
  moreover have "db_ok ?m"
    using assms c unfolding db_ok_def chans_ok_def by (auto split: if_splits)
  moreover have "cm_Get (ttlKeys ?m) = (cm_Get (ttlKeys m))(k := None)" using db_okD(2) [OF assms] by simp
  ultimately show ?thesis using that Some by simp
qed

text \<open>Removing a key first and its expiry time afterwards, as the handlers do it.\<close>

lemma DelTTL_db: "DelTTL (m\<lparr>db := d\<rparr>) k = map_option (\<lambda>(m', n). (m'\<lparr>db := d\<rparr>, n)) (DelTTL m k)"
  by (simp add: DelTTL_def close_chan_def Let_def case_prod_beta split: option.split)

lemma drop_key_ok:
  assumes "db_ok m"
  obtains m' where "drop_key m k = Some m'" and "db_ok m'" and "cm_Get (db m') = (cm_Get (db m))(k := None)"
    and "cm_Get (ttlKeys m') = (cm_Get (ttlKeys m))(k := None)"
proof -
  obtain m1 n where m1: "DelTTL m k = Some (m1, n)" "db_ok m1" "db m1 = db m"
      "cm_Get (ttlKeys m1) = (cm_Get (ttlKeys m))(k := None)"
    using DelTTL_ok [OF assms] by metis
  have ok: "cm_ok (db m)" using db_okD(1) [OF assms] .
  have "drop_key m k = Some (m1\<lparr>db := cm_del (db m) k\<rparr>)" using m1(1) by (simp add: drop_key_def DelTTL_db)
  moreover have "db_ok (m1\<lparr>db := cm_del (db m) k\<rparr>)"
  proof -
    have "cm_ok (ttlKeys m1)" "chans_ok m1" using db_okD [OF m1(2)] by blast+
    moreover have "value_ok v" if "cm_Get (cm_del (db m) k) k' = Some v" for k' v
      using that ok db_okD(3) [OF assms] by (auto split: if_splits)
    moreover have "dom (cm_Get (ttlKeys m1)) \<subseteq> dom (cm_Get (cm_del (db m) k))"
      using db_okD(5) [OF assms] ok unfolding m1(4) by (auto split: if_splits)
    ultimately show ?thesis using ok by (simp add: db_ok_def)
  qed
  ultimately show ?thesis using that m1 ok by simp
qed

lemma drop_key_put_ok:
  assumes "db_ok m"
  obtains m' where "drop_key (db_put m k v) k = Some m'" and "db_ok m'" and "cm_Get (db m') = (cm_Get (db m))(k := None)"
    and "cm_Get (ttlKeys m') = (cm_Get (ttlKeys m))(k := None)"
proof -
  obtain m1 n where m1: "DelTTL m k = Some (m1, n)" "db_ok m1" "db m1 = db m"
      "cm_Get (ttlKeys m1) = (cm_Get (ttlKeys m))(k := None)"
    using DelTTL_ok [OF assms] by metis
  let ?d = "cm_del (cm_put (db m) k v) k"
  have ok: "cm_ok ?d" "cm_Get ?d = (cm_Get (db m))(k := None)" using db_okD(1) [OF assms] by simp_all
  have "drop_key (db_put m k v) k = Some (m1\<lparr>db := ?d\<rparr>)" using m1(1) by (simp add: drop_key_def DelTTL_db)
  moreover have "db_ok (m1\<lparr>db := ?d\<rparr>)"
  proof -
    have "cm_ok (ttlKeys m1)" "chans_ok m1" using db_okD [OF m1(2)] by blast+
    moreover have "value_ok w" if "cm_Get ?d k' = Some w" for k' w
      using that ok db_okD(3) [OF assms] by (auto split: if_splits)
    moreover have "dom (cm_Get (ttlKeys m1)) \<subseteq> dom (cm_Get ?d)"
      using db_okD(5) [OF assms] unfolding ok(2) m1(4) by (auto split: if_splits)
    ultimately show ?thesis using ok by (simp add: db_ok_def)
  qed
  ultimately show ?thesis using that m1 ok by simp
qed

lemma SetTTL_fresh_ok:
  assumes "db_ok m" and "cm_Get (db m) k = Some w" and "cm_Get (ttlKeys m) k = None"
  obtains m' where "SetTTL m k v = Some (m', 1)" and "db_ok m'" and "db m' = db m"
    and "map_option ttl_value \<circ> cm_Get (ttlKeys m') = (map_option ttl_value \<circ> cm_Get (ttlKeys m))(k \<mapsto> v)"
proof -
  let ?m = "m\<lparr>next_chan := next_chan m + 1, ttlKeys := cm_put (ttlKeys m) k \<lparr>ttl_value = v, cancel = next_chan m\<rparr>,
    timers := (k, next_chan m) # timers m\<rparr>"
  note tt = db_okD(2) [OF assms(1)] and c = db_okD(4) [OF assms(1)]
  have "SetTTL m k v = Some (?m, 1)" using assms(2,3) by (simp add: SetTTL_def Let_def)
  moreover have "chans_ok ?m"
  proof -
    have get: "cm_Get (ttlKeys ?m) = (cm_Get (ttlKeys m))(k \<mapsto> \<lparr>ttl_value = v, cancel = next_chan m\<rparr>)" using tt by simp
    have "cancel t < next_chan m" if "cm_Get (ttlKeys m) k' = Some t" for k' t using chans_okD(1) [OF c that] .
    moreover have "\<forall>x \<in> set (closed m). x < next_chan m" using c by (simp add: chans_ok_def)
    ultimately show ?thesis
      using c unfolding chans_ok_def get by (auto split: if_splits simp: less_Suc_eq) (metis less_irrefl)+
  qed
  moreover have "map_option ttl_value \<circ> cm_Get (ttlKeys ?m) = (map_option ttl_value \<circ> cm_Get (ttlKeys m))(k \<mapsto> v)"
    using tt by (simp add: fun_eq_iff)
  ultimately show ?thesis using that assms unfolding db_ok_def by (auto simp: domI)
qed

lemma SetTTL_again:
  assumes "DelTTL m k = Some (m1, n)" and "cm_Get (ttlKeys m) k \<noteq> None" and "cm_Get (db m) k \<noteq> None"
    and "cm_ok (ttlKeys m)"
  shows "SetTTL m k v = SetTTL m1 k v"
  using assms by (auto simp: SetTTL_def DelTTL_def close_chan_def Let_def case_prod_beta split: if_splits)

lemma SetTTL_ok:
  assumes "db_ok m"
  obtains m' where "SetTTL m k v = Some (m', if cm_Get (db m) k = None then 0 else 1)"
    and "db_ok m'" and "db m' = db m"
    and "map_option ttl_value \<circ> cm_Get (ttlKeys m') =
      (if cm_Get (db m) k = None then map_option ttl_value \<circ> cm_Get (ttlKeys m)
       else (map_option ttl_value \<circ> cm_Get (ttlKeys m))(k \<mapsto> v))"
proof (cases "cm_Get (db m) k")
  case None
  then show ?thesis using that [of m] assms by (simp add: SetTTL_def)
next
  case (Some w)
  obtain m1 n where m1: "DelTTL m k = Some (m1, n)" "db_ok m1" "db m1 = db m"
      "cm_Get (ttlKeys m1) = (cm_Get (ttlKeys m))(k := None)"
    using DelTTL_ok [OF assms] by metis
  obtain m' where m': "SetTTL m1 k v = Some (m', 1)" "db_ok m'" "db m' = db m1"
      "map_option ttl_value \<circ> cm_Get (ttlKeys m') = (map_option ttl_value \<circ> cm_Get (ttlKeys m1))(k \<mapsto> v)"
    by (rule SetTTL_fresh_ok [OF m1(2), of k w v]) (use m1 Some in auto)
  have "SetTTL m k v = SetTTL m1 k v"
  proof (cases "cm_Get (ttlKeys m) k = None")
    case True
    then show ?thesis using m1(1) by (simp add: DelTTL_def)
  next
    case False
    then show ?thesis using SetTTL_again [OF m1(1)] Some db_okD(2) [OF assms] by simp
  qed
  then show ?thesis using that m' m1 Some by (simp add: fun_eq_iff)
qed

section \<open>Handlers that keep the invariant\<close>

text \<open>
  A computation keeps the invariant when every database it returns is well-formed. The
  rules follow the shape of the handlers.
\<close>

definition keeps :: "(MemDb \<times> 'a) option \<Rightarrow> bool" where
  "keeps r \<longleftrightarrow> (\<forall>m x. r = Some (m, x) \<longrightarrow> db_ok m)"

named_theorems keeps_rules \<open>rules for the invariant along the structure of a handler\<close>

lemma keeps_None [keeps_rules]: "keeps None"
  by (simp add: keeps_def)

lemma keeps_Some [keeps_rules]: "db_ok m \<Longrightarrow> keeps (Some (m, x))"
  by (simp add: keeps_def)

lemma keeps_if [keeps_rules]: "(b \<Longrightarrow> keeps x) \<Longrightarrow> (\<not> b \<Longrightarrow> keeps y) \<Longrightarrow> keeps (if b then x else y)"
  by simp

lemma keeps_bind [keeps_rules]: "(\<And>x. p = Some x \<Longrightarrow> keeps (f x)) \<Longrightarrow> keeps (p \<bind> f)"
  by (cases p) (simp_all add: keeps_None)

lemma keeps_Let [keeps_rules]: "keeps (f x) \<Longrightarrow> keeps (Let x f)"
  by simp

lemma keeps_option [keeps_rules]:
  "(p = None \<Longrightarrow> keeps x) \<Longrightarrow> (\<And>y. p = Some y \<Longrightarrow> keeps (f y)) \<Longrightarrow> keeps (case p of None \<Rightarrow> x | Some y \<Rightarrow> f y)"
  by (cases p) simp_all

lemma keeps_value [keeps_rules]:
  assumes "\<And>x. v = VBytes x \<Longrightarrow> keeps (f1 x)" "\<And>x. v = VList x \<Longrightarrow> keeps (f2 x)" "\<And>x. v = VSet x \<Longrightarrow> keeps (f3 x)"
    "\<And>x. v = VHash x \<Longrightarrow> keeps (f4 x)" "\<And>x. v = VZSet x \<Longrightarrow> keeps (f5 x)" "\<And>x. v = VStream x \<Longrightarrow> keeps (f6 x)"
  shows "keeps (case v of VBytes x \<Rightarrow> f1 x | VList x \<Rightarrow> f2 x | VSet x \<Rightarrow> f3 x | VHash x \<Rightarrow> f4 x | VZSet x \<Rightarrow> f5 x | VStream x \<Rightarrow> f6 x)"
  using assms by (cases v) simp_all

lemma keeps_sum [keeps_rules]:
  "(\<And>y. p = Inl y \<Longrightarrow> keeps (f y)) \<Longrightarrow> (\<And>y. p = Inr y \<Longrightarrow> keeps (g y)) \<Longrightarrow> keeps (case p of Inl y \<Rightarrow> f y | Inr y \<Rightarrow> g y)"
  by (cases p) simp_all

lemma keeps_list [keeps_rules]:
  "(p = [] \<Longrightarrow> keeps x) \<Longrightarrow> (\<And>y ys. p = y # ys \<Longrightarrow> keeps (f y ys)) \<Longrightarrow> keeps (case p of [] \<Rightarrow> x | y # ys \<Rightarrow> f y ys)"
  by (cases p) simp_all

lemma keeps_pair [keeps_rules]:
  "(\<And>a b. p = (a, b) \<Longrightarrow> keeps (f a b)) \<Longrightarrow> keeps (case p of (a, b) \<Rightarrow> f a b)"
  by (cases p) simp_all

lemma keepsD: "keeps r \<Longrightarrow> r = Some (m, x) \<Longrightarrow> db_ok m"
  by (simp add: keeps_def)

text \<open>The state changes of the handlers, as facts about the states they lead to.\<close>

lemma CheckTTL_keeps: "CheckTTL e m k = (m', ok) \<Longrightarrow> db_ok m \<Longrightarrow> db_ok m'"
  by (metis CheckTTL_db_ok fst_conv)

lemma DelTTL_keeps: "DelTTL m k = Some (m', n) \<Longrightarrow> db_ok m \<Longrightarrow> db_ok m'"
  using DelTTL_ok [of m k] by (metis Pair_inject option.inject)

lemma SetTTL_keeps: "SetTTL m k v = Some (m', n) \<Longrightarrow> db_ok m \<Longrightarrow> db_ok m'"
  using SetTTL_ok [of m k v] by (metis Pair_inject option.inject)

lemma drop_key_keeps: "drop_key m k = Some m' \<Longrightarrow> db_ok m \<Longrightarrow> db_ok m'"
  using drop_key_ok [of m k] by (metis option.inject)

lemma drop_key_put_keeps: "drop_key (db_put m k v) k = Some m' \<Longrightarrow> db_ok m \<Longrightarrow> db_ok m'"
  by (metis drop_key_put_ok option.inject)

lemma stored_ok: "cm_Get (db m) k = Some v \<Longrightarrow> db_ok m \<Longrightarrow> value_ok v"
  by (rule db_okD(3))

text \<open>
  \<open>CheckTTL\<close> seen from outside: an expired key is gone, any other key is as before.
\<close>

definition expired :: "env \<Rightarrow> MemDb \<Rightarrow> string \<Rightarrow> bool" where
  "expired e m k \<longleftrightarrow> (\<exists>t. cm_Get (ttlKeys m) k = Some t \<and> ttl_value t \<le> now e)"

lemma CheckTTL_expired:
  assumes "db_ok m" and "expired e m k"
  shows "snd (CheckTTL e m k) = False" and "cm_Get (db (fst (CheckTTL e m k))) = (cm_Get (db m))(k := None)"
    and "cm_Get (ttlKeys (fst (CheckTTL e m k))) = (cm_Get (ttlKeys m))(k := None)"
  using assms(2) db_okD(1,2) [OF assms(1)] by (auto simp: CheckTTL_def expired_def)

lemma CheckTTL_alive: "\<not> expired e m k \<Longrightarrow> CheckTTL e m k = (m, True)"
  by (auto simp: CheckTTL_def expired_def split: option.split)

text \<open>Channels are closed only by the operation that removes their expiry time, so a timer always finds its own.\<close>

lemma timer_fires_db_ok: "db_ok m \<Longrightarrow> db_ok (timer_fires e m t)"
proof -
  assume "db_ok m"
  then have "db_ok (m\<lparr>timers := ts\<rparr>)" for ts by (simp add: db_ok_def chans_ok_def)
  then show ?thesis by (simp add: timer_fires_def Let_def)
qed

text \<open>The timer that \<open>SetTTL\<close> starts has the channel of the expiry time it stores.\<close>

lemma SetTTL_timer:
  assumes "db_ok m" and "cm_Get (db m) k \<noteq> None"
  obtains m' where "SetTTL m k v = Some (m', 1)" and "db_ok m'" and "db m' = db m"
    and "cm_Get (ttlKeys m') k = Some \<lparr>ttl_value = v, cancel = next_chan m\<rparr>" and "(k, next_chan m) \<in> set (timers m')"
proof -
  obtain m' where m': "SetTTL m k v = Some (m', 1)" "db_ok m'" "db m' = db m"
    by (rule SetTTL_ok [OF assms(1), of k v]) (use assms(2) in auto)
  moreover have "cm_Get (ttlKeys m') k = Some \<lparr>ttl_value = v, cancel = next_chan m\<rparr> \<and> (k, next_chan m) \<in> set (timers m')"
    using m'(1) assms(2) db_okD(2) [OF assms(1)]
    by (auto simp: SetTTL_def Let_def close_chan_def split: if_splits option.splits)
  ultimately show ?thesis using that by blast
qed

lemma timer_fires_expired:
  assumes "db_ok m" and "cm_Get (ttlKeys m) k = Some \<lparr>ttl_value = v, cancel = c\<rparr>" and "v \<le> now e"
  shows "cm_Get (db (timer_fires e m (k, c))) = (cm_Get (db m))(k := None)"
proof -
  have "c \<notin> set (closed m)" using chans_okD(2) [OF db_okD(4) [OF assms(1)] assms(2)] by simp
  then show ?thesis using assms db_okD(1) [OF assms(1)] by (simp add: timer_fires_def Let_def CheckTTL_def)
qed

section \<open>The keys that a client can see\<close>

text \<open>A key that has expired counts as absent, whether or not it has been removed already.\<close>

definition visible :: "env \<Rightarrow> MemDb \<Rightarrow> string \<Rightarrow> dbvalue option" where
  "visible e m k = (if expired e m k then None else cm_Get (db m) k)"

lemma visible_alive: "\<not> expired e m k \<Longrightarrow> visible e m k = cm_Get (db m) k"
  by (simp add: visible_def)

lemma CheckTTL_visible:
  assumes "db_ok m"
  obtains m' where "CheckTTL e m k = (m', \<not> expired e m k)" and "db_ok m'" and "visible e m' = visible e m"
    and "cm_Get (db m') k = visible e m k" and "\<not> expired e m' k"
proof (cases "expired e m k")
  case True
  let ?m = "fst (CheckTTL e m k)"
  note x = CheckTTL_expired [OF assms True]
  have "expired e ?m k' \<longleftrightarrow> k' \<noteq> k \<and> expired e m k'" for k' by (simp add: expired_def x)
  then show ?thesis using that [of ?m] True x assms by (auto simp: visible_def fun_eq_iff prod_eq_iff)
next
  case False
  then show ?thesis using that [of m] assms by (simp add: CheckTTL_alive visible_def)
qed

text \<open>Storing a value under a key that has not expired.\<close>

lemma visible_put:
  assumes "db_ok m" and "\<not> expired e m k"
  shows "visible e (db_put m k v) = (visible e m)(k \<mapsto> v)"
  using assms db_okD(1) [OF assms(1)] by (auto simp: visible_def expired_def fun_eq_iff)

lemma expired_put [simp]: "expired e (m\<lparr>db := d\<rparr>) k = expired e m k"
  by (simp add: expired_def)

lemma visible_removed:
  assumes "cm_Get (db m') = (cm_Get (db m))(k := None)" and "cm_Get (ttlKeys m') = (cm_Get (ttlKeys m))(k := None)"
  shows "visible e m' = (visible e m)(k := None)"
  using assms by (auto simp: visible_def expired_def fun_eq_iff)

text \<open>The expiry time of a key.\<close>

definition expiry :: "MemDb \<Rightarrow> string \<Rightarrow> int option" where
  "expiry m k = map_option ttl_value (cm_Get (ttlKeys m) k)"

lemma expiry_put [simp]: "expiry (m\<lparr>db := d\<rparr>) = expiry m"
  by (simp add: expiry_def fun_eq_iff)

lemma expiry_absent: "db_ok m \<Longrightarrow> cm_Get (db m) k = None \<Longrightarrow> expiry m k = None"
  using db_okD(5) [of m k] by (cases "cm_Get (ttlKeys m) k") (auto simp: expiry_def)

lemma DelTTL_expiry:
  assumes "db_ok m"
  obtains m' n where "DelTTL m k = Some (m', n)" and "db_ok m'" and "db m' = db m" and "expiry m' = (expiry m)(k := None)"
proof -
  obtain m' n where m': "DelTTL m k = Some (m', n)" "db_ok m'" "db m' = db m" "cm_Get (ttlKeys m') = (cm_Get (ttlKeys m))(k := None)"
    using DelTTL_ok [OF assms, of k] by metis
  then show ?thesis using that by (simp add: expiry_def fun_eq_iff)
qed

lemma SetTTL_expiry:
  assumes "db_ok m"
  obtains m' n where "SetTTL m k v = Some (m', n)" and "db_ok m'" and "db m' = db m"
    and "expiry m' = (if cm_Get (db m) k = None then expiry m else (expiry m)(k \<mapsto> v))"
proof -
  obtain m' n where m': "SetTTL m k v = Some (m', n)" "db_ok m'" "db m' = db m"
    "map_option ttl_value \<circ> cm_Get (ttlKeys m') = (if cm_Get (db m) k = None then map_option ttl_value \<circ> cm_Get (ttlKeys m)
       else (map_option ttl_value \<circ> cm_Get (ttlKeys m))(k \<mapsto> v))"
    using SetTTL_ok [OF assms, of k v] by metis
  have "expiry m' = (if cm_Get (db m) k = None then expiry m else (expiry m)(k \<mapsto> v))"
    using fun_cong [OF m'(4)] by (auto simp: expiry_def fun_eq_iff)
  then show ?thesis using that [OF m'(1-3)] by blast
qed

end
