(* ===== verification/Keys_Cmd.thy ===== *)
theory Keys_Cmd
  imports Memdb
begin

text \<open>
  The key commands of \<open>src/memdb/keys.go\<close>: DEL, EXISTS, KEYS, EXPIRE, PERSIST, TTL, TYPE,
  RENAME and PING.
\<close>

section \<open>Handlers\<close>

fun del_loop :: "MemDb \<Rightarrow> cmdBytes \<Rightarrow> int \<Rightarrow> MemDb \<times> int" where
  "del_loop m [] dKey = (m, dKey)"
| "del_loop m (key # ks) dKey =
     (let (d, n) = cm_Delete (db m) (str key)
      in del_loop (m\<lparr>db := d, ttlKeys := cm_del (ttlKeys m) (str key)\<rparr>) ks (dKey + n))"

definition delKey :: handler where
  "delKey e m cmd = do {
     cmdName \<leftarrow> arg cmd 0;
     if lower e cmdName \<noteq> ''del'' then reply m (ErrorData ''Protocol error: cmdName is not del'')
     else do {
       key1 \<leftarrow> arg cmd 1;
       let (m, ok) = CheckTTL e m key1;
       if \<not> ok then reply m (IntData 0)
       else let (m, dKey) = del_loop m (drop 1 cmd) 0 in reply m (IntData dKey) } }"

fun exists_loop :: "env \<Rightarrow> MemDb \<Rightarrow> cmdBytes \<Rightarrow> int \<Rightarrow> MemDb \<times> int" where
  "exists_loop e m [] eKey = (m, eKey)"
| "exists_loop e m (keyByte # ks) eKey =
     (let key = str keyByte; (m, ok) = CheckTTL e m key
      in exists_loop e m ks (if ok \<and> cm_Get (db m) key \<noteq> None then eKey + 1 else eKey))"

definition existsKey :: handler where
  "existsKey e m cmd = do {
     cmdName \<leftarrow> arg cmd 0;
     if lower e cmdName \<noteq> ''exists'' \<or> length cmd < 2
     then reply m (ErrorData ''Protocol error: cmdName is not exists'')
     else let (m, eKey) = exists_loop e m (drop 1 cmd) 0 in reply m (IntData eKey) }"

fun keys_loop :: "env \<Rightarrow> string \<Rightarrow> MemDb \<Rightarrow> string list \<Rightarrow> RedisData list \<Rightarrow> (MemDb \<times> RedisData list) option" where
  "keys_loop e pattern m [] res = Some (m, res)"
| "keys_loop e pattern m (key # ks) res =
     (let (m, ok) = CheckTTL e m key in
      if ok then do {
        b \<leftarrow> PattenMatch pattern key;
        keys_loop e pattern m ks (if b then res @ [BulkData (Some key)] else res) }
      else keys_loop e pattern m ks res)"

definition keysKey :: handler where
  "keysKey e m cmd = do {
     cmdName \<leftarrow> arg cmd 0;
     if lower e cmdName \<noteq> ''keys'' \<or> length cmd \<noteq> 2
     then do { a \<leftarrow> arg cmd 1; reply m (ErrorData (''error: keys function get invalid command '' @ cmdName @ '' '' @ a)) }
     else do {
       allKeys \<leftarrow> cm_Keys e (db m);
       pattern \<leftarrow> arg cmd 1;
       (m, res) \<leftarrow> keys_loop e pattern m allKeys [];
       reply m (MakeArrayData res) } }"

definition expireKey :: handler where
  "expireKey e m cmd = do {
     cmdName \<leftarrow> arg cmd 0;
     if lower e cmdName \<noteq> ''expire'' \<or> length cmd < 3 \<or> length cmd > 4
     then reply m (ErrorData ''error: cmdName is not expire or command args number is invalid'')
     else do {
       a2 \<leftarrow> arg cmd 2;
       case ParseInt a2 of None \<Rightarrow> reply m (ErrorData (''error: '' @ a2 @ '' is not int''))
       | Some v \<Rightarrow> do {
           let ttl = wrap64 (now e + v);
           opt \<leftarrow> (if length cmd = 4 then map_option (lower e) (arg cmd 3) else Some []);
           key \<leftarrow> arg cmd 1;
           let (m, ok) = CheckTTL e m key;
           if \<not> ok then reply m (IntData 0)
           else
             let old = cm_Get (ttlKeys m) key;
                 set = (do { (m, res) \<leftarrow> SetTTL m key ttl; reply m (IntData res) });
                 skip = reply m (IntData 0)
             in if opt = ''nx'' then if old = None then set else skip
                else if opt = ''xx'' then if old \<noteq> None then set else skip
                else if opt = ''gt'' then (case old of None \<Rightarrow> skip | Some t \<Rightarrow> if ttl > ttl_value t then set else skip)
                else if opt = ''lt'' then (case old of None \<Rightarrow> skip | Some t \<Rightarrow> if ttl < ttl_value t then set else skip)
                else if opt \<noteq> [] then reply m (ErrorData (''ERR Unsupported option '' @ opt @ '', except nx, xx, gt, lt''))
                else set } } }"

definition persistKey :: handler where
  "persistKey e m cmd = do {
     cmdName \<leftarrow> arg cmd 0;
     if lower e cmdName \<noteq> ''persist'' \<or> length cmd \<noteq> 2
     then reply m (ErrorData ''error: cmdName is not persist or command args number is invalid'')
     else do {
       key \<leftarrow> arg cmd 1;
       let (m, ok) = CheckTTL e m key;
       if \<not> ok then reply m (IntData 0)
       else do { (m, res) \<leftarrow> DelTTL m key; reply m (IntData res) } } }"

definition ttlKey :: handler where
  "ttlKey e m cmd = do {
     cmdName \<leftarrow> arg cmd 0;
     if lower e cmdName \<noteq> ''ttl'' \<or> length cmd \<noteq> 2
     then reply m (ErrorData ''error: cmdName is not ttl or command args number is invalid'')
     else do {
       key \<leftarrow> arg cmd 1;
       let (m, ok) = CheckTTL e m key;
       if \<not> ok then reply m (IntData (- 2))
       else if cm_Get (db m) key = None then reply m (IntData (- 2))
       else case cm_Get (ttlKeys m) key of None \<Rightarrow> reply m (IntData (- 1))
         | Some t \<Rightarrow> reply m (IntData (wrap64 (ttl_value t - now e))) } }"

definition typeKey :: handler where
  "typeKey e m cmd = do {
     cmdName \<leftarrow> arg cmd 0;
     if lower e cmdName \<noteq> ''type'' \<or> length cmd \<noteq> 2
     then reply m (ErrorData ''error: cmdName is not type or command args number is invalid'')
     else do {
       key \<leftarrow> arg cmd 1;
       let (m, ok) = CheckTTL e m key;
       if \<not> ok then reply m (BulkData (Some ''none''))
       else case cm_Get (db m) key of None \<Rightarrow> reply m (StringData ''none'')
         | Some v \<Rightarrow> (case v of
               VBytes b \<Rightarrow> reply m (StringData ''string'')
             | VList l \<Rightarrow> reply m (StringData ''list'')
             | VSet s \<Rightarrow> reply m (StringData ''set'')
             | VHash h \<Rightarrow> reply m (StringData ''hash'')
             | VZSet z \<Rightarrow> reply m (ErrorData ''unknown error: server error'')
             | VStream s \<Rightarrow> reply m (ErrorData ''unknown error: server error'')) } }"

definition renameKey :: handler where
  "renameKey e m cmd = do {
     cmdName \<leftarrow> arg cmd 0;
     if lower e cmdName \<noteq> ''rename'' \<or> length cmd \<noteq> 3
     then reply m (ErrorData ''error: cmdName is not rename or command args number is invalid'')
     else do {
       oldName \<leftarrow> arg cmd 1;
       newName \<leftarrow> arg cmd 2;
       let (m, ok) = CheckTTL e m oldName;
       if \<not> ok then reply m (ErrorData (''error: '' @ oldName @ '' not exist''))
       else case cm_Get (db m) oldName of None \<Rightarrow> reply m (ErrorData (''error: '' @ oldName @ '' not exist''))
         | Some oldValue \<Rightarrow>
             let m = m\<lparr>db := cm_del (db m) oldName, ttlKeys := cm_del (ttlKeys m) oldName\<rparr>;
                 m = m\<lparr>db := cm_del (db m) newName, ttlKeys := cm_del (ttlKeys m) newName\<rparr>
             in reply (db_put m newName oldValue) (StringData ''OK'') } }"

definition pingKeys :: handler where
  "pingKeys e m cmd =
     (if length cmd > 2 then reply m (ErrorData (''error: wrong number of arguments for '' @ [CHR 0x27] @ ''ping'' @ [CHR 0x27] @ '' command''))
      else if length cmd = 1 then reply m (StringData ''PONG'')
      else do { b \<leftarrow> nth_opt cmd 1; reply m (BulkData b) })"

section \<open>The invariant\<close>

lemma del_loop_ok: "db_ok m \<Longrightarrow> del_loop m ks n = (m', n') \<Longrightarrow> db_ok m'"
proof (induction ks arbitrary: m n)
  case (Cons k ks)
  then show ?case unfolding del_loop.simps Let_def case_prod_beta by (blast intro: db_ok_del)
qed simp

lemma exists_loop_ok: "db_ok m \<Longrightarrow> exists_loop e m ks n = (m', n') \<Longrightarrow> db_ok m'"
  by (induction ks arbitrary: m n) (auto simp: case_prod_beta Let_def, blast intro: CheckTTL_db_ok)

lemma keys_loop_ok: "db_ok m \<Longrightarrow> keys_loop e p m ks res = Some (m', res') \<Longrightarrow> db_ok m'"
  by (induction ks arbitrary: m res)
    (auto simp: case_prod_beta Let_def split: if_splits bind_splits, (blast intro: CheckTTL_db_ok)+)

lemmas keys_states = CheckTTL_keeps DelTTL_keeps SetTTL_keeps del_loop_ok exists_loop_ok keys_loop_ok

lemma delKey_keeps: "db_ok m \<Longrightarrow> keeps (delKey e m cmd)"
  unfolding delKey_def by (intro keeps_rules) (blast intro: keys_states)+

lemma existsKey_keeps: "db_ok m \<Longrightarrow> keeps (existsKey e m cmd)"
  unfolding existsKey_def by (intro keeps_rules) (blast intro: keys_states)+

lemma keysKey_keeps: "db_ok m \<Longrightarrow> keeps (keysKey e m cmd)"
  unfolding keysKey_def by (intro keeps_rules) (blast intro: keys_states)+

lemma expireKey_keeps: "db_ok m \<Longrightarrow> keeps (expireKey e m cmd)"
  unfolding expireKey_def by (intro keeps_rules) (blast intro: keys_states)+

lemma persistKey_keeps: "db_ok m \<Longrightarrow> keeps (persistKey e m cmd)"
  unfolding persistKey_def by (intro keeps_rules) (blast intro: keys_states)+

lemma ttlKey_keeps: "db_ok m \<Longrightarrow> keeps (ttlKey e m cmd)"
  unfolding ttlKey_def by (intro keeps_rules) (blast intro: keys_states)+

lemma typeKey_keeps: "db_ok m \<Longrightarrow> keeps (typeKey e m cmd)"
  unfolding typeKey_def by (intro keeps_rules) (blast intro: keys_states)+

lemma renameKey_keeps: "db_ok m \<Longrightarrow> keeps (renameKey e m cmd)"
  unfolding renameKey_def
  by (intro keeps_rules) (blast intro: keys_states db_ok_put db_ok_del stored_ok)+

lemma pingKeys_keeps: "db_ok m \<Longrightarrow> keeps (pingKeys e m cmd)"
  unfolding pingKeys_def by (intro keeps_rules)

section \<open>What the key commands do\<close>

lemma CheckTTL_expired_other:
  assumes "db_ok m"
  shows "expired e (fst (CheckTTL e m k)) k' \<longleftrightarrow> expired e m k' \<and> k' \<noteq> k"
proof (cases "expired e m k")
  case True
  then show ?thesis using CheckTTL_expired(3) [OF assms True] by (simp add: expired_def)
next
  case False
  then show ?thesis by (auto simp: CheckTTL_alive)
qed

lemma keys_loop_correct:
  assumes "\<And>k. PattenMatch p k = Some (P k)"
  shows "db_ok m \<Longrightarrow> distinct ks \<Longrightarrow>
    \<exists>m'. keys_loop e p m ks res = Some (m', res @ map (\<lambda>k. BulkData (Some k)) (filter (\<lambda>k. \<not> expired e m k \<and> P k) ks))
      \<and> visible e m' = visible e m"
proof (induction ks arbitrary: m res)
  case (Cons k ks)
  obtain m1 where m1: "CheckTTL e m k = (m1, \<not> expired e m k)" "db_ok m1" "visible e m1 = visible e m"
    using CheckTTL_visible [OF Cons.prems(1), of e k] by metis
  have "filter (\<lambda>k. \<not> expired e m1 k \<and> P k) ks = filter (\<lambda>k. \<not> expired e m k \<and> P k) ks"
    using CheckTTL_expired_other [OF Cons.prems(1), of e k] m1(1) Cons.prems(2) by (intro filter_cong) auto
  with Cons.IH [OF m1(2), of res] Cons.IH [OF m1(2), of "res @ [BulkData (Some k)]"] Cons.prems(2) m1 assms
  show ?case by (cases "P k") auto
qed simp



text \<open>
  C28. EXPIRE on a key that is there: it replies 1 and leaves every value as it is, TTL then
  counts down the seconds that are left, and the timer it has started removes the key, and no
  other, when it fires at or after the expiry time.
\<close>

theorem expire_ttl_timer:
  assumes "db_ok m" and "cm_Get (db m) k = Some v" and "\<not> expired e m k"
    and "lower e c = ''expire''" and "lower e c' = ''ttl''" and "in64 n" and "in64 (now e + n)"
  shows "\<exists>m' ch. expireKey e m [Some c, Some k, Some (FormatInt n)] = reply m' (IntData 1)
    \<and> db m' = db m \<and> (k, ch) \<in> set (timers m')
    \<and> (\<forall>t. now e \<le> t \<longrightarrow> t < now e + n \<longrightarrow> in64 t \<longrightarrow>
          ttlKey (e\<lparr>now := t\<rparr>) m' [Some c', Some k] = reply m' (IntData (now e + n - t)))
    \<and> (\<forall>t \<ge> now e + n. cm_Get (db (timer_fires (e\<lparr>now := t\<rparr>) m' (k, ch))) = (cm_Get (db m))(k := None))"
proof -
  obtain m' where m': "SetTTL m k (now e + n) = Some (m', 1)" "db_ok m'" "db m' = db m"
      "cm_Get (ttlKeys m') k = Some \<lparr>ttl_value = now e + n, cancel = next_chan m\<rparr>" "(k, next_chan m) \<in> set (timers m')"
    using SetTTL_timer [OF assms(1), of k "now e + n"] assms(2) by auto
  have "expireKey e m [Some c, Some k, Some (FormatInt n)] = reply m' (IntData 1)"
    using assms m'(1) by (simp add: expireKey_def CheckTTL_alive)
  moreover have "ttlKey (e\<lparr>now := t\<rparr>) m' [Some c', Some k] = reply m' (IntData (now e + n - t))"
    if t: "now e \<le> t" "t < now e + n" "in64 t" for t
  proof -
    have "CheckTTL (e\<lparr>now := t\<rparr>) m' k = (m', True)" using t m'(4) by (simp add: CheckTTL_def)
    moreover have "in64 (now e + n - t)" using t assms(6) by (simp add: in64_def)
    ultimately show ?thesis using m' assms(2,5) by (simp add: ttlKey_def)
  qed
  moreover have "cm_Get (db (timer_fires (e\<lparr>now := t\<rparr>) m' (k, next_chan m))) = (cm_Get (db m))(k := None)"
    if "now e + n \<le> t" for t using timer_fires_expired [OF m'(2,4), of "e\<lparr>now := t\<rparr>"] that m'(3) by simp
  ultimately show ?thesis
    using m'(3,5) by (intro exI [of _ m'] exI [of _ "next_chan m"] conjI allI impI) simp_all
qed

theorem expire_ttl_timer_witness:
  "\<exists>m' ch. expireKey (env_at 100) (db_put (NewMemDb 1) ''k'' (VBytes (Some ''v''))) [Some ''Expire'', Some ''k'', Some (FormatInt 7)]
       = reply m' (IntData 1)
     \<and> ttlKey (env_at 100\<lparr>now := 105\<rparr>) m' [Some ''ttl'', Some ''k''] = reply m' (IntData 2)
     \<and> cm_Get (db (timer_fires (env_at 100\<lparr>now := 107\<rparr>) m' (''k'', ch))) ''k'' = None"
proof -
  let ?m = "db_put (NewMemDb 1) ''k'' (VBytes (Some ''v''))"
  have ok: "db_ok ?m" by (intro db_ok_put) simp_all
  have k: "cm_Get (db ?m) ''k'' = Some (VBytes (Some ''v''))" by (simp add: NewMemDb_def)
  have t: "\<not> expired (env_at 100) ?m ''k''" by (simp add: expired_def NewMemDb_def)
  have l: "lower (env_at 100) ''Expire'' = ''expire''" "lower (env_at 100) ''ttl'' = ''ttl''"
    by (simp_all add: ToLower_eval)
  have n: "in64 7" "in64 (now (env_at 100) + 7)" by (simp_all add: in64_def)
  from expire_ttl_timer [OF ok k t l n] obtain m' ch where m':
      "expireKey (env_at 100) ?m [Some ''Expire'', Some ''k'', Some (FormatInt 7)] = reply m' (IntData 1)"
      "\<And>t. 100 \<le> t \<Longrightarrow> t < 107 \<Longrightarrow> in64 t \<Longrightarrow>
         ttlKey (env_at 100\<lparr>now := t\<rparr>) m' [Some ''ttl'', Some ''k''] = reply m' (IntData (107 - t))"
      "\<And>t. 107 \<le> t \<Longrightarrow>
         cm_Get (db (timer_fires (env_at 100\<lparr>now := t\<rparr>) m' (''k'', ch))) = (cm_Get (db ?m))(''k'' := None)"
    by auto
  show ?thesis using m'(1) m'(2) [of 105] m'(3) [of 107]
    by (intro exI [of _ m'] exI [of _ ch] conjI) (simp_all add: in64_def)
qed

end
