(* ===== verification/String_Cmd.thy ===== *)
theory String_Cmd
  imports Memdb
begin

text \<open>
  The string commands of \<open>src/memdb/string.go\<close>: SET with its options, GET, the range
  commands, the multi-key commands, the counters and APPEND.
\<close>

section \<open>SET\<close>

record set_opts =
  nx :: bool
  xx :: bool
  get :: bool
  ex :: bool
  px :: bool
  keepttl :: bool
  exat :: bool
  exval :: int
  exatval :: int
  millisecPx :: int

definition set_opts0 :: set_opts where
  "set_opts0 = \<lparr>nx = False, xx = False, get = False, ex = False, px = False, keepttl = False, exat = False,
     exval = 0, exatval = 0, millisecPx = 0\<rparr>"

abbreviation invalid :: RedisData where "invalid \<equiv> ErrorData ''error: commands is invalid''"
abbreviation not_integer :: RedisData where "not_integer \<equiv> ErrorData ''ERR value is not integer or out of range''"

text \<open>The loop over the options: \<open>Inl\<close> is the error reply, \<open>None\<close> the panic of PX without a number.\<close>

fun parse_opts :: "env \<Rightarrow> cmdBytes \<Rightarrow> set_opts \<Rightarrow> (RedisData + set_opts) option" where
  "parse_opts e [] f = Some (Inr f)"
| "parse_opts e (c # cs) f =
     (let opt = lower e (str c) in
      if opt = ''nx'' then parse_opts e cs (f\<lparr>nx := True\<rparr>)
      else if opt = ''xx'' then parse_opts e cs (f\<lparr>xx := True\<rparr>)
      else if opt = ''get'' then parse_opts e cs (f\<lparr>get := True\<rparr>)
      else if opt = ''keepttl'' then parse_opts e cs (f\<lparr>keepttl := True\<rparr>)
      else if opt = ''exat'' then
        (case cs of [] \<Rightarrow> Some (Inl invalid)
         | v # cs \<Rightarrow> (case ParseInt (str v) of None \<Rightarrow> Some (Inl not_integer)
                     | Some n \<Rightarrow> parse_opts e cs (f\<lparr>exat := True, exatval := n\<rparr>)))
      else if opt = ''ex'' then
        (case cs of [] \<Rightarrow> Some (Inl invalid)
         | v # cs \<Rightarrow> (case ParseInt (str v) of None \<Rightarrow> Some (Inl not_integer)
                     | Some n \<Rightarrow> parse_opts e cs (f\<lparr>ex := True, exval := n\<rparr>)))
      else if opt = ''px'' then
        (case cs of [] \<Rightarrow> None
         | v # cs \<Rightarrow> (case ParseInt (str v) of None \<Rightarrow> Some (Inl not_integer)
                     | Some n \<Rightarrow> parse_opts e cs (f\<lparr>px := True, millisecPx := n\<rparr>)))
      else Some (Inl (ErrorData (''Error unsupported option: '' @ str c))))"

text \<open>Go's integer division truncates towards zero.\<close>

definition go_div :: "int \<Rightarrow> int \<Rightarrow> int" where
  "go_div a b = (if 0 \<le> a then a div b else - (- a div b))"

text \<open>The end of \<open>setString\<close>: the expiry time.\<close>

definition set_ttls :: "env \<Rightarrow> MemDb \<Rightarrow> string \<Rightarrow> set_opts \<Rightarrow> MemDb option" where
  "set_ttls e m cmdKey f = do {
     m \<leftarrow> (if \<not> keepttl f then map_option fst (DelTTL m cmdKey) else Some m);
     m \<leftarrow> (if ex f then map_option fst (SetTTL m cmdKey (wrap64 (now e + exval f))) else Some m);
     m \<leftarrow> (if px f then map_option fst (SetTTL m cmdKey (wrap64 (now e + go_div (millisecPx f) 1000))) else Some m);
     if exat f then map_option fst (SetTTL m cmdKey (exatval f)) else Some m }"

text \<open>The part of \<open>setString\<close> after the options have been read.\<close>

definition set_with :: "env \<Rightarrow> MemDb \<Rightarrow> string \<Rightarrow> slice \<Rightarrow> set_opts \<Rightarrow> result" where
  "set_with e m cmdKey val f =
     (if (nx f \<and> xx f) \<or> (ex f \<and> keepttl f) \<or> (ex f \<and> px f) \<or> (ex f \<and> exat f) \<or> (px f \<and> exat f)
      then reply m invalid
      else
        let oldVal = cm_Get (db m) cmdKey in
        if (case oldVal of None \<Rightarrow> False | Some (VBytes _) \<Rightarrow> False | _ \<Rightarrow> True) then reply m WRONGTYPE
        else
          let oldOk = (oldVal \<noteq> None);
              (m, res) =
                (if nx f then
                   if \<not> oldOk then (db_put m cmdKey (VBytes val), None) else (m, Some (BulkData None))
                 else if xx f then
                   if oldOk then (db_put m cmdKey (VBytes val), Some (StringData ''OK'')) else (m, Some (BulkData None))
                 else (db_put m cmdKey (VBytes val), Some (StringData ''OK'')));
              res = (if get f then Some (BulkData (case oldVal of Some (VBytes b) \<Rightarrow> b | _ \<Rightarrow> None)) else res)
          in do { m \<leftarrow> set_ttls e m cmdKey f; Some (m, res) })"

definition setString :: handler where
  "setString e m cmd = do {
     cmdKey \<leftarrow> map_option (lower e) (arg cmd 1);
     if length cmd < 3 then reply m invalid
     else do {
       opts \<leftarrow> parse_opts e (drop 3 cmd) set_opts0;
       case opts of Inl err \<Rightarrow> reply m err
       | Inr f \<Rightarrow> do { val \<leftarrow> nth_opt cmd 2; set_with e m cmdKey val f } } }"

section \<open>The other commands\<close>

abbreviation server_error :: RedisData where "server_error \<equiv> ErrorData ''Server error''"

definition getString :: handler where
  "getString e m cmd = do {
     a0 \<leftarrow> arg cmd 0;
     if lower e a0 \<noteq> ''get'' then reply m server_error
     else if length cmd \<noteq> 2 then reply m invalid
     else do {
       key \<leftarrow> arg cmd 1;
       case cm_Get (db m) key of None \<Rightarrow> reply m (BulkData None)
       | Some v \<Rightarrow> (case v of VBytes b \<Rightarrow> reply m (BulkData b) | _ \<Rightarrow> reply m WRONGTYPE) } }"

text \<open>
  \<open>b[start:end]\<close> is bounded by the capacity of the slice: it can reach the bytes between the
  length and the capacity, and panics beyond.
\<close>

definition sub_slice :: "env \<Rightarrow> string \<Rightarrow> slice \<Rightarrow> int \<Rightarrow> int \<Rightarrow> slice option" where
  "sub_slice e key b start stop =
     (let full = (case b of None \<Rightarrow> [] | Some x \<Rightarrow> x @ spare e key) in
      if stop \<le> int (length full)
      then Some (map_option (\<lambda>_. take (nat (stop - start)) (drop (nat start) full)) b)
      else None)"

definition getRangeString :: handler where
  "getRangeString e m cmd = do {
     a0 \<leftarrow> arg cmd 0;
     if lower e a0 \<noteq> ''getrange'' then reply m server_error
     else if length cmd \<noteq> 4 then reply m invalid
     else do {
       key \<leftarrow> arg cmd 1;
       case cm_Get (db m) key of None \<Rightarrow> reply m (BulkData None)
       | Some v \<Rightarrow> (case v of
           VBytes b \<Rightarrow> do {
             a2 \<leftarrow> arg cmd 2;
             a3 \<leftarrow> arg cmd 3;
             case Atoi a2 of None \<Rightarrow> reply m invalid
             | Some start \<Rightarrow> (case Atoi a3 of None \<Rightarrow> reply m invalid
               | Some end0 \<Rightarrow>
                   let n = int (length (str b));
                       start = (if start < 0 then n + start else start);
                       end1 = wrap64 ((if end0 < 0 then n + end0 else end0) + 1)
                   in if start > end1 \<or> start \<ge> n \<or> end1 < 0 then reply m (BulkData (Some []))
                      else
                        let start = (if start < 0 then 0 else start)
                        in do { r \<leftarrow> sub_slice e key b start end1; reply m (BulkData r) }) }
         | _ \<Rightarrow> reply m WRONGTYPE) } }"

definition setRangeString :: handler where
  "setRangeString e m cmd = do {
     a0 \<leftarrow> arg cmd 0;
     if lower e a0 \<noteq> ''setrange'' then reply m server_error
     else if length cmd \<noteq> 4 then reply m invalid
     else do {
       a2 \<leftarrow> arg cmd 2;
       case Atoi a2 of None \<Rightarrow> reply m (ErrorData ''error: offset is not a integer or less than 0'')
       | Some offset \<Rightarrow>
           if offset < 0 then reply m (ErrorData ''error: offset is not a integer or less than 0'')
           else do {
             key \<leftarrow> arg cmd 1;
             a3 \<leftarrow> arg cmd 3;
             case (case cm_Get (db m) key of None \<Rightarrow> Some (Some []) | Some (VBytes b) \<Rightarrow> Some b | Some _ \<Rightarrow> None) of
               None \<Rightarrow> reply m WRONGTYPE
             | Some oldVal \<Rightarrow>
                 let n = int (length (str oldVal));
                     newVal = (if offset > n
                       then slice_append (slice_append oldVal (replicate (nat (offset - n)) (CHR 0x00))) a3
                       else slice_append (map_option (take (nat offset)) oldVal) a3)
                 in reply (db_put m key (VBytes newVal)) (IntData (int (length (str newVal)))) } } }"

definition mGetString :: handler where
  "mGetString e m cmd = do {
     a0 \<leftarrow> arg cmd 0;
     if lower e a0 \<noteq> ''mget'' then reply m server_error
     else if length cmd < 2 then reply m invalid
     else reply m (MakeArrayData (map (\<lambda>k. case cm_Get (db m) (str k) of
            Some (VBytes b) \<Rightarrow> BulkData b | _ \<Rightarrow> BulkData None) (drop 1 cmd))) }"

fun pairs :: "cmdBytes \<Rightarrow> (string \<times> slice) list" where
  "pairs (k # v # cs) = (str k, v) # pairs cs"
| "pairs _ = []"

fun mset_loop :: "MemDb \<Rightarrow> (string \<times> slice) list \<Rightarrow> MemDb option" where
  "mset_loop m [] = Some m"
| "mset_loop m ((k, v) # kvs) = do { (m, _) \<leftarrow> DelTTL m k; mset_loop (db_put m k (VBytes v)) kvs }"

definition mSetString :: handler where
  "mSetString e m cmd = do {
     a0 \<leftarrow> arg cmd 0;
     if lower e a0 \<noteq> ''mset'' then reply m server_error
     else if length cmd < 3 \<or> even (length cmd) then reply m invalid
     else do { m \<leftarrow> mset_loop m (pairs (drop 1 cmd)); reply m (StringData ''OK'') } }"

definition setExString :: handler where
  "setExString e m cmd = do {
     a0 \<leftarrow> arg cmd 0;
     if lower e a0 \<noteq> ''setex'' then reply m server_error
     else if length cmd \<noteq> 4 then reply m invalid
     else do {
       a2 \<leftarrow> arg cmd 2;
       case ParseInt a2 of None \<Rightarrow> reply m (ErrorData (''error: '' @ a2 @ '' is not a integer''))
       | Some exv \<Rightarrow> do {
           key \<leftarrow> arg cmd 1;
           val \<leftarrow> nth_opt cmd 3;
           (m, _) \<leftarrow> SetTTL (db_put m key (VBytes val)) key (wrap64 (now e + exv));
           reply m (StringData ''OK'') } } }"

definition setNxString :: handler where
  "setNxString e m cmd = do {
     a0 \<leftarrow> arg cmd 0;
     if lower e a0 \<noteq> ''setnx'' then reply m server_error
     else if length cmd \<noteq> 3 then reply m invalid
     else do {
       key \<leftarrow> arg cmd 1;
       val \<leftarrow> nth_opt cmd 2;
       let r = cm_SetIfNotExist (db m) key (VBytes val);
       reply (m\<lparr>db := fst r\<rparr>) (IntData (snd r)) } }"

definition strLenString :: handler where
  "strLenString e m cmd = do {
     a0 \<leftarrow> arg cmd 0;
     if lower e a0 \<noteq> ''strlen'' then reply m server_error
     else if length cmd \<noteq> 2 then reply m invalid
     else do {
       key \<leftarrow> arg cmd 1;
       case cm_Get (db m) key of None \<Rightarrow> reply m (IntData 0)
       | Some v \<Rightarrow> (case v of VBytes b \<Rightarrow> reply m (IntData (int (length (str b)))) | _ \<Rightarrow> reply m WRONGTYPE) } }"

text \<open>
  The end of the four integer counters: \<open>miss\<close> is stored when the key does not exist, and
  \<open>delta\<close> is added to the number it holds, modulo \<open>2 ^ 64\<close>.
\<close>

definition add_to :: "MemDb \<Rightarrow> string \<Rightarrow> int \<Rightarrow> int \<Rightarrow> result" where
  "add_to m key miss delta =
     (case cm_Get (db m) key of
        None \<Rightarrow> reply (db_put m key (VBytes (Some (FormatInt miss)))) (IntData miss)
      | Some v \<Rightarrow> (case v of
          VBytes b \<Rightarrow> (case ParseInt (str b) of None \<Rightarrow> reply m (ErrorData ''value is not an integer'')
            | Some i \<Rightarrow> let i = wrap64 (i + delta)
                        in reply (db_put m key (VBytes (Some (FormatInt i)))) (IntData i))
        | _ \<Rightarrow> reply m WRONGTYPE))"

definition incrString :: handler where
  "incrString e m cmd = do {
     a0 \<leftarrow> arg cmd 0;
     if lower e a0 \<noteq> ''incr'' then reply m server_error
     else if length cmd \<noteq> 2 then reply m invalid
     else do { key \<leftarrow> arg cmd 1; add_to m key 1 1 } }"

definition incrByString :: handler where
  "incrByString e m cmd = do {
     a0 \<leftarrow> arg cmd 0;
     if lower e a0 \<noteq> ''incrby'' then reply m server_error
     else if length cmd \<noteq> 3 then reply m invalid
     else do {
       key \<leftarrow> arg cmd 1;
       a2 \<leftarrow> arg cmd 2;
       case ParseInt a2 of None \<Rightarrow> reply m (ErrorData ''commands invalid: increment value is not an integer'')
       | Some inc \<Rightarrow> add_to m key inc inc } }"

definition decrString :: handler where
  "decrString e m cmd = do {
     a0 \<leftarrow> arg cmd 0;
     if lower e a0 \<noteq> ''decr'' then reply m server_error
     else if length cmd \<noteq> 2 then reply m invalid
     else do { key \<leftarrow> arg cmd 1; add_to m key (- 1) (- 1) } }"

definition decrByString :: handler where
  "decrByString e m cmd = do {
     a0 \<leftarrow> arg cmd 0;
     if lower e a0 \<noteq> ''decrby'' then reply m server_error
     else if length cmd \<noteq> 3 then reply m invalid
     else do {
       key \<leftarrow> arg cmd 1;
       a2 \<leftarrow> arg cmd 2;
       case ParseInt a2 of None \<Rightarrow> reply m (ErrorData ''commands invalid: increment value is not an integer'')
       | Some dec \<Rightarrow> add_to m key (wrap64 (- dec)) (- dec) } }"

definition incrByFloatString :: handler where
  "incrByFloatString e m cmd = do {
     a0 \<leftarrow> arg cmd 0;
     if lower e a0 \<noteq> ''incrbyfloat'' then reply m server_error
     else if length cmd \<noteq> 3 then reply m invalid
     else do {
       key \<leftarrow> arg cmd 1;
       a2 \<leftarrow> arg cmd 2;
       case f_parse e a2 of None \<Rightarrow> reply m (ErrorData ''commands invalid: increment value is not an float'')
       | Some inc \<Rightarrow>
           (case cm_Get (db m) key of
              None \<Rightarrow> reply (db_put m key (VBytes (Some (f_fmt e inc)))) (BulkData (Some (f_fmt e inc)))
            | Some v \<Rightarrow> (case v of
                VBytes b \<Rightarrow> (case f_parse e (str b) of None \<Rightarrow> reply m (ErrorData ''value is not an float'')
                  | Some x \<Rightarrow> let x = f_add e x inc
                              in reply (db_put m key (VBytes (Some (f_fmt e x)))) (BulkData (Some (f_fmt e x))))
              | _ \<Rightarrow> reply m WRONGTYPE)) } }"

definition appendString :: handler where
  "appendString e m cmd = do {
     a0 \<leftarrow> arg cmd 0;
     if lower e a0 \<noteq> ''append'' then reply m server_error
     else if length cmd \<noteq> 3 then reply m invalid
     else do {
       key \<leftarrow> arg cmd 1;
       val \<leftarrow> nth_opt cmd 2;
       case cm_Get (db m) key of None \<Rightarrow> reply (db_put m key (VBytes val)) (IntData (int (length (str val))))
       | Some v \<Rightarrow> (case v of
           VBytes b \<Rightarrow> let newVal = slice_append b (str val)
                       in reply (db_put m key (VBytes newVal)) (IntData (int (length (str newVal))))
         | _ \<Rightarrow> reply m WRONGTYPE) } }"

section \<open>The invariant\<close>

lemma mset_loop_keeps: "mset_loop m kvs = Some m' \<Longrightarrow> db_ok m \<Longrightarrow> db_ok m'"
proof (induction kvs arbitrary: m)
  case (Cons kv kvs)
  obtain k v where kv: "kv = (k, v)" by (cases kv)
  from Cons.prems obtain m1 n where "DelTTL m k = Some (m1, n)" "mset_loop (db_put m1 k (VBytes v)) kvs = Some m'"
    by (auto simp: kv split: bind_splits)
  then show ?case using Cons.IH [of "db_put m1 k (VBytes v)"] DelTTL_keeps Cons.prems(2) db_ok_put by simp
qed simp

lemma bytes_ok: "value_ok (VBytes b)"
  by simp

lemmas string_states = DelTTL_keeps SetTTL_keeps mset_loop_keeps db_ok_put db_ok_SetIfNotExist bytes_ok

lemma set_ttls_keeps: "set_ttls e m k f = Some m' \<Longrightarrow> db_ok m \<Longrightarrow> db_ok m'"
  unfolding set_ttls_def by (auto split: if_splits bind_splits) (metis SetTTL_keeps DelTTL_keeps)+

lemma set_with_keeps: "db_ok m \<Longrightarrow> keeps (set_with e m k v f)"
  unfolding set_with_def
  by (intro keeps_rules) (auto split: if_splits intro: set_ttls_keeps)

lemma setString_keeps: "db_ok m \<Longrightarrow> keeps (setString e m cmd)"
  unfolding setString_def by (intro keeps_rules set_with_keeps) assumption+

lemma getString_keeps: "db_ok m \<Longrightarrow> keeps (getString e m cmd)"
  unfolding getString_def by (intro keeps_rules) (blast intro: string_states)+

lemma getRangeString_keeps: "db_ok m \<Longrightarrow> keeps (getRangeString e m cmd)"
  unfolding getRangeString_def by (intro keeps_rules) (blast intro: string_states)+

lemma setRangeString_keeps: "db_ok m \<Longrightarrow> keeps (setRangeString e m cmd)"
  unfolding setRangeString_def by (intro keeps_rules) (blast intro: string_states)+

lemma mGetString_keeps: "db_ok m \<Longrightarrow> keeps (mGetString e m cmd)"
  unfolding mGetString_def by (intro keeps_rules) (blast intro: string_states)+

lemma mSetString_keeps: "db_ok m \<Longrightarrow> keeps (mSetString e m cmd)"
  unfolding mSetString_def by (intro keeps_rules) (blast intro: string_states)+

lemma setExString_keeps: "db_ok m \<Longrightarrow> keeps (setExString e m cmd)"
  unfolding setExString_def by (intro keeps_rules) (blast intro: string_states)+

lemma setNxString_keeps: "db_ok m \<Longrightarrow> keeps (setNxString e m cmd)"
  unfolding setNxString_def by (intro keeps_rules) (blast intro: string_states)+

lemma strLenString_keeps: "db_ok m \<Longrightarrow> keeps (strLenString e m cmd)"
  unfolding strLenString_def by (intro keeps_rules) (blast intro: string_states)+

lemma add_to_keeps: "db_ok m \<Longrightarrow> keeps (add_to m k a b)"
  unfolding add_to_def by (intro keeps_rules) (blast intro: string_states)+

lemma incr_family_keeps:
  assumes "db_ok m"
  shows "keeps (incrString e m cmd)" "keeps (incrByString e m cmd)" "keeps (decrString e m cmd)" "keeps (decrByString e m cmd)"
  unfolding incrString_def incrByString_def decrString_def decrByString_def
  by (intro keeps_rules add_to_keeps assms)+

lemma incrByFloatString_keeps: "db_ok m \<Longrightarrow> keeps (incrByFloatString e m cmd)"
  unfolding incrByFloatString_def by (intro keeps_rules) (blast intro: string_states)+

lemma appendString_keeps: "db_ok m \<Longrightarrow> keeps (appendString e m cmd)"
  unfolding appendString_def by (intro keeps_rules) (blast intro: string_states)+

section \<open>What the string commands do\<close>

text \<open>The expiry time that SET leaves on a key that exists afterwards.\<close>

definition set_expiry :: "env \<Rightarrow> set_opts \<Rightarrow> int option \<Rightarrow> int option" where
  "set_expiry e f old =
     (if exat f then Some (exatval f)
      else if px f then Some (wrap64 (now e + go_div (millisecPx f) 1000))
      else if ex f then Some (wrap64 (now e + exval f))
      else if keepttl f then old else None)"

definition conflicting :: "set_opts \<Rightarrow> bool" where
  "conflicting f \<longleftrightarrow> (nx f \<and> xx f) \<or> (ex f \<and> keepttl f) \<or> (ex f \<and> px f) \<or> (ex f \<and> exat f) \<or> (px f \<and> exat f)"

text \<open>One optional change of the expiry time of a key.\<close>

lemma opt_SetTTL:
  assumes "db_ok m"
  obtains m' where "(if b then map_option fst (SetTTL m k v) else Some m) = Some m'" and "db_ok m'" and "db m' = db m"
    and "expiry m' = (if b \<and> cm_Get (db m) k \<noteq> None then (expiry m)(k \<mapsto> v) else expiry m)"
proof (cases b)
  case True
  obtain m' n where "SetTTL m k v = Some (m', n)" "db_ok m'" "db m' = db m"
      "expiry m' = (if cm_Get (db m) k = None then expiry m else (expiry m)(k \<mapsto> v))"
    by (rule SetTTL_expiry [OF assms])
  then show ?thesis using that [of m'] True by simp
next
  case False
  then show ?thesis using that [of m] assms by simp
qed

lemma opt_DelTTL:
  assumes "db_ok m"
  obtains m' where "(if \<not> b then map_option fst (DelTTL m k) else Some m) = Some m'" and "db_ok m'" and "db m' = db m"
    and "expiry m' = (if b then expiry m else (expiry m)(k := None))"
proof (cases b)
  case True
  then show ?thesis using that [of m] assms by simp
next
  case False
  obtain m' n where "DelTTL m k = Some (m', n)" "db_ok m'" "db m' = db m" "expiry m' = (expiry m)(k := None)"
    by (rule DelTTL_expiry [OF assms])
  then show ?thesis using that [of m'] False by simp
qed

lemma set_ttls_expiry:
  assumes "db_ok m"
  obtains m' where "set_ttls e m k f = Some m'" and "db m' = db m" and "db_ok m'"
    and "expiry m' = (expiry m)(k := if cm_Get (db m) k = None then None else set_expiry e f (expiry m k))"
proof -
  obtain m1 where m1: "(if \<not> keepttl f then map_option fst (DelTTL m k) else Some m) = Some m1" "db_ok m1" "db m1 = db m"
      "expiry m1 = (if keepttl f then expiry m else (expiry m)(k := None))"
    by (rule opt_DelTTL [OF assms])
  obtain m2 where m2: "(if ex f then map_option fst (SetTTL m1 k (wrap64 (now e + exval f))) else Some m1) = Some m2"
      "db_ok m2" "db m2 = db m1"
      "expiry m2 = (if ex f \<and> cm_Get (db m1) k \<noteq> None then (expiry m1)(k \<mapsto> wrap64 (now e + exval f)) else expiry m1)"
    by (rule opt_SetTTL [OF m1(2)])
  obtain m3 where m3: "(if px f then map_option fst (SetTTL m2 k (wrap64 (now e + go_div (millisecPx f) 1000))) else Some m2) = Some m3"
      "db_ok m3" "db m3 = db m2" "expiry m3 = (if px f \<and> cm_Get (db m2) k \<noteq> None
         then (expiry m2)(k \<mapsto> wrap64 (now e + go_div (millisecPx f) 1000)) else expiry m2)"
    by (rule opt_SetTTL [OF m2(2)])
  obtain m4 where m4: "(if exat f then map_option fst (SetTTL m3 k (exatval f)) else Some m3) = Some m4"
      "db_ok m4" "db m4 = db m3"
      "expiry m4 = (if exat f \<and> cm_Get (db m3) k \<noteq> None then (expiry m3)(k \<mapsto> exatval f) else expiry m3)"
    by (rule opt_SetTTL [OF m3(2)])
  show ?thesis
  proof (rule that [of m4])
    show "expiry m4 = (expiry m)(k := if cm_Get (db m) k = None then None else set_expiry e f (expiry m k))"
      using expiry_absent [OF assms, of k] by (auto simp: m1(3,4) m2(3,4) m3(3,4) m4(4) set_expiry_def fun_eq_iff)
  qed (simp_all only: set_ttls_def m1 m2 m3 m4 bind.bind_lunit)
qed



lemma wrap64_mod: "wrap64 i mod 2 ^ 64 = i mod 2 ^ 64"
  using mod_diff_left_eq [of "i + 2 ^ 63" "2 ^ 64" "2 ^ 63"] by (simp add: wrap64_def)

lemma wrap64_add_cancel:
  assumes "in64 i"
  shows "wrap64 (wrap64 (i + n) - n) = i"
proof -
  have "(wrap64 (i + n) - n) mod 2 ^ 64 = (i + n - n) mod 2 ^ 64" by (rule mod_diff_cong [OF wrap64_mod refl])
  then have "(wrap64 (i + n) - n) mod 2 ^ 64 = i mod 2 ^ 64" by (simp only: add_diff_cancel_right')
  then have "(wrap64 (i + n) - n + 2 ^ 63) mod 2 ^ 64 = (i + 2 ^ 63) mod 2 ^ 64" by (rule mod_add_cong [OF _ refl])
  then have "wrap64 (wrap64 (i + n) - n) = wrap64 i" unfolding wrap64_def [of "wrap64 (i + n) - n"] wrap64_def [of i] by (rule arg_cong)
  with assms show ?thesis by simp
qed

text \<open>
  C34. Counters: on a key that holds a number, INCRBY replies with the sum modulo \<open>2 ^ 64\<close> as a
  signed number and stores it in decimal, and DECRBY by the same amount brings the key back to
  exactly the value it had, also when the sum overflows.
\<close>

theorem incrby_decrby:
  assumes "db_ok m" and "cm_Get (db m) k = Some (VBytes (Some (FormatInt i)))" and "in64 i" and "in64 n"
    and "lower e c = ''incrby''" and "lower e c' = ''decrby''"
  shows "\<exists>m1 m2. incrByString e m [Some c, Some k, Some (FormatInt n)] = reply m1 (IntData (wrap64 (i + n)))
    \<and> cm_Get (db m1) = (cm_Get (db m))(k \<mapsto> VBytes (Some (FormatInt (wrap64 (i + n)))))
    \<and> decrByString e m1 [Some c', Some k, Some (FormatInt n)] = reply m2 (IntData i) \<and> cm_Get (db m2) = cm_Get (db m)"
proof -
  let ?m1 = "db_put m k (VBytes (Some (FormatInt (wrap64 (i + n)))))"
  let ?m2 = "db_put ?m1 k (VBytes (Some (FormatInt i)))"
  note d = db_okD(1) [OF assms(1)]
  have "incrByString e m [Some c, Some k, Some (FormatInt n)] = reply ?m1 (IntData (wrap64 (i + n)))"
    using assms by (simp add: incrByString_def add_to_def Let_def)
  moreover have "decrByString e ?m1 [Some c', Some k, Some (FormatInt n)] = reply ?m2 (IntData i)"
    using assms d wrap64_add_cancel [OF assms(3), of n] by (simp add: decrByString_def add_to_def Let_def)
  moreover have "cm_Get (db ?m2) = cm_Get (db m)" using d assms(2) by (simp add: fun_upd_idem)
  ultimately show ?thesis using d by (intro exI [of _ ?m1] exI [of _ ?m2]) simp
qed

theorem incrby_decrby_witness:
  "\<exists>m1 m2. incrByString (env_at 0) (db_put (NewMemDb 1) ''n'' (VBytes (Some (FormatInt MaxInt64)))) [Some ''incrby'', Some ''n'', Some (FormatInt 1)]
       = reply m1 (IntData MinInt64)
     \<and> decrByString (env_at 0) m1 [Some ''DECRBY'', Some ''n'', Some (FormatInt 1)] = reply m2 (IntData MaxInt64)"
proof -
  let ?m = "db_put (NewMemDb 1) ''n'' (VBytes (Some (FormatInt MaxInt64)))"
  have ok: "db_ok ?m" by (intro db_ok_put) simp_all
  have k: "cm_Get (db ?m) ''n'' = Some (VBytes (Some (FormatInt MaxInt64)))" by (simp add: NewMemDb_def)
  have "wrap64 (MaxInt64 + 1) = MinInt64" by (simp add: wrap64_def)
  then show ?thesis using incrby_decrby [OF ok k, of 1 "env_at 0" "''incrby''" "''DECRBY''"]
    by (simp add: in64_def ToLower_eval) blast
qed

text \<open>
  GETRANGE with two positions inside the value, each counted from the front or from the back,
  replies with exactly the bytes between them. When the last position lies behind the end of a
  value without spare capacity, the slice is out of range and the server panics; it is not
  clamped to the end.
\<close>

theorem getrange_bounds:
  assumes "cm_Get (db m) k = Some (VBytes (Some b))" and "lower e c = ''getrange''" and "spare e k = []"
    and "p \<le> q" and "q < length b" and "int (length b) \<le> r" and "r < MaxInt64"
    and "i = int p \<or> i = int p - int (length b)" and "j = int q \<or> j = int q - int (length b)"
  shows "getRangeString e m [Some c, Some k, Some (FormatInt i), Some (FormatInt j)] =
      reply m (BulkData (Some (take (Suc q - p) (drop p b))))
    \<and> getRangeString e m [Some c, Some k, Some (FormatInt i), Some (FormatInt r)] = None"
proof -
  let ?n = "int (length b)"
  have in64: "in64 i" "in64 j" "in64 r" "in64 (int q + 1)" "in64 (r + 1)" using assms(4-9) by (auto simp: in64_def)
  have pos: "(if i < 0 then ?n + i else i) = int p" "(if j < 0 then ?n + j else j) = int q" "(if r < 0 then ?n + r else r) = r"
    using assms(4-9) by auto
  have "nat (int q + 1 - int p) = Suc q - p" using assms(4) by (simp add: nat_diff_distrib')
  then show ?thesis using assms(1-7) in64 by (simp add: getRangeString_def sub_slice_def Let_def pos)
qed

theorem getrange_bounds_witness:
  "getRangeString (env_at 0) (db_put (NewMemDb 1) ''k'' (VBytes (Some ''hello''))) [Some ''getrange'', Some ''k'', Some (FormatInt 1), Some (FormatInt (- 2))] =
     reply (db_put (NewMemDb 1) ''k'' (VBytes (Some ''hello''))) (BulkData (Some ''ell''))
   \<and> getRangeString (env_at 0) (db_put (NewMemDb 1) ''k'' (VBytes (Some ''hello''))) [Some ''getrange'', Some ''k'', Some (FormatInt 1), Some (FormatInt 100)] = None"
  using getrange_bounds [of "db_put (NewMemDb 1) ''k'' (VBytes (Some ''hello''))" "''k''" "''hello''" "env_at 0" "''getrange''" 1 3 100 1 "- 2"]
  by (simp add: NewMemDb_def ToLower_eval)

lemma mset_loop_correct:
  "db_ok m \<Longrightarrow> \<exists>m'. mset_loop m kvs = Some m' \<and> db_ok m'
     \<and> cm_Get (db m') = cm_Get (db m) ++ map_of (rev (map (\<lambda>(k, v). (k, VBytes v)) kvs))
     \<and> expiry m' = (\<lambda>k. if k \<in> fst ` set kvs then None else expiry m k)"
proof (induction kvs arbitrary: m)
  case (Cons kv kvs)
  obtain k v where kv: "kv = (k, v)" by (cases kv)
  obtain m1 n where m1: "DelTTL m k = Some (m1, n)" "db_ok m1" "db m1 = db m" "expiry m1 = (expiry m)(k := None)"
    by (rule DelTTL_expiry [OF Cons.prems])
  let ?m = "db_put m1 k (VBytes v)"
  have ok: "db_ok ?m" using db_ok_put [OF m1(2)] by simp
  have g: "cm_Get (db ?m) = (cm_Get (db m))(k \<mapsto> VBytes v)" using m1(3) db_okD(1) [OF m1(2)] by simp
  have x: "expiry ?m = (expiry m)(k := None)" using m1(4) by simp
  from Cons.IH [OF ok] obtain m' where "mset_loop ?m kvs = Some m'" "db_ok m'"
      "cm_Get (db m') = cm_Get (db ?m) ++ map_of (rev (map (\<lambda>(k, v). (k, VBytes v)) kvs))"
      "expiry m' = (\<lambda>k. if k \<in> fst ` set kvs then None else expiry ?m k)" by blast
  then show ?case unfolding g x using m1(1) by (intro exI [of _ m']) (auto simp: kv map_add_def fun_eq_iff split: option.split)
qed simp

lemma pairs_concat: "pairs (concat (map (\<lambda>(k, v). [Some k, v]) kvs)) = kvs"
  by (induction kvs) (auto split: prod.split)

text \<open>
  C35. MSET of any number of pairs with different keys stores all of them, removes their expiry
  times and touches no other key, and MGET of these keys returns the values in order.
\<close>

theorem mset_mget:
  assumes "db_ok m" and "kvs \<noteq> []" and "distinct (map fst kvs)" and "lower e c = ''mset''" and "lower e c' = ''mget''"
  shows "\<exists>m'. mSetString e m (Some c # concat (map (\<lambda>(k, v). [Some k, v]) kvs)) = reply m' (StringData ''OK'')
    \<and> mGetString e m' (Some c' # map (\<lambda>(k, v). Some k) kvs) = reply m' (MakeArrayData (map (\<lambda>(k, v). BulkData v) kvs))
    \<and> (\<forall>k. k \<notin> fst ` set kvs \<longrightarrow> cm_Get (db m') k = cm_Get (db m) k \<and> expiry m' k = expiry m k)
    \<and> (\<forall>k \<in> fst ` set kvs. expiry m' k = None)"
proof -
  let ?args = "concat (map (\<lambda>(k, v). [Some k, v]) kvs)"
  obtain m' where m': "mset_loop m kvs = Some m'"
      "cm_Get (db m') = cm_Get (db m) ++ map_of (rev (map (\<lambda>(k, v). (k, VBytes v)) kvs))"
      "expiry m' = (\<lambda>k. if k \<in> fst ` set kvs then None else expiry m k)"
    using mset_loop_correct [OF assms(1)] by blast
  have len: "length ?args = 2 * length kvs" by (induction kvs) auto
  then have "2 \<le> length ?args" using assms(2) by (cases kvs) auto
  then have "mSetString e m (Some c # ?args) = reply m' (StringData ''OK'')"
    using assms(2,4) len m'(1) by (simp add: mSetString_def pairs_concat)
  moreover have "mGetString e m' (Some c' # map (\<lambda>(k, v). Some k) kvs) = reply m' (MakeArrayData (map (\<lambda>(k, v). BulkData v) kvs))"
  proof -
    have d: "distinct (map fst (map (\<lambda>(k, v). (k, VBytes v)) kvs))" using assms(3) by (simp add: comp_def case_prod_beta)
    have "cm_Get (db m') k = Some (VBytes v)" if "(k, v) \<in> set kvs" for k v
      using that d unfolding m'(2) by (intro map_add_find_right map_of_is_SomeI) (force simp: rev_map [symmetric])+
    then have "map (\<lambda>k. case cm_Get (db m') (str k) of Some (VBytes b) \<Rightarrow> BulkData b | _ \<Rightarrow> BulkData None)
        (map (\<lambda>(k, v). Some k) kvs) = map (\<lambda>(k, v). BulkData v) kvs" by auto
    then show ?thesis using assms(2,5) by (simp add: mGetString_def Suc_le_eq)
  qed
  moreover have "cm_Get (db m') k = cm_Get (db m) k" if "k \<notin> fst ` set kvs" for k
    using that unfolding m'(2) by (force simp: map_add_def map_of_eq_None_iff split: option.split dest: map_of_SomeD)
  ultimately show ?thesis using m'(3) by (intro exI [of _ m']) auto
qed

theorem mset_mget_witness:
  "\<exists>m'. mSetString (env_at 0) (NewMemDb 1) [Some ''MSET'', Some ''a'', Some ''1'', Some ''b'', None] = reply m' (StringData ''OK'')
     \<and> mGetString (env_at 0) m' [Some ''mget'', Some ''a'', Some ''b''] = reply m' (MakeArrayData [BulkData (Some ''1''), BulkData None])"
  using mset_mget [of "NewMemDb 1" "[(''a'', Some ''1''), (''b'', None)]" "env_at 0" "''MSET''" "''mget''"]
  by (auto simp: ToLower_eval)

end
