(* ===== verification/Set_Cmd.thy ===== *)
theory Set_Cmd
  imports Memdb
begin

text \<open>
  The set commands of \<open>src/memdb/sets.go\<close>. A handler that changes a set in place is modelled
  by storing the changed set back under its key.
\<close>

section \<open>Shared loops\<close>

text \<open>\<open>CheckTTL\<close> on every key; the second loop keeps the keys that have not expired.\<close>

fun check_all :: "env \<Rightarrow> MemDb \<Rightarrow> string list \<Rightarrow> MemDb" where
  "check_all e m [] = m"
| "check_all e m (key # ks) = check_all e (fst (CheckTTL e m key)) ks"

fun live_keys :: "env \<Rightarrow> MemDb \<Rightarrow> string list \<Rightarrow> MemDb \<times> string list" where
  "live_keys e m [] = (m, [])"
| "live_keys e m (key # ks) =
     (let (m, ok) = CheckTTL e m key; (m, live) = live_keys e m ks
      in (m, if ok then key # live else live))"

text \<open>The sets under the keys that exist; \<open>None\<close> when one of them holds another type.\<close>

fun collect_sets :: "MemDb \<Rightarrow> string list \<Rightarrow> GoSet list option" where
  "collect_sets m [] = Some []"
| "collect_sets m (key # ks) =
     (case cm_Get (db m) key of None \<Rightarrow> collect_sets m ks
      | Some v \<Rightarrow> (case v of VSet s \<Rightarrow> map_option ((#) s) (collect_sets m ks) | _ \<Rightarrow> None))"

text \<open>The index of the first shortest set.\<close>

fun shortest :: "nat \<Rightarrow> nat \<Rightarrow> int \<Rightarrow> GoSet list \<Rightarrow> nat" where
  "shortest i shortestSet shortestLen [] = shortestSet"
| "shortest i shortestSet shortestLen (s # sets) =
     (if set_Len s < shortestLen then shortest (i + 1) i (set_Len s) sets
      else shortest (i + 1) shortestSet shortestLen sets)"

definition inter_all :: "env \<Rightarrow> GoSet list \<Rightarrow> GoSet option" where
  "inter_all e sets = do {
     let i = shortest 0 0 MaxInt64 sets;
     primSet \<leftarrow> nth_opt sets i;
     Some (set_Intersect e primSet (take i sets @ drop (i + 1) sets)) }"

definition holds_other :: "MemDb \<Rightarrow> string \<Rightarrow> bool" where
  "holds_other m key = (case cm_Get (db m) key of None \<Rightarrow> False | Some v \<Rightarrow> (case v of VSet _ \<Rightarrow> False | _ \<Rightarrow> True))"

text \<open>The end of the STORE variants: an empty result is not stored.\<close>

definition store_set :: "env \<Rightarrow> MemDb \<Rightarrow> string \<Rightarrow> GoSet \<Rightarrow> result" where
  "store_set e m desKey s =
     (let m = fst (CheckTTL e m desKey) in
      if holds_other m desKey then reply m WRONGTYPE
      else reply (if set_Len s \<noteq> 0 then db_put m desKey (VSet s) else m) (IntData (set_Len s)))"

abbreviation bulks :: "string list \<Rightarrow> RedisData" where
  "bulks xs \<equiv> MakeArrayData (map (\<lambda>x. BulkData (Some x)) xs)"

abbreviation set_server_error :: RedisData where "set_server_error \<equiv> ErrorData ''server error''"

definition wrong_args :: "string \<Rightarrow> RedisData" where
  "wrong_args name = ErrorData (''wrong number of arguments for '' @ [CHR 0x27] @ name @ [CHR 0x27] @ '' command'')"

section \<open>Handlers\<close>

fun add_loop :: "GoSet \<Rightarrow> string list \<Rightarrow> int \<Rightarrow> GoSet \<times> int" where
  "add_loop s [] res = (s, res)"
| "add_loop s (x # xs) res = (let (s, n) = set_Add s x in add_loop s xs (res + n))"

fun rem_loop :: "GoSet \<Rightarrow> string list \<Rightarrow> int \<Rightarrow> GoSet \<times> int" where
  "rem_loop s [] res = (s, res)"
| "rem_loop s (x # xs) res = (let (s, n) = set_Remove s x in rem_loop s xs (res + n))"

definition get_or_new :: "MemDb \<Rightarrow> string \<Rightarrow> MemDb \<times> dbvalue" where
  "get_or_new m key =
     (case cm_Get (db m) key of None \<Rightarrow> (db_put m key (VSet NewSet), VSet NewSet) | Some v \<Rightarrow> (m, v))"

definition sAddSet :: handler where
  "sAddSet e m cmd =
     (if length cmd < 3 then reply m (wrong_args ''sadd'')
      else do {
        key \<leftarrow> arg cmd 1;
        let m = fst (CheckTTL e m key);
        let (m, tem) = get_or_new m key;
        case tem of
          VSet sets \<Rightarrow> let (sets, res) = add_loop sets (map str (drop 2 cmd)) 0
                       in reply (db_put m key (VSet sets)) (IntData res)
        | _ \<Rightarrow> reply m WRONGTYPE })"

definition sCardSet :: handler where
  "sCardSet e m cmd = do {
     a0 \<leftarrow> arg cmd 0;
     if lower e a0 \<noteq> ''scard'' then reply m set_server_error
     else if length cmd \<noteq> 2 then reply m (wrong_args ''scard'')
     else do {
       key \<leftarrow> arg cmd 1;
       let (m, ok) = CheckTTL e m key;
       if \<not> ok then reply m (IntData 0)
       else case cm_Get (db m) key of None \<Rightarrow> reply m (IntData 0)
         | Some v \<Rightarrow> (case v of VSet sets \<Rightarrow> reply m (IntData (set_Len sets)) | _ \<Rightarrow> reply m WRONGTYPE) } }"

definition sDiffSet :: handler where
  "sDiffSet e m cmd = do {
     a0 \<leftarrow> arg cmd 0;
     if lower e a0 \<noteq> ''sdiff'' then reply m set_server_error
     else if length cmd < 2 then reply m (wrong_args ''sdiff'')
     else do {
       let ks = map str (drop 1 cmd);
       let m = check_all e m ks;
       key0 \<leftarrow> nth_opt ks 0;
       case cm_Get (db m) key0 of None \<Rightarrow> reply m MakeEmptyArrayData
       | Some v \<Rightarrow> (case v of
           VSet primSet \<Rightarrow>
             if length ks = 1 then reply m (bulks (set_Members e primSet))
             else (case collect_sets m (drop 1 ks) of None \<Rightarrow> reply m WRONGTYPE
               | Some setSlice \<Rightarrow> reply m (bulks (set_Members e (set_Difference e primSet setSlice))))
         | _ \<Rightarrow> reply m WRONGTYPE) } }"

definition sDiffStoreSet :: handler where
  "sDiffStoreSet e m cmd = do {
     a0 \<leftarrow> arg cmd 0;
     if lower e a0 \<noteq> ''sdiffstore'' then reply m set_server_error
     else if length cmd < 3 then reply m (wrong_args ''sdiffstore'')
     else do {
       desKey \<leftarrow> arg cmd 1;
       let m = fst (CheckTTL e m desKey);
       if holds_other m desKey then reply m WRONGTYPE
       else do {
         let (m, ks) = live_keys e m (map str (drop 2 cmd));
         if ks = [] then reply m (IntData 0)
         else do {
           key0 \<leftarrow> nth_opt ks 0;
           case cm_Get (db m) key0 of None \<Rightarrow> store_set e m desKey NewSet
           | Some v \<Rightarrow> (case v of
               VSet primSet \<Rightarrow> (case collect_sets m (drop 1 ks) of None \<Rightarrow> reply m WRONGTYPE
                 | Some setSlice \<Rightarrow> store_set e m desKey (set_Difference e primSet setSlice))
             | _ \<Rightarrow> reply m WRONGTYPE) } } } }"

definition sInterSet :: handler where
  "sInterSet e m cmd = do {
     a0 \<leftarrow> arg cmd 0;
     if lower e a0 \<noteq> ''sinter'' then reply m set_server_error
     else if length cmd < 2 then reply m (wrong_args ''sinter'')
     else do {
       let ks = map str (drop 1 cmd);
       let m = check_all e m ks;
       case collect_sets m ks of None \<Rightarrow> reply m WRONGTYPE
       | Some sets \<Rightarrow> do { interSet \<leftarrow> inter_all e sets; reply m (bulks (set_Members e interSet)) } } }"

definition sInterStoreSet :: handler where
  "sInterStoreSet e m cmd = do {
     a0 \<leftarrow> arg cmd 0;
     if lower e a0 \<noteq> ''sinterstore'' then reply m set_server_error
     else if length cmd < 3 then reply m (wrong_args ''sinterstore'')
     else do {
       desKey \<leftarrow> arg cmd 1;
       let m = fst (CheckTTL e m desKey);
       if holds_other m desKey then reply m WRONGTYPE
       else do {
         let (m, ks) = live_keys e m (map str (drop 2 cmd));
         if ks = [] then reply m (IntData 0)
         else (case collect_sets m ks of None \<Rightarrow> reply m WRONGTYPE
           | Some sets \<Rightarrow> do { interSet \<leftarrow> inter_all e sets; store_set e m desKey interSet }) } } }"

definition sIsMemberSet :: handler where
  "sIsMemberSet e m cmd = do {
     a0 \<leftarrow> arg cmd 0;
     if lower e a0 \<noteq> ''sismember'' then reply m set_server_error
     else if length cmd \<noteq> 3 then reply m (wrong_args ''sismember'')
     else do {
       key \<leftarrow> arg cmd 1;
       val \<leftarrow> arg cmd 2;
       let (m, ok) = CheckTTL e m key;
       if \<not> ok then reply m (IntData 0)
       else case cm_Get (db m) key of None \<Rightarrow> reply m (IntData 0)
         | Some v \<Rightarrow> (case v of VSet s \<Rightarrow> reply m (IntData (if set_Has s val then 1 else 0)) | _ \<Rightarrow> reply m WRONGTYPE) } }"

definition sMembersSet :: handler where
  "sMembersSet e m cmd =
     (if length cmd \<noteq> 2 then reply m (wrong_args ''smembers'')
      else do {
        key \<leftarrow> arg cmd 1;
        let (m, ok) = CheckTTL e m key;
        if \<not> ok then reply m MakeEmptyArrayData
        else case cm_Get (db m) key of None \<Rightarrow> reply m MakeEmptyArrayData
          | Some v \<Rightarrow> (case v of VSet s \<Rightarrow> reply m (MakeArrayData (map StringData (set_Members e s))) | _ \<Rightarrow> reply m WRONGTYPE) })"

definition set_at :: "MemDb \<Rightarrow> string \<Rightarrow> GoSet" where
  "set_at m key = (case cm_Get (db m) key of None \<Rightarrow> NewSet | Some v \<Rightarrow> (case v of VSet s \<Rightarrow> s | _ \<Rightarrow> NewSet))"

text \<open>The two sets of SMOVE are the same object when the two keys are equal.\<close>

definition sMoveSet :: handler where
  "sMoveSet e m cmd =
     (if length cmd \<noteq> 4 then reply m (wrong_args ''smove'')
      else do {
        srcKey \<leftarrow> arg cmd 1;
        desKey \<leftarrow> arg cmd 2;
        val \<leftarrow> arg cmd 3;
        let m = fst (CheckTTL e m desKey);
        let (m, ok) = CheckTTL e m srcKey;
        if \<not> ok then reply m (IntData 0)
        else case cm_Get (db m) srcKey of None \<Rightarrow> reply m (IntData 0)
          | Some v \<Rightarrow> (case v of
              VSet srcSet \<Rightarrow>
                if holds_other m desKey then reply m WRONGTYPE
                else
                  let (srcSet, res) = set_Remove srcSet val in
                  if res = 0 then reply m (IntData 0)
                  else
                    let m = db_put m srcKey (VSet srcSet);
                        desSet = fst (set_Add (set_at m desKey) val)
                    in reply (db_put m desKey (VSet desSet)) (IntData 1)
            | _ \<Rightarrow> reply m WRONGTYPE) })"

fun spop_loop :: "env \<Rightarrow> nat \<Rightarrow> nat \<Rightarrow> GoSet \<Rightarrow> string list \<Rightarrow> GoSet \<times> string list" where
  "spop_loop e k 0 s res = (s, res)"
| "spop_loop e k (Suc n) s res =
     (let (s, val) = set_Pop e k s in if val = [] then (s, res) else spop_loop e (k + 1) n s (res @ [val]))"

text \<open>The deferred function of SPOP and SREM.\<close>

definition finish_set :: "MemDb \<Rightarrow> string \<Rightarrow> GoSet \<Rightarrow> RedisData \<Rightarrow> result" where
  "finish_set m key s r =
     (let m = db_put m key (VSet s)
      in if set_Len s = 0 then do { m \<leftarrow> drop_key m key; reply m r } else reply m r)"

definition sPopSet :: handler where
  "sPopSet e m cmd = do {
     a0 \<leftarrow> arg cmd 0;
     if lower e a0 \<noteq> ''spop'' then reply m set_server_error
     else if length cmd \<noteq> 2 \<and> length cmd \<noteq> 3 then reply m (wrong_args ''spop'')
     else do {
       n \<leftarrow> (if length cmd = 3 then map_option Atoi (arg cmd 2) else Some (Some 1));
       case n of None \<Rightarrow> reply m (ErrorData ''count value must be a positive integer'')
       | Some cnt \<Rightarrow>
           if cnt < 0 then reply m (ErrorData ''count value must be a positive integer'')
           else do {
             key \<leftarrow> arg cmd 1;
             let (m, ok) = CheckTTL e m key;
             if \<not> ok then reply m (BulkData None)
             else case cm_Get (db m) key of None \<Rightarrow> reply m (BulkData None)
               | Some v \<Rightarrow> (case v of
                   VSet s \<Rightarrow>
                     if cnt = 0 then reply m MakeEmptyArrayData
                     else if cnt = 1 then (let (s, val) = set_Pop e 0 s in finish_set m key s (BulkData (Some val)))
                     else (let (s, res) = spop_loop e 0 (nat cnt) s [] in finish_set m key s (bulks res))
                 | _ \<Rightarrow> reply m WRONGTYPE) } } }"

definition sRandMemberSet :: handler where
  "sRandMemberSet e m cmd =
     (if length cmd \<noteq> 2 \<and> length cmd \<noteq> 3 then reply m (wrong_args ''srandmember'')
      else do {
        n \<leftarrow> (if length cmd = 3 then map_option Atoi (arg cmd 2) else Some (Some 1));
        case n of None \<Rightarrow> reply m (ErrorData ''count value must be an integer'')
        | Some cnt \<Rightarrow> do {
            key \<leftarrow> arg cmd 1;
            let (m, ok) = CheckTTL e m key;
            if \<not> ok then reply m (BulkData None)
            else case cm_Get (db m) key of None \<Rightarrow> reply m (BulkData None)
              | Some v \<Rightarrow> (case v of
                  VSet s \<Rightarrow> do {
                    resMembers \<leftarrow> set_Random e s cnt;
                    if length resMembers = 0 then reply m (BulkData None)
                    else reply m (MakeArrayData (map StringData resMembers)) }
                | _ \<Rightarrow> reply m WRONGTYPE) } })"

definition sRemSet :: handler where
  "sRemSet e m cmd = do {
     a0 \<leftarrow> arg cmd 0;
     if lower e a0 \<noteq> ''srem'' then reply m set_server_error
     else if length cmd < 3 then reply m (wrong_args ''srem'')
     else do {
       key \<leftarrow> arg cmd 1;
       let (m, ok) = CheckTTL e m key;
       if \<not> ok then reply m (IntData 0)
       else case cm_Get (db m) key of None \<Rightarrow> reply m (IntData 0)
         | Some v \<Rightarrow> (case v of
             VSet s \<Rightarrow> let (s, res) = rem_loop s (map str (drop 2 cmd)) 0 in finish_set m key s (IntData res)
           | _ \<Rightarrow> reply m WRONGTYPE) } }"

definition sUnionSet :: handler where
  "sUnionSet e m cmd = do {
     a0 \<leftarrow> arg cmd 0;
     if lower e a0 \<noteq> ''sunion'' then reply m set_server_error
     else if length cmd < 2 then reply m (wrong_args ''sunion'')
     else do {
       let (m, ks) = live_keys e m (map str (drop 1 cmd));
       if ks = [] then reply m MakeEmptyArrayData
       else (case collect_sets m ks of None \<Rightarrow> reply m WRONGTYPE
         | Some sets \<Rightarrow> (case sets of [] \<Rightarrow> reply m MakeEmptyArrayData
             | s # ss \<Rightarrow> reply m (bulks (set_Members e (set_Union e s ss))))) } }"

definition sUnionStoreSet :: handler where
  "sUnionStoreSet e m cmd = do {
     a0 \<leftarrow> arg cmd 0;
     if lower e a0 \<noteq> ''sunionstore'' then reply m set_server_error
     else if length cmd < 3 then reply m (wrong_args ''sunionstore'')
     else do {
       desKey \<leftarrow> arg cmd 1;
       let m = fst (CheckTTL e m desKey);
       if holds_other m desKey then reply m WRONGTYPE
       else do {
         let (m, ks) = live_keys e m (map str (drop 2 cmd));
         if ks = [] then reply m (IntData 0)
         else (case collect_sets m ks of None \<Rightarrow> reply m WRONGTYPE
           | Some sets \<Rightarrow> (case sets of [] \<Rightarrow> reply m MakeEmptyArrayData
               | s # ss \<Rightarrow> store_set e m desKey (set_Union e s ss))) } } }"

section \<open>The invariant\<close>

lemma check_all_ok [simp]: "db_ok m \<Longrightarrow> db_ok (check_all e m ks)"
  by (induction ks arbitrary: m) auto

lemma live_keys_ok: "live_keys e m ks = (m', live) \<Longrightarrow> db_ok m \<Longrightarrow> db_ok m'"
proof (induction ks arbitrary: m m' live)
  case (Cons k ks)
  obtain m1 ok where c: "CheckTTL e m k = (m1, ok)" by fastforce
  obtain m2 l where l: "live_keys e m1 ks = (m2, l)" by fastforce
  show ?case using Cons.IH [OF l CheckTTL_keeps [OF c Cons.prems(2)]] Cons.prems(1) c l by simp
qed simp

lemma add_loop_distinct: "add_loop s xs n = (s', n') \<Longrightarrow> distinct s \<Longrightarrow> distinct s'"
proof (induction xs arbitrary: s n)
  case (Cons x xs)
  then show ?case using set_Add_simps(2) [of s x] by (cases "set_Add s x") (simp add: Let_def)
qed simp

lemma rem_loop_distinct: "rem_loop s xs n = (s', n') \<Longrightarrow> distinct s \<Longrightarrow> distinct s'"
proof (induction xs arbitrary: s n)
  case (Cons x xs)
  then show ?case using set_Remove_simps(2) [of s x] by (cases "set_Remove s x") (simp add: Let_def)
qed simp

lemma spop_loop_distinct: "spop_loop e k n s res = (s', res') \<Longrightarrow> distinct s \<Longrightarrow> distinct s'"
proof (induction n arbitrary: k s res)
  case (Suc n)
  then show ?case using set_ops_distinct(4) [of s e k] by (cases "set_Pop e k s") (auto simp: Let_def split: if_splits)
qed simp

lemma set_steps:
  "set_Pop e k s = (s', v) \<Longrightarrow> distinct s \<Longrightarrow> distinct s'"
  "set_Remove s x = (s', n) \<Longrightarrow> distinct s \<Longrightarrow> distinct s'"
  using set_ops_distinct(4) [of s e k] set_Remove_simps(2) [of s x] by auto

lemma VSet_ok: "value_ok (VSet s) \<Longrightarrow> distinct s" "distinct s \<Longrightarrow> value_ok (VSet s)"
  by simp_all

lemma stored_set: "cm_Get (db m) k = Some v \<Longrightarrow> v = VSet s \<Longrightarrow> db_ok m \<Longrightarrow> distinct s"
  by (auto dest: stored_ok)

lemma store_set_keeps: "db_ok m \<Longrightarrow> distinct s \<Longrightarrow> keeps (store_set e m k s)"
  unfolding store_set_def by (intro keeps_rules) auto

lemma finish_set_keeps: "db_ok m \<Longrightarrow> distinct s \<Longrightarrow> keeps (finish_set m k s r)"
  unfolding finish_set_def by (intro keeps_rules) (auto intro: drop_key_keeps)

lemmas set_states = CheckTTL_keeps CheckTTL_db_ok check_all_ok live_keys_ok db_ok_put VSet_ok stored_set
  add_loop_distinct rem_loop_distinct spop_loop_distinct set_steps set_ops_distinct

lemma get_or_new_ok:
  "get_or_new m k = (m', v) \<Longrightarrow> db_ok m \<Longrightarrow> db_ok m'" "get_or_new m k = (m', VSet s) \<Longrightarrow> db_ok m \<Longrightarrow> distinct s"
  by (auto simp: get_or_new_def NewSet_def split: option.splits dest: stored_ok)

lemma set_at_distinct: "db_ok m \<Longrightarrow> distinct (set_at m k)"
  by (auto simp: set_at_def NewSet_def split: option.splits dbvalue.splits dest: stored_ok)

lemma sAddSet_keeps: "db_ok m \<Longrightarrow> keeps (sAddSet e m cmd)"
  unfolding sAddSet_def
  by (intro keeps_rules) (blast intro: set_states get_or_new_ok)+

lemma sCardSet_keeps: "db_ok m \<Longrightarrow> keeps (sCardSet e m cmd)"
  unfolding sCardSet_def by (intro keeps_rules) (blast intro: set_states)+

lemma sDiffSet_keeps: "db_ok m \<Longrightarrow> keeps (sDiffSet e m cmd)"
  unfolding sDiffSet_def by (intro keeps_rules) (blast intro: set_states)+

lemma sDiffStoreSet_keeps: "db_ok m \<Longrightarrow> keeps (sDiffStoreSet e m cmd)"
  unfolding sDiffStoreSet_def
  by (intro keeps_rules store_set_keeps) (auto simp: NewSet_def intro: live_keys_ok)

lemma sInterSet_keeps: "db_ok m \<Longrightarrow> keeps (sInterSet e m cmd)"
  unfolding sInterSet_def by (intro keeps_rules) (blast intro: set_states)+

lemma inter_all_distinct: "inter_all e sets = Some s \<Longrightarrow> distinct s"
  by (auto simp: inter_all_def Let_def split: bind_splits)

lemma sInterStoreSet_keeps: "db_ok m \<Longrightarrow> keeps (sInterStoreSet e m cmd)"
  unfolding sInterStoreSet_def
  by (intro keeps_rules store_set_keeps) (auto intro: live_keys_ok inter_all_distinct)

lemma sIsMemberSet_keeps: "db_ok m \<Longrightarrow> keeps (sIsMemberSet e m cmd)"
  unfolding sIsMemberSet_def by (intro keeps_rules) (blast intro: set_states)+

lemma sMembersSet_keeps: "db_ok m \<Longrightarrow> keeps (sMembersSet e m cmd)"
  unfolding sMembersSet_def by (intro keeps_rules) (blast intro: set_states)+

lemma sMoveSet_keeps: "db_ok m \<Longrightarrow> keeps (sMoveSet e m cmd)"
  unfolding sMoveSet_def
  by (intro keeps_rules) (blast intro: set_states set_at_distinct set_Add_simps(2))+

lemma sPopSet_keeps: "db_ok m \<Longrightarrow> keeps (sPopSet e m cmd)"
  unfolding sPopSet_def by (intro keeps_rules finish_set_keeps) (blast intro: set_states)+

lemma sRandMemberSet_keeps: "db_ok m \<Longrightarrow> keeps (sRandMemberSet e m cmd)"
  unfolding sRandMemberSet_def by (intro keeps_rules) (blast intro: set_states)+

lemma sRemSet_keeps: "db_ok m \<Longrightarrow> keeps (sRemSet e m cmd)"
  unfolding sRemSet_def by (intro keeps_rules finish_set_keeps) (blast intro: set_states)+

lemma sUnionSet_keeps: "db_ok m \<Longrightarrow> keeps (sUnionSet e m cmd)"
  unfolding sUnionSet_def by (intro keeps_rules) (blast intro: set_states)+

lemma sUnionStoreSet_keeps: "db_ok m \<Longrightarrow> keeps (sUnionStoreSet e m cmd)"
  unfolding sUnionStoreSet_def
  by (intro keeps_rules store_set_keeps) (auto intro: live_keys_ok)

end
