(* ===== verification/Hash_Cmd.thy ===== *)
theory Hash_Cmd
  imports String_Cmd Set_Cmd
begin

text \<open>
  The hash commands of \<open>src/memdb/hash.go\<close>. As for sets, a hash that is changed in place is
  stored back under its key.
\<close>

section \<open>Handlers\<close>

fun hdel_loop :: "Hash \<Rightarrow> string list \<Rightarrow> int \<Rightarrow> Hash \<times> int" where
  "hdel_loop h [] res = (h, res)"
| "hdel_loop h (f # fs) res = (let (h, n) = hash_Del h f in hdel_loop h fs (res + n))"

definition hDelHash :: handler where
  "hDelHash e m cmd = do {
     a0 \<leftarrow> arg cmd 0;
     if lower e a0 \<noteq> ''hdel'' then reply m set_server_error
     else if length cmd < 3 then reply m (wrong_args ''hdel'')
     else do {
       key \<leftarrow> arg cmd 1;
       case cm_Get (db m) key of None \<Rightarrow> reply m (IntData 0)
       | Some v \<Rightarrow> (case v of
           VHash h \<Rightarrow>
             let (h, res) = hdel_loop h (map str (drop 2 cmd)) 0;
                 m = db_put m key (VHash h)
             in if hash_IsEmpty h then do { m \<leftarrow> drop_key m key; reply m (IntData res) } else reply m (IntData res)
         | _ \<Rightarrow> reply m WRONGTYPE) } }"

text \<open>
  The read-only commands share the same shape: check the expiry time, find the hash, answer.
  \<open>miss\<close> is the reply for a key that does not exist, \<open>found\<close> the reply for a hash.
\<close>

definition read_hash :: "env \<Rightarrow> MemDb \<Rightarrow> string \<Rightarrow> RedisData \<Rightarrow> (Hash \<Rightarrow> RedisData option) \<Rightarrow> result" where
  "read_hash e m key miss found =
     (let (m, ok) = CheckTTL e m key in
      if \<not> ok then reply m miss
      else case cm_Get (db m) key of None \<Rightarrow> reply m miss
        | Some v \<Rightarrow> (case v of VHash h \<Rightarrow> do { r \<leftarrow> found h; reply m r } | _ \<Rightarrow> reply m WRONGTYPE))"

definition hExistsHash :: handler where
  "hExistsHash e m cmd = do {
     a0 \<leftarrow> arg cmd 0;
     if lower e a0 \<noteq> ''hexists'' then reply m set_server_error
     else if length cmd \<noteq> 3 then reply m (wrong_args ''hexists'')
     else do {
       key \<leftarrow> arg cmd 1;
       field \<leftarrow> arg cmd 2;
       read_hash e m key (IntData 0) (\<lambda>h. Some (IntData (if hash_Exist h field then 1 else 0))) } }"

definition field_reply :: "Hash \<Rightarrow> string \<Rightarrow> RedisData" where
  "field_reply h field = (let res = hash_Get h field in if length (str res) = 0 then BulkData None else BulkData res)"

definition hGetHash :: handler where
  "hGetHash e m cmd = do {
     a0 \<leftarrow> arg cmd 0;
     if lower e a0 \<noteq> ''hget'' then reply m set_server_error
     else if length cmd \<noteq> 3 then reply m (wrong_args ''hget'')
     else do {
       key \<leftarrow> arg cmd 1;
       field \<leftarrow> arg cmd 2;
       read_hash e m key (BulkData None) (\<lambda>h. Some (field_reply h field)) } }"

definition hGetAllHash :: handler where
  "hGetAllHash e m cmd = do {
     a0 \<leftarrow> arg cmd 0;
     if lower e a0 \<noteq> ''hgetall'' then reply m set_server_error
     else if length cmd \<noteq> 2 then reply m (wrong_args ''hgetall'')
     else do {
       key \<leftarrow> arg cmd 1;
       read_hash e m key MakeEmptyArrayData
         (\<lambda>h. Some (MakeArrayData (map BulkData (with_values h (hash_Keys e h))))) } }"

text \<open>The commands that create the hash when the key does not exist.\<close>

definition get_or_new_hash :: "MemDb \<Rightarrow> string \<Rightarrow> MemDb \<times> dbvalue" where
  "get_or_new_hash m key =
     (case cm_Get (db m) key of None \<Rightarrow> (db_put m key (VHash NewHash), VHash NewHash) | Some v \<Rightarrow> (m, v))"

definition hIncrByHash :: handler where
  "hIncrByHash e m cmd = do {
     a0 \<leftarrow> arg cmd 0;
     if lower e a0 \<noteq> ''hincrby'' then reply m set_server_error
     else if length cmd \<noteq> 4 then reply m (wrong_args ''hincrby'')
     else do {
       key \<leftarrow> arg cmd 1;
       field \<leftarrow> arg cmd 2;
       a3 \<leftarrow> arg cmd 3;
       case Atoi a3 of None \<Rightarrow> reply m (ErrorData ''incr value must be an integer'')
       | Some incr \<Rightarrow>
           let m = fst (CheckTTL e m key);
               (m, tem) = get_or_new_hash m key
           in (case tem of
               VHash h \<Rightarrow>
                 let (h, res, ok) = hash_IncrBy h field incr;
                     m = db_put m key (VHash h)
                 in if \<not> ok then reply m (ErrorData ''value is not an integer'') else reply m (IntData res)
             | _ \<Rightarrow> reply m WRONGTYPE) } }"

definition hIncrByFloatHash :: handler where
  "hIncrByFloatHash e m cmd = do {
     a0 \<leftarrow> arg cmd 0;
     if lower e a0 \<noteq> ''hincrbyfloat'' then reply m set_server_error
     else if length cmd \<noteq> 4 then reply m (wrong_args ''hincrbyfloat'')
     else do {
       key \<leftarrow> arg cmd 1;
       field \<leftarrow> arg cmd 2;
       a3 \<leftarrow> arg cmd 3;
       case f_parse e a3 of None \<Rightarrow> reply m (ErrorData ''incr value must be a float'')
       | Some incr \<Rightarrow>
           let m = fst (CheckTTL e m key);
               (m, tem) = get_or_new_hash m key
           in (case tem of
               VHash h \<Rightarrow>
                 let (h, res, ok) = hash_IncrByFloat e h field incr;
                     m = db_put m key (VHash h)
                 in if \<not> ok then reply m (ErrorData ''value is not a float'')
                    else reply m (BulkData (Some (f_fmt e res)))
             | _ \<Rightarrow> reply m WRONGTYPE) } }"

definition hKeysHash :: handler where
  "hKeysHash e m cmd = do {
     a0 \<leftarrow> arg cmd 0;
     if lower e a0 \<noteq> ''hkeys'' then reply m set_server_error
     else if length cmd \<noteq> 2 then reply m (wrong_args ''hkeys'')
     else do {
       key \<leftarrow> arg cmd 1;
       read_hash e m key MakeEmptyArrayData (\<lambda>h. Some (bulks (hash_Keys e h))) } }"

definition hLenHash :: handler where
  "hLenHash e m cmd = do {
     a0 \<leftarrow> arg cmd 0;
     if lower e a0 \<noteq> ''hlen'' then reply m set_server_error
     else if length cmd \<noteq> 2 then reply m (wrong_args ''hlen'')
     else do { key \<leftarrow> arg cmd 1; read_hash e m key (IntData 0) (\<lambda>h. Some (IntData (hash_Len h))) } }"

definition hMGetHash :: handler where
  "hMGetHash e m cmd = do {
     a0 \<leftarrow> arg cmd 0;
     if lower e a0 \<noteq> ''hmget'' then reply m set_server_error
     else if length cmd < 3 then reply m (wrong_args ''hmget'')
     else do {
       key \<leftarrow> arg cmd 1;
       read_hash e m key MakeEmptyArrayData
         (\<lambda>h. Some (MakeArrayData (map (\<lambda>f. field_reply h (str f)) (drop 2 cmd)))) } }"

definition hSetHash :: handler where
  "hSetHash e m cmd = do {
     a0 \<leftarrow> arg cmd 0;
     if lower e a0 \<noteq> ''hset'' then reply m set_server_error
     else if length cmd < 4 \<or> odd (length cmd) then reply m (wrong_args ''hset'')
     else do {
       key \<leftarrow> arg cmd 1;
       let m = fst (CheckTTL e m key);
       let (m, tem) = get_or_new_hash m key;
       case tem of
         VHash h \<Rightarrow>
           let h = fold (\<lambda>(field, value) h. hash_Set h field value) (pairs (drop 2 cmd)) h
           in reply (db_put m key (VHash h)) (StringData ''OK'')
       | _ \<Rightarrow> reply m WRONGTYPE } }"

definition hSetNxHash :: handler where
  "hSetNxHash e m cmd = do {
     a0 \<leftarrow> arg cmd 0;
     if lower e a0 \<noteq> ''hsetnx'' then reply m set_server_error
     else if length cmd \<noteq> 4 then reply m (wrong_args ''hsetnx'')
     else do {
       key \<leftarrow> arg cmd 1;
       field \<leftarrow> arg cmd 2;
       val \<leftarrow> nth_opt cmd 3;
       let m = fst (CheckTTL e m key);
       let (m, tem) = get_or_new_hash m key;
       case tem of
         VHash h \<Rightarrow>
           if hash_Exist h field then reply m (IntData 0)
           else reply (db_put m key (VHash (hash_Set h field val))) (IntData 1)
       | _ \<Rightarrow> reply m WRONGTYPE } }"

definition hValsHash :: handler where
  "hValsHash e m cmd = do {
     a0 \<leftarrow> arg cmd 0;
     if lower e a0 \<noteq> ''hvals'' then reply m set_server_error
     else if length cmd \<noteq> 2 then reply m (wrong_args ''hvals'')
     else do {
       key \<leftarrow> arg cmd 1;
       read_hash e m key MakeEmptyArrayData (\<lambda>h. Some (MakeArrayData (map BulkData (hash_Values e h)))) } }"

definition hStrLenHash :: handler where
  "hStrLenHash e m cmd = do {
     a0 \<leftarrow> arg cmd 0;
     if lower e a0 \<noteq> ''hstrlen'' then reply m set_server_error
     else if length cmd \<noteq> 3 then reply m (wrong_args ''hstrlen'')
     else do {
       key \<leftarrow> arg cmd 1;
       field \<leftarrow> arg cmd 2;
       read_hash e m key (IntData 0) (\<lambda>h. Some (IntData (hash_StrLen h field))) } }"

definition hRandFieldHash :: handler where
  "hRandFieldHash e m cmd = do {
     a0 \<leftarrow> arg cmd 0;
     if lower e a0 \<noteq> ''hrandfield'' then reply m set_server_error
     else if length cmd \<noteq> 2 \<and> length cmd \<noteq> 3 \<and> length cmd \<noteq> 4 then reply m (wrong_args ''hrandfield'')
     else do {
       key \<leftarrow> arg cmd 1;
       n \<leftarrow> (if length cmd \<ge> 3 then map_option Atoi (arg cmd 2) else Some (Some 1));
       case n of None \<Rightarrow> reply m (ErrorData ''err: count value must be integer'')
       | Some cnt \<Rightarrow> do {
           opt \<leftarrow> (if length cmd = 4 then arg cmd 3 else Some []);
           let withValues = (length cmd = 4 \<and> lower e opt = ''withvalues'');
           if length cmd = 4 \<and> \<not> withValues
           then reply m (ErrorData (''command option error, not support '' @ opt @ '' option''))
           else read_hash e m key MakeEmptyArrayData
             (\<lambda>h. if withValues then map_option (\<lambda>fs. MakeArrayData (map BulkData fs)) (hash_RandomWithValue e h cnt)
                  else map_option bulks (hash_Random e h cnt)) } } }"

section \<open>The invariant\<close>

lemma hdel_loop_ok: "hdel_loop h fs n = (h', n') \<Longrightarrow> gm_ok h \<Longrightarrow> gm_ok h'"
proof (induction fs arbitrary: h n)
  case (Cons f fs)
  then show ?case using hash.inv_del [of h f] by (cases "hash_Del h f") simp
qed simp

lemma get_or_new_hash_ok:
  "get_or_new_hash m k = (m', v) \<Longrightarrow> db_ok m \<Longrightarrow> db_ok m'" "get_or_new_hash m k = (m', VHash h) \<Longrightarrow> db_ok m \<Longrightarrow> gm_ok h"
  by (auto simp: get_or_new_hash_def NewHash_def split: option.splits dest: stored_ok)

lemma stored_hash: "cm_Get (db m) k = Some v \<Longrightarrow> v = VHash h \<Longrightarrow> db_ok m \<Longrightarrow> gm_ok h"
  by (auto dest: stored_ok)

lemma VHash_ok: "gm_ok h \<Longrightarrow> value_ok (VHash h)"
  by simp

lemma hash_steps:
  "hash_IncrBy h k i = (h', x) \<Longrightarrow> gm_ok h \<Longrightarrow> gm_ok h'"
  "hash_IncrByFloat e h k a = (h', y) \<Longrightarrow> gm_ok h \<Longrightarrow> gm_ok h'"
  "gm_ok h \<Longrightarrow> gm_ok (hash_Set h k v)"
  "gm_ok h \<Longrightarrow> gm_ok (fold (\<lambda>(field, value) h. hash_Set h field value) kvs h)"
  using gm_ok_IncrBy [of h k i] gm_ok_IncrByFloat [of h e k a]
  by (auto simp: hash_Set_def intro!: fold_preserves [where P = gm_ok])

lemmas hash_states = CheckTTL_keeps CheckTTL_db_ok db_ok_put drop_key_keeps VHash_ok stored_hash
  get_or_new_hash_ok hdel_loop_ok hash_steps

lemma read_hash_keeps: "db_ok m \<Longrightarrow> keeps (read_hash e m k r f)"
  unfolding read_hash_def by (intro keeps_rules) (blast intro: hash_states)+

lemma hash_reads_keep:
  assumes "db_ok m"
  shows "keeps (hExistsHash e m cmd)" "keeps (hGetHash e m cmd)" "keeps (hGetAllHash e m cmd)"
    "keeps (hKeysHash e m cmd)" "keeps (hLenHash e m cmd)" "keeps (hMGetHash e m cmd)"
    "keeps (hValsHash e m cmd)" "keeps (hStrLenHash e m cmd)" "keeps (hRandFieldHash e m cmd)"
  unfolding hExistsHash_def hGetHash_def hGetAllHash_def hKeysHash_def hLenHash_def hMGetHash_def
    hValsHash_def hStrLenHash_def hRandFieldHash_def
  by (intro keeps_rules read_hash_keeps assms)+

lemma hDelHash_keeps: "db_ok m \<Longrightarrow> keeps (hDelHash e m cmd)"
  unfolding hDelHash_def by (intro keeps_rules) (blast intro: hash_states)+

lemma hIncrByHash_keeps: "db_ok m \<Longrightarrow> keeps (hIncrByHash e m cmd)"
  unfolding hIncrByHash_def by (intro keeps_rules) (blast intro: hash_states)+

lemma hIncrByFloatHash_keeps: "db_ok m \<Longrightarrow> keeps (hIncrByFloatHash e m cmd)"
  unfolding hIncrByFloatHash_def by (intro keeps_rules) (blast intro: hash_states)+

lemma hSetHash_keeps: "db_ok m \<Longrightarrow> keeps (hSetHash e m cmd)"
  unfolding hSetHash_def by (intro keeps_rules) (blast intro: hash_states)+

lemma hSetNxHash_keeps: "db_ok m \<Longrightarrow> keeps (hSetNxHash e m cmd)"
  unfolding hSetNxHash_def by (intro keeps_rules) (blast intro: hash_states)+

end
