(* ===== verification/List_Cmd.thy ===== *)
theory List_Cmd
  imports String_Cmd Set_Cmd
begin

text \<open>
  The list commands of \<open>src/memdb/list.go\<close>. A list that is changed in place is stored back
  under its key; the blocking commands BLPOP and BRPOP are modelled by the check of their
  arguments and by the query that they run at every tick of their ticker.
\<close>

section \<open>Reading commands\<close>

definition lLenList :: handler where
  "lLenList e m cmd = do {
     a0 \<leftarrow> arg cmd 0;
     if lower e a0 \<noteq> ''llen'' then reply m set_server_error
     else if length cmd \<noteq> 2 then reply m (wrong_args ''llen'')
     else do {
       key \<leftarrow> arg cmd 1;
       case cm_Get (db m) key of None \<Rightarrow> reply m (IntData 0)
       | Some v \<Rightarrow> (case v of VList l \<Rightarrow> reply m (IntData (LLen l)) | _ \<Rightarrow> reply m WRONGTYPE) } }"

definition lIndexList :: handler where
  "lIndexList e m cmd = do {
     a0 \<leftarrow> arg cmd 0;
     if lower e a0 \<noteq> ''lindex'' then reply m set_server_error
     else if length cmd \<noteq> 3 then reply m (wrong_args ''lindex'')
     else do {
       key \<leftarrow> arg cmd 1;
       a2 \<leftarrow> arg cmd 2;
       case Atoi a2 of None \<Rightarrow> reply m (ErrorData ''index is not an integer'')
       | Some index \<Rightarrow>
           let (m, ok) = CheckTTL e m key in
           if \<not> ok then reply m (BulkData None)
           else (case cm_Get (db m) key of None \<Rightarrow> reply m (BulkData None)
             | Some v \<Rightarrow> (case v of
                 VList l \<Rightarrow> do {
                   resNode \<leftarrow> Index l index;
                   case resNode of None \<Rightarrow> reply m (BulkData None)
                   | Some a \<Rightarrow> do { n \<leftarrow> deref l (Some a); reply m (BulkData (Val n)) } }
               | _ \<Rightarrow> reply m WRONGTYPE)) } }"

definition lRangeList :: handler where
  "lRangeList e m cmd = do {
     a0 \<leftarrow> arg cmd 0;
     if lower e a0 \<noteq> ''lrange'' then reply m set_server_error
     else if length cmd \<noteq> 4 then reply m (wrong_args ''lrange'')
     else do {
       a2 \<leftarrow> arg cmd 2;
       a3 \<leftarrow> arg cmd 3;
       case Atoi a2 of None \<Rightarrow> reply m (ErrorData ''index must be an integer'')
       | Some start \<Rightarrow> (case Atoi a3 of None \<Rightarrow> reply m (ErrorData ''index must be an integer'')
         | Some stop \<Rightarrow> do {
             key \<leftarrow> arg cmd 1;
             let (m, ok) = CheckTTL e m key;
             if \<not> ok then reply m MakeEmptyArrayData
             else case cm_Get (db m) key of None \<Rightarrow> reply m MakeEmptyArrayData
               | Some v \<Rightarrow> (case v of
                   VList l \<Rightarrow> do {
                     temRes \<leftarrow> LRange l start stop;
                     case temRes of None \<Rightarrow> reply m MakeEmptyArrayData
                     | Some xs \<Rightarrow> reply m (MakeArrayData (map BulkData xs)) }
                 | _ \<Rightarrow> reply m WRONGTYPE) }) } }"

section \<open>LPOS\<close>

record lpos_opts =
  p_rank :: bool
  p_count :: bool
  p_maxLen :: bool
  rankVal :: int
  countVal :: int
  maxLenVal :: int

definition lpos_opts0 :: lpos_opts where
  "lpos_opts0 = \<lparr>p_rank = False, p_count = False, p_maxLen = False, rankVal = 0, countVal = 0, maxLenVal = 0\<rparr>"

fun lpos_params :: "env \<Rightarrow> (string \<times> slice) list \<Rightarrow> lpos_opts \<Rightarrow> RedisData + lpos_opts" where
  "lpos_params e [] f = Inr f"
| "lpos_params e ((c, v) # cs) f =
     (let opt = lower e c in
      if opt = ''rank'' then
        (case Atoi (str v) of None \<Rightarrow> Inl (ErrorData ''rank value should 1,2,3... or -1,-2,-3...'')
         | Some n \<Rightarrow> if n = 0 then Inl (ErrorData ''rank value should 1,2,3... or -1,-2,-3...'')
                     else lpos_params e cs (f\<lparr>p_rank := True, rankVal := n\<rparr>))
      else if opt = ''count'' then
        (case Atoi (str v) of None \<Rightarrow> Inl (ErrorData ''count value is not an positive integer'')
         | Some n \<Rightarrow> if n < 0 then Inl (ErrorData ''count value is not an positive integer'')
                     else lpos_params e cs (f\<lparr>p_count := True, countVal := n\<rparr>))
      else if opt = ''maxlen'' then
        (case Atoi (str v) of None \<Rightarrow> Inl (ErrorData ''maxlen value is not an positive integer'')
         | Some n \<Rightarrow> if n < 0 then Inl (ErrorData ''maxlen value is not an positive integer'')
                     else lpos_params e cs (f\<lparr>p_maxLen := True, maxLenVal := n\<rparr>))
      else Inl (ErrorData (''unsupported option '' @ c)))"

text \<open>
  The loop that looks for the match of the given rank, in either direction: \<open>dp\<close> is added to
  the position at each node and \<open>dr\<close> to the rank at each match.
\<close>

partial_function (option) rank_loop ::
  "List \<Rightarrow> slice \<Rightarrow> bool \<Rightarrow> (ListNode \<Rightarrow> ptr) \<Rightarrow> ptr \<Rightarrow> int \<Rightarrow> int \<Rightarrow> ptr \<Rightarrow> int \<Rightarrow> int \<Rightarrow> int \<Rightarrow> (ptr \<times> int \<times> int \<times> int) option" where
  "rank_loop l elem mx dir stop dp dr cur pos rk ml =
     (if cur = stop then Some (cur, pos, rk, ml)
      else do {
        n \<leftarrow> deref l cur;
        let pos = pos + dp;
        let rk = (if bytes_Equal (Val n) elem then rk + dr else rk);
        let ml = (if mx then ml - 1 else ml);
        if mx \<and> ml = 0 then Some (cur, pos, rk, ml)
        else if rk = 0 then Some (cur, pos, rk, ml)
        else rank_loop l elem mx dir stop dp dr (dir n) pos rk ml })"

partial_function (option) first_loop :: "List \<Rightarrow> slice \<Rightarrow> bool \<Rightarrow> ptr \<Rightarrow> int \<Rightarrow> int \<Rightarrow> int option option" where
  "first_loop l elem mx cur pos ml =
     (if cur = Some (Tail l) then Some None
      else do {
        n \<leftarrow> deref l cur;
        if bytes_Equal (Val n) elem then Some (Some pos)
        else if mx \<and> ml \<le> 0 then Some None
        else first_loop l elem mx (Next n) (pos + 1) (if mx then ml - 1 else ml) })"

partial_function (option) count_loop ::
  "List \<Rightarrow> slice \<Rightarrow> bool \<Rightarrow> (ListNode \<Rightarrow> ptr) \<Rightarrow> ptr \<Rightarrow> int \<Rightarrow> ptr \<Rightarrow> int \<Rightarrow> int \<Rightarrow> int \<Rightarrow> int list \<Rightarrow> int list option" where
  "count_loop l elem mx dir stop dp cur pos cv ml res =
     (if cur = stop \<or> cv = 0 then Some res
      else do {
        n \<leftarrow> deref l cur;
        let (res, cv) = (if bytes_Equal (Val n) elem then (res @ [pos], cv - 1) else (res, cv));
        if mx \<and> ml \<le> 0 then Some res
        else count_loop l elem mx dir stop dp (dir n) (pos + dp) cv (if mx then ml - 1 else ml) res })"

text \<open>The search of LPOS on a list that is not empty.\<close>

definition lpos_search :: "List \<Rightarrow> slice \<Rightarrow> lpos_opts \<Rightarrow> RedisData option" where
  "lpos_search l elem f0 =
     (let f1 = (if p_count f0 \<and> countVal f0 = 0 then f0\<lparr>countVal := LLen l\<rparr> else f0);
          f = (if p_maxLen f1 \<and> maxLenVal f1 = 0 then f1\<lparr>maxLenVal := LLen l\<rparr> else f1);
          mx = p_maxLen f
      in if \<not> p_rank f \<and> \<not> p_count f \<and> \<not> mx
         then do { pos \<leftarrow> Pos l elem; Some (if pos = - 1 then BulkData None else IntData pos) }
         else do {
           h \<leftarrow> deref l (Some (Head l));
           t \<leftarrow> deref l (Some (Tail l));
           let reverse = (p_rank f \<and> \<not> rankVal f > 0);
           (cur, pos, rk, ml) \<leftarrow>
             (if p_rank f then
                if rankVal f > 0
                then rank_loop l elem mx Next (Some (Tail l)) 1 (- 1) (Next h) (- 1) (rankVal f) (maxLenVal f)
                else rank_loop l elem mx Prev (Some (Head l)) (- 1) 1 (Prev t) (LLen l) (rankVal f) (maxLenVal f)
              else Some (Next h, 0, rankVal f, if mx then maxLenVal f - 1 else maxLenVal f));
           if (p_rank f \<and> rk \<noteq> 0) \<or> cur = Some (Tail l) \<or> cur = Some (Head l) then Some (BulkData None)
           else if \<not> p_count f
           then do { r \<leftarrow> first_loop l elem mx cur pos ml; Some (case r of None \<Rightarrow> BulkData None | Some p \<Rightarrow> IntData p) }
           else do {
             res \<leftarrow> (if \<not> reverse then count_loop l elem mx Next (Some (Tail l)) 1 cur pos (countVal f) ml []
                     else count_loop l elem mx Prev (Some (Head l)) (- 1) cur pos (countVal f) ml []);
             Some (if res = [] then BulkData None else MakeArrayData (map IntData res)) } })"

definition lPosList :: handler where
  "lPosList e m cmd = do {
     a0 \<leftarrow> arg cmd 0;
     if lower e a0 \<noteq> ''lpos'' then reply m set_server_error
     else if length cmd < 3 \<or> even (length cmd) then reply m (wrong_args ''lpos'')
     else do {
       key \<leftarrow> arg cmd 1;
       elem \<leftarrow> nth_opt cmd 2;
       case lpos_params e (pairs (drop 3 cmd)) lpos_opts0 of Inl err \<Rightarrow> reply m err
       | Inr f \<Rightarrow>
           let (m, ok) = CheckTTL e m key in
           if \<not> ok then reply m (BulkData None)
           else (case cm_Get (db m) key of None \<Rightarrow> reply m (BulkData None)
             | Some v \<Rightarrow> (case v of
                 VList l \<Rightarrow> if LLen l = 0 then reply m (BulkData None)
                            else do { r \<leftarrow> lpos_search l elem f; reply m r }
               | _ \<Rightarrow> reply m WRONGTYPE)) } }"

section \<open>Popping and pushing\<close>

text \<open>The deferred function of the commands that shorten a list.\<close>

definition finish_list :: "MemDb \<Rightarrow> string \<Rightarrow> List \<Rightarrow> RedisData \<Rightarrow> result" where
  "finish_list m key l r =
     (let m = db_put m key (VList l)
      in if LLen l = 0 then do { m \<leftarrow> drop_key m key; reply m r } else reply m r)"

text \<open>The body shared by LPOP and RPOP; \<open>cnt = 0\<close> when no count is given.\<close>

definition pop_list :: "(List \<Rightarrow> (List \<times> slice option) option) \<Rightarrow> env \<Rightarrow> MemDb \<Rightarrow> string \<Rightarrow> int \<Rightarrow> result" where
  "pop_list pop e m key cnt =
     (let (m, ok) = CheckTTL e m key in
      if \<not> ok then reply m (BulkData None)
      else case cm_Get (db m) key of None \<Rightarrow> reply m (BulkData None)
        | Some v \<Rightarrow> (case v of
            VList l \<Rightarrow>
              if cnt = 0 then do {
                (l, x) \<leftarrow> pop l;
                finish_list m key l (case x of None \<Rightarrow> BulkData None | Some val \<Rightarrow> BulkData val) }
              else do { (l, res) \<leftarrow> pop_loop pop (nat cnt) l; finish_list m key l (MakeArrayData (map BulkData res)) }
          | _ \<Rightarrow> reply m WRONGTYPE))"

definition pop_count :: "cmdBytes \<Rightarrow> int option option" where
  "pop_count cmd =
     (if length cmd = 3
      then do { a2 \<leftarrow> arg cmd 2; Some (case Atoi a2 of None \<Rightarrow> None | Some n \<Rightarrow> if n \<le> 0 then None else Some n) }
      else Some (Some 0))"

abbreviation bad_count :: RedisData where "bad_count \<equiv> ErrorData ''count value must be a positive integer''"

definition lPopList :: handler where
  "lPopList e m cmd =
     (if length cmd \<noteq> 2 \<and> length cmd \<noteq> 3 then reply m (wrong_args ''lpop'')
      else do {
        c \<leftarrow> pop_count cmd;
        case c of None \<Rightarrow> reply m bad_count
        | Some cnt \<Rightarrow> do { key \<leftarrow> arg cmd 1; pop_list LPop_Val e m key cnt } })"

definition rPopList :: handler where
  "rPopList e m cmd = do {
     a0 \<leftarrow> arg cmd 0;
     if lower e a0 \<noteq> ''rpop'' then reply m set_server_error
     else if length cmd \<noteq> 2 \<and> length cmd \<noteq> 3 then reply m (wrong_args ''rpop'')
     else do {
       c \<leftarrow> pop_count cmd;
       case c of None \<Rightarrow> reply m bad_count
       | Some cnt \<Rightarrow> do { key \<leftarrow> arg cmd 1; pop_list RPop_Val e m key cnt } } }"

definition get_or_new_list :: "MemDb \<Rightarrow> string \<Rightarrow> MemDb \<times> dbvalue" where
  "get_or_new_list m key =
     (case cm_Get (db m) key of None \<Rightarrow> (db_put m key (VList NewList), VList NewList) | Some v \<Rightarrow> (m, v))"

definition push_list :: "(List \<Rightarrow> slice \<Rightarrow> List option) \<Rightarrow> MemDb \<Rightarrow> string \<Rightarrow> dbvalue \<Rightarrow> cmdBytes \<Rightarrow> result" where
  "push_list push m key tem vs =
     (case tem of
        VList l \<Rightarrow> do { l \<leftarrow> push_all push l vs; reply (db_put m key (VList l)) (IntData (LLen l)) }
      | _ \<Rightarrow> reply m WRONGTYPE)"

abbreviation Server_Error :: RedisData where "Server_Error \<equiv> ErrorData ''Server Error''"

definition lPushList :: handler where
  "lPushList e m cmd = do {
     a0 \<leftarrow> arg cmd 0;
     if lower e a0 \<noteq> ''lpush'' then reply m Server_Error
     else if length cmd < 3 then reply m (wrong_args ''lpush'')
     else do {
       key \<leftarrow> arg cmd 1;
       let m = fst (CheckTTL e m key);
       let (m, tem) = get_or_new_list m key;
       push_list (LPush e) m key tem (drop 2 cmd) } }"

definition lPushXList :: handler where
  "lPushXList e m cmd = do {
     a0 \<leftarrow> arg cmd 0;
     if lower e a0 \<noteq> ''lpushx'' then reply m Server_Error
     else if length cmd < 3 then reply m (wrong_args ''lpushx'')
     else do {
       key \<leftarrow> arg cmd 1;
       let m = fst (CheckTTL e m key);
       case cm_Get (db m) key of None \<Rightarrow> reply m (IntData 0)
       | Some tem \<Rightarrow> push_list (LPush e) m key tem (drop 2 cmd) } }"

definition rPushList :: handler where
  "rPushList e m cmd = do {
     a0 \<leftarrow> arg cmd 0;
     if lower e a0 \<noteq> ''rpush'' then reply m set_server_error
     else if length cmd < 3 then reply m (wrong_args ''rpush'')
     else do {
       key \<leftarrow> arg cmd 1;
       let m = fst (CheckTTL e m key);
       let (m, tem) = get_or_new_list m key;
       push_list (RPush e) m key tem (drop 2 cmd) } }"

definition rPushXList :: handler where
  "rPushXList e m cmd = do {
     a0 \<leftarrow> arg cmd 0;
     if lower e a0 \<noteq> ''rpushx'' then reply m set_server_error
     else if length cmd < 3 then reply m (wrong_args ''rpushX'')
     else do {
       key \<leftarrow> arg cmd 1;
       let m = fst (CheckTTL e m key);
       case cm_Get (db m) key of None \<Rightarrow> reply m (IntData 0)
       | Some tem \<Rightarrow> push_list (RPush e) m key tem (drop 2 cmd) } }"

section \<open>Changing commands\<close>

definition lSetList :: handler where
  "lSetList e m cmd = do {
     a0 \<leftarrow> arg cmd 0;
     if lower e a0 \<noteq> ''lset'' then reply m set_server_error
     else if length cmd \<noteq> 4 then reply m (wrong_args ''lset'')
     else do {
       a2 \<leftarrow> arg cmd 2;
       case Atoi a2 of None \<Rightarrow> reply m (ErrorData ''index must be an integer'')
       | Some index \<Rightarrow> do {
           key \<leftarrow> arg cmd 1;
           let (m, ok) = CheckTTL e m key;
           if \<not> ok then reply m (ErrorData ''key not exist'')
           else case cm_Get (db m) key of None \<Rightarrow> reply m (ErrorData ''key not exist'')
             | Some v \<Rightarrow> (case v of
                 VList l \<Rightarrow> do {
                   val \<leftarrow> nth_opt cmd 3;
                   (l, success) \<leftarrow> LSet l index val;
                   let m = db_put m key (VList l);
                   if \<not> success then reply m (ErrorData ''index out of range'') else reply m (StringData ''OK'') }
               | _ \<Rightarrow> reply m WRONGTYPE) } } }"

definition lRemList :: handler where
  "lRemList e m cmd = do {
     a0 \<leftarrow> arg cmd 0;
     if lower e a0 \<noteq> ''lrem'' then reply m set_server_error
     else if length cmd \<noteq> 4 then reply m (wrong_args ''lrem'')
     else do {
       a2 \<leftarrow> arg cmd 2;
       case Atoi a2 of None \<Rightarrow> reply m (ErrorData ''count must be an integer'')
       | Some cnt \<Rightarrow> do {
           key \<leftarrow> arg cmd 1;
           let (m, ok) = CheckTTL e m key;
           if \<not> ok then reply m (IntData 0)
           else case cm_Get (db m) key of None \<Rightarrow> reply m (IntData 0)
             | Some v \<Rightarrow> (case v of
                 VList l \<Rightarrow> do {
                   val \<leftarrow> nth_opt cmd 3;
                   (l, res) \<leftarrow> RemoveElement l val cnt;
                   finish_list m key l (IntData res) }
               | _ \<Rightarrow> reply m WRONGTYPE) } } }"

definition lTrimList :: handler where
  "lTrimList e m cmd = do {
     a0 \<leftarrow> arg cmd 0;
     if lower e a0 \<noteq> ''ltrim'' then reply m set_server_error
     else if length cmd \<noteq> 4 then reply m (wrong_args ''ltrim'')
     else do {
       a2 \<leftarrow> arg cmd 2;
       a3 \<leftarrow> arg cmd 3;
       case Atoi a2 of None \<Rightarrow> reply m (ErrorData ''start and end must be an integer'')
       | Some start \<Rightarrow> (case Atoi a3 of None \<Rightarrow> reply m (ErrorData ''start and end must be an integer'')
         | Some stop \<Rightarrow> do {
             key \<leftarrow> arg cmd 1;
             let (m, ok) = CheckTTL e m key;
             if \<not> ok then reply m (StringData ''OK'')
             else case cm_Get (db m) key of None \<Rightarrow> reply m (StringData ''OK'')
               | Some v \<Rightarrow> (case v of
                   VList l \<Rightarrow> do { l \<leftarrow> Trim l start stop; finish_list m key l (StringData ''OK'') }
                 | _ \<Rightarrow> reply m WRONGTYPE) }) } }"

text \<open>
  LMOVE: source and destination are the same object when the keys are equal, so the
  destination is read after the source has been changed.
\<close>

definition list_at :: "MemDb \<Rightarrow> string \<Rightarrow> List" where
  "list_at m key = (case cm_Get (db m) key of None \<Rightarrow> NewList | Some v \<Rightarrow> (case v of VList l \<Rightarrow> l | _ \<Rightarrow> NewList))"

definition move_elem :: "env \<Rightarrow> MemDb \<Rightarrow> string \<Rightarrow> string \<Rightarrow> bool \<Rightarrow> bool \<Rightarrow> List \<Rightarrow> result" where
  "move_elem e m src des srcLeft desLeft srcList = do {
     (srcList, popElem) \<leftarrow> (if srcLeft then LPop srcList else RPop srcList);
     n \<leftarrow> deref srcList popElem;
     let m = db_put m src (VList srcList);
     desList \<leftarrow> (if desLeft then LPush e (list_at m des) (Val n) else RPush e (list_at m des) (Val n));
     let m = db_put m des (VList desList);
     if LLen (list_at m src) = 0 then do { m \<leftarrow> drop_key m src; reply m (BulkData (Val n)) }
     else reply m (BulkData (Val n)) }"

definition lMoveList :: handler where
  "lMoveList e m cmd = do {
     a0 \<leftarrow> arg cmd 0;
     if lower e a0 \<noteq> ''lmove'' then reply m set_server_error
     else if length cmd \<noteq> 5 then reply m (wrong_args ''lmove'')
     else do {
       src \<leftarrow> arg cmd 1;
       des \<leftarrow> arg cmd 2;
       srcDrc \<leftarrow> map_option (lower e) (arg cmd 3);
       desDrc \<leftarrow> map_option (lower e) (arg cmd 4);
       if (srcDrc \<noteq> ''left'' \<and> srcDrc \<noteq> ''right'') \<or> (desDrc \<noteq> ''left'' \<and> desDrc \<noteq> ''right'')
       then reply m (ErrorData ''options must be left or right'')
       else
         let (m, ok) = CheckTTL e m src in
         if \<not> ok then reply m (BulkData None)
         else
           let m = fst (CheckTTL e m des) in
           (case cm_Get (db m) src of None \<Rightarrow> reply m (BulkData None)
            | Some v \<Rightarrow> (case v of
                VList srcList \<Rightarrow>
                  if LLen srcList = 0 then do { m \<leftarrow> drop_key m src; reply m (BulkData None) }
                  else
                    let (m, desTem) = get_or_new_list m des in
                    (case desTem of
                       VList _ \<Rightarrow> move_elem e m src des (srcDrc = ''left'') (desDrc = ''left'') srcList
                     | _ \<Rightarrow> reply m WRONGTYPE)
              | _ \<Rightarrow> reply m WRONGTYPE)) } }"

section \<open>Blocking pops\<close>

text \<open>
  \<open>blPopList\<close> and \<open>brPopList\<close> check their arguments; then \<open>bXPopList\<close> waits: at every tick it
  queries the keys in order and answers with the first element found; when its timer fires it
  answers with nil.
\<close>

definition bXPop_start :: "cmdBytes \<Rightarrow> (RedisData + string list) option" where
  "bXPop_start cmd =
     (if length cmd < 3
      then Some (Inl (ErrorData (''ERR wrong number of arguments for '' @ [CHR 0x27] @ ''blpop'' @ [CHR 0x27] @ '' command'')))
      else do {
        a \<leftarrow> arg cmd (length cmd - 1);
        Some (case Atoi a of None \<Rightarrow> Inl (ErrorData ''ERR timeout is not a float or out of range'')
              | Some _ \<Rightarrow> Inr (map str (take (length cmd - 2) (drop 1 cmd)))) })"

fun bXPop_tick :: "(List \<Rightarrow> (List \<times> slice option) option) \<Rightarrow> MemDb \<Rightarrow> string list \<Rightarrow> result" where
  "bXPop_tick pop m [] = Some (m, None)"
| "bXPop_tick pop m (key # ks) =
     (case cm_Get (db m) key of None \<Rightarrow> bXPop_tick pop m ks
      | Some v \<Rightarrow> (case v of
          VList l \<Rightarrow> do {
            (l, x) \<leftarrow> pop l;
            let m = db_put m key (VList l);
            case x of None \<Rightarrow> bXPop_tick pop m ks
            | Some val \<Rightarrow> reply m (MakeArrayData [StringData key, BulkData val]) }
        | _ \<Rightarrow> bXPop_tick pop m ks))"

section \<open>The invariant\<close>

lemma LPop_Val_list_ok: "LPop_Val l = Some (l', x) \<Longrightarrow> list_ok l \<Longrightarrow> list_ok l'"
  by (auto simp: LPop_Val_def split: bind_splits intro: LPop_list_ok)

lemma RPop_Val_list_ok: "RPop_Val l = Some (l', x) \<Longrightarrow> list_ok l \<Longrightarrow> list_ok l'"
  by (auto simp: RPop_Val_def split: bind_splits intro: RPop_list_ok)

lemma pop_loop_list_ok:
  assumes "\<And>l l' x. pop l = Some (l', x) \<Longrightarrow> list_ok l \<Longrightarrow> list_ok l'"
  shows "pop_loop pop n l = Some (l', xs) \<Longrightarrow> list_ok l \<Longrightarrow> list_ok l'"
proof (induction n arbitrary: l xs)
  case (Suc n)
  from Suc.prems(1) obtain l1 y where y: "pop l = Some (l1, y)" by (auto split: bind_splits)
  show ?case using Suc.IH Suc.prems assms [OF y Suc.prems(2)] y
    by (auto split: option.splits bind_splits)
qed simp

lemma pushes_list_ok:
  assumes "iter_ok e"
  shows "push_all (LPush e) l vs = Some l' \<Longrightarrow> list_ok l \<Longrightarrow> list_ok l'"
    and "push_all (RPush e) l vs = Some l' \<Longrightarrow> list_ok l \<Longrightarrow> list_ok l'"
  using push_all_list_ok [of "LPush e" l vs] push_all_list_ok [of "RPush e" l vs] LPush_list_ok [OF _ assms] RPush_list_ok [OF _ assms]
  by (metis option.inject)+

lemma push_list_ok:
  assumes "iter_ok e"
  shows "LPush e l v = Some l' \<Longrightarrow> list_ok l \<Longrightarrow> list_ok l'" and "RPush e l v = Some l' \<Longrightarrow> list_ok l \<Longrightarrow> list_ok l'"
  using LPush_list_ok [OF _ assms] RPush_list_ok [OF _ assms] by (metis option.inject)+

lemma stored_list: "cm_Get (db m) k = Some v \<Longrightarrow> v = VList l \<Longrightarrow> db_ok m \<Longrightarrow> list_ok l"
  by (auto dest: stored_ok)

lemma VList_ok: "list_ok l \<Longrightarrow> value_ok (VList l)"
  by simp

lemma get_or_new_list_ok:
  "get_or_new_list m k = (m', v) \<Longrightarrow> db_ok m \<Longrightarrow> db_ok m'" "get_or_new_list m k = (m', v) \<Longrightarrow> db_ok m \<Longrightarrow> value_ok v"
  by (auto simp: get_or_new_list_def split: option.splits dest: stored_ok)

lemma list_at_ok: "db_ok m \<Longrightarrow> list_ok (list_at m k)"
  by (auto simp: list_at_def split: option.splits dbvalue.splits dest: stored_ok)

lemma finish_list_keeps:
  assumes "db_ok m" and "LLen l = 0 \<or> list_ok l"
  shows "keeps (finish_list m k l r)"
  unfolding finish_list_def using assms by (intro keeps_rules) (auto intro: drop_key_put_keeps)

lemma pop_list_keeps:
  assumes "db_ok m" and pop: "\<And>l l' x. pop l = Some (l', x) \<Longrightarrow> list_ok l \<Longrightarrow> list_ok l'"
  shows "keeps (pop_list pop e m k n)"
proof -
  have 1: "list_ok l'"
    if "CheckTTL e m k = (m1, ok)" "cm_Get (db m1) k = Some v" "v = VList l" "pop l = Some (l', x)" for m1 ok v l l' x
    using pop [OF that(4) stored_list [OF that(2,3) CheckTTL_keeps [OF that(1) assms(1)]]] .
  have 2: "list_ok l'"
    if "CheckTTL e m k = (m1, ok)" "cm_Get (db m1) k = Some v" "v = VList l" "pop_loop pop c l = Some (l', xs)" for m1 ok v l l' xs c
    using pop_loop_list_ok [OF pop that(4) stored_list [OF that(2,3) CheckTTL_keeps [OF that(1) assms(1)]]] .
  show ?thesis unfolding pop_list_def
    by (intro keeps_rules finish_list_keeps) (blast intro: 1 2 CheckTTL_keeps [OF _ assms(1)])+
qed

lemma push_list_keeps:
  assumes "db_ok m" and "value_ok v" and "\<And>l l'. push_all push l vs = Some l' \<Longrightarrow> list_ok l \<Longrightarrow> list_ok l'"
  shows "keeps (push_list push m k v vs)"
  unfolding push_list_def using assms by (intro keeps_rules) (auto intro!: db_ok_put)

lemmas list_states = CheckTTL_keeps CheckTTL_db_ok db_ok_put drop_key_keeps VList_ok stored_list list_at_ok
  get_or_new_list_ok LSet_list_ok LPop_list_ok(1) RPop_list_ok(1)

lemma list_reads_keep:
  assumes "db_ok m"
  shows "keeps (lLenList e m cmd)" "keeps (lIndexList e m cmd)" "keeps (lRangeList e m cmd)" "keeps (lPosList e m cmd)"
  unfolding lLenList_def lIndexList_def lRangeList_def lPosList_def using assms
  by (intro keeps_rules; blast intro: list_states)+

lemma list_pops_keep:
  assumes "db_ok m"
  shows "keeps (lPopList e m cmd)" "keeps (rPopList e m cmd)"
  unfolding lPopList_def rPopList_def
  by (intro keeps_rules pop_list_keeps assms; blast intro: LPop_Val_list_ok RPop_Val_list_ok)+

lemma list_pushes_keep:
  assumes "db_ok m" and "iter_ok e"
  shows "keeps (lPushList e m cmd)" "keeps (rPushList e m cmd)" "keeps (lPushXList e m cmd)" "keeps (rPushXList e m cmd)"
  unfolding lPushList_def rPushList_def lPushXList_def rPushXList_def using assms(1)
  by (intro keeps_rules push_list_keeps; blast intro: list_states stored_ok pushes_list_ok [OF assms(2)])+

lemma lSetList_keeps: "db_ok m \<Longrightarrow> keeps (lSetList e m cmd)"
  unfolding lSetList_def by (intro keeps_rules) (blast intro: list_states)+

lemma RemoveElement_keeps: "RemoveElement l v c = Some (l', n) \<Longrightarrow> list_ok l \<Longrightarrow> list_ok l'"
  by (metis RemoveElement_list_ok option.inject prod.inject)

lemma lRemList_keeps: "db_ok m \<Longrightarrow> keeps (lRemList e m cmd)"
  unfolding lRemList_def by (intro keeps_rules finish_list_keeps) (blast intro: list_states RemoveElement_keeps)+

lemma Trim_keeps: "Trim l i j = Some l' \<Longrightarrow> LLen l' \<noteq> 0 \<Longrightarrow> list_ok l \<Longrightarrow> list_ok l'"
  using Trim_list_ok by blast

lemma lTrimList_keeps: "db_ok m \<Longrightarrow> keeps (lTrimList e m cmd)"
  unfolding lTrimList_def
  by (intro keeps_rules finish_list_keeps) (blast intro: CheckTTL_keeps stored_list Trim_keeps)+

lemma pick_ok:
  "(if b then LPop l else RPop l) = Some (l', p) \<Longrightarrow> list_ok l \<Longrightarrow> list_ok l'"
  "iter_ok e \<Longrightarrow> (if b then LPush e l v else RPush e l v) = Some l' \<Longrightarrow> list_ok l \<Longrightarrow> list_ok l'"
  by (auto split: if_splits intro: LPop_list_ok RPop_list_ok push_list_ok)

lemma move_elem_keeps: "db_ok m \<Longrightarrow> list_ok l \<Longrightarrow> iter_ok e \<Longrightarrow> keeps (move_elem e m src des a b l)"
  unfolding move_elem_def by (intro keeps_rules) (blast intro: list_states pick_ok)+

lemma lMoveList_keeps: "db_ok m \<Longrightarrow> iter_ok e \<Longrightarrow> keeps (lMoveList e m cmd)"
  unfolding lMoveList_def by (intro keeps_rules move_elem_keeps) (blast intro: list_states)+

lemma bXPop_tick_keeps:
  assumes pop: "\<And>l l' x. pop l = Some (l', x) \<Longrightarrow> list_ok l \<Longrightarrow> list_ok l'"
  shows "db_ok m \<Longrightarrow> keeps (bXPop_tick pop m ks)"
proof (induction ks arbitrary: m)
  case (Cons k ks)
  have "db_ok (db_put m k (VList l'))" if "cm_Get (db m) k = Some v" "v = VList l" "pop l = Some (l', x)" for v l l' x
    using pop [OF that(3) stored_list [OF that(1,2) Cons.prems]] Cons.prems by simp
  then show ?case unfolding bXPop_tick.simps
    by (intro keeps_rules Cons.IH) (blast intro: Cons.prems)+
qed (simp add: keeps_Some)

end
