(* ===== verification/Zset_Cmd.thy ===== *)
theory Zset_Cmd
  imports Memdb
begin

text \<open>
  The sorted set commands of \<open>src/memdb/sorted_set.go\<close>: ZADD, ZRANGE, ZREM and ZRANK.
\<close>

section \<open>ZADD\<close>

record zadd_opts =
  z_nx :: bool
  z_xx :: bool
  z_gt :: bool
  z_lt :: bool
  z_ch :: bool
  z_incr :: bool

definition zadd_opts0 :: zadd_opts where
  "zadd_opts0 = \<lparr>z_nx = False, z_xx = False, z_gt = False, z_lt = False, z_ch = False, z_incr = False\<rparr>"

text \<open>The options, and the index of the first argument that is none.\<close>

fun zadd_options :: "string list \<Rightarrow> nat \<Rightarrow> zadd_opts \<Rightarrow> zadd_opts \<times> nat" where
  "zadd_options [] idx f = (f, idx)"
| "zadd_options (x # xs) idx f =
     (if x = ''nx'' then zadd_options xs (idx + 1) (f\<lparr>z_nx := True\<rparr>)
      else if x = ''xx'' then zadd_options xs (idx + 1) (f\<lparr>z_xx := True\<rparr>)
      else if x = ''gt'' then zadd_options xs (idx + 1) (f\<lparr>z_gt := True\<rparr>)
      else if x = ''lt'' then zadd_options xs (idx + 1) (f\<lparr>z_lt := True\<rparr>)
      else if x = ''ch'' then zadd_options xs (idx + 1) (f\<lparr>z_ch := True\<rparr>)
      else if x = ''incr'' then zadd_options xs (idx + 1) (f\<lparr>z_incr := True\<rparr>)
      else (f, idx))"

definition skip_member :: "zadd_opts \<Rightarrow> f64 option \<Rightarrow> f64 \<Rightarrow> bool" where
  "skip_member f old score =
     (case old of None \<Rightarrow> z_xx f
      | Some s \<Rightarrow> z_nx f \<or> (z_lt f \<and> f_le s score) \<or> (z_gt f \<and> f_le score s) \<or> (\<not> z_incr f \<and> f_eq score s))"

text \<open>
  One member that is not skipped. With the option CH the old score is read without a check
  that there is one: a new member is a nil dereference.
\<close>

definition zadd_member :: "env \<Rightarrow> zadd_opts \<Rightarrow> Btree \<Rightarrow> f64 \<Rightarrow> string \<Rightarrow> int \<Rightarrow> f64 \<Rightarrow> (Btree \<times> int \<times> f64) option" where
  "zadd_member e f t score member retInt targetScore =
     (let old = map_option (\<lambda>i. Score (Value t i)) (GetByName t member);
          (r, targetScore) =
            (case old of
               Some s \<Rightarrow> if z_incr f then let s' = f_add e s score in (\<lparr>Names = [member], Score = s'\<rparr>, s')
                         else (\<lparr>Names = [member], Score = score\<rparr>, targetScore)
             | None \<Rightarrow> (\<lparr>Names = [member], Score = score\<rparr>, targetScore))
      in do {
        changed \<leftarrow> (if z_ch f then map_option (\<lambda>s. \<not> f_eq s score) old else Some False);
        let retInt = (if changed then retInt + 1 else if map_of (dict t) member = None then retInt + 1 else retInt);
        t \<leftarrow> (if old \<noteq> None then map_option fst (Delete e t member) else Some t);
        (t, _) \<leftarrow> Insert e t r;
        Some (t, retInt, targetScore) })"

text \<open>The loop over the pairs; an error reply leaves the changes made before it.\<close>

fun zadd_loop :: "env \<Rightarrow> zadd_opts \<Rightarrow> string list \<Rightarrow> Btree \<Rightarrow> int \<Rightarrow> f64 \<Rightarrow> (Btree \<times> (RedisData + int \<times> f64)) option" where
  "zadd_loop e f [] t retInt targetScore = Some (t, Inr (retInt, targetScore))"
| "zadd_loop e f [x] t retInt targetScore = Some (t, Inl (ErrorData ''ERR syntax error''))"
| "zadd_loop e f (x # member # xs) t retInt targetScore =
     (case f_parse e x of None \<Rightarrow> Some (t, Inl (ErrorData ''ERR value is not a valid float''))
      | Some score \<Rightarrow>
          if skip_member f (map_option (\<lambda>i. Score (Value t i)) (GetByName t member)) score
          then zadd_loop e f xs t retInt targetScore
          else do {
            (t, retInt, targetScore) \<leftarrow> zadd_member e f t score member retInt targetScore;
            zadd_loop e f xs t retInt targetScore })"

definition get_or_new_zset :: "MemDb \<Rightarrow> string \<Rightarrow> MemDb \<times> dbvalue" where
  "get_or_new_zset m key =
     (case cm_Get (db m) key of None \<Rightarrow> (db_put m key (VZSet NewBtree), VZSet NewBtree) | Some v \<Rightarrow> (m, v))"

definition zadd :: handler where
  "zadd e m cmd =
     (if length cmd < 4 then reply m (MakeWrongNumberArgs ''zadd'')
      else do {
        let elems = map str cmd;
        key \<leftarrow> nth_opt elems 1;
        let (f, idx) = zadd_options (take (length cmd - 4) (drop 2 elems)) 2 zadd_opts0;
        if (z_gt f \<and> z_lt f) \<or> (z_nx f \<and> z_gt f) \<or> (z_nx f \<and> z_lt f)
        then reply m (ErrorData ''ERR GT, LT, and/or NX options at the same time are not compatible'')
        else if z_incr f \<and> length cmd \<noteq> 5
        then reply m (ErrorData ''ERR INCR option supports a single increment-element pair'')
        else
          let (m, tem) = get_or_new_zset m key in
          (case tem of
             VZSet t \<Rightarrow> do {
               (t, res) \<leftarrow> zadd_loop e f (drop idx elems) t 0 0;
               let m = db_put m key (VZSet t);
               case res of Inl err \<Rightarrow> reply m err
               | Inr p \<Rightarrow> if z_incr f then reply m (BulkData (Some (f_fmt6 e (snd p)))) else reply m (IntData (fst p)) }
           | _ \<Rightarrow> reply m MakeWrongType) })"

section \<open>ZRANGE\<close>

record zrange_opts =
  withscore :: bool
  rev_opt :: bool
  bylex :: bool
  limit :: bool

text \<open>
  The options of ZRANGE. BYSCORE answers with an empty array at once, so the part of the
  handler for it is never reached. The number arguments of LIMIT are read without a check of
  their indices; they are visited again as options, which are ignored when unknown.
\<close>

fun zrange_options :: "env \<Rightarrow> cmdBytes \<Rightarrow> nat \<Rightarrow> nat \<Rightarrow> zrange_opts \<Rightarrow> (RedisData + zrange_opts) option" where
  "zrange_options e cmd i 0 f = Some (Inr f)"
| "zrange_options e cmd i (Suc n) f = do {
     a \<leftarrow> arg cmd (i + 4);
     let opt = lower e a;
     if opt = ''withscores'' then zrange_options e cmd (i + 1) n (f\<lparr>withscore := True\<rparr>)
     else if opt = ''rev'' then zrange_options e cmd (i + 1) n (f\<lparr>rev_opt := True\<rparr>)
     else if opt = ''limit'' then
       if i + 2 \<ge> length cmd then Some (Inl (ErrorData ''ERR syntax error''))
       else do {
         o1 \<leftarrow> arg cmd (i + 4 + 1);
         if Atoi o1 = None then Some (Inl (ErrorData ''ERR value is not an integer or out of range''))
         else do {
           o2 \<leftarrow> arg cmd (i + 4 + 2);
           if Atoi o2 = None then Some (Inl (ErrorData ''ERR value is not an integer or out of range''))
           else zrange_options e cmd (i + 1) n (f\<lparr>limit := True\<rparr>) } }
     else if opt = ''byscore'' then Some (Inl (MakeArrayData []))
     else if opt = ''bylex'' then zrange_options e cmd (i + 1) n (f\<lparr>bylex := True\<rparr>)
     else zrange_options e cmd (i + 1) n f }"

text \<open>The closure of the traversal: its state is the running index and the members so far.\<close>

definition zrange_visit :: "env \<Rightarrow> Btree \<Rightarrow> int \<Rightarrow> int \<Rightarrow> nat \<Rightarrow> int \<Rightarrow> int \<times> (string \<times> f64) list \<Rightarrow> (int \<times> (string \<times> f64) list) \<times> bool" where
  "zrange_visit e t start stop n i s =
     (let memberCount = fst s + 1 in
      if memberCount < start then ((memberCount, snd s), True)
      else if memberCount > stop then ((memberCount, snd s), False)
      else ((memberCount, snd s @ map (\<lambda>name. (name, Score (Value t n))) (iter e (nat i) (Names (Value t n)))), True))"

definition zrange_reply :: "env \<Rightarrow> zrange_opts \<Rightarrow> (string \<times> f64) list \<Rightarrow> RedisData" where
  "zrange_reply e f members =
     (let res = concat (map (\<lambda>(name, score). BulkData (Some name) # (if withscore f then [BulkData (Some (f_fmt6 e score))] else [])) members)
      in MakeArrayData (if rev_opt f then rev res else res))"

definition zrange :: handler where
  "zrange e m cmd =
     (if length cmd < 4 then reply m (MakeWrongNumberArgs ''zrange'')
      else do {
        key \<leftarrow> arg cmd 1;
        opts \<leftarrow> zrange_options e cmd 0 (length cmd - 4) \<lparr>withscore = False, rev_opt = False, bylex = False, limit = False\<rparr>;
        case opts of Inl err \<Rightarrow> reply m err
        | Inr f \<Rightarrow>
            if limit f \<and> \<not> bylex f
            then reply m (ErrorData ''ERR syntax error, LIMIT is only supported in combination with either BYSCORE or BYLEX'')
            else if bylex f \<and> withscore f
            then reply m (ErrorData ''ERR syntax error, WITHSCORES not supported in combination with BYLEX'')
            else if bylex f \<and> rev_opt f then reply m (MakeArrayData [])
            else do {
              a2 \<leftarrow> arg cmd 2;
              a3 \<leftarrow> arg cmd 3;
              case (if bylex f then Some 0 else Atoi a2) of
                None \<Rightarrow> reply m (ErrorData ''ERR value is not an integer or out of range'')
              | Some start \<Rightarrow> (case (if bylex f then Some 0 else Atoi a3) of
                  None \<Rightarrow> reply m (ErrorData ''ERR value is not an integer or out of range'')
                | Some stop \<Rightarrow> (case cm_Get (db m) key of None \<Rightarrow> reply m (MakeArrayData [])
                    | Some v \<Rightarrow> (case v of
                        VZSet t \<Rightarrow>
                          if tlen t < 0 then None
                          else
                            let stop = (if stop > tlen t then tlen t else stop);
                                members = snd (Ascend (zrange_visit e t start stop) t (- 1, []))
                            in reply m (zrange_reply e f members)
                      | _ \<Rightarrow> reply m MakeWrongType))) } })"

section \<open>ZREM and ZRANK\<close>

fun zrem_loop :: "env \<Rightarrow> Btree \<Rightarrow> string list \<Rightarrow> int \<Rightarrow> (Btree \<times> int) option" where
  "zrem_loop e t [] affected = Some (t, affected)"
| "zrem_loop e t (k # ks) affected = do {
     (t, found) \<leftarrow> Delete e t k;
     zrem_loop e t ks (if found then affected + 1 else affected) }"

definition zrem :: handler where
  "zrem e m cmd =
     (if length cmd < 3 then reply m (MakeWrongNumberArgs ''zrem'')
      else do {
        key \<leftarrow> map_option (lower e) (arg cmd 1);
        case cm_Get (db m) key of None \<Rightarrow> reply m (MakeArrayData [])
        | Some v \<Rightarrow> (case v of
            VZSet t \<Rightarrow> do {
              (t, affectedCount) \<leftarrow> zrem_loop e t (map str (drop 2 cmd)) 0;
              reply (db_put m key (VZSet t)) (IntData affectedCount) }
          | _ \<Rightarrow> reply m MakeWrongType) })"

definition zrank :: handler where
  "zrank e m cmd =
     (if length cmd \<noteq> 3 then reply m (MakeWrongNumberArgs ''zrank'')
      else do {
        key \<leftarrow> map_option (lower e) (arg cmd 1);
        name \<leftarrow> map_option (lower e) (arg cmd 2);
        case cm_Get (db m) key of None \<Rightarrow> reply m (BulkData None)
        | Some v \<Rightarrow> (case v of
            VZSet t \<Rightarrow> (case GetByName t name of None \<Rightarrow> reply m (BulkData None)
              | Some node \<Rightarrow> reply m (IntData (Rank t (Score (Value t node)))))
          | _ \<Rightarrow> reply m MakeWrongType) })"

section \<open>The invariant\<close>

lemma rotate_keeps_hpos:
  "rotateRight n = Some n' \<Longrightarrow> hpos n \<Longrightarrow> hpos n'" "rotateLeft n = Some n' \<Longrightarrow> hpos n \<Longrightarrow> hpos n'"
  by (induction n rule: rotateRight.induct; auto intro!: hpos_mk)
    (induction n rule: rotateLeft.induct; auto intro!: hpos_mk)

lemma insert_fix_hpos: "insert_fix i l r c = Some n \<Longrightarrow> hpos l \<Longrightarrow> hpos r \<Longrightarrow> hpos n"
proof -
  assume l: "hpos l" and r: "hpos r" and n: "insert_fix i l r c = Some n"
  have mk: "hpos (mk i l r)" using l r by (rule hpos_mk)
  then have "1 \<le> height (mk i l r)" by (simp add: mk_def)
  then show "hpos n"
    using n mk l r rotate_keeps_hpos
    by (auto simp: insert_fix_def Let_def split: if_splits bind_splits)
qed

lemma insert_hpos: "insert e n v t = Some (n', added, t') \<Longrightarrow> hpos n \<Longrightarrow> hpos n'"
proof (induction e n v t arbitrary: n' added t' rule: insert.induct)
  case (1 e v t)
  then show ?case using hpos_mk [of Nil Nil] by auto
next
  case (2 e i l r h v t)
  let ?c = "Comp (Value t i) (valstore t ! v)"
  consider "?c < 0" | "?c > 0" | "?c = 0" by linarith
  then show ?case
  proof cases
    case 1
    then obtain r' t1 where r': "insert e r v t = Some (r', added, t1)" "insert_fix i l r' ?c = Some n'"
      using "2.prems"(1) by (auto simp: Let_def split: bind_splits)
    show ?thesis using insert_fix_hpos [OF r'(2)] "2.IH"(1) [OF refl 1 r'(1)] "2.prems"(2) by simp
  next
    case 2
    then obtain l' t1 where l': "insert e l v t = Some (l', added, t1)" "insert_fix i l' r ?c = Some n'"
      using "2.prems"(1) by (auto simp: Let_def split: bind_splits)
    show ?thesis using insert_fix_hpos [OF l'(2)] "2.IH"(2) [OF refl _ 2 l'(1)] 2 "2.prems"(2) by simp
  next
    case 3
    then show ?thesis using "2.prems" by (auto simp: Let_def)
  qed
qed

lemma Insert_hpos: "Insert e t r = Some (t', b) \<Longrightarrow> hpos (root t) \<Longrightarrow> hpos (root t')"
  by (auto simp: Insert_def Let_def split: bind_splits dest: insert_hpos)

lemma deleteNode_hpos: "deleteNode e n target deleted t = Some (n', d, t') \<Longrightarrow> hpos n \<Longrightarrow> hpos n'"
  using deleteNode_total [of n e target deleted t] by auto

lemma Delete_hpos: "Delete e t k = Some (t', b) \<Longrightarrow> hpos (root t) \<Longrightarrow> hpos (root t')"
  by (auto simp: Delete_def split: option.splits bind_splits dest: deleteNode_hpos)

lemma zadd_member_hpos: "zadd_member e f t x k n y = Some (t', r) \<Longrightarrow> hpos (root t) \<Longrightarrow> hpos (root t')"
  unfolding zadd_member_def Let_def
  by (auto split: bind_splits if_splits option.splits prod.splits simp: case_prod_beta dest: Insert_hpos Delete_hpos)

lemma zadd_loop_hpos: "zadd_loop e f xs t n y = Some (t', r) \<Longrightarrow> hpos (root t) \<Longrightarrow> hpos (root t')"
proof (induction e f xs t n y rule: zadd_loop.induct)
  case (3 e f x member xs t n y)
  consider (1) s where "f_parse e x = Some s" | (2) "t' = t" using "3.prems"(1) by (cases "f_parse e x") auto
  then show ?case
  proof cases
    case 1
    show ?thesis
    proof (cases "skip_member f (map_option (\<lambda>i. Score (Value t i)) (GetByName t member)) s")
      case True
      then show ?thesis using "3.IH"(1) [OF 1 True] "3.prems" 1 by simp
    next
      case False
      then obtain t1 n1 y1 where z: "zadd_member e f t s member n y = Some (t1, n1, y1)" "zadd_loop e f xs t1 n1 y1 = Some (t', r)"
        using "3.prems"(1) 1 by (auto split: bind_splits)
      then show ?thesis using "3.IH"(2) [OF 1 False z(1) refl refl z(2)] zadd_member_hpos [OF z(1) "3.prems"(2)] by simp
    qed
  qed (use "3.prems" in simp)
qed auto

lemma zrem_loop_hpos: "zrem_loop e t ks n = Some (t', n') \<Longrightarrow> hpos (root t) \<Longrightarrow> hpos (root t')"
  by (induction ks arbitrary: t n) (auto split: bind_splits dest: Delete_hpos)

lemma get_or_new_zset_ok:
  "get_or_new_zset m k = (m', v) \<Longrightarrow> db_ok m \<Longrightarrow> db_ok m'" "get_or_new_zset m k = (m', VZSet t) \<Longrightarrow> db_ok m \<Longrightarrow> hpos (root t)"
  by (auto simp: get_or_new_zset_def NewBtree_def split: option.splits dest: stored_ok)

lemma stored_zset: "cm_Get (db m) k = Some v \<Longrightarrow> v = VZSet t \<Longrightarrow> db_ok m \<Longrightarrow> hpos (root t)"
  by (auto dest: stored_ok)

lemma VZSet_ok: "hpos (root t) \<Longrightarrow> value_ok (VZSet t)"
  by simp

lemmas zset_states = db_ok_put VZSet_ok stored_zset get_or_new_zset_ok zadd_loop_hpos zrem_loop_hpos

lemma zadd_keeps: "db_ok m \<Longrightarrow> keeps (zadd e m cmd)"
  unfolding zadd_def by (intro keeps_rules) (blast intro: zset_states)+

lemma zrem_keeps: "db_ok m \<Longrightarrow> keeps (zrem e m cmd)"
  unfolding zrem_def by (intro keeps_rules) (blast intro: zset_states)+

lemma zset_reads_keep:
  assumes "db_ok m"
  shows "keeps (zrange e m cmd)" "keeps (zrank e m cmd)"
  unfolding zrange_def zrank_def using assms by (intro keeps_rules; assumption)+

end
