(* ===== verification/Stream_Cmd.thy ===== *)
theory Stream_Cmd
  imports Memdb
begin

text \<open>
  The stream commands of \<open>src/memdb/stream.go\<close>: XADD and XRANGE.
\<close>

section \<open>XADD\<close>

record xadd_opts =
  nomkstream :: bool
  maxlen :: bool
  minid :: bool
  x_limit :: bool
  threshold :: int

definition xadd_opts0 :: xadd_opts where
  "xadd_opts0 = \<lparr>nomkstream = False, maxlen = False, minid = False, x_limit = False, threshold = 0\<rparr>"

text \<open>A complete identifier, as XADD parses it itself.\<close>

definition full_id :: "string \<Rightarrow> StreamID option" where
  "full_id s =
     (case Split (CHR ''-'') s of
        [a, b] \<Rightarrow> (case ParseInt a of None \<Rightarrow> None
          | Some stamp \<Rightarrow> map_option (\<lambda>n. \<lparr>stime = stamp, seqNum = n\<rparr>) (ParseInt b))
      | _ \<Rightarrow> None)"

definition minid_valid :: "string \<Rightarrow> bool" where
  "minid_valid s \<longleftrightarrow> (if CHR ''-'' \<in> set s then full_id s \<noteq> None else ParseInt s \<noteq> None)"

definition auto_id :: StreamID where
  "auto_id = \<lparr>stime = - 1, seqNum = - 1\<rparr>"

text \<open>The optional \<open>=\<close> or \<open>~\<close> after MAXLEN and MINID.\<close>

definition skip_sign :: "cmdBytes \<Rightarrow> cmdBytes" where
  "skip_sign cs = (case cs of [] \<Rightarrow> [] | v # vs \<Rightarrow> if str v = ''~'' \<or> str v = ''='' then vs else cs)"

lemma length_skip_sign: "length (skip_sign cs) \<le> length cs"
  by (simp add: skip_sign_def split: list.split)

text \<open>
  The loop over the options, on the arguments that are left; the result is the error reply,
  or the options, the identifier and the arguments after it. \<open>None\<close> is an argument index out
  of range, or the option \<open>~\<close>, which does not advance the index, so that the loop never ends.
  MINID does not step over its threshold: the next round reads it as the identifier.
\<close>

function (sequential) xadd_args :: "env \<Rightarrow> cmdBytes \<Rightarrow> xadd_opts \<Rightarrow> (RedisData + xadd_opts \<times> StreamID \<times> cmdBytes) option" where
  "xadd_args e [] f = None"
| "xadd_args e (c # cs) f =
     (let opt = lower e (str c) in
      if opt = ''nomkstream'' then xadd_args e cs (f\<lparr>nomkstream := True\<rparr>)
      else if opt = ''maxlen'' then
        (let cs1 = skip_sign cs in
         if cs1 = [] then None
         else (case Atoi (str (hd cs1)) of None \<Rightarrow> Some (Inl (ErrorData ''ERR value is not an integer or out of range''))
           | Some n \<Rightarrow> if n < 0 then Some (Inl (ErrorData ''ERR The MAXLEN argument must be >= 0.''))
                       else xadd_args e (tl cs1) (f\<lparr>maxlen := True, threshold := n\<rparr>)))
      else if opt = ''minid'' then
        (let cs1 = skip_sign cs in
         if cs1 = [] then None
         else if \<not> minid_valid (str (hd cs1)) then Some (Inl (ErrorData id_err))
         else xadd_args e cs1 (f\<lparr>minid := True\<rparr>))
      else if opt = ''limit'' then
        (case cs of [] \<Rightarrow> None
         | v # vs \<Rightarrow> (case Atoi (str v) of None \<Rightarrow> Some (Inl (ErrorData ''ERR value is not an integer or out of range''))
             | Some _ \<Rightarrow> xadd_args e vs (f\<lparr>x_limit := True\<rparr>)))
      else if opt = ''~'' then None
      else if str c = ''*'' then Some (Inr (f, auto_id, cs))
      else (case full_id (str c) of None \<Rightarrow> Some (Inl (ErrorData id_err)) | Some i \<Rightarrow> Some (Inr (f, i, cs))))"
  by pat_completeness auto
termination
  by (relation "measure (\<lambda>(e, cs, f). length cs)") (auto simp: le_imp_less_Suc length_skip_sign less_Suc_eq_le le_diff_conv le_SucI)

text \<open>The trim of MINID runs over the identifiers the stream had before it.\<close>

fun minid_loop :: "StreamID \<Rightarrow> StreamID list \<Rightarrow> int \<Rightarrow> Stream \<Rightarrow> Stream option" where
  "minid_loop ID [] n s = Some s"
| "minid_loop ID (i # ids) n s =
     (if GreaterEqual i ID then do { (s, _) \<leftarrow> DropFirstN s n; minid_loop ID ids n s }
      else minid_loop ID ids (n + 1) s)"

definition xadd_trim :: "xadd_opts \<Rightarrow> StreamID \<Rightarrow> Stream \<Rightarrow> Stream option" where
  "xadd_trim f ID s0 = do {
     s \<leftarrow> (let n = int (length (timeStamps s0)) in
           if maxlen f \<and> n > threshold f then map_option fst (DropFirstN s0 (n - threshold f)) else Some s0);
     if minid f then minid_loop ID (timeStamps s) 0 s else Some s }"

text \<open>The end of XADD on the stream under the key, or on a new one.\<close>

definition xadd_entry :: "env \<Rightarrow> MemDb \<Rightarrow> string \<Rightarrow> xadd_opts \<Rightarrow> StreamID \<Rightarrow> string list \<Rightarrow> Stream \<Rightarrow> result" where
  "xadd_entry e m key f ID kvPairs s =
     (case AddEntry e s ID kvPairs of Inl err \<Rightarrow> reply m (ErrorData top_err)
      | Inr p \<Rightarrow> do {
          s \<leftarrow> xadd_trim f (snd p) (fst p);
          reply (db_put m key (VStream s)) (BulkData (Some (Format (snd p)))) })"

definition xadd :: handler where
  "xadd e m cmd =
     (if length cmd < 5 then reply m (MakeWrongNumberArgs ''xadd'')
      else do {
        key \<leftarrow> arg cmd 1;
        args \<leftarrow> xadd_args e (drop 2 cmd) xadd_opts0;
        case args of Inl err \<Rightarrow> reply m err
        | Inr p \<Rightarrow> (case p of (f, ID, rest) \<Rightarrow>
            if maxlen f \<and> minid f
            then reply m (ErrorData ''ERR syntax error, MAXLEN and MINID options at the same time are not compatible'')
            else if x_limit f
            then reply m (ErrorData ''ERR syntax error, LIMIT cannot be used without the special ~ option'')
            else
              let kvPairs = map str rest in
              if odd (length kvPairs) then reply m (MakeWrongNumberArgs ''xadd'')
              else (case cm_Get (db m) key of
                  None \<Rightarrow> if nomkstream f then reply m (BulkData None) else xadd_entry e m key f ID kvPairs NewStream
                | Some v \<Rightarrow> (case v of VStream s \<Rightarrow> xadd_entry e m key f ID kvPairs s | _ \<Rightarrow> reply m MakeWrongType))) })"

section \<open>XRANGE\<close>

definition range_id :: "string \<Rightarrow> string \<Rightarrow> string + StreamID" where
  "range_id unbounded s = (if s = unbounded then Inr auto_id else Parse s)"

definition xrange_reply :: "StreamID list \<Rightarrow> string list list \<Rightarrow> RedisData" where
  "xrange_reply ids entries =
     MakeArrayData (map (\<lambda>(i, vals). MakeArrayData [StringData (Format i), MakeArrayData (map StringData vals)]) (zip ids entries))"

definition xrange :: handler where
  "xrange e m cmd =
     (if length cmd < 4 then reply m (MakeWrongNumberArgs ''xrange'')
      else do {
        key \<leftarrow> arg cmd 1;
        a2 \<leftarrow> arg cmd 2;
        a3 \<leftarrow> arg cmd 3;
        case range_id ''-'' a2 of Inl err \<Rightarrow> reply m (ErrorData err)
        | Inr start \<Rightarrow> (case range_id ''+'' a3 of Inl err \<Rightarrow> reply m (ErrorData err)
          | Inr stop \<Rightarrow>
              let (m, tem) = (case cm_Get (db m) key of None \<Rightarrow> (db_put m key (VStream NewStream), VStream NewStream) | Some v \<Rightarrow> (m, v))
              in (case tem of
                  VStream s \<Rightarrow> (case StreamRange s start stop of None \<Rightarrow> Some (m, None)
                    | Some p \<Rightarrow> if length (fst p) = length (snd p) \<and> fst p \<noteq> [] then reply m (xrange_reply (fst p) (snd p))
                                else Some (m, None))
                | _ \<Rightarrow> reply m MakeWrongType)) })"

section \<open>The invariant\<close>

lemma minid_loop_ok: "minid_loop i ids n s = Some s' \<Longrightarrow> stream_ok s \<Longrightarrow> stream_ok s'"
  by (induction ids arbitrary: n s) (auto split: if_splits bind_splits dest: DropFirstN_ok)

lemma xadd_trim_ok: "xadd_trim f i s = Some s' \<Longrightarrow> stream_ok s \<Longrightarrow> stream_ok s'"
  by (auto simp: xadd_trim_def Let_def split: if_splits bind_splits dest!: minid_loop_ok dest: DropFirstN_ok)

lemma xadd_entry_keeps: "db_ok m \<Longrightarrow> stream_ok s \<Longrightarrow> keeps (xadd_entry e m k f i kv s)"
  unfolding xadd_entry_def
  by (intro keeps_rules) (auto intro!: db_ok_put dest!: xadd_trim_ok dest: AddEntry_ok)

lemma stored_stream: "cm_Get (db m) k = Some v \<Longrightarrow> v = VStream s \<Longrightarrow> db_ok m \<Longrightarrow> stream_ok s"
  by (auto dest: stored_ok)

lemma xadd_keeps: "db_ok m \<Longrightarrow> keeps (xadd e m cmd)"
  unfolding xadd_def
  by (intro keeps_rules xadd_entry_keeps) (auto intro: stored_stream)

lemma xrange_keeps: "db_ok m \<Longrightarrow> keeps (xrange e m cmd)"
  unfolding xrange_def
  by (intro keeps_rules) (auto split: option.splits intro!: db_ok_put)

end
