(* ===== verification/Pubsub_Cmd.thy ===== *)
theory Pubsub_Cmd
  imports Memdb
begin

text \<open>
  The commands of \<open>src/memdb/pubsub.go\<close> and \<open>src/memdb/raft_command.go\<close>: SUBSCRIBE and
  PUBLISH, RCONF and MEMBER.
\<close>

section \<open>Handlers\<close>

text \<open>The \<open>k\<close>-th channel of the command is subscribed to under the \<open>k\<close>-th unique identifier.\<close>

fun subscribe_loop :: "env \<Rightarrow> nat \<Rightarrow> MemDb \<Rightarrow> string list \<Rightarrow> MemDb option" where
  "subscribe_loop e k m [] = Some m"
| "subscribe_loop e k m (key # ks) = do {
     let ID = uuid e k;
     cm \<leftarrow> Subscribe (SubChans m) key ID (conn_id e);
     subscribe_loop e (k + 1) (m\<lparr>SubChans := cm, services := (conn_id e, key, ID) # services m\<rparr>) ks }"

definition subscribe :: handler where
  "subscribe e m cmd =
     (if length cmd < 2 then reply m (MakeWrongNumberArgs ''subscribe'')
      else do {
        let ks = map str (drop 1 cmd);
        m \<leftarrow> subscribe_loop e 0 m ks;
        reply m (MakeArrayData (concat (map (\<lambda>key. [BulkData (Some ''subscribe''), BulkData (Some key), IntData 1]) ks))) })"

text \<open>The goroutine of a subscription when its client leaves.\<close>

definition service_ends :: "MemDb \<Rightarrow> nat \<times> string \<times> string \<Rightarrow> MemDb" where
  "service_ends m s = m\<lparr>SubChans := UnSubscribe (SubChans m) (fst (snd s)) (snd (snd s)), services := remove1 s (services m)\<rparr>"

definition publish :: handler where
  "publish e m cmd =
     (if length cmd \<noteq> 3 then reply m (MakeWrongNumberArgs ''publish'')
      else do {
        key \<leftarrow> arg cmd 1;
        val \<leftarrow> arg cmd 2;
        let (cm, n, out) = Send e (SubChans m) key val;
        reply (m\<lparr>SubChans := cm, written := written m @ out\<rparr>) (IntData n) })"

text \<open>\<open>strconv.ParseUint(s, 10, 64)\<close>: no sign.\<close>

definition ParseUint :: "string \<Rightarrow> nat option" where
  "ParseUint s = (case parse_nat s of None \<Rightarrow> None | Some n \<Rightarrow> if n < 2 ^ 64 then Some n else None)"

definition rconf :: handler where
  "rconf e m cmd =
     (if length cmd < 3 then reply m (MakeWrongNumberArgs ''rconf'')
      else if \<not> in_cluster e
      then reply m (ErrorData ''ERR can not resolve conf change channel.l Make sure server runs in cluster mode. '')
      else do {
        a1 \<leftarrow> arg cmd 1;
        let act = lower e a1;
        if act \<noteq> ''add'' \<and> act \<noteq> ''delete'' \<and> act \<noteq> ''update'' then reply m (ErrorData ''unrecognized key'')
        else do {
          url \<leftarrow> (if act = ''add'' then arg cmd 3 else Some []);
          let actType = (if act = ''add'' then ConfChangeAddNode else if act = ''delete'' then ConfChangeRemoveNode else ConfChangeUpdateNode);
          a2 \<leftarrow> arg cmd 2;
          case ParseUint a2 of None \<Rightarrow> reply m (ErrorData ''ERR value is not integer or out of range'')
          | Some nodeID \<Rightarrow>
              reply (m\<lparr>confChanges := confChanges m @ [\<lparr>Transition = 2, Changes = [(actType, nodeID)], Context = url\<rparr>]\<rparr>)
                (StringData ''send changeV2 to confChange'') } })"

definition MemberList :: handler where
  "MemberList e m cmd =
     (case Raft m of None \<Rightarrow> reply m (ErrorData ''raft node is not initialized. '')
      | Some peers \<Rightarrow> reply m (MakeArrayData (map StringData peers)))"

definition Member :: handler where
  "Member e m cmd = do {
     a1 \<leftarrow> arg cmd 1;
     if lower e a1 = ''list'' then MemberList e m cmd
     else reply m (ErrorData (''command not found for member '' @ a1)) }"

section \<open>The invariant\<close>

lemma subscribe_loop_ok: "subscribe_loop e k m ks = Some m' \<Longrightarrow> db_ok m \<Longrightarrow> db_ok m'"
proof (induction ks arbitrary: k m)
  case (Cons key ks)
  from Cons.prems(1) obtain cm where "subscribe_loop e (k + 1) (m\<lparr>SubChans := cm, services := (conn_id e, key, uuid e k) # services m\<rparr>) ks = Some m'"
    by (auto simp: Let_def split: bind_splits)
  then show ?case by (rule Cons.IH) (use Cons.prems(2) in simp)
qed simp

lemma other_cmds_keep:
  assumes "db_ok m"
  shows "keeps (subscribe e m cmd)" "keeps (publish e m cmd)" "keeps (rconf e m cmd)" "keeps (MemberList e m cmd)"
    "keeps (Member e m cmd)"
  unfolding subscribe_def publish_def rconf_def Member_def MemberList_def
  by (intro keeps_rules; use assms in \<open>auto intro: subscribe_loop_ok\<close>)+

lemma service_ends_db_ok: "db_ok m \<Longrightarrow> db_ok (service_ends m s)"
  by (simp add: service_ends_def)

section \<open>Delivery\<close>



text \<open>
  A subscriber can be lost: when the write to one of two subscribers fails, \<open>Send\<close> lowers the
  number of subscribers and removes the connection; when that client's goroutine then
  unsubscribes, the number is lowered again, reaches zero, and the channel is deleted together
  with the other subscriber, who gets no further message.
\<close>

theorem publish_loses_subscriber:
  assumes "cm_ok (SubChans m)" and "cm_Get (SubChans m) key = Some \<lparr>conns = [(i, c), (j, d)], numSubs = 2\<rparr>"
    and "i \<noteq> j" and "\<not> conn_ok e c" and "conn_ok e d" and "iter e 0 [i, j] = [i, j]"
  shows "\<exists>m'. publish e m [Some p, Some key, Some val] = reply m' (IntData 1)
    \<and> subscribers (SubChans m') key = [j \<mapsto> d]
    \<and> (let m'' = service_ends m' (c, key, i) in subscribers (SubChans m'') key = Map.empty
        \<and> publish e m'' [Some p, Some key, Some val] = reply m'' (IntData 0))"
proof -
  let ?ch = "\<lparr>conns = [(j, d)], numSubs = 1\<rparr>"
  let ?m' = "m\<lparr>SubChans := cm_put (SubChans m) key ?ch, written := written m @ [(d, message key val)]\<rparr>"
  let ?m'' = "service_ends ?m' (c, key, i)"
  have send: "Send e (SubChans m) key val = (cm_put (SubChans m) key ?ch, 1, [(d, message key val)])"
    using assms(2-6) by (simp add: Send_def)
  have pub: "publish e m [Some p, Some key, Some val] = reply ?m' (IntData 1)" using send by (simp add: publish_def)
  have sub: "subscribers (SubChans ?m') key = [j \<mapsto> d]" using assms(1) by (simp add: subscribers_def)
  have none: "cm_Get (SubChans ?m'') key = None"
    using assms(1,3) by (simp add: service_ends_def UnSubscribe_def Let_def)
  then have "publish e ?m'' [Some p, Some key, Some val] = reply ?m'' (IntData 0)" by (simp add: publish_def Send_def)
  moreover have "subscribers (SubChans ?m'') key = Map.empty" using none by (simp add: subscribers_def)
  ultimately show ?thesis using pub sub by (intro exI [of _ ?m']) (simp add: Let_def)
qed

theorem publish_loses_subscriber_witness:
  "\<exists>m'. publish ((env_at 0)\<lparr>conn_ok := (\<lambda>c. c \<noteq> 1)\<rparr>)
       ((NewMemDb 1)\<lparr>SubChans := cm_put (NewChanMap 1) ''news'' \<lparr>conns = [(''x'', 1), (''y'', 2)], numSubs = 2\<rparr>\<rparr>)
       [Some ''publish'', Some ''news'', Some ''hi''] = reply m' (IntData 1)
     \<and> subscribers (SubChans m') ''news'' = [''y'' \<mapsto> 2]
     \<and> subscribers (SubChans (service_ends m' (1, ''news'', ''x''))) ''news'' = Map.empty"
  using publish_loses_subscriber [of "(NewMemDb 1)\<lparr>SubChans := cm_put (NewChanMap 1) ''news'' \<lparr>conns = [(''x'', 1), (''y'', 2)], numSubs = 2\<rparr>\<rparr>"
      "''news''" "''x''" 1 "''y''" 2 "(env_at 0)\<lparr>conn_ok := (\<lambda>c. c \<noteq> 1)\<rparr>" "''publish''" "''hi''"]
  by (simp add: NewChanMap_def Let_def) blast

end
