(* ===== verification/Server.thy ===== *)
theory Server
  imports Keys_Cmd String_Cmd Set_Cmd Hash_Cmd List_Cmd Zset_Cmd Stream_Cmd Pubsub_Cmd
begin

text \<open>
  The command table (\<open>src/memdb/command.go\<close>, \<open>src/main.go\<close>), the execution of a command
  (\<open>src/memdb/db.go\<close>), the manager of the databases and the loops that serve a client, alone and
  in a cluster (\<open>src/server/db_manager.go\<close>, \<open>src/server/server.go\<close>,
  \<open>src/server/cmd_middleware.go\<close>).
\<close>

section \<open>The command table\<close>

text \<open>
  A command ends with a reply (\<open>None\<close> is nil), or waits: BLPOP (\<open>True\<close>) and BRPOP (\<open>False\<close>)
  poll the given keys until an element is found or their timer fires.
\<close>

datatype outcome = Reply "RedisData option" | Waiting bool "string list"

type_synonym executor = "env \<Rightarrow> MemDb \<Rightarrow> cmdBytes \<Rightarrow> (MemDb \<times> outcome) option"

definition run :: "handler \<Rightarrow> executor" where
  "run h e m cmd = map_option (\<lambda>(m, r). (m, Reply r)) (h e m cmd)"

definition blPopList :: executor where
  "blPopList e m cmd = do {
     s \<leftarrow> bXPop_start cmd;
     Some (m, case s of Inl err \<Rightarrow> Reply (Some err) | Inr ks \<Rightarrow> Waiting True ks) }"

definition brPopList :: executor where
  "brPopList e m cmd = do {
     s \<leftarrow> bXPop_start cmd;
     Some (m, case s of Inl err \<Rightarrow> Reply (Some err) | Inr ks \<Rightarrow> Waiting False ks) }"

type_synonym cmd_table = "(string \<times> executor) list"

definition RegisterCommand :: "string \<times> executor \<Rightarrow> cmd_table \<Rightarrow> cmd_table" where
  "RegisterCommand c ct = AList.update (fst c) (snd c) ct"

definition RegisterKeyCommands :: "cmd_table \<Rightarrow> cmd_table" where
  "RegisterKeyCommands = fold RegisterCommand
     [(''ping'', run pingKeys), (''del'', run delKey), (''exists'', run existsKey), (''keys'', run keysKey),
      (''expire'', run expireKey), (''persist'', run persistKey), (''ttl'', run ttlKey), (''type'', run typeKey),
      (''rename'', run renameKey)]"

definition RegisterStringCommands :: "cmd_table \<Rightarrow> cmd_table" where
  "RegisterStringCommands = fold RegisterCommand
     [(''set'', run setString), (''get'', run getString), (''getrange'', run getRangeString), (''setrange'', run setRangeString),
      (''mget'', run mGetString), (''mset'', run mSetString), (''setex'', run setExString), (''setnx'', run setNxString),
      (''strlen'', run strLenString), (''incr'', run incrString), (''incrby'', run incrByString), (''decr'', run decrString),
      (''decrby'', run decrByString), (''incrbyfloat'', run incrByFloatString), (''append'', run appendString)]"

definition RegisterListCommands :: "cmd_table \<Rightarrow> cmd_table" where
  "RegisterListCommands = fold RegisterCommand
     [(''llen'', run lLenList), (''lindex'', run lIndexList), (''lpos'', run lPosList), (''lpop'', run lPopList),
      (''rpop'', run rPopList), (''lpush'', run lPushList), (''lpushx'', run lPushXList), (''rpush'', run rPushList),
      (''rpushx'', run rPushXList), (''lset'', run lSetList), (''lrem'', run lRemList), (''ltrim'', run lTrimList),
      (''lrange'', run lRangeList), (''lmove'', run lMoveList), (''blpop'', blPopList), (''brpop'', brPopList)]"

definition RegisterSetCommands :: "cmd_table \<Rightarrow> cmd_table" where
  "RegisterSetCommands = fold RegisterCommand
     [(''sadd'', run sAddSet), (''scard'', run sCardSet), (''sdiff'', run sDiffSet), (''sdiffstore'', run sDiffStoreSet),
      (''sinter'', run sInterSet), (''sinterstore'', run sInterStoreSet), (''sismember'', run sIsMemberSet),
      (''smembers'', run sMembersSet), (''smove'', run sMoveSet), (''spop'', run sPopSet), (''srandmember'', run sRandMemberSet),
      (''srem'', run sRemSet), (''sunion'', run sUnionSet), (''sunionstore'', run sUnionStoreSet)]"

definition RegisterHashCommands :: "cmd_table \<Rightarrow> cmd_table" where
  "RegisterHashCommands = fold RegisterCommand
     [(''hdel'', run hDelHash), (''hexists'', run hExistsHash), (''hget'', run hGetHash), (''hgetall'', run hGetAllHash),
      (''hincrby'', run hIncrByHash), (''hincrbyfloat'', run hIncrByFloatHash), (''hkeys'', run hKeysHash), (''hlen'', run hLenHash),
      (''hmget'', run hMGetHash), (''hset'', run hSetHash), (''hsetnx'', run hSetNxHash), (''hvals'', run hValsHash),
      (''hstrlen'', run hStrLenHash), (''hrandfield'', run hRandFieldHash)]"

definition RegisterPubSubCommands :: "cmd_table \<Rightarrow> cmd_table" where
  "RegisterPubSubCommands = fold RegisterCommand [(''subscribe'', run subscribe), (''publish'', run publish)]"

definition RegisterSortedSetCommands :: "cmd_table \<Rightarrow> cmd_table" where
  "RegisterSortedSetCommands = fold RegisterCommand
     [(''zadd'', run zadd), (''zrange'', run zrange), (''zrem'', run zrem), (''zrank'', run zrank)]"

definition RegisterStreamCommands :: "cmd_table \<Rightarrow> cmd_table" where
  "RegisterStreamCommands = fold RegisterCommand [(''xadd'', run xadd), (''xrange'', run xrange)]"

definition RegisterRaftCommand :: "cmd_table \<Rightarrow> cmd_table" where
  "RegisterRaftCommand = fold RegisterCommand [(''rconf'', run rconf), (''member'', run Member)]"

text \<open>The table after \<open>init\<close> of \<open>src/main.go\<close>.\<close>

definition CmdTable :: cmd_table where
  "CmdTable = RegisterRaftCommand (RegisterStreamCommands (RegisterSortedSetCommands (RegisterPubSubCommands
     (RegisterHashCommands (RegisterSetCommands (RegisterListCommands (RegisterStringCommands (RegisterKeyCommands []))))))))"

definition MakeCommandBytes :: "string \<Rightarrow> cmdBytes" where
  "MakeCommandBytes input = map Some (Split (CHR '' '') input)"

text \<open>\<open>MemDb.ExecCommand\<close>.\<close>

definition ExecCommand :: "env \<Rightarrow> MemDb \<Rightarrow> cmdBytes \<Rightarrow> (MemDb \<times> outcome) option" where
  "ExecCommand e m cmd =
     (case cmd of [] \<Rightarrow> Some (m, Reply None)
      | c # _ \<Rightarrow>
          let cmdName = lower e (str c) in
          (case map_of CmdTable cmdName of
             None \<Rightarrow> Some (m, Reply (Some (MakeErrorData [''ERR unknown command '', cmdName])))
           | Some command \<Rightarrow> command e m cmd))"

section \<open>The manager\<close>

record Manager =
  CurrentDB :: nat
  DBs :: "MemDb list"

text \<open>No database at all is an index out of range.\<close>

definition NewManager :: "int \<Rightarrow> int \<Rightarrow> Manager option" where
  "NewManager Databases ShardNum =
     (if Databases \<le> 0 then None else Some \<lparr>CurrentDB = 0, DBs = replicate (nat Databases) (NewMemDb ShardNum)\<rparr>)"

definition Select :: "Manager \<Rightarrow> cmdBytes \<Rightarrow> (Manager \<times> RedisData) option" where
  "Select mg cmd =
     (if length cmd \<noteq> 2 then Some (mg, MakeWrongNumberArgs ''select'')
      else do {
        a1 \<leftarrow> arg cmd 1;
        Some (case Atoi a1 of None \<Rightarrow> (mg, ErrorData ''ERR value is not an integer or out of range'')
          | Some dbIdx \<Rightarrow>
              if dbIdx \<ge> int (length (DBs mg)) \<or> dbIdx < 0
              then (mg, ErrorData (''ERR DB index is out of range with maximum '' @ Itoa (int (length (DBs mg)))))
              else (mg\<lparr>CurrentDB := nat dbIdx\<rparr>, StringData ''OK'')) })"

text \<open>A command on the current database.\<close>

definition on_current :: "(MemDb \<Rightarrow> (MemDb \<times> 'a) option) \<Rightarrow> Manager \<Rightarrow> (Manager \<times> 'a) option" where
  "on_current f mg = do {
     m \<leftarrow> nth_opt (DBs mg) (CurrentDB mg);
     (m, r) \<leftarrow> f m;
     Some (mg\<lparr>DBs := (DBs mg)[CurrentDB mg := m]\<rparr>, r) }"

definition Manager_ExecCommand :: "env \<Rightarrow> Manager \<Rightarrow> cmdBytes \<Rightarrow> (Manager \<times> outcome) option" where
  "Manager_ExecCommand e mg cmd =
     (case cmd of [] \<Rightarrow> Some (mg, Reply None)
      | c # _ \<Rightarrow>
          let cmdName = lower e (str c) in
          if cmdName = ''select'' then map_option (\<lambda>(mg, r). (mg, Reply (Some r))) (Select mg cmd)
          else (case map_of CmdTable cmdName of
             None \<Rightarrow> Some (mg, Reply (Some (MakeErrorData [''ERR unknown command '', cmdName])))
           | Some command \<Rightarrow> on_current (\<lambda>m. command e m cmd) mg))"

definition ExecStrCommand :: "env \<Rightarrow> Manager \<Rightarrow> string \<Rightarrow> (Manager \<times> outcome) option" where
  "ExecStrCommand e mg cmdStr =
     (let cmd = Split (CHR '' '') cmdStr in
      if cmd = [] then Some (mg, Reply None)
      else
        let cmdName = lower e (hd cmd); byteCmd = map Some cmd in
        if cmdName = ''select'' then map_option (\<lambda>(mg, r). (mg, Reply (Some r))) (Select mg byteCmd)
        else (case map_of CmdTable cmdName of
           None \<Rightarrow> Some (mg, Reply (Some (MakeErrorData [''ERR unknown command '', cmdName])))
         | Some command \<Rightarrow> on_current (\<lambda>m. command e m byteCmd) mg))"

section \<open>Serving a client\<close>

text \<open>The bytes written for a reply; a nil reply is reported as an unknown error.\<close>

definition reply_bytes :: "RedisData option \<Rightarrow> string" where
  "reply_bytes r = ToBytes (case r of Some d \<Rightarrow> d | None \<Rightarrow> ErrorData ''unknown error'')"

text \<open>
  What the loop of \<open>Handle\<close> does with one result of the parser: close the connection, write
  bytes and go on, or wait in a blocking command.
\<close>

datatype served = Close | Write string | Block bool "string list"

definition serve :: "env \<Rightarrow> Manager \<Rightarrow> ParsedRes \<Rightarrow> (Manager \<times> served) option" where
  "serve e mg p =
     (case p of
        PErr _ \<Rightarrow> Some (mg, Close)
      | PData d \<Rightarrow> (case d of
          ArrayData xs \<Rightarrow> map_option
            (\<lambda>(mg, r). (mg, case r of Reply res \<Rightarrow> Write (reply_bytes res) | Waiting fromLeft ks \<Rightarrow> Block fromLeft ks))
            (Manager_ExecCommand e mg (ToCommand xs))
        | _ \<Rightarrow> Some (mg, Write [])))"

text \<open>
  \<open>Handle\<close> on the results of the parser, one environment for each; it stops at the end of the
  connection or at a blocking command. The result is the manager, the bytes written, the
  results that are left, and what the client waits for.
\<close>

fun Handle :: "(nat \<Rightarrow> env) \<Rightarrow> nat \<Rightarrow> Manager \<Rightarrow> ParsedRes list \<Rightarrow>
    (Manager \<times> string \<times> ParsedRes list \<times> (bool \<times> string list) option) option" where
  "Handle es k mg [] = Some (mg, [], [], None)"
| "Handle es k mg (p # ps) = do {
     (mg, s) \<leftarrow> serve (es k) mg p;
     case s of Close \<Rightarrow> Some (mg, [], ps, None)
     | Block fromLeft ks \<Rightarrow> Some (mg, [], ps, Some (fromLeft, ks))
     | Write out \<Rightarrow> map_option (\<lambda>(mg, out', rest). (mg, out @ out', rest)) (Handle es (k + 1) mg ps) }"

section \<open>Cluster mode\<close>

type_synonym filterFunc = "cmdBytes \<Rightarrow> (string + cmdBytes) option"

fun Filter :: "filterFunc list \<Rightarrow> cmdBytes \<Rightarrow> (string + cmdBytes) option" where
  "Filter [] cmd = Some (Inr cmd)"
| "Filter (f # fs) cmd = do {
     r \<leftarrow> f cmd;
     case r of Inl err \<Rightarrow> Some (Inl err) | Inr cmd \<Rightarrow> Filter fs cmd }"

definition ClusterCmdFilter :: "env \<Rightarrow> filterFunc" where
  "ClusterCmdFilter e cmd = do {
     command \<leftarrow> map_option (lower e) (arg cmd 0);
     if command = ''publish'' \<or> command = ''subscribe''
     then Some (Inl ''does not support pub/sub in cluster mode yet. '')
     else Some (Inr cmd) }"

record RaftProposal =
  Data :: string
  ID :: string

datatype cluster_served = CClose | CWrite string | Propose RaftProposal | CBlock bool "string list"

text \<open>
  \<open>HandleCluster\<close> with one result of the parser, up to the proposal; the reply to a proposal is
  written when it has been committed. RCONF is executed at once.
\<close>

definition serve_cluster :: "env \<Rightarrow> Manager \<Rightarrow> ParsedRes \<Rightarrow> (Manager \<times> cluster_served) option" where
  "serve_cluster e mg p =
     (case p of
        PErr _ \<Rightarrow> Some (mg, CClose)
      | PData d \<Rightarrow> (case d of
          ArrayData xs \<Rightarrow> do {
            r \<leftarrow> Filter [ClusterCmdFilter e] (ToCommand xs);
            case r of Inl err \<Rightarrow> Some (mg, CWrite (ToBytes (MakeErrorData [''command does not pass checks''])))
            | Inr cmd \<Rightarrow> do {
                let cmdStrings = ToStringCommand xs;
                c0 \<leftarrow> nth_opt cmdStrings 0;
                if c0 = ''rconf'' then do {
                  (mg, r) \<leftarrow> Manager_ExecCommand (e\<lparr>in_cluster := True\<rparr>) mg cmd;
                  case r of Reply (Some res) \<Rightarrow> Some (mg, CWrite (ToBytes res))
                  | Reply None \<Rightarrow> None
                  | Waiting fromLeft ks \<Rightarrow> Some (mg, CBlock fromLeft ks) }
                else Some (mg, Propose \<lparr>Data = Join (CHR '' '') cmdStrings, ID = uuid e 0\<rparr>) } }
        | _ \<Rightarrow> Some (mg, CWrite [])))"

text \<open>
  \<open>handleClusterCommits\<close>: every committed proposal is executed on the manager of the replica, in
  the order of the log; the results go to the callbacks. A blocking command stalls the loop:
  the proposals after it are left.
\<close>

fun handleClusterCommits :: "(nat \<Rightarrow> env) \<Rightarrow> nat \<Rightarrow> Manager \<Rightarrow> RaftProposal list \<Rightarrow>
    (Manager \<times> (string \<times> RedisData option) list \<times> RaftProposal list) option" where
  "handleClusterCommits es k mg [] = Some (mg, [], [])"
| "handleClusterCommits es k mg (p # ps) = do {
     (mg, r) \<leftarrow> ExecStrCommand ((es k)\<lparr>in_cluster := True\<rparr>) mg (Data p);
     case r of Waiting fromLeft ks \<Rightarrow> Some (mg, [], p # ps)
     | Reply res \<Rightarrow> map_option (\<lambda>(mg, rs, rest). (mg, (ID p, res) # rs, rest)) (handleClusterCommits es (k + 1) mg ps) }"

end
