(* ===== verification/Raft_Run.thy ===== *)
theory Raft_Run
  imports Raft_Node
begin

text \<open>
  The node with its own goroutine, \<open>src/etcd/raft/node.go\<close>. The goroutine \<open>run\<close> prepares its channels and
  then serves one of them, in a loop; a turn of the loop is \<open>run_head\<close> followed by \<open>run_select\<close>. The
  operations of the interface \<open>Node\<close> send on one of the channels and are the events that a turn takes.
  A node that was stopped takes no event. Contexts that are cancelled, and \<open>Status\<close>, which copies the
  state out, are left out.
\<close>

section \<open>The goroutine\<close>

text \<open>The local variables \<open>propc\<close>, \<open>readyc\<close> and \<open>advancec\<close> are nil or the channel of the node.\<close>

record node =
  nRn :: RawNode
  nRd :: Ready
  nPropc :: bool
  nReadyc :: bool
  nAdvancec :: bool
  nLead :: nat
  nDone :: bool

definition emptyReady :: Ready where
  "emptyReady = \<lparr>rdSoftState = None, rdHardState = emptyState, rdReadStates = [], rdEntries = [], rdSnapshot = emptySnapshot,
     rdCommittedEntries = [], rdMessages = [], rdMustSync = False\<rparr>"

definition newNode :: "RawNode \<Rightarrow> node" where
  "newNode rn = \<lparr>nRn = rn, nRd = emptyReady, nPropc = False, nReadyc = False, nAdvancec = False, nLead = 0, nDone = False\<rparr>"

definition setupNode :: "RaftConfig \<Rightarrow> (nat \<Rightarrow> nat) \<Rightarrow> Peer list \<Rightarrow> node option" where
  "setupNode c rand peers =
     (if length peers = 0 then None
      else do {
        rn \<leftarrow> NewRawNode c rand;
        (rn, _) \<leftarrow> Bootstrap peers rn;
        Some (newNode rn) })"

definition StartNode :: "RaftConfig \<Rightarrow> (nat \<Rightarrow> nat) \<Rightarrow> Peer list \<Rightarrow> node option" where
  "StartNode c rand peers = setupNode c rand peers"

definition RestartNode :: "RaftConfig \<Rightarrow> (nat \<Rightarrow> nat) \<Rightarrow> node option" where
  "RestartNode c rand = map_option newNode (NewRawNode c rand)"

definition run_head :: "node \<Rightarrow> node option" where
  "run_head n = do {
     n \<leftarrow> (if nAdvancec n then Some (n\<lparr>nReadyc := False\<rparr>)
           else do {
             b \<leftarrow> HasReady (nRn n);
             if b then do {
               rd \<leftarrow> readyWithoutAccept (nRn n);
               Some (n\<lparr>nRd := rd, nReadyc := True\<rparr>) }
             else Some n });
     let lead = rLead (rnRaft (nRn n));
     Some (if nLead n \<noteq> lead then n\<lparr>nPropc := (lead \<noteq> 0), nLead := lead\<rparr> else n) }"

datatype event = RecvProp Message | RecvMsg Message | RecvConf ConfChangeV2 | RecvTick | SendReady | RecvAdvance | RecvStop

text \<open>What the other side of the channel gets.\<close>

datatype reply = Silence | PropResult "StepErr option" | ConfReply ConfState | ReadyReply Ready

fun enabled :: "event \<Rightarrow> node \<Rightarrow> bool" where
  "enabled (RecvProp m) n = nPropc n"
| "enabled SendReady n = nReadyc n"
| "enabled RecvAdvance n = nAdvancec n"
| "enabled _ n = True"

definition on_raft :: "raft \<Rightarrow> node \<Rightarrow> node" where
  "on_raft r n = n\<lparr>nRn := (nRn n)\<lparr>rnRaft := r\<rparr>\<rparr>"

fun run_select :: "event \<Rightarrow> node \<Rightarrow> (node \<times> reply) option" where
  "run_select (RecvProp m) n = do {
     let r = rnRaft (nRn n);
     (r, err) \<leftarrow> Step (m\<lparr>mFrom := rid r\<rparr>) r;
     Some (on_raft r n, PropResult err) }"
| "run_select (RecvMsg m) n = do {
     let r = rnRaft (nRn n);
     if progress r (mFrom m) \<noteq> None \<or> \<not> IsResponseMsg (mType m) then do {
       (r, _) \<leftarrow> Step m r;
       Some (on_raft r n, Silence) }
     else Some (n, Silence) }"
| "run_select (RecvConf cc) n = do {
     let r = rnRaft (nRn n);
     (r', cs) \<leftarrow> applyConfChange cc r;
     let n = on_raft r' n;
     let removed = (progress r (rid r) \<noteq> None \<and> progress r' (rid r') = None
       \<and> rid r' \<notin> set (csVoters cs) \<and> rid r' \<notin> set (csVotersOutgoing cs));
     Some (if removed then n\<lparr>nPropc := False\<rparr> else n, ConfReply cs) }"
| "run_select RecvTick n = do {
     rn \<leftarrow> Tick (nRn n);
     Some (n\<lparr>nRn := rn\<rparr>, Silence) }"
| "run_select SendReady n = Some (n\<lparr>nRn := acceptReady (nRd n) (nRn n), nAdvancec := True\<rparr>, ReadyReply (nRd n))"
| "run_select RecvAdvance n = do {
     rn \<leftarrow> Advance (nRd n) (nRn n);
     Some (n\<lparr>nRn := rn, nRd := emptyReady, nAdvancec := False\<rparr>, Silence) }"
| "run_select RecvStop n = Some (n\<lparr>nDone := True\<rparr>, Silence)"

text \<open>A turn of the loop. The result \<open>Some None\<close> means that the event has to wait.\<close>

definition turn :: "event \<Rightarrow> node \<Rightarrow> (node \<times> reply) option option" where
  "turn e n = do {
     n \<leftarrow> run_head n;
     if \<not> nDone n \<and> enabled e n then map_option Some (run_select e n) else Some None }"

section \<open>The operations of the interface\<close>

definition stepWithWaitOption :: "Message \<Rightarrow> event" where
  "stepWithWaitOption m = (if mType m \<noteq> MsgProp then RecvMsg m else RecvProp m)"

definition node_Campaign :: event where
  "node_Campaign = stepWithWaitOption (emptyMessage\<lparr>mType := MsgHup\<rparr>)"

definition node_Propose :: "slice \<Rightarrow> event" where
  "node_Propose data = stepWithWaitOption (emptyMessage\<lparr>mType := MsgProp, mEntries := [emptyEntry\<lparr>eData := data\<rparr>]\<rparr>)"

text \<open>Local messages from the network are dropped.\<close>

definition node_Step :: "Message \<Rightarrow> event option" where
  "node_Step m = (if IsLocalMsg (mType m) then None else Some (stepWithWaitOption m))"

definition node_ProposeConfChange :: "ConfChangeI \<Rightarrow> event option" where
  "node_ProposeConfChange cc = do { m \<leftarrow> confChangeToMsg cc; node_Step m }"

definition node_ApplyConfChange :: "ConfChangeI \<Rightarrow> event" where
  "node_ApplyConfChange cc = RecvConf (AsV2 cc)"

definition node_ReportUnreachable :: "nat \<Rightarrow> event" where
  "node_ReportUnreachable i = RecvMsg (emptyMessage\<lparr>mType := MsgUnreachable, mFrom := i\<rparr>)"

definition node_ReportSnapshot :: "nat \<Rightarrow> bool \<Rightarrow> event" where
  "node_ReportSnapshot i failure = RecvMsg (emptyMessage\<lparr>mType := MsgSnapStatus, mFrom := i, mReject := failure\<rparr>)"

definition node_TransferLeadership :: "nat \<Rightarrow> nat \<Rightarrow> event" where
  "node_TransferLeadership lead transferee = RecvMsg (emptyMessage\<lparr>mType := MsgTransferLeader, mFrom := transferee, mTo := lead\<rparr>)"

definition node_ReadIndex :: "slice \<Rightarrow> event" where
  "node_ReadIndex rctx = stepWithWaitOption (emptyMessage\<lparr>mType := MsgReadIndex, mEntries := [emptyEntry\<lparr>eData := rctx\<rparr>]\<rparr>)"

end
