(* ===== verification/Raft_Serve.thy ===== *)
theory Raft_Serve
  imports Server Raft_Run
begin

text \<open>
  The service that runs a raft node for the server, \<open>src/raftexample/raft.go\<close>: starting it from its log on
  disk, and the loop \<open>serveChannels\<close> that stores what a \<open>Ready\<close> asks for, sends its messages and publishes the
  committed entries. The calls that leave the service (the files of the log and of snapshots, the
  transport, the channel of commits) are recorded in the order in which they are made. The storage
  is shared with the node and is kept in the log of the node. \<open>None\<close> is a panic or \<open>log.Fatal\<close>. The decoder
  of JSON is a parameter; sends on a channel that nobody reads, and files that cannot be written, are
  left out.
\<close>

section \<open>State and calls\<close>

record RaftNode =
  xId :: nat
  xPeers :: "string list"
  xJoin :: bool
  xConfState :: ConfState
  xSnapshotIndex :: nat
  xAppliedIndex :: nat
  xSnapCount :: nat

datatype call =
    SaveSnap Snapshot
  | WalSave HardState "Entry list"
  | TransportSend "Message list"
  | AddPeer nat string
  | RemovePeer nat
  | CommitData "RaftProposal list"
  | CommitNil

definition defaultSnapshotCount :: nat where
  "defaultSnapshotCount = 10000"

definition NewRaftNode :: "nat \<Rightarrow> string list \<Rightarrow> bool \<Rightarrow> RaftNode" where
  "NewRaftNode i peers join =
     \<lparr>xId = i, xPeers = peers, xJoin = join, xConfState = emptyConfState, xSnapshotIndex = 0, xAppliedIndex = 0,
      xSnapCount = defaultSnapshotCount\<rparr>"

definition storage_of :: "node \<Rightarrow> MemoryStorage" where
  "storage_of n = lStorage (rLog (rnRaft (nRn n)))"

definition with_storage :: "MemoryStorage \<Rightarrow> node \<Rightarrow> node" where
  "with_storage st n = (let r = rnRaft (nRn n) in on_raft (r\<lparr>rLog := (rLog r)\<lparr>lStorage := st\<rparr>\<rparr>) n)"

section \<open>Publishing\<close>

definition entriesToApply :: "RaftNode \<Rightarrow> Entry list \<Rightarrow> Entry list option" where
  "entriesToApply rc ents =
     (case ents of [] \<Rightarrow> Some ents
      | e # _ \<Rightarrow>
          let firstIdx = eIndex e; n = (sub64 (xAppliedIndex rc) firstIdx + 1) mod 2 ^ 64 in
          if firstIdx > xAppliedIndex rc + 1 then None
          else if n < length ents then Some (drop n ents) else Some [])"

text \<open>\<open>ApplyConfChange\<close> of a stopped node returns an empty configuration.\<close>

definition apply_conf :: "ConfChangeI \<Rightarrow> node \<Rightarrow> (node \<times> ConfState) option" where
  "apply_conf cc n = do {
     res \<leftarrow> turn (node_ApplyConfChange cc) n;
     (case res of Some (n, ConfReply cs) \<Rightarrow> Some (n, cs) | _ \<Rightarrow> Some (n, emptyConfState)) }"

text \<open>\<open>append(rc.Peers[:k], rc.Peers[k+1:]...)\<close> panics when \<open>k+1\<close> is beyond the end.\<close>

definition drop_peer :: "nat \<Rightarrow> string list \<Rightarrow> string list option" where
  "drop_peer k ps = (if k + 1 \<le> length ps then Some (take k ps @ drop (k + 1) ps) else None)"

text \<open>The result \<open>False\<close> means that this node was removed from the cluster.\<close>

definition track_peer :: "ConfChangeType \<Rightarrow> nat \<Rightarrow> slice \<Rightarrow> RaftNode \<Rightarrow> (RaftNode \<times> call list \<times> bool) option" where
  "track_peer t nid ctx rc =
     (case t of
        ConfChangeAddNode \<Rightarrow> Some (rc, if length (str ctx) > 0 then [AddPeer nid (str ctx)] else [], True)
      | ConfChangeRemoveNode \<Rightarrow>
          if nid = xId rc then Some (rc, [], False)
          else do {
            ps \<leftarrow> drop_peer nid (xPeers rc);
            Some (rc\<lparr>xPeers := ps\<rparr>, [RemovePeer nid], True) }
      | _ \<Rightarrow> Some (rc, [], True))"

fun track_peers :: "ConfChangeSingle list \<Rightarrow> slice \<Rightarrow> RaftNode \<Rightarrow> (RaftNode \<times> call list \<times> bool) option" where
  "track_peers [] ctx rc = Some (rc, [], True)"
| "track_peers (c # changes) ctx rc = do {
     (rc, calls, ok) \<leftarrow> track_peer (csType c) (csNodeID c) ctx rc;
     if ok then do {
       (rc, calls', ok) \<leftarrow> track_peers changes ctx rc;
       Some (rc, calls @ calls', ok) }
     else Some (rc, calls, False) }"

text \<open>An entry whose change does not unmarshal cannot be proposed and is outside the model.\<close>

definition publish_entry ::
    "(string \<Rightarrow> RaftProposal option) \<Rightarrow> Entry \<Rightarrow> RaftNode \<times> node \<Rightarrow> ((RaftNode \<times> node) \<times> RaftProposal list \<times> call list \<times> bool) option" where
  "publish_entry unjson e = (\<lambda>(rc, n).
     (case eType e of
        EntryNormal \<Rightarrow>
          if length (str (eData e)) = 0 then Some ((rc, n), [], [], True)
          else do {
            p \<leftarrow> unjson (str (eData e));
            Some ((rc, n), [p], [], True) }
      | EntryConfChange \<Rightarrow>
          (case ConfChange_Unmarshal (str (eData e)) emptyConfChange of
             Some (Inr cc) \<Rightarrow> do {
               (n, cs) \<leftarrow> apply_conf (V1 cc) n;
               (rc, calls, ok) \<leftarrow> track_peer (ccType cc) (ccNodeID cc) (ccContext cc) (rc\<lparr>xConfState := cs\<rparr>);
               Some ((rc, n), [], calls, ok) }
           | _ \<Rightarrow> None)
      | EntryConfChangeV2 \<Rightarrow>
          (case ConfChangeV2_Unmarshal (str (eData e)) emptyConfChangeV2 of
             Some (Inr cc) \<Rightarrow> do {
               (n, cs) \<leftarrow> apply_conf (V2 cc) n;
               (rc, calls, ok) \<leftarrow> track_peers (c2Changes cc) (c2Context cc) (rc\<lparr>xConfState := cs\<rparr>);
               Some ((rc, n), [], calls, ok) }
           | _ \<Rightarrow> None)
      | _ \<Rightarrow> Some ((rc, n), [], [], True)))"

fun publish_loop ::
    "(string \<Rightarrow> RaftProposal option) \<Rightarrow> Entry list \<Rightarrow> RaftNode \<times> node \<Rightarrow> ((RaftNode \<times> node) \<times> RaftProposal list \<times> call list \<times> bool) option" where
  "publish_loop unjson [] s = Some (s, [], [], True)"
| "publish_loop unjson (e # es) s = do {
     (s, data, calls, ok) \<leftarrow> publish_entry unjson e s;
     if ok then do {
       (s, data', calls', ok) \<leftarrow> publish_loop unjson es s;
       Some (s, data @ data', calls @ calls', ok) }
     else Some (s, data, calls, False) }"

definition publishEntries ::
    "(string \<Rightarrow> RaftProposal option) \<Rightarrow> Entry list \<Rightarrow> RaftNode \<times> node \<Rightarrow> ((RaftNode \<times> node) \<times> call list \<times> bool) option" where
  "publishEntries unjson ents s =
     (if length ents = 0 then Some (s, [], True)
      else do {
        ((rc, n), data, calls, ok) \<leftarrow> publish_loop unjson ents s;
        if \<not> ok then Some ((rc, n), calls, False)
        else Some ((rc\<lparr>xAppliedIndex := eIndex (last ents)\<rparr>, n), calls @ (if length data > 0 then [CommitData data] else []), True) })"

definition publishSnapshot :: "Snapshot \<Rightarrow> RaftNode \<Rightarrow> (RaftNode \<times> call list) option" where
  "publishSnapshot snapshotToSave rc =
     (if IsEmptySnap snapshotToSave then Some (rc, [])
      else if snIndex snapshotToSave \<le> xAppliedIndex rc then None
      else Some (rc\<lparr>xConfState := smConfState (snMetadata snapshotToSave), xSnapshotIndex := snIndex snapshotToSave,
                    xAppliedIndex := snIndex snapshotToSave\<rparr>, [CommitNil]))"

definition snapshotCatchUpEntriesN :: nat where
  "snapshotCatchUpEntriesN = 10000"

text \<open>\<open>data\<close> is the result of \<open>getSnapshot\<close>, \<open>None\<close> an error of it.\<close>

definition maybeTriggerSnapshot :: "slice option \<Rightarrow> RaftNode \<times> node \<Rightarrow> ((RaftNode \<times> node) \<times> call list) option" where
  "maybeTriggerSnapshot data = (\<lambda>(rc, n).
     if sub64 (xAppliedIndex rc) (xSnapshotIndex rc) \<le> xSnapCount rc then Some ((rc, n), [])
     else do {
       data \<leftarrow> data;
       res \<leftarrow> CreateSnapshot (storage_of n) (xAppliedIndex rc) (Some (xConfState rc)) data;
       (case res of Inl _ \<Rightarrow> None
        | Inr (st, snap) \<Rightarrow> do {
            let compactIndex = (if xAppliedIndex rc > snapshotCatchUpEntriesN then xAppliedIndex rc - snapshotCatchUpEntriesN else 1);
            res \<leftarrow> Compact st compactIndex;
            (case res of Inl _ \<Rightarrow> None
             | Inr st \<Rightarrow> Some ((rc\<lparr>xSnapshotIndex := xAppliedIndex rc\<rparr>, with_storage st n), [SaveSnap snap])) }) })"

section \<open>The loop\<close>

definition processMessages :: "RaftNode \<Rightarrow> Message list \<Rightarrow> Message list" where
  "processMessages rc ms =
     map (\<lambda>m. if mType m = MsgSnap
              then m\<lparr>mSnapshot := (mSnapshot m)\<lparr>snMetadata := (snMetadata (mSnapshot m))\<lparr>smConfState := xConfState rc\<rparr>\<rparr>\<rparr>
              else m) ms"

text \<open>The steps of the loop on a \<open>Ready\<close>, in their order. The errors of \<open>ApplySnapshot\<close> are ignored.\<close>

definition save_ready :: "Ready \<Rightarrow> call list" where
  "save_ready rd = (if \<not> IsEmptySnap (rdSnapshot rd) then [SaveSnap (rdSnapshot rd)] else []) @ [WalSave (rdHardState rd) (rdEntries rd)]"

definition install_ready :: "Ready \<Rightarrow> RaftNode \<times> node \<Rightarrow> ((RaftNode \<times> node) \<times> call list) option" where
  "install_ready rd = (\<lambda>(rc, n).
     if IsEmptySnap (rdSnapshot rd) then Some ((rc, n), [])
     else do {
       let st = (case ApplySnapshot (storage_of n) (rdSnapshot rd) of Inl _ \<Rightarrow> storage_of n | Inr st \<Rightarrow> st);
       (rc, calls) \<leftarrow> publishSnapshot (rdSnapshot rd) rc;
       Some ((rc, with_storage st n), calls) })"

definition append_ready :: "Ready \<Rightarrow> node \<Rightarrow> node option" where
  "append_ready rd n = do {
     st \<leftarrow> storage_Append (storage_of n) (rdEntries rd);
     Some (with_storage st n) }"

definition publish_ready ::
    "(string \<Rightarrow> RaftProposal option) \<Rightarrow> Ready \<Rightarrow> RaftNode \<times> node \<Rightarrow> ((RaftNode \<times> node) \<times> call list \<times> bool) option" where
  "publish_ready unjson rd s = do {
     ents \<leftarrow> entriesToApply (fst s) (rdCommittedEntries rd);
     publishEntries unjson ents s }"

definition advance_ready :: "node \<Rightarrow> node option" where
  "advance_ready n = do {
     res \<leftarrow> turn RecvAdvance n;
     (case res of Some (n, _) \<Rightarrow> Some n | None \<Rightarrow> Some n) }"

text \<open>A \<open>Ready\<close> handled while the node takes no other event.\<close>

definition serve_ready ::
    "(string \<Rightarrow> RaftProposal option) \<Rightarrow> slice option \<Rightarrow> Ready \<Rightarrow> RaftNode \<times> node \<Rightarrow> ((RaftNode \<times> node) \<times> call list \<times> bool) option" where
  "serve_ready unjson data rd s = do {
     let saves = save_ready rd;
     ((rc, n), commits) \<leftarrow> install_ready rd s;
     n \<leftarrow> append_ready rd n;
     let sends = [TransportSend (processMessages rc (rdMessages rd))];
     (s, published, ok) \<leftarrow> publish_ready unjson rd (rc, n);
     if \<not> ok then Some (s, saves @ commits @ sends @ published, False)
     else do {
       ((rc, n), snaps) \<leftarrow> maybeTriggerSnapshot data s;
       n \<leftarrow> advance_ready n;
       Some ((rc, n), saves @ commits @ sends @ published @ snaps, True) } }"

section \<open>Start\<close>

definition replayWAL :: "Snapshot option \<Rightarrow> HardState \<Rightarrow> Entry list \<Rightarrow> MemoryStorage option" where
  "replayWAL snapshot st ents =
     (let ms = NewMemoryStorage;
          ms = (case snapshot of None \<Rightarrow> ms | Some sn \<Rightarrow> (case ApplySnapshot ms sn of Inl _ \<Rightarrow> ms | Inr ms \<Rightarrow> ms));
          ms = SetHardState ms st
      in storage_Append ms ents)"

definition raft_config :: "nat \<Rightarrow> MemoryStorage \<Rightarrow> RaftConfig" where
  "raft_config i st =
     \<lparr>rcID = i, rcElectionTick = 10, rcHeartbeatTick = 1, rcStorage = Some st, rcApplied = 0, rcMaxSizePerMsg = 1024 * 1024,
      rcMaxCommittedSizePerReady = 0, rcMaxUncommittedEntriesSize = 2 ^ 30, rcMaxInflightMsgs = 256, rcCheckQuorum = False,
      rcPreVote = False, rcReadOnlyOption = ReadOnlySafe, rcDisableProposalForwarding = False\<rparr>"

definition peer_ids :: "RaftNode \<Rightarrow> Peer list" where
  "peer_ids rc = map (\<lambda>i. \<lparr>pID = i + 1, pContext = None\<rparr>) [0..<length (xPeers rc)]"

definition startRaft :: "bool \<Rightarrow> MemoryStorage \<Rightarrow> (nat \<Rightarrow> nat) \<Rightarrow> RaftNode \<Rightarrow> (RaftNode \<times> node) option" where
  "startRaft oldwal st rand rc = do {
     let c = raft_config (xId rc) st;
     n \<leftarrow> (if oldwal \<or> xJoin rc then RestartNode c rand else StartNode c rand (peer_ids rc));
     let md = snMetadata (msSnapshot st);
     Some (rc\<lparr>xConfState := smConfState md, xSnapshotIndex := smIndex md, xAppliedIndex := smIndex md\<rparr>, n) }"

end
