(* ===== verification/Raft_Election.thy ===== *)
theory Raft_Election
  imports Raft_Vote Raft_Serve
begin

text \<open>
  A cluster of raft services (\<open>src/raftexample/raft.go\<close> on \<open>src/etcd/raft\<close>) with a network that loses, delays,
  repeats and reorders messages, and with processes that stop at any point and start again from what is on
  disk. Every step is a call of the model of the code. In a term there is at most one leader, as long
  as the configuration stays the same.
\<close>

section \<open>The cluster\<close>

text \<open>Where the loop \<open>serveChannels\<close> is with its current \<open>Ready\<close>.\<close>

datatype phase = Idle | Got Ready | Saved Ready | Installed Ready | Stored Ready | Sent Ready | Published Ready | Trimmed Ready

record member =
  kApp :: RaftNode
  kNode :: node
  kPhase :: phase

text \<open>The disk of a node holds the last hard state of its log; \<open>None\<close> when there is no log yet.\<close>

record cluster =
  gMember :: "nat \<Rightarrow> member option"
  gDisk :: "nat \<Rightarrow> HardState option"
  gNet :: "Message set"

definition no_cluster :: cluster where
  "no_cluster = \<lparr>gMember = (\<lambda>_. None), gDisk = (\<lambda>_. None), gNet = {}\<rparr>"

abbreviation raft_of :: "node \<Rightarrow> raft" where
  "raft_of n \<equiv> rnRaft (nRn n)"

definition disk :: "cluster \<Rightarrow> nat \<Rightarrow> HardState" where
  "disk g i = (case gDisk g i of None \<Rightarrow> emptyState | Some hs \<Rightarrow> hs)"

text \<open>The log on disk gives back the last hard state that was not empty.\<close>

fun write_disk :: "call \<Rightarrow> HardState \<Rightarrow> HardState" where
  "write_disk (WalSave hs es) w = (if IsEmptyHardState hs then w else hs)"
| "write_disk _ w = w"

definition put_member :: "nat \<Rightarrow> RaftNode \<times> node \<Rightarrow> phase \<Rightarrow> cluster \<Rightarrow> cluster" where
  "put_member i s ph g = g\<lparr>gMember := (gMember g)(i \<mapsto> \<lparr>kApp = fst s, kNode = snd s, kPhase = ph\<rparr>)\<rparr>"

abbreviation at_phase :: "cluster \<Rightarrow> nat \<Rightarrow> RaftNode \<Rightarrow> node \<Rightarrow> phase \<Rightarrow> bool" where
  "at_phase g i rc n ph \<equiv> gMember g i = Some \<lparr>kApp = rc, kNode = n, kPhase = ph\<rparr>"

text \<open>The committed configuration changes that a node applies again after its start.\<close>

fun relearn :: "ConfChangeI list \<Rightarrow> RaftNode \<times> node \<Rightarrow> (RaftNode \<times> node) option" where
  "relearn [] s = Some s"
| "relearn (cc # ccs) (rc, n) = do {
     (n, cs) \<leftarrow> apply_conf cc n;
     relearn ccs (rc\<lparr>xConfState := cs\<rparr>, n) }"

inductive local_event :: "event \<Rightarrow> bool" where
  "local_event RecvTick"
| "local_event RecvStop"
| "local_event node_Campaign"
| "local_event (node_Propose data)"
| "node_ProposeConfChange cc = Some e \<Longrightarrow> local_event e"
| "local_event (node_ReportUnreachable j)"
| "local_event (node_ReportSnapshot j failure)"
| "local_event (node_TransferLeadership lead transferee)"
| "local_event (node_ReadIndex rctx)"

text \<open>The configuration that the node and its service know.\<close>

definition knows :: "ConfState \<Rightarrow> RaftNode \<times> node \<Rightarrow> bool" where
  "knows cs s \<longleftrightarrow> Equivalent cs (xConfState (fst s)) \<and> conf_ok cs (raft_of (snd s))"

inductive step :: "ConfState \<Rightarrow> cluster \<Rightarrow> cluster \<Rightarrow> bool" for cs where
  start: "xId rc = i \<Longrightarrow> gDisk g i = None \<Longrightarrow> replayWAL (Some emptySnapshot) emptyState [] = Some st \<Longrightarrow>
    startRaft False st rand rc = Some s \<Longrightarrow> relearn ccs s = Some s' \<Longrightarrow> knows cs s' \<Longrightarrow>
    step cs g (put_member i s' Idle (g\<lparr>gDisk := (gDisk g)(i \<mapsto> emptyState)\<rparr>))"
| restart: "xId rc = i \<Longrightarrow> gDisk g i = Some hs \<Longrightarrow> replayWAL sn hs es = Some st \<Longrightarrow> snap_ok cs (msSnapshot st) \<Longrightarrow>
    startRaft True st rand rc = Some s \<Longrightarrow> relearn ccs s = Some s' \<Longrightarrow> knows cs s' \<Longrightarrow>
    step cs g (put_member i s' Idle g)"
| crash: "step cs g (g\<lparr>gMember := (gMember g)(i := None)\<rparr>)"
| local: "at_phase g i rc n ph \<Longrightarrow> local_event e \<Longrightarrow> turn e n = Some (Some (n', rep)) \<Longrightarrow> step cs g (put_member i (rc, n') ph g)"
| deliver: "at_phase g i rc n ph \<Longrightarrow> m \<in> gNet g \<Longrightarrow> mTo m = i \<Longrightarrow> node_Step m = Some e \<Longrightarrow> turn e n = Some (Some (n', rep)) \<Longrightarrow>
    step cs g (put_member i (rc, n') ph g)"
| take: "at_phase g i rc n Idle \<Longrightarrow> turn SendReady n = Some (Some (n', ReadyReply rd)) \<Longrightarrow> step cs g (put_member i (rc, n') (Got rd) g)"
| save: "at_phase g i rc n (Got rd) \<Longrightarrow>
    step cs g (put_member i (rc, n) (Saved rd) (g\<lparr>gDisk := (gDisk g)(i \<mapsto> fold write_disk (save_ready rd) (disk g i))\<rparr>))"
| install: "at_phase g i rc n (Saved rd) \<Longrightarrow> install_ready rd (rc, n) = Some (s, calls) \<Longrightarrow> step cs g (put_member i s (Installed rd) g)"
| append: "at_phase g i rc n (Installed rd) \<Longrightarrow> append_ready rd n = Some n' \<Longrightarrow> step cs g (put_member i (rc, n') (Stored rd) g)"
| send: "at_phase g i rc n (Stored rd) \<Longrightarrow>
    step cs g (put_member i (rc, n) (Sent rd) (g\<lparr>gNet := gNet g \<union> set (processMessages rc (rdMessages rd))\<rparr>))"
| publish: "at_phase g i rc n (Sent rd) \<Longrightarrow> publish_ready unjson rd (rc, n) = Some (s, calls, True) \<Longrightarrow> knows cs s \<Longrightarrow>
    step cs g (put_member i s (Published rd) g)"
| trim: "at_phase g i rc n (Published rd) \<Longrightarrow> maybeTriggerSnapshot data (rc, n) = Some (s, calls) \<Longrightarrow> step cs g (put_member i s (Trimmed rd) g)"
| advance: "at_phase g i rc n (Trimmed rd) \<Longrightarrow> advance_ready n = Some n' \<Longrightarrow> step cs g (put_member i (rc, n') Idle g)"

inductive reachable :: "ConfState \<Rightarrow> cluster \<Rightarrow> bool" for cs where
  init: "reachable cs no_cluster"
| step: "reachable cs g \<Longrightarrow> step cs g g' \<Longrightarrow> reachable cs g'"

text \<open>Node \<open>i\<close> is the leader of term \<open>t\<close>, or has sent messages as its leader.\<close>

definition led :: "cluster \<Rightarrow> nat \<Rightarrow> nat \<Rightarrow> bool" where
  "led g t i \<longleftrightarrow>
     (\<exists>mem. gMember g i = Some mem \<and> rState (raft_of (kNode mem)) = StateLeader \<and> rTerm (raft_of (kNode mem)) = t)
     \<or> (\<exists>m \<in> gNet g. mType m \<in> lead_types \<and> mFrom m = i \<and> mTerm m = t)"

section \<open>The node under its goroutine\<close>

definition prev_of :: "node \<Rightarrow> HardState" where
  "prev_of n = rnPrevHardSt (nRn n)"

definition tv :: "hist \<Rightarrow> HardState \<Rightarrow> bool" where
  "tv vh hs = hist_tv vh (hTerm hs) (hVote hs)"

text \<open>A \<open>Ready\<close> that was made when the votes were \<open>R\<close>; \<open>hs\<close> is the hard state that the node handed out before it.\<close>

definition ready_ok :: "ConfState \<Rightarrow> evidence \<Rightarrow> nat \<Rightarrow> hist \<Rightarrow> HardState \<Rightarrow> Ready \<Rightarrow> bool" where
  "ready_ok cs E i R hs rd \<longleftrightarrow>
     tv R (if IsEmptyHardState (rdHardState rd) then hs else rdHardState rd)
     \<and> (\<forall>m \<in> set (rdMessages rd). sent_ok cs E i R m) \<and> snap_ok cs (rdSnapshot rd)"

text \<open>\<open>h\<close> and \<open>A\<close> are the hard state and the votes that were handed out with the last \<open>Ready\<close>, \<open>V\<close> all votes of the node.\<close>

definition run_ok :: "ConfState \<Rightarrow> evidence \<Rightarrow> nat \<Rightarrow> HardState \<Rightarrow> hist \<Rightarrow> hist \<Rightarrow> node \<Rightarrow> bool" where
  "run_ok cs E i h A V n \<longleftrightarrow>
     node_ok cs E i V (raft_of n) \<and> A \<subseteq>\<^sub>m V \<and> tv A h \<and> prev_of n = h
     \<and> (nReadyc n \<and> \<not> nAdvancec n \<longrightarrow> (\<exists>R. A \<subseteq>\<^sub>m R \<and> R \<subseteq>\<^sub>m V \<and> ready_ok cs E i R h (nRd n)))"

lemma hist_tv_0:
  assumes "hist_tv vh 0 v"
  shows "vh = Map.empty"
proof
  fix t show "vh t = None"
  proof (rule ccontr)
    assume "vh t \<noteq> None"
    then obtain j where "vh t = Some j" by blast
    then have "t \<noteq> 0 \<and> t \<le> 0" using assms unfolding hist_tv_def by blast
    then show False by auto
  qed
qed

lemma newReady_ok:
  assumes n: "node_ok cs E i V r" and A: "A \<subseteq>\<^sub>m V" "tv A hs" and rd: "newReady r ss hs = Some rd"
  shows "ready_ok cs E i V hs rd"
proof -
  have h: "hist_tv V (rTerm r) (rVote r)" using n by (simp add: node_ok_def hist_ok_tv)
  have f: "rdMessages rd = rMsgs r" "rdHardState rd = (if \<not> isHardStateEqual (hardState r) hs then hardState r else emptyState)"
    "rdSnapshot rd = (case uSnapshot (lUnstable (rLog r)) of None \<Rightarrow> emptySnapshot | Some s \<Rightarrow> s)"
    using rd by (auto simp: newReady_def Let_def bind_eq_Some_conv)
  have "tv V (if IsEmptyHardState (rdHardState rd) then hs else rdHardState rd)"
  proof (cases "isHardStateEqual (hardState r) hs")
    case True
    then show ?thesis using h by (simp add: f tv_def isHardStateEqual_def IsEmptyHardState_def hardState_def)
  next
    case False
    show ?thesis
    proof (cases "IsEmptyHardState (hardState r)")
      case True
      then have "V = Map.empty" using h hist_tv_0 by (simp add: IsEmptyHardState_def isHardStateEqual_def hardState_def emptyState_def)
      then have "A = V" using A(1) by (auto simp: map_le_def fun_eq_iff dom_def)
      then show ?thesis using A(2) False True by (simp add: f)
    qed (use False h in \<open>simp add: f tv_def hardState_def\<close>)
  qed
  moreover have "snap_ok cs (rdSnapshot rd)"
    using n by (auto simp: f node_ok_def snaps_ok_def snap_ok_def IsEmptySnap_def emptySnapshot_def split: option.splits)
  ultimately show ?thesis using n by (simp add: ready_ok_def f node_ok_def)
qed

lemma run_head_ok:
  assumes n: "run_ok cs E i h A V n"
  shows "post (\<lambda>n'. run_ok cs E i h A V n' \<and> nRn n' = nRn n \<and> (nAdvancec n' \<longrightarrow> \<not> nReadyc n')) (run_head n)"
  unfolding run_head_def Let_def
proof (rule post_bind [where Q = "\<lambda>n'. run_ok cs E i h A V n' \<and> nRn n' = nRn n \<and> (nAdvancec n' \<longrightarrow> \<not> nReadyc n')"], intro post_if post_any post_Some)
  fix rd assume rd: "readyWithoutAccept (nRn n) = Some rd" and "\<not> nAdvancec n"
  have "ready_ok cs E i V h rd"
    using n newReady_ok [of cs E i V "raft_of n" A h "rnPrevSoftSt (nRn n)" rd] rd
    by (simp add: run_ok_def readyWithoutAccept_def prev_of_def)
  then show "run_ok cs E i h A V (n\<lparr>nRd := rd, nReadyc := True\<rparr>) \<and> nRn (n\<lparr>nRd := rd, nReadyc := True\<rparr>) = nRn n
      \<and> (nAdvancec (n\<lparr>nRd := rd, nReadyc := True\<rparr>) \<longrightarrow> \<not> nReadyc (n\<lparr>nRd := rd, nReadyc := True\<rparr>))"
    using n \<open>\<not> nAdvancec n\<close> by (auto simp: run_ok_def prev_of_def)
qed (use n in \<open>auto simp: run_ok_def prev_of_def post_def\<close>)

text \<open>A step of the raft state under the goroutine.\<close>

lemma run_ok_raft:
  assumes n: "run_ok cs E i h A V n" and r: "sound cs E i V r"
  shows "\<exists>V'. V \<subseteq>\<^sub>m V' \<and> run_ok cs E i h A V' (on_raft r n)"
proof -
  obtain V' where V': "V \<subseteq>\<^sub>m V'" "node_ok cs E i V' r" using r by (auto simp: sound_def)
  have "\<exists>R. A \<subseteq>\<^sub>m R \<and> R \<subseteq>\<^sub>m V' \<and> ready_ok cs E i R h (nRd n)" if "nReadyc n" "\<not> nAdvancec n"
    using n that V'(1) map_le_trans unfolding run_ok_def by blast
  moreover have "A \<subseteq>\<^sub>m V'" using n V'(1) map_le_trans unfolding run_ok_def by blast
  ultimately show ?thesis using n V' by (auto simp: run_ok_def prev_of_def on_raft_def)
qed

lemma run_ok_good: "run_ok cs E i h A V n \<Longrightarrow> conf_ok cs (raft_of n) \<Longrightarrow> good cs E i V (raft_of n)"
  using map_le_refl unfolding run_ok_def good_def by blast

text \<open>Events that a member takes: its own, and messages that it may trust.\<close>

definition trusted :: "ConfState \<Rightarrow> evidence \<Rightarrow> nat \<Rightarrow> event \<Rightarrow> bool" where
  "trusted cs E i e \<longleftrightarrow>
     (case e of RecvProp m \<Rightarrow> mType m = MsgProp | RecvMsg m \<Rightarrow> heard cs E i m | RecvConf _ \<Rightarrow> False | SendReady \<Rightarrow> False | _ \<Rightarrow> True)"

lemma local_trusted: "local_event e \<Longrightarrow> trusted cs E i e"
proof (induction rule: local_event.induct)
  case (5 cc e)
  then show ?case by (auto simp: node_ProposeConfChange_def confChangeToMsg_def node_Step_def stepWithWaitOption_def trusted_def
      bind_eq_Some_conv split: if_splits)
qed (simp_all add: trusted_def node_Campaign_def node_Propose_def node_ReportUnreachable_def node_ReportSnapshot_def
    node_TransferLeadership_def node_ReadIndex_def stepWithWaitOption_def heard_local)

lemma run_select_ok:
  assumes n: "run_ok cs E i h A V n" "conf_ok cs (raft_of n)" and cs: "csVoters cs \<noteq> []" and e: "trusted cs E i e" "e = RecvAdvance \<longrightarrow> \<not> nReadyc n"
  shows "post (\<lambda>p. (\<exists>V'. V \<subseteq>\<^sub>m V' \<and> run_ok cs E i h A V' (fst p)) \<and> conf_ok cs (raft_of (fst p))) (run_select e n)"
proof -
  let ?P = "\<lambda>n'. (\<exists>V'. V \<subseteq>\<^sub>m V' \<and> run_ok cs E i h A V' n') \<and> conf_ok cs (raft_of n')"
  have g: "good cs E i V (raft_of n)" by (rule run_ok_good [OF n])
  have self: "?P n" using n map_le_refl by blast
  have raft: "?P (on_raft r n)" if "good cs E i V r" for r
    using that run_ok_raft [OF n(1)] by (simp add: good_sound on_raft_def)
  have stp: "post (\<lambda>p. ?P (on_raft (fst p) n)) (Step m (raft_of n))" if "heard cs E i m" for m
    using Step_good [OF g cs that] raft by (simp add: post_def)
  show ?thesis
  proof (cases e)
    case (RecvProp m)
    then have "heard cs E i (m\<lparr>mFrom := rid (raft_of n)\<rparr>)" using e(1) by (simp add: trusted_def heard_local)
    from stp [OF this] show ?thesis unfolding RecvProp run_select.simps Let_def by (rule post_bind) (auto simp: post_def)
  next
    case (RecvMsg m)
    then have "heard cs E i m" using e(1) by (simp add: trusted_def)
    note s = stp [OF this]
    show ?thesis unfolding RecvMsg run_select.simps Let_def
      by (rule post_if, rule post_bind [OF s]) (use self in \<open>auto simp: post_def\<close>)
  next
    case RecvTick
    have "post (\<lambda>rn. \<exists>r. rn = (nRn n)\<lparr>rnRaft := r\<rparr> \<and> good cs E i V r) (Tick (nRn n))"
      using raft_tick_good [OF g cs] by (auto simp: Tick_def post_def)
    then show ?thesis unfolding RecvTick run_select.simps
      by (rule post_bind) (use raft in \<open>auto simp: post_def on_raft_def\<close>)
  next
    case RecvAdvance
    have "post (\<lambda>rn. \<exists>r. rn = (nRn n)\<lparr>rnRaft := r\<rparr> \<and> good cs E i V r) (Advance (nRd n) (nRn n))"
      using raft_advance_good [OF g cs] by (auto simp: Advance_def post_def)
    then show ?thesis unfolding RecvAdvance run_select.simps
    proof (rule post_bind)
      fix rn assume "\<exists>r. rn = (nRn n)\<lparr>rnRaft := r\<rparr> \<and> good cs E i V r"
      then obtain r where r: "rn = (nRn n)\<lparr>rnRaft := r\<rparr>" "good cs E i V r" by blast
      from raft [OF r(2)] show "post (\<lambda>p. ?P (fst p)) (Some (n\<lparr>nRn := rn, nRd := emptyReady, nAdvancec := False\<rparr>, Silence))"
        using e(2) RecvAdvance by (auto simp: post_def r(1) on_raft_def run_ok_def prev_of_def)
    qed
  next
    case RecvStop
    have "run_ok cs E i h A V (n\<lparr>nDone := True\<rparr>)" using n(1) by (simp add: run_ok_def prev_of_def)
    then have "?P (n\<lparr>nDone := True\<rparr>)" using n(2) map_le_refl [of V] by (metis node.select_convs(1) node.update_convs(7) node.surjective)
    then show ?thesis using RecvStop by (simp add: post_def)
  qed (use e(1) in \<open>simp_all add: trusted_def\<close>)
qed

lemma turn_ok:
  assumes n: "run_ok cs E i h A V n" "conf_ok cs (raft_of n)" and cs: "csVoters cs \<noteq> []" and e: "trusted cs E i e"
    and t: "turn e n = Some (Some (n', rep))"
  shows "\<exists>V'. V \<subseteq>\<^sub>m V' \<and> run_ok cs E i h A V' n' \<and> conf_ok cs (raft_of n')"
proof -
  obtain n1 where n1: "run_head n = Some n1" "enabled e n1" and s: "run_select e n1 = Some (n', rep)"
    using t by (auto simp: turn_def bind_eq_Some_conv split: if_splits)
  have h: "run_ok cs E i h A V n1" "nRn n1 = nRn n" "nAdvancec n1 \<longrightarrow> \<not> nReadyc n1" using postD [OF run_head_ok [OF n(1)] n1(1)] by auto
  have "e = RecvAdvance \<longrightarrow> \<not> nReadyc n1" using h(3) n1(2) by auto
  with postD [OF run_select_ok [OF h(1) _ cs e] s] n(2) h(2) show ?thesis by auto
qed

lemma acceptReady_sel [simp]:
  "rid (rnRaft (acceptReady rd rn)) = rid (rnRaft rn)" "rTerm (rnRaft (acceptReady rd rn)) = rTerm (rnRaft rn)"
  "rVote (rnRaft (acceptReady rd rn)) = rVote (rnRaft rn)" "rState (rnRaft (acceptReady rd rn)) = rState (rnRaft rn)"
  "rPrs (rnRaft (acceptReady rd rn)) = rPrs (rnRaft rn)" "rLog (rnRaft (acceptReady rd rn)) = rLog (rnRaft rn)"
  "rMsgs (rnRaft (acceptReady rd rn)) = []"
  "rnPrevHardSt (acceptReady rd rn) = (if IsEmptyHardState (rdHardState rd) then rnPrevHardSt rn else rdHardState rd)"
  by (simp_all add: acceptReady_def Let_def split: option.split)

lemma take_ok:
  assumes n: "run_ok cs E i h A V n" "conf_ok cs (raft_of n)" and t: "turn SendReady n = Some (Some (n', ReadyReply rd))"
  shows "\<exists>R. A \<subseteq>\<^sub>m R \<and> run_ok cs E i (if IsEmptyHardState (rdHardState rd) then h else rdHardState rd) R V n'
    \<and> conf_ok cs (raft_of n') \<and> ready_ok cs E i R h rd"
proof -
  obtain n1 where n1: "run_head n = Some n1" "enabled SendReady n1" and s: "run_select SendReady n1 = Some (n', ReadyReply rd)"
    using t by (auto simp: turn_def bind_eq_Some_conv split: if_splits)
  have h: "run_ok cs E i h A V n1" "nRn n1 = nRn n" "nAdvancec n1 \<longrightarrow> \<not> nReadyc n1" using postD [OF run_head_ok [OF n(1)] n1(1)] by auto
  have rd: "rd = nRd n1" "n' = n1\<lparr>nRn := acceptReady rd (nRn n1), nAdvancec := True\<rparr>" using s by auto
  obtain R where R: "A \<subseteq>\<^sub>m R" "R \<subseteq>\<^sub>m V" "ready_ok cs E i R h rd"
    using h n1(2) by (auto simp: run_ok_def rd(1))
  have p': "prev_of n' = (if IsEmptyHardState (rdHardState rd) then h else rdHardState rd)"
    using h(1) by (simp add: run_ok_def prev_of_def rd(2))
  moreover have "node_ok cs E i V (raft_of n')"
    using h(1) by (simp add: run_ok_def node_ok_def hist_ok_def role_ok_def rd(2))
  ultimately have "run_ok cs E i (if IsEmptyHardState (rdHardState rd) then h else rdHardState rd) R V n'" using R by (simp add: run_ok_def ready_ok_def) (simp add: rd(2))
  moreover have "conf_ok cs (raft_of n')" using n(2) h(2) by (simp add: conf_ok_def rd(2))
  ultimately show ?thesis using R by auto
qed

text \<open>Writes to the storage and changes of the configuration.\<close>

lemma run_ok_storage:
  assumes n: "run_ok cs E i h A V n" and s: "snap_ok cs (msSnapshot st)"
  shows "run_ok cs E i h A V (with_storage st n)"
  using n s by (simp add: run_ok_def with_storage_def on_raft_def Let_def prev_of_def node_ok_def hist_ok_def role_ok_def snaps_ok_def)

lemma run_ok_snap: "run_ok cs E i h A V n \<Longrightarrow> snap_ok cs (msSnapshot (storage_of n))"
  by (simp add: run_ok_def node_ok_def snaps_ok_def storage_of_def)

lemma conf_ok_storage: "conf_ok cs (raft_of (with_storage st n)) = conf_ok cs (raft_of n)"
  by (simp add: conf_ok_def with_storage_def on_raft_def Let_def)

lemma apply_conf_ok:
  assumes n: "run_ok cs E i h A V n"
  shows "post (\<lambda>p. \<exists>V'. V \<subseteq>\<^sub>m V' \<and> run_ok cs E i h A V' (fst p)) (apply_conf cc n)"
proof (rule postI)
  fix p assume p: "apply_conf cc n = Some p"
  then obtain res where res: "turn (node_ApplyConfChange cc) n = Some res"
    "(case res of Some (n, ConfReply cs) \<Rightarrow> Some (n, cs) | _ \<Rightarrow> Some (n, emptyConfState)) = Some p"
    by (auto simp: apply_conf_def bind_eq_Some_conv)
  show "\<exists>V'. V \<subseteq>\<^sub>m V' \<and> run_ok cs E i h A V' (fst p)"
  proof (cases "\<exists>n' rep. res = Some (n', rep)")
    case True
    then obtain n' rep n1 where r: "res = Some (n', rep)" "run_head n = Some n1" "run_select (node_ApplyConfChange cc) n1 = Some (n', rep)"
      using res(1) by (auto simp: turn_def bind_eq_Some_conv split: if_splits)
    have h: "run_ok cs E i h A V n1" using postD [OF run_head_ok [OF n] r(2)] by simp
    obtain r' cs' where a: "applyConfChange (AsV2 cc) (raft_of n1) = Some (r', cs')" and n': "nRn n' = nRn (on_raft r' n1)"
      "nReadyc n' = nReadyc n1" "nAdvancec n' = nAdvancec n1" "nRd n' = nRd n1" "rep = ConfReply cs'"
      using r(3) by (auto simp: node_ApplyConfChange_def Let_def bind_eq_Some_conv on_raft_def)
    have "sound cs E i V (raft_of n1)" using h map_le_refl unfolding run_ok_def sound_def by blast
    from run_ok_raft [OF h] postD [OF applyConfChange_sound [OF this] a]
    obtain V' where V': "V \<subseteq>\<^sub>m V'" "run_ok cs E i h A V' (on_raft r' n1)" by auto
    have "fst p = n'" using res(2) r(1) n'(5) by auto
    moreover have "run_ok cs E i h A V' n'" using V'(2) n' by (simp add: run_ok_def prev_of_def on_raft_def)
    ultimately show ?thesis using V'(1) by blast
  next
    case False
    then have "fst p = n" using res(2) by (cases res) auto
    then show ?thesis using n map_le_refl by blast
  qed
qed

section \<open>The service\<close>

definition runs_on :: "ConfState \<Rightarrow> evidence \<Rightarrow> nat \<Rightarrow> HardState \<Rightarrow> hist \<Rightarrow> hist \<Rightarrow> node \<Rightarrow> bool" where
  "runs_on cs E i h A V n \<longleftrightarrow> (\<exists>V'. V \<subseteq>\<^sub>m V' \<and> run_ok cs E i h A V' n)"

lemma runs_on_refl: "run_ok cs E i h A V n \<Longrightarrow> runs_on cs E i h A V n"
  using map_le_refl unfolding runs_on_def by blast

lemma runs_on_conf: "runs_on cs E i h A V n \<Longrightarrow> post (\<lambda>p. runs_on cs E i h A V (fst p)) (apply_conf cc n)"
proof (rule postI)
  fix p assume n: "runs_on cs E i h A V n" and p: "apply_conf cc n = Some p"
  obtain V1 where V1: "V \<subseteq>\<^sub>m V1" "run_ok cs E i h A V1 n" using n unfolding runs_on_def by blast
  obtain V2 where "V1 \<subseteq>\<^sub>m V2" "run_ok cs E i h A V2 (fst p)" using postD [OF apply_conf_ok [OF V1(2)] p] by blast
  then show "runs_on cs E i h A V (fst p)" using V1(1) map_le_trans unfolding runs_on_def by blast
qed

lemma relearn_ok: "runs_on cs E i h A V (snd s) \<Longrightarrow> post (\<lambda>s. runs_on cs E i h A V (snd s)) (relearn ccs s)"
proof (induction ccs arbitrary: s)
  case (Cons cc ccs)
  obtain rc n where s: "s = (rc, n)" by (cases s)
  have "runs_on cs E i h A V n" using Cons.prems s by simp
  from runs_on_conf [OF this, of cc] show ?case
    unfolding s relearn.simps by (rule post_bind) (auto intro!: post_prod Cons.IH)
qed (simp add: post_Some)

lemma publish_entry_ok:
  assumes "runs_on cs E i h A V (snd s)"
  shows "post (\<lambda>p. runs_on cs E i h A V (snd (fst p))) (publish_entry unjson e s)"
proof -
  obtain rc n where s: "s = (rc, n)" by (cases s)
  have n: "runs_on cs E i h A V n" using assms s by simp
  have c: "post (\<lambda>p. runs_on cs E i h A V (snd (fst p))) (do {
      (n, cs) \<leftarrow> apply_conf cc n;
      (rc, calls, ok) \<leftarrow> f cs;
      Some ((rc, n), [], calls, ok) })" for cc f
    using runs_on_conf [OF n, of cc] by (rule post_bind) (auto intro!: post_prod post_any post_Some)
  show ?thesis using n unfolding publish_entry_def s
    by (cases "eType e") (auto intro!: post_if post_any post_Some post_option post_sum c post_None)
qed

lemma publish_loop_ok: "runs_on cs E i h A V (snd s) \<Longrightarrow> post (\<lambda>p. runs_on cs E i h A V (snd (fst p))) (publish_loop unjson es s)"
proof (induction es arbitrary: s)
  case (Cons e es)
  from publish_entry_ok [OF Cons.prems, of unjson e] show ?case
    unfolding publish_loop.simps
    by (rule post_bind) (auto intro!: post_prod post_if post_Some post_bind [OF Cons.IH])
qed (simp add: post_Some)

lemma publish_ready_ok:
  assumes "runs_on cs E i h A V (snd s)"
  shows "post (\<lambda>p. runs_on cs E i h A V (snd (fst p))) (publish_ready unjson rd s)"
  unfolding publish_ready_def publishEntries_def
  by (intro post_any post_if post_Some post_bind [OF publish_loop_ok [OF assms]]) (use assms in \<open>auto intro!: post_Some\<close>)

lemma CreateSnapshot_conf: "CreateSnapshot ms k (Some c) d = Some (Inr (ms', sn)) \<Longrightarrow> msSnapshot ms' = sn \<and> smConfState (snMetadata sn) = c"
  by (auto simp: CreateSnapshot_def bind_eq_Some_conv Let_def split: if_splits)

lemma Compact_snap: "Compact ms k = Some (Inr ms') \<Longrightarrow> msSnapshot ms' = msSnapshot ms"
  by (auto simp: Compact_def bind_eq_Some_conv Let_def split: if_splits)

lemma storage_Append_snap: "storage_Append ms es = Some ms' \<Longrightarrow> msSnapshot ms' = msSnapshot ms"
  by (auto simp: storage_Append_def bind_eq_Some_conv Let_def split: if_splits list.splits)

lemma maybeTriggerSnapshot_ok:
  assumes n: "run_ok cs E i h A V n" and k: "knows cs (rc, n)"
  shows "post (\<lambda>p. run_ok cs E i h A V (snd (fst p)) \<and> knows cs (fst p)) (maybeTriggerSnapshot data (rc, n))"
  unfolding maybeTriggerSnapshot_def prod.case Let_def
proof (intro post_if post_any post_sum post_None post_prod post_Some)
  fix d res p st sn res' st'
  assume c: "CreateSnapshot (storage_of n) (xAppliedIndex rc) (Some (xConfState rc)) d = Some res" "res = Inr p" "p = (st, sn)"
    and "Compact st (if snapshotCatchUpEntriesN < xAppliedIndex rc then xAppliedIndex rc - snapshotCatchUpEntriesN else 1) = Some res'" "res' = Inr st'"
  then have "smConfState (snMetadata (msSnapshot st')) = xConfState rc"
    using CreateSnapshot_conf [of "storage_of n"] Compact_snap [of st] by auto
  then have "snap_ok cs (msSnapshot st')" using k by (simp add: snap_ok_def knows_def)
  then show "run_ok cs E i h A V (snd (fst ((rc\<lparr>xSnapshotIndex := xAppliedIndex rc\<rparr>, with_storage st' n), [SaveSnap sn])))
      \<and> knows cs (fst ((rc\<lparr>xSnapshotIndex := xAppliedIndex rc\<rparr>, with_storage st' n), [SaveSnap sn]))"
    using run_ok_storage [OF n] k by (simp add: knows_def conf_ok_storage)
qed (use n k in auto)

lemma install_ready_ok:
  assumes n: "run_ok cs E i h A V n" and k: "knows cs (rc, n)" and rd: "snap_ok cs (rdSnapshot rd)"
  shows "post (\<lambda>p. run_ok cs E i h A V (snd (fst p)) \<and> knows cs (fst p)) (install_ready rd (rc, n))"
proof -
  have "run_ok cs E i h A V (with_storage (case ApplySnapshot (storage_of n) (rdSnapshot rd) of Inl _ \<Rightarrow> storage_of n | Inr st \<Rightarrow> st) n)"
    using rd run_ok_snap [OF n] by (intro run_ok_storage [OF n]) (auto simp: ApplySnapshot_def)
  moreover have "Equivalent cs (xConfState rc')" if "publishSnapshot (rdSnapshot rd) rc = Some (rc', calls)" for rc' calls
    using that rd k by (auto simp: publishSnapshot_def knows_def snap_ok_def split: if_splits)
  ultimately show ?thesis unfolding install_ready_def Let_def prod.case
    by (intro post_if post_any post_prod post_Some) (use n k in \<open>auto simp: knows_def conf_ok_storage\<close>)
qed

lemma append_ready_ok:
  assumes n: "run_ok cs E i h A V n"
  shows "post (\<lambda>n'. run_ok cs E i h A V n' \<and> rPrs (raft_of n') = rPrs (raft_of n)) (append_ready rd n)"
  unfolding append_ready_def
  by (intro post_any post_Some conjI run_ok_storage [OF n])
    (use run_ok_snap [OF n] storage_Append_snap in \<open>auto simp: with_storage_def on_raft_def Let_def\<close>)

lemma advance_ready_ok:
  assumes n: "run_ok cs E i h A V n" "conf_ok cs (raft_of n)" and cs: "csVoters cs \<noteq> []"
  shows "post (\<lambda>n'. runs_on cs E i h A V n' \<and> conf_ok cs (raft_of n')) (advance_ready n)"
  unfolding advance_ready_def
  by (intro post_any post_option post_prod post_Some)
    (use turn_ok [OF n cs, of RecvAdvance] runs_on_refl [OF n(1)] n(2) in \<open>auto simp: trusted_def runs_on_def\<close>)

lemma storage_Append_hard: "storage_Append ms es = Some ms' \<Longrightarrow> msHardState ms' = msHardState ms"
  by (auto simp: storage_Append_def bind_eq_Some_conv Let_def split: if_splits list.splits)

lemma replayWAL_hard: "replayWAL sn hs es = Some st \<Longrightarrow> msHardState st = hs"
  unfolding replayWAL_def Let_def by (drule storage_Append_hard) (simp add: SetHardState_def)

lemma replayWAL_empty: "replayWAL (Some emptySnapshot) emptyState [] = Some st \<Longrightarrow> IsEmptySnap (msSnapshot st)"
  by (auto simp: replayWAL_def Let_def storage_Append_def SetHardState_def NewMemoryStorage_def ApplySnapshot_def IsEmptySnap_def
      emptySnapshot_def)

definition same_tv :: "HardState \<Rightarrow> HardState \<Rightarrow> bool" where
  "same_tv a b \<longleftrightarrow> hTerm a = hTerm b \<and> hVote a = hVote b"

lemma tv_same: "same_tv a b \<Longrightarrow> tv vh a = tv vh b"
  by (simp add: same_tv_def tv_def)

lemma NewRawNode_ok:
  assumes st: "rcStorage c = Some st" "snap_ok cs (msSnapshot st)" and tv: "tv S (msHardState st)"
  shows "post (\<lambda>rn. sound cs E (rcID c) S (rnRaft rn) \<and> same_tv (rnPrevHardSt rn) (msHardState st) \<and> rTerm (rnRaft rn) = hTerm (msHardState st))
    (NewRawNode c rand)"
  unfolding NewRawNode_def
proof (rule post_map, rule postI)
  fix r assume "newRaft c rand = Some r"
  from postD [OF newRaft_fresh [OF st(1)] this]
  have r: "fresh c st r" "rTerm r = hTerm (msHardState st)" "rVote r = hVote (msHardState st)" by auto
  have "sound cs E (rcID c) S r" by (rule fresh_sound [OF r(1) _ st(2)]) (use tv r in \<open>simp add: tv_def\<close>)
  then show "sound cs E (rcID c) S (rnRaft \<lparr>rnRaft = r, rnPrevSoftSt = softState r, rnPrevHardSt = hardState r\<rparr>)
      \<and> same_tv (rnPrevHardSt \<lparr>rnRaft = r, rnPrevSoftSt = softState r, rnPrevHardSt = hardState r\<rparr>) (msHardState st)
      \<and> rTerm (rnRaft \<lparr>rnRaft = r, rnPrevSoftSt = softState r, rnPrevHardSt = hardState r\<rparr>) = hTerm (msHardState st)"
    using r by (simp add: same_tv_def hardState_def)
qed

lemma newNode_runs:
  assumes "sound cs E i S (rnRaft rn)" "tv S (rnPrevHardSt rn)"
  shows "runs_on cs E i (rnPrevHardSt rn) S S (newNode rn)"
  using assms unfolding runs_on_def sound_def by (auto simp: run_ok_def newNode_def prev_of_def)

lemma startRaft_ok:
  assumes st: "msHardState st = hs" "snap_ok cs (msSnapshot st)" and tv: "tv S hs" and o: "oldwal \<or> hs = emptyState"
  shows "post (\<lambda>s. \<exists>h. same_tv h hs \<and> runs_on cs E (xId rc) h S S (snd s)) (startRaft oldwal st rand rc)"
proof -
  let ?c = "raft_config (xId rc) st"
  let ?Q = "\<lambda>n. \<exists>h. same_tv h hs \<and> runs_on cs E (xId rc) h S S n"
  have c: "rcStorage ?c = Some st" "rcID ?c = xId rc" by (simp_all add: raft_config_def)
  have t: "tv S (msHardState st)" using st(1) tv by simp
  note new = NewRawNode_ok [OF c(1) st(2) t, unfolded st(1) c(2), of E rand]
  have node: "?Q (newNode rn)" if "sound cs E (xId rc) S (rnRaft rn)" "same_tv (rnPrevHardSt rn) hs" for rn
    using newNode_runs [OF that(1)] tv_same [OF that(2)] tv that(2) by auto
  have "post ?Q (RestartNode ?c rand)"
    using new node unfolding RestartNode_def by (intro post_map) (auto simp: post_def)
  moreover have "post ?Q (StartNode ?c rand (peer_ids rc))" if e: "hs = emptyState"
    unfolding StartNode_def setupNode_def
  proof (rule post_if, rule post_None, rule post_bind [OF new])
    fix rn :: RawNode assume rn: "sound cs E (xId rc) S (rnRaft rn) \<and> same_tv (rnPrevHardSt rn) hs \<and> rTerm (rnRaft rn) = hTerm hs"
    then have b: "sound cs E (xId rc) S (rnRaft rn)" "rTerm (rnRaft rn) \<le> 1" using e by (simp_all add: emptyState_def)
    show "post ?Q (Bootstrap (peer_ids rc) rn \<bind> (\<lambda>(rn, _). Some (newNode rn)))"
      by (rule post_bind [OF Bootstrap_sound [OF b]], rule post_prod, rule post_Some, rule node) (use rn e in \<open>auto simp: same_tv_def\<close>)
  qed
  ultimately show ?thesis using o unfolding startRaft_def Let_def
    by (intro post_bind [where Q = ?Q] post_Some post_if) auto
qed

section \<open>The invariant of the cluster\<close>

definition phase_ok :: "ConfState \<Rightarrow> evidence \<Rightarrow> nat \<Rightarrow> HardState \<Rightarrow> hist \<Rightarrow> HardState \<Rightarrow> hist \<Rightarrow> phase \<Rightarrow> bool" where
  "phase_ok cs E i w S h A ph \<longleftrightarrow>
     (case ph of
        Got rd \<Rightarrow> S \<subseteq>\<^sub>m A \<and> same_tv (fold write_disk (save_ready rd) w) h \<and> (\<forall>m \<in> set (rdMessages rd). sent_ok cs E i A m) \<and> snap_ok cs (rdSnapshot rd)
      | Saved rd \<Rightarrow> A = S \<and> same_tv w h \<and> (\<forall>m \<in> set (rdMessages rd). sent_ok cs E i A m) \<and> snap_ok cs (rdSnapshot rd)
      | Installed rd \<Rightarrow> A = S \<and> same_tv w h \<and> (\<forall>m \<in> set (rdMessages rd). sent_ok cs E i A m)
      | Stored rd \<Rightarrow> A = S \<and> same_tv w h \<and> (\<forall>m \<in> set (rdMessages rd). sent_ok cs E i A m)
      | _ \<Rightarrow> A = S \<and> same_tv w h)"

definition member_ok :: "ConfState \<Rightarrow> evidence \<Rightarrow> nat \<Rightarrow> HardState \<Rightarrow> hist \<Rightarrow> hist \<Rightarrow> member \<Rightarrow> bool" where
  "member_ok cs E i w S V mem \<longleftrightarrow>
     (\<exists>h A. run_ok cs E i h A V (kNode mem) \<and> knows cs (kApp mem, kNode mem) \<and> phase_ok cs E i w S h A (kPhase mem))"

abbreviation saved :: "(nat \<Rightarrow> hist) \<Rightarrow> evidence" where
  "saved S \<equiv> \<lambda>q t i. S q t = Some i"

definition cluster_ok :: "ConfState \<Rightarrow> (nat \<Rightarrow> hist) \<Rightarrow> (nat \<Rightarrow> hist) \<Rightarrow> cluster \<Rightarrow> bool" where
  "cluster_ok cs S V g \<longleftrightarrow>
     (\<forall>i. tv (S i) (disk g i)) \<and> (\<forall>i mem. gMember g i = Some mem \<longrightarrow> member_ok cs (saved S) i (disk g i) (S i) (V i) mem)
     \<and> (\<forall>m \<in> gNet g. sent_ok cs (saved S) (mFrom m) (S (mFrom m)) m)"

text \<open>More votes on disk do not hurt.\<close>

lemma won_mono: "(\<And>q t j. E q t j \<Longrightarrow> E' q t j) \<Longrightarrow> won cs E i t \<Longrightarrow> won cs E' i t"
  unfolding won_def by blast

lemma sent_ok_mono:
  assumes "\<And>q t j. E q t j \<Longrightarrow> E' q t j" "R \<subseteq>\<^sub>m R'" "sent_ok cs E i R m"
  shows "sent_ok cs E' i R' m"
  using assms(2,3) won_mono [of E E', OF assms(1)] by (auto simp: sent_ok_def map_le_def dom_def)

lemma run_ok_mono:
  assumes E: "\<And>q t j. E q t j \<Longrightarrow> E' q t j" and n: "run_ok cs E i h A V n"
  shows "run_ok cs E' i h A V n"
proof -
  note w = won_mono [of E E', OF E] and m = sent_ok_mono [of E E', OF E map_le_refl]
  have "node_ok cs E' i V (raft_of n)" using n E w m by (auto simp: run_ok_def node_ok_def role_ok_def)
  moreover have "ready_ok cs E' i R h rd" if "ready_ok cs E i R h rd" for R rd using that m by (auto simp: ready_ok_def)
  ultimately show ?thesis using n unfolding run_ok_def by blast
qed

lemma phase_ok_mono:
  assumes E: "\<And>q t j. E q t j \<Longrightarrow> E' q t j" and p: "phase_ok cs E i w S h A ph"
  shows "phase_ok cs E' i w S h A ph"
  using p sent_ok_mono [of E E', OF E map_le_refl] by (cases ph) (auto simp: phase_ok_def)

lemma member_ok_mono: "(\<And>q t j. E q t j \<Longrightarrow> E' q t j) \<Longrightarrow> member_ok cs E i w S V mem \<Longrightarrow> member_ok cs E' i w S V mem"
  using run_ok_mono [of E E'] phase_ok_mono [of E E'] unfolding member_ok_def by meson

text \<open>Steps of one member.\<close>

lemma cluster_ok_put:
  assumes g: "cluster_ok cs S V g" and m: "member_ok cs (saved S) i (disk g i) (S i) W \<lparr>kApp = rc, kNode = n, kPhase = ph\<rparr>"
  shows "\<exists>V'. cluster_ok cs S V' (put_member i (rc, n) ph g)"
proof
  show "cluster_ok cs S (V(i := W)) (put_member i (rc, n) ph g)"
    using g m by (auto simp: cluster_ok_def put_member_def disk_def)
qed

lemma cluster_ok_member: "cluster_ok cs S V g \<Longrightarrow> at_phase g i rc n ph \<Longrightarrow>
    \<exists>h A. run_ok cs (saved S) i h A (V i) n \<and> knows cs (rc, n) \<and> phase_ok cs (saved S) i (disk g i) (S i) h A ph"
  unfolding cluster_ok_def member_ok_def by force

lemma cluster_ok_step:
  assumes g: "cluster_ok cs S V g" and "run_ok cs (saved S) i h A W n" "knows cs (rc, n)"
    "phase_ok cs (saved S) i (disk g i) (S i) h A ph"
  shows "\<exists>S' V'. cluster_ok cs S' V' (put_member i (rc, n) ph g)"
  using cluster_ok_put [OF g, of i W] assms unfolding member_ok_def by fastforce

lemma event_step:
  assumes g: "cluster_ok cs S V g" and p: "at_phase g i rc n ph" and cs: "csVoters cs \<noteq> []"
    and e: "trusted cs (saved S) i e" "turn e n = Some (Some (n', rep))"
  shows "\<exists>S' V'. cluster_ok cs S' V' (put_member i (rc, n') ph g)"
proof -
  obtain h A where m: "run_ok cs (saved S) i h A (V i) n" "knows cs (rc, n)" "phase_ok cs (saved S) i (disk g i) (S i) h A ph"
    using cluster_ok_member [OF g p] by blast
  then obtain W where "run_ok cs (saved S) i h A W n'" "knows cs (rc, n')"
    using turn_ok [OF m(1) _ cs e] by (auto simp: knows_def)
  then show ?thesis using cluster_ok_step [OF g] m(3) by blast
qed

lemma net_heard:
  assumes g: "cluster_ok cs S V g" and m: "m \<in> gNet g"
  shows "heard cs (saved S) (mTo m) m"
proof -
  have s: "sent_ok cs (saved S) (mFrom m) (S (mFrom m)) m" and t: "tv (S (mFrom m)) (disk g (mFrom m))"
    using g m by (auto simp: cluster_ok_def)
  have "t' \<noteq> 0" if "S (mFrom m) t' = Some j" for t' j using t that unfolding tv_def hist_tv_def by blast
  with s show ?thesis by (auto simp: sent_ok_def heard_def)
qed

lemma deliver_trusted: "heard cs E i m \<Longrightarrow> node_Step m = Some e \<Longrightarrow> trusted cs E i e"
  by (auto simp: node_Step_def stepWithWaitOption_def trusted_def split: if_splits)

lemma start_step:
  assumes i: "xId rc = i" and st: "msHardState st = hs" "snap_ok cs (msSnapshot st)"
    and d: "disk g' i = hs" "tv (S i) hs" "oldwal \<or> hs = emptyState"
    and s: "startRaft oldwal st rand rc = Some s" "relearn ccs s = Some s'" "knows cs s'" and g': "cluster_ok cs S V g'"
  shows "\<exists>S' V'. cluster_ok cs S' V' (put_member i s' Idle g')"
proof -
  obtain h where h: "same_tv h hs" "runs_on cs (saved S) i h (S i) (S i) (snd s)"
    using postD [OF startRaft_ok [OF st d(2,3)] s(1)] i by blast
  obtain W where "run_ok cs (saved S) i h (S i) W (snd s')" using postD [OF relearn_ok [OF h(2)] s(2)] by (auto simp: runs_on_def)
  then show ?thesis using cluster_ok_step [OF g', of i h "S i" W "snd s'" "fst s'"] s(3) h(1) d(1)
    by (simp add: phase_ok_def same_tv_def)
qed

lemma save_ready_disk: "fold write_disk (save_ready rd) w = (if IsEmptyHardState (rdHardState rd) then w else rdHardState rd)"
  by (simp add: save_ready_def)

lemma take_step:
  assumes g: "cluster_ok cs S V g" and p: "at_phase g i rc n Idle" and t: "turn SendReady n = Some (Some (n', ReadyReply rd))"
  shows "\<exists>S' V'. cluster_ok cs S' V' (put_member i (rc, n') (Got rd) g)"
proof -
  obtain h A where m: "run_ok cs (saved S) i h A (V i) n" "knows cs (rc, n)" "phase_ok cs (saved S) i (disk g i) (S i) h A Idle"
    using cluster_ok_member [OF g p] by blast
  then obtain R where R: "A \<subseteq>\<^sub>m R" "run_ok cs (saved S) i (if IsEmptyHardState (rdHardState rd) then h else rdHardState rd) R (V i) n'"
    "conf_ok cs (raft_of n')" "ready_ok cs (saved S) i R h rd"
    using take_ok [OF m(1) _ t] by (auto simp: knows_def)
  show ?thesis
  proof (rule cluster_ok_step [OF g R(2)])
    show "knows cs (rc, n')" using m(2) R(3) by (simp add: knows_def)
    show "phase_ok cs (saved S) i (disk g i) (S i) (if IsEmptyHardState (rdHardState rd) then h else rdHardState rd) R (Got rd)"
      using m(3) R(1,4) unfolding phase_ok_def save_ready_disk by (auto simp: ready_ok_def same_tv_def)
  qed
qed

lemma save_step:
  assumes g: "cluster_ok cs S V g" and p: "at_phase g i rc n (Got rd)"
  shows "\<exists>S' V'. cluster_ok cs S' V'
    (put_member i (rc, n) (Saved rd) (g\<lparr>gDisk := (gDisk g)(i \<mapsto> fold write_disk (save_ready rd) (disk g i))\<rparr>))"
proof -
  let ?w = "fold write_disk (save_ready rd) (disk g i)"
  obtain h A where m: "run_ok cs (saved S) i h A (V i) n" "knows cs (rc, n)" "phase_ok cs (saved S) i (disk g i) (S i) h A (Got rd)"
    using cluster_ok_member [OF g p] by blast
  let ?S = "S(i := A)" and ?g = "put_member i (rc, n) (Saved rd) (g\<lparr>gDisk := (gDisk g)(i \<mapsto> ?w)\<rparr>)"
  have SA: "S i \<subseteq>\<^sub>m A" and w: "same_tv ?w h" using m(3) by (simp_all add: phase_ok_def)
  have E: "saved ?S q t j" if "saved S q t j" for q t j using that SA by (auto simp: map_le_def dom_def)
  have d: "disk ?g j = (if j = i then ?w else disk g j)" for j by (simp add: disk_def put_member_def)
  have "cluster_ok cs ?S V ?g" unfolding cluster_ok_def
  proof (intro conjI allI impI ballI)
    show "tv (?S j) (disk ?g j)" for j using g m(1) tv_same [OF w] by (auto simp: d cluster_ok_def run_ok_def)
  next
    fix j mem assume j: "gMember ?g j = Some mem"
    show "member_ok cs (saved ?S) j (disk ?g j) (?S j) (V j) mem"
    proof (cases "j = i")
      case True
      then have mem: "mem = \<lparr>kApp = rc, kNode = n, kPhase = Saved rd\<rparr>" using j by (simp add: put_member_def)
      have ph: "phase_ok cs (saved S) i ?w A h A (Saved rd)" using m(3) w by (simp add: phase_ok_def)
      have "phase_ok cs (saved ?S) i ?w A h A (Saved rd)" by (rule phase_ok_mono [of "saved S", OF E ph]) simp
      moreover have "run_ok cs (saved ?S) i h A (V i) n" by (rule run_ok_mono [of "saved S", OF E m(1)]) simp
      ultimately show ?thesis using True m(2) unfolding member_ok_def mem d by auto
    next
      case False
      then have "member_ok cs (saved S) j (disk g j) (S j) (V j) mem" using g j by (simp add: cluster_ok_def put_member_def)
      then have "member_ok cs (saved ?S) j (disk g j) (S j) (V j) mem" by (rule member_ok_mono [of "saved S", OF E, rotated])
      with False show ?thesis by (simp add: d)
    qed
  next
    fix a assume "a \<in> gNet ?g"
    then have a: "sent_ok cs (saved S) (mFrom a) (S (mFrom a)) a" using g by (simp add: cluster_ok_def put_member_def)
    have "S (mFrom a) \<subseteq>\<^sub>m ?S (mFrom a)" using SA by simp
    from sent_ok_mono [of "saved S", OF E this a] show "sent_ok cs (saved ?S) (mFrom a) (?S (mFrom a)) a" by simp
  qed
  then show ?thesis by blast
qed

lemma processed_ok:
  assumes "a \<in> set (processMessages rc ms)" "\<forall>m \<in> set ms. sent_ok cs E i R m" "Equivalent cs (xConfState rc)"
  shows "sent_ok cs E i R a"
proof -
  obtain m where m: "m \<in> set ms" and a: "a = (if mType m = MsgSnap
      then m\<lparr>mSnapshot := (mSnapshot m)\<lparr>snMetadata := (snMetadata (mSnapshot m))\<lparr>smConfState := xConfState rc\<rparr>\<rparr>\<rparr> else m)"
    using assms(1) by (auto simp: processMessages_def)
  have "sent_ok cs E i R m" using assms(2) m by blast
  then show ?thesis using assms(3) by (auto simp: a sent_ok_def snap_ok_def)
qed

lemma sent_by: "sent_ok cs E i (S i) a \<Longrightarrow> sent_ok cs E (mFrom a) (S (mFrom a)) a"
  by (cases "mFrom a = i") (auto simp: sent_ok_def)

lemma send_step:
  assumes g: "cluster_ok cs S V g" and p: "at_phase g i rc n (Stored rd)"
  shows "\<exists>S' V'. cluster_ok cs S' V'
    (put_member i (rc, n) (Sent rd) (g\<lparr>gNet := gNet g \<union> set (processMessages rc (rdMessages rd))\<rparr>))"
proof -
  let ?g = "g\<lparr>gNet := gNet g \<union> set (processMessages rc (rdMessages rd))\<rparr>"
  obtain h A where m: "run_ok cs (saved S) i h A (V i) n" "knows cs (rc, n)" "phase_ok cs (saved S) i (disk g i) (S i) h A (Stored rd)"
    using cluster_ok_member [OF g p] by blast
  have "sent_ok cs (saved S) (mFrom a) (S (mFrom a)) a" if "a \<in> set (processMessages rc (rdMessages rd))" for a
    by (rule sent_by [of _ _ i], rule processed_ok [OF that]) (use m(2,3) in \<open>auto simp: phase_ok_def knows_def\<close>)
  then have g': "cluster_ok cs S V ?g" using g by (auto simp: cluster_ok_def disk_def)
  show ?thesis using cluster_ok_step [OF g' m(1,2)] m(3) by (simp add: phase_ok_def disk_def)
qed

lemma service_step:
  assumes g: "cluster_ok cs S V g" and p: "at_phase g i rc n ph"
    and f: "\<And>h A. run_ok cs (saved S) i h A (V i) n \<Longrightarrow> knows cs (rc, n) \<Longrightarrow> phase_ok cs (saved S) i (disk g i) (S i) h A ph \<Longrightarrow>
      runs_on cs (saved S) i h A (V i) (snd s) \<and> knows cs s \<and> phase_ok cs (saved S) i (disk g i) (S i) h A ph'"
  shows "\<exists>S' V'. cluster_ok cs S' V' (put_member i s ph' g)"
proof -
  obtain h A where m: "run_ok cs (saved S) i h A (V i) n" "knows cs (rc, n)" "phase_ok cs (saved S) i (disk g i) (S i) h A ph"
    using cluster_ok_member [OF g p] by blast
  from f [OF m] obtain W where "run_ok cs (saved S) i h A W (snd s)" "knows cs s" "phase_ok cs (saved S) i (disk g i) (S i) h A ph'"
    unfolding runs_on_def by blast
  then show ?thesis using cluster_ok_step [OF g, of i h A W "snd s" "fst s"] by simp
qed

lemma step_ok:
  assumes "step cs g g'" and g: "cluster_ok cs S V g" and cs: "csVoters cs \<noteq> []"
  shows "\<exists>S' V'. cluster_ok cs S' V' g'"
  using assms(1)
proof cases
  case (start rc i st rand s ccs s')
  let ?g = "g\<lparr>gDisk := (gDisk g)(i \<mapsto> emptyState)\<rparr>"
  have d: "disk ?g j = disk g j" for j using start(3) by (simp add: disk_def)
  have g': "cluster_ok cs S V ?g" using g by (simp add: cluster_ok_def d)
  have "disk g i = emptyState" using start(3) by (simp add: disk_def)
  then have t: "tv (S i) emptyState" using g unfolding cluster_ok_def by metis
  show ?thesis unfolding start(1)
    by (rule start_step [OF start(2) _ _ _ t _ start(5,6,7) g'])
      (use start replayWAL_hard replayWAL_empty in \<open>auto simp: snap_ok_def disk_def\<close>)
next
  case (restart rc i hs sn es st rand s ccs s')
  have d: "disk g i = hs" using restart(3) by (simp add: disk_def)
  have t: "tv (S i) hs" using g d unfolding cluster_ok_def by metis
  show ?thesis unfolding restart(1)
    by (rule start_step [OF restart(2) replayWAL_hard [OF restart(4)] restart(5) d t _ restart(6,7,8) g]) simp
next
  case (crash i)
  have "cluster_ok cs S V g'" using g unfolding crash cluster_ok_def disk_def by (auto split: if_splits)
  then show ?thesis by blast
next
  case (local i rc n ph e n' rep)
  show ?thesis unfolding local(1) by (rule event_step [OF g local(2) cs local_trusted [OF local(3)] local(4)])
next
  case (deliver i rc n ph m e n' rep)
  have "heard cs (saved S) i m" using net_heard [OF g deliver(3)] deliver(4) by simp
  then show ?thesis unfolding deliver(1) by (intro event_step [OF g deliver(2) cs _ deliver(6)] deliver_trusted [OF _ deliver(5)])
next
  case (take i rc n n' rd)
  show ?thesis unfolding take(1) by (rule take_step [OF g take(2,3)])
next
  case (save i rc n rd)
  show ?thesis unfolding save(1) by (rule save_step [OF g save(2)])
next
  case (install i rc n rd s calls)
  show ?thesis unfolding install(1)
    by (rule service_step [OF g install(2)])
      (use postD [OF install_ready_ok install(3)] in \<open>auto simp: phase_ok_def intro: runs_on_refl\<close>)
next
  case (append i rc n rd n')
  show ?thesis unfolding append(1)
    by (rule service_step [OF g append(2)])
      (use postD [OF append_ready_ok append(3)] in \<open>auto simp: phase_ok_def knows_def conf_ok_def intro: runs_on_refl\<close>)
next
  case (send i rc n rd)
  show ?thesis unfolding send(1) by (rule send_step [OF g send(2)])
next
  case (publish i rc n rd unjson s calls)
  show ?thesis unfolding publish(1)
    by (rule service_step [OF g publish(2)])
      (use postD [OF publish_ready_ok publish(3)] publish(4) runs_on_refl in \<open>auto simp: phase_ok_def\<close>)
next
  case (trim i rc n rd data s calls)
  show ?thesis unfolding trim(1)
    by (rule service_step [OF g trim(2)])
      (use postD [OF maybeTriggerSnapshot_ok trim(3)] in \<open>auto simp: phase_ok_def intro: runs_on_refl\<close>)
next
  case (advance i rc n rd n')
  show ?thesis unfolding advance(1)
    by (rule service_step [OF g advance(2)])
      (use postD [OF advance_ready_ok [OF _ _ cs] advance(3)] in \<open>auto simp: phase_ok_def knows_def\<close>)
qed

lemma reachable_cluster_ok:
  assumes "reachable cs g" "csVoters cs \<noteq> []"
  shows "\<exists>S V. cluster_ok cs S V g"
  using assms
proof (induction rule: reachable.induct)
  case init
  have "cluster_ok cs (\<lambda>_. Map.empty) (\<lambda>_. Map.empty) no_cluster"
    by (simp add: cluster_ok_def no_cluster_def disk_def tv_def hist_tv_def emptyState_def)
  then show ?case by blast
next
  case (step g g')
  then show ?case using step_ok by blast
qed

section \<open>Election safety\<close>

lemma led_vote:
  assumes g: "cluster_ok cs S V g" and l: "led g t i"
  shows "won cs (saved S) i t \<and> (\<exists>W. S i \<subseteq>\<^sub>m W \<and> W t = Some i)"
  using l unfolding led_def
proof
  assume "\<exists>mem. gMember g i = Some mem \<and> rState (raft_of (kNode mem)) = StateLeader \<and> rTerm (raft_of (kNode mem)) = t"
  then obtain mem where mem: "gMember g i = Some mem" "rState (raft_of (kNode mem)) = StateLeader" "rTerm (raft_of (kNode mem)) = t"
    by blast
  then obtain h A where m: "run_ok cs (saved S) i h A (V i) (kNode mem)" "phase_ok cs (saved S) i (disk g i) (S i) h A (kPhase mem)"
    using g unfolding cluster_ok_def member_ok_def by blast
  have "S i \<subseteq>\<^sub>m A" using m(2) by (cases "kPhase mem") (auto simp: phase_ok_def)
  then have "S i \<subseteq>\<^sub>m V i" using m(1) map_le_trans unfolding run_ok_def by blast
  moreover have "V i t = Some i \<and> won cs (saved S) i t"
    using m(1) mem by (auto simp: run_ok_def node_ok_def role_ok_def hist_ok_def)
  ultimately show ?thesis by blast
next
  assume "\<exists>m \<in> gNet g. mType m \<in> lead_types \<and> mFrom m = i \<and> mTerm m = t"
  then obtain m where m: "m \<in> gNet g" "mType m \<in> lead_types" "mFrom m = i" "mTerm m = t" by blast
  then have "sent_ok cs (saved S) i (S i) m" using g unfolding cluster_ok_def by blast
  then have "S i t = Some i \<and> won cs (saved S) i t" using m by (auto simp: sent_ok_def)
  then show ?thesis using map_le_refl by blast
qed

text \<open>
  C2. Election safety: however the members of a cluster start, stop, take messages and hand out what is
  to be stored and sent, and whatever the network does to messages, two nodes that lead or have led
  in the same term are the same node, as long as the configuration is \<open>cs\<close>.
\<close>

theorem election_safety:
  assumes "csVoters cs \<noteq> []" and "reachable cs g" and "led g t i" and "led g t j"
  shows "i = j"
proof -
  obtain S V where g: "cluster_ok cs S V g" using reachable_cluster_ok [OF assms(2,1)] by blast
  obtain W Q where i: "S i \<subseteq>\<^sub>m W" "W t = Some i" "conf_quorum cs Q" "\<And>q. q \<in> Q \<Longrightarrow> q = i \<or> S q t = Some i"
    using led_vote [OF g assms(3)] unfolding won_def by blast
  obtain X R where j: "S j \<subseteq>\<^sub>m X" "X t = Some j" "conf_quorum cs R" "\<And>q. q \<in> R \<Longrightarrow> q = j \<or> S q t = Some j"
    using led_vote [OF g assms(4)] unfolding won_def by blast
  obtain q where q: "q \<in> Q" "q \<in> R" using jq.intersect i(3) j(3) unfolding conf_quorum_def by blast
  have "S i t = Some j \<Longrightarrow> i = j" "S j t = Some i \<Longrightarrow> i = j"
    using i(1,2) j(1,2) by (auto simp: map_le_def dom_def)
  then show ?thesis using i(4) [OF q(1)] j(4) [OF q(2)] by auto
qed

end
