(* ===== verification/Raft_Hard.thy ===== *)
theory Raft_Hard
  imports Raft_Frame
begin

text \<open>
  The hard state of a raft node only moves forward: \<open>Step\<close> of \<open>src/etcd/raft/raft.go\<close> never lowers the term
  or the commit index, and never changes a vote within a term.
\<close>

section \<open>Moving forward\<close>

definition later :: "raft \<Rightarrow> raft \<Rightarrow> bool" where
  "later r r' \<longleftrightarrow>
     rid r' = rid r \<and> lCommitted (rLog r) \<le> lCommitted (rLog r')
     \<and> (rTerm r < rTerm r' \<or> rTerm r' = rTerm r \<and> (rVote r' = rVote r \<or> rVote r = 0))"

lemma later_refl [simp]: "later r r"
  by (simp add: later_def)

lemma later_trans: "later r s \<Longrightarrow> later s t \<Longrightarrow> later r t"
  by (auto simp: later_def)

lemma later_quiet: "later r s \<Longrightarrow> quiet s t \<Longrightarrow> later r t"
  by (rule later_trans) (auto simp: later_def dest!: quietD(1,2,3,7) simp: same_snaps_def quiet_def same_core_def)

lemma later_changed: "rTerm s \<le> t \<Longrightarrow> changed t (vote_at t s) st s u \<Longrightarrow> later s u"
  by (auto simp: later_def changed_def same_snaps_def split: if_splits)

lemma later_candidate: "changed (rTerm s + 1) v st s u \<Longrightarrow> later s u"
  by (auto simp: later_def changed_def same_snaps_def)

lemma later_role: "changed (rTerm s) (rVote s) st s u \<Longrightarrow> later s u"
  by (auto simp: later_def changed_def same_snaps_def)

lemma post_later: "post (later s) x \<Longrightarrow> later r s \<Longrightarrow> post (later r) x"
  using later_trans by (auto simp: post_def)

lemma quietly_later: "later r s \<Longrightarrow> quietly s x \<Longrightarrow> post (later r) x"
  using later_quiet by (auto simp: post_def)

lemma quietly2_later: "later r s \<Longrightarrow> quietly2 s x \<Longrightarrow> post (\<lambda>p. later r (fst p)) x"
  using later_quiet by (auto simp: post_def)

lemma later_id: "later r s \<Longrightarrow> rid r \<noteq> 0 \<Longrightarrow> rid s \<noteq> 0"
  by (simp add: later_def)

section \<open>Elections\<close>

lemma becomeFollower_later:
  assumes "rTerm s \<le> t"
  shows "post (\<lambda>u. later s u \<and> rTerm u = t \<and> rState u = StateFollower) (becomeFollower t lead s)"
proof (rule postI)
  fix u assume "becomeFollower t lead s = Some u"
  from postD [OF becomeFollower_changed this] later_changed [OF assms]
  show "later s u \<and> rTerm u = t \<and> rState u = StateFollower" by (auto simp: changed_def)
qed

lemma becomeLeader_later: "post (\<lambda>u. later s u \<and> rState u = StateLeader) (becomeLeader s)"
  by (rule postI, drule postD [OF becomeLeader_changed], frule later_role [OF conjunct2]) (simp add: changed_def)

lemma poll_later: "poll j v s = (u, res) \<Longrightarrow> later s u \<and> rTerm u = rTerm s \<and> rState u = rState s"
  by (auto simp: poll_def Let_def later_def split: prod.splits)

lemma campaign_later:
  assumes i: "rid s \<noteq> 0"
  shows "post (later s) (campaign t s)"
proof -
  have ask: "post (later s) (case poll (rid u) True u of (u', res) \<Rightarrow> if res = VoteWon then f u' else ask_votes vt k ctx u')"
    if u: "later s u" and vt: "vt = MsgVote \<or> vt = MsgPreVote" and f: "\<And>u'. later s u' \<Longrightarrow> post (later s) (f u')" for u f vt k ctx
  proof (rule post_prod)
    fix u' res assume "poll (rid u) True u = (u', res)"
    then have u': "later s u'" using poll_later u later_trans by blast
    show "post (later s) (if res = VoteWon then f u' else ask_votes vt k ctx u')"
      using f [OF u'] quietly_later [OF u' ask_votes_quietly [OF later_id [OF u' i] quiet_refl vt]] by simp
  qed
  have lead: "post (later s) (becomeLeader u)" if "later s u" for u
    by (rule postI, drule postD [OF becomeLeader_later], rule later_trans [OF that]) simp
  have election: "post (later s) (campaign t u)" if u: "later s u" and t: "t \<noteq> campaignPreElection" for t u
  proof -
    have "post (later s) (becomeCandidate u)"
      by (rule postI, drule postD [OF becomeCandidate_changed], rule later_trans [OF u later_candidate [OF conjunct2]])
    then show ?thesis using t ask [OF _ _ lead] by (auto simp: campaign.simps [of t] Let_def intro!: post_bind [where Q = "later s"])
  qed
  show ?thesis
  proof (cases "t = campaignPreElection")
    case True
    have "post (later s) (becomePreCandidate s)"
      by (rule postI, drule postD [OF becomePreCandidate_changed], rule later_role [OF conjunct2])
    then show ?thesis using True ask [OF _ _ election]
      by (auto simp: campaign.simps [of campaignPreElection] Let_def intro!: post_bind [where Q = "later s"])
  qed (use election in simp)
qed

lemma hup_later: "rid s \<noteq> 0 \<Longrightarrow> post (later s) (hup t s)"
  unfolding hup_def by (intro post_if post_any post_sum post_None post_Some campaign_later later_refl)

section \<open>Messages\<close>

lemma candidate_vote_later:
  assumes i: "rid s \<noteq> 0"
  shows "post (later s) (candidate_vote m s)"
  unfolding candidate_vote_def Let_def
proof (rule post_prod)
  fix u res assume "poll (mFrom m) (\<not> mReject m) s = (u, res)"
  then have u: "later s u" using poll_later by blast
  have "post (later s) (becomeLeader u \<bind> bcastAppend)"
  proof (rule post_bind [OF becomeLeader_later])
    fix v assume v: "later u v \<and> rState v = StateLeader"
    then have "later s v" using later_trans [OF u] by blast
    from quietly_later [OF this bcastAppend_quietly [OF later_id [OF this i] _ quiet_refl]] v show "post (later s) (bcastAppend v)" by simp
  qed
  moreover have "post (later s) (becomeFollower (rTerm u) 0 u)"
    by (rule postI, drule postD [OF becomeFollower_later, rotated], simp, rule later_trans [OF u]) simp
  ultimately show "post (later s) (case res of VotePending \<Rightarrow> Some u | VoteLost \<Rightarrow> becomeFollower (rTerm u) 0 u
      | VoteWon \<Rightarrow> if rState u = StatePreCandidate then campaign campaignElection u else becomeLeader u \<bind> bcastAppend)"
    using u post_later [OF campaign_later [OF later_id [OF u i]] u] by (cases res) (simp_all add: post_Some)
qed

lemma raft_restore_later: "post (\<lambda>p. later s (fst p)) (raft_restore sn s)"
  unfolding raft_restore_def Let_def
proof (intro post_if post_any post_sum post_None post_map)
  show "post (\<lambda>v. later s (fst (v, False))) (becomeFollower (rTerm s + 1) 0 s)"
    using becomeFollower_later [of s "rTerm s + 1" 0] by (simp add: post_def)
next
  fix l assume "commitTo (rLog s) (snIndex sn) = Some l"
  then show "post (\<lambda>p. later s (fst p)) (Some (s\<lparr>rLog := l\<rparr>, False))"
    using later_quiet [OF later_refl quiet_log [OF quiet_refl commitTo_snaps]] by (simp add: post_def)
next
  fix cp p
  assume f: "\<not> snIndex sn \<le> lCommitted (rLog s)" "\<not> rState s \<noteq> StateFollower"
    and p: "switchToConfig cp (s\<lparr>rLog := log_restore (rLog s) sn, rPrs := MakeProgressTracker (tMaxInflight (rPrs (s\<lparr>rLog := log_restore (rLog s) sn\<rparr>)))\<rparr>) = Some p"
  obtain u cs2 where u: "p = (u, cs2)" by (cases p)
  have "later s (fst p)"
    using f switchToConfig_follower [OF _ p [unfolded u]] by (simp add: u later_def log_restore_def)
  then show "post (\<lambda>p. later s (fst p)) (case p of (u, cs2) \<Rightarrow> do {
          _ \<leftarrow> assertConfStatesEquivalent (smConfState (snMetadata sn)) cs2;
          pr \<leftarrow> progress u (rid u);
          _ \<leftarrow> lastTerm (rLog (put_progress (rid u) (fst (MaybeUpdate pr (sub64 (prNext pr) 1))) u));
          Some (put_progress (rid u) (fst (MaybeUpdate pr (sub64 (prNext pr) 1))) u, True) })"
    by (auto simp: later_def intro!: post_prod post_any post_Some)
qed (simp_all add: post_def)

lemma handleSnapshot_later:
  assumes "rid s \<noteq> 0"
  shows "post (later s) (handleSnapshot m s)"
  unfolding handleSnapshot_def
proof (rule post_bind [OF raft_restore_later], rule post_prod)
  fix p and u :: raft and b :: bool assume "later s (fst p)" "p = (u, b)"
  then have u: "later s u" by simp
  show "post (later s) (if b then do { li \<leftarrow> log_lastIndex (rLog u); send (emptyMessage\<lparr>mTo := mFrom m, mType := MsgAppResp, mIndex := li\<rparr>) u }
      else send (emptyMessage\<lparr>mTo := mFrom m, mType := MsgAppResp, mIndex := lCommitted (rLog u)\<rparr>) u)"
    using later_id [OF u assms] by (intro quietly_later [OF u] post_if post_any send_quietly) simp_all
qed

lemma handleVote_later:
  assumes v: "mType m = MsgVote \<or> mType m = MsgPreVote"
  shows "post (later s) (handleVote m s)"
  unfolding handleVote_def Let_def
proof (intro post_any post_if)
  fix utd resp u
  assume "(rVote s = mFrom m \<or> rVote s = 0 \<and> rLead s = 0 \<or> mType m = MsgPreVote \<and> rTerm s < mTerm m) \<and> utd"
    and u: "send (emptyMessage\<lparr>mTo := mFrom m, mTerm := mTerm m, mType := resp\<rparr>) s = Some u"
  moreover obtain a where "u = s\<lparr>rMsgs := rMsgs s @ [a]\<rparr>" using u by (rule send_msg)
  ultimately show "post (later s) (Some (if mType m = MsgVote then u\<lparr>rElectionElapsed := 0, rVote := mFrom m\<rparr> else u))"
    using v by (auto simp: later_def intro!: post_Some)
next
  fix resp
  show "post (later s) (send (emptyMessage\<lparr>mTo := mFrom m, mTerm := rTerm s, mType := resp, mReject := True\<rparr>) s)"
    by (rule postI, erule send_msg) (simp add: later_def)
qed

section \<open>Step\<close>

abbreviation laters :: "raft \<Rightarrow> (raft \<times> 'a) option \<Rightarrow> bool" where
  "laters r \<equiv> post (\<lambda>p. later r (fst p))"

lemma no_err_later: "post (later r) x \<Longrightarrow> laters r (no_err x)"
  by (auto simp: post_def)

lemma laters_Some: "later r s \<Longrightarrow> laters r (Some (s, a))"
  by (simp add: post_def)

lemma stepLeader_later:
  assumes "rid s \<noteq> 0" "rState s = StateLeader"
  shows "laters s (stepLeader m s)"
proof (cases "mType m = MsgCheckQuorum")
  case True
  have "post (later s) (leader_CheckQuorum s)"
  proof (rule postI, drule postD [OF leader_CheckQuorum_changed], erule disjE)
    fix u assume "silent s u"
    then show "later s u" using later_quiet [OF later_refl silent_quiet [OF quiet_refl]] by blast
  qed (rule later_role)
  then show ?thesis using True by (simp add: stepLeader_def no_err_later)
next
  case False
  then show ?thesis using quietly2_later [OF later_refl stepLeader_quietly [OF assms quiet_refl]] by simp
qed

lemma stepCandidate_later:
  assumes i: "rid s \<noteq> 0" and t: "mType m \<in> lead_types \<Longrightarrow> mTerm m = rTerm s"
  shows "laters s (stepCandidate m s)"
proof -
  have follow: "post (later s) (becomeFollower (mTerm m) (mFrom m) s \<bind> f)"
    if "mType m \<in> lead_types" "\<And>u. rid u \<noteq> 0 \<Longrightarrow> post (later u) (f u)" for f
  proof (rule post_bind [OF becomeFollower_later])
    fix u assume "later s u \<and> rTerm u = mTerm m \<and> rState u = StateFollower"
    then show "post (later s) (f u)" using that(2) [OF later_id [OF _ i]] post_later by blast
  qed (use t that in simp)
  have q: "post (later u) (handleAppendEntries m u)" "post (later u) (handleHeartbeat m u)" if "rid u \<noteq> 0" for u
    by (rule quietly_later [OF later_refl handleAppendEntries_quietly [OF that quiet_refl]]
        quietly_later [OF later_refl handleHeartbeat_quietly [OF that quiet_refl]])+
  show ?thesis unfolding stepCandidate_def
    by (cases "mType m")
      (auto intro!: no_err_later laters_Some follow q handleSnapshot_later candidate_vote_later i)
qed

lemma stepFollower_later:
  assumes i: "rid s \<noteq> 0"
  shows "laters s (stepFollower m s)"
proof -
  let ?heard = "s\<lparr>rElectionElapsed := 0, rLead := mFrom m\<rparr>"
  have q: "quiet s ?heard" by (intro quiet_upd quiet_refl)
  have fwd: "post (later s) (send (m\<lparr>mTo := rLead s\<rparr>) s)"
    by (rule postI, erule send_msg) (simp add: later_def)
  have snap: "post (later s) (handleSnapshot m ?heard)"
    using post_later [OF handleSnapshot_later later_quiet [OF later_refl q]] i by simp
  note app = quietly_later [OF later_refl handleAppendEntries_quietly [OF i q]] quietly_later [OF later_refl handleHeartbeat_quietly [OF i q]]
  have "later s (s\<lparr>rReadStates := rs\<rparr>)" for rs by (simp add: later_def)
  then show ?thesis unfolding stepFollower_def Let_def
    by (cases "mType m") (auto intro!: no_err_later laters_Some fwd snap app hup_later i split: list.splits)
qed

lemma step_message_later:
  assumes i: "rid s \<noteq> 0" and t: "mType m \<in> lead_types \<Longrightarrow> mTerm m = rTerm s"
  shows "laters s (step_message m s)"
  unfolding step_message_def
proof (intro post_if)
  show "laters s (case rState s of StateFollower \<Rightarrow> stepFollower m s | StateCandidate \<Rightarrow> stepCandidate m s
      | StateLeader \<Rightarrow> stepLeader m s | StatePreCandidate \<Rightarrow> stepCandidate m s)"
    using stepLeader_later [OF i] stepFollower_later [OF i] stepCandidate_later [OF i t] by (cases "rState s") auto
qed (intro no_err_later hup_later handleVote_later i; assumption)+

lemma Step_later:
  assumes i: "rid s \<noteq> 0" and t: "mType m \<in> lead_types \<Longrightarrow> mTerm m \<noteq> 0"
  shows "laters s (Step m s)"
proof -
  have high: "laters s (step_higher_term m s \<bind> step_message m)" if "rTerm s < mTerm m"
  proof (rule post_bind [where Q = "\<lambda>u. later s u \<and> (mType m \<in> lead_types \<longrightarrow> mTerm m = rTerm u)"])
    show "post (\<lambda>u. later s u \<and> (mType m \<in> lead_types \<longrightarrow> mTerm m = rTerm u)) (step_higher_term m s)"
      unfolding step_higher_term_def using that becomeFollower_later [of s "mTerm m"] by (auto simp: post_def)
    fix u assume u: "later s u \<and> (mType m \<in> lead_types \<longrightarrow> mTerm m = rTerm u)"
    then have "laters u (step_message m u)" by (intro step_message_later) (auto dest: later_id [OF _ i])
    then show "laters s (step_message m u)" using u later_trans by (auto simp: post_def)
  qed
  show ?thesis unfolding Step_def
    by (intro post_if post_any high step_message_later i no_err_later quietly_later [OF later_refl step_lower_term_quietly] laters_Some later_refl quiet_refl)
      (use t in auto)
qed

section \<open>A node that handles messages\<close>

definition handle_all :: "Message list \<Rightarrow> raft \<Rightarrow> raft option" where
  "handle_all ms r = for_each (\<lambda>m r. map_option fst (Step m r)) ms r"


end
