(* ===== verification/Raft_Flow.thy ===== *)
theory Raft_Flow
  imports Raft_Frame
begin

text \<open>
  The flow of entries from a leader to a follower (\<open>maybeSendAppend\<close> of \<open>src/etcd/raft/raft.go\<close>): the loop
  that sends as much as the window of the follower takes ends, and sends the entries of the log in order.
\<close>

section \<open>One message\<close>

definition flow_ok :: "nat \<Rightarrow> Progress \<Rightarrow> raft \<Rightarrow> bool" where
  "flow_ok to pr r \<longleftrightarrow>
     shape_ok (rLog r) \<and> progress r to = Some pr \<and> prState pr = StateReplicate \<and> log_base (rLog r) < prNext pr
     \<and> prNext pr \<le> Suc (log_last (rLog r)) \<and> inf_ok (prInflights pr) \<and> to \<noteq> rid r"

lemma send_App:
  assumes "mType m = MsgApp" "mTerm m = 0" "mTo m \<noteq> rid r"
  shows "\<exists>m'. send m r = Some (r\<lparr>rMsgs := rMsgs r @ [m']\<rparr>) \<and> mType m' = MsgApp \<and> mTo m' = mTo m \<and> mEntries m' = mEntries m"
  using assms by (cases "mFrom m = 0") (auto simp: send_def push_def Let_def)

lemma batch:
  assumes "shape_ok l" "log_base l < k" "k \<le> log_last l"
  obtains k' where "log_entries l k mx = Some (Inr (segment l k k'))" "k < k'" "k' \<le> Suc (log_last l)"
    "segment l k k' \<noteq> []" "eIndex (last (segment l k k')) + 1 = k'"
proof -
  let ?s = "segment l k (Suc (log_last l))"
  have len: "length ?s = Suc (log_last l) - k" using assms by (intro length_segment) simp_all
  obtain j where j: "limitSize ?s mx = take j ?s" "?s \<noteq> [] \<longrightarrow> 0 < j" using limitSize_prefix by blast
  define k' where "k' = k + min j (length ?s)"
  have k': "k < k'" "k' \<le> Suc (log_last l)" using j(2) len assms(3) by (auto simp: k'_def)
  have seg: "take j ?s = segment l k k'" unfolding k'_def by (simp add: segment_def min_def)
  have l: "length (segment l k k') = k' - k" using assms k' by (intro length_segment) simp_all
  have "contig k (segment l k k')" using assms by (intro contig_segment) simp_all
  then have "eIndex (last (segment l k k')) + 1 = k'" using contig_last [of k "segment l k k'"] l k'(1) by fastforce
  moreover have "log_entries l k mx = Some (Inr (segment l k k'))"
    using assms log_slice_ok [OF assms(1,2), of "Suc (log_last l)" mx] j(1) seg by (simp add: log_entries_def log_lastIndex_ok)
  moreover have "segment l k k' \<noteq> []" using l k'(1) by auto
  ultimately show ?thesis using that k' by blast
qed

lemma maybeSendAppend_flow:
  assumes f: "flow_ok to pr r" and n: "\<not> Full (prInflights pr)" "prNext pr \<le> log_last (rLog r)"
  obtains r' pr' m where "maybeSendAppend to False r = Some (r', True)" "flow_ok to pr' r'" "rLog r' = rLog r"
    "rMsgs r' = rMsgs r @ [m]" "mType m = MsgApp" "mTo m = to" "mEntries m = segment (rLog r) (prNext pr) (prNext pr')"
    "mEntries m \<noteq> []" "prNext pr < prNext pr'"
proof -
  let ?l = "rLog r" and ?k = "prNext pr"
  have b: "shape_ok ?l" "log_base ?l < ?k" using f by (simp_all add: flow_ok_def)
  obtain k' where k: "log_entries ?l ?k (rMaxMsgSize r) = Some (Inr (segment ?l ?k k'))" "?k < k'" "k' \<le> Suc (log_last ?l)"
    "segment ?l ?k k' \<noteq> []" "eIndex (last (segment ?l ?k k')) + 1 = k'"
    using batch [OF b n(2)] by blast
  obtain t where t: "log_term ?l (sub64 ?k 1) = Some (Inr t)" using log_term_ok [OF b(1)] by blast
  have "inf_ok (prInflights pr)" using f by (simp add: flow_ok_def)
  then obtain infl where infl: "Inflights_Add (prInflights (OptimisticUpdate pr (eIndex (last (segment ?l ?k k'))))) (eIndex (last (segment ?l ?k k'))) = Some infl" "inf_ok infl"
    using Add_queue n(1) by (auto simp: OptimisticUpdate_def)
  define pr' where "pr' = pr\<lparr>prNext := k', prInflights := infl\<rparr>"
  have tr: "track_append (segment ?l ?k k') pr = Some pr'"
    using f k(4,5) infl by (simp add: track_append_def flow_ok_def OptimisticUpdate_def pr'_def Let_def)
  obtain m where m: "send (emptyMessage\<lparr>mTo := to, mType := MsgApp, mIndex := sub64 ?k 1, mLogTerm := t,
      mEntries := segment ?l ?k k', mCommit := lCommitted ?l\<rparr>) (put_progress to pr' r) = Some ((put_progress to pr' r)\<lparr>rMsgs := rMsgs r @ [m]\<rparr>)"
    "mType m = MsgApp" "mTo m = to" "mEntries m = segment ?l ?k k'"
    using send_App [of "emptyMessage\<lparr>mTo := to, mType := MsgApp, mIndex := sub64 ?k 1, mLogTerm := t,
      mEntries := segment ?l ?k k', mCommit := lCommitted ?l\<rparr>" "put_progress to pr' r"] f by (auto simp: flow_ok_def)
  show ?thesis
  proof (rule that)
    show "maybeSendAppend to False r = Some ((put_progress to pr' r)\<lparr>rMsgs := rMsgs r @ [m]\<rparr>, True)"
      using f n(1) k(1,4) t tr m(1) by (simp add: maybeSendAppend_def flow_ok_def IsPaused_def Let_def)
    show "flow_ok to pr' ((put_progress to pr' r)\<lparr>rMsgs := rMsgs r @ [m]\<rparr>)"
      using f k(2,3) infl(2) by (auto simp: flow_ok_def pr'_def put_progress_def update_conv')
    show "mEntries m \<noteq> []" using m(4) k(4) by simp
  qed (use m k(2) in \<open>simp_all add: pr'_def\<close>)
qed

lemma maybeSendAppend_done:
  assumes f: "flow_ok to pr r" and n: "Full (prInflights pr) \<or> log_last (rLog r) < prNext pr"
  shows "maybeSendAppend to False r = Some (r, False)"
  using assms log_term_ok [of "rLog r" "sub64 (prNext pr) 1"]
  by (auto simp: maybeSendAppend_def flow_ok_def IsPaused_def log_entries_def log_lastIndex_ok)

section \<open>The loop\<close>

text \<open>
  C17. The loop that sends entries to a follower ends: it returns when the window of messages in
  flight is full or the log is sent, and what it has sent are messages with entries to that follower,
  which together are the entries of the log from the follower's next index on, in order.
\<close>

theorem send_more_in_order:
  assumes "flow_ok to pr r"
  shows "\<exists>r' pr' ms. send_more to r = Some r' \<and> flow_ok to pr' r' \<and> rLog r' = rLog r \<and> rMsgs r' = rMsgs r @ ms \<and> prNext pr \<le> prNext pr'
    \<and> concat (map mEntries ms) = segment (rLog r) (prNext pr) (prNext pr')
    \<and> list_all (\<lambda>m. mType m = MsgApp \<and> mTo m = to \<and> mEntries m \<noteq> []) ms
    \<and> (Full (prInflights pr') \<or> prNext pr' = Suc (log_last (rLog r)))"
  using assms
proof (induction "Suc (log_last (rLog r)) - prNext pr" arbitrary: r pr rule: less_induct)
  case less
  show ?case
  proof (cases "Full (prInflights pr) \<or> log_last (rLog r) < prNext pr")
    case True
    then have "send_more to r = Some r" using maybeSendAppend_done [OF less.prems] by (subst send_more.simps) simp
    moreover have "Full (prInflights pr) \<or> prNext pr = Suc (log_last (rLog r))" using True less.prems by (auto simp: flow_ok_def)
    ultimately show ?thesis using less.prems by (intro exI [of _ r] exI [of _ pr] exI [of _ "[]"]) (simp add: segment_def)
  next
    case False
    then obtain s ps m where s: "maybeSendAppend to False r = Some (s, True)" "flow_ok to ps s" "rLog s = rLog r"
      "rMsgs s = rMsgs r @ [m]" "mType m = MsgApp" "mTo m = to" "mEntries m = segment (rLog r) (prNext pr) (prNext ps)"
      "mEntries m \<noteq> []" "prNext pr < prNext ps"
      using maybeSendAppend_flow [OF less.prems] by (metis not_le)
    have "Suc (log_last (rLog s)) - prNext ps < Suc (log_last (rLog r)) - prNext pr"
      unfolding s(3) using s(9) False by (intro diff_less_mono2) auto
    from less.hyps [OF this s(2)] obtain r' pr' ms where i: "send_more to s = Some r'" "flow_ok to pr' r'" "rLog r' = rLog s" "rMsgs r' = rMsgs s @ ms" "prNext ps \<le> prNext pr'"
      "concat (map mEntries ms) = segment (rLog s) (prNext ps) (prNext pr')"
      "list_all (\<lambda>m. mType m = MsgApp \<and> mTo m = to \<and> mEntries m \<noteq> []) ms" "Full (prInflights pr') \<or> prNext pr' = Suc (log_last (rLog s))"
      by blast
    have "send_more to r = Some r'" using s(1) i(1) by (subst send_more.simps) simp
    moreover have "concat (map mEntries (m # ms)) = segment (rLog r) (prNext pr) (prNext pr')"
      using s(3,7,9) i(5,6) less.prems segment_split [of "rLog r" "prNext pr" "prNext ps" "prNext pr'"] by (simp add: flow_ok_def)
    ultimately show ?thesis using i s by (intro exI [of _ r'] exI [of _ pr'] exI [of _ "m # ms"]) simp
  qed
qed

end
