(* ===== verification/Raft_Execution.thy ===== *)
theory Raft_Execution
  imports Raft_Election Raft_Hard Raft_Flow "HOL-Library.Code_Target_Nat"
begin

text \<open>
  Executions of a cluster: an interpreter for the steps of \<open>Raft_Election\<close> that computes, its soundness, and a
  run of three members in which one is elected. The last sections run one node: a follower that is asked for its
  vote twice, and a leader that sends its log.
\<close>

datatype act =
    Start RaftNode "ConfChangeI list"
  | Event event
  | Deliver Message
  | Take
  | Save
  | Install
  | Append
  | Send
  | Publish
  | Trim
  | Finish

fun exec_member :: "ConfState \<Rightarrow> nat \<Rightarrow> RaftNode \<Rightarrow> node \<Rightarrow> cluster \<Rightarrow> act \<Rightarrow> phase \<Rightarrow> cluster option" where
  "exec_member cs i rc n g (Event e) ph =
     (case turn e n of Some (Some (n', _)) \<Rightarrow>
        if e = RecvTick \<or> e = node_Campaign then Some (put_member i (rc, n') ph g) else None
      | _ \<Rightarrow> None)"
| "exec_member cs i rc n g (Deliver m) ph = do {
     e \<leftarrow> node_Step m;
     (case turn e n of Some (Some (n', _)) \<Rightarrow>
        if m \<in> gNet g \<and> mTo m = i then Some (put_member i (rc, n') ph g) else None
      | _ \<Rightarrow> None) }"
| "exec_member cs i rc n g Take Idle =
     (case turn SendReady n of Some (Some (n', ReadyReply rd)) \<Rightarrow> Some (put_member i (rc, n') (Got rd) g) | _ \<Rightarrow> None)"
| "exec_member cs i rc n g Save (Got rd) =
     Some (put_member i (rc, n) (Saved rd) (g\<lparr>gDisk := (gDisk g)(i \<mapsto> fold write_disk (save_ready rd) (disk g i))\<rparr>))"
| "exec_member cs i rc n g Install (Saved rd) = do {
     (s, _) \<leftarrow> install_ready rd (rc, n);
     Some (put_member i s (Installed rd) g) }"
| "exec_member cs i rc n g Append (Installed rd) = do {
     n' \<leftarrow> append_ready rd n;
     Some (put_member i (rc, n') (Stored rd) g) }"
| "exec_member cs i rc n g Send (Stored rd) =
     Some (put_member i (rc, n) (Sent rd) (g\<lparr>gNet := gNet g \<union> set (processMessages rc (rdMessages rd))\<rparr>))"
| "exec_member cs i rc n g Publish (Sent rd) = do {
     (s, _, ok) \<leftarrow> publish_ready (\<lambda>_. None) rd (rc, n);
     if ok \<and> knows cs s then Some (put_member i s (Published rd) g) else None }"
| "exec_member cs i rc n g Trim (Published rd) = do {
     (s, _) \<leftarrow> maybeTriggerSnapshot None (rc, n);
     Some (put_member i s (Trimmed rd) g) }"
| "exec_member cs i rc n g Finish (Trimmed rd) = do {
     n' \<leftarrow> advance_ready n;
     Some (put_member i (rc, n') Idle g) }"
| "exec_member cs i rc n g _ _ = None"

fun exec :: "ConfState \<Rightarrow> nat \<times> act \<Rightarrow> cluster \<Rightarrow> cluster option" where
  "exec cs (i, Start rc ccs) g = do {
     st \<leftarrow> replayWAL (Some emptySnapshot) emptyState [];
     s \<leftarrow> startRaft False st (\<lambda>_. 0) rc;
     s \<leftarrow> relearn ccs s;
     if xId rc = i \<and> gDisk g i = None \<and> knows cs s
     then Some (put_member i s Idle (g\<lparr>gDisk := (gDisk g)(i \<mapsto> emptyState)\<rparr>)) else None }"
| "exec cs (i, a) g =
     (case gMember g i of None \<Rightarrow> None | Some mem \<Rightarrow> exec_member cs i (kApp mem) (kNode mem) g a (kPhase mem))"

definition run_acts :: "ConfState \<Rightarrow> (nat \<times> act) list \<Rightarrow> cluster option" where
  "run_acts cs acts = for_each (exec cs) acts no_cluster"

lemma campaign_local: "e = RecvTick \<or> e = node_Campaign \<Longrightarrow> local_event e"
  by (auto intro: local_event.intros)

lemma exec_member_step:
  assumes p: "at_phase g i rc n ph"
  shows "post (step cs g) (exec_member cs i rc n g a ph)"
  using p
proof (induction cs i rc n g a ph rule: exec_member.induct)
  case (1 cs i rc n g e ph)
  then show ?case using step.local [OF 1 campaign_local]
    by (auto simp: post_def split: option.splits prod.splits if_splits)
next
  case (2 cs i rc n g m ph)
  show ?case unfolding exec_member.simps
    by (intro post_any post_option post_prod post_if post_None post_Some) (use step.deliver [OF 2] in \<open>simp, blast\<close>)
next
  case (3 cs i rc n g)
  then show ?case using step.take [OF 3] by (auto simp: post_def split: option.splits prod.splits reply.splits)
next
  case (4 cs i rc n g rd)
  then show ?case using step.save [OF 4] by (simp add: post_def)
next
  case (5 cs i rc n g rd)
  then show ?case using step.install [OF 5] by (auto simp: post_def bind_eq_Some_conv)
next
  case (6 cs i rc n g rd)
  then show ?case using step.append [OF 6] by (auto simp: post_def bind_eq_Some_conv)
next
  case (7 cs i rc n g rd)
  then show ?case using step.send [OF 7] by (simp add: post_def)
next
  case (8 cs i rc n g rd)
  then show ?case using step.publish [OF 8] by (auto simp: post_def bind_eq_Some_conv split: if_splits)
next
  case (9 cs i rc n g rd)
  then show ?case using step.trim [OF 9] by (auto simp: post_def bind_eq_Some_conv)
next
  case (10 cs i rc n g rd)
  then show ?case using step.advance [OF 10] by (auto simp: post_def bind_eq_Some_conv)
qed (simp_all add: post_None)

lemma exec_step: "post (step cs g) (exec cs a g)"
proof (induction cs a g rule: exec.induct)
  case (1 cs i rc ccs g)
  then show ?case by (auto simp: post_def bind_eq_Some_conv split: if_splits intro!: step.start)
qed (auto intro!: post_option post_None exec_member_step)

lemma run_acts_reachable: "run_acts cs acts = Some g \<Longrightarrow> reachable cs g"
proof -
  have "post (reachable cs) (for_each (exec cs) acts no_cluster)"
  proof (rule post_for_each)
    fix a g assume "reachable cs g"
    then show "post (reachable cs) (exec cs a g)" using exec_step [of cs g a] reachable.step by (auto simp: post_def)
  qed (rule reachable.init)
  then show "run_acts cs acts = Some g \<Longrightarrow> reachable cs g" unfolding run_acts_def by (rule postD)
qed

section \<open>Three members elect a leader\<close>

definition three :: ConfState where
  "three = emptyConfState\<lparr>csVoters := [1, 2, 3]\<rparr>"

definition joins :: "nat \<Rightarrow> nat \<times> act" where
  "joins i = (i, Start (NewRaftNode i [''a'', ''b'', ''c''] True) (map (\<lambda>k. V1 (emptyConfChange\<lparr>ccNodeID := k\<rparr>)) [1, 2, 3]))"

definition sends_out :: "nat \<Rightarrow> (nat \<times> act) list" where
  "sends_out i = map (Pair i) [Take, Save, Install, Append, Send]"

definition election :: "(nat \<times> act) list" where
  "election =
     [joins 1, joins 2, joins 3, (1, Event node_Campaign)] @ sends_out 1
     @ [(2, Deliver (emptyMessage\<lparr>mType := MsgVote, mTo := 2, mFrom := 1, mTerm := 1\<rparr>))] @ sends_out 2
     @ [(1, Deliver (emptyMessage\<lparr>mType := MsgVoteResp, mTo := 1, mFrom := 2, mTerm := 1\<rparr>))]"

definition role_of :: "cluster \<Rightarrow> nat \<Rightarrow> (RaftStateType \<times> nat) option" where
  "role_of g i = map_option (\<lambda>mem. (rState (raft_of (kNode mem)), rTerm (raft_of (kNode mem)))) (gMember g i)"

lemma election_run: "map_option (\<lambda>g. role_of g 1) (run_acts three election) = Some (Some (StateLeader, 1))"
  by code_simp

theorem election_safety_witness: "\<exists>g. reachable three g \<and> led g 1 1 \<and> \<not> led g 1 2"
proof -
  obtain g where g: "run_acts three election = Some g" "role_of g 1 = Some (StateLeader, 1)" using election_run by auto
  have r: "reachable three g" by (rule run_acts_reachable [OF g(1)])
  have l: "led g 1 1" using g(2) by (auto simp: led_def role_of_def)
  have "\<not> led g 1 2" using election_safety [OF _ r l, of 2] by (auto simp: three_def)
  with r l show ?thesis by blast
qed

section \<open>A follower votes once\<close>

definition follower :: raft where
  "follower = initial_raft (raft_config 2 NewMemoryStorage) (fresh_log [] 0) (\<lambda>_. 0)"

definition asks_vote :: "nat \<Rightarrow> Message" where
  "asks_vote i = emptyMessage\<lparr>mType := MsgVote, mTo := 2, mFrom := i, mTerm := 1\<rparr>"

definition voter :: "raft option" where
  "voter = handle_all [asks_vote 1] follower"

lemma voter_run:
  "map_option (\<lambda>r. (rid r, rTerm r, rVote r, map_option rTerm (handle_all [asks_vote 3] r))) voter = Some (2, 1, 1, Some 1)"
  by code_simp


section \<open>A leader sends its log\<close>

definition sender :: raft where
  "sender = (initial_raft (raft_config 1 NewMemoryStorage) (fresh_log [norm 1 1, norm 2 1, norm 3 1] 0) (\<lambda>_. 0))
     \<lparr>rTerm := 1, rState := StateLeader, rMaxMsgSize := 0\<rparr>"

definition taker :: Progress where
  "taker = \<lparr>prMatch = 0, prNext = 1, prState = StateReplicate, prPendingSnapshot = 0, prRecentActive = True,
     prProbeSent = False, prInflights = NewInflights 2, prIsLearner = False\<rparr>"

lemma sender_flow: "flow_ok 2 taker (put_progress 2 taker sender)"
  by code_simp

theorem send_more_in_order_witness:
  "\<exists>r' pr' ms. send_more 2 (put_progress 2 taker sender) = Some r' \<and> progress r' 2 = Some pr' \<and> rMsgs r' = ms
     \<and> concat (map mEntries ms) = segment (rLog sender) 1 (prNext pr')
     \<and> (Full (prInflights pr') \<or> prNext pr' = 4)"
proof -
  have "rLog (put_progress 2 taker sender) = rLog sender" "prNext taker = 1" "rMsgs (put_progress 2 taker sender) = []"
    "log_last (rLog sender) = 3"
    by (simp_all add: put_progress_def sender_def taker_def initial_raft_def)
  then show ?thesis using send_more_in_order [OF sender_flow] by (fastforce simp: flow_ok_def)
qed

end
