(* ===== verification/System.thy ===== *)
theory System
  imports Server
begin

text \<open>
  The running server as a transition system: clients whose commands interleave, blocking
  clients that poll, timers of expiry times and goroutines of subscriptions. The invariant of
  the databases holds in every state that can be reached.
\<close>

section \<open>Steps\<close>

text \<open>
  A client has the results of the parser it has still to serve, the bytes written to it, and,
  in a blocking command, the database and the keys it polls. The database is the one that was
  current when the command was started.
\<close>

record Sys =
  mgr :: Manager
  inbox :: "nat \<Rightarrow> ParsedRes list"
  outbox :: "nat \<Rightarrow> string"
  waits :: "nat \<Rightarrow> (nat \<times> bool \<times> string list) option"

definition start_sys :: "Manager \<Rightarrow> Sys" where
  "start_sys mg = \<lparr>mgr = mg, inbox = (\<lambda>_. []), outbox = (\<lambda>_. []), waits = (\<lambda>_. None)\<rparr>"

definition put_db :: "Sys \<Rightarrow> nat \<Rightarrow> MemDb \<Rightarrow> Sys" where
  "put_db s i m = s\<lparr>mgr := (mgr s)\<lparr>DBs := (DBs (mgr s))[i := m]\<rparr>\<rparr>"

definition pop_from :: "bool \<Rightarrow> List \<Rightarrow> (List \<times> slice option) option" where
  "pop_from fromLeft = (if fromLeft then LPop_Val else RPop_Val)"

inductive sys_step :: "Sys \<Rightarrow> Sys \<Rightarrow> bool" where
  connect: "inbox s c = [] \<Longrightarrow> ParseStream False bytes = Some ps \<Longrightarrow> sys_step s (s\<lparr>inbox := (inbox s)(c := ps)\<rparr>)"
| served: "waits s c = None \<Longrightarrow> inbox s c = p # ps \<Longrightarrow> iter_ok e \<Longrightarrow> serve e (mgr s) p = Some (mg, Write out) \<Longrightarrow>
    sys_step s (s\<lparr>mgr := mg, inbox := (inbox s)(c := ps), outbox := (outbox s)(c := outbox s c @ out)\<rparr>)"
| closes: "waits s c = None \<Longrightarrow> inbox s c = p # ps \<Longrightarrow> iter_ok e \<Longrightarrow> serve e (mgr s) p = Some (mg, Close) \<Longrightarrow>
    sys_step s (s\<lparr>mgr := mg, inbox := (inbox s)(c := [])\<rparr>)"
| blocks: "waits s c = None \<Longrightarrow> inbox s c = p # ps \<Longrightarrow> iter_ok e \<Longrightarrow> serve e (mgr s) p = Some (mg, Block l ks) \<Longrightarrow>
    sys_step s (s\<lparr>mgr := mg, inbox := (inbox s)(c := ps), waits := (waits s)(c \<mapsto> (CurrentDB mg, l, ks))\<rparr>)"
| tick: "waits s c = Some (i, l, ks) \<Longrightarrow> bXPop_tick (pop_from l) (DBs (mgr s) ! i) ks = Some (m, None) \<Longrightarrow>
    sys_step s (put_db s i m)"
| found: "waits s c = Some (i, l, ks) \<Longrightarrow> bXPop_tick (pop_from l) (DBs (mgr s) ! i) ks = Some (m, Some d) \<Longrightarrow>
    sys_step s (put_db (s\<lparr>waits := (waits s)(c := None), outbox := (outbox s)(c := outbox s c @ reply_bytes (Some d))\<rparr>) i m)"
| timeout: "waits s c = Some (i, l, ks) \<Longrightarrow>
    sys_step s (s\<lparr>waits := (waits s)(c := None), outbox := (outbox s)(c := outbox s c @ reply_bytes (Some (BulkData None)))\<rparr>)"
| expires: "i < length (DBs (mgr s)) \<Longrightarrow> t \<in> set (timers (DBs (mgr s) ! i)) \<Longrightarrow>
    sys_step s (put_db s i (timer_fires e (DBs (mgr s) ! i) t))"
| leaves: "i < length (DBs (mgr s)) \<Longrightarrow> sv \<in> set (services (DBs (mgr s) ! i)) \<Longrightarrow>
    sys_step s (put_db s i (service_ends (DBs (mgr s) ! i) sv))"

abbreviation sys_reach :: "Sys \<Rightarrow> Sys \<Rightarrow> bool" where
  "sys_reach \<equiv> sys_step\<^sup>*\<^sup>*"

section \<open>Every command keeps the invariant\<close>

definition exec_ok :: "executor \<Rightarrow> bool" where
  "exec_ok x \<longleftrightarrow> (\<forall>e m cmd m' r. db_ok m \<longrightarrow> iter_ok e \<longrightarrow> x e m cmd = Some (m', r) \<longrightarrow> db_ok m')"

definition table_ok :: "cmd_table \<Rightarrow> bool" where
  "table_ok ct \<longleftrightarrow> (\<forall>x \<in> snd ` set ct. exec_ok x)"

lemma run_ok: "(\<And>e m cmd. db_ok m \<Longrightarrow> iter_ok e \<Longrightarrow> keeps (h e m cmd)) \<Longrightarrow> exec_ok (run h)"
  by (auto simp: exec_ok_def run_def dest: keepsD)

lemma exec_okD: "exec_ok x \<Longrightarrow> x e m cmd = Some (m', r) \<Longrightarrow> db_ok m \<Longrightarrow> iter_ok e \<Longrightarrow> db_ok m'"
  unfolding exec_ok_def by blast

lemma block_ok: "exec_ok blPopList" "exec_ok brPopList"
  by (auto simp: exec_ok_def blPopList_def brPopList_def split: bind_splits)

lemma table_ok_Nil: "table_ok []"
  by (simp add: table_ok_def)

lemma table_ok_register: "exec_ok x \<Longrightarrow> table_ok ct \<Longrightarrow> table_ok (RegisterCommand (n, x) ct)"
proof (induction ct)
  case (Cons p ct)
  then show ?case by (cases p) (auto simp: table_ok_def RegisterCommand_def)
qed (simp add: table_ok_def RegisterCommand_def)

lemma table_ok_fold: "(\<And>n x. (n, x) \<in> set cs \<Longrightarrow> exec_ok x) \<Longrightarrow> table_ok ct \<Longrightarrow> table_ok (fold RegisterCommand cs ct)"
proof (induction cs arbitrary: ct)
  case (Cons c cs)
  obtain n x where "c = (n, x)" by (cases c)
  then show ?case using Cons table_ok_register [of x ct n] by auto
qed simp

lemmas handlers_keep = delKey_keeps existsKey_keeps keysKey_keeps expireKey_keeps persistKey_keeps ttlKey_keeps typeKey_keeps
  renameKey_keeps pingKeys_keeps setString_keeps getString_keeps getRangeString_keeps setRangeString_keeps mGetString_keeps
  mSetString_keeps setExString_keeps setNxString_keeps strLenString_keeps incr_family_keeps incrByFloatString_keeps
  appendString_keeps list_reads_keep list_pops_keep list_pushes_keep lSetList_keeps lRemList_keeps lTrimList_keeps
  lMoveList_keeps sAddSet_keeps sCardSet_keeps sDiffSet_keeps sDiffStoreSet_keeps sInterSet_keeps sInterStoreSet_keeps
  sIsMemberSet_keeps sMembersSet_keeps sMoveSet_keeps sPopSet_keeps sRandMemberSet_keeps sRemSet_keeps sUnionSet_keeps
  sUnionStoreSet_keeps hash_reads_keep hDelHash_keeps hIncrByHash_keeps hIncrByFloatHash_keeps hSetHash_keeps hSetNxHash_keeps
  other_cmds_keep zadd_keeps zset_reads_keep zrem_keeps xadd_keeps xrange_keeps

lemma table_groups_ok:
  assumes "table_ok ct"
  shows "table_ok (RegisterKeyCommands ct)" "table_ok (RegisterStringCommands ct)" "table_ok (RegisterListCommands ct)"
    "table_ok (RegisterSetCommands ct)" "table_ok (RegisterHashCommands ct)" "table_ok (RegisterPubSubCommands ct)"
    "table_ok (RegisterSortedSetCommands ct)" "table_ok (RegisterStreamCommands ct)" "table_ok (RegisterRaftCommand ct)"
  unfolding RegisterKeyCommands_def RegisterStringCommands_def RegisterListCommands_def RegisterSetCommands_def
    RegisterHashCommands_def RegisterPubSubCommands_def RegisterSortedSetCommands_def RegisterStreamCommands_def
    RegisterRaftCommand_def
  by (rule table_ok_fold [OF _ assms];
      (unfold list.set(1) list.set(2) insert_iff empty_iff prod.inject, elim disjE conjE FalseE;
       hypsubst; intro run_ok handlers_keep block_ok; assumption))+

lemma CmdTable_ok: "table_ok CmdTable"
  unfolding CmdTable_def by (intro table_groups_ok table_ok_Nil)

lemma CmdTable_exec_ok: "map_of CmdTable n = Some x \<Longrightarrow> exec_ok x"
  using CmdTable_ok by (force simp: table_ok_def dest: map_of_SomeD)

lemma ExecCommand_db_ok: "ExecCommand e m cmd = Some (m', r) \<Longrightarrow> db_ok m \<Longrightarrow> iter_ok e \<Longrightarrow> db_ok m'"
  by (auto simp: ExecCommand_def Let_def split: list.splits option.splits dest!: CmdTable_exec_ok dest: exec_okD)

definition Manager_ok :: "Manager \<Rightarrow> bool" where
  "Manager_ok mg \<longleftrightarrow> CurrentDB mg < length (DBs mg) \<and> (\<forall>m \<in> set (DBs mg). db_ok m)"

lemma NewManager_ok: "NewManager n sh = Some mg \<Longrightarrow> Manager_ok mg"
  by (auto simp: NewManager_def Manager_ok_def split: if_splits)

lemma Select_ok: "Select mg cmd = Some (mg', r) \<Longrightarrow> Manager_ok mg \<Longrightarrow> Manager_ok mg' \<and> length (DBs mg') = length (DBs mg)"
  by (auto simp: Select_def Manager_ok_def split: if_splits option.splits bind_splits)

lemma set_update_subset: "m' \<in> set (xs[i := x]) \<Longrightarrow> m' = x \<or> m' \<in> set xs"
  using set_update_subset_insert [of xs i x] by blast

lemma on_current_ok:
  assumes "on_current (\<lambda>m. x e m cmd) mg = Some (mg', r)" and "exec_ok x" and "iter_ok e" and "Manager_ok mg"
  shows "Manager_ok mg' \<and> length (DBs mg') = length (DBs mg)"
proof -
  obtain m' where m': "x e (DBs mg ! CurrentDB mg) cmd = Some (m', r)" "mg' = mg\<lparr>DBs := (DBs mg)[CurrentDB mg := m']\<rparr>"
    using assms(1,4) by (auto simp: on_current_def Manager_ok_def split: bind_splits)
  then have "db_ok m'" using assms(2-4) nth_mem unfolding exec_ok_def Manager_ok_def by blast
  then show ?thesis using assms(4) m'(2) by (auto simp: Manager_ok_def dest: set_update_subset)
qed

lemma Manager_ExecCommand_ok:
  "Manager_ExecCommand e mg cmd = Some (mg', r) \<Longrightarrow> iter_ok e \<Longrightarrow> Manager_ok mg \<Longrightarrow>
     Manager_ok mg' \<and> length (DBs mg') = length (DBs mg)"
  by (auto simp: Manager_ExecCommand_def Let_def split: list.splits option.splits if_splits
      dest!: CmdTable_exec_ok Select_ok dest: on_current_ok)

lemma serve_ok:
  "serve e mg p = Some (mg', r) \<Longrightarrow> iter_ok e \<Longrightarrow> Manager_ok mg \<Longrightarrow> Manager_ok mg' \<and> length (DBs mg') = length (DBs mg)"
  by (auto simp: serve_def split: ParsedRes.splits RedisData.splits dest: Manager_ExecCommand_ok)

section \<open>Every reachable state\<close>

definition sys_ok :: "Sys \<Rightarrow> bool" where
  "sys_ok s \<longleftrightarrow> Manager_ok (mgr s) \<and> (\<forall>c i l ks. waits s c = Some (i, l, ks) \<longrightarrow> i < length (DBs (mgr s)))"

lemma put_db_ok:
  assumes "sys_ok s" and "db_ok m"
  shows "sys_ok (put_db s i m)"
  using assms by (auto simp: sys_ok_def put_db_def Manager_ok_def dest: set_update_subset)

lemma sys_ok_waits: "sys_ok s \<Longrightarrow> sys_ok (s\<lparr>waits := (waits s)(c := None), outbox := ob\<rparr>)"
  by (auto simp: sys_ok_def)

lemma pop_from_list_ok: "pop_from b l = Some (l', x) \<Longrightarrow> list_ok l \<Longrightarrow> list_ok l'"
  by (auto simp: pop_from_def split: if_splits intro: LPop_Val_list_ok RPop_Val_list_ok)

lemma tick_db_ok:
  assumes "sys_ok s" and "waits s c = Some (i, l, ks)" and "bXPop_tick (pop_from l) (DBs (mgr s) ! i) ks = Some (m, r)"
  shows "db_ok m"
proof -
  have "i < length (DBs (mgr s))" using assms(1,2) unfolding sys_ok_def by blast
  then have "db_ok (DBs (mgr s) ! i)" using assms(1) by (simp add: sys_ok_def Manager_ok_def)
  then show ?thesis using keepsD [OF bXPop_tick_keeps [OF pop_from_list_ok] assms(3)] by simp
qed

lemma sys_step_ok: "sys_step s s' \<Longrightarrow> sys_ok s \<Longrightarrow> sys_ok s'"
proof (induction rule: sys_step.induct)
  case (tick s c i l ks m)
  then show ?case by (intro put_db_ok) (auto dest: tick_db_ok)
next
  case (found s c i l ks m d)
  then show ?case by (intro put_db_ok sys_ok_waits) (auto dest: tick_db_ok)
next
  case (expires i s t e)
  then show ?case by (intro put_db_ok timer_fires_db_ok) (auto simp: sys_ok_def Manager_ok_def)
next
  case (leaves i s sv)
  then show ?case by (intro put_db_ok service_ends_db_ok) (auto simp: sys_ok_def Manager_ok_def)
qed (fastforce simp: sys_ok_def Manager_ok_def dest: serve_ok)+

lemma reachable_ok: "sys_reach (start_sys mg) s \<Longrightarrow> Manager_ok mg \<Longrightarrow> sys_ok s"
proof (induction rule: rtranclp_induct)
  case base
  then show ?case by (simp add: start_sys_def sys_ok_def)
next
  case (step s s')
  then show ?case using sys_step_ok by blast
qed

end
