(* ===== verification/Key_Object.thy ===== *)
theory Key_Object
  imports Memdb
begin

text \<open>
  The contract between the commands of one data type and their clients: a key behaves like
  an object of an abstract type. A client issues commands on many keys in any order; the
  replies are those of independent abstract objects, one for each key.
\<close>

text \<open>A step that touches one key only.\<close>

definition only_key :: "string \<Rightarrow> MemDb \<Rightarrow> MemDb \<Rightarrow> bool" where
  "only_key k m m' \<longleftrightarrow> (\<forall>k'. k' \<noteq> k \<longrightarrow> cm_Get (db m') k' = cm_Get (db m) k' \<and> expiry m' k' = expiry m k')"

lemma only_key_put: "db_ok m \<Longrightarrow> only_key k m (db_put m k v)"
  using db_okD(1) by (simp add: only_key_def)

lemma only_key_refl: "only_key k m m"
  by (simp add: only_key_def)

lemma map_str_Some [simp]: "map (str \<circ> Some) xs = xs"
  by (induction xs) auto

lemma CheckTTL_no_expiry: "expiry m k = None \<Longrightarrow> CheckTTL e m k = (m, True)"
  by (rule CheckTTL_alive) (auto simp: expiry_def expired_def)

lemma drop_key_only:
  assumes "db_ok m"
  obtains m' where "drop_key (db_put m k v) k = Some m'" and "db_ok m'" and "cm_Get (db m') k = None"
    and "expiry m' k = None" and "only_key k m m'"
proof -
  obtain m' where m': "drop_key (db_put m k v) k = Some m'" "db_ok m'" "cm_Get (db m') = (cm_Get (db m))(k := None)"
      "cm_Get (ttlKeys m') = (cm_Get (ttlKeys m))(k := None)"
    by (rule drop_key_put_ok [OF assms])
  then show ?thesis using that by (simp add: only_key_def expiry_def)
qed

fun spec_run :: "('op \<Rightarrow> 'a \<Rightarrow> 'a \<times> 'r) \<Rightarrow> (string \<times> 'op) list \<Rightarrow> (string \<Rightarrow> 'a) \<Rightarrow> (string \<Rightarrow> 'a) \<times> 'r list" where
  "spec_run spec [] s = (s, [])"
| "spec_run spec ((k, op) # ops) s =
     (let (a, r) = spec op (s k); (s', rs) = spec_run spec ops (s(k := a)) in (s', r # rs))"

fun exec_run :: "(env \<Rightarrow> MemDb \<Rightarrow> string \<Rightarrow> 'op \<Rightarrow> (MemDb \<times> 'r option) option) \<Rightarrow> (nat \<Rightarrow> env) \<Rightarrow> nat \<Rightarrow> MemDb \<Rightarrow>
    (string \<times> 'op) list \<Rightarrow> (MemDb \<times> 'r list) option" where
  "exec_run exec es n m [] = Some (m, [])"
| "exec_run exec es n m ((k, op) # ops) = do {
     (m, r) \<leftarrow> exec (es n) m k op;
     r \<leftarrow> r;
     (m, rs) \<leftarrow> exec_run exec es (Suc n) m ops;
     Some (m, r # rs) }"

locale key_object =
  fixes at :: "MemDb \<Rightarrow> string \<Rightarrow> 'a \<Rightarrow> bool"
    and spec :: "'op \<Rightarrow> 'a \<Rightarrow> 'a \<times> 'r"
    and valid :: "'op \<Rightarrow> bool"
    and exec :: "env \<Rightarrow> MemDb \<Rightarrow> string \<Rightarrow> 'op \<Rightarrow> (MemDb \<times> 'r option) option"
  assumes exec_step: "db_ok m \<Longrightarrow> iter_ok e \<Longrightarrow> at m k a \<Longrightarrow> valid op \<Longrightarrow>
      \<exists>m'. exec e m k op = Some (m', Some (snd (spec op a))) \<and> db_ok m' \<and> at m' k (fst (spec op a)) \<and> only_key k m m'"
    and at_local: "at m k a \<Longrightarrow> cm_Get (db m') k = cm_Get (db m) k \<Longrightarrow> expiry m' k = expiry m k \<Longrightarrow> at m' k a"
begin

lemma frame: "only_key k m m' \<Longrightarrow> k' \<noteq> k \<Longrightarrow> at m k' a \<Longrightarrow> at m' k' a"
  using at_local unfolding only_key_def by blast

text \<open>Any sequence of valid commands on any keys is answered as by independent abstract objects.\<close>

lemma simulation:
  "db_ok m \<Longrightarrow> (\<And>i. iter_ok (es i)) \<Longrightarrow> (\<And>k. k \<in> ks \<Longrightarrow> at m k (s k)) \<Longrightarrow>
   (\<And>k op. (k, op) \<in> set ops \<Longrightarrow> k \<in> ks \<and> valid op) \<Longrightarrow>
   \<exists>m'. exec_run exec es n m ops = Some (m', snd (spec_run spec ops s)) \<and> db_ok m'
     \<and> (\<forall>k \<in> ks. at m' k (fst (spec_run spec ops s) k))"
proof (induction ops arbitrary: m s n)
  case (Cons p ops)
  obtain k op where p: "p = (k, op)" by (cases p)
  have k: "k \<in> ks" "valid op" using Cons.prems(4) p by auto
  obtain m1 where m1: "exec (es n) m k op = Some (m1, Some (snd (spec op (s k))))" "db_ok m1"
      "at m1 k (fst (spec op (s k)))" "only_key k m m1"
    using exec_step [OF Cons.prems(1,2) Cons.prems(3) [OF k(1)] k(2)] by blast
  let ?s = "s(k := fst (spec op (s k)))"
  have "\<And>k'. k' \<in> ks \<Longrightarrow> at m1 k' (?s k')" using frame [OF m1(4)] Cons.prems(3) m1(3) by simp
  then obtain m' where "exec_run exec es (Suc n) m1 ops = Some (m', snd (spec_run spec ops ?s))" "db_ok m'"
      "\<forall>k \<in> ks. at m' k (fst (spec_run spec ops ?s) k)"
    using Cons.IH [OF m1(2) Cons.prems(2), of ?s "Suc n"] Cons.prems(4) by (metis list.set_intros(2))
  then show ?case using m1(1) by (auto simp: p case_prod_beta Let_def)
qed auto

end

end
