(* ===== verification/List_Object.thy ===== *)
theory List_Object
  imports List_Cmd Key_Object
begin

text \<open>
  The list commands as operations on an abstract list. A key with a linked list behaves like
  a list of byte slices, and a key that is absent like the empty list.
\<close>

section \<open>The abstract list\<close>

text \<open>The number of LPOP and RPOP is their count argument, \<open>0\<close> when there is none.\<close>

datatype list_op =
    LPUSH "slice list" | RPUSH "slice list" | LPOP nat | RPOP nat | LLEN | LINDEX int
  | LRANGE int int | LSET int slice | LTRIM int int

fun list_spec :: "list_op \<Rightarrow> slice list \<Rightarrow> slice list \<times> RedisData" where
  "list_spec (LPUSH vs) xs = (rev vs @ xs, IntData (int (length xs + length vs)))"
| "list_spec (RPUSH vs) xs = (xs @ vs, IntData (int (length xs + length vs)))"
| "list_spec (LPOP n) xs =
     (if xs = [] then ([], BulkData None)
      else if n = 0 then (tl xs, BulkData (hd xs))
      else (drop n xs, MakeArrayData (map BulkData (take n xs))))"
| "list_spec (RPOP n) xs =
     (if xs = [] then ([], BulkData None)
      else if n = 0 then (butlast xs, BulkData (last xs))
      else (take (length xs - n) xs, MakeArrayData (map BulkData (take n (rev xs)))))"
| "list_spec LLEN xs = (xs, IntData (int (length xs)))"
| "list_spec (LINDEX i) xs =
     (let j = list_pos (int (length xs)) i
      in (xs, BulkData (if 0 \<le> j \<and> j < int (length xs) then xs ! nat j else None)))"
| "list_spec (LRANGE i j) xs = (xs, MakeArrayData (map BulkData (sub_list i j xs)))"
| "list_spec (LSET i v) xs =
     (let j = list_pos (int (length xs)) i
      in if xs = [] then ([], ErrorData ''key not exist'')
         else if 0 \<le> j \<and> j < int (length xs) then (xs[nat j := v], StringData ''OK'')
         else (xs, ErrorData ''index out of range''))"
| "list_spec (LTRIM i j) xs = (sub_list i j xs, StringData ''OK'')"

text \<open>The arguments are 64-bit integers; the smallest one has no absolute value.\<close>

fun list_valid :: "list_op \<Rightarrow> bool" where
  "list_valid (LPUSH vs) \<longleftrightarrow> vs \<noteq> []"
| "list_valid (RPUSH vs) \<longleftrightarrow> vs \<noteq> []"
| "list_valid (LPOP n) \<longleftrightarrow> in64 (int n)"
| "list_valid (RPOP n) \<longleftrightarrow> in64 (int n)"
| "list_valid LLEN \<longleftrightarrow> True"
| "list_valid (LINDEX i) \<longleftrightarrow> in64 i \<and> i \<noteq> MinInt64"
| "list_valid (LRANGE i j) \<longleftrightarrow> in64 i \<and> in64 j"
| "list_valid (LSET i v) \<longleftrightarrow> in64 i \<and> i \<noteq> MinInt64"
| "list_valid (LTRIM i j) \<longleftrightarrow> in64 i \<and> in64 j"

text \<open>The command that a client sends.\<close>

fun list_exec :: "env \<Rightarrow> MemDb \<Rightarrow> string \<Rightarrow> list_op \<Rightarrow> result" where
  "list_exec e m k (LPUSH vs) = lPushList e m (Some ''lpush'' # Some k # vs)"
| "list_exec e m k (RPUSH vs) = rPushList e m (Some ''rpush'' # Some k # vs)"
| "list_exec e m k (LPOP n) = lPopList e m ([Some ''lpop'', Some k] @ (if n = 0 then [] else [Some (FormatInt (int n))]))"
| "list_exec e m k (RPOP n) = rPopList e m ([Some ''rpop'', Some k] @ (if n = 0 then [] else [Some (FormatInt (int n))]))"
| "list_exec e m k LLEN = lLenList e m [Some ''llen'', Some k]"
| "list_exec e m k (LINDEX i) = lIndexList e m [Some ''lindex'', Some k, Some (FormatInt i)]"
| "list_exec e m k (LRANGE i j) = lRangeList e m [Some ''lrange'', Some k, Some (FormatInt i), Some (FormatInt j)]"
| "list_exec e m k (LSET i v) = lSetList e m [Some ''lset'', Some k, Some (FormatInt i), v]"
| "list_exec e m k (LTRIM i j) = lTrimList e m [Some ''ltrim'', Some k, Some (FormatInt i), Some (FormatInt j)]"

section \<open>The handlers implement it\<close>

definition list_slot :: "MemDb \<Rightarrow> string \<Rightarrow> slice list \<Rightarrow> bool" where
  "list_slot m k xs \<longleftrightarrow> expiry m k = None
     \<and> (case cm_Get (db m) k of None \<Rightarrow> xs = [] | Some v \<Rightarrow> xs \<noteq> [] \<and> (\<exists>l. v = VList l \<and> repr l xs))"

lemma list_slot_cases [consumes 1, case_names absent present]:
  assumes "list_slot m k xs"
  obtains "cm_Get (db m) k = None" and "xs = []" and "expiry m k = None"
  | l where "cm_Get (db m) k = Some (VList l)" and "repr l xs" and "xs \<noteq> []" and "expiry m k = None"
  using assms that unfolding list_slot_def by (cases "cm_Get (db m) k") auto

lemma list_slot_put:
  assumes "db_ok m" and "expiry m k = None" and "repr l xs" and "xs \<noteq> []"
  shows "db_ok (db_put m k (VList l))" "list_slot (db_put m k (VList l)) k xs" "only_key k m (db_put m k (VList l))"
  using assms db_ok_put [OF assms(1)] db_okD(1) [OF assms(1)] repr_list_ok [OF assms(3)] only_key_put [OF assms(1)]
  by (simp_all add: list_slot_def)

text \<open>The end of the commands that remove elements: a list that has become empty is deleted.\<close>

lemma finish_list_slot:
  assumes "db_ok m" and "expiry m k = None" and "repr l xs"
  shows "\<exists>m'. finish_list m k l r = reply m' r \<and> db_ok m' \<and> list_slot m' k xs \<and> only_key k m m'"
proof (cases "xs = []")
  case True
  obtain m' where "drop_key (db_put m k (VList l)) k = Some m'" "db_ok m'" "cm_Get (db m') k = None" "expiry m' k = None" "only_key k m m'"
    by (rule drop_key_only [OF assms(1)])
  moreover have "LLen l = 0" using True assms(3) by (simp add: repr_def)
  ultimately show ?thesis using True by (intro exI [of _ m']) (simp add: finish_list_def list_slot_def)
next
  case False
  have "LLen l \<noteq> 0" using False assms(3) by (simp add: repr_def)
  then show ?thesis using list_slot_put [OF assms False] by (simp add: finish_list_def)
qed

lemma lower_list_names:
  "lower e ''lpush'' = ''lpush''" "lower e ''rpush'' = ''rpush''" "lower e ''rpop'' = ''rpop''"
  "lower e ''llen'' = ''llen''" "lower e ''lindex'' = ''lindex''" "lower e ''lrange'' = ''lrange''"
  "lower e ''lset'' = ''lset''" "lower e ''ltrim'' = ''ltrim''" "lower e ''lrem'' = ''lrem''"
  by (simp_all add: ToLower_eval)

text \<open>Both pushes: the list is made when the key is absent.\<close>

lemma push_slot:
  assumes "db_ok m" and "list_slot m k xs" and "vs \<noteq> []"
    and push: "\<And>l zs. repr l zs \<Longrightarrow> \<exists>l'. push_all push l vs = Some l' \<and> repr l' (f zs)"
    and f: "f xs \<noteq> []" "length (f xs) = length xs + length vs"
  shows "\<exists>m'. push_list push (fst (get_or_new_list m k)) k (snd (get_or_new_list m k)) vs =
      reply m' (IntData (int (length xs + length vs))) \<and> db_ok m' \<and> list_slot m' k (f xs) \<and> only_key k m m'"
  using assms(2)
proof (cases rule: list_slot_cases)
  case absent
  let ?m = "db_put m k (VList NewList)"
  obtain l' where l': "push_all push NewList vs = Some l'" "repr l' (f xs)" using push [OF repr_NewList] absent(2) by blast
  have m: "db_ok ?m" "expiry ?m k = None" using db_ok_put [OF assms(1)] absent(3) by simp_all
  have "cm_put (cm_put (db m) k (VList NewList)) k (VList l') = db (db_put ?m k (VList l'))" by simp
  moreover have "only_key k m (db_put ?m k (VList l'))" using db_okD(1) [OF assms(1)] by (simp add: only_key_def)
  ultimately show ?thesis
    using l' f list_slot_put [OF m l'(2) f(1)] absent(1) by (simp add: push_list_def get_or_new_list_def repr_def)
next
  case (present l)
  obtain l' where l': "push_all push l vs = Some l'" "repr l' (f xs)" using push [OF present(2)] by blast
  then show ?thesis
    using f list_slot_put [OF assms(1) present(4) l'(2) f(1)] present(1) by (simp add: push_list_def get_or_new_list_def repr_def)
qed

abbreviation list_step :: "MemDb \<Rightarrow> string \<Rightarrow> result \<Rightarrow> slice list \<times> RedisData \<Rightarrow> bool" where
  "list_step m k r s \<equiv> \<exists>m'. r = reply m' (snd s) \<and> db_ok m' \<and> list_slot m' k (fst s) \<and> only_key k m m'"

lemma pushes_step:
  assumes "db_ok m" and "iter_ok e" and "list_slot m k xs" and "vs \<noteq> []"
  shows "list_step m k (list_exec e m k (LPUSH vs)) (list_spec (LPUSH vs) xs)"
    and "list_step m k (list_exec e m k (RPUSH vs)) (list_spec (RPUSH vs) xs)"
proof -
  have c: "CheckTTL e m k = (m, True)" using assms(3) by (simp add: list_slot_def CheckTTL_no_expiry)
  have "\<exists>l'. push_all (LPush e) l vs = Some l' \<and> repr l' (rev vs @ zs)" if "repr l zs" for l zs
    using dq.lpush_all [of e l zs vs] that assms(2) by (auto simp: erepr_def)
  from push_slot [where f = "\<lambda>zs. rev vs @ zs", OF assms(1,3,4) this] show "list_step m k (list_exec e m k (LPUSH vs)) (list_spec (LPUSH vs) xs)"
    using assms(4) c by (auto simp: lPushList_def lower_list_names case_prod_beta Let_def add.commute)
  have "\<exists>l'. push_all (RPush e) l vs = Some l' \<and> repr l' (zs @ vs)" if "repr l zs" for l zs
    using dq.rpush_all [of e l zs vs] that assms(2) by (auto simp: erepr_def)
  from push_slot [where f = "\<lambda>zs. zs @ vs", OF assms(1,3,4) this] show "list_step m k (list_exec e m k (RPUSH vs)) (list_spec (RPUSH vs) xs)"
    using assms(4) c by (auto simp: rPushList_def lower_list_names case_prod_beta Let_def)
qed

lemma pops_step:
  assumes "db_ok m" and "list_slot m k xs" and "in64 (int n)"
  shows "list_step m k (list_exec e m k (LPOP n)) (list_spec (LPOP n) xs)"
    and "list_step m k (list_exec e m k (RPOP n)) (list_spec (RPOP n) xs)"
proof -
  have count: "pop_count ([Some c, Some k] @ (if n = 0 then [] else [Some (FormatInt (int n))])) = Some (Some (int n))" for c using assms(3) by (simp add: pop_count_def)
  have c: "CheckTTL e m k = (m, True)" using assms(2) by (simp add: list_slot_def CheckTTL_no_expiry)
  have L: "list_exec e m k (LPOP n) = pop_list LPop_Val e m k (int n)"
    using count [of "''lpop''"] by (auto simp: lPopList_def)
  have R: "list_exec e m k (RPOP n) = pop_list RPop_Val e m k (int n)"
    using count [of "''rpop''"] by (auto simp: rPopList_def lower_list_names)
  have "list_step m k (pop_list LPop_Val e m k (int n)) (list_spec (LPOP n) xs)
      \<and> list_step m k (pop_list RPop_Val e m k (int n)) (list_spec (RPOP n) xs)"
    using assms(2)
  proof (cases rule: list_slot_cases)
    case absent
    then show ?thesis using c assms(1,2) by (simp add: pop_list_def only_key_refl)
  next
    case (present l)
    have lr: "erepr (env_at 0) l xs" using present(2) by (simp add: erepr_def)
    note fin = finish_list_slot [OF assms(1) present(4)]
    show ?thesis
    proof (cases "n = 0")
      case True
      obtain l1 l2 where "LPop_Val l = Some (l1, Some (hd xs))" "repr l1 (tl xs)"
          "RPop_Val l = Some (l2, Some (last xs))" "repr l2 (butlast xs)"
        using dq.lpop_law [OF lr] dq.rpop_law [OF lr] present(3) by (auto simp: erepr_def)
      with fin [of l1 "tl xs"] fin [of l2 "butlast xs"] show ?thesis
        using True present(1,3) c by (simp add: pop_list_def)
    next
      case False
      obtain l1 l2 where "pop_loop LPop_Val n l = Some (l1, take n xs)" "repr l1 (drop n xs)"
          "pop_loop RPop_Val n l = Some (l2, take n (rev xs))" "repr l2 (take (length xs - n) xs)"
        using dq.lpop_many [OF lr, of n] dq.rpop_many [OF lr, of n] by (auto simp: erepr_def)
      with fin [of l1 "drop n xs"] fin [of l2 "take (length xs - n) xs"] show ?thesis
        using False present(1,3) c by (simp add: pop_list_def)
    qed
  qed
  with L R show "list_step m k (list_exec e m k (LPOP n)) (list_spec (LPOP n) xs)"
    "list_step m k (list_exec e m k (RPOP n)) (list_spec (RPOP n) xs)" by (simp_all only:)
qed

lemma reads_step:
  assumes "db_ok m" and "list_slot m k xs"
  shows "list_step m k (list_exec e m k LLEN) (list_spec LLEN xs)"
    and "in64 i \<Longrightarrow> i \<noteq> MinInt64 \<Longrightarrow> list_step m k (list_exec e m k (LINDEX i)) (list_spec (LINDEX i) xs)"
    and "in64 i \<Longrightarrow> in64 j \<Longrightarrow> list_step m k (list_exec e m k (LRANGE i j)) (list_spec (LRANGE i j) xs)"
proof -
  have c: "CheckTTL e m k = (m, True)" using assms(2) by (simp add: list_slot_def CheckTTL_no_expiry)
  have fin: "list_step m k (reply m r) (xs, r)" for r using assms by (simp add: only_key_refl)
  show "list_step m k (list_exec e m k LLEN) (list_spec LLEN xs)"
    using assms(2) fin [of "IntData (int (length xs))"]
    by (cases rule: list_slot_cases) (simp_all add: lLenList_def lower_list_names repr_def)
  show "list_step m k (list_exec e m k (LINDEX i)) (list_spec (LINDEX i) xs)" if i: "in64 i" "i \<noteq> MinInt64"
    using assms(2)
  proof (cases rule: list_slot_cases)
    case absent
    then show ?thesis using fin [of "BulkData None"] c i by (simp add: lIndexList_def lower_list_names list_pos_def)
  next
    case (present l)
    obtain as where as: "dll l as" "vals l as = xs" "LLen l = int (length as)" using present(2) by (auto simp: repr_def vals_def)
    have "length as = length xs" "\<And>n. n < length as \<Longrightarrow> deref l (Some (as ! n)) = Some (nodes l ! (as ! n)) \<and> Val (nodes l ! (as ! n)) = xs ! n"
      using as dll_lt [OF as(1)] by (auto simp: vals_def)
    then show ?thesis
      using fin [of "snd (list_spec (LINDEX i) xs)"] c i present(1) Index_dll [OF as(1,3) i]
      by (auto simp: lIndexList_def lower_list_names Let_def)
  qed
  show "list_step m k (list_exec e m k (LRANGE i j)) (list_spec (LRANGE i j) xs)" if ij: "in64 i" "in64 j"
    using assms(2)
  proof (cases rule: list_slot_cases)
    case absent
    then show ?thesis using fin [of "MakeArrayData []"] c ij
      by (simp add: lRangeList_def lower_list_names sub_list_def MakeEmptyArrayData_def)
  next
    case (present l)
    obtain r where "LRange l i j = Some r" "(case r of None \<Rightarrow> [] | Some ys \<Rightarrow> ys) = sub_list i j xs"
      by (rule LRange_repr [OF present(2)])
    then show ?thesis using fin [of "MakeArrayData (map BulkData (sub_list i j xs))"] c ij present(1)
      by (cases r) (auto simp: lRangeList_def lower_list_names MakeEmptyArrayData_def)
  qed
qed

lemma changes_step:
  assumes "db_ok m" and "list_slot m k xs"
  shows "in64 i \<Longrightarrow> i \<noteq> MinInt64 \<Longrightarrow> list_step m k (list_exec e m k (LSET i v)) (list_spec (LSET i v) xs)"
    and "in64 i \<Longrightarrow> in64 j \<Longrightarrow> list_step m k (list_exec e m k (LTRIM i j)) (list_spec (LTRIM i j) xs)"
proof -
  have c: "CheckTTL e m k = (m, True)" using assms(2) by (simp add: list_slot_def CheckTTL_no_expiry)
  show "list_step m k (list_exec e m k (LSET i v)) (list_spec (LSET i v) xs)" if i: "in64 i" "i \<noteq> MinInt64"
    using assms(2)
  proof (cases rule: list_slot_cases)
    case absent
    then show ?thesis using c i assms by (simp add: lSetList_def lower_list_names only_key_refl)
  next
    case (present l)
    let ?j = "list_pos (int (length xs)) i"
    note put = list_slot_put [OF assms(1) present(4)]
    show ?thesis
    proof (cases "0 \<le> ?j \<and> ?j < int (length xs)")
      case True
      then obtain l' where l': "LSet l i v = Some (l', True)" "repr l' (xs[nat ?j := v])"
        using LSet_repr [OF present(2) i, of v] by auto
      show ?thesis using put [OF l'(2)] l'(1) True c i present(1,3) by (simp add: lSetList_def lower_list_names Let_def)
    next
      case False
      then have "LSet l i v = Some (l, False)" using LSet_repr [OF present(2) i, of v] by (auto split: if_splits)
      then show ?thesis using put [OF present(2)] False c i present(1,3) by (auto simp: lSetList_def lower_list_names Let_def)
    qed
  qed
  show "list_step m k (list_exec e m k (LTRIM i j)) (list_spec (LTRIM i j) xs)" if ij: "in64 i" "in64 j"
    using assms(2)
  proof (cases rule: list_slot_cases)
    case absent
    then show ?thesis using c ij assms by (simp add: lTrimList_def lower_list_names only_key_refl sub_list_def)
  next
    case (present l)
    obtain l' where "Trim l i j = Some l'" "repr l' (sub_list i j xs)" using Trim_repr [OF present(2)] by blast
    with finish_list_slot [OF assms(1) present(4)] show ?thesis using c ij present(1)
      by (simp add: lTrimList_def lower_list_names)
  qed
qed

interpretation lo: key_object list_slot list_spec list_valid list_exec
proof
  fix m e k xs op
  assume "db_ok m" "iter_ok e" "list_slot m k xs" "list_valid op"
  then show "list_step m k (list_exec e m k op) (list_spec op xs)"
    by (cases op) (simp_all add: pushes_step pops_step reads_step changes_step del: list_exec.simps list_spec.simps)
next
  fix m m' k xs
  assume "list_slot m k xs" "cm_Get (db m') k = cm_Get (db m) k" "expiry m' k = expiry m k"
  then show "list_slot m' k xs" by (simp add: list_slot_def)
qed

section \<open>What follows for clients\<close>



lemma remove_n_all: "\<forall>x \<in> set xs. P x \<Longrightarrow> length xs \<le> n \<Longrightarrow> remove_n n P xs = []"
  by (induction n P xs rule: remove_n.induct) auto

text \<open>
  LREM does not adjust the length that the list records: after LREM has removed every element
  of a list, the key stays, LLEN still reports the old length, and the next LPOP dereferences a
  nil pointer.
\<close>

theorem lrem_then_lpop_panics:
  assumes "db_ok m" and "list_slot m k xs" and "xs \<noteq> []" and "\<forall>x \<in> set xs. bytes_Equal x v"
    and "in64 n" and "int (length xs) \<le> n"
  shows "\<exists>m'. lRemList e m [Some ''lrem'', Some k, Some (FormatInt n), v] = reply m' (IntData (int (length xs)))
    \<and> lLenList e m' [Some ''llen'', Some k] = reply m' (IntData (int (length xs)))
    \<and> lPopList e m' [Some ''lpop'', Some k] = None"
  using assms(2)
proof (cases rule: list_slot_cases)
  case (present l)
  obtain as where as: "dll l as" "vals l as = xs" and len: "LLen l = int (length xs)" using present(2) by (auto simp: repr_def)
  have nz: "LLen l \<noteq> 0" "n \<noteq> 0" "0 \<le> n" using len assms(3,6) by auto
  obtain l' as' where l': "RemoveElement l v n = Some (l', int (length as) - int (length as'))" "dll l' as'"
      "vals l' as' = lrem (LLen l) v n xs" "LLen l' = LLen l"
    using RemoveElement_dll [OF as(1) nz(1), of v n] as(2) by (auto simp: same_but_nodes_def)
  have "lrem (LLen l) v n xs = []" using assms(4,6) nz remove_n_all [of xs "\<lambda>x. bytes_Equal x v" "nat n"] by (simp add: lrem_def)
  then have as': "as' = []" using l'(3) by (simp add: vals_def)
  let ?m = "db_put m k (VList l')"
  have c: "CheckTTL e m k = (m, True)" "CheckTTL e ?m k = (?m, True)" using present(4) by (simp_all add: CheckTTL_no_expiry)
  have stored: "cm_Get (db ?m) k = Some (VList l')" using db_okD(1) [OF assms(1)] by simp
  have "length as = length xs" using as(2) by (auto simp: vals_def)
  then have "lRemList e m [Some ''lrem'', Some k, Some (FormatInt n), v] = reply ?m (IntData (int (length xs)))"
    using l' as' assms(5) nz c present(1) by (simp add: lRemList_def lower_list_names finish_list_def)
  moreover have "lLenList e ?m [Some ''llen'', Some k] = reply ?m (IntData (int (length xs)))"
    using stored l'(4) len by (simp add: lLenList_def lower_list_names)
  moreover have "LPop l' = None" using LPop_stale [of l'] l'(2,4) as' nz(1) by simp
  then have "lPopList e ?m [Some ''lpop'', Some k] = None"
    using stored c(2) by (simp add: lPopList_def pop_count_def pop_list_def LPop_Val_def)
  ultimately show ?thesis by blast
qed (use assms(3) in simp)

theorem lrem_then_lpop_panics_witness:
  "\<exists>m1 m2. rPushList (env_at 0) (NewMemDb 1) [Some ''rpush'', Some ''k'', Some ''a''] = reply m1 (IntData 1)
     \<and> lRemList (env_at 0) m1 [Some ''lrem'', Some ''k'', Some (FormatInt 1), Some ''a''] = reply m2 (IntData 1)
     \<and> lPopList (env_at 0) m2 [Some ''lpop'', Some ''k''] = None"
proof -
  have "list_slot (NewMemDb 1) ''k'' []" by (simp add: list_slot_def expiry_def NewMemDb_def)
  from pushes_step(2) [OF _ _ this, of "env_at 0" "[Some ''a'']"] obtain m1 where
      m1: "rPushList (env_at 0) (NewMemDb 1) [Some ''rpush'', Some ''k'', Some ''a''] = reply m1 (IntData 1)"
      "db_ok m1" "list_slot m1 ''k'' [Some ''a'']" by auto
  from lrem_then_lpop_panics [OF m1(2,3), of "Some ''a''" 1 "env_at 0"] m1(1) show ?thesis
    by (auto simp: in64_def bytes_Equal_def)
qed

end
