(* ===== verification/Cluster.thy ===== *)
theory Cluster
  imports System List_Object
begin

text \<open>
  Replication: in a cluster every command is joined to one string, proposed to the raft log, and
  executed by every replica when it is committed (\<open>HandleCluster\<close> in
  \<open>src/server/db_manager.go\<close>, \<open>handleClusterCommits\<close> in \<open>src/server/server.go\<close>). The replicas
  have the log in common, but not their clocks or the order in which they iterate over maps.
\<close>

section \<open>Commands as strings\<close>

lemma ExecStrCommand_Join:
  assumes "ws \<noteq> []" and "\<forall>w \<in> set ws. CHR '' '' \<notin> set w"
  shows "ExecStrCommand e mg (Join (CHR '' '') ws) = Manager_ExecCommand e mg (map Some ws)"
proof -
  have "Split (CHR '' '') (Join (CHR '' '') ws) = ws" using assms by (intro Split_Join) auto
  then show ?thesis using assms(1) by (cases ws) (simp_all add: ExecStrCommand_def Manager_ExecCommand_def Let_def)
qed

lemma map_of_register: "map_of (RegisterCommand (a, x) ct) n = (if n = a then Some x else map_of ct n)"
  by (simp add: RegisterCommand_def update_conv')

lemmas CmdTable_eval = CmdTable_def RegisterKeyCommands_def RegisterStringCommands_def RegisterListCommands_def
  RegisterSetCommands_def RegisterHashCommands_def RegisterPubSubCommands_def RegisterSortedSetCommands_def
  RegisterStreamCommands_def RegisterRaftCommand_def map_of_register

lemma CmdTable_lists:
  "map_of CmdTable ''lpush'' = Some (run lPushList)" "map_of CmdTable ''rpush'' = Some (run rPushList)"
  "map_of CmdTable ''lpop'' = Some (run lPopList)" "map_of CmdTable ''rpop'' = Some (run rPopList)"
  "map_of CmdTable ''llen'' = Some (run lLenList)" "map_of CmdTable ''lindex'' = Some (run lIndexList)"
  "map_of CmdTable ''lrange'' = Some (run lRangeList)" "map_of CmdTable ''lset'' = Some (run lSetList)"
  "map_of CmdTable ''ltrim'' = Some (run lTrimList)"
  by (simp_all add: CmdTable_eval)

text \<open>The words of a list command.\<close>

fun list_words :: "string \<Rightarrow> list_op \<Rightarrow> string list" where
  "list_words k (LPUSH vs) = ''lpush'' # k # map str vs"
| "list_words k (RPUSH vs) = ''rpush'' # k # map str vs"
| "list_words k (LPOP n) = [''lpop'', k] @ (if n = 0 then [] else [FormatInt (int n)])"
| "list_words k (RPOP n) = [''rpop'', k] @ (if n = 0 then [] else [FormatInt (int n)])"
| "list_words k LLEN = [''llen'', k]"
| "list_words k (LINDEX i) = [''lindex'', k, FormatInt i]"
| "list_words k (LRANGE i j) = [''lrange'', k, FormatInt i, FormatInt j]"
| "list_words k (LSET i v) = [''lset'', k, FormatInt i, str v]"
| "list_words k (LTRIM i j) = [''ltrim'', k, FormatInt i, FormatInt j]"

text \<open>No key or value has a space in it, and no value is a nil slice.\<close>

definition spaceless :: "string \<Rightarrow> bool" where
  "spaceless w \<longleftrightarrow> CHR '' '' \<notin> set w"

definition spaceless_slice :: "slice \<Rightarrow> bool" where
  "spaceless_slice v \<longleftrightarrow> (case v of None \<Rightarrow> False | Some w \<Rightarrow> spaceless w)"

fun spaceless_op :: "list_op \<Rightarrow> bool" where
  "spaceless_op (LPUSH vs) \<longleftrightarrow> list_all spaceless_slice vs"
| "spaceless_op (RPUSH vs) \<longleftrightarrow> list_all spaceless_slice vs"
| "spaceless_op (LSET i v) \<longleftrightarrow> spaceless_slice v"
| "spaceless_op _ \<longleftrightarrow> True"

lemma spaceless_slice_str: "spaceless_slice v \<Longrightarrow> Some (str v) = v \<and> spaceless (str v)"
  by (auto simp: spaceless_slice_def split: option.splits)

lemma spaceless_slices: "list_all spaceless_slice vs \<Longrightarrow> map (Some \<circ> str) vs = vs \<and> list_all spaceless (map str vs)"
  by (induction vs) (auto simp: spaceless_slice_str)

lemma FormatInt_spaceless: "spaceless (FormatInt i)"
  using fmt_nat_digits [of "CHR '' ''"] by (auto simp: spaceless_def FormatInt_def is_digit_def)

lemma list_words_spaceless: "spaceless k \<Longrightarrow> spaceless_op op \<Longrightarrow> \<forall>w \<in> set (list_words k op). CHR '' '' \<notin> set w"
  using FormatInt_spaceless spaceless_slices spaceless_slice_str
  by (cases op) (auto simp: spaceless_def list_all_iff)

text \<open>A committed list command runs the handler on the current database.\<close>

lemma Manager_ExecCommand_run:
  assumes "lower e c = c" and "c \<noteq> ''select''" and "map_of CmdTable c = Some (run h)" and "CurrentDB mg < length (DBs mg)"
  shows "Manager_ExecCommand e mg (Some c # args) =
    map_option (\<lambda>(m, r). (mg\<lparr>DBs := (DBs mg)[CurrentDB mg := m]\<rparr>, Reply r)) (h e (DBs mg ! CurrentDB mg) (Some c # args))"
  using assms
  by (cases "h e (DBs mg ! CurrentDB mg) (Some c # args)") (auto simp: Manager_ExecCommand_def on_current_def run_def Let_def)

lemma ExecStr_list:
  assumes "spaceless k" and "spaceless_op op" and "CurrentDB mg < length (DBs mg)"
  shows "ExecStrCommand e mg (Join (CHR '' '') (list_words k op)) =
    map_option (\<lambda>(m, r). (mg\<lparr>DBs := (DBs mg)[CurrentDB mg := m]\<rparr>, Reply r)) (list_exec e (DBs mg ! CurrentDB mg) k op)"
proof -
  have "list_words k op \<noteq> []" by (cases op) auto
  then have "ExecStrCommand e mg (Join (CHR '' '') (list_words k op)) = Manager_ExecCommand e mg (map Some (list_words k op))"
    using list_words_spaceless [OF assms(1,2)] by (intro ExecStrCommand_Join)
  then show ?thesis
    using assms(2,3) spaceless_slices spaceless_slice_str
    by (cases op) (simp_all add: Manager_ExecCommand_run CmdTable_lists ToLower_eval)
qed

section \<open>Replicas of one log\<close>

definition proposal :: "nat \<Rightarrow> string \<times> list_op \<Rightarrow> RaftProposal" where
  "proposal i p = \<lparr>Data = Join (CHR '' '') (list_words (fst p) (snd p)), ID = FormatInt (int i)\<rparr>"

lemma iter_ok_cluster [simp]: "iter_ok (e\<lparr>in_cluster := b\<rparr>) = iter_ok e"
  by (simp add: iter_ok_def)

lemma commits_run:
  "exec_run list_exec (\<lambda>i. (es i)\<lparr>in_cluster := True\<rparr>) n m ops = Some (m', rs) \<Longrightarrow>
   \<forall>(k, op) \<in> set ops. spaceless k \<and> spaceless_op op \<Longrightarrow> CurrentDB mg < length (DBs mg) \<Longrightarrow> m = DBs mg ! CurrentDB mg \<Longrightarrow>
   handleClusterCommits es n mg (map2 proposal [j..<j + length ops] ops) =
     Some (mg\<lparr>DBs := (DBs mg)[CurrentDB mg := m']\<rparr>, zip (map (\<lambda>i. FormatInt (int i)) [j..<j + length ops]) (map Some rs), [])"
proof (induction ops arbitrary: n m mg rs j)
  case (Cons p ops)
  obtain k op where p: "p = (k, op)" by (cases p)
  have pl: "spaceless k" "spaceless_op op" using Cons.prems(2) p by auto
  from Cons.prems(1) obtain m1 r rs1 where x: "list_exec ((es n)\<lparr>in_cluster := True\<rparr>) m k op = Some (m1, Some r)"
      "exec_run list_exec (\<lambda>i. (es i)\<lparr>in_cluster := True\<rparr>) (Suc n) m1 ops = Some (m', rs1)" "rs = r # rs1"
    by (auto simp: p split: bind_splits)
  let ?mg = "mg\<lparr>DBs := (DBs mg)[CurrentDB mg := m1]\<rparr>"
  have "handleClusterCommits es (Suc n) ?mg (map2 proposal [Suc j..<Suc j + length ops] ops) =
      Some (?mg\<lparr>DBs := (DBs ?mg)[CurrentDB ?mg := m']\<rparr>, zip (map (\<lambda>i. FormatInt (int i)) [Suc j..<Suc j + length ops]) (map Some rs1), [])"
    using Cons.prems(2,3) by (intro Cons.IH [OF x(2)]) auto
  moreover have "[j..<j + length (p # ops)] = j # [Suc j..<Suc j + length ops]" by (subst upt_rec) simp
  ultimately show ?case
    using ExecStr_list [OF pl Cons.prems(3)] x Cons.prems(4) by (simp add: p proposal_def)
next
  case Nil
  then show ?case by (cases mg) auto
qed



section \<open>Where replicas differ\<close>

text \<open>
  C38. A value with a space in it is changed by replication: the command is joined with spaces and
  split at them again. In a cluster SET of a value that consists of two words runs with the
  first word as the value and the second as an option; unless it is one, the reply is an error
  and nothing is stored, while the server alone stores the value.
\<close>

theorem cluster_splits_values:
  assumes "Manager_ok mg" and "cm_Get (db (DBs mg ! CurrentDB mg)) k = None" and "lower e k = k"
    and "spaceless k" and "spaceless v" and "spaceless w"
    and "lower e w \<notin> {''nx'', ''xx'', ''get'', ''keepttl'', ''exat'', ''ex'', ''px''}"
  shows "ExecStrCommand e mg (Join (CHR '' '') [''set'', k, v @ '' '' @ w]) =
      Some (mg, Reply (Some (ErrorData (''Error unsupported option: '' @ w))))
    \<and> (\<exists>m. Manager_ExecCommand e mg (map Some [''set'', k, v @ '' '' @ w]) =
        Some (mg\<lparr>DBs := (DBs mg)[CurrentDB mg := m]\<rparr>, Reply (Some (StringData ''OK'')))
      \<and> cm_Get (db m) k = Some (VBytes (Some (v @ '' '' @ w))))"
proof -
  let ?m = "DBs mg ! CurrentDB mg" and ?v = "v @ '' '' @ w"
  have cur: "CurrentDB mg < length (DBs mg)" "db_ok ?m" using assms(1) by (simp_all add: Manager_ok_def)
  have run: "Manager_ExecCommand e mg (Some ''set'' # args) =
      map_option (\<lambda>(m, r). (mg\<lparr>DBs := (DBs mg)[CurrentDB mg := m]\<rparr>, Reply r)) (setString e ?m (Some ''set'' # args))" for args
    using cur(1) by (intro Manager_ExecCommand_run) (simp_all add: ToLower_eval CmdTable_eval)
  have "Join (CHR '' '') [''set'', k, ?v] = Join (CHR '' '') [''set'', k, v, w]" by simp
  then have "ExecStrCommand e mg (Join (CHR '' '') [''set'', k, ?v]) = Manager_ExecCommand e mg (map Some [''set'', k, v, w])"
    using ExecStrCommand_Join [of "[''set'', k, v, w]" e mg] assms(4-6) by (simp add: spaceless_def)
  moreover have "setString e ?m [Some ''set'', Some k, Some v, Some w] = reply ?m (ErrorData (''Error unsupported option: '' @ w))"
    using assms(7) by (simp add: setString_def Let_def)
  moreover have "mg\<lparr>DBs := (DBs mg)[CurrentDB mg := ?m]\<rparr> = mg" using cur(1) by (cases mg) simp
  ultimately have split: "ExecStrCommand e mg (Join (CHR '' '') [''set'', k, ?v]) =
      Some (mg, Reply (Some (ErrorData (''Error unsupported option: '' @ w))))" using run by simp
  obtain m where m: "set_ttls e (db_put ?m k (VBytes (Some ?v))) k set_opts0 = Some m" "db m = db (db_put ?m k (VBytes (Some ?v)))"
    by (rule set_ttls_expiry [of "db_put ?m k (VBytes (Some ?v))"]) (use cur(2) in simp)
  then have "setString e ?m [Some ''set'', Some k, Some ?v] = reply m (StringData ''OK'')"
    using assms(2,3) by (simp add: setString_def set_with_def set_opts0_def)
  moreover have "cm_Get (db m) k = Some (VBytes (Some ?v))" using m(2) db_okD(1) [OF cur(2)] by simp
  ultimately show ?thesis using split run by auto
qed

theorem cluster_splits_values_witness:
  "\<exists>mg. NewManager 1 4 = Some mg
    \<and> ExecStrCommand (env_at 0) mg (Join (CHR '' '') [''set'', ''k'', ''a b'']) =
        Some (mg, Reply (Some (ErrorData ''Error unsupported option: b'')))"
proof -
  let ?mg = "\<lparr>CurrentDB = 0, DBs = [NewMemDb 4]\<rparr>"
  have "Manager_ok ?mg" by (simp add: Manager_ok_def)
  then show ?thesis
    using cluster_splits_values [of ?mg "''k''" "env_at 0" "''a''" "''b''"]
    by (simp add: NewManager_def NewMemDb_def ToLower_eval spaceless_def)
qed

text \<open>
  C39. Commands that depend on the iteration order of a Go map are replicated as commands: SPOP
  on a set of two members, applied by two replicas that iterate in different orders, leaves
  them with different sets and gives their clients different replies.
\<close>

theorem spop_diverges:
  assumes "Manager_ok mg" and "cm_Get (db (DBs mg ! CurrentDB mg)) k = Some (VSet [a, b])" and "a \<noteq> b"
    and "expiry (DBs mg ! CurrentDB mg) k = None" and "spaceless k"
    and "iter e 0 [a, b] = [a, b]" and "iter e' 0 [a, b] = [b, a]"
  shows "\<exists>m m'. ExecStrCommand e mg (Join (CHR '' '') [''spop'', k]) =
        Some (mg\<lparr>DBs := (DBs mg)[CurrentDB mg := m]\<rparr>, Reply (Some (BulkData (Some a))))
    \<and> ExecStrCommand e' mg (Join (CHR '' '') [''spop'', k]) =
        Some (mg\<lparr>DBs := (DBs mg)[CurrentDB mg := m']\<rparr>, Reply (Some (BulkData (Some b))))
    \<and> cm_Get (db m) k = Some (VSet [b]) \<and> cm_Get (db m') k = Some (VSet [a])"
proof -
  let ?m = "DBs mg ! CurrentDB mg"
  have cur: "CurrentDB mg < length (DBs mg)" "cm_ok (db ?m)" using assms(1) db_okD(1) by (simp_all add: Manager_ok_def)
  have "ExecStrCommand d mg (Join (CHR '' '') [''spop'', k]) = Manager_ExecCommand d mg (map Some [''spop'', k])" for d
    using assms(5) by (intro ExecStrCommand_Join) (simp_all add: spaceless_def)
  moreover have "Manager_ExecCommand d mg (Some ''spop'' # args) =
      map_option (\<lambda>(m, r). (mg\<lparr>DBs := (DBs mg)[CurrentDB mg := m]\<rparr>, Reply r)) (sPopSet d ?m (Some ''spop'' # args))" for d args
    using cur(1) by (intro Manager_ExecCommand_run) (simp_all add: ToLower_eval CmdTable_eval)
  moreover have "sPopSet e ?m [Some ''spop'', Some k] = reply (db_put ?m k (VSet [b])) (BulkData (Some a))"
    "sPopSet e' ?m [Some ''spop'', Some k] = reply (db_put ?m k (VSet [a])) (BulkData (Some b))"
    using assms(2,3,4,6,7) CheckTTL_no_expiry [OF assms(4)]
    by (simp_all add: sPopSet_def ToLower_eval set_Pop_def set_Remove_def set_Has_def finish_set_def set_Len_def)
  ultimately show ?thesis
    using cur(2) by (intro exI [of _ "db_put ?m k (VSet [b])"] exI [of _ "db_put ?m k (VSet [a])"]) simp
qed

theorem spop_diverges_witness:
  "\<exists>m m'. ExecStrCommand (env_at 0) \<lparr>CurrentDB = 0, DBs = [db_put (NewMemDb 1) ''s'' (VSet [''a'', ''b''])]\<rparr> ''spop s'' =
        Some (\<lparr>CurrentDB = 0, DBs = [m]\<rparr>, Reply (Some (BulkData (Some ''a''))))
    \<and> ExecStrCommand ((env_at 0)\<lparr>iter := (\<lambda>_ xs. rev xs)\<rparr>) \<lparr>CurrentDB = 0, DBs = [db_put (NewMemDb 1) ''s'' (VSet [''a'', ''b''])]\<rparr> ''spop s'' =
        Some (\<lparr>CurrentDB = 0, DBs = [m']\<rparr>, Reply (Some (BulkData (Some ''b''))))"
proof -
  let ?m = "db_put (NewMemDb 1) ''s'' (VSet [''a'', ''b''])"
  have "db_ok ?m" by (intro db_ok_put) simp_all
  then have "Manager_ok \<lparr>CurrentDB = 0, DBs = [?m]\<rparr>" by (simp add: Manager_ok_def)
  moreover have "cm_Get (db ?m) ''s'' = Some (VSet [''a'', ''b''])" "expiry ?m ''s'' = None"
    by (simp_all add: NewMemDb_def expiry_def)
  ultimately show ?thesis
    using spop_diverges [of "\<lparr>CurrentDB = 0, DBs = [?m]\<rparr>" "''s''" "''a''" "''b''" "env_at 0" "(env_at 0)\<lparr>iter := (\<lambda>_ xs. rev xs)\<rparr>"]
    by (auto simp: spaceless_def)
qed

end
