(* ===== verification/Set_Object.thy ===== *)
theory Set_Object
  imports Set_Cmd Key_Object
begin

text \<open>
  The set commands as operations on an abstract set of strings, and the algebra of the
  commands that combine the sets of several keys.
\<close>

section \<open>The abstract set\<close>

datatype set_op = SADD "string list" | SREM "string list" | SCARD | SISMEMBER string

fun set_spec_op :: "set_op \<Rightarrow> string set \<Rightarrow> string set \<times> RedisData" where
  "set_spec_op (SADD xs) S = (S \<union> set xs, IntData (int (card (set xs - S))))"
| "set_spec_op (SREM xs) S = (S - set xs, IntData (int (card (S \<inter> set xs))))"
| "set_spec_op SCARD S = (S, IntData (int (card S)))"
| "set_spec_op (SISMEMBER x) S = (S, IntData (if x \<in> S then 1 else 0))"

fun set_valid :: "set_op \<Rightarrow> bool" where
  "set_valid (SADD xs) \<longleftrightarrow> xs \<noteq> []"
| "set_valid (SREM xs) \<longleftrightarrow> xs \<noteq> []"
| "set_valid SCARD \<longleftrightarrow> True"
| "set_valid (SISMEMBER x) \<longleftrightarrow> True"

fun set_exec :: "env \<Rightarrow> MemDb \<Rightarrow> string \<Rightarrow> set_op \<Rightarrow> result" where
  "set_exec e m k (SADD xs) = sAddSet e m (Some ''sadd'' # Some k # map Some xs)"
| "set_exec e m k (SREM xs) = sRemSet e m (Some ''srem'' # Some k # map Some xs)"
| "set_exec e m k SCARD = sCardSet e m [Some ''scard'', Some k]"
| "set_exec e m k (SISMEMBER x) = sIsMemberSet e m [Some ''sismember'', Some k, Some x]"

section \<open>The handlers implement it\<close>

definition set_slot :: "MemDb \<Rightarrow> string \<Rightarrow> string set \<Rightarrow> bool" where
  "set_slot m k S \<longleftrightarrow> expiry m k = None
     \<and> (case cm_Get (db m) k of None \<Rightarrow> S = {} | Some v \<Rightarrow> S \<noteq> {} \<and> (\<exists>s. v = VSet s \<and> distinct s \<and> set s = S))"

lemma set_slot_cases [consumes 1, case_names absent present]:
  assumes "set_slot m k S"
  obtains "cm_Get (db m) k = None" and "S = {}" and "expiry m k = None"
  | s where "cm_Get (db m) k = Some (VSet s)" and "distinct s" and "set s = S" and "S \<noteq> {}" and "expiry m k = None"
  using assms that unfolding set_slot_def by (cases "cm_Get (db m) k") auto

lemma set_slot_put:
  assumes "db_ok m" and "expiry m k = None" and "distinct s" and "s \<noteq> []"
  shows "db_ok (db_put m k (VSet s))" "set_slot (db_put m k (VSet s)) k (set s)" "only_key k m (db_put m k (VSet s))"
  using assms db_ok_put [OF assms(1)] db_okD(1) [OF assms(1)] only_key_put [OF assms(1)] by (simp_all add: set_slot_def)

lemma add_loop_correct:
  "distinct s \<Longrightarrow> add_loop s xs n = (add_all xs s, n + int (card (set xs - set s)))"
proof (induction xs arbitrary: s n)
  case (Cons x xs)
  have "set (x # xs) - set s = (if x \<in> set s then {} else {x}) \<union> (set xs - (set s \<union> {x}))" by auto
  moreover have "card ({x} \<union> (set xs - (set s \<union> {x}))) = 1 + card (set xs - (set s \<union> {x}))" by (subst card_Un_disjoint) auto
  ultimately have "card (set (x # xs) - set s) = (if x \<in> set s then 0 else 1) + card (set xs - set (fst (set_Add s x)))" by simp
  then show ?case using Cons by (simp add: set_Add_count case_prod_beta Let_def)
qed simp

lemma rem_loop_correct:
  "distinct s \<Longrightarrow> rem_loop s xs n = (remove_all xs s, n + int (card (set s \<inter> set xs)))"
proof (induction xs arbitrary: s n)
  case (Cons x xs)
  have "card (set s \<inter> set (x # xs)) = (if x \<in> set s then 1 else 0) + card ((set s - {x}) \<inter> set xs)"
  proof (cases "x \<in> set s")
    case True
    then have "set s \<inter> set (x # xs) = {x} \<union> ((set s - {x}) \<inter> set xs)" by auto
    then show ?thesis using True by simp
  next
    case False
    then have "set s \<inter> set (x # xs) = (set s - {x}) \<inter> set xs" by auto
    then show ?thesis using False by simp
  qed
  then show ?case using Cons by (simp add: set_Remove_count case_prod_beta Let_def)
qed simp

lemma lower_set_names:
  "lower e ''srem'' = ''srem''" "lower e ''scard'' = ''scard''" "lower e ''sismember'' = ''sismember''"
  "lower e ''sunion'' = ''sunion''" "lower e ''sinter'' = ''sinter''" "lower e ''sdiff'' = ''sdiff''"
  by (simp_all add: ToLower_eval)

abbreviation set_step :: "MemDb \<Rightarrow> string \<Rightarrow> result \<Rightarrow> string set \<times> RedisData \<Rightarrow> bool" where
  "set_step m k r s \<equiv> \<exists>m'. r = reply m' (snd s) \<and> db_ok m' \<and> set_slot m' k (fst s) \<and> only_key k m m'"

lemma sadd_step:
  assumes "db_ok m" and "set_slot m k S" and "xs \<noteq> []"
  shows "set_step m k (set_exec e m k (SADD xs)) (set_spec_op (SADD xs) S)"
proof -
  have c: "CheckTTL e m k = (m, True)" using assms(2) by (simp add: set_slot_def CheckTTL_no_expiry)
  show ?thesis
    using assms(2)
  proof (cases rule: set_slot_cases)
    case absent
    let ?m = "db_put m k (VSet NewSet)"
    have m: "db_ok ?m" "expiry ?m k = None" using db_ok_put [OF assms(1)] absent(3) by (simp_all add: NewSet_def)
    have s: "distinct (add_all xs NewSet)" "set (add_all xs NewSet) = set xs" by (simp_all add: NewSet_def)
    then have ne: "add_all xs NewSet \<noteq> []" using assms(3) by (metis set_empty)
    note put = set_slot_put [OF m s(1) ne]
    have "only_key k m (db_put ?m k (VSet (add_all xs NewSet)))" using db_okD(1) [OF assms(1)] by (simp add: only_key_def)
    then show ?thesis using put s(2) absent(1,2) c assms(3)
      by (simp add: sAddSet_def get_or_new_def add_loop_correct NewSet_def)
  next
    case (present s)
    have s: "distinct (add_all xs s)" "set (add_all xs s) = S \<union> set xs" using present(2,3) by auto
    then have ne: "add_all xs s \<noteq> []" using assms(3) by (metis set_empty sup_eq_bot_iff)
    show ?thesis using set_slot_put [OF assms(1) present(5) s(1) ne] s(2) present(1-3) c assms(3)
      by (simp add: sAddSet_def get_or_new_def add_loop_correct)
  qed
qed

lemma srem_step:
  assumes "db_ok m" and "set_slot m k S" and "xs \<noteq> []"
  shows "set_step m k (set_exec e m k (SREM xs)) (set_spec_op (SREM xs) S)"
proof -
  have c: "CheckTTL e m k = (m, True)" using assms(2) by (simp add: set_slot_def CheckTTL_no_expiry)
  show ?thesis
    using assms(2)
  proof (cases rule: set_slot_cases)
    case absent
    then show ?thesis using c assms by (simp add: sRemSet_def lower_set_names only_key_refl)
  next
    case (present s)
    have s: "distinct (remove_all xs s)" "set (remove_all xs s) = S - set xs"
      using remove_all_simps [OF present(2)] present(3) by auto
    show ?thesis
    proof (cases "remove_all xs s = []")
      case True
      obtain m' where "drop_key (db_put m k (VSet [])) k = Some m'" "db_ok m'" "cm_Get (db m') k = None" "expiry m' k = None" "only_key k m m'"
        by (rule drop_key_only [OF assms(1)])
      moreover have "S - set xs = {}" using True s(2) by simp
      ultimately show ?thesis using True present(1-3) c assms(3)
        by (intro exI [of _ m']) (simp add: sRemSet_def lower_set_names rem_loop_correct finish_set_def set_Len_def set_slot_def)
    next
      case False
      then show ?thesis using set_slot_put [OF assms(1) present(5) s(1) False] s(2) present(1-3) c assms(3)
        by (simp add: sRemSet_def lower_set_names rem_loop_correct finish_set_def set_Len_def)
    qed
  qed
qed

lemma set_reads_step:
  assumes "db_ok m" and "set_slot m k S"
  shows "set_step m k (set_exec e m k SCARD) (set_spec_op SCARD S)"
    and "set_step m k (set_exec e m k (SISMEMBER x)) (set_spec_op (SISMEMBER x) S)"
proof -
  have c: "CheckTTL e m k = (m, True)" using assms(2) by (simp add: set_slot_def CheckTTL_no_expiry)
  have fin: "set_step m k (reply m r) (S, r)" for r using assms by (simp add: only_key_refl)
  show "set_step m k (set_exec e m k SCARD) (set_spec_op SCARD S)"
    using assms(2) fin [of "IntData (int (card S))"] c
    by (cases rule: set_slot_cases) (auto simp: sCardSet_def lower_set_names set_Len_card)
  show "set_step m k (set_exec e m k (SISMEMBER x)) (set_spec_op (SISMEMBER x) S)"
    using assms(2) fin [of "IntData (if x \<in> S then 1 else 0)"] c
    by (cases rule: set_slot_cases) (auto simp: sIsMemberSet_def lower_set_names set_Has_def)
qed

interpretation so: key_object set_slot set_spec_op set_valid set_exec
proof
  fix m e k S op
  assume "db_ok m" "iter_ok e" "set_slot m k S" "set_valid op"
  then show "set_step m k (set_exec e m k op) (set_spec_op op S)"
    by (cases op) (simp_all add: sadd_step srem_step set_reads_step del: set_exec.simps set_spec_op.simps)
next
  fix m m' k S
  assume "set_slot m k S" "cm_Get (db m') k = cm_Get (db m) k" "expiry m' k = expiry m k"
  then show "set_slot m' k S" by (simp add: set_slot_def)
qed

section \<open>Several sets\<close>

lemma set_slots_checked:
  assumes "\<forall>k \<in> set ks. set_slot m k (S k)"
  shows "check_all e m ks = m" "live_keys e m ks = (m, ks)"
  using assms by (induction ks) (simp_all add: set_slot_def CheckTTL_no_expiry)

lemma collect_slots:
  assumes "\<forall>k \<in> set ks. set_slot m k (S k)"
  obtains sets where "collect_sets m ks = Some sets" and "map set sets = map S (filter (\<lambda>k. S k \<noteq> {}) ks)"
  using assms
proof (induction ks arbitrary: thesis)
  case (Cons k ks)
  obtain sets where sets: "collect_sets m ks = Some sets" "map set sets = map S (filter (\<lambda>k. S k \<noteq> {}) ks)"
    using Cons.IH Cons.prems(2) by auto
  from Cons.prems(2) have "set_slot m k (S k)" by simp
  then show ?case
  proof (cases rule: set_slot_cases)
    case absent
    then show ?thesis using Cons.prems(1) [of sets] sets by simp
  next
    case (present s)
    then show ?thesis using Cons.prems(1) [of "s # sets"] sets by simp
  qed
qed simp

lemma shortest_lt: "shortest i j n sets = j \<or> i \<le> shortest i j n sets \<and> shortest i j n sets < i + length sets"
proof (induction sets arbitrary: i j n)
  case (Cons s sets)
  show ?case using Cons.IH [of "i + 1" i "set_Len s"] Cons.IH [of "i + 1" j n] by auto
qed simp

lemma inter_all_correct:
  assumes "iter_ok e" and "sets \<noteq> []"
  obtains s where "inter_all e sets = Some s" and "distinct s" and "set s = \<Inter> (set ` set sets)"
proof -
  define i where "i = shortest 0 0 MaxInt64 sets"
  have i: "i < length sets" using shortest_lt [of 0 0 MaxInt64 sets] assms(2) by (auto simp: i_def)
  let ?s = "set_Intersect e (sets ! i) (take i sets @ drop (i + 1) sets)"
  have "set (sets ! i # take i sets @ drop (i + 1) sets) = set (take i sets @ sets ! i # drop (Suc i) sets)" by auto
  also have "\<dots> = set sets" using id_take_nth_drop [OF i] by simp
  finally have "set (sets ! i) \<inter> \<Inter> (set ` set (take i sets @ drop (i + 1) sets)) = \<Inter> (set ` set sets)"
    by (metis INF_insert list.simps(15))
  moreover have "inter_all e sets = Some ?s" by (simp only: inter_all_def Let_def i_def [symmetric] nth_opt_lt [OF i] bind.bind_lunit)
  ultimately show ?thesis using that set_Intersect_correct [OF assms(1), of "sets ! i" "take i sets @ drop (i + 1) sets"] by simp
qed

lemma bulks_members: "iter_ok e \<Longrightarrow> distinct s \<Longrightarrow>
    \<exists>ys. bulks (set_Members e s) = bulks ys \<and> distinct ys \<and> set ys = set s"
  by (rule exI [of _ "set_Members e s"]) (simp add: set_Members_def iter_ok_distinct iter_ok_set)

section \<open>What follows for clients\<close>

text \<open>
  C11. Refinement of the set commands: any sequence of SADD, SREM, SCARD and SISMEMBER on any keys
  is answered as by independent mathematical sets, one for each key; the counts in the replies
  are those of the members that were really added or removed, and no empty set is kept.
\<close>

theorem set_commands_refine:
  assumes "db_ok m" and "\<And>i. iter_ok (es i)" and "\<forall>k \<in> ks. set_slot m k (s k)"
    and "\<forall>(k, op) \<in> set ops. k \<in> ks \<and> set_valid op"
  shows "\<exists>m'. exec_run set_exec es n m ops = Some (m', snd (spec_run set_spec_op ops s)) \<and> db_ok m'
     \<and> (\<forall>k \<in> ks. set_slot m' k (fst (spec_run set_spec_op ops s) k))"
  by (rule so.simulation) (use assms in auto)

theorem set_commands_refine_witness:
  "\<exists>m'. exec_run set_exec (\<lambda>i. env_at (int i)) 0 (NewMemDb 1)
       [(''a'', SADD [''x'', ''y'']), (''a'', SREM [''x'', ''z'']), (''a'', SISMEMBER ''x''), (''a'', SCARD)] =
     Some (m', [IntData 2, IntData 1, IntData 0, IntData 1])"
proof -
  have "set_slot (NewMemDb 1) k {}" for k by (simp add: set_slot_def expiry_def NewMemDb_def)
  moreover have "{''x'', ''y''} \<inter> {''x'', ''z''} = {''x''}" "{''x'', ''y''} - {''x'', ''z''} = {''y''}" by auto
  ultimately show ?thesis
    using set_commands_refine [of "NewMemDb 1" "\<lambda>i. env_at (int i)" UNIV "\<lambda>_. {}"
       "[(''a'', SADD [''x'', ''y'']), (''a'', SREM [''x'', ''z'']), (''a'', SISMEMBER ''x''), (''a'', SCARD)]" 0]
    by auto
qed

text \<open>
  C33. The commands on several sets: SUNION lists the union and SDIFF the first set without the
  others, each member once and in any order. SINTER lists the intersection of the sets that
  exist: a missing key is skipped instead of making the result empty, and when no key exists at
  all, SINTER reads the first of no sets and panics.
\<close>

theorem set_algebra:
  assumes "db_ok m" and "iter_ok e" and "ks \<noteq> []" and "\<forall>k \<in> set ks. set_slot m k (S k)"
  shows "(\<exists>ys. sUnionSet e m (Some ''sunion'' # map Some ks) = reply m (bulks ys) \<and> distinct ys \<and> set ys = \<Union> (S ` set ks))
    \<and> (\<exists>ys. sDiffSet e m (Some ''sdiff'' # map Some ks) = reply m (bulks ys) \<and> distinct ys \<and> set ys = S (hd ks) - \<Union> (S ` set (tl ks)))
    \<and> (if \<forall>k \<in> set ks. S k = {} then sInterSet e m (Some ''sinter'' # map Some ks) = None
       else \<exists>ys. sInterSet e m (Some ''sinter'' # map Some ks) = reply m (bulks ys) \<and> distinct ys
         \<and> set ys = \<Inter> (S ` {k \<in> set ks. S k \<noteq> {}}))"
proof (intro conjI)
  obtain k0 ks' where ks: "ks = k0 # ks'" using assms(3) by (cases ks) auto
  note checked = set_slots_checked [OF assms(4)]
  obtain sets where sets: "collect_sets m ks = Some sets" "map set sets = map S (filter (\<lambda>k. S k \<noteq> {}) ks)"
    by (rule collect_slots [OF assms(4)])
  have img: "set ` set sets = S ` {k \<in> set ks. S k \<noteq> {}}" using arg_cong [OF sets(2), of set] by simp
  show "\<exists>ys. sUnionSet e m (Some ''sunion'' # map Some ks) = reply m (bulks ys) \<and> distinct ys \<and> set ys = \<Union> (S ` set ks)"
  proof (cases sets)
    case Nil
    then have "\<Union> (S ` set ks) = {}" using img by auto
    then show ?thesis using Nil checked sets(1) ks by (intro exI [of _ "[]"]) (simp add: sUnionSet_def lower_set_names MakeEmptyArrayData_def)
  next
    case (Cons s ss)
    have "set (set_Union e s ss) = \<Union> (set ` set sets)" using set_Union_correct [OF assms(2), of s ss] Cons by auto
    also have "\<dots> = \<Union> (S ` set ks)" unfolding img by auto
    finally show ?thesis using Cons checked sets(1) ks bulks_members [OF assms(2), of "set_Union e s ss"]
      by (simp add: sUnionSet_def lower_set_names)
  qed
  show "\<exists>ys. sDiffSet e m (Some ''sdiff'' # map Some ks) = reply m (bulks ys) \<and> distinct ys \<and> set ys = S (hd ks) - \<Union> (S ` set (tl ks))"
  proof -
    have slot0: "set_slot m k0 (S k0)" and tl: "\<forall>k \<in> set ks'. set_slot m k (S k)" using assms(4) ks by simp_all
    obtain sets' where sets': "collect_sets m ks' = Some sets'" "map set sets' = map S (filter (\<lambda>k. S k \<noteq> {}) ks')"
      by (rule collect_slots [OF tl])
    have img': "\<Union> (set ` set sets') = \<Union> (S ` set ks')" using arg_cong [OF sets'(2), of "\<lambda>xs. \<Union> (set xs)"] by auto
    from slot0 show ?thesis
    proof (cases rule: set_slot_cases)
      case absent
      then show ?thesis using checked ks by (intro exI [of _ "[]"]) (simp add: sDiffSet_def lower_set_names MakeEmptyArrayData_def)
    next
      case (present s)
      have d: "set (set_Difference e s sets') = S k0 - \<Union> (S ` set ks')" "distinct (set_Difference e s sets')"
        using set_Difference_correct [OF assms(2), of s sets'] present(3) img' by simp_all
      show ?thesis
        using present checked ks sets'(1) d bulks_members [OF assms(2), of s] bulks_members [OF assms(2), of "set_Difference e s sets'"]
        by (cases ks') (simp_all add: sDiffSet_def lower_set_names)
    qed
  qed
  have run: "sInterSet e m (Some ''sinter'' # map Some ks) = do { s \<leftarrow> inter_all e sets; reply m (bulks (set_Members e s)) }"
    using checked(1) sets(1) ks by (simp add: sInterSet_def lower_set_names)
  show "if \<forall>k \<in> set ks. S k = {} then sInterSet e m (Some ''sinter'' # map Some ks) = None
       else \<exists>ys. sInterSet e m (Some ''sinter'' # map Some ks) = reply m (bulks ys) \<and> distinct ys
         \<and> set ys = \<Inter> (S ` {k \<in> set ks. S k \<noteq> {}})"
  proof (cases "sets = []")
    case True
    then have none: "\<forall>k \<in> set ks. S k = {}" using img by auto
    have "sInterSet e m (Some ''sinter'' # map Some ks) = None" using True run by (simp add: inter_all_def)
    then show ?thesis unfolding if_P [OF none] .
  next
    case False
    then have "S ` {k \<in> set ks. S k \<noteq> {}} \<noteq> {}" unfolding img [symmetric] by simp
    then have some: "\<not> (\<forall>k \<in> set ks. S k = {})" by blast
    obtain s where "inter_all e sets = Some s" "distinct s" "set s = \<Inter> (S ` {k \<in> set ks. S k \<noteq> {}})"
      by (rule inter_all_correct [OF assms(2) False, unfolded img])
    then show ?thesis unfolding if_not_P [OF some] using run bulks_members [OF assms(2), of s] by auto
  qed
qed

theorem set_algebra_witness:
  "\<exists>ys. sInterSet (env_at 0) (db_put (NewMemDb 1) ''a'' (VSet [''x'', ''y''])) [Some ''sinter'', Some ''a'', Some ''missing''] =
      reply (db_put (NewMemDb 1) ''a'' (VSet [''x'', ''y''])) (bulks ys) \<and> set ys = {''x'', ''y''}"
proof -
  let ?m = "db_put (NewMemDb 1) ''a'' (VSet [''x'', ''y''])"
  let ?S = "\<lambda>k. if k = ''a'' then {''x'', ''y''} else {}"
  have ok: "db_ok ?m" by (intro db_ok_put) simp_all
  have slots: "\<forall>k \<in> set [''a'', ''missing'']. set_slot ?m k (?S k)" by (simp add: set_slot_def expiry_def NewMemDb_def)
  have "{k \<in> set [''a'', ''missing'']. ?S k \<noteq> {}} = {''a''}" by auto
  then show ?thesis using set_algebra [OF ok iter_ok_env_at _ slots, of 0] by auto
qed

end
