(* ===== verification/Hash_Object.thy ===== *)
theory Hash_Object
  imports Hash_Cmd Key_Object
begin

text \<open>
  The hash commands as operations on an abstract finite map from fields to byte slices.
\<close>

section \<open>The abstract map\<close>

datatype hash_op =
    HSET "(string \<times> slice) list" | HSETNX string slice | HDEL "string list" | HGET string
  | HEXISTS string | HLEN | HSTRLEN string | HINCRBY string int

text \<open>HGET does not distinguish an empty value from a missing field.\<close>

fun hash_spec :: "hash_op \<Rightarrow> (string \<rightharpoonup> slice) \<Rightarrow> (string \<rightharpoonup> slice) \<times> RedisData" where
  "hash_spec (HSET kvs) H = (H ++ map_of (rev kvs), StringData ''OK'')"
| "hash_spec (HSETNX f v) H = (if H f = None then (H(f \<mapsto> v), IntData 1) else (H, IntData 0))"
| "hash_spec (HDEL fs) H = (H |` (- set fs), IntData (int (card (dom H \<inter> set fs))))"
| "hash_spec (HGET f) H = (H, BulkData (case H f of None \<Rightarrow> None | Some v \<Rightarrow> if str v = [] then None else v))"
| "hash_spec (HEXISTS f) H = (H, IntData (if H f = None then 0 else 1))"
| "hash_spec HLEN H = (H, IntData (int (card (dom H))))"
| "hash_spec (HSTRLEN f) H = (H, IntData (case H f of None \<Rightarrow> 0 | Some v \<Rightarrow> int (length (str v))))"
| "hash_spec (HINCRBY f n) H =
     (let old = (case H f of None \<Rightarrow> [] | Some v \<Rightarrow> str v) in
      if old = [] then (H(f \<mapsto> Some (FormatInt n)), IntData n)
      else case ParseInt old of None \<Rightarrow> (H, ErrorData ''value is not an integer'')
        | Some i \<Rightarrow> (H(f \<mapsto> Some (FormatInt (wrap64 (i + n)))), IntData (wrap64 (i + n))))"

fun hash_valid :: "hash_op \<Rightarrow> bool" where
  "hash_valid (HSET kvs) \<longleftrightarrow> kvs \<noteq> []"
| "hash_valid (HSETNX f v) \<longleftrightarrow> True"
| "hash_valid (HDEL fs) \<longleftrightarrow> fs \<noteq> []"
| "hash_valid (HGET f) \<longleftrightarrow> True"
| "hash_valid (HEXISTS f) \<longleftrightarrow> True"
| "hash_valid HLEN \<longleftrightarrow> True"
| "hash_valid (HSTRLEN f) \<longleftrightarrow> True"
| "hash_valid (HINCRBY f n) \<longleftrightarrow> in64 n"

fun hash_exec :: "env \<Rightarrow> MemDb \<Rightarrow> string \<Rightarrow> hash_op \<Rightarrow> result" where
  "hash_exec e m k (HSET kvs) = hSetHash e m (Some ''hset'' # Some k # concat (map (\<lambda>(f, v). [Some f, v]) kvs))"
| "hash_exec e m k (HSETNX f v) = hSetNxHash e m [Some ''hsetnx'', Some k, Some f, v]"
| "hash_exec e m k (HDEL fs) = hDelHash e m (Some ''hdel'' # Some k # map Some fs)"
| "hash_exec e m k (HGET f) = hGetHash e m [Some ''hget'', Some k, Some f]"
| "hash_exec e m k (HEXISTS f) = hExistsHash e m [Some ''hexists'', Some k, Some f]"
| "hash_exec e m k HLEN = hLenHash e m [Some ''hlen'', Some k]"
| "hash_exec e m k (HSTRLEN f) = hStrLenHash e m [Some ''hstrlen'', Some k, Some f]"
| "hash_exec e m k (HINCRBY f n) = hIncrByHash e m [Some ''hincrby'', Some k, Some f, Some (FormatInt n)]"

section \<open>The handlers implement it\<close>

definition hash_slot :: "MemDb \<Rightarrow> string \<Rightarrow> (string \<rightharpoonup> slice) \<Rightarrow> bool" where
  "hash_slot m k H \<longleftrightarrow> expiry m k = None
     \<and> (case cm_Get (db m) k of None \<Rightarrow> H = Map.empty
        | Some v \<Rightarrow> H \<noteq> Map.empty \<and> (\<exists>h. v = VHash h \<and> gm_ok h \<and> map_of h = H))"

lemma hash_slot_cases [consumes 1, case_names absent present]:
  assumes "hash_slot m k H"
  obtains "cm_Get (db m) k = None" and "H = Map.empty" and "expiry m k = None"
  | h where "cm_Get (db m) k = Some (VHash h)" and "gm_ok h" and "map_of h = H" and "H \<noteq> Map.empty" and "expiry m k = None"
  using assms that unfolding hash_slot_def by (cases "cm_Get (db m) k") auto

text \<open>
  The commands that make the hash when it is missing work on the hash of the slot; a step of
  such a command only has to be given on the hash.
\<close>

lemma get_or_new_slot:
  assumes "db_ok m" and "hash_slot m k H"
  obtains m1 h where "get_or_new_hash m k = (m1, VHash h)" and "gm_ok h" and "map_of h = H"
    and "\<forall>h'. gm_ok h' \<longrightarrow> h' \<noteq> [] \<longrightarrow> db_ok (db_put m1 k (VHash h')) \<and> hash_slot (db_put m1 k (VHash h')) k (map_of h')
        \<and> only_key k m (db_put m1 k (VHash h'))"
    and "h \<noteq> [] \<longrightarrow> m1 = m"
proof (cases rule: hash_slot_cases [OF assms(2)])
  case 1
  let ?m = "db_put m k (VHash NewHash)"
  have "db_ok ?m" using db_ok_put [OF assms(1)] by (simp add: NewHash_def)
  moreover have "only_key k m (db_put ?m k (VHash h'))" for h' using db_okD(1) [OF assms(1)] by (simp add: only_key_def)
  ultimately show ?thesis using that [of ?m NewHash] 1 db_ok_put [of ?m] db_okD(1) [OF assms(1)]
    by (simp add: get_or_new_hash_def hash_slot_def NewHash_def)
next
  case (2 h)
  show ?thesis using that [of m h] 2 db_ok_put [OF assms(1)] db_okD(1) [OF assms(1)] only_key_put [OF assms(1)]
    by (simp add: get_or_new_hash_def hash_slot_def)
qed

lemma hdel_loop_correct:
  "gm_ok h \<Longrightarrow> \<exists>h'. hdel_loop h fs n = (h', n + int (card (dom (map_of h) \<inter> set fs))) \<and> gm_ok h'
     \<and> map_of h' = map_of h |` (- set fs)"
proof (induction fs arbitrary: h n)
  case (Cons f fs)
  let ?h = "fst (hash_Del h f)"
  have ok: "gm_ok ?h" "map_of ?h = (map_of h)(f := None)" using hash.inv_del hash.get_del Cons.prems by blast+
  have "dom (map_of h) \<inter> set (f # fs) = (if map_of h f = None then {} else {f}) \<union> (dom (map_of h) - {f}) \<inter> set fs" by auto
  moreover have "card ({f} \<union> (dom (map_of h) - {f}) \<inter> set fs) = 1 + card ((dom (map_of h) - {f}) \<inter> set fs)"
    by (subst card_Un_disjoint) auto
  ultimately have c: "card (dom (map_of h) \<inter> set (f # fs)) = (if map_of h f = None then 0 else 1) + card (dom (map_of ?h) \<inter> set fs)"
    using ok(2) by simp
  have r: "map_of ?h |` (- set fs) = map_of h |` (- set (f # fs))" unfolding ok(2) by (auto simp: restrict_map_def fun_eq_iff)
  obtain h' where "hdel_loop ?h fs (n + snd (hash_Del h f)) = (h', n + snd (hash_Del h f) + int (card (dom (map_of ?h) \<inter> set fs)))"
      "gm_ok h'" "map_of h' = map_of ?h |` (- set fs)"
    using Cons.IH [OF ok(1), of "n + snd (hash_Del h f)"] by blast
  then show ?case unfolding r using c
    by (intro exI [of _ h']) (simp add: case_prod_beta Let_def hash_Del_count del: map_of_delete)
qed (auto simp: restrict_map_def)

lemma hset_fold: "gm_ok h \<Longrightarrow> gm_ok (fold (\<lambda>(f, v) h. hash_Set h f v) kvs h)
    \<and> map_of (fold (\<lambda>(f, v) h. hash_Set h f v) kvs h) = map_of h ++ map_of (rev kvs)"
proof (induction kvs arbitrary: h)
  case (Cons kv kvs)
  obtain f v where kv: "kv = (f, v)" by (cases kv)
  have "gm_ok (hash_Set h f v)" "map_of (hash_Set h f v) = (map_of h)(f \<mapsto> v)"
    using hash.inv_put hash.get_put Cons.prems by blast+
  then show ?case using Cons.IH [of "hash_Set h f v"] by (simp add: kv map_add_def fun_eq_iff split: option.split)
qed simp

lemma lower_hash_names:
  "lower e ''hset'' = ''hset''" "lower e ''hsetnx'' = ''hsetnx''" "lower e ''hdel'' = ''hdel''" "lower e ''hget'' = ''hget''"
  "lower e ''hexists'' = ''hexists''" "lower e ''hlen'' = ''hlen''" "lower e ''hstrlen'' = ''hstrlen''" "lower e ''hincrby'' = ''hincrby''"
  by (simp_all add: ToLower_eval)

abbreviation hash_step :: "MemDb \<Rightarrow> string \<Rightarrow> result \<Rightarrow> (string \<rightharpoonup> slice) \<times> RedisData \<Rightarrow> bool" where
  "hash_step m k r s \<equiv> \<exists>m'. r = reply m' (snd s) \<and> db_ok m' \<and> hash_slot m' k (fst s) \<and> only_key k m m'"

lemma length_hset_args [simp]: "length (concat (map (\<lambda>(f, v). [Some f, v]) kvs)) = 2 * length kvs"
  by (induction kvs) auto

lemma hset_step:
  assumes "db_ok m" and "hash_slot m k H" and "kvs \<noteq> []"
  shows "hash_step m k (hash_exec e m k (HSET kvs)) (hash_spec (HSET kvs) H)"
proof -
  have c: "CheckTTL e m k = (m, True)" using assms(2) by (simp add: hash_slot_def CheckTTL_no_expiry)
  obtain m1 h where h: "get_or_new_hash m k = (m1, VHash h)" "gm_ok h" "map_of h = H"
      "\<forall>h'. gm_ok h' \<longrightarrow> h' \<noteq> [] \<longrightarrow> db_ok (db_put m1 k (VHash h')) \<and> hash_slot (db_put m1 k (VHash h')) k (map_of h')
        \<and> only_key k m (db_put m1 k (VHash h'))"
    by (rule get_or_new_slot [OF assms(1,2)])
  let ?h = "fold (\<lambda>(f, v) h. hash_Set h f v) kvs h"
  have f: "gm_ok ?h" "map_of ?h = H ++ map_of (rev kvs)" using hset_fold [OF h(2), of kvs] h(3) by simp_all
  have "dom (map_of ?h) \<noteq> {}" unfolding f(2) using assms(3) by (simp add: dom_map_of_conv_image_fst)
  then have "?h \<noteq> []" by (intro notI) simp
  note put = h(4) [rule_format, OF f(1) this, unfolded f(2)]
  have "hash_exec e m k (HSET kvs) = reply (db_put m1 k (VHash ?h)) (StringData ''OK'')"
    using h(1) c assms(3) by (simp add: hSetHash_def lower_hash_names pairs_concat)
  then show ?thesis using put by auto
qed

lemma hsetnx_step:
  assumes "db_ok m" and "hash_slot m k H"
  shows "hash_step m k (hash_exec e m k (HSETNX f v)) (hash_spec (HSETNX f v) H)"
proof -
  have c: "CheckTTL e m k = (m, True)" using assms(2) by (simp add: hash_slot_def CheckTTL_no_expiry)
  obtain m1 h where h: "get_or_new_hash m k = (m1, VHash h)" "gm_ok h" "map_of h = H"
      "\<forall>h'. gm_ok h' \<longrightarrow> h' \<noteq> [] \<longrightarrow> db_ok (db_put m1 k (VHash h')) \<and> hash_slot (db_put m1 k (VHash h')) k (map_of h')
        \<and> only_key k m (db_put m1 k (VHash h'))" "h \<noteq> [] \<longrightarrow> m1 = m"
    by (rule get_or_new_slot [OF assms(1,2)])
  have f: "gm_ok (hash_Set h f v)" "map_of (hash_Set h f v) = H(f \<mapsto> v)" "hash_Set h f v \<noteq> []"
    using hash.inv_put [OF h(2)] hash.get_put [OF h(2)] h(3) by (auto simp: hash_Set_def)
  show ?thesis
  proof (cases "H f")
    case None
    then have "hash_exec e m k (HSETNX f v) = reply (db_put m1 k (VHash (hash_Set h f v))) (IntData 1)"
      using h(1,3) c by (simp add: hSetNxHash_def lower_hash_names hash_Exist_def)
    then show ?thesis using None h(4) [rule_format, OF f(1,3), unfolded f(2)] by auto
  next
    case (Some w)
    then have "m1 = m" using h(3,5) by auto
    then have "hash_exec e m k (HSETNX f v) = reply m (IntData 0)"
      using Some h(1,3) c by (simp add: hSetNxHash_def lower_hash_names hash_Exist_def)
    then show ?thesis using Some assms only_key_refl by auto
  qed
qed

lemma hincrby_step:
  assumes "db_ok m" and "hash_slot m k H" and "in64 n"
  shows "hash_step m k (hash_exec e m k (HINCRBY f n)) (hash_spec (HINCRBY f n) H)"
proof -
  have c: "CheckTTL e m k = (m, True)" using assms(2) by (simp add: hash_slot_def CheckTTL_no_expiry)
  obtain m1 h where h: "get_or_new_hash m k = (m1, VHash h)" "gm_ok h" "map_of h = H"
      "\<forall>h'. gm_ok h' \<longrightarrow> h' \<noteq> [] \<longrightarrow> db_ok (db_put m1 k (VHash h')) \<and> hash_slot (db_put m1 k (VHash h')) k (map_of h')
        \<and> only_key k m (db_put m1 k (VHash h'))"
    by (rule get_or_new_slot [OF assms(1,2)])
  let ?old = "case H f of None \<Rightarrow> [] | Some v \<Rightarrow> str v"
  have old: "str (hash_Get h f) = ?old" using h(3) by (auto simp: hash_Get_def split: option.split)
  have put: "gm_ok (hash_Set h f v)" "map_of (hash_Set h f v) = H(f \<mapsto> v)" "hash_Set h f v \<noteq> []" for v
    using hash.inv_put [OF h(2)] hash.get_put [OF h(2)] h(3) by (auto simp: hash_Set_def)
  have run: "hash_exec e m k (HINCRBY f n) = (let (h', res, ok) = hash_IncrBy h f n
      in if \<not> ok then reply (db_put m1 k (VHash h')) (ErrorData ''value is not an integer'') else reply (db_put m1 k (VHash h')) (IntData res))"
    using h(1) c assms(3) by (simp add: hIncrByHash_def lower_hash_names Let_def case_prod_beta)
  consider "?old = []" | "?old \<noteq> []" "ParseInt ?old = None" | i where "?old \<noteq> []" "ParseInt ?old = Some i" by auto
  then show ?thesis
  proof cases
    case 1
    then show ?thesis unfolding run using old h(4) [rule_format, OF put(1,3), of "Some (FormatInt n)"] put(2) [of "Some (FormatInt n)"]
      by (simp add: hash_IncrBy_def Let_def)
  next
    case 2
    then have "h \<noteq> []" using old by (auto simp: hash_Get_def)
    then show ?thesis unfolding run using 2 old h(3) h(4) [rule_format, OF h(2)] by (simp add: hash_IncrBy_def Let_def)
  next
    case 3
    let ?v = "Some (FormatInt (wrap64 (i + n)))"
    show ?thesis unfolding run using 3 old h(4) [rule_format, OF put(1,3), of ?v] put(2) [of ?v] by (simp add: hash_IncrBy_def Let_def)
  qed
qed

lemma hdel_step:
  assumes "db_ok m" and "hash_slot m k H" and "fs \<noteq> []"
  shows "hash_step m k (hash_exec e m k (HDEL fs)) (hash_spec (HDEL fs) H)"
  using assms(2)
proof (cases rule: hash_slot_cases)
  case absent
  then show ?thesis using assms by (simp add: hDelHash_def lower_hash_names only_key_refl)
next
  case (present h)
  obtain h' where h': "hdel_loop h fs 0 = (h', int (card (dom H \<inter> set fs)))" "gm_ok h'" "map_of h' = H |` (- set fs)"
    using hdel_loop_correct [OF present(2), of fs 0] present(3) by auto
  show ?thesis
  proof (cases "h' = []")
    case True
    obtain m' where "drop_key (db_put m k (VHash [])) k = Some m'" "db_ok m'" "cm_Get (db m') k = None" "expiry m' k = None" "only_key k m m'"
      by (rule drop_key_only [OF assms(1)])
    then show ?thesis using True h' present(1) assms(3)
      by (intro exI [of _ m']) (simp add: hDelHash_def lower_hash_names hash_IsEmpty_def hash_slot_def)
  next
    case False
    then have "map_of h' \<noteq> Map.empty" by (simp add: map_of_eq_empty_iff)
    then show ?thesis using False h' present(1,5) assms(3) db_ok_put [OF assms(1)] db_okD(1) [OF assms(1)] only_key_put [OF assms(1)]
      by (simp add: hDelHash_def lower_hash_names hash_IsEmpty_def hash_slot_def)
  qed
qed

lemma hash_reads_step:
  assumes "db_ok m" and "hash_slot m k H"
  shows "hash_step m k (hash_exec e m k (HGET f)) (hash_spec (HGET f) H)"
    and "hash_step m k (hash_exec e m k (HEXISTS f)) (hash_spec (HEXISTS f) H)"
    and "hash_step m k (hash_exec e m k HLEN) (hash_spec HLEN H)"
    and "hash_step m k (hash_exec e m k (HSTRLEN f)) (hash_spec (HSTRLEN f) H)"
proof -
  have c: "CheckTTL e m k = (m, True)" using assms(2) by (simp add: hash_slot_def CheckTTL_no_expiry)
  have "read_hash e m k miss found = reply m r" if "H = Map.empty \<Longrightarrow> miss = r" "\<And>h. gm_ok h \<Longrightarrow> map_of h = H \<Longrightarrow> found h = Some r" for miss found r
    using assms(2) by (cases rule: hash_slot_cases) (use that c in \<open>auto simp: read_hash_def\<close>)
  note read = this
  have fin: "hash_step m k (reply m r) (H, r)" for r using assms by (simp add: only_key_refl)
  have "hash_exec e m k (HGET f) = reply m (snd (hash_spec (HGET f) H))"
    using read [of "BulkData None" "snd (hash_spec (HGET f) H)" "\<lambda>h. Some (field_reply h f)"]
    by (auto simp: hGetHash_def lower_hash_names field_reply_def hash_Get_def Let_def split: option.split)
  then show "hash_step m k (hash_exec e m k (HGET f)) (hash_spec (HGET f) H)" using fin by auto
  have "hash_exec e m k (HEXISTS f) = reply m (snd (hash_spec (HEXISTS f) H))"
    using read [of "IntData 0" "snd (hash_spec (HEXISTS f) H)" "\<lambda>h. Some (IntData (if hash_Exist h f then 1 else 0))"]
    by (auto simp: hExistsHash_def lower_hash_names hash_Exist_def)
  then show "hash_step m k (hash_exec e m k (HEXISTS f)) (hash_spec (HEXISTS f) H)" using fin by auto
  have "hash_exec e m k HLEN = reply m (snd (hash_spec HLEN H))"
    using read [of "IntData 0" "snd (hash_spec HLEN H)" "\<lambda>h. Some (IntData (hash_Len h))"] hash.len_card
    by (auto simp: hLenHash_def lower_hash_names)
  then show "hash_step m k (hash_exec e m k HLEN) (hash_spec HLEN H)" using fin by auto
  have "hash_exec e m k (HSTRLEN f) = reply m (snd (hash_spec (HSTRLEN f) H))"
    using read [of "IntData 0" "snd (hash_spec (HSTRLEN f) H)" "\<lambda>h. Some (IntData (hash_StrLen h f))"]
    by (auto simp: hStrLenHash_def lower_hash_names hash_StrLen_def hash_Get_def split: option.split)
  then show "hash_step m k (hash_exec e m k (HSTRLEN f)) (hash_spec (HSTRLEN f) H)" using fin by auto
qed

interpretation ho: key_object hash_slot hash_spec hash_valid hash_exec
proof
  fix m e k H op
  assume "db_ok m" "iter_ok e" "hash_slot m k H" "hash_valid op"
  then show "hash_step m k (hash_exec e m k op) (hash_spec op H)"
    by (cases op) (simp_all add: hset_step hsetnx_step hincrby_step hdel_step hash_reads_step del: hash_exec.simps hash_spec.simps)
next
  fix m m' k H
  assume "hash_slot m k H" "cm_Get (db m') k = cm_Get (db m) k" "expiry m' k = expiry m k"
  then show "hash_slot m' k H" by (simp add: hash_slot_def)
qed

section \<open>What follows for clients\<close>

text \<open>
  C12. Refinement of the hash commands: any sequence of HSET, HSETNX, HDEL, HGET, HEXISTS, HLEN,
  HSTRLEN and HINCRBY on any keys is answered as by independent finite maps, one for each key;
  HINCRBY adds modulo \<open>2 ^ 64\<close> and refuses a field that holds no integer without changing it.
\<close>

theorem hash_commands_refine:
  assumes "db_ok m" and "\<And>i. iter_ok (es i)" and "\<forall>k \<in> ks. hash_slot m k (s k)"
    and "\<forall>(k, op) \<in> set ops. k \<in> ks \<and> hash_valid op"
  shows "\<exists>m'. exec_run hash_exec es n m ops = Some (m', snd (spec_run hash_spec ops s)) \<and> db_ok m'
     \<and> (\<forall>k \<in> ks. hash_slot m' k (fst (spec_run hash_spec ops s) k))"
  by (rule ho.simulation) (use assms in auto)

theorem hash_commands_refine_witness:
  "\<exists>m'. exec_run hash_exec (\<lambda>i. env_at (int i)) 0 (NewMemDb 1)
       [(''a'', HSET [(''f'', Some ''v''), (''g'', Some [])]), (''a'', HSETNX ''f'' None), (''a'', HGET ''g''), (''b'', HINCRBY ''n'' 4), (''a'', HLEN)] =
     Some (m', [StringData ''OK'', IntData 0, BulkData None, IntData 4, IntData 2])"
proof -
  have "hash_slot (NewMemDb 1) k Map.empty" for k by (simp add: hash_slot_def expiry_def NewMemDb_def)
  then show ?thesis
    using hash_commands_refine [of "NewMemDb 1" "\<lambda>i. env_at (int i)" UNIV "\<lambda>_. Map.empty"
       "[(''a'', HSET [(''f'', Some ''v''), (''g'', Some [])]), (''a'', HSETNX ''f'' None), (''a'', HGET ''g''), (''b'', HINCRBY ''n'' 4), (''a'', HLEN)]" 0]
    by (auto simp: in64_def)
qed

end
