(* ===== verification/Typed_Keys.thy ===== *)
theory Typed_Keys
  imports List_Object Set_Object Hash_Object
begin

text \<open>
  The types of keys: a key holds a value of one type, and the commands on lists, sets and hashes
  (\<open>src/memdb/list.go\<close>, \<open>sets.go\<close>, \<open>hash.go\<close>) refuse a key of another type.
\<close>

section \<open>Types of values\<close>

fun is_list :: "dbvalue \<Rightarrow> bool" where
  "is_list (VList l) \<longleftrightarrow> True"
| "is_list _ \<longleftrightarrow> False"

fun is_set :: "dbvalue \<Rightarrow> bool" where
  "is_set (VSet s) \<longleftrightarrow> True"
| "is_set _ \<longleftrightarrow> False"

fun is_hash :: "dbvalue \<Rightarrow> bool" where
  "is_hash (VHash h) \<longleftrightarrow> True"
| "is_hash _ \<longleftrightarrow> False"

lemmas list_handlers = lPushList_def rPushList_def lPopList_def rPopList_def lLenList_def lIndexList_def lRangeList_def
  lSetList_def lTrimList_def push_list_def get_or_new_list_def pop_list_def pop_count_def lower_list_names

lemmas set_handlers = sAddSet_def sRemSet_def sCardSet_def sIsMemberSet_def get_or_new_def lower_set_names

lemmas hash_handlers = hSetHash_def hSetNxHash_def hDelHash_def hGetHash_def hExistsHash_def hLenHash_def hStrLenHash_def
  hIncrByHash_def read_hash_def get_or_new_hash_def lower_hash_names

section \<open>Commands of another type\<close>

lemma list_wrong_type:
  assumes "cm_Get (db m) k = Some v" and "CheckTTL e m k = (m, True)" and "list_valid op" and "\<not> is_list v"
  shows "list_exec e m k op = Some (m, Some WRONGTYPE)"
  using assms by (cases op; cases v) (simp_all add: list_handlers)

lemma set_wrong_type:
  assumes "cm_Get (db m) k = Some v" and "CheckTTL e m k = (m, True)" and "set_valid op" and "\<not> is_set v"
  shows "set_exec e m k op = Some (m, Some WRONGTYPE)"
  using assms by (cases op; cases v) (simp_all add: set_handlers)

lemma hash_wrong_type:
  assumes "cm_Get (db m) k = Some v" and "CheckTTL e m k = (m, True)" and "hash_valid op" and "\<not> is_hash v"
  shows "hash_exec e m k op = Some (m, Some WRONGTYPE)"
  using assms by (cases op; cases v) (simp_all add: hash_handlers)


lemma list_right_type:
  assumes "cm_Get (db m) k = Some v" and "CheckTTL e m k = (m, True)" and "list_valid op" and "is_list v"
  shows "list_exec e m k op \<noteq> Some (m', Some WRONGTYPE)"
  using assms by (cases op; cases v) (auto simp: list_handlers finish_list_def MakeEmptyArrayData_def Let_def bind_eq_Some_conv split: option.splits if_splits)

lemma set_right_type:
  assumes "cm_Get (db m) k = Some v" and "CheckTTL e m k = (m, True)" and "set_valid op" and "is_set v"
  shows "set_exec e m k op \<noteq> Some (m', Some WRONGTYPE)"
  using assms by (cases op; cases v) (auto simp: set_handlers finish_set_def Let_def bind_eq_Some_conv split: option.splits if_splits prod.splits)

lemma hash_right_type:
  assumes "cm_Get (db m) k = Some v" and "CheckTTL e m k = (m, True)" and "hash_valid op" and "is_hash v"
  shows "hash_exec e m k op \<noteq> Some (m', Some WRONGTYPE)"
  using assms by (cases op; cases v) (auto simp: hash_handlers field_reply_def Let_def bind_eq_Some_conv split: option.splits if_splits prod.splits)

section \<open>Typed keys\<close>



end
