(* ===== verification/Map_Threads.thy ===== *)
theory Map_Threads
  imports Concurrent_Map
begin

text \<open>
  The concurrent map of \<open>src/memdb/concurrentmap.go\<close> as one finite map under any sequence of
  operations, and under goroutines whose calls of \<open>Set\<close> interleave: the lock of a shard
  protects its map, but not the counter that all shards share.
\<close>

section \<open>Sequences of operations\<close>

datatype 'v map_op = OSet string 'v | OSetIfExist string 'v | OSetIfNotExist string 'v | ODelete string | OClear

fun op_exec :: "'v map_op \<Rightarrow> 'v ConcurrentMap \<Rightarrow> 'v ConcurrentMap \<times> int" where
  "op_exec (OSet k v) m = cm_Set m k v"
| "op_exec (OSetIfExist k v) m = cm_SetIfExist m k v"
| "op_exec (OSetIfNotExist k v) m = cm_SetIfNotExist m k v"
| "op_exec (ODelete k) m = cm_Delete m k"
| "op_exec OClear m = (cm_Clear m, 0)"

text \<open>What the operations promise of a finite map, and the number they return.\<close>

fun op_spec :: "'v map_op \<Rightarrow> (string \<rightharpoonup> 'v) \<Rightarrow> (string \<rightharpoonup> 'v) \<times> int" where
  "op_spec (OSet k v) f = (f(k \<mapsto> v), if k \<in> dom f then 0 else 1)"
| "op_spec (OSetIfExist k v) f = (if k \<in> dom f then (f(k \<mapsto> v), 1) else (f, 0))"
| "op_spec (OSetIfNotExist k v) f = (if k \<in> dom f then (f, 0) else (f(k \<mapsto> v), 1))"
| "op_spec (ODelete k) f = (f(k := None), if k \<in> dom f then 1 else 0)"
| "op_spec OClear f = (Map.empty, 0)"

fun run_ops :: "('o \<Rightarrow> 's \<Rightarrow> 's \<times> int) \<Rightarrow> 'o list \<Rightarrow> 's \<Rightarrow> 's \<times> int list" where
  "run_ops x [] s = (s, [])"
| "run_ops x (p # ps) s = (let (s, n) = x p s; (s, ns) = run_ops x ps s in (s, n # ns))"

lemma op_exec_step:
  assumes "cm_ok m"
  shows "cm_ok (fst (op_exec p m)) \<and> op_spec p (cm_Get m) = (cm_Get (fst (op_exec p m)), snd (op_exec p m))"
  using assms
  by (cases p) (auto simp: cm_SetIfNotExist_eq cm_SetIfExist_eq cm_Clear_correct domIff fun_upd_idem)

lemma run_ops_exec:
  "cm_ok m \<Longrightarrow> cm_ok (fst (run_ops op_exec ps m))
     \<and> run_ops op_spec ps (cm_Get m) = (cm_Get (fst (run_ops op_exec ps m)), snd (run_ops op_exec ps m))"
proof (induction ps arbitrary: m)
  case (Cons p ps)
  obtain m' n where x: "op_exec p m = (m', n)" by (cases "op_exec p m")
  then have "cm_ok m'" "op_spec p (cm_Get m) = (cm_Get m', n)" using op_exec_step [OF Cons.prems, of p] by auto
  then show ?case using Cons.IH [of m'] by (cases "run_ops op_exec ps m'") (simp add: x)
qed simp

text \<open>
  C9. The sharded map is a finite map. Whatever sequence of \<open>Set\<close>, \<open>SetIfExist\<close>,
  \<open>SetIfNotExist\<close>, \<open>Delete\<close> and \<open>Clear\<close> runs on a new map, and whatever its number of shards,
  every call returns what it would return on one finite map, \<open>Get\<close> reads that map, \<open>Len\<close> is
  the number of its keys, \<open>Keys\<close> lists each key once and \<open>KeyVals\<close> is the whole map.
\<close>

theorem concurrent_map_refines:
  assumes "run_ops op_exec ps (NewConcurrentMap n) = (m, rs)" and "iter_ok e"
  shows "run_ops op_spec ps Map.empty = (cm_Get m, rs)
    \<and> cm_Len m = int (card (dom (cm_Get m)))
    \<and> (\<exists>ks. cm_Keys e m = Some ks \<and> distinct ks \<and> set ks = dom (cm_Get m))
    \<and> map_of (cm_KeyVals m) = cm_Get m"
proof -
  have ok: "cm_ok m" and r: "run_ops op_spec ps Map.empty = (cm_Get m, rs)"
    using run_ops_exec [OF cm_ok_New, of ps n] assms(1) by (simp_all add: cm_Get_New [abs_def])
  have "\<exists>ks. cm_Keys e m = Some ks \<and> distinct ks \<and> set ks = dom (cm_Get m)"
    using cm_Keys_correct [OF assms(2) ok] by metis
  then show ?thesis using r cm_Len_card [OF ok] cm_KeyVals_correct [OF ok] by blast
qed

theorem concurrent_map_refines_witness:
  "\<exists>m rs. run_ops op_exec [OSet ''a'' (1::nat), OSetIfNotExist ''a'' 2, OSet ''b'' 3, ODelete ''a''] (NewConcurrentMap 4) = (m, rs)
     \<and> iter_ok (env_at 0) \<and> cm_Get m = [''b'' \<mapsto> 3] \<and> rs = [1, 0, 1, 1]"
proof -
  obtain m rs where r: "run_ops op_exec [OSet ''a'' (1::nat), OSetIfNotExist ''a'' 2, OSet ''b'' 3, ODelete ''a''] (NewConcurrentMap 4) = (m, rs)"
    by (cases "run_ops op_exec [OSet ''a'' (1::nat), OSetIfNotExist ''a'' 2, OSet ''b'' 3, ODelete ''a''] (NewConcurrentMap 4)")
  show ?thesis
    using concurrent_map_refines [OF r iter_ok_env_at, THEN conjunct1] r
    by (intro exI [of _ m] exI [of _ rs] conjI) (auto simp: fun_eq_iff)
qed

section \<open>Goroutines that set keys\<close>

text \<open>
  \<open>Set\<close> as the goroutine \<open>t\<close> runs it: it takes the lock of the shard, looks the key up, and
  for a new key loads the counter and stores it incremented, which are two accesses to shared
  memory; then it writes the entry and gives the lock back. Locks of different shards are
  independent.
\<close>

datatype set_pc = Entering | Locked | Loaded int | Counted | Returned

definition in_shard :: "set_pc \<Rightarrow> bool" where
  "in_shard p \<longleftrightarrow> p \<noteq> Entering \<and> p \<noteq> Returned"

definition write_shard :: "'v ConcurrentMap \<Rightarrow> string \<times> 'v \<Rightarrow> 'v ConcurrentMap" where
  "write_shard m kv = put_shard m (fst kv) (AList.update (fst kv) (snd kv) (cm_getShard m (fst kv)))"

inductive set_step :: "(string \<times> 'v) list \<Rightarrow> 'v ConcurrentMap \<times> set_pc list \<Rightarrow> 'v ConcurrentMap \<times> set_pc list \<Rightarrow> bool"
  for ops :: "(string \<times> 'v) list" where
  locks: "t < length ps \<Longrightarrow> ps ! t = Entering \<Longrightarrow>
    \<forall>u < length ps. in_shard (ps ! u) \<longrightarrow> cm_getKeyPos m (fst (ops ! u)) \<noteq> cm_getKeyPos m (fst (ops ! t)) \<Longrightarrow>
    set_step ops (m, ps) (m, ps[t := Locked])"
| loads: "t < length ps \<Longrightarrow> ps ! t = Locked \<Longrightarrow> cm_Get m (fst (ops ! t)) = None \<Longrightarrow>
    set_step ops (m, ps) (m, ps[t := Loaded (cm_count m)])"
| present: "t < length ps \<Longrightarrow> ps ! t = Locked \<Longrightarrow> cm_Get m (fst (ops ! t)) \<noteq> None \<Longrightarrow>
    set_step ops (m, ps) (m, ps[t := Counted])"
| stores: "t < length ps \<Longrightarrow> ps ! t = Loaded c \<Longrightarrow>
    set_step ops (m, ps) (m\<lparr>cm_count := c + 1\<rparr>, ps[t := Counted])"
| writes: "t < length ps \<Longrightarrow> ps ! t = Counted \<Longrightarrow>
    set_step ops (m, ps) (write_shard m (ops ! t), ps[t := Returned])"

abbreviation set_reach :: "(string \<times> 'v) list \<Rightarrow> 'v ConcurrentMap \<times> set_pc list \<Rightarrow> 'v ConcurrentMap \<times> set_pc list \<Rightarrow> bool" where
  "set_reach ops \<equiv> (set_step ops)\<^sup>*\<^sup>*"

definition entering :: "(string \<times> 'v) list \<Rightarrow> set_pc list" where
  "entering ops = replicate (length ops) Entering"

definition returned :: "(string \<times> 'v) list \<Rightarrow> set_pc list" where
  "returned ops = replicate (length ops) Returned"

text \<open>The map with the counter it should have.\<close>

definition recounted :: "'v ConcurrentMap \<Rightarrow> 'v ConcurrentMap" where
  "recounted m = m\<lparr>cm_count := int (sum_list (map length (table m)))\<rparr>"

lemma count_irrelevant [simp]:
  "cm_Get (m\<lparr>cm_count := c\<rparr>) = cm_Get m" "cm_getShard (m\<lparr>cm_count := c\<rparr>) = cm_getShard m"
  "cm_getKeyPos (m\<lparr>cm_count := c\<rparr>) = cm_getKeyPos m" "recounted (m\<lparr>cm_count := c\<rparr>) = recounted m"
  by (simp_all add: fun_eq_iff cm_Get_def cm_getShard_def cm_getKeyPos_def recounted_def)

lemma recounted_reads [simp]:
  "cm_Get (recounted m) = cm_Get m" "cm_getShard (recounted m) = cm_getShard m" "cm_size (recounted m) = cm_size m"
  by (simp_all add: recounted_def)

lemma recounted_ok: "cm_ok m \<Longrightarrow> recounted m = m"
  by (simp add: recounted_def cm_ok_def)

lemma recounted_write:
  assumes "cm_ok (recounted m)"
  shows "recounted (write_shard m kv) = cm_put (recounted m) (fst kv) (snd kv)"
proof -
  have "cm_put (recounted m) (fst kv) (snd kv) = (write_shard m kv)\<lparr>cm_count := cm_count (cm_put (recounted m) (fst kv) (snd kv))\<rparr>"
    unfolding cm_Set_eq by (simp add: write_shard_def) (simp add: recounted_def)
  then have "recounted (cm_put (recounted m) (fst kv) (snd kv)) = recounted (write_shard m kv)" by (metis count_irrelevant(4))
  then show ?thesis using recounted_ok [OF cm_ok_Set [OF assms]] by simp
qed

lemma write_shard_simps [simp]:
  "cm_count (write_shard m kv) = cm_count m" "cm_size (write_shard m kv) = cm_size m"
  "cm_getKeyPos (write_shard m kv) = cm_getKeyPos m"
  by (simp_all add: write_shard_def put_shard_def cm_getKeyPos_def fun_eq_iff)

lemma cm_Get_write: "cm_ok (recounted m) \<Longrightarrow> cm_Get (write_shard m kv) = (cm_Get m)(fst kv \<mapsto> snd kv)"
  using recounted_write [of m kv] cm_Get_Set [of "recounted m" "fst kv" "snd kv"] by (metis recounted_reads(1))

text \<open>
  The invariant of the goroutines: the shards are well formed, two goroutines in the same
  shard are the same, and a key has a value that a goroutine which returned gave it, or the
  value it had.
\<close>

definition exclusive :: "(string \<times> 'v) list \<Rightarrow> 'v ConcurrentMap \<Rightarrow> set_pc list \<Rightarrow> bool" where
  "exclusive ops m ps \<longleftrightarrow> (\<forall>t < length ps. \<forall>u < length ps. in_shard (ps ! t) \<longrightarrow> in_shard (ps ! u) \<longrightarrow>
     cm_getKeyPos m (fst (ops ! t)) = cm_getKeyPos m (fst (ops ! u)) \<longrightarrow> t = u)"

definition wrote :: "(string \<times> 'v) list \<Rightarrow> set_pc list \<Rightarrow> (string \<times> 'v) set" where
  "wrote ops ps = {ops ! t | t. t < length ps \<and> ps ! t = Returned}"

definition contents :: "(string \<times> 'v) set \<Rightarrow> (string \<rightharpoonup> 'v) \<Rightarrow> (string \<rightharpoonup> 'v) \<Rightarrow> bool" where
  "contents w f0 f \<longleftrightarrow> (\<forall>k. if k \<in> fst ` w then \<exists>v. f k = Some v \<and> (k, v) \<in> w else f k = f0 k)"

lemma contents_write: "contents w f0 f \<Longrightarrow> contents ({(k, v)} \<union> w) f0 (f(k \<mapsto> v))"
  by (auto simp: contents_def split: if_splits)

definition threads_ok :: "(string \<times> 'v) list \<Rightarrow> 'v ConcurrentMap \<Rightarrow> 'v ConcurrentMap \<times> set_pc list \<Rightarrow> bool" where
  "threads_ok ops m0 s \<longleftrightarrow> (case s of (m, ps) \<Rightarrow>
     length ps = length ops \<and> cm_ok (recounted m) \<and> cm_getKeyPos m = cm_getKeyPos m0 \<and> exclusive ops m ps
     \<and> contents (wrote ops ps) (cm_Get m0) (cm_Get m))"

lemma nth_update_at: "j < length xs \<Longrightarrow> xs[i := x] ! j = (if i = j then x else xs ! j)"
  by (cases "i = j") simp_all

lemma exclusive_enter:
  assumes "exclusive ops m ps" and "\<forall>u < length ps. in_shard (ps ! u) \<longrightarrow> cm_getKeyPos m (fst (ops ! u)) \<noteq> cm_getKeyPos m (fst (ops ! t))"
  shows "exclusive ops m (ps[t := p])"
  using assms unfolding exclusive_def by (metis length_list_update nth_update_at)

lemma exclusive_stay: "exclusive ops m ps \<Longrightarrow> in_shard (ps ! t) \<Longrightarrow> exclusive ops m (ps[t := p])"
  unfolding exclusive_def by (metis length_list_update nth_update_at)

lemma exclusive_same: "cm_getKeyPos m' = cm_getKeyPos m \<Longrightarrow> exclusive ops m' ps = exclusive ops m ps"
  by (simp add: exclusive_def)

lemma wrote_stay: "t < length ps \<Longrightarrow> ps ! t \<noteq> Returned \<Longrightarrow> p \<noteq> Returned \<Longrightarrow> wrote ops (ps[t := p]) = wrote ops ps"
  by (auto simp: wrote_def nth_list_update)

lemma wrote_return: "t < length ps \<Longrightarrow> wrote ops (ps[t := Returned]) = {ops ! t} \<union> wrote ops ps"
  by (auto simp: wrote_def nth_list_update)

lemma threads_ok_step:
  assumes "set_step ops s s'" and "threads_ok ops m0 s"
  shows "threads_ok ops m0 s'"
  using assms(1)
proof cases
  case (locks t ps m)
  then show ?thesis using assms(2) by (simp add: threads_ok_def exclusive_enter wrote_stay)
next
  case (loads t ps m)
  then show ?thesis using assms(2) by (simp add: threads_ok_def exclusive_stay wrote_stay in_shard_def)
next
  case (present t ps m)
  then show ?thesis using assms(2) by (simp add: threads_ok_def exclusive_stay wrote_stay in_shard_def)
next
  case (stores t ps c m)
  then show ?thesis
    using assms(2) by (simp add: threads_ok_def exclusive_stay wrote_stay in_shard_def exclusive_same [of "m\<lparr>cm_count := c + 1\<rparr>" m])
next
  case (writes t ps m)
  obtain k v where kv: "ops ! t = (k, v)" by (cases "ops ! t")
  have m: "cm_ok (recounted m)" "cm_Get (write_shard m (k, v)) = (cm_Get m)(k \<mapsto> v)"
    using assms(2) writes(1) cm_Get_write [of m "(k, v)"] by (simp_all add: threads_ok_def)
  have "exclusive ops (write_shard m (k, v)) (ps[t := Returned])"
    using assms(2) writes exclusive_same [of "write_shard m (k, v)" m ops] by (simp add: threads_ok_def exclusive_stay in_shard_def)
  moreover have "contents (wrote ops (ps[t := Returned])) (cm_Get m0) (cm_Get (write_shard m (k, v)))"
    using assms(2) writes(1) unfolding m(2) wrote_return [OF writes(3)] kv by (intro contents_write) (simp add: threads_ok_def)
  ultimately show ?thesis using assms(2) writes kv m by (simp add: threads_ok_def recounted_write)
qed

text \<open>While at most one goroutine is in a shard, the counter is right up to the entry it is about to write.\<close>

definition counted_ok :: "(string \<times> 'v) list \<Rightarrow> 'v ConcurrentMap \<times> set_pc list \<Rightarrow> bool" where
  "counted_ok ops s \<longleftrightarrow> (case s of (m, ps) \<Rightarrow>
     (\<forall>t < length ps. \<forall>c. ps ! t = Loaded c \<longrightarrow> cm_Get m (fst (ops ! t)) = None \<and> c = cm_count m)
     \<and> cm_count m = cm_count (recounted m)
         + (if \<exists>t < length ps. ps ! t = Counted \<and> cm_Get m (fst (ops ! t)) = None then 1 else 0))"

definition one_inside :: "set_pc list \<Rightarrow> bool" where
  "one_inside ps \<longleftrightarrow> (\<forall>t < length ps. \<forall>u < length ps. in_shard (ps ! t) \<longrightarrow> in_shard (ps ! u) \<longrightarrow> t = u)"

lemma one_insideD: "one_inside ps \<Longrightarrow> t < length ps \<Longrightarrow> in_shard (ps ! t) \<Longrightarrow> u < length ps \<Longrightarrow> u \<noteq> t \<Longrightarrow> \<not> in_shard (ps ! u)"
  by (auto simp: one_inside_def)

lemma counted_alone:
  assumes "one_inside ps" and "t < length ps" and "in_shard (ps ! t)"
  shows "counted_ok ops (m, ps) \<longleftrightarrow>
    (\<forall>c. ps ! t = Loaded c \<longrightarrow> cm_Get m (fst (ops ! t)) = None \<and> c = cm_count m)
    \<and> cm_count m = cm_count (recounted m) + (if ps ! t = Counted \<and> cm_Get m (fst (ops ! t)) = None then 1 else 0)"
proof -
  have "u = t" if "u < length ps" "ps ! u = Counted \<or> ps ! u = Loaded c" for u c
    using one_insideD [OF assms that(1)] that(2) by (cases "u = t") (auto simp: in_shard_def)
  then have "(\<exists>u < length ps. ps ! u = Counted \<and> P u) \<longleftrightarrow> ps ! t = Counted \<and> P t"
      "(\<forall>u < length ps. \<forall>c. ps ! u = Loaded c \<longrightarrow> Q u c) \<longleftrightarrow> (\<forall>c. ps ! t = Loaded c \<longrightarrow> Q t c)" for P Q
    using assms(2) by blast+
  then show ?thesis by (simp add: counted_ok_def)
qed

lemma counted_none: "\<forall>u < length ps. \<not> in_shard (ps ! u) \<Longrightarrow> counted_ok ops (m, ps) \<longleftrightarrow> cm_count m = cm_count (recounted m)"
  by (auto simp: counted_ok_def in_shard_def)

lemma nobody_inside:
  assumes "one_inside (ps[t := p])" and "t < length ps" and "in_shard p" and "\<not> in_shard q"
  shows "\<forall>u < length ps. \<not> in_shard (ps[t := q] ! u)"
  using one_insideD [OF assms(1), of t] assms(2-) by (auto simp: nth_update_at)

lemma counted_ok_step:
  assumes "set_step ops s s'" and "counted_ok ops s" and "one_inside (snd s)" and "one_inside (snd s')" and "cm_ok (recounted (fst s))"
  shows "counted_ok ops s'"
  using assms(1)
proof cases
  case (locks t ps m)
  have "\<forall>u < length ps. \<not> in_shard (ps ! u)"
    using nobody_inside [of ps t Locked Entering] assms(4) locks by (simp add: in_shard_def list_update_same_conv [THEN iffD2])
  then show ?thesis
    using assms(2,4) locks counted_none [of ps ops m] counted_alone [of "ps[t := Locked]" t ops m] by (simp add: in_shard_def)
next
  case (loads t ps m)
  then show ?thesis
    using assms(2-4) counted_alone [of ps t ops m] counted_alone [of "ps[t := Loaded (cm_count m)]" t ops m] by (simp add: in_shard_def)
next
  case (present t ps m)
  then show ?thesis
    using assms(2-4) counted_alone [of ps t ops m] counted_alone [of "ps[t := Counted]" t ops m] by (simp add: in_shard_def)
next
  case (stores t ps c m)
  then show ?thesis
    using assms(2-4) counted_alone [of ps t ops m] counted_alone [of "ps[t := Counted]" t ops "m\<lparr>cm_count := c + 1\<rparr>"]
    by (simp add: in_shard_def)
next
  case (writes t ps m)
  have "\<forall>u < length (ps[t := Returned]). \<not> in_shard (ps[t := Returned] ! u)"
    using nobody_inside [of ps t Counted Returned] assms(3) writes by (simp add: in_shard_def list_update_same_conv [THEN iffD2])
  then show ?thesis
    using assms(2,3,5) writes counted_none [of "ps[t := Returned]" ops] counted_alone [of ps t ops m]
    by (simp add: in_shard_def recounted_write cm_Set_eq)
qed

lemma one_shard_inside:
  assumes "threads_ok ops m0 s" and "\<And>p q. p \<in> set ops \<Longrightarrow> q \<in> set ops \<Longrightarrow> cm_getKeyPos m0 (fst p) = cm_getKeyPos m0 (fst q)"
  shows "one_inside (snd s)"
  using assms by (cases s) (auto simp: threads_ok_def one_inside_def exclusive_def)

lemma threads_start: "cm_ok m0 \<Longrightarrow> threads_ok ops m0 (m0, entering ops) \<and> counted_ok ops (m0, entering ops)"
  by (auto simp: threads_ok_def counted_ok_def entering_def recounted_ok exclusive_def in_shard_def wrote_def contents_def)

lemma threads_reach:
  assumes "set_reach ops (m0, entering ops) s" and "cm_ok m0"
  shows "threads_ok ops m0 s"
    and "(\<And>p q. p \<in> set ops \<Longrightarrow> q \<in> set ops \<Longrightarrow> cm_getKeyPos m0 (fst p) = cm_getKeyPos m0 (fst q)) \<Longrightarrow> counted_ok ops s"
proof -
  have "threads_ok ops m0 s \<and>
    ((\<forall>p \<in> set ops. \<forall>q \<in> set ops. cm_getKeyPos m0 (fst p) = cm_getKeyPos m0 (fst q)) \<longrightarrow> counted_ok ops s)"
    using assms(1)
  proof (induction rule: rtranclp_induct)
    case base
    then show ?case using threads_start [OF assms(2)] by blast
  next
    case (step s s')
    have ok: "threads_ok ops m0 s" "threads_ok ops m0 s'" using step threads_ok_step by blast+
    then have "cm_ok (recounted (fst s))" by (cases s) (simp add: threads_ok_def)
    then show ?case
      using ok step.hyps(2) step.IH one_shard_inside [OF ok(1)] one_shard_inside [OF ok(2)] counted_ok_step by blast
  qed
  then show "threads_ok ops m0 s"
    "(\<And>p q. p \<in> set ops \<Longrightarrow> q \<in> set ops \<Longrightarrow> cm_getKeyPos m0 (fst p) = cm_getKeyPos m0 (fst q)) \<Longrightarrow> counted_ok ops s"
    by blast+
qed

lemma wrote_returned: "wrote ops (returned ops) = set ops"
  by (auto simp: wrote_def returned_def set_conv_nth)

text \<open>
  C10. Goroutines that call \<open>Set\<close> at the same time, in any interleaving, leave in the map for
  every key they set a value that one of them gave it, and every other key as it was. The
  number of keys is right as well when all their keys are in one shard, whose lock they share.
\<close>

theorem concurrent_sets:
  assumes "cm_ok m0" and "set_reach ops (m0, entering ops) (m, returned ops)"
  shows "(\<forall>k \<in> fst ` set ops. \<exists>v. cm_Get m k = Some v \<and> (k, v) \<in> set ops)
    \<and> (\<forall>k. k \<notin> fst ` set ops \<longrightarrow> cm_Get m k = cm_Get m0 k)
    \<and> ((\<forall>p \<in> set ops. \<forall>q \<in> set ops. cm_getKeyPos m0 (fst p) = cm_getKeyPos m0 (fst q)) \<longrightarrow> cm_Len m = int (card (dom (cm_Get m))))"
proof -
  have ok: "cm_ok (recounted m)" and c: "contents (set ops) (cm_Get m0) (cm_Get m)"
    using threads_reach(1) [OF assms(2,1)] by (simp_all add: threads_ok_def wrote_returned)
  have "cm_Len m = int (card (dom (cm_Get m)))"
    if "\<forall>p \<in> set ops. \<forall>q \<in> set ops. cm_getKeyPos m0 (fst p) = cm_getKeyPos m0 (fst q)"
  proof -
    have "counted_ok ops (m, returned ops)" using threads_reach(2) [OF assms(2,1)] that by blast
    then have "cm_count m = cm_count (recounted m)"
      using counted_none [of "returned ops" ops m] by (simp add: returned_def in_shard_def)
    then show ?thesis using cm_Len_card [OF ok] by (simp add: cm_Len_def)
  qed
  then show ?thesis using c unfolding contents_def by meson
qed

lemma set_alone:
  "set_reach [(k, v)] (m0, [Entering]) (cm_put m0 k v, [Returned])"
proof -
  let ?ops = "[(k, v)]"
  have 1: "set_step ?ops (m0, [Entering]) (m0, [Locked])"
    using set_step.locks [of 0 "[Entering]" m0 ?ops] by (simp add: in_shard_def)
  have 2: "set_step ?ops (m, [Counted]) (write_shard m (k, v), [Returned])" for m
    using set_step.writes [of 0 "[Counted]" ?ops m] by simp
  show ?thesis
  proof (cases "cm_Get m0 k = None")
    case True
    have "set_step ?ops (m0, [Locked]) (m0, [Loaded (cm_count m0)])"
      using set_step.loads [of 0 "[Locked]" m0 ?ops] True by simp
    moreover have "set_step ?ops (m0, [Loaded (cm_count m0)]) (m0\<lparr>cm_count := cm_count m0 + 1\<rparr>, [Counted])"
      using set_step.stores [of 0 "[Loaded (cm_count m0)]" "cm_count m0" ?ops m0] by simp
    moreover have "write_shard (m0\<lparr>cm_count := cm_count m0 + 1\<rparr>) (k, v) = cm_put m0 k v"
      using True by (simp add: write_shard_def cm_Set_eq)
    ultimately show ?thesis using 1 2 [of "m0\<lparr>cm_count := cm_count m0 + 1\<rparr>"] by (metis (no_types) converse_rtranclp_into_rtranclp r_into_rtranclp)
  next
    case False
    have "set_step ?ops (m0, [Locked]) (m0, [Counted])" using set_step.present [of 0 "[Locked]" m0 ?ops] False by simp
    moreover have "write_shard m0 (k, v) = cm_put m0 k v" using False by (simp add: write_shard_def cm_Set_eq)
    ultimately show ?thesis using 1 2 [of m0] by (metis (no_types) converse_rtranclp_into_rtranclp r_into_rtranclp)
  qed
qed

theorem concurrent_sets_witness:
  "cm_ok (NewConcurrentMap 16 :: string ConcurrentMap)
   \<and> set_reach [(''a'', ''x'')] (NewConcurrentMap 16, entering [(''a'', ''x'')]) (cm_put (NewConcurrentMap 16) ''a'' ''x'', returned [(''a'', ''x'')])
   \<and> cm_Len (cm_put (NewConcurrentMap 16) ''a'' ''x'') = int (card (dom (cm_Get (cm_put (NewConcurrentMap 16) ''a'' ''x''))))"
proof -
  have r: "set_reach [(''a'', ''x'')] (NewConcurrentMap 16, entering [(''a'', ''x'')]) (cm_put (NewConcurrentMap 16) ''a'' ''x'', returned [(''a'', ''x'')])"
    using set_alone [of "''a''" "''x''" "NewConcurrentMap 16"] by (simp add: entering_def returned_def)
  show ?thesis using concurrent_sets [OF cm_ok_New r] r by simp
qed

lemma cm_Keys_short:
  assumes "iter_ok e" and "cm_count m < cm_count (recounted m)"
  shows "cm_Keys e m = None"
proof -
  let ?ks = "concat (map (\<lambda>(j, sh). iter e j (map fst sh)) (enumerate 0 (table m)))"
  have "length ?ks = length (map fst (concat (table m)))" by (rule mset_eq_length [OF mset_iter_shards [OF assms(1)]])
  then have "int (length ?ks) = cm_count (recounted m)" by (simp add: recounted_def length_concat)
  then show ?thesis using assms(2) unfolding cm_Keys_def Let_def by simp
qed

text \<open>The interleaving of two goroutines in which both load the counter before one stores it.\<close>

lemma both_load:
  assumes "cm_Get m0 k = None" and "cm_Get m0 l = None" and "cm_getKeyPos m0 k \<noteq> cm_getKeyPos m0 l"
  shows "set_reach [(k, v), (l, w)] (m0, [Entering, Entering]) (m0, [Loaded (cm_count m0), Loaded (cm_count m0)])"
proof -
  let ?ops = "[(k, v), (l, w)]" and ?c = "cm_count m0"
  have 1: "set_step ?ops (m0, [Entering, Entering]) (m0, [Locked, Entering])"
    using set_step.locks [of 0 "[Entering, Entering]" m0 ?ops] by (auto simp: in_shard_def less_Suc_eq)
  have 2: "set_step ?ops (m0, [Locked, Entering]) (m0, [Locked, Locked])"
    using set_step.locks [of 1 "[Locked, Entering]" m0 ?ops] assms(3) by (auto simp: in_shard_def less_Suc_eq)
  have 3: "set_step ?ops (m0, [Locked, Locked]) (m0, [Loaded ?c, Locked])"
    using set_step.loads [of 0 "[Locked, Locked]" m0 ?ops] assms(1) by simp
  have 4: "set_step ?ops (m0, [Loaded ?c, Locked]) (m0, [Loaded ?c, Loaded ?c])"
    using set_step.loads [of 1 "[Loaded ?c, Locked]" m0 ?ops] assms(2) by simp
  show ?thesis by (rule rtranclp.rtrancl_into_rtrancl [OF rtranclp.rtrancl_into_rtrancl [OF rtranclp.rtrancl_into_rtrancl [OF r_into_rtranclp [of "set_step ?ops", OF 1] 2] 3] 4])
qed

lemma both_store:
  "set_reach [(k, v), (l, w)] (m0, [Loaded c, Loaded c])
     (write_shard (write_shard (m0\<lparr>cm_count := c + 1\<rparr>) (k, v)) (l, w), [Returned, Returned])"
proof -
  let ?ops = "[(k, v), (l, w)]" and ?m1 = "m0\<lparr>cm_count := c + 1\<rparr>"
  have 1: "set_step ?ops (m0, [Loaded c, Loaded c]) (?m1, [Counted, Loaded c])"
    using set_step.stores [of 0 "[Loaded c, Loaded c]" c ?ops m0] by simp
  have 2: "set_step ?ops (?m1, [Counted, Loaded c]) (?m1, [Counted, Counted])"
    using set_step.stores [of 1 "[Counted, Loaded c]" c ?ops ?m1] by simp
  have 3: "set_step ?ops (?m1, [Counted, Counted]) (write_shard ?m1 (k, v), [Returned, Counted])"
    using set_step.writes [of 0 "[Counted, Counted]" ?ops ?m1] by simp
  have 4: "set_step ?ops (write_shard ?m1 (k, v), [Returned, Counted]) (write_shard (write_shard ?m1 (k, v)) (l, w), [Returned, Returned])"
    using set_step.writes [of 1 "[Returned, Counted]" ?ops "write_shard ?m1 (k, v)"] by simp
  show ?thesis by (rule rtranclp.rtrancl_into_rtrancl [OF rtranclp.rtrancl_into_rtrancl [OF rtranclp.rtrancl_into_rtrancl [OF r_into_rtranclp [of "set_step ?ops", OF 1] 2] 3] 4])
qed

text \<open>
  C40. The counter is not protected: two goroutines that set new keys of different shards can
  both load the counter before either stores it. Then both keys are in the map but \<open>Len\<close> is
  one short, and \<open>Keys\<close> writes past the end of its slice and panics.
\<close>

theorem lost_count:
  assumes "cm_ok m0" and "cm_Get m0 k = None" and "cm_Get m0 l = None" and "cm_getKeyPos m0 k \<noteq> cm_getKeyPos m0 l"
    and "iter_ok e"
  shows "\<exists>m. set_reach [(k, v), (l, w)] (m0, [Entering, Entering]) (m, [Returned, Returned])
    \<and> cm_Get m = (cm_Get m0)(k \<mapsto> v, l \<mapsto> w) \<and> cm_Len m = int (card (dom (cm_Get m))) - 1 \<and> cm_Keys e m = None"
proof -
  let ?m1 = "m0\<lparr>cm_count := cm_count m0 + 1\<rparr>"
  let ?m2 = "write_shard ?m1 (k, v)"
  let ?m3 = "write_shard ?m2 (l, w)"
  have reach: "set_reach [(k, v), (l, w)] (m0, [Entering, Entering]) (?m3, [Returned, Returned])"
    using both_load [OF assms(2-4)] both_store by (rule rtranclp_trans)
  have "k \<noteq> l" using assms(4) by blast
  have ok: "cm_ok (recounted ?m1)" "recounted ?m1 = m0" using assms(1) by (simp_all add: recounted_ok)
  have ok2: "cm_ok (recounted ?m2)" "recounted ?m2 = cm_put m0 k v"
    using ok assms(1) recounted_write [OF ok(1), of "(k, v)"] by simp_all
  have rec: "recounted ?m3 = cm_put (cm_put m0 k v) l w" using recounted_write [OF ok2(1), of "(l, w)"] ok2(2) by simp
  have contents: "cm_Get ?m3 = (cm_Get m0)(k \<mapsto> v, l \<mapsto> w)"
    using cm_Get_write [OF ok2(1), of "(l, w)"] cm_Get_write [OF ok(1), of "(k, v)"] by simp
  have "cm_count (recounted ?m3) = cm_count m0 + 2"
    using assms \<open>k \<noteq> l\<close> unfolding rec by (simp add: cm_Set_eq [of "cm_put m0 k v"]) (simp add: cm_Set_eq)
  then have count: "cm_count ?m3 = cm_count (recounted ?m3) - 1" by simp
  have "cm_ok (recounted ?m3)" unfolding rec using assms(1) by simp
  then have "cm_Len ?m3 = int (card (dom (cm_Get ?m3))) - 1"
    using count cm_Len_card [of "recounted ?m3"] by (simp add: cm_Len_def)
  moreover have "cm_Keys e ?m3 = None" by (rule cm_Keys_short [OF assms(5)]) (use count in linarith)
  ultimately show ?thesis using reach contents by blast
qed

theorem lost_count_witness:
  "\<exists>m. set_reach [(''a'', 1::nat), (''b'', 2)] (NewConcurrentMap 2, [Entering, Entering]) (m, [Returned, Returned])
    \<and> cm_Len m = int (card (dom (cm_Get m))) - 1 \<and> cm_Keys (env_at 0) m = None"
proof -
  have "cm_getKeyPos (NewConcurrentMap 2 :: nat ConcurrentMap) ''a'' \<noteq> cm_getKeyPos (NewConcurrentMap 2 :: nat ConcurrentMap) ''b''"
    by (simp add: cm_getKeyPos_def NewConcurrentMap_def MaxConSize_def Let_def HashKey_def fnv32_step_def)
  then show ?thesis
    using lost_count [of "NewConcurrentMap 2" "''a''" "''b''" "env_at 0" "1::nat" 2] by auto
qed

end
