(* ===== verification/Stream_Object.thy ===== *)
theory Stream_Object
  imports Stream_Cmd Key_Object
begin

text \<open>
  The stream commands as operations on an abstract log of entries, and the identifiers that
  the commands print and read.
\<close>

section \<open>The abstract log\<close>

datatype stream_op = XADD StreamID "string list" | XRANGE "StreamID option" "StreamID option"

text \<open>
  The first identifier of a log gets the number 0. An identifier below the last one is
  refused; one equal to it is accepted, and the entries with that identifier then all have
  the new fields.
\<close>

definition log_add :: "StreamID \<Rightarrow> string list \<Rightarrow> (StreamID \<times> string list) list \<Rightarrow> (StreamID \<times> string list) list" where
  "log_add i fs xs = map (\<lambda>(j, gs). (j, if j = i then fs else gs)) xs @ [(i, fs)]"

text \<open>
  A range starts at the first entry whose time and whose number are both at least those of the
  start, and ends before the first entry that is not below the end.
\<close>

definition log_range :: "StreamID option \<Rightarrow> StreamID option \<Rightarrow> (StreamID \<times> string list) list \<Rightarrow> (StreamID \<times> string list) list" where
  "log_range a b xs = dropWhile (\<lambda>(i, _). case a of None \<Rightarrow> False | Some s \<Rightarrow> \<not> GreaterEqual i s)
     (takeWhile (\<lambda>(i, _). case b of None \<Rightarrow> True | Some t \<Rightarrow> \<not> id_le t i) xs)"

definition log_reply :: "(StreamID \<times> string list) list \<Rightarrow> RedisData option" where
  "log_reply xs = (if xs = [] then None
     else Some (MakeArrayData (map (\<lambda>(i, fs). MakeArrayData [StringData (Format i), MakeArrayData (map StringData fs)]) xs)))"

fun stream_spec :: "stream_op \<Rightarrow> (StreamID \<times> string list) list option \<Rightarrow> (StreamID \<times> string list) list option \<times> RedisData option" where
  "stream_spec (XADD i fs) a =
     (let xs = (case a of None \<Rightarrow> [] | Some xs \<Rightarrow> xs) in
      if xs = [] then (Some [(i\<lparr>seqNum := 0\<rparr>, fs)], Some (BulkData (Some (Format (i\<lparr>seqNum := 0\<rparr>)))))
      else if id_le (fst (last xs)) i then (Some (log_add i fs xs), Some (BulkData (Some (Format i))))
      else (a, Some (ErrorData top_err)))"
| "stream_spec (XRANGE s t) a = (let xs = (case a of None \<Rightarrow> [] | Some xs \<Rightarrow> xs) in (Some xs, log_reply (log_range s t xs)))"

definition id_valid :: "StreamID \<Rightarrow> bool" where
  "id_valid i \<longleftrightarrow> 0 \<le> stime i \<and> in64 (stime i) \<and> 0 \<le> seqNum i \<and> in64 (seqNum i)"

fun stream_valid :: "stream_op \<Rightarrow> bool" where
  "stream_valid (XADD i fs) \<longleftrightarrow> id_valid i \<and> fs \<noteq> [] \<and> even (length fs)"
| "stream_valid (XRANGE s t) \<longleftrightarrow> pred_option id_valid s \<and> pred_option id_valid t"

definition bound_arg :: "string \<Rightarrow> StreamID option \<Rightarrow> slice" where
  "bound_arg unbounded b = Some (case b of None \<Rightarrow> unbounded | Some i \<Rightarrow> Format i)"

fun stream_cmd :: "env \<Rightarrow> MemDb \<Rightarrow> string \<Rightarrow> stream_op \<Rightarrow> result" where
  "stream_cmd e m k (XADD i fs) = xadd e m (Some ''xadd'' # Some k # Some (Format i) # map Some fs)"
| "stream_cmd e m k (XRANGE s t) = xrange e m [Some ''xrange'', Some k, bound_arg ''-'' s, bound_arg ''+'' t]"

text \<open>A nil reply is a value here.\<close>

definition stream_exec :: "env \<Rightarrow> MemDb \<Rightarrow> string \<Rightarrow> stream_op \<Rightarrow> (MemDb \<times> RedisData option option) option" where
  "stream_exec e m k op = map_option (apsnd Some) (stream_cmd e m k op)"

section \<open>Identifiers as arguments\<close>

lemma Split_Format: "id_valid i \<Longrightarrow> Split (CHR ''-'') (Format i) = [FormatInt (stime i), FormatInt (seqNum i)]"
  using FormatInt_no_minus [of "stime i"] FormatInt_no_minus [of "seqNum i"]
  by (simp add: id_valid_def Format_def Split_append_sep Split_no_sep)

lemma full_id_Format: "id_valid i \<Longrightarrow> full_id (Format i) = Some i"
  using Split_Format [of i] by (simp add: full_id_def id_valid_def)

lemma Format_chars: "id_valid i \<Longrightarrow> c \<in> set (Format i) \<Longrightarrow> is_digit c \<or> c = CHR ''-''"
  using fmt_nat_digits by (auto simp: Format_def FormatInt_def id_valid_def split: if_splits)

lemma digit_unchanged: "is_digit c \<or> c = CHR ''-'' \<Longrightarrow> is_ascii c \<and> lower_char c = c"
  by (auto simp: is_digit_def is_ascii_def lower_char_def)

lemma lower_Format: "id_valid i \<Longrightarrow> lower e (Format i) = Format i"
  using Format_chars digit_unchanged unfolding ToLower_def by (simp add: list_all_iff map_idI)

lemma Format_no_letter: "id_valid i \<Longrightarrow> c \<in> set s \<Longrightarrow> \<not> is_digit c \<Longrightarrow> c \<noteq> CHR ''-'' \<Longrightarrow> Format i \<noteq> s"
  using Format_chars by blast

lemma Format_not_option:
  assumes "id_valid i"
  shows "Format i \<noteq> ''nomkstream''" "Format i \<noteq> ''maxlen''" "Format i \<noteq> ''minid''" "Format i \<noteq> ''limit''" "Format i \<noteq> ''~''" "Format i \<noteq> ''*''"
    "Format i \<noteq> ''+''"
  by (rule Format_no_letter [OF assms, of "CHR ''m''"] Format_no_letter [OF assms, of "CHR ''~''"] Format_no_letter [OF assms, of "CHR ''*''"]
    Format_no_letter [OF assms, of "CHR ''i''"] Format_no_letter [OF assms, of "CHR ''+''"]; simp add: is_digit_def)+

lemma Format_not_minus: "id_valid i \<Longrightarrow> Format i \<noteq> ''-''"
  using full_id_Format [of i] by (auto simp: full_id_def ParseInt_def parse_nat_def)

lemma xadd_args_Format: "id_valid i \<Longrightarrow> xadd_args e (Some (Format i) # cs) f = Some (Inr (f, i, cs))"
  using Format_not_option [of i] by (simp add: lower_Format full_id_Format)

lemma range_id_bound:
  "id_valid i \<Longrightarrow> range_id ''-'' (Format i) = Inr i" "id_valid i \<Longrightarrow> range_id ''+'' (Format i) = Inr i"
  using Parse_Format [of i] Format_not_minus [of i] Format_not_option(7) [of i] by (simp_all add: range_id_def id_valid_def)

section \<open>The handlers implement the log\<close>

definition stream_log :: "Stream \<Rightarrow> (StreamID \<times> string list) list" where
  "stream_log s = map (\<lambda>i. (i, entry_of s i)) (timeStamps s)"

definition stream_slot :: "MemDb \<Rightarrow> string \<Rightarrow> (StreamID \<times> string list) list option \<Rightarrow> bool" where
  "stream_slot m k a \<longleftrightarrow> (case a of None \<Rightarrow> cm_Get (db m) k = None
     | Some xs \<Rightarrow> \<exists>s. cm_Get (db m) k = Some (VStream s) \<and> stream_log s = xs \<and> stream_ok s \<and> stream_sorted s
         \<and> list_all id_valid (timeStamps s))"

lemma entry_of_update:
  assumes "id_valid i" and "id_valid j"
  shows "entry_of (s\<lparr>timeStamps := ts, entry := AList.update (Format i) fs (entry s)\<rparr>) j = (if j = i then fs else entry_of s j)"
  using assms Format_inj [of i j] by (auto simp: entry_of_def id_valid_def update_conv')

lemma AddEntry_first:
  "timeStamps s = [] \<Longrightarrow> id_valid i \<Longrightarrow>
   AddEntry e s i fs = Inr (s\<lparr>timeStamps := [i\<lparr>seqNum := 0\<rparr>], entry := AList.update (Format (i\<lparr>seqNum := 0\<rparr>)) fs (entry s)\<rparr>, i\<lparr>seqNum := 0\<rparr>)"
  by (auto simp: AddEntry_def id_valid_def Let_def)

lemma AddEntry_next:
  "timeStamps s \<noteq> [] \<Longrightarrow> id_valid i \<Longrightarrow>
   AddEntry e s i fs = (if id_le (last (timeStamps s)) i
     then Inr (s\<lparr>timeStamps := timeStamps s @ [i], entry := AList.update (Format i) fs (entry s)\<rparr>, i) else Inl top_err)"
  by (auto simp: AddEntry_def id_valid_def id_le_def Let_def)

lemma add_to_log:
  assumes "stream_ok s" and "stream_sorted s" and "list_all id_valid (timeStamps s)" and "id_valid i"
    and "timeStamps s \<noteq> [] \<Longrightarrow> id_le (last (timeStamps s)) i"
    and "s' = s\<lparr>timeStamps := timeStamps s @ [i], entry := AList.update (Format i) fs (entry s)\<rparr>"
  shows "stream_log s' = log_add i fs (stream_log s) \<and> stream_ok s' \<and> stream_sorted s' \<and> list_all id_valid (timeStamps s')"
proof -
  have e: "entry_of s' j = (if j = i then fs else entry_of s j)" if "id_valid j" for j
    unfolding assms(6) by (rule entry_of_update [OF assms(4) that])
  have old: "map (\<lambda>j. (j, entry_of s' j)) (timeStamps s) = map (\<lambda>j. (j, if j = i then fs else entry_of s j)) (timeStamps s)"
    by (rule map_cong [OF refl]) (use e assms(3) in \<open>simp add: list_all_iff\<close>)
  have new: "timeStamps s' = timeStamps s @ [i]" "(i, entry_of s' i) = (i, fs)" using assms(6) e [OF assms(4)] by simp_all
  have "stream_log s' = map (\<lambda>j. (j, entry_of s' j)) (timeStamps s) @ [(i, fs)]"
    unfolding stream_log_def new(1) map_append list.map new(2) ..
  also have "\<dots> = log_add i fs (stream_log s)" unfolding old log_add_def stream_log_def map_map comp_def prod.case ..
  finally have "stream_log s' = log_add i fs (stream_log s)" .
  moreover have snoc: "sorted_wrt R (timeStamps s @ [i])"
    if "sorted_wrt R (timeStamps s)" "\<And>a b c. R a b \<Longrightarrow> R b c \<Longrightarrow> R a c" "\<And>a. id_le a i \<Longrightarrow> R a i" for R
  proof (cases "timeStamps s = []")
    case False
    show ?thesis by (rule sorted_wrt_snoc_last [OF that(1) False that(3) [OF assms(5) [OF False]] that(2)])
  qed simp
  have "sorted_wrt id_le (timeStamps s @ [i])"
    using assms(2) by (intro snoc) (auto simp: stream_sorted_def intro: id_le_trans)
  moreover have "sorted_wrt (\<lambda>i j. stime i \<le> stime j) (timeStamps s @ [i])"
    using assms(1) by (intro snoc) (auto simp: stream_ok_def id_le_def)
  ultimately show ?thesis using assms(1,3,4,6) by (auto simp: stream_ok_def stream_sorted_def)
qed

lemma last_log: "timeStamps s \<noteq> [] \<Longrightarrow> fst (last (stream_log s)) = last (timeStamps s)"
  by (simp add: stream_log_def last_map)

lemma log_add_Nil: "log_add i fs [] = [(i, fs)]"
  by (simp add: log_add_def)

text \<open>XADD on the stream under the key, or on a new one.\<close>

lemma xadd_entry_step:
  assumes "db_ok m" and "stream_ok s" and "stream_sorted s" and "list_all id_valid (timeStamps s)" and "id_valid i"
    and "stream_log s = (case a of None \<Rightarrow> [] | Some xs \<Rightarrow> xs)" and "stream_slot m k a"
  shows "\<exists>m'. xadd_entry e m k xadd_opts0 i fs s = Some (m', snd (stream_spec (XADD i fs) a)) \<and> db_ok m'
    \<and> stream_slot m' k (fst (stream_spec (XADD i fs) a)) \<and> only_key k m m'"
proof -
  have put: "\<exists>m'. reply (db_put m k (VStream s')) r = Some (m', Some r) \<and> db_ok m' \<and> stream_slot m' k (Some xs) \<and> only_key k m m'"
    if "stream_log s' = xs \<and> stream_ok s' \<and> stream_sorted s' \<and> list_all id_valid (timeStamps s')" for s' xs r
    using that assms(1) only_key_put [OF assms(1), of k] db_okD(1) [OF assms(1)] by (simp add: stream_slot_def)
  have trim: "xadd_trim xadd_opts0 j s' = Some s'" for j s' by (simp add: xadd_trim_def xadd_opts0_def)
  show ?thesis
  proof (cases "timeStamps s = []")
    case True
    let ?i = "i\<lparr>seqNum := 0\<rparr>"
    let ?s = "s\<lparr>timeStamps := timeStamps s @ [?i], entry := AList.update (Format ?i) fs (entry s)\<rparr>"
    have "id_valid ?i" using assms(5) by (simp add: id_valid_def in64_def)
    then have "stream_log ?s = log_add ?i fs (stream_log s) \<and> stream_ok ?s \<and> stream_sorted ?s \<and> list_all id_valid (timeStamps ?s)"
      using True by (intro add_to_log [OF assms(2-4)]) auto
    moreover have log: "stream_log s = []" using True by (simp add: stream_log_def)
    ultimately have st: "stream_log ?s = [(?i, fs)] \<and> stream_ok ?s \<and> stream_sorted ?s \<and> list_all id_valid (timeStamps ?s)"
      by (simp only: log_add_Nil)
    have run: "xadd_entry e m k xadd_opts0 i fs s = reply (db_put m k (VStream ?s)) (BulkData (Some (Format ?i)))"
      using True assms(5) by (simp add: xadd_entry_def AddEntry_first trim)
    have spec: "stream_spec (XADD i fs) a = (Some [(?i, fs)], Some (BulkData (Some (Format ?i))))" using log assms(6) by simp
    show ?thesis unfolding run spec fst_conv snd_conv by (rule put [OF st])
  next
    case False
    then have xs: "(case a of None \<Rightarrow> [] | Some xs \<Rightarrow> xs) \<noteq> []" "fst (last (case a of None \<Rightarrow> [] | Some xs \<Rightarrow> xs)) = last (timeStamps s)"
      using assms(6) last_log [OF False] by (auto simp: stream_log_def split: option.splits)
    show ?thesis
    proof (cases "id_le (last (timeStamps s)) i")
      case True
      let ?s = "s\<lparr>timeStamps := timeStamps s @ [i], entry := AList.update (Format i) fs (entry s)\<rparr>"
      have st: "stream_log ?s = log_add i fs (stream_log s) \<and> stream_ok ?s \<and> stream_sorted ?s \<and> list_all id_valid (timeStamps ?s)"
        using True by (intro add_to_log [OF assms(2-5)]) auto
      have run: "xadd_entry e m k xadd_opts0 i fs s = reply (db_put m k (VStream ?s)) (BulkData (Some (Format i)))"
        using True False assms(5) by (simp add: xadd_entry_def AddEntry_next trim)
      have spec: "stream_spec (XADD i fs) a = (Some (log_add i fs (stream_log s)), Some (BulkData (Some (Format i))))"
        using True xs unfolding assms(6) by (simp add: Let_def)
      show ?thesis unfolding run spec fst_conv snd_conv by (rule put [OF st])
    next
      case notle: False
      then show ?thesis using False xs assms(1,5,7) by (simp add: xadd_entry_def AddEntry_next Let_def only_key_refl)
    qed
  qed
qed

lemma new_log: "stream_log NewStream = []" "timeStamps NewStream = []"
  by (simp_all add: stream_log_def NewStream_def)

lemma xadd_step:
  assumes "db_ok m" and "stream_slot m k a" and "stream_valid (XADD i fs)"
  shows "\<exists>m'. stream_cmd e m k (XADD i fs) = Some (m', snd (stream_spec (XADD i fs) a)) \<and> db_ok m'
    \<and> stream_slot m' k (fst (stream_spec (XADD i fs) a)) \<and> only_key k m m'"
proof -
  have i: "id_valid i" and n: "2 \<le> length fs" "even (length fs)"
    using assms(3) by (cases fs; auto simp: Suc_le_eq)+
  obtain s where s: "stream_ok s" "stream_sorted s" "list_all id_valid (timeStamps s)"
      "stream_log s = (case a of None \<Rightarrow> [] | Some xs \<Rightarrow> xs)"
      "stream_cmd e m k (XADD i fs) = xadd_entry e m k xadd_opts0 i fs s"
  proof (cases a)
    case None
    then show ?thesis
      using that [of NewStream, OF stream_ok_New] assms(2) n new_log
      by (simp add: stream_slot_def xadd_def xadd_args_Format [OF i] xadd_opts0_def del: xadd_args.simps)
  next
    case (Some xs)
    then obtain s where "cm_Get (db m) k = Some (VStream s)" "stream_log s = xs" "stream_ok s" "stream_sorted s"
        "list_all id_valid (timeStamps s)" using assms(2) by (auto simp: stream_slot_def)
    then show ?thesis
      using that [of s] Some n by (simp add: xadd_def xadd_args_Format [OF i] xadd_opts0_def del: xadd_args.simps)
  qed
  show ?thesis unfolding s(5) by (rule xadd_entry_step [OF assms(1) s(1-3) i s(4) assms(2)])
qed

section \<open>Ranges\<close>

definition stops :: "StreamID \<Rightarrow> StreamID \<Rightarrow> bool" where
  "stops b k \<longleftrightarrow> (stime k > stime b \<and> stime b \<noteq> - 1) \<or> (stime k = stime b \<and> seqNum k \<ge> seqNum b)"

definition starts :: "StreamID \<Rightarrow> StreamID \<Rightarrow> bool" where
  "starts a k \<longleftrightarrow> stime k \<ge> stime a \<and> (seqNum k \<ge> seqNum a \<or> seqNum a = - 1)"

lemma range_scan_Cons:
  "range_scan a b flag (k # ks) =
     (if stops b k then [] else if flag \<or> starts a k then k # range_scan a b True ks else range_scan a b False ks)"
  unfolding range_scan.simps(2) stops_def [symmetric] starts_def [symmetric] Let_def by simp

lemma range_scan_eq:
  "range_scan a b True ks = takeWhile (\<lambda>k. \<not> stops b k) ks"
  "range_scan a b False ks = dropWhile (\<lambda>k. \<not> starts a k) (takeWhile (\<lambda>k. \<not> stops b k) ks)"
  by (induction ks) (simp_all add: range_scan_Cons del: range_scan.simps(2))

definition bound_id :: "StreamID option \<Rightarrow> StreamID" where
  "bound_id b = (case b of None \<Rightarrow> auto_id | Some i \<Rightarrow> i)"

lemma starts_bound: "pred_option id_valid a \<Longrightarrow> id_valid k \<Longrightarrow> \<not> starts (bound_id a) k \<longleftrightarrow> (case a of None \<Rightarrow> False | Some s \<Rightarrow> \<not> GreaterEqual k s)"
  by (auto simp: starts_def bound_id_def auto_id_def id_valid_def GreaterEqual_def split: option.split)

lemma stops_bound: "pred_option id_valid b \<Longrightarrow> id_valid k \<Longrightarrow> \<not> stops (bound_id b) k \<longleftrightarrow> (case b of None \<Rightarrow> True | Some t \<Rightarrow> \<not> id_le t k)"
  by (auto simp: stops_def bound_id_def auto_id_def id_valid_def id_le_def split: option.split)

lemma range_arg:
  assumes "pred_option id_valid a" "pred_option id_valid b"
  shows "range_id ''-'' (str (bound_arg ''-'' a)) = Inr (bound_id a)" "range_id ''+'' (str (bound_arg ''+'' b)) = Inr (bound_id b)"
  using assms by (auto simp: bound_arg_def bound_id_def range_id_bound split: option.split) (simp_all add: range_id_def)

lemma log_range_ids:
  assumes "list_all id_valid ts" and "pred_option id_valid a" "pred_option id_valid b"
  shows "log_range a b (map (\<lambda>i. (i, f i)) ts) = map (\<lambda>i. (i, f i)) (range_scan (bound_id a) (bound_id b) False ts)"
proof -
  have t: "takeWhile (\<lambda>k. \<not> stops (bound_id b) k) ts = takeWhile (\<lambda>k. case b of None \<Rightarrow> True | Some t \<Rightarrow> \<not> id_le t k) ts"
    using assms(1) by (intro takeWhile_cong refl) (simp add: stops_bound [OF assms(3)] list_all_iff)
  have "dropWhile (\<lambda>k. \<not> starts (bound_id a) k) us = dropWhile (\<lambda>k. case a of None \<Rightarrow> False | Some s \<Rightarrow> \<not> GreaterEqual k s) us"
    if "set us \<subseteq> set ts" for us
  proof (rule dropWhile_cong [OF refl])
    fix x assume "x \<in> set us"
    then have "id_valid x" using assms(1) that by (auto simp: list_all_iff)
    then show "(\<not> starts (bound_id a) x) = (case a of None \<Rightarrow> False | Some s \<Rightarrow> \<not> GreaterEqual x s)" by (rule starts_bound [OF assms(2)])
  qed
  then have d: "dropWhile (\<lambda>k. \<not> starts (bound_id a) k) (takeWhile P ts)
      = dropWhile (\<lambda>k. case a of None \<Rightarrow> False | Some s \<Rightarrow> \<not> GreaterEqual k s) (takeWhile P ts)" for P
    by (meson set_takeWhileD subsetI)
  show ?thesis unfolding range_scan_eq log_range_def t d takeWhile_map dropWhile_map comp_def prod.case ..
qed

lemma StreamRange_bounds:
  assumes "list_all id_valid (timeStamps s)" and "pred_option id_valid a" "pred_option id_valid b" and "timeStamps s \<noteq> []"
  shows "StreamRange s (bound_id a) (bound_id b) = Some (map fst (log_range a b (stream_log s)), map snd (log_range a b (stream_log s)))"
proof (cases "stime (bound_id a) = - 1 \<and> stime (bound_id b) = - 1")
  case True
  then have "a = None" "b = None" using assms(2,3) by (auto simp: bound_id_def id_valid_def split: option.splits)
  then show ?thesis using True assms(4) by (simp add: StreamRange_def log_range_def stream_log_def comp_def takeWhile_map takeWhile_eq_all_conv [THEN iffD2])
next
  case False
  show ?thesis
    unfolding StreamRange_def if_not_P [OF assms(4)] if_not_P [OF False] Let_def stream_log_def log_range_ids [OF assms(1-3)]
    by (simp add: comp_def)
qed

lemma xrange_step:
  assumes "db_ok m" and "stream_slot m k a" and "stream_valid (XRANGE s t)"
  shows "\<exists>m'. stream_cmd e m k (XRANGE s t) = Some (m', snd (stream_spec (XRANGE s t) a)) \<and> db_ok m'
    \<and> stream_slot m' k (fst (stream_spec (XRANGE s t) a)) \<and> only_key k m m'"
proof -
  have v: "pred_option id_valid s" "pred_option id_valid t" using assms(3) by simp_all
  have args: "arg [Some ''xrange'', Some k, bound_arg ''-'' s, bound_arg ''+'' t] 1 = Some k"
    "arg [Some ''xrange'', Some k, bound_arg ''-'' s, bound_arg ''+'' t] 2 = Some (str (bound_arg ''-'' s))"
    "arg [Some ''xrange'', Some k, bound_arg ''-'' s, bound_arg ''+'' t] 3 = Some (str (bound_arg ''+'' t))" by simp_all
  show ?thesis
  proof (cases a)
    case None
    then have "stream_cmd e m k (XRANGE s t) = Some (db_put m k (VStream NewStream), None)"
      using assms(2) args by (simp add: stream_slot_def xrange_def range_arg [OF v] StreamRange_def new_log)
    moreover have "stream_spec (XRANGE s t) a = (Some [], None)" unfolding None by (simp add: log_reply_def log_range_def)
    ultimately show ?thesis
      using only_key_put [OF assms(1)] db_okD(1) [OF assms(1)] assms(1) by (simp add: stream_slot_def new_log)
  next
    case (Some xs)
    then obtain st where st: "cm_Get (db m) k = Some (VStream st)" "stream_log st = xs" "list_all id_valid (timeStamps st)"
      using assms(2) by (auto simp: stream_slot_def)
    have "stream_cmd e m k (XRANGE s t) = Some (m, log_reply (log_range s t xs))"
    proof (cases "timeStamps st = []")
      case True
      then show ?thesis
        using st args by (simp add: xrange_def range_arg [OF v] StreamRange_def stream_log_def log_reply_def log_range_def)
    next
      case False
      then show ?thesis
        using st(1,2) args StreamRange_bounds [OF st(3) v False]
        by (simp add: xrange_def range_arg [OF v] log_reply_def xrange_reply_def zip_map_fst_snd)
    qed
    then show ?thesis using Some assms(1,2) only_key_refl by simp
  qed
qed

interpretation sto: key_object stream_slot stream_spec stream_valid stream_exec
proof unfold_locales
  fix m e k a op
  assume "db_ok m" "stream_slot m k a" "stream_valid op"
  then have "\<exists>m'. stream_cmd e m k op = Some (m', snd (stream_spec op a)) \<and> db_ok m' \<and> stream_slot m' k (fst (stream_spec op a)) \<and> only_key k m m'"
    using xadd_step xrange_step by (cases op) blast+
  then show "\<exists>m'. stream_exec e m k op = Some (m', Some (snd (stream_spec op a))) \<and> db_ok m' \<and> stream_slot m' k (fst (stream_spec op a)) \<and> only_key k m m'"
    by (auto simp: stream_exec_def)
qed (auto simp: stream_slot_def split: option.splits)



text \<open>
  Identifiers that the server makes itself cannot be read back: XADD with an automatic
  identifier on a stream whose last entry is older than the clock leaves the number at -1, and
  the identifier it replies with is refused as an argument of XRANGE.
\<close>

theorem xadd_auto_unreadable:
  assumes "timeStamps s \<noteq> []" and "stime (last (timeStamps s)) < now_ms e" and "0 \<le> now_ms e"
  shows "\<exists>s' i. AddEntry e s auto_id fs = Inr (s', i) \<and> stime i = now_ms e \<and> Parse (Format i) = Inl id_err"
proof -
  let ?i = "\<lparr>stime = now_ms e, seqNum = - 1\<rparr>"
  have "CHR ''-'' \<notin> set (FormatInt (now_ms e))" by (rule FormatInt_no_minus [OF assms(3)])
  then have "Split (CHR ''-'') (Format ?i) = [FormatInt (now_ms e), [], ''1'']"
    by (simp add: Format_def Split_append_sep FormatInt_eval)
  then have "Parse (Format ?i) = Inl id_err" by (simp add: Parse_def)
  moreover have "\<exists>s'. AddEntry e s auto_id fs = Inr (s', ?i)" using assms by (simp add: AddEntry_def auto_id_def Let_def)
  ultimately show ?thesis by force
qed

theorem xadd_auto_unreadable_witness:
  "\<exists>s' i. AddEntry (env_at 9) \<lparr>entry = [], timeStamps = [\<lparr>stime = 6, seqNum = 0\<rparr>]\<rparr> auto_id [''f'', ''v''] = Inr (s', i)
     \<and> stime i = 9000 \<and> Parse (Format i) = Inl id_err"
  using xadd_auto_unreadable [of "\<lparr>entry = [], timeStamps = [\<lparr>stime = 6, seqNum = 0\<rparr>]\<rparr>" "env_at 9" "[''f'', ''v'']"] by simp

end
