(* ===== verification/Spec2Isabelle.thy ===== *)
theory Spec2Isabelle
  imports Raft_Execution Cluster Typed_Keys Map_Threads Stream_Object
begin

text \<open>
  RedisGO is a server that speaks the Redis protocol, keeps its data in memory and can run as a
  cluster on the raft library of etcd, which is part of the repository (\<open>src/etcd\<close>). This
  development models the server, its data types and the raft library, and proves what makes them
  correct.

  \<^bold>\<open>The parts and how they interact.\<close> A connection delivers bytes to the parser of
  \<open>src/resp/parser.go\<close>. The manager of \<open>src/server\<close> takes each parsed command, filters it, and
  executes it on the current database of \<open>src/memdb\<close>: the handler of the command is looked up in the
  command table, takes the locks of its keys, reads or changes the sharded map of keys, and returns
  a reply that is printed back. Expiry times start timers, SUBSCRIBE starts a goroutine for each
  channel, and the blocking list commands poll. In a cluster the command is joined to one
  string, proposed to raft, and executed by every node when raft commits it.

  \<^bold>\<open>Theories and sources.\<close> One theory for each component, in the order in which the code uses them:
  \<^item> \<open>Prelude\<close>: integers of 64 bits, byte slices, \<open>strconv\<close> and \<open>strings\<close>, and what a command reads
    from its surroundings (clock, iteration order of maps, rounding of floats).
  \<^item> \<open>Util\<close> (\<open>src/util/util.go\<close>), \<open>Resp\<close> (\<open>src/resp\<close>).
  \<^item> \<open>Concurrent_Map\<close>, \<open>Map_Threads\<close> (\<open>src/memdb/concurrentmap.go\<close>), \<open>Dblock\<close> (\<open>dblock.go\<close>).
  \<^item> The data types of \<open>src/memdb\<close>: \<open>List_Struct\<close>, \<open>List_Refine\<close> (\<open>list_struct.go\<close>, nodes in a
    store), \<open>Set_Struct\<close> (\<open>sets_struct.go\<close>), \<open>Hash_Struct\<close> (\<open>hash_struct.go\<close>), \<open>Btree\<close> (\<open>btree.go\<close>,
    \<open>sorted_set_struct.go\<close>), \<open>Stream_Struct\<close> (\<open>stream_struct.go\<close>), \<open>Pubsub_Struct\<close>
    (\<open>pubsub_struct.go\<close>).
  \<^item> \<open>Memdb\<close> (\<open>db.go\<close>) and the handlers: \<open>Keys_Cmd\<close> (\<open>keys.go\<close>), \<open>String_Cmd\<close> (\<open>string.go\<close>), \<open>List_Cmd\<close>
    (\<open>list.go\<close>), \<open>Set_Cmd\<close> (\<open>sets.go\<close>), \<open>Hash_Cmd\<close> (\<open>hash.go\<close>), \<open>Zset_Cmd\<close> (\<open>sorted_set.go\<close>),
    \<open>Stream_Cmd\<close> (\<open>stream.go\<close>), \<open>Pubsub_Cmd\<close> (\<open>pubsub.go\<close>, \<open>raft_command.go\<close>).
  \<^item> \<open>Key_Object\<close> states what it means that the commands of one data type implement independent
    abstract objects, one for each key; \<open>List_Object\<close>, \<open>Set_Object\<close>, \<open>Hash_Object\<close> and \<open>Stream_Object\<close>
    show it for the four types, and \<open>Typed_Keys\<close> that a key of another type is refused.
  \<^item> \<open>Server\<close> (\<open>src/server\<close>, \<open>src/memdb/command.go\<close>, \<open>src/main.go\<close>), \<open>System\<close> (the running server with
    many clients, timers and subscriptions as a step relation), \<open>Cluster\<close> (execution of the
    committed log on several nodes).
  \<^item> The raft library, \<open>src/etcd/raft\<close>: \<open>Raft_Types\<close> (\<open>raftpb\<close>, \<open>util.go\<close>), \<open>Raft_Codec\<close> (the wire
    format, \<open>raftpb/raft.pb.go\<close>), \<open>Raft_Quorum\<close> (\<open>quorum\<close>), \<open>Raft_Inflights\<close> and \<open>Raft_Tracker\<close>
    (\<open>tracker\<close>), \<open>Raft_Storage\<close> (\<open>storage.go\<close>), \<open>Raft_Log\<close> (\<open>log_unstable.go\<close>, \<open>log.go\<close>),
    \<open>Raft_Confchange\<close> (\<open>confchange\<close>), \<open>Raft_Core\<close> (\<open>raft.go\<close>, \<open>read_only.go\<close>: the state machine), \<open>Raft_Node\<close>
    (\<open>rawnode.go\<close>, \<open>bootstrap.go\<close>, \<open>Ready\<close>), \<open>Raft_Run\<close> (\<open>node.go\<close>: a turn of its goroutine).
  \<^item> \<open>Raft_Serve\<close> (\<open>src/raftexample/raft.go\<close>): the service that stores, sends and publishes what raft hands
    out, and starts it from disk.
  \<^item> Proofs about the state machine: \<open>Raft_Frame\<close> (rules for postconditions of functions that may panic,
    and what each function of \<open>raft.go\<close> leaves alone), \<open>Raft_Hard\<close> (term, vote and commit index),
    \<open>Raft_Flow\<close> (the messages to a follower), \<open>Raft_Vote\<close> (the invariant of votes and roles in one
    node), \<open>Raft_Election\<close> (the cluster as a step relation, with a network and disks), \<open>Raft_Execution\<close>
    (an interpreter of these steps, and runs).

  A struct is a record with the fields of the source, an enumeration a datatype, a Go function or
  method a function of the same name, with a prefix where two receivers share it. A run-time panic
  is \<open>None\<close>; an error that the source returns is a value. What the code mutates is passed and
  returned. Every loop that the source bounds is a terminating function.

  \<^bold>\<open>What the lemmas show.\<close> For every data type an invariant that all operations keep; for the commands
  of lists, sets, hashes and streams a refinement to abstract objects; for the parser that it
  inverts the printer and ends; for the locks mutual exclusion and freedom from deadlock; for
  the whole server that every database stays well formed under any interleaving, and that list
  requests sent as bytes are answered as by abstract lists; for the cluster that replicas agree. For
  raft: the quorums and commit indices are those of the definition, the window of messages is a
  bounded queue, the log keeps the log matching property and hands out every committed entry
  once, changes of the configuration keep intersecting quorums, and messages survive
  marshalling. The hard state of a node only moves forward, a leader sends its log in order, and in a
  cluster of services over a faulty network, with crashes, a term has at most one leader as
  long as the configuration stays the same. Where the code does not do what it means to, a theorem shows the failing run.

  \<^bold>\<open>Bounds and fuel.\<close> The parser is a partial function over the input with a proof that it returns.
  Allocation fails above \<open>maxAlloc\<close> bytes, which is what Go can allocate at most. The loops of the
  wire format are total: varints have at most ten bytes, and the loop over the fields is shown to
  return on every input. Terms and indices of raft are natural numbers; subtraction wraps. The loop that sends
  entries to a follower is a partial function and is shown to return. The random election timeouts
  come from an arbitrary sequence.

  \<^bold>\<open>Not modelled.\<close> Sockets, signals, start of the process, logging (\<open>src/logger\<close>), the configuration
  file (\<open>src/config\<close>), the pump between two channels (\<open>src/util/chan_pump.go\<close>), the JSON snapshot of a
  database (\<open>GetSnapshot\<close>), and the example store with its HTTP interface (\<open>src/raftexample\<close>
  except \<open>raft.go\<close>), because they are input and output, or no command reaches them. The
  printing and status functions of raft. Of the raft service the files, the transport and its shutdown: what it
  writes and sends are calls in a trace. The rest of \<open>src/etcd\<close> (server, client, api, pkg) is a copy of the etcd
  distribution of which the server calls only the raft library, its transport and its write-ahead
  log; it is not modelled.
\<close>

section \<open>The server as a whole\<close>



section \<open>Lists over the wire\<close>

text \<open>The request that a client sends for a list command; values may hold any bytes.\<close>

definition list_request :: "string \<times> list_op \<Rightarrow> RedisData" where
  "list_request p = MakeArrayData (map (\<lambda>w. BulkData (Some w)) (list_words (fst p) (snd p)))"

definition slice_fits :: "slice \<Rightarrow> bool" where
  "slice_fits v \<longleftrightarrow> (case v of None \<Rightarrow> False | Some w \<Rightarrow> int (length w) + 2 \<le> maxAlloc)"

fun op_fits :: "list_op \<Rightarrow> bool" where
  "op_fits (LPUSH vs) \<longleftrightarrow> list_all slice_fits vs \<and> int (length vs) + 2 \<le> maxAlloc"
| "op_fits (RPUSH vs) \<longleftrightarrow> list_all slice_fits vs \<and> int (length vs) + 2 \<le> maxAlloc"
| "op_fits (LSET i v) \<longleftrightarrow> slice_fits v"
| "op_fits _ \<longleftrightarrow> True"

lemma length_fmt_nat: "n < 10 ^ Suc k \<Longrightarrow> length (fmt_nat n) \<le> Suc k"
proof (induction k arbitrary: n)
  case (Suc k)
  then have "n div 10 < 10 ^ Suc k" by (simp add: less_mult_imp_div_less)
  then show ?case using Suc.IH [of "n div 10"] by (simp add: fmt_nat.simps [of n])
qed (simp add: fmt_nat.simps)

lemma length_FormatInt: "in64 i \<Longrightarrow> int (length (FormatInt i)) + 2 \<le> maxAlloc"
  using length_fmt_nat [of "nat i" 19] length_fmt_nat [of "nat (- i)" 19]
  by (auto simp: FormatInt_def in64_def maxAlloc_def nat_less_iff)

lemma slice_fits_str: "slice_fits v \<Longrightarrow> Some (str v) = v \<and> int (length (str v)) + 2 \<le> maxAlloc"
  by (auto simp: slice_fits_def split: option.splits)

lemma slices_fit: "list_all slice_fits vs \<Longrightarrow> map (Some \<circ> str) vs = vs"
  by (induction vs) (auto simp: slice_fits_str)

lemma list_request_wire:
  assumes "int (length k) + 2 \<le> maxAlloc" and "op_fits op" and "list_valid op"
  shows "wire (list_request (k, op))"
proof -
  have "\<forall>w \<in> set (list_words k op). int (length w) + 2 \<le> maxAlloc"
    using assms length_FormatInt slice_fits_str
    by (cases op) (auto simp: list_all_iff maxAlloc_def)
  moreover have "int (length (list_words k op)) \<le> maxAlloc"
    using assms(2) by (cases op) (auto simp: maxAlloc_def)
  ultimately show ?thesis by (simp add: list_request_def list_all_iff)
qed

lemma serve_list:
  assumes "op_fits op" and "CurrentDB mg < length (DBs mg)"
  shows "serve e mg (PData (list_request (k, op))) =
    map_option (\<lambda>(m, r). (mg\<lparr>DBs := (DBs mg)[CurrentDB mg := m]\<rparr>, Write (reply_bytes r))) (list_exec e (DBs mg ! CurrentDB mg) k op)"
proof -
  have "ToCommand (Some (map (\<lambda>w. BulkData (Some w)) ws)) = map Some ws" for ws by (induction ws) (auto simp: ToCommand_def)
  then have "serve e mg (PData (list_request (k, op))) = map_option
      (\<lambda>(mg, r). (mg, case r of Reply res \<Rightarrow> Write (reply_bytes res) | Waiting fromLeft ks \<Rightarrow> Block fromLeft ks))
      (Manager_ExecCommand e mg (map Some (list_words k op)))" by (simp add: serve_def list_request_def)
  also have "Manager_ExecCommand e mg (map Some (list_words k op)) =
      map_option (\<lambda>(m, r). (mg\<lparr>DBs := (DBs mg)[CurrentDB mg := m]\<rparr>, Reply r)) (list_exec e (DBs mg ! CurrentDB mg) k op)"
    using assms slices_fit slice_fits_str
    by (cases op) (simp_all add: Manager_ExecCommand_run CmdTable_lists ToLower_eval)
  finally show ?thesis by (cases "list_exec e (DBs mg ! CurrentDB mg) k op") auto
qed

lemma Handle_lists:
  "exec_run list_exec es n m ops = Some (m', rs) \<Longrightarrow> \<forall>(k, op) \<in> set ops. op_fits op \<Longrightarrow>
   CurrentDB mg < length (DBs mg) \<Longrightarrow> m = DBs mg ! CurrentDB mg \<Longrightarrow>
   Handle es n mg (map (\<lambda>p. PData (list_request p)) ops @ [PErr err]) =
     Some (mg\<lparr>DBs := (DBs mg)[CurrentDB mg := m']\<rparr>, concat (map ToBytes rs), [], None)"
proof (induction ops arbitrary: n m mg rs)
  case (Cons p ops)
  obtain k op where p: "p = (k, op)" by (cases p)
  from Cons.prems(1) obtain m1 r rs1 where x: "list_exec (es n) m k op = Some (m1, Some r)"
      "exec_run list_exec es (Suc n) m1 ops = Some (m', rs1)" "rs = r # rs1"
    by (auto simp: p split: bind_splits)
  let ?mg = "mg\<lparr>DBs := (DBs mg)[CurrentDB mg := m1]\<rparr>"
  have "Handle es (Suc n) ?mg (map (\<lambda>p. PData (list_request p)) ops @ [PErr err]) =
      Some (?mg\<lparr>DBs := (DBs ?mg)[CurrentDB ?mg := m']\<rparr>, concat (map ToBytes rs1), [], None)"
    using Cons.prems(2,3) by (intro Cons.IH [OF x(2)]) auto
  then show ?case
    using serve_list [of op mg "es n" k] x Cons.prems(2-4) by (simp add: p reply_bytes_def)
next
  case Nil
  then show ?case by (cases mg) (auto simp: serve_def)
qed



end
